(* ===== verification/Kc_Data.thy ===== *)
theory Kc_Data
  imports Prelude
begin

text \<open>
  The data of the configuration language, from support/kconfig/expr.h: three-valued
  truth, expression nodes, symbols and properties. A \<open>struct symbol *\<close> is a value of
  the type \<open>sym\<close>: the four statically allocated symbols, or the address of a symbol
  made by \<open>sym_lookup\<close>; what it points to is in a table \<open>sym \<Rightarrow> symbol\<close>.
\<close>

section \<open>Truth values\<close>

datatype tristate = tri_no | tri_mod | tri_yes

text \<open>The numbering of the enum, which the code relies on when it compares.\<close>

fun tri_num :: "tristate \<Rightarrow> nat" where
  "tri_num tri_no = 0"
| "tri_num tri_mod = 1"
| "tri_num tri_yes = 2"

instantiation tristate :: linorder
begin

definition less_eq_tristate :: "tristate \<Rightarrow> tristate \<Rightarrow> bool" where
  "less_eq_tristate a b \<longleftrightarrow> tri_num a \<le> tri_num b"

definition less_tristate :: "tristate \<Rightarrow> tristate \<Rightarrow> bool" where
  "less_tristate a b \<longleftrightarrow> tri_num a < tri_num b"

instance
proof
  fix a b :: tristate
  show "a \<le> b \<Longrightarrow> b \<le> a \<Longrightarrow> a = b"
    by (cases a; cases b) (simp_all add: less_eq_tristate_def)
qed (auto simp: less_eq_tristate_def less_tristate_def)

end

lemma tri_order [simp]:
  "tri_no \<le> a" "a \<le> tri_yes" "tri_mod \<le> tri_yes" "\<not> tri_yes \<le> tri_mod" "\<not> tri_mod \<le> tri_no"
  "\<not> tri_yes \<le> tri_no" "tri_no < tri_mod" "tri_mod < tri_yes" "tri_no < tri_yes"
  "\<not> a < tri_no" "\<not> tri_yes < a" "\<not> tri_mod < tri_mod" "(a < tri_yes) = (a \<noteq> tri_yes)"
  "(tri_no < a) = (a \<noteq> tri_no)" "(a \<le> tri_no) = (a = tri_no)" "(tri_yes \<le> a) = (a = tri_yes)"
  by (cases a; simp add: less_eq_tristate_def less_tristate_def)+

text \<open>\<open>EXPR_OR\<close>, \<open>EXPR_AND\<close> and \<open>EXPR_NOT\<close> of expr.h.\<close>

definition EXPR_OR :: "tristate \<Rightarrow> tristate \<Rightarrow> tristate" where
  "EXPR_OR dep1 dep2 = (if dep1 > dep2 then dep1 else dep2)"

definition EXPR_AND :: "tristate \<Rightarrow> tristate \<Rightarrow> tristate" where
  "EXPR_AND dep1 dep2 = (if dep1 < dep2 then dep1 else dep2)"

fun EXPR_NOT :: "tristate \<Rightarrow> tristate" where
  "EXPR_NOT tri_no = tri_yes"
| "EXPR_NOT tri_mod = tri_mod"
| "EXPR_NOT tri_yes = tri_no"

lemma EXPR_NOT_num: "tri_num (EXPR_NOT d) = 2 - tri_num d"
  by (cases d) simp_all

lemma EXPR_OR_max: "EXPR_OR a b = max a b"
  by (auto simp: EXPR_OR_def max_def)

lemma EXPR_AND_min: "EXPR_AND a b = min a b"
  by (auto simp: EXPR_AND_def min_def)

lemma tri_min_max [simp]:
  "min tri_no a = tri_no" "min a tri_no = tri_no" "min tri_yes a = a" "min a tri_yes = a"
  "max tri_no a = a" "max a tri_no = a" "max tri_yes a = tri_yes" "max a tri_yes = (tri_yes::tristate)"
  by (cases a; simp add: min_def max_def)+

lemma EXPR_NOT_NOT [simp]: "EXPR_NOT (EXPR_NOT a) = a"
  by (cases a) simp_all

lemma EXPR_NOT_min: "EXPR_NOT (min a b) = max (EXPR_NOT a) (EXPR_NOT b)"
  by (cases a; cases b) (simp_all add: min_def max_def)

lemma EXPR_NOT_max: "EXPR_NOT (max a b) = min (EXPR_NOT a) (EXPR_NOT b)"
  by (cases a; cases b) (simp_all add: min_def max_def)

section \<open>Expression nodes\<close>

text \<open>\<open>enum expr_type\<close>.\<close>

datatype expr_type =
  E_NONE | E_OR | E_AND | E_NOT | E_EQUAL | E_UNEQUAL | E_LIST | E_SYMBOL | E_RANGE

text \<open>Addresses of symbols.\<close>

datatype sym = symbol_yes | symbol_mod | symbol_no | symbol_empty | sym_at nat

text \<open>
  \<open>struct expr\<close>: the union's members follow from the type tag, so each tag is a
  constructor with its operands. These are the nodes of which dependency expressions are
  made; \<open>E_LIST\<close> and \<open>E_RANGE\<close> nodes only ever stand directly in the \<open>expr\<close> field of a
  property, see \<open>prop_expr\<close>.
\<close>

datatype expr =
  Sym sym
| Neg expr
| And expr expr
| Or expr expr
| Equal sym sym
| Unequal sym sym

fun etype :: "expr \<Rightarrow> expr_type" where
  "etype (Sym s) = E_SYMBOL"
| "etype (Neg e) = E_NOT"
| "etype (And l r) = E_AND"
| "etype (Or l r) = E_OR"
| "etype (Equal a b) = E_EQUAL"
| "etype (Unequal a b) = E_UNEQUAL"

text \<open>
  The \<open>expr\<close> field of a property: a dependency expression (\<open>P_DEFAULT\<close>, \<open>P_SELECT\<close>,
  the owner of a choice value), the list of the values of a choice in the order in which
  \<open>expr_list_for_each_sym\<close> walks it from the top node, or the two bounds of a range.
\<close>

datatype prop_expr =
  PE_expr expr
| PE_list "sym list"
| PE_range sym sym

section \<open>Symbols and properties\<close>

datatype symbol_type = S_UNKNOWN | S_BOOLEAN | S_TRISTATE | S_INT | S_HEX | S_STRING | S_OTHER

text \<open>\<open>enum prop_type\<close>.\<close>

datatype prop_type =
  P_UNKNOWN | P_PROMPT | P_COMMENT | P_MENU | P_DEFAULT | P_CHOICE | P_SELECT | P_RANGE | P_ENV
| P_SYMBOL

text \<open>
  The \<open>void *val\<close> of a symbol's value: NULL, a string with its address (string values are
  compared as pointers by \<open>memcmp\<close>, so the address matters), the string that a symbol's
  \<open>name\<close> points to, or for a choice the chosen symbol.
\<close>

datatype val = VNull | VStr nat string | VName sym string | VSym sym

record symbol_value =
  sv_val :: val
  sv_tri :: tristate

record expr_value =
  ev_expr :: "expr option"
  ev_tri :: tristate

record property =
  p_type :: prop_type
  p_text :: "string option"
  p_visible :: expr_value
  p_expr :: "prop_expr option"
  p_menu :: "nat option"
  p_file :: string
  p_lineno :: nat

text \<open>
  \<open>struct symbol\<close>; the hash chain \<open>next\<close> is in the symbol table. \<open>def[]\<close> has the
  user's value and the one of auto.conf, the other two entries are unused by this program.
\<close>

record symbol =
  s_name :: "string option"
  s_type :: symbol_type
  s_curr :: symbol_value
  s_def_user :: symbol_value
  s_def_auto :: symbol_value
  s_visible :: tristate
  s_flags :: u32
  s_prop :: "property list"
  s_dir_dep :: expr_value
  s_rev_dep :: expr_value

type_synonym symtab = "sym \<Rightarrow> symbol"

section \<open>Symbol flags\<close>

definition SYMBOL_CONST :: u32 where "SYMBOL_CONST = 0x0001"
definition SYMBOL_CHECK :: u32 where "SYMBOL_CHECK = 0x0008"
definition SYMBOL_CHOICE :: u32 where "SYMBOL_CHOICE = 0x0010"
definition SYMBOL_CHOICEVAL :: u32 where "SYMBOL_CHOICEVAL = 0x0020"
definition SYMBOL_VALID :: u32 where "SYMBOL_VALID = 0x0080"
definition SYMBOL_OPTIONAL :: u32 where "SYMBOL_OPTIONAL = 0x0100"
definition SYMBOL_WRITE :: u32 where "SYMBOL_WRITE = 0x0200"
definition SYMBOL_CHANGED :: u32 where "SYMBOL_CHANGED = 0x0400"
definition SYMBOL_AUTO :: u32 where "SYMBOL_AUTO = 0x1000"
definition SYMBOL_CHECKED :: u32 where "SYMBOL_CHECKED = 0x2000"
definition SYMBOL_WARNED :: u32 where "SYMBOL_WARNED = 0x8000"
definition SYMBOL_DEF_USER :: u32 where "SYMBOL_DEF_USER = 0x10000"
definition SYMBOL_DEF_AUTO :: u32 where "SYMBOL_DEF_AUTO = 0x20000"
definition SYMBOL_NEED_SET_CHOICE_VALUES :: u32 where "SYMBOL_NEED_SET_CHOICE_VALUES = 0x100000"

text \<open>\<open>sym->flags & f\<close> as a truth value.\<close>

definition has_flag :: "symbol \<Rightarrow> u32 \<Rightarrow> bool" where
  "has_flag s f \<longleftrightarrow> s_flags s AND f \<noteq> 0"

end
