(* ===== verification/Kc_Expr.thy ===== *)
theory Kc_Expr
  imports Kc_Data
begin

text \<open>
  The allocation, copying and constant elimination of expressions of
  support/kconfig/expr.c, and the mutually recursive comparison: \<open>expr_eq\<close> compares two
  conjunctions or disjunctions by removing the operands they share. A NULL pointer is
  \<open>None\<close>; a function the code only calls on a node takes the node. The global
  \<open>trans_count\<close> is passed as a number.
\<close>

section \<open>Allocation\<close>

definition expr_alloc_symbol :: "sym \<Rightarrow> expr" where
  "expr_alloc_symbol s = Sym s"

definition expr_alloc_and :: "expr option \<Rightarrow> expr option \<Rightarrow> expr option" where
  "expr_alloc_and e1 e2 =
     (case e1 of None \<Rightarrow> e2
      | Some a \<Rightarrow> (case e2 of Some b \<Rightarrow> Some (And a b) | None \<Rightarrow> e1))"

definition expr_alloc_or :: "expr option \<Rightarrow> expr option \<Rightarrow> expr option" where
  "expr_alloc_or e1 e2 =
     (case e1 of None \<Rightarrow> e2
      | Some a \<Rightarrow> (case e2 of Some b \<Rightarrow> Some (Or a b) | None \<Rightarrow> e1))"

fun expr_copy :: "expr \<Rightarrow> expr" where
  "expr_copy (Sym s) = Sym s"
| "expr_copy (Neg e) = Neg (expr_copy e)"
| "expr_copy (Equal a b) = Equal a b"
| "expr_copy (Unequal a b) = Unequal a b"
| "expr_copy (And l r) = And (expr_copy l) (expr_copy r)"
| "expr_copy (Or l r) = Or (expr_copy l) (expr_copy r)"

lemma expr_copy_id [simp]: "expr_copy e = e"
  by (induction e) simp_all

text \<open>
  What \<open>expr_free\<close> gives back to the allocator, as the number of nodes it frees: the
  \<open>E_NOT\<close> case returns before the \<open>free\<close> at the end of the function.
\<close>

fun expr_free :: "expr \<Rightarrow> nat" where
  "expr_free (Sym s) = 1"
| "expr_free (Neg e) = expr_free e"
| "expr_free (Equal a b) = 1"
| "expr_free (Unequal a b) = 1"
| "expr_free (Or l r) = expr_free l + expr_free r + 1"
| "expr_free (And l r) = expr_free l + expr_free r + 1"

fun node_count :: "expr \<Rightarrow> nat" where
  "node_count (Neg e) = node_count e + 1"
| "node_count (Or l r) = node_count l + node_count r + 1"
| "node_count (And l r) = node_count l + node_count r + 1"
| "node_count _ = 1"

fun neg_count :: "expr \<Rightarrow> nat" where
  "neg_count (Neg e) = neg_count e + 1"
| "neg_count (Or l r) = neg_count l + neg_count r"
| "neg_count (And l r) = neg_count l + neg_count r"
| "neg_count _ = 0"

text \<open>
  \<open>expr_free\<close> releases every node of an expression except its negations: it leaks
  exactly one node for each \<open>E_NOT\<close> in the tree.
\<close>

theorem expr_free_leaks_negations: "expr_free e + neg_count e = node_count e"
  by (induction e) simp_all

section \<open>Eliminating constants\<close>

fun expr_eliminate_yn :: "expr \<Rightarrow> expr" where
  "expr_eliminate_yn (And l r) =
     (let l' = expr_eliminate_yn l; r' = expr_eliminate_yn r in
      if l' = Sym symbol_no then Sym symbol_no
      else if l' = Sym symbol_yes then r'
      else if r' = Sym symbol_no then Sym symbol_no
      else if r' = Sym symbol_yes then l'
      else And l' r')"
| "expr_eliminate_yn (Or l r) =
     (let l' = expr_eliminate_yn l; r' = expr_eliminate_yn r in
      if l' = Sym symbol_no then r'
      else if l' = Sym symbol_yes then Sym symbol_yes
      else if r' = Sym symbol_no then l'
      else if r' = Sym symbol_yes then Sym symbol_yes
      else Or l' r')"
| "expr_eliminate_yn e = e"

lemma size_eliminate_yn [size_simps]: "size (expr_eliminate_yn e) \<le> size e"
  by (induction e) (auto simp: Let_def)

section \<open>Comparison\<close>

text \<open>
  The two operands of a node of the given binary type (\<open>e->type == type\<close>), and the node
  put together again from its operands.
\<close>

fun split_bin :: "expr_type \<Rightarrow> expr \<Rightarrow> (expr \<times> expr) option" where
  "split_bin E_AND (And l r) = Some (l, r)"
| "split_bin E_OR (Or l r) = Some (l, r)"
| "split_bin _ _ = None"

definition mk_bin :: "expr_type \<Rightarrow> expr \<Rightarrow> expr \<Rightarrow> expr" where
  "mk_bin t l r = (if t = E_OR then Or l r else And l r)"

lemma split_bin_Some: "split_bin t e = Some (l, r) \<longleftrightarrow> (t = E_AND \<or> t = E_OR) \<and> e = mk_bin t l r"
  by (cases "(t, e)" rule: split_bin.cases) (auto simp: mk_bin_def)

lemma split_mk_bin [simp]: "t = E_AND \<or> t = E_OR \<Longrightarrow> split_bin t (mk_bin t l r) = Some (l, r)"
  by (auto simp: mk_bin_def)

lemma size_mk_bin [simp]: "size (mk_bin t l r) = Suc (size l + size r)"
  by (simp add: mk_bin_def)

lemma etype_mk_bin: "t = E_AND \<or> t = E_OR \<Longrightarrow> etype (mk_bin t l r) = t"
  by (auto simp: mk_bin_def)

lemma split_bin_None: "t = E_AND \<or> t = E_OR \<Longrightarrow> split_bin t e = None \<longleftrightarrow> etype e \<noteq> t"
  by (cases "(t, e)" rule: split_bin.cases) auto

text \<open>\<open>symbol_no\<close> for a disjunction, \<open>symbol_yes\<close> for a conjunction: the operand that may be dropped.\<close>

definition neutral :: "expr_type \<Rightarrow> expr" where
  "neutral t = (if t = E_OR then Sym symbol_no else Sym symbol_yes)"

lemma size_neutral [simp]: "size (neutral t) = size (Sym s)"
  by (simp add: neutral_def)

definition is_yn_pair :: "expr \<Rightarrow> expr \<Rightarrow> bool" where
  "is_yn_pair e1 e2 \<longleftrightarrow> e1 = e2 \<and> (e1 = Sym symbol_yes \<or> e1 = Sym symbol_no)"

fun same_symbol :: "expr \<Rightarrow> expr \<Rightarrow> bool" where
  "same_symbol (Sym a) (Sym b) = (a = b)"
| "same_symbol _ _ = False"

function expr_eliminate_eq_rec :: "expr_type \<Rightarrow> expr \<Rightarrow> expr \<Rightarrow> nat \<Rightarrow> expr \<times> expr \<times> nat"
  and expr_eliminate_eq :: "expr \<Rightarrow> expr \<Rightarrow> nat \<Rightarrow> expr \<times> expr \<times> nat"
  and expr_eq :: "expr \<Rightarrow> expr \<Rightarrow> bool"
where
  "expr_eliminate_eq_rec t e1 e2 tc =
     (case split_bin t e1 of
        Some (l, r) \<Rightarrow>
          (case expr_eliminate_eq_rec t l e2 tc of (l', e2', tc1) \<Rightarrow>
           (case expr_eliminate_eq_rec t r e2' tc1 of (r', e2'', tc2) \<Rightarrow>
              (mk_bin t l' r', e2'', tc2)))
      | None \<Rightarrow>
          (case split_bin t e2 of
             Some (l, r) \<Rightarrow>
               (case expr_eliminate_eq_rec t e1 l tc of (e1', l', tc1) \<Rightarrow>
                (case expr_eliminate_eq_rec t e1' r tc1 of (e1'', r', tc2) \<Rightarrow>
                   (e1'', mk_bin t l' r', tc2)))
           | None \<Rightarrow>
               if is_yn_pair e1 e2 then (e1, e2, tc)
               else if \<not> expr_eq e1 e2 then (e1, e2, tc)
               else (neutral t, neutral t, Suc tc)))"
| "expr_eliminate_eq e1 e2 tc =
     (case (if etype e1 = E_OR \<or> etype e1 = E_AND
            then expr_eliminate_eq_rec (etype e1) e1 e2 tc else (e1, e2, tc)) of
        (a1, a2, tc1) \<Rightarrow>
          (case (if etype a1 \<noteq> etype a2 \<and> (etype a2 = E_OR \<or> etype a2 = E_AND)
                 then expr_eliminate_eq_rec (etype a2) a1 a2 tc1 else (a1, a2, tc1)) of
             (b1, b2, tc2) \<Rightarrow> (expr_eliminate_yn b1, expr_eliminate_yn b2, tc2)))"
| "expr_eq e1 e2 =
     (if etype e1 \<noteq> etype e2 then False
      else (case e1 of
              Equal a b \<Rightarrow> e2 = Equal a b
            | Unequal a b \<Rightarrow> e2 = Unequal a b
            | Sym a \<Rightarrow> e2 = Sym a
            | Neg a \<Rightarrow> (case e2 of Neg b \<Rightarrow> expr_eq a b | _ \<Rightarrow> False)
            | _ \<Rightarrow> (case expr_eliminate_eq (expr_copy e1) (expr_copy e2) 0 of
                      (a1, a2, _) \<Rightarrow> same_symbol a1 a2)))"
  by pat_completeness auto

text \<open>
  The comparison calls itself on what an earlier call returned, so the bound on the sizes
  of the results comes before termination.
\<close>

lemma eliminate_eq_rec_size:
  "expr_eliminate_eq_rec_expr_eliminate_eq_expr_eq_dom (Inl (t, e1, e2, tc)) \<Longrightarrow>
     expr_eliminate_eq_rec t e1 e2 tc = (a, b, n) \<Longrightarrow> size a \<le> size e1 \<and> size b \<le> size e2"
  and "expr_eliminate_eq_rec_expr_eliminate_eq_expr_eq_dom (Inr (Inl (e1, e2, tc))) \<Longrightarrow> True"
  and "expr_eliminate_eq_rec_expr_eliminate_eq_expr_eq_dom (Inr (Inr (e1, e2))) \<Longrightarrow> True"
proof (induction t e1 e2 tc and e1 e2 tc and e1 e2 arbitrary: a b n
    rule: expr_eliminate_eq_rec_expr_eliminate_eq_expr_eq.pinduct)
  case (1 t e1 e2 tc)
  show ?case
  proof (cases "split_bin t e1")
    case (Some lr)
    then obtain l r where lr: "split_bin t e1 = Some (l, r)" by (cases lr) auto
    obtain l' e2' tc1 where c1: "expr_eliminate_eq_rec t l e2 tc = (l', e2', tc1)"
      by (cases "expr_eliminate_eq_rec t l e2 tc") auto
    obtain r' e2'' tc2 where c2: "expr_eliminate_eq_rec t r e2' tc1 = (r', e2'', tc2)"
      by (cases "expr_eliminate_eq_rec t r e2' tc1") auto
    from "1.prems" "1.hyps" lr c1 c2 have "a = mk_bin t l' r'" "b = e2''"
      by (simp_all add: expr_eliminate_eq_rec.psimps)
    with "1.IH"(4)[OF lr refl c1] "1.IH"(5)[OF lr refl c1[symmetric] refl c2] lr
    show ?thesis by (auto simp: split_bin_Some)
  next
    case None
    note e1 = None
    show ?thesis
    proof (cases "split_bin t e2")
      case (Some lr)
      then obtain l r where lr: "split_bin t e2 = Some (l, r)" by (cases lr) auto
      obtain e1' l' tc1 where c1: "expr_eliminate_eq_rec t e1 l tc = (e1', l', tc1)"
        by (cases "expr_eliminate_eq_rec t e1 l tc") auto
      obtain e1'' r' tc2 where c2: "expr_eliminate_eq_rec t e1' r tc1 = (e1'', r', tc2)"
        by (cases "expr_eliminate_eq_rec t e1' r tc1") auto
      from "1.prems" "1.hyps" e1 lr c1 c2 have "a = e1''" "b = mk_bin t l' r'"
        by (simp_all add: expr_eliminate_eq_rec.psimps)
      with "1.IH"(2)[OF e1 lr refl c1] "1.IH"(3)[OF e1 lr refl c1[symmetric] refl c2] lr
      show ?thesis by (auto simp: split_bin_Some)
    next
      case None
      with e1 "1.prems" "1.hyps" show ?thesis
        by (auto simp: expr_eliminate_eq_rec.psimps neutral_def split: if_splits)
    qed
  qed
qed simp_all

fun eq_measure :: "(expr_type \<times> expr \<times> expr \<times> nat) + (expr \<times> expr \<times> nat) + (expr \<times> expr) \<Rightarrow> nat" where
  "eq_measure (Inl (t, e1, e2, tc)) =
     (if split_bin t e1 = None \<and> split_bin t e2 = None then 4 * (size e1 + size e2) + 3
      else 4 * (size e1 + size e2))"
| "eq_measure (Inr (Inl (e1, e2, tc))) = 4 * (size e1 + size e2) + 1"
| "eq_measure (Inr (Inr (e1, e2))) = 4 * (size e1 + size e2) + 2"

lemma eq_measure_less: "size a + size b < k \<Longrightarrow> eq_measure (Inl (t, a, b, n)) < 4 * k"
  by simp

lemma eq_measure_split:
  "split_bin t e1 \<noteq> None \<or> split_bin t e2 \<noteq> None \<Longrightarrow>
     eq_measure (Inl (t, e1, e2, tc)) = 4 * (size e1 + size e2)"
  by simp

lemma split_bin_etype: "etype e = E_OR \<or> etype e = E_AND \<Longrightarrow> split_bin (etype e) e \<noteq> None"
  by (cases e) auto

lemma split_bin_size: "split_bin t e = Some (l, r) \<Longrightarrow> size e = Suc (size l + size r)"
  by (auto simp: split_bin_Some)

lemma eq_measure_bin:
  assumes "split_bin t e1 \<noteq> None \<or> split_bin t e2 \<noteq> None" and "size a + size b < size e1 + size e2"
  shows "(Inl (t, a, b, n), Inl (t, e1, e2, tc)) \<in> measure eq_measure"
  using eq_measure_less[OF assms(2)] eq_measure_split[OF assms(1)] by (simp only: in_measure)

termination expr_eliminate_eq_rec
proof (relation "measure eq_measure", goal_cases)
  case (3 t e1 e2 tc x2 x y)
  then show ?case by (intro eq_measure_bin) (auto dest: split_bin_size)
next
  case (4 t e1 e2 tc x2 x y xa ya xb yb)
  then have "size xa \<le> size e1" using eliminate_eq_rec_size(1)[of t e1 x tc xa xb yb] by auto
  with 4 show ?case by (intro eq_measure_bin) (auto dest: split_bin_size)
next
  case (5 t e1 e2 tc x2 x y)
  then show ?case by (intro eq_measure_bin) (auto dest: split_bin_size)
next
  case (6 t e1 e2 tc x2 x y xa ya xb yb)
  then have "size xb \<le> size e2" using eliminate_eq_rec_size(1)[of t x e2 tc xa xb yb] by auto
  with 6 show ?case by (intro eq_measure_bin) (auto dest: split_bin_size)
next
  case (7 e1 e2 tc)
  then show ?case using split_bin_etype[of e1] by (simp add: eq_measure_split del: eq_measure.simps(1))
next
  case (8 e1 e2 tc x y xa ya)
  then have "size x \<le> size e1 \<and> size xa \<le> size e2"
    using eliminate_eq_rec_size(1)[of "etype e1" e1 e2 tc x xa ya] by (auto split: if_splits)
  then have "eq_measure (Inl (etype xa, x, xa, ya)) < 4 * (size e1 + size e2) + 1"
    using split_bin_etype[of xa] 8(3) by (simp add: eq_measure_split del: eq_measure.simps(1))
  then show ?case by (simp only: in_measure eq_measure.simps(2))
qed simp_all

declare expr_eliminate_eq_rec.simps [simp del] expr_eliminate_eq.simps [simp del] expr_eq.simps [simp del]

end
