(* ===== verification/Kc_Value.thy ===== *)
theory Kc_Value
  imports Kc_Expr
begin

text \<open>
  The meaning of expressions: \<open>expr_calc_value\<close> of expr.c over the values the symbols
  have, the algebra of operands that conjunctions and disjunctions share, and the
  soundness of the comparison with respect to it.
\<close>

section \<open>Values of symbols\<close>

text \<open>
  What \<open>expr_calc_value\<close> reads of a symbol once \<open>sym_calc_value\<close> has run on it: its
  \<open>curr.tri\<close> and the string of \<open>sym_get_string_value\<close>, for the symbols made by
  \<open>sym_lookup\<close>. The four static symbols of symbol.c have the values of their initialisers.
\<close>

record valuation =
  v_tri :: "nat \<Rightarrow> tristate"
  v_str :: "nat \<Rightarrow> string"

fun sym_tri :: "valuation \<Rightarrow> sym \<Rightarrow> tristate" where
  "sym_tri v symbol_yes = tri_yes"
| "sym_tri v symbol_mod = tri_mod"
| "sym_tri v symbol_no = tri_no"
| "sym_tri v symbol_empty = tri_no"
| "sym_tri v (sym_at n) = v_tri v n"

fun sym_str :: "valuation \<Rightarrow> sym \<Rightarrow> string" where
  "sym_str v symbol_yes = ''y''"
| "sym_str v symbol_mod = ''m''"
| "sym_str v symbol_no = ''n''"
| "sym_str v symbol_empty = ''''"
| "sym_str v (sym_at n) = v_str v n"

fun expr_calc_value :: "valuation \<Rightarrow> expr \<Rightarrow> tristate" where
  "expr_calc_value v (Sym s) = sym_tri v s"
| "expr_calc_value v (And l r) = EXPR_AND (expr_calc_value v l) (expr_calc_value v r)"
| "expr_calc_value v (Or l r) = EXPR_OR (expr_calc_value v l) (expr_calc_value v r)"
| "expr_calc_value v (Neg e) = EXPR_NOT (expr_calc_value v e)"
| "expr_calc_value v (Equal a b) = (if sym_str v a = sym_str v b then tri_yes else tri_no)"
| "expr_calc_value v (Unequal a b) = (if sym_str v a = sym_str v b then tri_no else tri_yes)"

text \<open>The NULL test at the start of the function.\<close>

definition expr_calc_value_ptr :: "valuation \<Rightarrow> expr option \<Rightarrow> tristate" where
  "expr_calc_value_ptr v e = (case e of None \<Rightarrow> tri_yes | Some e \<Rightarrow> expr_calc_value v e)"

lemma value_And [simp]: "expr_calc_value v (And l r) = min (expr_calc_value v l) (expr_calc_value v r)"
  by (simp add: EXPR_AND_min)

lemma value_Or [simp]: "expr_calc_value v (Or l r) = max (expr_calc_value v l) (expr_calc_value v r)"
  by (simp add: EXPR_OR_max)

declare expr_calc_value.simps(2,3) [simp del]

section \<open>The algebra of operands\<close>

text \<open>
  What the rewriting of conjunctions and of disjunctions has in common: a binary node type
  whose value is an associative, commutative and idempotent operation of the operands'
  values with a neutral constant.
\<close>

locale operand_algebra =
  fixes val :: "expr \<Rightarrow> tristate" and ty :: expr_type
    and opr :: "tristate \<Rightarrow> tristate \<Rightarrow> tristate" and unit :: tristate
  assumes binary: "ty = E_AND \<or> ty = E_OR"
    and val_mk_bin: "val (mk_bin ty l r) = opr (val l) (val r)"
    and val_neutral: "val (neutral ty) = unit"
    and assoc: "opr (opr a b) c = opr a (opr b c)"
    and commute: "opr a b = opr b a"
    and idem: "opr a a = a"
    and unit: "opr unit a = a"
begin

lemma left_commute: "opr a (opr b c) = opr b (opr a c)"
  by (metis assoc commute)

lemma left_idem: "opr a (opr a b) = opr a b"
  by (metis assoc idem)

lemmas ac = assoc commute left_commute idem left_idem unit

lemma unit_right: "opr a unit = a"
  by (metis commute unit)

lemma val_split: "split_bin ty e = Some (l, r) \<Longrightarrow> val e = opr (val l) (val r)"
  by (auto simp: split_bin_Some val_mk_bin)

text \<open>
  \<open>shared e1 e2 a b\<close>: the pair \<open>(e1, e2)\<close> is the pair \<open>(a, b)\<close> with one common operand
  taken out of both.
\<close>

definition shared :: "expr \<Rightarrow> expr \<Rightarrow> expr \<Rightarrow> expr \<Rightarrow> bool" where
  "shared e1 e2 a b \<longleftrightarrow> (\<exists>x. val e1 = opr x (val a) \<and> val e2 = opr x (val b))"

lemma shared_refl: "shared e1 e2 e1 e2"
  unfolding shared_def using unit by metis

lemma shared_drop: "val e1 = val e2 \<Longrightarrow> shared e1 e2 (neutral ty) (neutral ty)"
  unfolding shared_def by (metis unit_right val_neutral)

lemma shared_left:
  assumes "shared l e2 l' e2'" and "shared r e2' r' e2''"
  shows "shared (mk_bin ty l r) e2 (mk_bin ty l' r') e2''"
proof -
  from assms(1) obtain x where x: "val l = opr x (val l')" "val e2 = opr x (val e2')"
    by (auto simp: shared_def)
  from assms(2) obtain y where y: "val r = opr y (val r')" "val e2' = opr y (val e2'')"
    by (auto simp: shared_def)
  from x y show ?thesis unfolding shared_def
    by (intro exI[of _ "opr x y"]) (simp add: val_mk_bin ac)
qed

lemma shared_sym: "shared e1 e2 a b \<Longrightarrow> shared e2 e1 b a"
  by (auto simp: shared_def)

lemma shared_right:
  assumes "shared e1 l e1' l'" and "shared e1' r e1'' r'"
  shows "shared e1 (mk_bin ty l r) e1'' (mk_bin ty l' r')"
  using shared_left[OF assms[THEN shared_sym]] by (rule shared_sym)

end

interpretation conj_alg: operand_algebra "expr_calc_value v" E_AND min tri_yes for v
  by unfold_locales (simp_all add: mk_bin_def neutral_def ac_simps)

interpretation disj_alg: operand_algebra "expr_calc_value v" E_OR max tri_no for v
  by unfold_locales (simp_all add: mk_bin_def neutral_def ac_simps)

end
