(* ===== verification/Kc_Eq.thy ===== *)
theory Kc_Eq
  imports Kc_Value
begin

text \<open>
  Soundness and completeness facts of the comparison: \<open>expr_eliminate_yn\<close> keeps the value
  of an expression and leaves no constant operand, \<open>expr_eliminate_eq\<close> takes the same
  operands out of both sides, and expressions that \<open>expr_eq\<close> calls equal have the same
  value under every assignment to their symbols.
\<close>

section \<open>Constant elimination\<close>

text \<open>No operand of a conjunction or disjunction is the constant y or n.\<close>

fun no_const_operand :: "expr \<Rightarrow> bool" where
  "no_const_operand (And l r) =
     (l \<notin> {Sym symbol_yes, Sym symbol_no} \<and> r \<notin> {Sym symbol_yes, Sym symbol_no} \<and>
      no_const_operand l \<and> no_const_operand r)"
| "no_const_operand (Or l r) =
     (l \<notin> {Sym symbol_yes, Sym symbol_no} \<and> r \<notin> {Sym symbol_yes, Sym symbol_no} \<and>
      no_const_operand l \<and> no_const_operand r)"
| "no_const_operand e = True"

lemma value_eliminate_yn [value_simps]: "expr_calc_value v (expr_eliminate_yn e) = expr_calc_value v e"
proof (induction e)
  case (And l r)
  then show ?case by (simp only: value_And flip: And.IH) (auto simp: Let_def)
next
  case (Or l r)
  then show ?case by (simp only: value_Or flip: Or.IH) (auto simp: Let_def)
qed simp_all

lemma no_const_eliminate_yn: "no_const_operand (expr_eliminate_yn e)"
  by (induction e) (auto simp: Let_def)

lemma eliminate_yn_id: "no_const_operand e \<Longrightarrow> expr_eliminate_yn e = e"
  by (induction e) (auto simp: Let_def)

text \<open>
  \<open>expr_eliminate_yn\<close> changes no value, removes every constant operand, never makes the
  expression larger, and does nothing the second time.
\<close>

theorem expr_eliminate_yn_correct:
  "expr_calc_value v (expr_eliminate_yn e) = expr_calc_value v e \<and>
   no_const_operand (expr_eliminate_yn e) \<and>
   size (expr_eliminate_yn e) \<le> size e \<and>
   expr_eliminate_yn (expr_eliminate_yn e) = expr_eliminate_yn e"
  by (simp add: value_eliminate_yn no_const_eliminate_yn size_eliminate_yn eliminate_yn_id)

section \<open>Removing common operands\<close>

lemma expr_eq_leaf [simp]:
  "expr_eq (Sym a) e2 \<longleftrightarrow> e2 = Sym a"
  "expr_eq (Equal a b) e2 \<longleftrightarrow> e2 = Equal a b"
  "expr_eq (Unequal a b) e2 \<longleftrightarrow> e2 = Unequal a b"
  "expr_eq (Neg x) e2 \<longleftrightarrow> (\<exists>y. e2 = Neg y \<and> expr_eq x y)"
  by (cases e2; simp add: expr_eq.simps; fail)+

lemma expr_eq_bin:
  "etype e1 = E_AND \<or> etype e1 = E_OR \<Longrightarrow>
     expr_eq e1 e2 \<longleftrightarrow> etype e1 = etype e2 \<and> (case expr_eliminate_eq e1 e2 0 of (a, b, _) \<Rightarrow> same_symbol a b)"
  by (cases e1) (auto simp: expr_eq.simps[of e1 e2] expr_eq.simps[of "And x y" e2 for x y]
      expr_eq.simps[of "Or x y" e2 for x y])

lemma expr_eq_etype: "expr_eq e1 e2 \<Longrightarrow> etype e1 = etype e2"
  by (simp add: expr_eq.simps[of e1 e2] split: if_splits)

context operand_algebra
begin

text \<open>One step of the traversal, given that the comparison of the operands is sound.\<close>

lemma eliminate_eq_rec_shared:
  assumes left: "\<And>l r l' e2' tc1 r' e2'' tc2.
        split_bin ty e1 = Some (l, r) \<Longrightarrow> expr_eliminate_eq_rec ty l e2 tc = (l', e2', tc1) \<Longrightarrow>
        expr_eliminate_eq_rec ty r e2' tc1 = (r', e2'', tc2) \<Longrightarrow>
        shared l e2 l' e2' \<and> shared r e2' r' e2''"
    and right: "\<And>l r e1' l' tc1 e1'' r' tc2.
        split_bin ty e2 = Some (l, r) \<Longrightarrow> expr_eliminate_eq_rec ty e1 l tc = (e1', l', tc1) \<Longrightarrow>
        expr_eliminate_eq_rec ty e1' r tc1 = (e1'', r', tc2) \<Longrightarrow> split_bin ty e1 = None \<Longrightarrow>
        shared e1 l e1' l' \<and> shared e1' r e1'' r'"
    and leaf: "split_bin ty e1 = None \<Longrightarrow> split_bin ty e2 = None \<Longrightarrow> \<not> is_yn_pair e1 e2 \<Longrightarrow>
        expr_eq e1 e2 \<Longrightarrow> val e1 = val e2"
    and res: "expr_eliminate_eq_rec ty e1 e2 tc = (a, b, n)"
  shows "shared e1 e2 a b"
proof (cases "split_bin ty e1")
  case (Some lr)
  then obtain l r where lr: "split_bin ty e1 = Some (l, r)" by (cases lr) auto
  obtain l' e2' tc1 where c1: "expr_eliminate_eq_rec ty l e2 tc = (l', e2', tc1)"
    by (cases "expr_eliminate_eq_rec ty l e2 tc") auto
  obtain r' e2'' tc2 where c2: "expr_eliminate_eq_rec ty r e2' tc1 = (r', e2'', tc2)"
    by (cases "expr_eliminate_eq_rec ty r e2' tc1") auto
  from left[OF lr c1 c2] have "shared (mk_bin ty l r) e2 (mk_bin ty l' r') e2''"
    by (intro shared_left) auto
  moreover have "expr_eliminate_eq_rec ty e1 e2 tc = (mk_bin ty l' r', e2'', tc2)"
    by (simp add: expr_eliminate_eq_rec.simps[of ty e1 e2 tc] lr c1 c2)
  ultimately show ?thesis using lr res by (auto simp: split_bin_Some)
next
  case None
  note e1 = None
  show ?thesis
  proof (cases "split_bin ty e2")
    case (Some lr)
    then obtain l r where lr: "split_bin ty e2 = Some (l, r)" by (cases lr) auto
    obtain e1' l' tc1 where c1: "expr_eliminate_eq_rec ty e1 l tc = (e1', l', tc1)"
      by (cases "expr_eliminate_eq_rec ty e1 l tc") auto
    obtain e1'' r' tc2 where c2: "expr_eliminate_eq_rec ty e1' r tc1 = (e1'', r', tc2)"
      by (cases "expr_eliminate_eq_rec ty e1' r tc1") auto
    from right[OF lr c1 c2 e1] have "shared e1 (mk_bin ty l r) e1'' (mk_bin ty l' r')"
      by (intro shared_right) auto
    moreover have "expr_eliminate_eq_rec ty e1 e2 tc = (e1'', mk_bin ty l' r', tc2)"
      by (simp add: expr_eliminate_eq_rec.simps[of ty e1 e2 tc] e1 lr c1 c2)
    ultimately show ?thesis using lr res by (auto simp: split_bin_Some)
  next
    case None
    with e1 leaf res show ?thesis
      by (auto simp: expr_eliminate_eq_rec.simps[of ty e1 e2 tc] shared_refl shared_drop
          split: if_splits)
  qed
qed

end

definition op_shared :: "valuation \<Rightarrow> expr_type \<Rightarrow> expr \<Rightarrow> expr \<Rightarrow> expr \<Rightarrow> expr \<Rightarrow> bool" where
  "op_shared v t e1 e2 a b \<longleftrightarrow>
     (if t = E_OR then disj_alg.shared v e1 e2 a b else conj_alg.shared v e1 e2 a b)"

lemma op_shared_alg:
  "op_shared v E_OR = disj_alg.shared v" "op_shared v E_AND = conj_alg.shared v"
  by (simp_all add: op_shared_def fun_eq_iff)

text \<open>
  The pair \<open>(e1, e2)\<close> is the pair \<open>(a, b)\<close> after the same operands have been taken out of
  both: the values on each side differ by one and the same pair of bounds.
\<close>

definition same_context :: "valuation \<Rightarrow> expr \<Rightarrow> expr \<Rightarrow> expr \<Rightarrow> expr \<Rightarrow> bool" where
  "same_context v e1 e2 a b \<longleftrightarrow>
     (\<exists>lo hi. expr_calc_value v e1 = max lo (min hi (expr_calc_value v a)) \<and>
              expr_calc_value v e2 = max lo (min hi (expr_calc_value v b)))"

lemma same_context_refl [simp]: "same_context v e1 e2 e1 e2"
  unfolding same_context_def by (intro exI[of _ tri_no] exI[of _ tri_yes]) simp

lemma same_context_trans:
  assumes "same_context v e1 e2 a b" and "same_context v a b c d"
  shows "same_context v e1 e2 c d"
proof -
  from assms obtain lo hi lo' hi' where
    "expr_calc_value v e1 = max lo (min hi (expr_calc_value v a))"
    "expr_calc_value v e2 = max lo (min hi (expr_calc_value v b))"
    "expr_calc_value v a = max lo' (min hi' (expr_calc_value v c))"
    "expr_calc_value v b = max lo' (min hi' (expr_calc_value v d))"
    unfolding same_context_def by blast
  then show ?thesis unfolding same_context_def
    by (intro exI[of _ "max lo (min hi lo')"] exI[of _ "min hi hi'"])
       (simp add: min_max_distrib2 ac_simps)
qed

lemma same_context_eq: "same_context v e1 e2 a a \<Longrightarrow> expr_calc_value v e1 = expr_calc_value v e2"
  by (auto simp: same_context_def)

lemma op_shared_context: "op_shared v t e1 e2 a b \<Longrightarrow> same_context v e1 e2 a b"
  unfolding op_shared_def disj_alg.shared_def conj_alg.shared_def same_context_def
  by (metis tri_min_max(3) tri_min_max(5))

lemma eliminate_eq_rec_op_shared:
  assumes t: "t = E_AND \<or> t = E_OR"
    and left: "\<And>l r l' e2' tc1 r' e2'' tc2.
        split_bin t e1 = Some (l, r) \<Longrightarrow> expr_eliminate_eq_rec t l e2 tc = (l', e2', tc1) \<Longrightarrow>
        expr_eliminate_eq_rec t r e2' tc1 = (r', e2'', tc2) \<Longrightarrow>
        op_shared v t l e2 l' e2' \<and> op_shared v t r e2' r' e2''"
    and right: "\<And>l r e1' l' tc1 e1'' r' tc2.
        split_bin t e2 = Some (l, r) \<Longrightarrow> expr_eliminate_eq_rec t e1 l tc = (e1', l', tc1) \<Longrightarrow>
        expr_eliminate_eq_rec t e1' r tc1 = (e1'', r', tc2) \<Longrightarrow> split_bin t e1 = None \<Longrightarrow>
        op_shared v t e1 l e1' l' \<and> op_shared v t e1' r e1'' r'"
    and leaf: "split_bin t e1 = None \<Longrightarrow> split_bin t e2 = None \<Longrightarrow> \<not> is_yn_pair e1 e2 \<Longrightarrow>
        expr_eq e1 e2 \<Longrightarrow> expr_calc_value v e1 = expr_calc_value v e2"
    and res: "expr_eliminate_eq_rec t e1 e2 tc = (a, b, n)"
  shows "op_shared v t e1 e2 a b"
proof (cases "t = E_OR")
  case True
  have "disj_alg.shared v e1 e2 a b"
    by (rule disj_alg.eliminate_eq_rec_shared; rule left[unfolded True op_shared_alg(1)]
        right[unfolded True op_shared_alg(1)] leaf[unfolded True] res[unfolded True])
  with True show ?thesis by (simp add: op_shared_def)
next
  case False
  with t have t': "t = E_AND" by simp
  have "conj_alg.shared v e1 e2 a b"
    by (rule conj_alg.eliminate_eq_rec_shared; rule left[unfolded t' op_shared_alg(2)]
        right[unfolded t' op_shared_alg(2)] leaf[unfolded t'] res[unfolded t'])
  with t' show ?thesis by (simp add: op_shared_def)
qed

lemma eliminate_eq_sound:
  fixes v :: valuation
  shows "t = E_AND \<or> t = E_OR \<Longrightarrow> expr_eliminate_eq_rec t e1 e2 tc = (a, b, n) \<Longrightarrow> op_shared v t e1 e2 a b"
    and "expr_eliminate_eq e1 e2 tc = (a, b, n) \<Longrightarrow> same_context v e1 e2 a b"
    and "expr_eq e1 e2 \<Longrightarrow> expr_calc_value v e1 = expr_calc_value v e2"
proof (induction t e1 e2 tc and e1 e2 tc and e1 e2 arbitrary: a b n and a b n
    rule: expr_eliminate_eq_rec_expr_eliminate_eq_expr_eq.induct)
  case (1 t e1 e2 tc)
  show ?case
  proof (rule eliminate_eq_rec_op_shared[OF "1.prems"(1) _ _ _ "1.prems"(2)], goal_cases)
    case (1 l r l' e2' tc1 r' e2'' tc2)
    note g = this
    then show ?case
      using "1.IH"(4)[OF g(1) refl "1.prems"(1) g(2)]
        "1.IH"(5)[OF g(1) refl g(2)[symmetric] refl "1.prems"(1) g(3)] by blast
  next
    case (2 l r e1' l' tc1 e1'' r' tc2)
    note g = this
    then show ?case
      using "1.IH"(2)[OF g(4) g(1) refl "1.prems"(1) g(2)]
        "1.IH"(3)[OF g(4) g(1) refl g(2)[symmetric] refl "1.prems"(1) g(3)] by blast
  next
    case 3
    then show ?case using "1.IH"(1) by blast
  qed
next
  case (2 e1 e2 tc)
  obtain a1 a2 tc1 where c1: "(if etype e1 = E_OR \<or> etype e1 = E_AND
      then expr_eliminate_eq_rec (etype e1) e1 e2 tc else (e1, e2, tc)) = (a1, a2, tc1)"
    by (metis prod_cases3)
  obtain b1 b2 tc2 where c2: "(if etype a1 \<noteq> etype a2 \<and> (etype a2 = E_OR \<or> etype a2 = E_AND)
      then expr_eliminate_eq_rec (etype a2) a1 a2 tc1 else (a1, a2, tc1)) = (b1, b2, tc2)"
    by (metis prod_cases3)
  have res: "a = expr_eliminate_yn b1" "b = expr_eliminate_yn b2"
    using "2.prems" c1 c2 by (simp_all add: expr_eliminate_eq.simps[of e1 e2 tc])
  have "same_context v e1 e2 a1 a2"
  proof (cases "etype e1 = E_OR \<or> etype e1 = E_AND")
    case True
    with c1 have c1': "expr_eliminate_eq_rec (etype e1) e1 e2 tc = (a1, a2, tc1)" by simp
    show ?thesis by (rule op_shared_context, rule "2.IH"(1)[OF True _ c1']) (use True in blast)
  next
    case False
    with c1 show ?thesis by simp
  qed
  moreover have "same_context v a1 a2 b1 b2"
  proof (cases "etype a1 \<noteq> etype a2 \<and> (etype a2 = E_OR \<or> etype a2 = E_AND)")
    case True
    with c2 have c2': "expr_eliminate_eq_rec (etype a2) a1 a2 tc1 = (b1, b2, tc2)" by simp
    show ?thesis
      by (rule op_shared_context, rule "2.IH"(2)[OF c1[symmetric] refl True _ c2']) (use True in blast)
  next
    case False
    with c2 have "b1 = a1" "b2 = a2" by (simp_all only: if_False prod.inject)
    then show ?thesis by simp
  qed
  ultimately have "same_context v e1 e2 b1 b2" by (rule same_context_trans)
  then show ?case by (simp add: res same_context_def value_eliminate_yn)
next
  case (3 e1 e2)
  have bin: "expr_calc_value v e1 = expr_calc_value v e2"
    if "etype e1 = E_AND \<or> etype e1 = E_OR" and IH: "\<And>a b n. expr_eliminate_eq e1 e2 0 = (a, b, n) \<Longrightarrow> same_context v e1 e2 a b"
  proof -
    obtain a b n where r: "expr_eliminate_eq e1 e2 0 = (a, b, n)" by (metis prod_cases3)
    with "3.prems" that(1) have "same_symbol a b" by (simp add: expr_eq_bin)
    with IH[OF r] show ?thesis by (cases "(a, b)" rule: same_symbol.cases) (auto dest: same_context_eq)
  qed
  show ?case
  proof (cases e1)
    case (Neg x)
    with "3.prems" obtain y where y: "e2 = Neg y" "expr_eq x y" by auto
    then show ?thesis using "3.IH"(1)[of x y] Neg by simp
  next
    case (And l r)
    show ?thesis
    proof (rule bin)
      fix a b n assume "expr_eliminate_eq e1 e2 0 = (a, b, n)"
      then show "same_context v e1 e2 a b"
        using "3.IH"(2)[OF _ And, of a b n] expr_eq_etype[OF "3.prems"] by simp
    qed (simp add: And)
  next
    case (Or l r)
    show ?thesis
    proof (rule bin)
      fix a b n assume "expr_eliminate_eq e1 e2 0 = (a, b, n)"
      then show "same_context v e1 e2 a b"
        using "3.IH"(3)[OF _ Or, of a b n] expr_eq_etype[OF "3.prems"] by simp
    qed (simp add: Or)
  qed (use "3.prems" in auto)
qed

text \<open>
  \<open>expr_eq\<close> is sound: two expressions that it calls equal have the same value, whatever
  the values of the symbols.
\<close>

theorem expr_eq_sound: "expr_eq e1 e2 \<Longrightarrow> expr_calc_value v e1 = expr_calc_value v e2"
  by (rule eliminate_eq_sound(3))

theorem expr_eq_sound_witness:
  "expr_eq (And (Sym (sym_at 1)) (Neg (Sym (sym_at 2)))) (And (Neg (Sym (sym_at 2))) (Sym (sym_at 1))) \<and>
   expr_calc_value \<lparr>v_tri = \<lambda>_. tri_mod, v_str = \<lambda>_. ''m''\<rparr> (And (Sym (sym_at 1)) (Neg (Sym (sym_at 2)))) =
   expr_calc_value \<lparr>v_tri = \<lambda>_. tri_mod, v_str = \<lambda>_. ''m''\<rparr> (And (Neg (Sym (sym_at 2))) (Sym (sym_at 1)))"
proof -
  have "expr_eq (And (Sym (sym_at 1)) (Neg (Sym (sym_at 2)))) (And (Neg (Sym (sym_at 2))) (Sym (sym_at 1)))"
    by (simp add: expr_eq_bin expr_eliminate_eq.simps expr_eliminate_eq_rec.simps is_yn_pair_def
        mk_bin_def neutral_def)
  then show ?thesis using expr_eq_sound by blast
qed

text \<open>
  \<open>expr_eliminate_eq\<close> takes the same operands out of both expressions: what is left
  determines both values through one common pair of bounds, and neither side grows.
\<close>

theorem expr_eliminate_eq_sound:
  assumes "expr_eliminate_eq e1 e2 tc = (a, b, n)"
  shows "\<exists>lo hi. expr_calc_value v e1 = max lo (min hi (expr_calc_value v a)) \<and>
                 expr_calc_value v e2 = max lo (min hi (expr_calc_value v b))"
  using eliminate_eq_sound(2)[OF assms] by (simp add: same_context_def)

theorem expr_eliminate_eq_sound_witness:
  "\<exists>lo hi. expr_calc_value \<lparr>v_tri = \<lambda>n. if n = 1 then tri_mod else tri_yes, v_str = \<lambda>_. ''y''\<rparr>
             (Or (Sym (sym_at 1)) (Sym (sym_at 2))) = max lo (min hi tri_mod) \<and>
           expr_calc_value \<lparr>v_tri = \<lambda>n. if n = 1 then tri_mod else tri_yes, v_str = \<lambda>_. ''y''\<rparr>
             (Sym (sym_at 2)) = max lo (min hi tri_no)"
proof -
  have "expr_eliminate_eq (Or (Sym (sym_at 1)) (Sym (sym_at 2))) (Sym (sym_at 2)) 0 =
      (Sym (sym_at 1), Sym symbol_no, 1)"
    by (simp add: expr_eliminate_eq.simps expr_eliminate_eq_rec.simps is_yn_pair_def
        mk_bin_def neutral_def)
  from expr_eliminate_eq_sound[OF this, of "\<lparr>v_tri = \<lambda>n. if n = 1 then tri_mod else tri_yes, v_str = \<lambda>_. ''y''\<rparr>"]
  show ?thesis by simp
qed

end
