(* ===== verification/Kc_Transform.thy ===== *)
theory Kc_Transform
  imports Kc_Eq
begin

text \<open>
  The rewriting of single expressions in expr.c: \<open>expr_trans_bool\<close>, \<open>expr_transform\<close>
  (comparisons of booleans, double negation, de Morgan) and \<open>expr_trans_compare\<close>, with the
  searches \<open>expr_contains_symbol\<close> and \<open>expr_depends_symbol\<close>. The symbol table is only read
  for the types of the symbols.
\<close>

section \<open>Values that agree with the types\<close>

fun tri_name :: "tristate \<Rightarrow> string" where
  "tri_name tri_no = ''n''"
| "tri_name tri_mod = ''m''"
| "tri_name tri_yes = ''y''"

lemma tri_name_inj [simp]: "tri_name a = tri_name b \<longleftrightarrow> a = b"
  by (cases a; cases b) simp_all

lemma tri_name_const [simp]:
  "tri_name a = ''n'' \<longleftrightarrow> a = tri_no" "tri_name a = ''m'' \<longleftrightarrow> a = tri_mod" "tri_name a = ''y'' \<longleftrightarrow> a = tri_yes"
  by (cases a; simp)+

text \<open>
  A valuation fits a symbol table when a boolean symbol is never m, when the string of a
  boolean or tristate symbol names its value, and when different constants are different
  strings (constants are interned by \<open>sym_lookup\<close>).
\<close>

definition well_typed :: "symtab \<Rightarrow> valuation \<Rightarrow> bool" where
  "well_typed st v \<longleftrightarrow>
     (\<forall>s. (s_type (st s) = S_BOOLEAN \<longrightarrow> sym_tri v s \<noteq> tri_mod) \<and>
          (s_type (st s) \<in> {S_BOOLEAN, S_TRISTATE} \<longrightarrow> sym_str v s = tri_name (sym_tri v s))) \<and>
     (\<forall>a b. has_flag (st a) SYMBOL_CONST \<longrightarrow> has_flag (st b) SYMBOL_CONST \<longrightarrow>
            a \<noteq> b \<longrightarrow> sym_str v a \<noteq> sym_str v b)"

lemma well_typed_bool: "well_typed st v \<Longrightarrow> s_type (st s) = S_BOOLEAN \<Longrightarrow> sym_tri v s \<noteq> tri_mod"
  by (auto simp: well_typed_def)

lemma well_typed_str:
  "well_typed st v \<Longrightarrow> s_type (st s) = S_BOOLEAN \<or> s_type (st s) = S_TRISTATE \<Longrightarrow>
     sym_str v s = tri_name (sym_tri v s)"
  by (auto simp: well_typed_def)

lemma well_typed_const:
  "well_typed st v \<Longrightarrow> has_flag (st a) SYMBOL_CONST \<Longrightarrow> has_flag (st b) SYMBOL_CONST \<Longrightarrow>
     sym_str v a = sym_str v b \<longleftrightarrow> a = b"
  by (auto simp: well_typed_def)

section \<open>expr_trans_bool\<close>

fun expr_trans_bool :: "symtab \<Rightarrow> expr \<Rightarrow> expr" where
  "expr_trans_bool st (And l r) = And (expr_trans_bool st l) (expr_trans_bool st r)"
| "expr_trans_bool st (Or l r) = Or (expr_trans_bool st l) (expr_trans_bool st r)"
| "expr_trans_bool st (Neg e) = Neg (expr_trans_bool st e)"
| "expr_trans_bool st (Unequal a b) =
     (if s_type (st a) = S_TRISTATE \<and> b = symbol_no then Sym a else Unequal a b)"
| "expr_trans_bool st e = e"

section \<open>expr_transform\<close>

text \<open>
  The first switch of the function transforms the operands; the second is \<open>transform_eq\<close> on
  comparisons and the cases of \<open>E_NOT\<close> in the function itself. The message about a boolean
  that is compared with m is not part of the result.
\<close>

definition transform_equal :: "symtab \<Rightarrow> sym \<Rightarrow> sym \<Rightarrow> expr" where
  "transform_equal st a b =
     (if s_type (st a) \<noteq> S_BOOLEAN then Equal a b
      else if b = symbol_no then Neg (Sym a)
      else if b = symbol_mod then Sym symbol_no
      else if b = symbol_yes then Sym a
      else Equal a b)"

definition transform_unequal :: "symtab \<Rightarrow> sym \<Rightarrow> sym \<Rightarrow> expr" where
  "transform_unequal st a b =
     (if s_type (st a) \<noteq> S_BOOLEAN then Unequal a b
      else if b = symbol_no then Sym a
      else if b = symbol_mod then Sym symbol_yes
      else if b = symbol_yes then Neg (Sym a)
      else Unequal a b)"

definition transform_not_symbol :: "sym \<Rightarrow> expr" where
  "transform_not_symbol s =
     (if s = symbol_yes then Sym symbol_no
      else if s = symbol_mod then Sym symbol_mod
      else if s = symbol_no then Sym symbol_yes
      else Neg (Sym s))"

function expr_transform :: "symtab \<Rightarrow> expr \<Rightarrow> expr" where
  "expr_transform st (Sym s) = Sym s"
| "expr_transform st (Equal a b) = transform_equal st a b"
| "expr_transform st (Unequal a b) = transform_unequal st a b"
| "expr_transform st (And l r) = And (expr_transform st l) (expr_transform st r)"
| "expr_transform st (Or l r) = Or (expr_transform st l) (expr_transform st r)"
| "expr_transform st (Neg e) =
     (case expr_transform st e of
        Neg x \<Rightarrow> expr_transform st x
      | Equal a b \<Rightarrow> Unequal a b
      | Unequal a b \<Rightarrow> Equal a b
      | Or x y \<Rightarrow> expr_transform st (And (Neg x) (Neg y))
      | And x y \<Rightarrow> expr_transform st (Or (Neg x) (Neg y))
      | Sym s \<Rightarrow> transform_not_symbol s)"
  by pat_completeness auto

text \<open>
  The weight that every recursive call decreases: pushing a negation through a node must
  pay for the two negations it leaves.
\<close>

fun weight :: "expr \<Rightarrow> nat" where
  "weight (Sym s) = 1"
| "weight (Equal a b) = 2"
| "weight (Unequal a b) = 2"
| "weight (And l r) = weight l + weight r + 1"
| "weight (Or l r) = weight l + weight r + 1"
| "weight (Neg e) = 2 * weight e"

lemma weight_pos [simp]: "0 < weight e"
  by (induction e) simp_all

lemma weight_transform: "expr_transform_dom (st, e) \<Longrightarrow> weight (expr_transform st e) \<le> weight e"
proof (induction rule: expr_transform.pinduct)
  case (6 st e)
  then show ?case
    by (auto simp: expr_transform.psimps transform_not_symbol_def split: expr.splits)
qed (auto simp: expr_transform.psimps transform_equal_def transform_unequal_def)

termination expr_transform
proof (relation "measure (weight \<circ> snd)", goal_cases)
  case (7 st e x)
  then show ?case using weight_transform[of st e] weight_pos[of e] by (simp del: weight_pos)
next
  case (8 st e x y)
  then show ?case using weight_transform[of st e] by simp
next
  case (9 st e x y)
  then show ?case using weight_transform[of st e] by simp
qed simp_all

declare expr_transform.simps(6) [simp del]

section \<open>The result of the transformation\<close>

text \<open>
  Negation only on symbols other than the constants, and no comparison of a boolean symbol
  with a constant.
\<close>

fun normal :: "symtab \<Rightarrow> expr \<Rightarrow> bool" where
  "normal st (Sym s) = True"
| "normal st (Neg (Sym s)) = (s \<noteq> symbol_yes \<and> s \<noteq> symbol_mod \<and> s \<noteq> symbol_no)"
| "normal st (Neg _) = False"
| "normal st (And l r) = (normal st l \<and> normal st r)"
| "normal st (Or l r) = (normal st l \<and> normal st r)"
| "normal st (Equal a b) =
     (s_type (st a) = S_BOOLEAN \<longrightarrow> b \<noteq> symbol_yes \<and> b \<noteq> symbol_mod \<and> b \<noteq> symbol_no)"
| "normal st (Unequal a b) =
     (s_type (st a) = S_BOOLEAN \<longrightarrow> b \<noteq> symbol_yes \<and> b \<noteq> symbol_mod \<and> b \<noteq> symbol_no)"

lemma normal_Neg: "normal st (Neg e) \<longleftrightarrow> (\<exists>s. e = Sym s \<and> s \<noteq> symbol_yes \<and> s \<noteq> symbol_mod \<and> s \<noteq> symbol_no)"
  by (cases e) auto

text \<open>The initialisers of symbol.c give the constants no type.\<close>

definition static_untyped :: "symtab \<Rightarrow> bool" where
  "static_untyped st \<longleftrightarrow>
     s_type (st symbol_yes) = S_UNKNOWN \<and> s_type (st symbol_mod) = S_UNKNOWN \<and>
     s_type (st symbol_no) = S_UNKNOWN \<and> s_type (st symbol_empty) = S_UNKNOWN"

lemma static_not_bool:
  "static_untyped st \<Longrightarrow> s_type (st a) = S_BOOLEAN \<Longrightarrow>
     a \<noteq> symbol_yes \<and> a \<noteq> symbol_mod \<and> a \<noteq> symbol_no"
  by (auto simp: static_untyped_def)

lemma normal_transform: "static_untyped st \<Longrightarrow> normal st (expr_transform st e)"
proof (induction st e rule: expr_transform.induct)
  case (6 st e)
  then show ?case
    by (cases "expr_transform st e")
       (auto simp: expr_transform.simps(6) transform_not_symbol_def normal_Neg)
qed (auto simp: transform_equal_def transform_unequal_def static_not_bool)

lemma transform_normal: "normal st e \<Longrightarrow> expr_transform st e = e"
proof (induction e)
  case (Neg e)
  then show ?case
    by (auto simp: normal_Neg expr_transform.simps(6) transform_not_symbol_def)
qed (auto simp: transform_equal_def transform_unequal_def)

text \<open>
  after \<open>expr_transform\<close> every negation stands on a symbol that is not a constant and no
  boolean symbol is compared with y, m or n; transforming again changes nothing.
\<close>

theorem expr_transform_normal:
  assumes "static_untyped st"
  shows "normal st (expr_transform st e) \<and> expr_transform st (expr_transform st e) = expr_transform st e"
  using normal_transform[OF assms] transform_normal by blast

text \<open>A symbol table for examples: \<open>sym_at 1\<close> and \<open>sym_at 2\<close> are boolean, \<open>sym_at 3\<close> is tristate.\<close>

definition example_symbol :: "symbol_type \<Rightarrow> u32 \<Rightarrow> symbol" where
  "example_symbol t f = \<lparr>s_name = Some ''X'', s_type = t, s_curr = \<lparr>sv_val = VNull, sv_tri = tri_no\<rparr>,
     s_def_user = \<lparr>sv_val = VNull, sv_tri = tri_no\<rparr>, s_def_auto = \<lparr>sv_val = VNull, sv_tri = tri_no\<rparr>,
     s_visible = tri_no, s_flags = f, s_prop = [], s_dir_dep = \<lparr>ev_expr = None, ev_tri = tri_no\<rparr>,
     s_rev_dep = \<lparr>ev_expr = None, ev_tri = tri_no\<rparr>\<rparr>"

definition example_st :: symtab where
  "example_st s =
     (if s = sym_at 1 \<or> s = sym_at 2 then example_symbol S_BOOLEAN 0
      else if s = sym_at 3 then example_symbol S_TRISTATE 0
      else if s = symbol_yes \<or> s = symbol_mod \<or> s = symbol_no
      then example_symbol S_UNKNOWN (SYMBOL_CONST OR SYMBOL_VALID)
      else example_symbol S_UNKNOWN SYMBOL_VALID)"

definition example_val :: valuation where
  "example_val = \<lparr>v_tri = (\<lambda>n. if n = 1 then tri_yes else if n = 3 then tri_mod else tri_no),
                  v_str = (\<lambda>n. if n = 1 then ''y'' else if n = 3 then ''m'' else ''n'')\<rparr>"

lemma example_static: "static_untyped example_st"
  by (simp add: static_untyped_def example_st_def example_symbol_def)

lemma example_const: "has_flag (example_st s) SYMBOL_CONST \<longleftrightarrow> s = symbol_yes \<or> s = symbol_mod \<or> s = symbol_no"
  by (simp add: example_st_def example_symbol_def has_flag_def SYMBOL_CONST_def SYMBOL_VALID_def)

lemma example_typed: "well_typed example_st example_val"
proof -
  have "sym_str example_val a \<noteq> sym_str example_val b"
    if "has_flag (example_st a) SYMBOL_CONST" "has_flag (example_st b) SYMBOL_CONST" "a \<noteq> b" for a b
    using that unfolding example_const by auto
  moreover have "sym_tri example_val s \<noteq> tri_mod" if "s_type (example_st s) = S_BOOLEAN" for s
    using that by (auto simp: example_st_def example_symbol_def example_val_def split: if_splits)
  moreover have "sym_str example_val s = tri_name (sym_tri example_val s)"
    if "s_type (example_st s) \<in> {S_BOOLEAN, S_TRISTATE}" for s
    using that by (auto simp: example_st_def example_symbol_def example_val_def split: if_splits)
  ultimately show ?thesis by (auto simp: well_typed_def)
qed

theorem expr_transform_normal_witness:
  "normal example_st (expr_transform example_st (Neg (Or (Sym (sym_at 3)) (Equal (sym_at 1) symbol_no)))) \<and>
   expr_transform example_st (Neg (Or (Sym (sym_at 3)) (Equal (sym_at 1) symbol_no))) =
     And (Neg (Sym (sym_at 3))) (Sym (sym_at 1))"
  using expr_transform_normal[OF example_static]
  by (simp add: expr_transform.simps(6) transform_equal_def transform_not_symbol_def example_st_def
      example_symbol_def)

section \<open>Values\<close>

lemma value_transform_equal [value_simps]:
  "well_typed st v \<Longrightarrow> expr_calc_value v (transform_equal st a b) = expr_calc_value v (Equal a b)"
  by (cases "sym_tri v a") (auto simp: transform_equal_def well_typed_str dest: well_typed_bool)

lemma value_transform_unequal [value_simps]:
  "well_typed st v \<Longrightarrow> expr_calc_value v (transform_unequal st a b) = expr_calc_value v (Unequal a b)"
  by (cases "sym_tri v a") (auto simp: transform_unequal_def well_typed_str dest: well_typed_bool)

lemma value_transform_not_symbol [value_simps]:
  "expr_calc_value v (transform_not_symbol s) = EXPR_NOT (sym_tri v s)"
  by (simp add: transform_not_symbol_def)

lemma value_transform:
  "well_typed st v \<Longrightarrow> expr_calc_value v (expr_transform st e) = expr_calc_value v e"
proof (induction st e rule: expr_transform.induct)
  case (6 st e)
  then show ?case
    by (cases "expr_transform st e")
       (auto simp: expr_transform.simps(6) value_simps EXPR_NOT_min EXPR_NOT_max
         simp flip: "6.IH"(1)[OF "6.prems"])
qed (auto simp: value_simps)

text \<open>
  \<open>expr_transform\<close> keeps the three-valued meaning of an expression under every
  assignment that fits the types of the symbols.
\<close>

theorem expr_transform_value:
  "well_typed st v \<Longrightarrow> expr_calc_value v (expr_transform st e) = expr_calc_value v e"
  by (rule value_transform)

theorem expr_transform_value_witness:
  "expr_calc_value example_val (expr_transform example_st (Neg (Or (Sym (sym_at 3)) (Equal (sym_at 1) symbol_no)))) = tri_mod"
  using expr_transform_value[OF example_typed, of "Neg (Or (Sym (sym_at 3)) (Equal (sym_at 1) symbol_no))"]
  by (simp add: example_val_def)

text \<open>
  on an expression in normal form \<open>expr_trans_bool\<close> decides the same question: the result
  is n exactly when the expression is n (the value m may take the place of y, as the comparison
  of a tristate with n is replaced by the tristate).
\<close>

theorem expr_trans_bool_visible:
  assumes "well_typed st v" and "normal st e"
  shows "expr_calc_value v (expr_trans_bool st e) = tri_no \<longleftrightarrow> expr_calc_value v e = tri_no"
  using assms
proof (induction e)
  case (Neg e)
  then show ?case by (auto simp: normal_Neg)
next
  case (Unequal a b)
  then show ?case by (cases "sym_tri v a") (auto simp: well_typed_str)
next
  case (And l r)
  then show ?case by (auto simp: min_def)
next
  case (Or l r)
  then show ?case by (auto simp: max_def)
qed simp_all

theorem expr_trans_bool_visible_witness:
  "expr_calc_value example_val (expr_trans_bool example_st (And (Unequal (sym_at 3) symbol_no) (Neg (Sym (sym_at 2))))) \<noteq> tri_no"
  using expr_trans_bool_visible[OF example_typed, of "And (Unequal (sym_at 3) symbol_no) (Neg (Sym (sym_at 2)))"]
  by (simp add: example_val_def example_st_def example_symbol_def)

section \<open>Searching for a symbol\<close>

fun expr_contains_symbol :: "expr \<Rightarrow> sym \<Rightarrow> bool" where
  "expr_contains_symbol (And l r) s = (expr_contains_symbol l s \<or> expr_contains_symbol r s)"
| "expr_contains_symbol (Or l r) s = (expr_contains_symbol l s \<or> expr_contains_symbol r s)"
| "expr_contains_symbol (Sym a) s = (a = s)"
| "expr_contains_symbol (Equal a b) s = (a = s \<or> b = s)"
| "expr_contains_symbol (Unequal a b) s = (a = s \<or> b = s)"
| "expr_contains_symbol (Neg e) s = expr_contains_symbol e s"

fun expr_depends_symbol :: "expr \<Rightarrow> sym \<Rightarrow> bool" where
  "expr_depends_symbol (And l r) s = (expr_depends_symbol l s \<or> expr_depends_symbol r s)"
| "expr_depends_symbol (Sym a) s = (a = s)"
| "expr_depends_symbol (Equal a b) s = (a = s \<and> (b = symbol_yes \<or> b = symbol_mod))"
| "expr_depends_symbol (Unequal a b) s = (a = s \<and> b = symbol_no)"
| "expr_depends_symbol _ s = False"

lemma depends_contains: "expr_depends_symbol e s \<Longrightarrow> expr_contains_symbol e s"
  by (induction e) auto

text \<open>
  an expression that does not contain a symbol has the same value whatever the symbol is,
  and \<open>expr_depends_symbol\<close> only answers true for a symbol that the expression contains.
\<close>

theorem expr_contains_symbol_correct:
  assumes "\<not> expr_contains_symbol e (sym_at n)"
  shows "expr_calc_value (v\<lparr>v_tri := (v_tri v)(n := t), v_str := (v_str v)(n := w)\<rparr>) e = expr_calc_value v e \<and>
    \<not> expr_depends_symbol e (sym_at n)"
proof -
  let ?w = "v\<lparr>v_tri := (v_tri v)(n := t), v_str := (v_str v)(n := w)\<rparr>"
  have s: "a \<noteq> sym_at n \<Longrightarrow> sym_tri ?w a = sym_tri v a"
    "a \<noteq> sym_at n \<Longrightarrow> sym_str ?w a = sym_str v a" for a
    by (cases a; simp)+
  from assms have "expr_calc_value ?w e = expr_calc_value v e"
    by (induction e) (simp_all add: s del: sym_tri.simps sym_str.simps)
  with assms show ?thesis using depends_contains by blast
qed

theorem expr_contains_symbol_correct_witness:
  "expr_calc_value (example_val\<lparr>v_tri := (v_tri example_val)(2 := tri_yes), v_str := (v_str example_val)(2 := ''y'')\<rparr>)
     (Or (Sym (sym_at 1)) (Equal (sym_at 3) symbol_mod)) = tri_yes"
  using expr_contains_symbol_correct[where e = "Or (Sym (sym_at 1)) (Equal (sym_at 3) symbol_mod)"
    and n = 2 and v = example_val and t = tri_yes and w = "''y''"]
  by (simp add: example_val_def)

text \<open>
  if \<open>expr_depends_symbol\<close> finds that an expression depends on a boolean or tristate
  symbol, the expression is n whenever the symbol is n.
\<close>

theorem expr_depends_symbol_sound:
  assumes "well_typed st v" and "s_type (st s) = S_BOOLEAN \<or> s_type (st s) = S_TRISTATE"
    and "expr_depends_symbol e s" and "sym_tri v s = tri_no"
  shows "expr_calc_value v e = tri_no"
  using assms(3)
  by (induction e) (use assms(1,2,4) in \<open>auto simp: well_typed_str\<close>)

theorem expr_depends_symbol_sound_witness:
  "expr_calc_value example_val (And (Sym (sym_at 3)) (Equal (sym_at 2) symbol_yes)) = tri_no"
proof (rule expr_depends_symbol_sound[OF example_typed, of "sym_at 2"])
  show "s_type (example_st (sym_at 2)) = S_BOOLEAN \<or> s_type (example_st (sym_at 2)) = S_TRISTATE"
    by (simp add: example_st_def example_symbol_def)
qed (simp_all add: example_val_def)

section \<open>expr_trans_compare\<close>

definition expr_alloc_comp :: "expr_type \<Rightarrow> sym \<Rightarrow> sym \<Rightarrow> expr" where
  "expr_alloc_comp t s1 s2 = (if t = E_EQUAL then Equal s1 s2 else Unequal s1 s2)"

text \<open>\<open>if (type == E_UNEQUAL) e = expr_alloc_one(E_NOT, e)\<close>\<close>

definition negate_if_unequal :: "expr_type \<Rightarrow> expr \<Rightarrow> expr" where
  "negate_if_unequal t e = (if t = E_UNEQUAL then Neg e else e)"

text \<open>
  The result is \<open>None\<close> where the code returns NULL. The type is \<open>E_EQUAL\<close> or \<open>E_UNEQUAL\<close>. When
  the symbol is neither y nor n, a conjunction or disjunction is returned as it is.
\<close>

fun expr_trans_compare :: "expr \<Rightarrow> expr_type \<Rightarrow> sym \<Rightarrow> expr option" where
  "expr_trans_compare (And l r) t s =
     (let e1 = expr_trans_compare l E_EQUAL s; e2 = expr_trans_compare r E_EQUAL s in
      if s = symbol_yes \<or> s = symbol_no
      then (case (e1, e2) of
              (Some a, Some b) \<Rightarrow> Some (negate_if_unequal t (if s = symbol_yes then And a b else Or a b))
            | _ \<Rightarrow> None)
      else Some (negate_if_unequal t (And l r)))"
| "expr_trans_compare (Or l r) t s =
     (let e1 = expr_trans_compare l E_EQUAL s; e2 = expr_trans_compare r E_EQUAL s in
      if s = symbol_yes \<or> s = symbol_no
      then (case (e1, e2) of
              (Some a, Some b) \<Rightarrow> Some (negate_if_unequal t (if s = symbol_yes then Or a b else And a b))
            | _ \<Rightarrow> None)
      else Some (negate_if_unequal t (Or l r)))"
| "expr_trans_compare (Neg e) t s = expr_trans_compare e (if t = E_EQUAL then E_UNEQUAL else E_EQUAL) s"
| "expr_trans_compare (Sym a) t s = Some (expr_alloc_comp t a s)"
| "expr_trans_compare e t s =
     (if t = E_EQUAL then
        (if s = symbol_yes then Some (expr_copy e)
         else if s = symbol_mod then Some (Sym symbol_no)
         else if s = symbol_no then Some (Neg (expr_copy e)) else None)
      else
        (if s = symbol_yes then Some (Neg (expr_copy e))
         else if s = symbol_mod then Some (Sym symbol_yes)
         else if s = symbol_no then Some (expr_copy e) else None))"

definition expr_trans_compare_ptr :: "expr option \<Rightarrow> expr_type \<Rightarrow> sym \<Rightarrow> expr option" where
  "expr_trans_compare_ptr e t s =
     (case e of None \<Rightarrow> Some (negate_if_unequal t (Sym s)) | Some e \<Rightarrow> expr_trans_compare e t s)"

text \<open>Every symbol tested by the expression is y or n, with the string to match.\<close>

fun two_valued :: "valuation \<Rightarrow> expr \<Rightarrow> bool" where
  "two_valued v (Sym s) = (sym_tri v s \<noteq> tri_mod \<and> sym_str v s = tri_name (sym_tri v s))"
| "two_valued v (Neg e) = two_valued v e"
| "two_valued v (And l r) = (two_valued v l \<and> two_valued v r)"
| "two_valued v (Or l r) = (two_valued v l \<and> two_valued v r)"
| "two_valued v _ = True"

lemma two_valued_value: "two_valued v e \<Longrightarrow> expr_calc_value v e \<noteq> tri_mod"
proof (induction e)
  case (Neg e)
  then show ?case by (cases "expr_calc_value v e") auto
qed (auto simp: min_def max_def)

lemma two_valued_cases: "two_valued v e \<Longrightarrow> expr_calc_value v e = tri_no \<or> expr_calc_value v e = tri_yes"
  using two_valued_value[of v e] by (cases "expr_calc_value v e") auto

lemma compare_exhaustive:
  "s \<in> {symbol_yes, symbol_no} \<Longrightarrow> t \<in> {E_EQUAL, E_UNEQUAL} \<Longrightarrow> \<exists>e'. expr_trans_compare e t s = Some e'"
proof (induction e arbitrary: t)
  case (And l r)
  then obtain a b where "expr_trans_compare l E_EQUAL s = Some a" "expr_trans_compare r E_EQUAL s = Some b"
    by blast
  then show ?case using And.prems by auto
next
  case (Or l r)
  then obtain a b where "expr_trans_compare l E_EQUAL s = Some a" "expr_trans_compare r E_EQUAL s = Some b"
    by blast
  then show ?case using Or.prems by auto
qed auto

lemma value_negate_if_unequal [simp]:
  "expr_calc_value v (negate_if_unequal t e) =
     (if t = E_UNEQUAL then EXPR_NOT (expr_calc_value v e) else expr_calc_value v e)"
  by (simp add: negate_if_unequal_def)

text \<open>The answer a comparison of e with y or n ought to give.\<close>

definition compare_answer :: "valuation \<Rightarrow> expr \<Rightarrow> expr_type \<Rightarrow> sym \<Rightarrow> tristate" where
  "compare_answer v e t s =
     (if (expr_calc_value v e = sym_tri v s) = (t = E_EQUAL) then tri_yes else tri_no)"

lemma compare_value:
  assumes s: "s \<in> {symbol_yes, symbol_no}"
  shows "two_valued v e \<Longrightarrow> t \<in> {E_EQUAL, E_UNEQUAL} \<Longrightarrow> expr_trans_compare e t s = Some e' \<Longrightarrow>
    expr_calc_value v e' = compare_answer v e t s"
proof (induction e arbitrary: t e')
  case (Sym a)
  then show ?case using s
    by (cases "sym_tri v a") (auto simp: compare_answer_def expr_alloc_comp_def)
next
  case (Neg e)
  define t' where "t' = (if t = E_EQUAL then E_UNEQUAL else E_EQUAL)"
  have "expr_calc_value v e' = compare_answer v e t' s"
    using Neg.IH[of t' e'] Neg.prems by (auto simp: t'_def)
  then show ?case using two_valued_cases[of v e] Neg.prems s
    by (auto simp: compare_answer_def t'_def)
next
  case (And l r)
  obtain a b where ab: "expr_trans_compare l E_EQUAL s = Some a" "expr_trans_compare r E_EQUAL s = Some b"
    using compare_exhaustive[OF s, of E_EQUAL l] compare_exhaustive[OF s, of E_EQUAL r] by auto
  have "expr_calc_value v a = compare_answer v l E_EQUAL s" "expr_calc_value v b = compare_answer v r E_EQUAL s"
    using And.IH(1)[OF _ _ ab(1)] And.IH(2)[OF _ _ ab(2)] And.prems by auto
  then show ?case using ab And.prems two_valued_cases[of v l] two_valued_cases[of v r] s
    by (auto simp: compare_answer_def)
next
  case (Or l r)
  obtain a b where ab: "expr_trans_compare l E_EQUAL s = Some a" "expr_trans_compare r E_EQUAL s = Some b"
    using compare_exhaustive[OF s, of E_EQUAL l] compare_exhaustive[OF s, of E_EQUAL r] by auto
  have "expr_calc_value v a = compare_answer v l E_EQUAL s" "expr_calc_value v b = compare_answer v r E_EQUAL s"
    using Or.IH(1)[OF _ _ ab(1)] Or.IH(2)[OF _ _ ab(2)] Or.prems by auto
  then show ?case using ab Or.prems two_valued_cases[of v l] two_valued_cases[of v r] s
    by (auto simp: compare_answer_def)
next
  case (Equal a b)
  then show ?case using s by (auto simp: compare_answer_def expr_copy_id split: if_splits)
next
  case (Unequal a b)
  then show ?case using s by (auto simp: compare_answer_def expr_copy_id split: if_splits)
qed

text \<open>
  comparing an expression with y or with n always succeeds, and when the symbols that the
  expression tests are all y or n the rewritten expression is y exactly when the comparison
  holds and n otherwise.
\<close>

theorem expr_trans_compare_correct:
  assumes "two_valued v e" and "s \<in> {symbol_yes, symbol_no}" and "t \<in> {E_EQUAL, E_UNEQUAL}"
  shows "\<exists>e'. expr_trans_compare e t s = Some e' \<and> expr_calc_value v e' = compare_answer v e t s"
  using compare_exhaustive[OF assms(2,3), of e] compare_value[OF assms(2,1,3)] by blast

theorem expr_trans_compare_correct_witness:
  "\<exists>e'. expr_trans_compare (Neg (And (Sym (sym_at 1)) (Sym (sym_at 1)))) E_EQUAL symbol_no = Some e' \<and>
     expr_calc_value \<lparr>v_tri = (\<lambda>_. tri_yes), v_str = (\<lambda>_. ''y'')\<rparr> e' = tri_yes"
  using expr_trans_compare_correct[of "\<lparr>v_tri = (\<lambda>_. tri_yes), v_str = (\<lambda>_. ''y'')\<rparr>"
    "Neg (And (Sym (sym_at 1)) (Sym (sym_at 1)))" symbol_no E_EQUAL]
  by (simp add: compare_answer_def)

text \<open>
  A symbol with the value m breaks it: \<open>!A = n\<close> is n when A is m, but its translation
  \<open>A != n\<close> is y.
\<close>

theorem expr_trans_compare_negation_of_m:
  "let v = \<lparr>v_tri = (\<lambda>_. tri_mod), v_str = (\<lambda>_. ''m'')\<rparr>; e = Neg (Sym (sym_at 1)) in
   expr_trans_compare e E_EQUAL symbol_no = Some (Unequal (sym_at 1) symbol_no) \<and>
   expr_calc_value v (Unequal (sym_at 1) symbol_no) = tri_yes \<and> compare_answer v e E_EQUAL symbol_no = tri_no"
  by (simp add: Let_def compare_answer_def expr_alloc_comp_def)

end
