(* ===== verification/Kc_Join.thy ===== *)
theory Kc_Join
  imports Kc_Transform
begin

text \<open>
  The joining of two operands of a disjunction or a conjunction into one: \<open>expr_join_or\<close>
  and \<open>expr_join_and\<close> of expr.c, and the proof that the joined operand has the value of the
  two it stands for, for every well-typed valuation.
\<close>

section \<open>The operands that can be joined\<close>

text \<open>
  The two tests of the type and the reading of \<open>sym1\<close>: \<open>None\<close> where the code returns NULL.
  The second operand may only be the negation of a symbol.
\<close>

fun join_sym1 :: "expr \<Rightarrow> sym option" where
  "join_sym1 (Equal a b) = Some a"
| "join_sym1 (Unequal a b) = Some a"
| "join_sym1 (Sym a) = Some a"
| "join_sym1 (Neg (Equal a b)) = Some a"
| "join_sym1 (Neg (Unequal a b)) = Some a"
| "join_sym1 (Neg (Sym a)) = Some a"
| "join_sym1 _ = None"

fun join_sym2 :: "expr \<Rightarrow> sym option" where
  "join_sym2 (Equal a b) = Some a"
| "join_sym2 (Unequal a b) = Some a"
| "join_sym2 (Sym a) = Some a"
| "join_sym2 (Neg (Sym a)) = Some a"
| "join_sym2 _ = None"

text \<open>\<open>e->type == t && e->right.sym == s\<close> for a comparison type \<open>t\<close>.\<close>

fun right_is :: "expr_type \<Rightarrow> expr \<Rightarrow> sym \<Rightarrow> bool" where
  "right_is t (Equal a b) s = (t = E_EQUAL \<and> b = s)"
| "right_is t (Unequal a b) s = (t = E_UNEQUAL \<and> b = s)"
| "right_is t _ s = False"

text \<open>Both operands are comparisons of type \<open>t\<close>, one with \<open>x\<close> and the other with \<open>y\<close>.\<close>

definition compare_both :: "expr_type \<Rightarrow> expr \<Rightarrow> expr \<Rightarrow> sym \<Rightarrow> sym \<Rightarrow> bool" where
  "compare_both t e1 e2 x y \<longleftrightarrow>
     (right_is t e1 x \<and> right_is t e2 y) \<or> (right_is t e1 y \<and> right_is t e2 x)"

text \<open>One operand is the symbol, the other one compares it with \<open>x\<close>.\<close>

definition symbol_and_compare :: "expr_type \<Rightarrow> expr \<Rightarrow> expr \<Rightarrow> sym \<Rightarrow> bool" where
  "symbol_and_compare t e1 e2 x \<longleftrightarrow>
     (etype e1 = E_SYMBOL \<and> right_is t e2 x) \<or> (etype e2 = E_SYMBOL \<and> right_is t e1 x)"

fun is_not_symbol :: "expr \<Rightarrow> bool" where
  "is_not_symbol (Neg (Sym a)) = True"
| "is_not_symbol _ = False"

section \<open>expr_join_or\<close>

definition expr_join_or :: "symtab \<Rightarrow> expr \<Rightarrow> expr \<Rightarrow> expr option" where
  "expr_join_or st e1 e2 =
     (if expr_eq e1 e2 then Some (expr_copy e1)
      else case (join_sym1 e1, join_sym2 e2) of
        (Some sym1, Some sym2) \<Rightarrow>
          if sym1 \<noteq> sym2 then None
          else if s_type (st sym1) \<noteq> S_BOOLEAN \<and> s_type (st sym1) \<noteq> S_TRISTATE then None
          else if s_type (st sym1) = S_TRISTATE \<and> compare_both E_EQUAL e1 e2 symbol_yes symbol_mod
            then Some (expr_alloc_comp E_UNEQUAL sym1 symbol_no)
          else if s_type (st sym1) = S_TRISTATE \<and> compare_both E_EQUAL e1 e2 symbol_yes symbol_no
            then Some (expr_alloc_comp E_UNEQUAL sym1 symbol_mod)
          else if s_type (st sym1) = S_TRISTATE \<and> compare_both E_EQUAL e1 e2 symbol_mod symbol_no
            then Some (expr_alloc_comp E_UNEQUAL sym1 symbol_yes)
          else if s_type (st sym1) = S_BOOLEAN \<and>
                  ((is_not_symbol e1 \<and> etype e2 = E_SYMBOL) \<or> (is_not_symbol e2 \<and> etype e1 = E_SYMBOL))
            then Some (expr_alloc_symbol symbol_yes)
          else None
      | _ \<Rightarrow> None)"

section \<open>expr_join_and\<close>

text \<open>\<open>(a='b') && (a!='c') -> 'b'='c' ? 'n' : a='b'\<close>, if b and c are constants.\<close>

definition join_equal_unequal :: "symtab \<Rightarrow> sym \<Rightarrow> sym \<Rightarrow> sym \<Rightarrow> expr option" where
  "join_equal_unequal st a b c =
     (if has_flag (st c) SYMBOL_CONST \<and> has_flag (st b) SYMBOL_CONST
      then Some (if b \<noteq> c then expr_alloc_comp E_EQUAL a b else expr_alloc_symbol symbol_no)
      else None)"

text \<open>
  The tristate cases in the order of the code. The first two tests leave the function only
  when both constants are constants, and no later one is about an equality and an inequality.
\<close>

definition join_and_tristate :: "symtab \<Rightarrow> sym \<Rightarrow> expr \<Rightarrow> expr \<Rightarrow> expr option" where
  "join_and_tristate st sym1 e1 e2 =
     (case (e1, e2) of
        (Equal _ b, Unequal _ c) \<Rightarrow> join_equal_unequal st sym1 b c
      | (Unequal _ c, Equal _ b) \<Rightarrow> join_equal_unequal st sym1 b c
      | _ \<Rightarrow>
          if compare_both E_UNEQUAL e1 e2 symbol_yes symbol_no
            then Some (expr_alloc_comp E_EQUAL sym1 symbol_mod)
          else if compare_both E_UNEQUAL e1 e2 symbol_yes symbol_mod
            then Some (expr_alloc_comp E_EQUAL sym1 symbol_no)
          else if compare_both E_UNEQUAL e1 e2 symbol_mod symbol_no
            then Some (expr_alloc_comp E_EQUAL sym1 symbol_yes)
          else None)"

definition expr_join_and :: "symtab \<Rightarrow> expr \<Rightarrow> expr \<Rightarrow> expr option" where
  "expr_join_and st e1 e2 =
     (if expr_eq e1 e2 then Some (expr_copy e1)
      else case (join_sym1 e1, join_sym2 e2) of
        (Some sym1, Some sym2) \<Rightarrow>
          if sym1 \<noteq> sym2 then None
          else if s_type (st sym1) \<noteq> S_BOOLEAN \<and> s_type (st sym1) \<noteq> S_TRISTATE then None
          else if symbol_and_compare E_EQUAL e1 e2 symbol_yes
            then Some (expr_alloc_comp E_EQUAL sym1 symbol_yes)
          else if symbol_and_compare E_UNEQUAL e1 e2 symbol_no
            then Some (expr_alloc_symbol sym1)
          else if symbol_and_compare E_UNEQUAL e1 e2 symbol_mod
            then Some (expr_alloc_comp E_EQUAL sym1 symbol_yes)
          else if s_type (st sym1) = S_TRISTATE then join_and_tristate st sym1 e1 e2
          else None
      | _ \<Rightarrow> None)"

section \<open>Soundness\<close>

lemma join_sym1_right:
  "join_sym1 e = Some a \<Longrightarrow> right_is E_EQUAL e x \<Longrightarrow> e = Equal a x"
  "join_sym1 e = Some a \<Longrightarrow> right_is E_UNEQUAL e x \<Longrightarrow> e = Unequal a x"
  "join_sym1 e = Some a \<Longrightarrow> etype e = E_SYMBOL \<Longrightarrow> e = Sym a"
  "join_sym1 e = Some a \<Longrightarrow> is_not_symbol e \<Longrightarrow> e = Neg (Sym a)"
  by (induction e rule: join_sym1.induct; simp)+

lemma join_sym2_right:
  "join_sym2 e = Some a \<Longrightarrow> right_is E_EQUAL e x \<Longrightarrow> e = Equal a x"
  "join_sym2 e = Some a \<Longrightarrow> right_is E_UNEQUAL e x \<Longrightarrow> e = Unequal a x"
  "join_sym2 e = Some a \<Longrightarrow> etype e = E_SYMBOL \<Longrightarrow> e = Sym a"
  "join_sym2 e = Some a \<Longrightarrow> is_not_symbol e \<Longrightarrow> e = Neg (Sym a)"
  by (induction e rule: join_sym2.induct; simp)+

lemmas join_right = join_sym1_right join_sym2_right

lemma compare_both_cases:
  assumes "join_sym1 e1 = Some a" and "join_sym2 e2 = Some a"
  shows "compare_both E_EQUAL e1 e2 x y \<Longrightarrow>
           (e1 = Equal a x \<and> e2 = Equal a y) \<or> (e1 = Equal a y \<and> e2 = Equal a x)"
    and "compare_both E_UNEQUAL e1 e2 x y \<Longrightarrow>
           (e1 = Unequal a x \<and> e2 = Unequal a y) \<or> (e1 = Unequal a y \<and> e2 = Unequal a x)"
  using assms by (auto simp: compare_both_def dest: join_right)

lemma symbol_and_compare_cases:
  assumes "join_sym1 e1 = Some a" and "join_sym2 e2 = Some a"
  shows "symbol_and_compare E_EQUAL e1 e2 x \<Longrightarrow>
           (e1 = Sym a \<and> e2 = Equal a x) \<or> (e2 = Sym a \<and> e1 = Equal a x)"
    and "symbol_and_compare E_UNEQUAL e1 e2 x \<Longrightarrow>
           (e1 = Sym a \<and> e2 = Unequal a x) \<or> (e2 = Sym a \<and> e1 = Unequal a x)"
  using assms by (auto simp: symbol_and_compare_def dest: join_right)

lemmas alloc_defs = expr_alloc_comp_def expr_alloc_symbol_def

lemma value_of_typed_symbol:
  assumes "well_typed st v" and "s_type (st a) = S_BOOLEAN \<or> s_type (st a) = S_TRISTATE"
  shows "(sym_tri v a = tri_no \<and> sym_str v a = ''n'') \<or>
         (sym_tri v a = tri_mod \<and> sym_str v a = ''m'' \<and> s_type (st a) = S_TRISTATE) \<or>
         (sym_tri v a = tri_yes \<and> sym_str v a = ''y'')"
  using assms by (cases "sym_tri v a") (auto simp: well_typed_str dest: well_typed_bool)

lemma join_or_value:
  assumes wt: "well_typed st v" and j: "expr_join_or st e1 e2 = Some e"
  shows "expr_calc_value v e = max (expr_calc_value v e1) (expr_calc_value v e2)"
proof (cases "expr_eq e1 e2")
  case True
  with j show ?thesis by (simp add: expr_join_or_def eliminate_eq_sound(3))
next
  case False
  with j obtain a where a: "join_sym1 e1 = Some a" "join_sym2 e2 = Some a"
    and ty: "s_type (st a) = S_BOOLEAN \<or> s_type (st a) = S_TRISTATE"
    by (auto simp: expr_join_or_def split: option.splits if_splits)
  note eq = compare_both_cases(1)[OF a]
  have neg: "e1 = Neg (Sym a)" if "is_not_symbol e1" using join_sym1_right(4)[OF a(1) that] .
  have neg2: "e2 = Neg (Sym a)" if "is_not_symbol e2" using join_sym2_right(4)[OF a(2) that] .
  have sy: "e1 = Sym a" if "etype e1 = E_SYMBOL" using join_sym1_right(3)[OF a(1) that] .
  have sy2: "e2 = Sym a" if "etype e2 = E_SYMBOL" using join_sym2_right(3)[OF a(2) that] .
  note val = value_of_typed_symbol[OF wt ty]
  show ?thesis using j False a ty val
    by (simp add: expr_join_or_def alloc_defs split: if_splits)
      (use eq neg neg2 sy sy2 in \<open>fastforce dest: well_typed_bool[OF wt]\<close>)+
qed

lemma join_equal_unequal_value:
  assumes wt: "well_typed st v" and "join_equal_unequal st a b c = Some e"
  shows "expr_calc_value v e = min (expr_calc_value v (Equal a b)) (expr_calc_value v (Unequal a c))"
  using assms(2) well_typed_const[OF wt, of c b]
  by (auto simp: join_equal_unequal_def alloc_defs split: if_splits)

lemma join_and_tristate_value:
  assumes wt: "well_typed st v" and ty: "s_type (st a) = S_TRISTATE"
    and a: "join_sym1 e1 = Some a" "join_sym2 e2 = Some a"
    and j: "join_and_tristate st a e1 e2 = Some e"
  shows "expr_calc_value v e = min (expr_calc_value v e1) (expr_calc_value v e2)"
proof -
  note neq = compare_both_cases(2)[OF a]
  note val = value_of_typed_symbol[OF wt disjI2, OF ty]
  consider (eu) b c where "e1 = Equal a b" "e2 = Unequal a c" "join_equal_unequal st a b c = Some e"
    | (ue) b c where "e1 = Unequal a c" "e2 = Equal a b" "join_equal_unequal st a b c = Some e"
    | (yn) "compare_both E_UNEQUAL e1 e2 symbol_yes symbol_no" "e = Equal a symbol_mod"
    | (ym) "compare_both E_UNEQUAL e1 e2 symbol_yes symbol_mod" "e = Equal a symbol_no"
    | (mn) "compare_both E_UNEQUAL e1 e2 symbol_mod symbol_no" "e = Equal a symbol_yes"
    using j a by (cases e1; cases e2) (simp_all add: join_and_tristate_def alloc_defs split: if_splits)
  then show ?thesis
  proof cases
    case eu
    then show ?thesis using join_equal_unequal_value[OF wt eu(3)] by simp
  next
    case ue
    then show ?thesis using join_equal_unequal_value[OF wt ue(3)] by (simp add: min.commute)
  next
    case yn
    then show ?thesis using neq[OF yn(1)] val by auto
  next
    case ym
    then show ?thesis using neq[OF ym(1)] val by auto
  next
    case mn
    then show ?thesis using neq[OF mn(1)] val by auto
  qed
qed

lemma join_and_value:
  assumes wt: "well_typed st v" and j: "expr_join_and st e1 e2 = Some e"
  shows "expr_calc_value v e = min (expr_calc_value v e1) (expr_calc_value v e2)"
proof (cases "expr_eq e1 e2")
  case True
  with j show ?thesis by (simp add: expr_join_and_def eliminate_eq_sound(3))
next
  case False
  with j obtain a where a: "join_sym1 e1 = Some a" "join_sym2 e2 = Some a"
    and ty: "s_type (st a) = S_BOOLEAN \<or> s_type (st a) = S_TRISTATE"
    by (auto simp: expr_join_and_def split: option.splits if_splits)
  note sc = symbol_and_compare_cases[OF a]
  note val = value_of_typed_symbol[OF wt ty]
  consider (y) "symbol_and_compare E_EQUAL e1 e2 symbol_yes" "e = Equal a symbol_yes"
    | (n) "symbol_and_compare E_UNEQUAL e1 e2 symbol_no" "e = Sym a"
    | (m) "symbol_and_compare E_UNEQUAL e1 e2 symbol_mod" "e = Equal a symbol_yes"
    | (tri) "s_type (st a) = S_TRISTATE" "join_and_tristate st a e1 e2 = Some e"
    using j False a ty by (auto simp: expr_join_and_def alloc_defs split: if_splits)
  then show ?thesis
  proof cases
    case y
    then show ?thesis using sc(1)[OF y(1)] val by (auto simp: min_def)
  next
    case n
    then show ?thesis using sc(2)[OF n(1)] val by (auto simp: min_def)
  next
    case m
    then show ?thesis using sc(2)[OF m(1)] val by (auto simp: min_def)
  next
    case tri
    show ?thesis by (rule join_and_tristate_value[OF wt tri(1) a tri(2)])
  qed
qed

text \<open>
  whenever \<open>expr_join_or\<close> or \<open>expr_join_and\<close> joins two operands, the expression they
  return has the value of the disjunction, respectively of the conjunction, of the two, for
  every well-typed valuation.
\<close>

theorem expr_join_sound:
  assumes "well_typed st v"
  shows "(expr_join_or st e1 e2 = Some a \<longrightarrow> expr_calc_value v a = expr_calc_value v (Or e1 e2)) \<and>
         (expr_join_and st e1 e2 = Some b \<longrightarrow> expr_calc_value v b = expr_calc_value v (And e1 e2))"
  using join_or_value[OF assms] join_and_value[OF assms] by simp

theorem expr_join_sound_witness:
  "expr_join_or example_st (Equal (sym_at 3) symbol_no) (Equal (sym_at 3) symbol_mod) =
     Some (Unequal (sym_at 3) symbol_yes) \<and>
   expr_calc_value example_val (Unequal (sym_at 3) symbol_yes) =
     expr_calc_value example_val (Or (Equal (sym_at 3) symbol_no) (Equal (sym_at 3) symbol_mod)) \<and>
   expr_join_and example_st (Unequal (sym_at 3) symbol_mod) (Sym (sym_at 3)) =
     Some (Equal (sym_at 3) symbol_yes) \<and>
   expr_calc_value example_val (Equal (sym_at 3) symbol_yes) =
     expr_calc_value example_val (And (Unequal (sym_at 3) symbol_mod) (Sym (sym_at 3)))"
proof -
  have "expr_join_or example_st (Equal (sym_at 3) symbol_no) (Equal (sym_at 3) symbol_mod) =
     Some (Unequal (sym_at 3) symbol_yes)"
    by (simp add: expr_join_or_def compare_both_def alloc_defs example_st_def example_symbol_def)
  moreover have "expr_join_and example_st (Unequal (sym_at 3) symbol_mod) (Sym (sym_at 3)) =
     Some (Equal (sym_at 3) symbol_yes)"
    by (simp add: expr_join_and_def symbol_and_compare_def alloc_defs example_st_def example_symbol_def)
  ultimately show ?thesis
    using expr_join_sound[OF example_typed,
      of "Equal (sym_at 3) symbol_no" "Equal (sym_at 3) symbol_mod" "Unequal (sym_at 3) symbol_yes"]
      expr_join_sound[OF example_typed,
      of "Unequal (sym_at 3) symbol_mod" "Sym (sym_at 3)" _ "Equal (sym_at 3) symbol_yes"] by blast
qed

end
