(* ===== verification/C_Strings.thy ===== *)
theory C_Strings
  imports Prelude
begin

text \<open>
  The C library's character classes, \<open>strtoll\<close> and the \<open>%lld\<close> and \<open>0x%llx\<close> conversions as
  the programs use them, over strings without the final NUL, and the round trip of the two.
\<close>

section \<open>Character classes\<close>

definition code :: "char \<Rightarrow> nat" where "code c = of_char c"

definition isdigit :: "char \<Rightarrow> bool" where "isdigit c \<longleftrightarrow> 48 \<le> code c \<and> code c \<le> 57"

definition isxdigit :: "char \<Rightarrow> bool" where
  "isxdigit c \<longleftrightarrow> isdigit c \<or> (65 \<le> code c \<and> code c \<le> 70) \<or> (97 \<le> code c \<and> code c \<le> 102)"

definition isalnum :: "char \<Rightarrow> bool" where
  "isalnum c \<longleftrightarrow> isdigit c \<or> (65 \<le> code c \<and> code c \<le> 90) \<or> (97 \<le> code c \<and> code c \<le> 122)"

text \<open>Space, \<open>\t\<close>, \<open>\n\<close>, \<open>\v\<close>, \<open>\f\<close> and \<open>\r\<close>.\<close>

definition isspace :: "char \<Rightarrow> bool" where
  "isspace c \<longleftrightarrow> code c = 32 \<or> (9 \<le> code c \<and> code c \<le> 13)"

definition tolower :: "char \<Rightarrow> char" where
  "tolower c = (if 65 \<le> code c \<and> code c \<le> 90 then char_of (code c + 32) else c)"

section \<open>Numbers in strings\<close>

definition digit_of :: "nat \<Rightarrow> char \<Rightarrow> nat option" where
  "digit_of b c =
     (let d = (if isdigit c then code c - 48
               else if 97 \<le> code c \<and> code c \<le> 122 then code c - 87
               else if 65 \<le> code c \<and> code c \<le> 90 then code c - 55 else 99)
      in if d < b then Some d else None)"

fun digits_val :: "nat \<Rightarrow> string \<Rightarrow> nat \<Rightarrow> nat" where
  "digits_val b [] a = a"
| "digits_val b (c # cs) a = (case digit_of b c of None \<Rightarrow> a | Some d \<Rightarrow> digits_val b cs (a * b + d))"

definition LLONG_MAX :: int where "LLONG_MAX = 9223372036854775807"
definition LLONG_MIN :: int where "LLONG_MIN = - 9223372036854775808"

definition clamp_ll :: "int \<Rightarrow> int" where
  "clamp_ll i = (if i > LLONG_MAX then LLONG_MAX else if i < LLONG_MIN then LLONG_MIN else i)"

fun read_sign :: "string \<Rightarrow> bool \<times> string" where
  "read_sign (c # cs) = (if c = CHR ''-'' then (True, cs) else if c = CHR ''+'' then (False, cs) else (False, c # cs))"
| "read_sign [] = (False, [])"

fun skip_0x :: "string \<Rightarrow> string" where
  "skip_0x (z # x # c # cs) =
     (if z = CHR ''0'' \<and> (x = CHR ''x'' \<or> x = CHR ''X'') \<and> isxdigit c then c # cs else z # x # c # cs)"
| "skip_0x s = s"

text \<open>\<open>strtoll(s, NULL, b)\<close> for the bases 10 and 16.\<close>

definition strtoll :: "string \<Rightarrow> nat \<Rightarrow> int" where
  "strtoll s b =
     (case read_sign (dropWhile isspace s) of (neg, r) \<Rightarrow>
        let n = digits_val b (if b = 16 then skip_0x r else r) 0
        in clamp_ll (if neg then - int n else int n))"

text \<open>The conversion to \<open>int\<close>.\<close>

definition to_int32 :: "int \<Rightarrow> int" where
  "to_int32 i = sint (word_of_int i :: u32)"

definition atoi :: "string \<Rightarrow> int" where "atoi s = to_int32 (strtoll s 10)"

section \<open>Printing numbers\<close>

definition digit_char :: "nat \<Rightarrow> char" where
  "digit_char d = char_of (if d < 10 then 48 + d else 87 + d)"

function nat_str :: "nat \<Rightarrow> nat \<Rightarrow> string" where
  "nat_str b n = (if b < 2 \<or> n < b then [digit_char n] else nat_str b (n div b) @ [digit_char (n mod b)])"
  by pat_completeness auto
termination nat_str by (relation "measure snd") auto

declare nat_str.simps [simp del]

definition sprintf_lld :: "int \<Rightarrow> string" where
  "sprintf_lld i = (if i < 0 then CHR ''-'' # nat_str 10 (nat (- i)) else nat_str 10 (nat i))"

definition sprintf_0xllx :: "int \<Rightarrow> string" where
  "sprintf_0xllx i = ''0x'' @ nat_str 16 (nat (i mod 18446744073709551616))"

section \<open>Round trip\<close>

lemma digit_char_code: "d < 36 \<Longrightarrow> code (digit_char d) = (if d < 10 then 48 + d else 87 + d)"
  by (simp add: digit_char_def code_def)

lemma digit_of_digit_char [simp]: "b \<le> 16 \<Longrightarrow> d < b \<Longrightarrow> digit_of b (digit_char d) = Some d"
  by (simp add: digit_of_def digit_char_code isdigit_def Let_def)

lemma digits_val_snoc:
  "list_all (\<lambda>c. digit_of b c \<noteq> None) xs \<Longrightarrow> digits_val b (xs @ ys) a = digits_val b ys (digits_val b xs a)"
  by (induction xs arbitrary: a) auto

lemma nat_str_digits: "2 \<le> b \<Longrightarrow> b \<le> 16 \<Longrightarrow> list_all (\<lambda>c. digit_of b c \<noteq> None) (nat_str b n)"
  by (induction b n rule: nat_str.induct) (subst nat_str.simps, auto)

lemma digits_val_nat_str: "2 \<le> b \<Longrightarrow> b \<le> 16 \<Longrightarrow> digits_val b (nat_str b n) 0 = n"
proof (induction b n rule: nat_str.induct)
  case (1 b n)
  then show ?case
    by (subst nat_str.simps) (auto simp: digits_val_snoc[OF nat_str_digits] div_less_dividend)
qed

lemma nat_str_head: "2 \<le> b \<Longrightarrow> b \<le> 16 \<Longrightarrow> \<exists>d cs. nat_str b n = digit_char d # cs \<and> d < b"
proof (induction b n rule: nat_str.induct)
  case (1 b n)
  then show ?case by (subst (1) nat_str.simps) fastforce
qed

lemma digit_char_neutral:
  assumes "d < 16"
  shows "\<not> isspace (digit_char d)" and "digit_char d \<noteq> CHR ''-''" and "digit_char d \<noteq> CHR ''+''"
    and "isxdigit (digit_char d)"
proof -
  have c: "code (digit_char d) = (if d < 10 then 48 + d else 87 + d)" using assms by (simp add: digit_char_code)
  then show "\<not> isspace (digit_char d)" "isxdigit (digit_char d)"
    using assms by (auto simp: isspace_def isxdigit_def isdigit_def split: if_splits)
  from c have "48 \<le> code (digit_char d)" by (simp split: if_splits)
  moreover have "code (CHR ''-'') = 45" "code (CHR ''+'') = 43" by (simp_all add: code_def)
  ultimately show "digit_char d \<noteq> CHR ''-''" "digit_char d \<noteq> CHR ''+''" by auto
qed

lemma clamp_ll_id: "LLONG_MIN \<le> i \<Longrightarrow> i \<le> LLONG_MAX \<Longrightarrow> clamp_ll i = i"
  by (simp add: clamp_ll_def)

lemma strtoll_lld:
  assumes "LLONG_MIN \<le> i" and "i \<le> LLONG_MAX"
  shows "strtoll (sprintf_lld i) 10 = i"
proof -
  obtain d cs where h: "nat_str 10 (nat i) = digit_char d # cs" "d < 10"
    using nat_str_head[of 10 "nat i"] by auto
  obtain d' cs' where h': "nat_str 10 (nat (- i)) = digit_char d' # cs'" "d' < 10"
    using nat_str_head[of 10 "nat (- i)"] by auto
  have v: "digits_val 10 (nat_str 10 n) 0 = n" for n by (rule digits_val_nat_str) auto
  have m: "\<not> isspace (CHR ''-'')" by (simp add: isspace_def code_def)
  show ?thesis
  proof (cases "i < 0")
    case True
    then show ?thesis using v[of "nat (- i)"] m assms
      by (simp add: strtoll_def sprintf_lld_def clamp_ll_id Let_def)
  next
    case False
    then show ?thesis using v[of "nat i"] h digit_char_neutral[of d] assms
      by (simp add: strtoll_def sprintf_lld_def clamp_ll_id Let_def)
  qed
qed

lemma strtoll_0xllx:
  assumes "0 \<le> i" and "i \<le> LLONG_MAX"
  shows "strtoll (sprintf_0xllx i) 16 = i"
proof -
  have mo: "i mod 18446744073709551616 = i" using assms by (simp add: LLONG_MAX_def)
  obtain d cs where h: "nat_str 16 (nat i) = digit_char d # cs" "d < 16"
    using nat_str_head[of 16 "nat i"] by auto
  have v: "digits_val 16 (nat_str 16 (nat i)) 0 = nat i" by (rule digits_val_nat_str) auto
  have z: "\<not> isspace (CHR ''0'')" by (simp add: isspace_def code_def)
  from assms have c: "clamp_ll i = i" by (simp add: clamp_ll_def LLONG_MIN_def)
  show ?thesis using v h mo c z digit_char_neutral(4)[of d] assms(1)
    by (simp add: strtoll_def sprintf_0xllx_def Let_def)
qed

end
