(* ===== verification/Kc_State.thy ===== *)
theory Kc_State
  imports Kc_Join C_Strings "HOL-Library.Monad_Syntax"
begin

text \<open>
  The state on which symbol.c works: the symbol table, \<open>modules_sym\<close>, \<open>modules_val\<close>, the
  change counter and the marks of the menus, with the accessors of lkc.h and the small
  functions of symbol.c that read a symbol or its properties.
\<close>

section \<open>The state\<close>

text \<open>
  \<open>k_hash\<close> are the chains of \<open>symbol_hash\<close>, \<open>k_next\<close> is the next symbol that \<open>xmalloc\<close> returns,
  \<open>k_fresh\<close> the next address that \<open>strdup\<close> returns, \<open>k_unmet\<close> the symbols for which the warning about
  unmet direct dependencies has been printed, newest first, and \<open>k_undef\<close> records that the
  code has used a NULL pointer as a string.
\<close>

record kstate =
  k_sym :: symtab
  k_hash :: "nat \<Rightarrow> sym list"
  k_next :: nat
  k_modules :: sym
  k_modval :: tristate
  k_change :: int
  k_menu_changed :: "nat \<Rightarrow> bool"
  k_fresh :: nat
  k_unmet :: "sym list"
  k_undef :: bool

definition SYMBOL_HASHSIZE :: nat where "SYMBOL_HASHSIZE = 9973"

text \<open>The symbols in the order of \<open>for_all_symbols\<close>, which skips those of type \<open>S_OTHER\<close>.\<close>

definition k_list :: "kstate \<Rightarrow> sym list" where
  "k_list st = concat (map (k_hash st) [0 ..< SYMBOL_HASHSIZE])"

definition for_all_symbols :: "kstate \<Rightarrow> sym list" where
  "for_all_symbols st = filter (\<lambda>s. s_type (k_sym st s) \<noteq> S_OTHER) (k_list st)"

definition upd :: "sym \<Rightarrow> (symbol \<Rightarrow> symbol) \<Rightarrow> kstate \<Rightarrow> kstate" where
  "upd s f st = st\<lparr>k_sym := (k_sym st)(s := f (k_sym st s))\<rparr>"

lemma upd_same [simp]: "k_sym (upd s f st) s = f (k_sym st s)"
  by (simp add: upd_def)

lemma upd_other: "a \<noteq> s \<Longrightarrow> k_sym (upd s f st) a = k_sym st a"
  by (simp add: upd_def)

lemma k_sym_upd: "k_sym (upd s f st) a = (if a = s then f (k_sym st s) else k_sym st a)"
  by (simp add: upd_def)

lemma upd_fields [simp]:
  "k_hash (upd s f st) = k_hash st" "k_next (upd s f st) = k_next st" "k_modules (upd s f st) = k_modules st"
  "k_modval (upd s f st) = k_modval st" "k_change (upd s f st) = k_change st"
  "k_menu_changed (upd s f st) = k_menu_changed st" "k_fresh (upd s f st) = k_fresh st"
  "k_unmet (upd s f st) = k_unmet st" "k_undef (upd s f st) = k_undef st"
  by (simp_all add: upd_def)

lemma k_list_hash: "k_hash st' = k_hash st \<Longrightarrow> k_list st' = k_list st"
  by (simp add: k_list_def)

section \<open>Flags\<close>

definition set_flags :: "u32 \<Rightarrow> symbol \<Rightarrow> symbol" where
  "set_flags f y = y\<lparr>s_flags := s_flags y OR f\<rparr>"

definition clear_flags :: "u32 \<Rightarrow> symbol \<Rightarrow> symbol" where
  "clear_flags f y = y\<lparr>s_flags := s_flags y AND NOT f\<rparr>"

lemmas flag_defs = SYMBOL_CONST_def SYMBOL_CHECK_def SYMBOL_CHOICE_def SYMBOL_CHOICEVAL_def
  SYMBOL_VALID_def SYMBOL_OPTIONAL_def SYMBOL_WRITE_def SYMBOL_CHANGED_def SYMBOL_AUTO_def
  SYMBOL_CHECKED_def SYMBOL_WARNED_def SYMBOL_DEF_USER_def SYMBOL_DEF_AUTO_def
  SYMBOL_NEED_SET_CHOICE_VALUES_def

lemma and_other_flags:
  fixes f g y :: u32
  assumes "f AND g = 0"
  shows "(y OR g) AND f = y AND f" and "(y AND NOT g) AND f = y AND f"
proof -
  have d: "\<not> (bit f n \<and> bit g n)" for n
    using assms by (metis bit_0_eq bit_and_iff bot_apply bot_bool_def)
  show "(y OR g) AND f = y AND f" "(y AND NOT g) AND f = y AND f"
    by (rule bit_word_eqI; use d in \<open>auto simp: bit_simps\<close>)+
qed

lemma has_set_flags [flag_simps]: "f AND g = 0 \<Longrightarrow> has_flag (set_flags g y) f = has_flag y f"
  by (simp add: has_flag_def set_flags_def and_other_flags)

lemma has_clear_flags [flag_simps]: "f AND g = 0 \<Longrightarrow> has_flag (clear_flags g y) f = has_flag y f"
  by (simp add: has_flag_def clear_flags_def and_other_flags)

lemma has_set_flags_same [flag_simps]: "f \<noteq> 0 \<Longrightarrow> has_flag (set_flags f y) f"
  by (simp add: has_flag_def set_flags_def bit.conj_disj_distrib2 or_eq_0_iff)

lemma has_clear_flags_same [flag_simps]: "\<not> has_flag (clear_flags f y) f"
  by (simp add: has_flag_def clear_flags_def and.assoc)

section \<open>Accessors\<close>

definition sym_is_choice :: "symbol \<Rightarrow> bool" where
  "sym_is_choice y = has_flag y SYMBOL_CHOICE"

definition sym_is_choice_value :: "symbol \<Rightarrow> bool" where
  "sym_is_choice_value y = has_flag y SYMBOL_CHOICEVAL"

definition sym_is_optional :: "symbol \<Rightarrow> bool" where
  "sym_is_optional y = has_flag y SYMBOL_OPTIONAL"

definition sym_has_value :: "symbol \<Rightarrow> bool" where
  "sym_has_value y = has_flag y SYMBOL_DEF_USER"

definition sym_get_tristate_value :: "symbol \<Rightarrow> tristate" where
  "sym_get_tristate_value y = sv_tri (s_curr y)"

definition sym_get_type :: "kstate \<Rightarrow> sym \<Rightarrow> symbol_type" where
  "sym_get_type st s =
     (let y = k_sym st s in
      if s_type y = S_TRISTATE then
        if sym_is_choice_value y \<and> s_visible y = tri_yes then S_BOOLEAN
        else if k_modval st = tri_no then S_BOOLEAN
        else S_TRISTATE
      else s_type y)"

fun sym_type_name :: "symbol_type \<Rightarrow> string" where
  "sym_type_name S_BOOLEAN = ''boolean''"
| "sym_type_name S_TRISTATE = ''tristate''"
| "sym_type_name S_INT = ''integer''"
| "sym_type_name S_HEX = ''hex''"
| "sym_type_name S_STRING = ''string''"
| "sym_type_name S_UNKNOWN = ''unknown''"
| "sym_type_name S_OTHER = ''???''"

fun prop_get_type_name :: "prop_type \<Rightarrow> string" where
  "prop_get_type_name P_PROMPT = ''prompt''"
| "prop_get_type_name P_ENV = ''env''"
| "prop_get_type_name P_COMMENT = ''comment''"
| "prop_get_type_name P_MENU = ''menu''"
| "prop_get_type_name P_DEFAULT = ''default''"
| "prop_get_type_name P_CHOICE = ''choice''"
| "prop_get_type_name P_SELECT = ''select''"
| "prop_get_type_name P_RANGE = ''range''"
| "prop_get_type_name P_SYMBOL = ''symbol''"
| "prop_get_type_name P_UNKNOWN = ''unknown''"

section \<open>Properties\<close>

text \<open>
  \<open>prop_get_symbol\<close>. Of an \<open>E_LIST\<close> node the code returns the next node of the list as if it
  were a symbol; no caller passes the property of a choice, and \<open>None\<close> stands for it.
\<close>

definition prop_get_symbol :: "property \<Rightarrow> sym option" where
  "prop_get_symbol p = (case p_expr p of Some (PE_expr (Sym s)) \<Rightarrow> Some s | _ \<Rightarrow> None)"

definition sym_get_choice_prop :: "symbol \<Rightarrow> property option" where
  "sym_get_choice_prop y = List.find (\<lambda>p. p_type p = P_CHOICE) (s_prop y)"

definition sym_get_env_prop :: "symbol \<Rightarrow> property option" where
  "sym_get_env_prop y = List.find (\<lambda>p. p_type p = P_ENV) (s_prop y)"

text \<open>\<open>prop_get_symbol(sym_get_choice_prop(sym))\<close>: the choice that a choice value belongs to.\<close>

definition choice_of :: "symbol \<Rightarrow> sym option" where
  "choice_of y = (case sym_get_choice_prop y of None \<Rightarrow> None | Some p \<Rightarrow> prop_get_symbol p)"

text \<open>The symbols that \<open>expr_list_for_each_sym\<close> visits for the choice property of a choice.\<close>

definition choice_list :: "symbol \<Rightarrow> sym list" where
  "choice_list y =
     (case sym_get_choice_prop y of
        Some p \<Rightarrow> (case p_expr p of Some (PE_list l) \<Rightarrow> l | _ \<Rightarrow> [])
      | None \<Rightarrow> [])"

definition set_prop_visible :: "sym \<Rightarrow> nat \<Rightarrow> tristate \<Rightarrow> kstate \<Rightarrow> kstate" where
  "set_prop_visible s i t =
     upd s (\<lambda>y. y\<lparr>s_prop := (s_prop y)[i := (s_prop y ! i)\<lparr>p_visible := (p_visible (s_prop y ! i))\<lparr>ev_tri := t\<rparr>\<rparr>]\<rparr>)"

section \<open>Marking changes\<close>

definition sym_set_changed :: "sym \<Rightarrow> kstate \<Rightarrow> kstate" where
  "sym_set_changed s st =
     (let st1 = upd s (set_flags SYMBOL_CHANGED) st in
      st1\<lparr>k_menu_changed := (\<lambda>m. k_menu_changed st1 m \<or> Some m \<in> set (List.map p_menu (s_prop (k_sym st1 s))))\<rparr>)"

definition sym_set_all_changed :: "kstate \<Rightarrow> kstate" where
  "sym_set_all_changed st =
     fold sym_set_changed (for_all_symbols st) st"

definition sym_add_change_count :: "int \<Rightarrow> kstate \<Rightarrow> kstate" where
  "sym_add_change_count n st = st\<lparr>k_change := n + k_change st\<rparr>"

end
