(* ===== verification/Kc_Calc.thy ===== *)
theory Kc_Calc
  imports Kc_State
begin

text \<open>
  The computation of symbol values in symbol.c: \<open>sym_calc_value\<close> and what it calls.
  \<open>sym_calc_value\<close>, \<open>expr_calc_value\<close> and \<open>sym_calc_visibility\<close> call each other; each
  definition takes the recursive call as its argument \<open>calc\<close>, and \<open>sym_calc_value\<close> ties the
  knot with a bound on the depth of the recursion, which is None only when the bound is
  used up.
\<close>

type_synonym calc = "sym \<Rightarrow> kstate \<Rightarrow> kstate option"

section \<open>Values\<close>

definition undefined_use :: "kstate \<Rightarrow> kstate" where
  "undefined_use st = st\<lparr>k_undef := True\<rparr>"

text \<open>Reading a \<open>void *val\<close> as a string.\<close>

fun c_string :: "val \<Rightarrow> kstate \<Rightarrow> string \<times> kstate" where
  "c_string (VStr a s) st = (s, st)"
| "c_string (VName y s) st = (s, st)"
| "c_string VNull st = ('''', undefined_use st)"
| "c_string (VSym y) st = ('''', undefined_use st)"

definition sym_get_string_value :: "calc \<Rightarrow> sym \<Rightarrow> kstate \<Rightarrow> (string \<times> kstate) option" where
  "sym_get_string_value calc s st =
     (let y = k_sym st s in
      if s_type y = S_BOOLEAN \<or> s_type y = S_TRISTATE then
        (case sym_get_tristate_value y of
           tri_no \<Rightarrow> Some (''n'', st)
         | tri_mod \<Rightarrow> do {
             st' \<leftarrow> calc (k_modules st) st;
             Some (if sv_tri (s_curr (k_sym st' (k_modules st'))) = tri_no then ''n'' else ''m'', st') }
         | tri_yes \<Rightarrow> Some (''y'', st))
      else Some (c_string (sv_val (s_curr y)) st))"

text \<open>
  \<open>expr_calc_value\<close>. Both operands are evaluated, the left one first; a comparison
  calculates both symbols before it reads their strings.
\<close>

definition compare_strings :: "calc \<Rightarrow> sym \<Rightarrow> sym \<Rightarrow> kstate \<Rightarrow> (bool \<times> kstate) option" where
  "compare_strings calc a b st = do {
     st1 \<leftarrow> calc a st;
     st2 \<leftarrow> calc b st1;
     (str1, st3) \<leftarrow> sym_get_string_value calc a st2;
     (str2, st4) \<leftarrow> sym_get_string_value calc b st3;
     Some (str1 = str2, st4) }"

fun calc_expr :: "calc \<Rightarrow> expr \<Rightarrow> kstate \<Rightarrow> (tristate \<times> kstate) option" where
  "calc_expr calc (Sym s) st = do {
     st1 \<leftarrow> calc s st;
     Some (sv_tri (s_curr (k_sym st1 s)), st1) }"
| "calc_expr calc (And l r) st = do {
     (val1, st1) \<leftarrow> calc_expr calc l st;
     (val2, st2) \<leftarrow> calc_expr calc r st1;
     Some (EXPR_AND val1 val2, st2) }"
| "calc_expr calc (Or l r) st = do {
     (val1, st1) \<leftarrow> calc_expr calc l st;
     (val2, st2) \<leftarrow> calc_expr calc r st1;
     Some (EXPR_OR val1 val2, st2) }"
| "calc_expr calc (Neg e) st = do {
     (val1, st1) \<leftarrow> calc_expr calc e st;
     Some (EXPR_NOT val1, st1) }"
| "calc_expr calc (Equal a b) st = do {
     (eq, st1) \<leftarrow> compare_strings calc a b st;
     Some (if eq then tri_yes else tri_no, st1) }"
| "calc_expr calc (Unequal a b) st = do {
     (eq, st1) \<leftarrow> compare_strings calc a b st;
     Some (if eq then tri_no else tri_yes, st1) }"

definition calc_expr_ptr :: "calc \<Rightarrow> expr option \<Rightarrow> kstate \<Rightarrow> (tristate \<times> kstate) option" where
  "calc_expr_ptr calc e st = (case e of None \<Rightarrow> Some (tri_yes, st) | Some e \<Rightarrow> calc_expr calc e st)"

text \<open>The expression of a property; of a list or a range the code prints a message and says n.\<close>

definition calc_prop_expr :: "calc \<Rightarrow> property \<Rightarrow> kstate \<Rightarrow> (tristate \<times> kstate) option" where
  "calc_prop_expr calc p st =
     (case p_expr p of
        None \<Rightarrow> Some (tri_yes, st)
      | Some (PE_expr e) \<Rightarrow> calc_expr calc e st
      | Some _ \<Rightarrow> Some (tri_no, st))"

section \<open>Properties\<close>

text \<open>
  The loops over the properties of a symbol that evaluate \<open>prop->visible.expr\<close>: the first
  property of a type that is visible, as its index, and the disjunction over the prompts.
\<close>

fun first_visible :: "calc \<Rightarrow> prop_type \<Rightarrow> sym \<Rightarrow> nat list \<Rightarrow> kstate \<Rightarrow> (nat option \<times> kstate) option" where
  "first_visible calc t s [] st = Some (None, st)"
| "first_visible calc t s (i # is) st =
     (let p = s_prop (k_sym st s) ! i in
      if p_type p \<noteq> t then first_visible calc t s is st
      else do {
        (v, st1) \<leftarrow> calc_expr_ptr calc (ev_expr (p_visible p)) st;
        let st2 = set_prop_visible s i v st1;
        if v \<noteq> tri_no then Some (Some i, st2) else first_visible calc t s is st2 })"

definition prop_indices :: "sym \<Rightarrow> kstate \<Rightarrow> nat list" where
  "prop_indices s st = [0 ..< length (s_prop (k_sym st s))]"

definition sym_get_default_prop :: "calc \<Rightarrow> sym \<Rightarrow> kstate \<Rightarrow> (nat option \<times> kstate) option" where
  "sym_get_default_prop calc s st = first_visible calc P_DEFAULT s (prop_indices s st) st"

definition sym_get_range_prop :: "calc \<Rightarrow> sym \<Rightarrow> kstate \<Rightarrow> (nat option \<times> kstate) option" where
  "sym_get_range_prop calc s st = first_visible calc P_RANGE s (prop_indices s st) st"

fun prompts_visible :: "calc \<Rightarrow> sym \<Rightarrow> nat list \<Rightarrow> tristate \<Rightarrow> kstate \<Rightarrow> (tristate \<times> kstate) option" where
  "prompts_visible calc s [] tri st = Some (tri, st)"
| "prompts_visible calc s (i # is) tri st =
     (let p = s_prop (k_sym st s) ! i in
      if p_text p = None then prompts_visible calc s is tri st
      else do {
        (v, st1) \<leftarrow> calc_expr_ptr calc (ev_expr (p_visible p)) st;
        prompts_visible calc s is (EXPR_OR tri v) (set_prop_visible s i v st1) })"

section \<open>Ranges\<close>

definition range_base :: "symbol_type \<Rightarrow> nat \<Rightarrow> nat" where
  "range_base t base = (if t = S_INT then 10 else if t = S_HEX then 16 else base)"

definition sym_get_range_val :: "calc \<Rightarrow> sym \<Rightarrow> nat \<Rightarrow> kstate \<Rightarrow> (int \<times> kstate) option" where
  "sym_get_range_val calc s base st = do {
     st1 \<leftarrow> calc s st;
     let (str, st2) = c_string (sv_val (s_curr (k_sym st1 s))) st1;
     Some (strtoll str (range_base (s_type (k_sym st1 s)) base), st2) }"

definition set_curr :: "sym \<Rightarrow> symbol_value \<Rightarrow> kstate \<Rightarrow> kstate" where
  "set_curr s v = upd s (\<lambda>y. y\<lparr>s_curr := v\<rparr>)"

definition set_curr_val :: "sym \<Rightarrow> val \<Rightarrow> kstate \<Rightarrow> kstate" where
  "set_curr_val s v = upd s (\<lambda>y. y\<lparr>s_curr := (s_curr y)\<lparr>sv_val := v\<rparr>\<rparr>)"

text \<open>\<open>sym->curr.val = strdup(str)\<close> with the bound printed into \<open>str\<close>.\<close>

definition store_bound :: "sym \<Rightarrow> int \<Rightarrow> kstate \<Rightarrow> kstate" where
  "store_bound s b st =
     (set_curr_val s (VStr (k_fresh st)
        (if s_type (k_sym st s) = S_INT then sprintf_lld b else sprintf_0xllx b)) st)
     \<lparr>k_fresh := Suc (k_fresh st)\<rparr>"

definition enforce_bounds :: "calc \<Rightarrow> sym \<Rightarrow> nat \<Rightarrow> int \<Rightarrow> sym \<Rightarrow> sym \<Rightarrow> kstate \<Rightarrow> kstate option" where
  "enforce_bounds calc s base val lo hi st = do {
     (val2, st1) \<leftarrow> sym_get_range_val calc lo base st;
     if val2 \<le> val then do {
       (val2, st2) \<leftarrow> sym_get_range_val calc hi base st1;
       if val \<le> val2 then Some st2 else Some (store_bound s val2 st2) }
     else Some (store_bound s val2 st1) }"

definition sym_validate_range :: "calc \<Rightarrow> sym \<Rightarrow> kstate \<Rightarrow> kstate option" where
  "sym_validate_range calc s st =
     (if s_type (k_sym st s) \<noteq> S_INT \<and> s_type (k_sym st s) \<noteq> S_HEX then Some st
      else do {
        let base = range_base (s_type (k_sym st s)) 0;
        (prop, st1) \<leftarrow> sym_get_range_prop calc s st;
        (case prop of
           None \<Rightarrow> Some st1
         | Some i \<Rightarrow>
             (case p_expr (s_prop (k_sym st1 s) ! i) of
                Some (PE_range lo hi) \<Rightarrow>
                  (case c_string (sv_val (s_curr (k_sym st1 s))) st1 of
                     (str, st2) \<Rightarrow> enforce_bounds calc s base (strtoll str base) lo hi st2)
              | _ \<Rightarrow> Some (undefined_use st1))) })"

section \<open>Visibility\<close>

definition set_visible :: "sym \<Rightarrow> tristate \<Rightarrow> kstate \<Rightarrow> kstate" where
  "set_visible s tri st =
     (if s_visible (k_sym st s) \<noteq> tri
      then sym_set_changed s (upd s (\<lambda>y. y\<lparr>s_visible := tri\<rparr>) st) else st)"

definition set_dir_dep :: "sym \<Rightarrow> tristate \<Rightarrow> kstate \<Rightarrow> kstate" where
  "set_dir_dep s tri st =
     (if ev_tri (s_dir_dep (k_sym st s)) \<noteq> tri
      then sym_set_changed s (upd s (\<lambda>y. y\<lparr>s_dir_dep := (s_dir_dep y)\<lparr>ev_tri := tri\<rparr>\<rparr>) st) else st)"

definition set_rev_dep :: "sym \<Rightarrow> tristate \<Rightarrow> kstate \<Rightarrow> kstate" where
  "set_rev_dep s tri st =
     (if ev_tri (s_rev_dep (k_sym st s)) \<noteq> tri
      then sym_set_changed s (upd s (\<lambda>y. y\<lparr>s_rev_dep := (s_rev_dep y)\<lparr>ev_tri := tri\<rparr>\<rparr>) st) else st)"

definition mod_to_yes :: "bool \<Rightarrow> tristate \<Rightarrow> tristate" where
  "mod_to_yes b tri = (if tri = tri_mod \<and> b then tri_yes else tri)"

text \<open>\<open>rev_dep\<close> without an expression is n, unlike a dependency.\<close>

definition calc_rev_dep :: "calc \<Rightarrow> expr option \<Rightarrow> kstate \<Rightarrow> (tristate \<times> kstate) option" where
  "calc_rev_dep calc e st = (case e of None \<Rightarrow> Some (tri_no, st) | Some e \<Rightarrow> calc_expr calc e st)"

definition sym_calc_visibility :: "calc \<Rightarrow> sym \<Rightarrow> kstate \<Rightarrow> kstate option" where
  "sym_calc_visibility calc s st = do {
     (tri, st1) \<leftarrow> prompts_visible calc s (prop_indices s st) tri_no st;
     let st2 = set_visible s
       (mod_to_yes (s_type (k_sym st1 s) \<noteq> S_TRISTATE \<or> k_modval st1 = tri_no) tri) st1;
     if sym_is_choice_value (k_sym st2 s) then Some st2
     else do {
       (tri, st3) \<leftarrow> calc_expr_ptr calc (ev_expr (s_dir_dep (k_sym st2 s))) st2;
       let st4 = set_dir_dep s (mod_to_yes True tri) st3;
       (tri, st5) \<leftarrow> calc_rev_dep calc (ev_expr (s_rev_dep (k_sym st4 s))) st4;
       Some (set_rev_dep s (mod_to_yes (sym_get_type st5 s = S_BOOLEAN) tri) st5) } }"

section \<open>Choices\<close>

fun first_visible_symbol :: "sym list \<Rightarrow> kstate \<Rightarrow> sym option" where
  "first_visible_symbol [] st = None"
| "first_visible_symbol (d # ds) st =
     (if s_visible (k_sym st d) \<noteq> tri_no then Some d else first_visible_symbol ds st)"

text \<open>
  \<open>sym_choice_default\<close>: the defaults with a visible condition, then the first visible value.
\<close>

fun choice_defaults :: "calc \<Rightarrow> sym \<Rightarrow> nat list \<Rightarrow> kstate \<Rightarrow> (sym option \<times> kstate) option" where
  "choice_defaults calc s [] st = Some (None, st)"
| "choice_defaults calc s (i # is) st =
     (let p = s_prop (k_sym st s) ! i in
      if p_type p \<noteq> P_DEFAULT then choice_defaults calc s is st
      else do {
        (v, st1) \<leftarrow> calc_expr_ptr calc (ev_expr (p_visible p)) st;
        let st2 = set_prop_visible s i v st1;
        if v = tri_no then choice_defaults calc s is st2
        else (case prop_get_symbol p of
                Some d \<Rightarrow> if s_visible (k_sym st2 d) \<noteq> tri_no then Some (Some d, st2)
                          else choice_defaults calc s is st2
              | None \<Rightarrow> choice_defaults calc s is (undefined_use st2)) })"

definition sym_choice_default :: "calc \<Rightarrow> sym \<Rightarrow> kstate \<Rightarrow> (sym option \<times> kstate) option" where
  "sym_choice_default calc s st = do {
     (d, st1) \<leftarrow> choice_defaults calc s (prop_indices s st) st;
     case d of
       Some d \<Rightarrow> Some (Some d, st1)
     | None \<Rightarrow> Some (first_visible_symbol (choice_list (k_sym st1 s)) st1, st1) }"

text \<open>The first loop of \<open>sym_calc_choice\<close>, with the flags that all visible values share.\<close>

fun choice_visibilities :: "calc \<Rightarrow> sym list \<Rightarrow> u32 \<Rightarrow> kstate \<Rightarrow> (u32 \<times> kstate) option" where
  "choice_visibilities calc [] flags st = Some (flags, st)"
| "choice_visibilities calc (d # ds) flags st = do {
     st1 \<leftarrow> sym_calc_visibility calc d st;
     choice_visibilities calc ds
       (if s_visible (k_sym st1 d) \<noteq> tri_no then flags AND s_flags (k_sym st1 d) else flags) st1 }"

definition user_choice :: "symbol \<Rightarrow> sym option" where
  "user_choice y = (case sv_val (s_def_user y) of VSym d \<Rightarrow> Some d | _ \<Rightarrow> None)"

definition choice_fallback :: "calc \<Rightarrow> sym \<Rightarrow> kstate \<Rightarrow> (sym option \<times> kstate) option" where
  "choice_fallback calc s st = do {
     (d, st1) \<leftarrow> sym_choice_default calc s st;
     case d of
       None \<Rightarrow> Some (None, upd s (\<lambda>y. y\<lparr>s_curr := (s_curr y)\<lparr>sv_tri := tri_no\<rparr>\<rparr>) st1)
     | Some d \<Rightarrow> Some (Some d, st1) }"

definition sym_calc_choice :: "calc \<Rightarrow> sym \<Rightarrow> kstate \<Rightarrow> (sym option \<times> kstate) option" where
  "sym_calc_choice calc s st = do {
     (flags, st1) \<leftarrow> choice_visibilities calc (choice_list (k_sym st s)) (s_flags (k_sym st s)) st;
     let st2 = upd s (\<lambda>y. y\<lparr>s_flags := s_flags y AND (flags OR NOT SYMBOL_DEF_USER)\<rparr>) st1;
     case user_choice (k_sym st2 s) of
       Some d \<Rightarrow> if s_visible (k_sym st2 d) \<noteq> tri_no then Some (Some d, st2) else choice_fallback calc s st2
     | None \<Rightarrow> choice_fallback calc s st2 }"

text \<open>\<open>set_all_choice_values\<close> of confdata.c.\<close>

fun unset_values_to_no :: "sym list \<Rightarrow> kstate \<Rightarrow> kstate" where
  "unset_values_to_no [] st = st"
| "unset_values_to_no (d # ds) st =
     unset_values_to_no ds
       (if \<not> sym_has_value (k_sym st d)
        then upd d (\<lambda>y. y\<lparr>s_def_user := (s_def_user y)\<lparr>sv_tri := tri_no\<rparr>\<rparr>) st else st)"

definition set_all_choice_values :: "sym \<Rightarrow> kstate \<Rightarrow> kstate" where
  "set_all_choice_values s st =
     upd s (clear_flags (SYMBOL_VALID OR SYMBOL_NEED_SET_CHOICE_VALUES) \<circ> set_flags SYMBOL_DEF_USER)
       (unset_values_to_no (choice_list (k_sym st s)) st)"

text \<open>The loop over the values of a choice at the end of \<open>sym_calc_value\<close>.\<close>

fun propagate_to_values :: "sym \<Rightarrow> sym list \<Rightarrow> kstate \<Rightarrow> kstate" where
  "propagate_to_values s [] st = st"
| "propagate_to_values s (d # ds) st =
     (let st1 = (if has_flag (k_sym st s) SYMBOL_WRITE \<and> s_visible (k_sym st d) \<noteq> tri_no
                 then upd d (set_flags SYMBOL_WRITE) st else st);
          st2 = (if has_flag (k_sym st1 s) SYMBOL_CHANGED then sym_set_changed d st1 else st1)
      in propagate_to_values s ds st2)"

section \<open>sym_calc_value\<close>

text \<open>
  \<open>EXPR_AND(expr_calc_value(prop->expr), prop->visible.tri)\<close>: the macro evaluates its first
  argument a second time when it is the smaller one.
\<close>

definition calc_default_value :: "calc \<Rightarrow> sym \<Rightarrow> nat \<Rightarrow> kstate \<Rightarrow> (tristate \<times> kstate) option" where
  "calc_default_value calc s i st = do {
     (v, st1) \<leftarrow> calc_prop_expr calc (s_prop (k_sym st s) ! i) st;
     let vis = ev_tri (p_visible (s_prop (k_sym st1 s) ! i));
     if v < vis then calc_prop_expr calc (s_prop (k_sym st1 s) ! i) st1 else Some (vis, st1) }"

text \<open>The part before \<open>calc_newval\<close>.\<close>

definition calc_own_value :: "calc \<Rightarrow> sym \<Rightarrow> tristate \<Rightarrow> kstate \<Rightarrow> (tristate \<times> kstate) option" where
  "calc_own_value calc s tri st =
     (let y = k_sym st s;
          st1 = (if s_visible y \<noteq> tri_no then upd s (set_flags SYMBOL_WRITE) st else st) in
      if s_visible y \<noteq> tri_no \<and> sym_has_value y
      then Some (EXPR_AND (sv_tri (s_def_user y)) (s_visible y), st1)
      else do {
        let st2 = (if ev_tri (s_rev_dep y) \<noteq> tri_no then upd s (set_flags SYMBOL_WRITE) st1 else st1);
        if sym_is_choice (k_sym st2 s) then Some (tri, st2)
        else do {
          (prop, st3) \<leftarrow> sym_get_default_prop calc s st2;
          case prop of
            None \<Rightarrow> Some (tri, st3)
          | Some i \<Rightarrow> calc_default_value calc s i (upd s (set_flags SYMBOL_WRITE) st3) } })"

definition warn_unmet :: "sym \<Rightarrow> kstate \<Rightarrow> kstate" where
  "warn_unmet s st =
     (if ev_tri (s_dir_dep (k_sym st s)) = tri_no \<and> ev_tri (s_rev_dep (k_sym st s)) \<noteq> tri_no
      then st\<lparr>k_unmet := s # k_unmet st\<rparr> else st)"

definition choice_value_of :: "sym \<Rightarrow> kstate \<Rightarrow> tristate \<times> kstate" where
  "choice_value_of s st =
     (case choice_of (k_sym st s) of
        None \<Rightarrow> (tri_no, undefined_use st)
      | Some c \<Rightarrow> (if sv_val (s_curr (k_sym st c)) = VSym s then tri_yes else tri_no, st))"

definition calc_tristate :: "calc \<Rightarrow> sym \<Rightarrow> tristate \<Rightarrow> kstate \<Rightarrow> (tristate \<times> kstate) option" where
  "calc_tristate calc s tri st = do {
     (v, st1) \<leftarrow>
       (if sym_is_choice_value (k_sym st s) \<and> s_visible (k_sym st s) = tri_yes
        then Some (choice_value_of s st)
        else do {
          (v, st1) \<leftarrow> calc_own_value calc s tri st;
          let st2 = warn_unmet s st1;
          Some (EXPR_OR v (ev_tri (s_rev_dep (k_sym st2 s))), st2) });
     Some (mod_to_yes (sym_get_type st1 s = S_BOOLEAN) v, st1) }"

definition calc_string :: "calc \<Rightarrow> sym \<Rightarrow> val \<Rightarrow> kstate \<Rightarrow> (val \<times> kstate) option" where
  "calc_string calc s v st =
     (let y = k_sym st s;
          st1 = (if s_visible y \<noteq> tri_no then upd s (set_flags SYMBOL_WRITE) st else st) in
      if s_visible y \<noteq> tri_no \<and> sym_has_value y then Some (sv_val (s_def_user y), st1)
      else do {
        (prop, st2) \<leftarrow> sym_get_default_prop calc s st1;
        case prop of
          None \<Rightarrow> Some (v, st2)
        | Some i \<Rightarrow>
            (case prop_get_symbol (s_prop (k_sym st2 s) ! i) of
               None \<Rightarrow> Some (v, st2)
             | Some ds \<Rightarrow> do {
                 st3 \<leftarrow> calc ds (upd s (set_flags SYMBOL_WRITE) st2);
                 Some (sv_val (s_curr (k_sym st3 ds)), st3) }) })"

text \<open>The choice of a choice value is calculated first when its values have to be set.\<close>

definition calc_needed_choice :: "calc \<Rightarrow> sym \<Rightarrow> kstate \<Rightarrow> kstate option" where
  "calc_needed_choice calc s st =
     (if sym_is_choice_value (k_sym st s) \<and> has_flag (k_sym st s) SYMBOL_NEED_SET_CHOICE_VALUES
      then (let st1 = upd s (clear_flags SYMBOL_NEED_SET_CHOICE_VALUES) st in
            case sym_get_choice_prop (k_sym st1 s) of
              None \<Rightarrow> Some (undefined_use st1)
            | Some p \<Rightarrow> (case prop_get_symbol p of None \<Rightarrow> Some st1 | Some c \<Rightarrow> calc c st1))
      else Some st)"

definition calc_new_value :: "calc \<Rightarrow> sym \<Rightarrow> symbol_value \<Rightarrow> kstate \<Rightarrow> (symbol_value \<times> kstate) option" where
  "calc_new_value calc s newval st =
     (let t = sym_get_type st s in
      if t = S_BOOLEAN \<or> t = S_TRISTATE then do {
        (tri, st1) \<leftarrow> calc_tristate calc s (sv_tri newval) st;
        Some (newval\<lparr>sv_tri := tri\<rparr>, st1) }
      else do {
        (v, st1) \<leftarrow> calc_string calc s (sv_val newval) st;
        Some (newval\<lparr>sv_val := v\<rparr>, st1) })"

definition choose_value :: "calc \<Rightarrow> sym \<Rightarrow> tristate \<Rightarrow> kstate \<Rightarrow> kstate option" where
  "choose_value calc s tri st =
     (if sym_is_choice (k_sym st s) \<and> tri = tri_yes then do {
        (d, st1) \<leftarrow> sym_calc_choice calc s st;
        Some (set_curr_val s (case d of None \<Rightarrow> VNull | Some d \<Rightarrow> VSym d) st1) }
      else Some st)"

definition note_change :: "sym \<Rightarrow> symbol_value \<Rightarrow> kstate \<Rightarrow> kstate" where
  "note_change s oldval st =
     (if s_curr (k_sym st s) \<noteq> oldval then
        (let st1 = sym_set_changed s st in
         if k_modules st1 = s
         then (let st2 = sym_set_all_changed st1 in st2\<lparr>k_modval := sv_tri (s_curr (k_sym st2 (k_modules st2)))\<rparr>)
         else st1)
      else st)"

text \<open>What follows the comparison of the old and the new value.\<close>

definition finish_value :: "sym \<Rightarrow> kstate \<Rightarrow> kstate" where
  "finish_value s st =
     (let st1 = (if sym_is_choice (k_sym st s)
                 then propagate_to_values s (choice_list (k_sym st s)) st else st);
          st2 = (if has_flag (k_sym st1 s) SYMBOL_AUTO then upd s (clear_flags SYMBOL_WRITE) st1 else st1)
      in if has_flag (k_sym st2 s) SYMBOL_NEED_SET_CHOICE_VALUES then set_all_choice_values s st2 else st2)"

text \<open>From the calculation of the visibility to the validation of the range.\<close>

definition calc_value_body :: "calc \<Rightarrow> sym \<Rightarrow> symbol_value \<Rightarrow> kstate \<Rightarrow> kstate option" where
  "calc_value_body calc s newval st = do {
     st4 \<leftarrow> sym_calc_visibility calc s st;
     (newval, st5) \<leftarrow> calc_new_value calc s newval (set_curr s newval st4);
     st6 \<leftarrow> choose_value calc s (sv_tri newval) (set_curr s newval st5);
     sym_validate_range calc s st6 }"

definition calc_value_step :: "calc \<Rightarrow> sym \<Rightarrow> kstate \<Rightarrow> kstate option" where
  "calc_value_step calc s st =
     (if has_flag (k_sym st s) SYMBOL_VALID then Some st
      else do {
        st1 \<leftarrow> calc_needed_choice calc s st;
        let st2 = upd s (set_flags SYMBOL_VALID) st1;
        let oldval = s_curr (k_sym st2 s);
        let t = s_type (k_sym st2 s);
        if t \<noteq> S_INT \<and> t \<noteq> S_HEX \<and> t \<noteq> S_STRING \<and> t \<noteq> S_BOOLEAN \<and> t \<noteq> S_TRISTATE
        then Some (set_curr s \<lparr>sv_val = (case s_name (k_sym st2 s) of None \<Rightarrow> VNull | Some n \<Rightarrow> VName s n),
                              sv_tri = tri_no\<rparr> st2)
        else do {
          let newval = s_curr (k_sym st2 (if t = S_BOOLEAN \<or> t = S_TRISTATE then symbol_no else symbol_empty));
          let st3 = (if \<not> sym_is_choice_value (k_sym st2 s) then upd s (clear_flags SYMBOL_WRITE) st2 else st2);
          st7 \<leftarrow> calc_value_body calc s newval st3;
          Some (finish_value s (note_change s oldval st7)) } })"

text \<open>The bound is on the depth of nested calculations.\<close>

fun sym_calc_value :: "nat \<Rightarrow> calc" where
  "sym_calc_value 0 s st = None"
| "sym_calc_value (Suc n) s st = calc_value_step (sym_calc_value n) s st"

definition sym_clear_all_valid :: "nat \<Rightarrow> kstate \<Rightarrow> kstate option" where
  "sym_clear_all_valid n st =
     (let st1 = fold (\<lambda>s. upd s (clear_flags SYMBOL_VALID)) (for_all_symbols st) st
      in sym_calc_value n (k_modules st1) (sym_add_change_count 1 st1))"

end
