(* ===== verification/Kc_Calc_Inv.thy ===== *)
theory Kc_Calc_Inv
  imports Kc_Calc
begin

text \<open>
  What the calculation of values keeps. \<open>calc_invariant\<close> is the contract between
  \<open>sym_calc_value\<close> and the functions that it calls and that call it: a predicate on the state
  that the recursive call keeps and that only depends on the types, values and marks of the
  symbols is kept by each of them, and each of them returns. The interpretation at the end of
  the theory is on \<open>sym_calc_value\<close> itself.
\<close>

section \<open>Returning in a state\<close>

definition ends :: "(kstate \<Rightarrow> bool) \<Rightarrow> kstate option \<Rightarrow> bool" where
  "ends P m \<longleftrightarrow> (\<exists>st. m = Some st \<and> P st)"

definition returns :: "(kstate \<Rightarrow> bool) \<Rightarrow> ('a \<times> kstate) option \<Rightarrow> bool" where
  "returns P m \<longleftrightarrow> (\<exists>a st. m = Some (a, st) \<and> P st)"

named_theorems keeps \<open>rules that propagate an invariant through a calculation\<close>

lemma ends_Some [simp]: "ends P (Some st) \<longleftrightarrow> P st" by (simp add: ends_def)

lemma returns_Some [simp]: "returns P (Some (a, st)) \<longleftrightarrow> P st" by (simp add: returns_def)

lemma returns_pair: "P (snd p) \<Longrightarrow> returns P (Some p)" by (cases p) simp

lemma bind_keeps [keeps]:
  "ends P m \<Longrightarrow> (\<And>st. P st \<Longrightarrow> ends Q (f st)) \<Longrightarrow> ends Q (Option.bind m f)"
  "ends P m \<Longrightarrow> (\<And>st. P st \<Longrightarrow> returns Q (g st)) \<Longrightarrow> returns Q (Option.bind m g)"
  by (auto simp: ends_def returns_def)

lemma bind_pair_keeps [keeps]:
  "returns P m' \<Longrightarrow> (\<And>a st. P st \<Longrightarrow> ends Q (f' a st)) \<Longrightarrow> ends Q (Option.bind m' (\<lambda>(a, st). f' a st))"
  "returns P m' \<Longrightarrow> (\<And>a st. P st \<Longrightarrow> returns Q (g' a st)) \<Longrightarrow> returns Q (Option.bind m' (\<lambda>(a, st). g' a st))"
  by (auto simp: ends_def returns_def split: prod.splits)

section \<open>The core of the state\<close>

definition same_core :: "kstate \<Rightarrow> kstate \<Rightarrow> bool" where
  "same_core st st' \<longleftrightarrow> k_modules st' = k_modules st \<and> k_hash st' = k_hash st \<and>
     (\<forall>s. s_type (k_sym st' s) = s_type (k_sym st s) \<and> s_curr (k_sym st' s) = s_curr (k_sym st s) \<and>
          has_flag (k_sym st' s) SYMBOL_VALID = has_flag (k_sym st s) SYMBOL_VALID \<and>
          has_flag (k_sym st' s) SYMBOL_NEED_SET_CHOICE_VALUES =
            has_flag (k_sym st s) SYMBOL_NEED_SET_CHOICE_VALUES)"

lemma same_core_refl: "same_core st st" by (simp add: same_core_def)

lemma same_core_trans: "same_core a b \<Longrightarrow> same_core b c \<Longrightarrow> same_core a c"
  by (simp add: same_core_def)

lemma same_core_upd:
  assumes "\<And>y. s_type (f y) = s_type y" "\<And>y. s_curr (f y) = s_curr y"
    and "\<And>y. has_flag (f y) SYMBOL_VALID = has_flag y SYMBOL_VALID"
    and "\<And>y. has_flag (f y) SYMBOL_NEED_SET_CHOICE_VALUES = has_flag y SYMBOL_NEED_SET_CHOICE_VALUES"
  shows "same_core st (upd s f st)"
  using assms by (simp add: same_core_def k_sym_upd)

lemma core_set_prop_visible [keeps]: "same_core st (set_prop_visible s i t st)"
  unfolding set_prop_visible_def by (rule same_core_upd) (simp_all add: has_flag_def)

lemma valid_distinct [simp]:
  "SYMBOL_VALID AND SYMBOL_CHANGED = 0" "SYMBOL_NEED_SET_CHOICE_VALUES AND SYMBOL_CHANGED = 0"
  "SYMBOL_VALID AND SYMBOL_WRITE = 0" "SYMBOL_NEED_SET_CHOICE_VALUES AND SYMBOL_WRITE = 0"
  "SYMBOL_VALID AND SYMBOL_DEF_USER = 0" "SYMBOL_NEED_SET_CHOICE_VALUES AND SYMBOL_DEF_USER = 0"
  "SYMBOL_VALID AND SYMBOL_NEED_SET_CHOICE_VALUES = 0" "SYMBOL_NEED_SET_CHOICE_VALUES AND SYMBOL_VALID = 0"
  "SYMBOL_VALID \<noteq> 0" "SYMBOL_NEED_SET_CHOICE_VALUES \<noteq> 0"
  by (simp_all add: flag_defs)

lemma core_set_flags:
  assumes "SYMBOL_VALID AND f = 0" and "SYMBOL_NEED_SET_CHOICE_VALUES AND f = 0"
  shows "same_core st (upd s (set_flags f) st)" and "same_core st (upd s (clear_flags f) st)"
  by (rule same_core_upd; (simp add: flag_simps assms)?; simp add: set_flags_def clear_flags_def)+

lemma core_write [keeps]:
  "same_core st (upd s (set_flags SYMBOL_WRITE) st)" "same_core st (upd s (clear_flags SYMBOL_WRITE) st)"
  by (rule core_set_flags; simp add: flag_defs)+

lemma core_set_changed [keeps]: "same_core st (sym_set_changed s st)"
proof -
  have "same_core st (upd s (set_flags SYMBOL_CHANGED) st)"
    by (rule core_set_flags) (simp_all add: flag_defs)
  then show ?thesis by (simp add: sym_set_changed_def Let_def same_core_def)
qed

lemma core_undefined_use [keeps]: "same_core st (undefined_use st)"
  by (simp add: same_core_def undefined_use_def)

lemma core_c_string [keeps]: "same_core st (snd (c_string v st))"
  by (cases v) (simp_all add: core_undefined_use same_core_refl)

lemma core_visible_upd:
  "same_core st (upd s (\<lambda>y. y\<lparr>s_visible := t\<rparr>) st)"
  "same_core st (upd s (\<lambda>y. y\<lparr>s_dir_dep := (s_dir_dep y)\<lparr>ev_tri := t\<rparr>\<rparr>) st)"
  "same_core st (upd s (\<lambda>y. y\<lparr>s_rev_dep := (s_rev_dep y)\<lparr>ev_tri := t\<rparr>\<rparr>) st)"
  by (rule same_core_upd; simp add: has_flag_def)+

lemma core_set_visible [keeps]: "same_core st (set_visible s t st)"
  by (simp add: set_visible_def same_core_refl same_core_trans[OF core_visible_upd(1) core_set_changed])

lemma core_set_dir_dep [keeps]: "same_core st (set_dir_dep s t st)"
  by (simp add: set_dir_dep_def same_core_refl same_core_trans[OF core_visible_upd(2) core_set_changed])

lemma core_set_rev_dep [keeps]: "same_core st (set_rev_dep s t st)"
  by (simp add: set_rev_dep_def same_core_refl same_core_trans[OF core_visible_upd(3) core_set_changed])

lemma core_warn_unmet [keeps]: "same_core st (warn_unmet s st)"
  by (simp add: warn_unmet_def same_core_def)

lemma core_choice_value_of [keeps]: "same_core st (snd (choice_value_of s st))"
  by (auto simp: choice_value_of_def core_undefined_use same_core_refl split: option.splits)

lemma core_set_all_changed: "same_core st (sym_set_all_changed st)"
proof -
  have "same_core st (fold sym_set_changed l st)" for l
    by (induction l arbitrary: st) (auto intro: same_core_refl same_core_trans core_set_changed)
  then show ?thesis by (simp add: sym_set_all_changed_def)
qed

lemma core_propagate [keeps]: "same_core st (propagate_to_values s l st)"
proof (induction l arbitrary: st)
  case Nil
  then show ?case by (simp add: same_core_refl)
next
  case (Cons d l)
  show ?case
    by (simp add: Let_def)
      (auto intro!: same_core_trans[OF _ Cons] intro: same_core_trans[OF core_write(1)] core_set_changed core_write same_core_refl)
qed

lemma core_unset_values [keeps]: "same_core st (unset_values_to_no l st)"
proof (induction l arbitrary: st)
  case Nil
  then show ?case by (simp add: same_core_refl)
next
  case (Cons d l)
  have "same_core st (upd d (\<lambda>y. y\<lparr>s_def_user := (s_def_user y)\<lparr>sv_tri := tri_no\<rparr>\<rparr>) st)"
    by (rule same_core_upd) (simp_all add: has_flag_def)
  then show ?case using Cons same_core_trans by (auto simp: same_core_refl)
qed

section \<open>The contract\<close>

locale calc_invariant =
  fixes P :: "kstate \<Rightarrow> bool" and calc :: calc
  assumes calc: "P st \<Longrightarrow> ends P (calc s st)"
    and core: "P st \<Longrightarrow> same_core st st' \<Longrightarrow> P st'"
begin

lemma keep: "same_core st st' \<Longrightarrow> P st \<Longrightarrow> P st'" by (rule core)

lemma string_value: "P st \<Longrightarrow> returns P (sym_get_string_value calc s st)"
  by (auto simp: sym_get_string_value_def Let_def split: tristate.splits
      intro!: bind_keeps(2) calc returns_pair core[OF _ core_c_string])

lemma compare_strings: "P st \<Longrightarrow> returns P (compare_strings calc a b st)"
  by (auto simp: compare_strings_def intro!: bind_keeps(2) bind_pair_keeps(2) calc string_value)

lemma expr: "P st \<Longrightarrow> returns P (calc_expr calc e st)"
proof (induction e arbitrary: st)
  case (And l r)
  then show ?case by (auto intro!: bind_pair_keeps(2)[OF And.IH(1)] bind_pair_keeps(2)[OF And.IH(2)])
next
  case (Or l r)
  then show ?case by (auto intro!: bind_pair_keeps(2)[OF Or.IH(1)] bind_pair_keeps(2)[OF Or.IH(2)])
next
  case (Neg e)
  then show ?case by (auto intro!: bind_pair_keeps(2)[OF Neg.IH])
qed (auto intro!: bind_keeps(2) bind_pair_keeps(2) calc compare_strings)

lemma expr_ptr: "P st \<Longrightarrow> returns P (calc_expr_ptr calc e st)"
  by (simp add: calc_expr_ptr_def expr split: option.splits)

lemma rev_dep: "P st \<Longrightarrow> returns P (calc_rev_dep calc e st)"
  by (simp add: calc_rev_dep_def expr split: option.splits)

lemma prop_expr: "P st \<Longrightarrow> returns P (calc_prop_expr calc p st)"
  by (simp add: calc_prop_expr_def expr split: option.splits prop_expr.splits)

lemma first_visible: "P st \<Longrightarrow> returns P (first_visible calc t s l st)"
proof (induction l arbitrary: st)
  case (Cons i l)
  have "returns P (do {
          (v, st1) \<leftarrow> calc_expr_ptr calc (ev_expr (p_visible (s_prop (k_sym st s) ! i))) st;
          let st2 = set_prop_visible s i v st1;
          if v \<noteq> tri_no then Some (Some i, st2) else first_visible calc t s l st2 })"
    by (rule bind_pair_keeps(2)[OF expr_ptr[OF Cons.prems]])
      (auto simp: Let_def intro!: core[OF _ core_set_prop_visible] Cons.IH)
  with Cons show ?case by (auto simp: Let_def)
qed simp

lemma default_prop: "P st \<Longrightarrow> returns P (sym_get_default_prop calc s st)"
  by (simp add: sym_get_default_prop_def first_visible)

lemma range_prop: "P st \<Longrightarrow> returns P (sym_get_range_prop calc s st)"
  by (simp add: sym_get_range_prop_def first_visible)

lemma prompts_visible: "P st \<Longrightarrow> returns P (prompts_visible calc s l tri st)"
proof (induction l arbitrary: tri st)
  case (Cons i l)
  then show ?case
    by (auto simp: Let_def intro!: bind_pair_keeps(2)[OF expr_ptr] core[OF _ core_set_prop_visible] Cons)
qed simp

lemma range_val: "P st \<Longrightarrow> returns P (sym_get_range_val calc s base st)"
  by (auto simp: sym_get_range_val_def Let_def split_beta intro!: bind_keeps(2) calc core[OF _ core_c_string])

lemma visibility: "P st \<Longrightarrow> ends P (sym_calc_visibility calc s st)"
  unfolding sym_calc_visibility_def Let_def
  by (rule bind_pair_keeps(1)[OF prompts_visible], assumption)
    (auto intro!: bind_pair_keeps(1)[OF expr_ptr] bind_pair_keeps(1)[OF rev_dep]
      core[OF _ core_set_visible] core[OF _ core_set_dir_dep] core[OF _ core_set_rev_dep])

lemma choice_defaults: "P st \<Longrightarrow> returns P (choice_defaults calc s l st)"
proof (induction l arbitrary: st)
  case (Cons i l)
  then show ?case
    by (auto simp: Let_def split: option.splits
        intro!: bind_pair_keeps(2)[OF expr_ptr] core[OF _ core_set_prop_visible]
          core[OF _ core_undefined_use] Cons)
qed simp

lemma choice_default: "P st \<Longrightarrow> returns P (sym_choice_default calc s st)"
  unfolding sym_choice_default_def
  by (rule bind_pair_keeps(2)[OF choice_defaults], assumption) (auto split: option.splits)

lemma choice_visibilities: "P st \<Longrightarrow> returns P (choice_visibilities calc l flags st)"
  by (induction l arbitrary: flags st) (auto intro!: bind_keeps(2)[OF visibility])

lemma default_value: "P st \<Longrightarrow> returns P (calc_default_value calc s i st)"
  unfolding calc_default_value_def Let_def
  by (rule bind_pair_keeps(2)[OF prop_expr], assumption) (auto intro: prop_expr)

lemma own_value: "P st \<Longrightarrow> returns P (calc_own_value calc s tri st)"
  unfolding calc_own_value_def Let_def
  by (auto split: option.splits intro!: bind_pair_keeps(2)[OF default_prop] default_value core[OF _ core_write(1)])

lemma tristate: "P st \<Longrightarrow> returns P (calc_tristate calc s tri st)"
  unfolding calc_tristate_def Let_def
  by (rule bind_pair_keeps(2)[where P = P])
    (auto intro!: bind_pair_keeps(2)[OF own_value] returns_pair core[OF _ core_warn_unmet]
      core[OF _ core_choice_value_of])

lemma string: "P st \<Longrightarrow> returns P (calc_string calc s v st)"
  unfolding calc_string_def Let_def
  by (auto split: option.splits intro!: bind_pair_keeps(2)[OF default_prop] bind_keeps(2) calc core[OF _ core_write(1)])

lemma new_value: "P st \<Longrightarrow> returns P (calc_new_value calc s v st)"
  by (auto simp: calc_new_value_def Let_def intro!: bind_pair_keeps(2) tristate string)

end

section \<open>Storing values\<close>

lemma core_fresh: "same_core st (st\<lparr>k_fresh := n\<rparr>)" "same_core st (st\<lparr>k_modval := t\<rparr>)"
  by (simp_all add: same_core_def)

lemma core_def_user:
  "same_core st (upd s (\<lambda>y. y\<lparr>s_flags := s_flags y AND (f OR NOT SYMBOL_DEF_USER)\<rparr>) st)"
proof -
  have b: "(y AND (f OR NOT SYMBOL_DEF_USER)) AND g = y AND g" if "g AND SYMBOL_DEF_USER = 0" for y g :: u32
  proof (rule bit_word_eqI)
    fix n
    assume n: "n < LENGTH(32)"
    have "\<not> (bit g n \<and> bit SYMBOL_DEF_USER n)"
      using that by (metis bit_0_eq bit_and_iff bot_apply bot_bool_def)
    with n show "bit ((y AND (f OR NOT SYMBOL_DEF_USER)) AND g) n = bit (y AND g) n"
      by (auto simp: bit_simps)
  qed
  show ?thesis by (rule same_core_upd) (simp_all add: has_flag_def b)
qed

lemma set_curr_val_eq: "set_curr_val s v st = set_curr s ((s_curr (k_sym st s))\<lparr>sv_val := v\<rparr>) st"
  by (simp add: set_curr_val_def set_curr_def upd_def)

text \<open>
  The extension of the contract for the calculation of one symbol \<open>s\<close>: the value of \<open>s\<close> may
  be replaced, but never by m when its type is bool.
\<close>

definition typed_value :: "symbol \<Rightarrow> symbol_value \<Rightarrow> bool" where
  "typed_value y v \<longleftrightarrow> (s_type y = S_BOOLEAN \<longrightarrow> sv_tri v \<noteq> tri_mod)"

locale calc_of = calc_invariant +
  fixes s :: sym
  assumes typed: "P st \<Longrightarrow> typed_value (k_sym st s) (s_curr (k_sym st s))"
    and store: "P st \<Longrightarrow> typed_value (k_sym st s) v \<Longrightarrow> P (set_curr s v st)"
begin

lemma store_val: "P st \<Longrightarrow> P (set_curr_val s v st)"
  using typed[of st] by (simp add: set_curr_val_eq store typed_value_def)

lemma store_no: "P st \<Longrightarrow> P (upd s (\<lambda>y. y\<lparr>s_curr := (s_curr y)\<lparr>sv_tri := tri_no\<rparr>\<rparr>) st)"
proof -
  assume "P st"
  moreover have "upd s (\<lambda>y. y\<lparr>s_curr := (s_curr y)\<lparr>sv_tri := tri_no\<rparr>\<rparr>) st =
      set_curr s ((s_curr (k_sym st s))\<lparr>sv_tri := tri_no\<rparr>) st"
    by (simp add: set_curr_def upd_def)
  ultimately show ?thesis by (simp add: store typed_value_def)
qed

lemma store_bound: "P st \<Longrightarrow> P (store_bound s b st)"
  unfolding store_bound_def by (rule core[OF store_val core_fresh(1)])

lemma fallback: "P st \<Longrightarrow> returns P (choice_fallback calc s st)"
  unfolding choice_fallback_def
  by (rule bind_pair_keeps(2)[OF choice_default], assumption) (auto split: option.splits intro: store_no)

lemma calc_choice: "P st \<Longrightarrow> returns P (sym_calc_choice calc s st)"
  unfolding sym_calc_choice_def Let_def
  by (rule bind_pair_keeps(2)[OF choice_visibilities], assumption)
    (auto split: option.splits intro!: fallback core[OF _ core_def_user])

lemma choose_value: "P st \<Longrightarrow> ends P (choose_value calc s t st)"
  by (auto simp: choose_value_def intro!: bind_pair_keeps(1)[OF calc_choice] store_val)

lemma bounds: "P st \<Longrightarrow> ends P (enforce_bounds calc s base val lo hi st)"
  unfolding enforce_bounds_def
  by (rule bind_pair_keeps(1)[OF range_val], assumption)
    (auto intro!: store_bound bind_pair_keeps(1)[OF range_val])

lemma validate_range: "P st \<Longrightarrow> ends P (sym_validate_range calc s st)"
  unfolding sym_validate_range_def Let_def
  by (auto split: option.splits prop_expr.splits prod.splits
      intro!: bind_pair_keeps(1)[OF range_prop] bounds core[OF _ core_undefined_use]
      dest: core[OF _ core_c_string] simp: split_beta)

lemma note_change: "P st \<Longrightarrow> P (note_change s v st)"
  by (auto simp: note_change_def Let_def
      intro!: core[OF _ core_set_changed] core[OF _ core_set_all_changed] core[OF _ core_fresh(2)])

end

end
