(* ===== verification/Kc_Calc_Total.thy ===== *)
theory Kc_Calc_Total
  imports Kc_Calc_Inv
begin

text \<open>
  \<open>sym_calc_value\<close> returns whatever the dependencies between the symbols are, cyclic ones
  included, and the values that it leaves are well typed: the invariant, its preservation and
  the properties that follow.
\<close>

section \<open>The invariant\<close>

definition open_syms :: "kstate \<Rightarrow> sym set" where
  "open_syms st = {s. \<not> has_flag (k_sym st s) SYMBOL_VALID}"

definition need_syms :: "kstate \<Rightarrow> sym set" where
  "need_syms st = {s. has_flag (k_sym st s) SYMBOL_NEED_SET_CHOICE_VALUES}"

text \<open>
  The work that is left: a symbol is calculated once, and once more when the values of its
  choice have to be set.
\<close>

definition pending :: "kstate \<Rightarrow> nat" where
  "pending st = card (open_syms st) + 2 * card (need_syms st)"

text \<open>
  The types \<open>ty\<close>, \<open>modules_sym\<close> and the symbol table stay, no symbol of type bool is m, the symbols of \<open>V\<close> are
  valid, those of \<open>C\<close> have the values \<open>c\<close>, only those of \<open>N\<close> need their choice values to be
  set, and at most \<open>m\<close> calculations are pending.
\<close>

record calc_frame =
  f_type :: "sym \<Rightarrow> symbol_type"
  f_modules :: sym
  f_hash :: "nat \<Rightarrow> sym list"
  f_const :: "sym set"
  f_value :: "sym \<Rightarrow> symbol_value"
  f_need :: "sym set"

definition frame_ok :: "calc_frame \<Rightarrow> bool" where
  "frame_ok F \<longleftrightarrow> symbol_no \<in> f_const F \<and> sv_tri (f_value F symbol_no) \<noteq> tri_mod \<and> finite (f_need F)"

definition bool_values :: "kstate \<Rightarrow> bool" where
  "bool_values st \<longleftrightarrow> (\<forall>s. typed_value (k_sym st s) (s_curr (k_sym st s)))"

definition calc_ok :: "calc_frame \<Rightarrow> sym set \<Rightarrow> nat \<Rightarrow> kstate \<Rightarrow> bool" where
  "calc_ok F V m st \<longleftrightarrow>
     frame_ok F \<and> f_const F \<subseteq> V \<and>
     (\<forall>s. s_type (k_sym st s) = f_type F s) \<and> k_modules st = f_modules F \<and> k_hash st = f_hash F \<and> bool_values st \<and>
     (\<forall>s\<in>V. has_flag (k_sym st s) SYMBOL_VALID) \<and> (\<forall>s\<in>f_const F. s_curr (k_sym st s) = f_value F s) \<and>
     need_syms st \<subseteq> f_need F \<and> finite (open_syms st) \<and> pending st \<le> m"

lemma calc_ok_core: "calc_ok F V m st \<Longrightarrow> same_core st st' \<Longrightarrow> calc_ok F V m st'"
  by (simp add: calc_ok_def same_core_def open_syms_def need_syms_def pending_def bool_values_def typed_value_def)

lemma calc_ok_mono: "calc_ok F V m st \<Longrightarrow> m \<le> k \<Longrightarrow> W \<subseteq> V \<Longrightarrow> f_const F \<subseteq> W \<Longrightarrow> calc_ok F W k st"
  by (auto simp: calc_ok_def)

lemma calc_ok_store:
  assumes "calc_ok F V m st" and "s \<notin> f_const F" and "typed_value (k_sym st s) v"
  shows "calc_ok F V m (set_curr s v st)"
proof -
  have f: "has_flag (k_sym (set_curr s v st) a) x = has_flag (k_sym st a) x" for a x
    by (simp add: set_curr_def k_sym_upd has_flag_def)
  have t: "s_type (k_sym (set_curr s v st) a) = s_type (k_sym st a)" for a
    by (simp add: set_curr_def k_sym_upd)
  have v: "s_curr (k_sym (set_curr s v st) a) = (if a = s then v else s_curr (k_sym st a))" for a
    by (simp add: set_curr_def k_sym_upd)
  have b: "bool_values (set_curr s v st)"
    using assms unfolding bool_values_def typed_value_def t v by (auto simp: calc_ok_def bool_values_def typed_value_def)
  have m: "k_modules (set_curr s v st) = k_modules st" "k_hash (set_curr s v st) = k_hash st" by (simp_all add: set_curr_def)
  from assms b show ?thesis
    unfolding calc_ok_def open_syms_def need_syms_def pending_def f t m by (auto simp: v)
qed

section \<open>The marks\<close>

lemma finite_need: "calc_ok F V m st \<Longrightarrow> finite (need_syms st)"
  by (auto simp: calc_ok_def frame_ok_def intro: finite_subset)

lemma calc_ok_set_valid:
  assumes "calc_ok F V m st" and "open_syms st \<subseteq> S" and "finite S" and "s \<in> S"
    and "card S + 2 * card (need_syms st) \<le> Suc k"
  shows "calc_ok F (insert s V) k (upd s (set_flags SYMBOL_VALID) st)"
proof -
  let ?st = "upd s (set_flags SYMBOL_VALID) st"
  have o: "open_syms ?st = open_syms st - {s}"
    by (auto simp: open_syms_def k_sym_upd flag_simps)
  have n: "need_syms ?st = need_syms st"
    by (auto simp: need_syms_def k_sym_upd flag_simps)
  have "card (open_syms st - {s}) \<le> card (S - {s})"
    by (rule card_mono) (use assms in auto)
  also have "\<dots> = card S - 1" using assms by simp
  finally have c: "card (open_syms st - {s}) \<le> card S - 1" .
  have "card S \<ge> 1" using assms(3,4) by (metis One_nat_def Suc_leI card_gt_0_iff empty_iff)
  with c assms(5) have p: "pending ?st \<le> k" by (simp add: pending_def o n)
  have "typed_value (k_sym ?st a) (s_curr (k_sym ?st a)) = typed_value (k_sym st a) (s_curr (k_sym st a))" for a
    by (simp add: typed_value_def k_sym_upd set_flags_def)
  with assms(1) p show ?thesis
    by (auto simp: calc_ok_def o n bool_values_def k_sym_upd flag_simps) (simp_all add: set_flags_def)
qed

lemma calc_ok_clear_need:
  assumes "calc_ok F V m st" and "s \<in> need_syms st"
  shows "calc_ok F V (m - 2) (upd s (clear_flags SYMBOL_NEED_SET_CHOICE_VALUES) st)" and "2 \<le> m"
proof -
  let ?st = "upd s (clear_flags SYMBOL_NEED_SET_CHOICE_VALUES) st"
  have o: "open_syms ?st = open_syms st" by (auto simp: open_syms_def k_sym_upd flag_simps)
  have n: "need_syms ?st = need_syms st - {s}" by (auto simp: need_syms_def k_sym_upd flag_simps)
  note fin = finite_need[OF assms(1)]
  have c: "card (need_syms st) \<ge> 1" using fin assms(2) by (metis One_nat_def Suc_leI card_gt_0_iff empty_iff)
  then have p: "pending ?st = pending st - 2" using fin assms(2) by (simp add: pending_def o n)
  have "typed_value (k_sym ?st a) (s_curr (k_sym ?st a)) = typed_value (k_sym st a) (s_curr (k_sym st a))" for a
    by (simp add: typed_value_def k_sym_upd clear_flags_def)
  with assms(1) p show "calc_ok F V (m - 2) ?st"
    by (auto simp: calc_ok_def o n bool_values_def k_sym_upd flag_simps) (simp_all add: clear_flags_def)
  show "2 \<le> m" using c assms(1) by (simp add: calc_ok_def pending_def)
qed

text \<open>\<open>set_all_choice_values\<close> makes one symbol invalid but takes its need away.\<close>

lemma flags_set_all [simp]:
  "s_type (k_sym (set_all_choice_values s st) a) = s_type (k_sym (unset_values_to_no (choice_list (k_sym st s)) st) a)"
  "s_curr (k_sym (set_all_choice_values s st) a) = s_curr (k_sym (unset_values_to_no (choice_list (k_sym st s)) st) a)"
  "k_modules (set_all_choice_values s st) = k_modules (unset_values_to_no (choice_list (k_sym st s)) st)"
  "k_hash (set_all_choice_values s st) = k_hash (unset_values_to_no (choice_list (k_sym st s)) st)"
  by (simp_all add: set_all_choice_values_def k_sym_upd clear_flags_def set_flags_def)

lemma calc_ok_set_all:
  assumes ok: "calc_ok F (insert s V) m st" and "s \<notin> V" and "f_const F \<subseteq> V" and need: "s \<in> need_syms st"
  shows "calc_ok F V (m - 1) (set_all_choice_values s st)"
proof -
  define st1 where "st1 = unset_values_to_no (choice_list (k_sym st s)) st"
  have c: "calc_ok F (insert s V) m st1"
    unfolding st1_def by (rule calc_ok_core[OF ok core_unset_values])
  have e: "set_all_choice_values s st =
      upd s (clear_flags (SYMBOL_VALID OR SYMBOL_NEED_SET_CHOICE_VALUES) \<circ> set_flags SYMBOL_DEF_USER) st1"
    by (simp add: set_all_choice_values_def st1_def)
  let ?st = "set_all_choice_values s st"
  have n1: "s \<in> need_syms st1"
    using need core_unset_values[of st "choice_list (k_sym st s)"] by (simp add: st1_def need_syms_def same_core_def)
  have v1: "s \<notin> open_syms st1" using c by (simp add: calc_ok_def open_syms_def)
  have bits: "\<not> has_flag (clear_flags (SYMBOL_VALID OR SYMBOL_NEED_SET_CHOICE_VALUES) y) SYMBOL_VALID"
    "\<not> has_flag (clear_flags (SYMBOL_VALID OR SYMBOL_NEED_SET_CHOICE_VALUES) y) SYMBOL_NEED_SET_CHOICE_VALUES" for y
    by (simp_all add: has_flag_def clear_flags_def flag_defs and.assoc)
  have o: "open_syms ?st = insert s (open_syms st1)"
    by (auto simp: e open_syms_def k_sym_upd bits)
  have n: "need_syms ?st = need_syms st1 - {s}"
    by (auto simp: e need_syms_def k_sym_upd bits)
  have fin: "finite (open_syms st1)" "finite (need_syms st1)"
    using c finite_need[OF c] by (simp_all add: calc_ok_def)
  have p: "pending ?st \<le> m - 1"
  proof -
    have "card (need_syms st1) \<ge> 1" using fin n1 by (metis One_nat_def Suc_leI card_gt_0_iff empty_iff)
    moreover have "card (need_syms st1 - {s}) = card (need_syms st1) - 1" using n1 by simp
    moreover have "card (open_syms st1) + 2 * card (need_syms st1) \<le> m"
      using c by (simp add: calc_ok_def pending_def)
    ultimately show ?thesis using fin v1 by (simp add: pending_def o n)
  qed
  have t: "typed_value (k_sym ?st a) (s_curr (k_sym ?st a)) = typed_value (k_sym st1 a) (s_curr (k_sym st1 a))" for a
    by (simp add: typed_value_def st1_def)
  have V: "has_flag (k_sym ?st a) SYMBOL_VALID" if "a \<in> V" for a
    using that c assms(2) by (auto simp: e k_sym_upd calc_ok_def)
  from c p t V assms(3) show ?thesis
    by (auto simp: calc_ok_def o n bool_values_def st1_def[symmetric])
qed

section \<open>One step\<close>

lemma tristate_typed:
  assumes "calc_tristate calc s t st = Some (v, st')" and "s_type (k_sym st' s) = S_BOOLEAN"
  shows "v \<noteq> tri_mod"
  using assms
  by (auto simp: calc_tristate_def mod_to_yes_def sym_get_type_def Let_def split: Option.bind_splits if_splits)

text \<open>The contract for the symbol \<open>s\<close>, on the invariant in which \<open>s\<close> is not constant.\<close>

lemma calc_of_calc_ok:
  assumes "\<And>st a. calc_ok F V m st \<Longrightarrow> ends (calc_ok F V m) (calc a st)" and "s \<notin> f_const F"
  shows "calc_of (calc_ok F V m) calc s"
proof
  show "calc_ok F V m st \<Longrightarrow> ends (calc_ok F V m) (calc a st)" for st a by (rule assms(1))
  show "calc_ok F V m st \<Longrightarrow> same_core st st' \<Longrightarrow> calc_ok F V m st'" for st st' by (rule calc_ok_core)
  show "calc_ok F V m st \<Longrightarrow> typed_value (k_sym st s) (s_curr (k_sym st s))" for st
    by (simp add: calc_ok_def bool_values_def)
  show "calc_ok F V m st \<Longrightarrow> typed_value (k_sym st s) v \<Longrightarrow> calc_ok F V m (set_curr s v st)" for st v
    using assms(2) by (rule calc_ok_store[rotated])
qed

lemma calc_ok_const: "calc_ok F V m st \<Longrightarrow> s_curr (k_sym st symbol_no) = f_value F symbol_no"
  "calc_ok F V m st \<Longrightarrow> sv_tri (f_value F symbol_no) \<noteq> tri_mod"
  "calc_ok F V m st \<Longrightarrow> s_type (k_sym st s) = f_type F s"
  by (auto simp: calc_ok_def frame_ok_def)

lemma new_value_typed:
  assumes c: "calc_of (calc_ok F V m) calc s" and ok: "calc_ok F V m st"
    and v: "typed_value (k_sym st s) v"
  obtains w st' where "calc_new_value calc s v st = Some (w, st')" and "calc_ok F V m st'"
    and "typed_value (k_sym st' s) w"
proof -
  have i: "calc_invariant (calc_ok F V m) calc" using c by (simp add: calc_of_def)
  obtain w st' where w: "calc_new_value calc s v st = Some (w, st')" "calc_ok F V m st'"
    using calc_invariant.new_value[OF i ok, of s v] unfolding returns_def by blast
  moreover have "typed_value (k_sym st' s) w"
    using w tristate_typed calc_ok_const(3)[OF ok] calc_ok_const(3)[OF w(2)]
    by (fastforce simp: calc_new_value_def typed_value_def sym_get_type_def Let_def
        split: Option.bind_splits if_splits)
  ultimately show thesis by (rule that)
qed

lemma body_ok:
  assumes c: "calc_of (calc_ok F V m) calc s" and ok: "calc_ok F V m st"
    and v: "typed_value (k_sym st s) v"
  shows "ends (calc_ok F V m) (calc_value_body calc s v st)"
proof -
  have i: "calc_invariant (calc_ok F V m) calc" using c by (simp add: calc_of_def)
  obtain st4 where st4: "sym_calc_visibility calc s st = Some st4" "calc_ok F V m st4"
    using calc_invariant.visibility[OF i ok] by (auto simp: ends_def)
  have t: "s_type (k_sym st4 s) = s_type (k_sym st s)"
    using ok st4 by (simp add: calc_ok_def)
  have ok4: "calc_ok F V m (set_curr s v st4)"
    by (rule calc_of.store[OF c st4(2)]) (use v t in \<open>simp add: typed_value_def\<close>)
  have v4: "typed_value (k_sym (set_curr s v st4) s) v"
    using v t by (simp add: typed_value_def set_curr_def)
  obtain w st5 where st5: "calc_new_value calc s v (set_curr s v st4) = Some (w, st5)"
    "calc_ok F V m st5" "typed_value (k_sym st5 s) w"
    by (rule new_value_typed[OF c ok4 v4])
  have "ends (calc_ok F V m) (choose_value calc s (sv_tri w) (set_curr s w st5))"
    by (rule calc_of.choose_value[OF c calc_of.store[OF c st5(2,3)]])
  then obtain st6 where st6: "choose_value calc s (sv_tri w) (set_curr s w st5) = Some st6" "calc_ok F V m st6"
    by (auto simp: ends_def)
  from calc_of.validate_range[OF c st6(2)] st4 st5 st6 show ?thesis
    by (simp add: calc_value_body_def)
qed

lemma step_body:
  assumes "\<not> has_flag (k_sym st s) SYMBOL_VALID" and "calc_needed_choice calc s st = Some st1"
    and "st2 = upd s (set_flags SYMBOL_VALID) st1" and "t = s_type (k_sym st2 s)"
    and "t = S_INT \<or> t = S_HEX \<or> t = S_STRING \<or> t = S_BOOLEAN \<or> t = S_TRISTATE"
  shows "calc_value_step calc s st = do {
      st7 \<leftarrow> calc_value_body calc s
        (s_curr (k_sym st2 (if t = S_BOOLEAN \<or> t = S_TRISTATE then symbol_no else symbol_empty)))
        (if \<not> sym_is_choice_value (k_sym st2 s) then upd s (clear_flags SYMBOL_WRITE) st2 else st2);
      Some (finish_value s (note_change s (s_curr (k_sym st2 s)) st7)) }"
  using assms by (auto simp: calc_value_step_def Let_def)

lemma finish_ok:
  assumes ok: "calc_ok F (insert s V) m st" and sV: "s \<notin> V" and C: "f_const F \<subseteq> V"
  shows "calc_ok F V (Suc m) (finish_value s st)"
    and "f_need F = {} \<Longrightarrow> calc_ok F (insert s V) m (finish_value s st)"
proof -
  define st1 where "st1 = (if sym_is_choice (k_sym st s)
                 then propagate_to_values s (choice_list (k_sym st s)) st else st)"
  define st2 where "st2 = (if has_flag (k_sym st1 s) SYMBOL_AUTO then upd s (clear_flags SYMBOL_WRITE) st1 else st1)"
  have e: "finish_value s st =
      (if has_flag (k_sym st2 s) SYMBOL_NEED_SET_CHOICE_VALUES then set_all_choice_values s st2 else st2)"
    by (simp add: finish_value_def Let_def st1_def st2_def)
  have ok1: "calc_ok F (insert s V) m st1"
    using ok by (simp add: st1_def calc_ok_core[OF _ core_propagate])
  have ok2: "calc_ok F (insert s V) m st2"
    using ok1 by (simp add: st2_def calc_ok_core[OF _ core_write(2)])
  have m1: "m - 1 \<le> Suc m" "m \<le> Suc m" by simp_all
  show "calc_ok F V (Suc m) (finish_value s st)"
  proof (cases "s \<in> need_syms st2")
    case True
    then have "finish_value s st = set_all_choice_values s st2" by (simp add: e need_syms_def)
    with calc_ok_mono[OF calc_ok_set_all[OF ok2 sV C True] m1(1) order_refl C] show ?thesis by simp
  next
    case False
    then have "finish_value s st = st2" by (simp add: e need_syms_def)
    with calc_ok_mono[OF ok2 m1(2) subset_insertI C] show ?thesis by simp
  qed
  assume "f_need F = {}"
  then have "need_syms st2 = {}" using ok2 by (simp add: calc_ok_def)
  then have "finish_value s st = st2" by (auto simp: e need_syms_def)
  with ok2 show "calc_ok F (insert s V) m (finish_value s st)" by simp
qed

lemma needed_choice_ok:
  assumes IH: "\<And>V k st a. calc_ok F V k st \<Longrightarrow> k < n \<Longrightarrow> ends (calc_ok F V k) (calc a st)"
    and ok: "calc_ok F V m st" and mn: "m < Suc n" and inv: "s \<in> open_syms st"
  obtains st1 S where "calc_needed_choice calc s st = Some st1" and "calc_ok F V m st1"
    and "open_syms st1 \<subseteq> S" and "finite S" and "s \<in> S" and "card S + 2 * card (need_syms st1) \<le> m"
proof (cases "sym_is_choice_value (k_sym st s) \<and> s \<in> need_syms st")
  case False
  then have "calc_needed_choice calc s st = Some st"
    by (auto simp: calc_needed_choice_def need_syms_def)
  then show thesis using that[of st "open_syms st"] ok inv by (simp add: calc_ok_def pending_def)
next
  case True
  let ?st = "upd s (clear_flags SYMBOL_NEED_SET_CHOICE_VALUES) st"
  have ok': "calc_ok F V (m - 2) ?st" and m: "2 \<le> m"
    using calc_ok_clear_need[OF ok] True by auto
  have "ends (calc_ok F V (m - 2)) (calc_needed_choice calc s st)"
    using True m mn IH[OF ok'] ok' calc_ok_core[OF ok' core_undefined_use]
    by (auto simp: calc_needed_choice_def need_syms_def Let_def split: option.splits)
  then obtain st1 where st1: "calc_needed_choice calc s st = Some st1" "calc_ok F V (m - 2) st1"
    by (auto simp: ends_def)
  have "finite (open_syms st1)" "card (open_syms st1) + 2 * card (need_syms st1) \<le> m - 2"
    using st1(2) by (simp_all add: calc_ok_def pending_def)
  moreover from this have "card (insert s (open_syms st1)) + 2 * card (need_syms st1) \<le> m"
    using m by (auto simp: card_insert_if)
  moreover have "calc_ok F V m st1"
    by (rule calc_ok_mono[OF st1(2) _ order_refl]) (use ok in \<open>auto simp: calc_ok_def\<close>)
  ultimately show thesis using that[of st1 "insert s (open_syms st1)"] st1(1) m by auto
qed

lemma step_ok:
  assumes IH: "\<And>V k st a. calc_ok F V k st \<Longrightarrow> k < n \<Longrightarrow> ends (calc_ok F V k) (calc a st)"
    and ok: "calc_ok F V m st" and mn: "m < Suc n"
  shows "ends (\<lambda>st'. calc_ok F V m st' \<and> (f_need F = {} \<longrightarrow> has_flag (k_sym st' s) SYMBOL_VALID))
           (calc_value_step calc s st)"
proof (cases "has_flag (k_sym st s) SYMBOL_VALID")
  case True
  then show ?thesis using ok by (simp add: calc_value_step_def)
next
  case False
  have C: "f_const F \<subseteq> V" and sV: "s \<notin> V" using ok False by (auto simp: calc_ok_def)
  have sC: "s \<notin> f_const F" using C sV by auto
  obtain st1 S where st1: "calc_needed_choice calc s st = Some st1" "calc_ok F V m st1"
    and S: "open_syms st1 \<subseteq> S" "finite S" "s \<in> S" "card S + 2 * card (need_syms st1) \<le> m"
  proof -
    have s: "s \<in> open_syms st" using False by (simp add: open_syms_def)
    show thesis
    proof (rule needed_choice_ok[OF _ ok mn s])
      show "ends (calc_ok F V k) (calc a st)" if "calc_ok F V k st" "k < n" for V k st a
        using that by (rule IH)
    qed (rule that)
  qed
  have "card S \<ge> 1" using S(2,3) by (metis One_nat_def Suc_leI card_gt_0_iff empty_iff)
  with S(4) obtain k where k: "m = Suc k" by (cases m) auto
  define st2 where "st2 = upd s (set_flags SYMBOL_VALID) st1"
  have ok2: "calc_ok F (insert s V) k st2"
    unfolding st2_def by (rule calc_ok_set_valid[OF st1(2) S(1,2,3)]) (use S(4) k in simp)
  define t where "t = s_type (k_sym st2 s)"
  have weaken: "calc_ok F V m st'" if "calc_ok F (insert s V) k st'" for st'
    by (rule calc_ok_mono[OF that]) (use k C in auto)
  show ?thesis
  proof (cases "t = S_INT \<or> t = S_HEX \<or> t = S_STRING \<or> t = S_BOOLEAN \<or> t = S_TRISTATE")
    case False
    let ?v = "\<lparr>sv_val = (case s_name (k_sym st2 s) of None \<Rightarrow> VNull | Some n \<Rightarrow> VName s n), sv_tri = tri_no\<rparr>"
    have "calc_ok F (insert s V) k (set_curr s ?v st2)"
      by (rule calc_ok_store[OF ok2 sC]) (simp add: typed_value_def)
    moreover have "calc_value_step calc s st = Some (set_curr s ?v st2)"
      using False \<open>\<not> has_flag (k_sym st s) SYMBOL_VALID\<close> st1(1)
      by (simp add: calc_value_step_def Let_def t_def st2_def)
    ultimately show ?thesis using weaken by (auto simp: calc_ok_def)
  next
    case True
    define v where "v = s_curr (k_sym st2 (if t = S_BOOLEAN \<or> t = S_TRISTATE then symbol_no else symbol_empty))"
    define st3 where "st3 = (if \<not> sym_is_choice_value (k_sym st2 s) then upd s (clear_flags SYMBOL_WRITE) st2 else st2)"
    have ok3: "calc_ok F (insert s V) k st3"
      using ok2 by (simp add: st3_def calc_ok_core[OF _ core_write(2)])
    have v: "typed_value (k_sym st3 s) v"
      using calc_ok_const[OF ok2] calc_ok_const(3)[OF ok3]
      by (auto simp: typed_value_def v_def t_def)
    have co: "calc_of (calc_ok F (insert s V) k) calc s"
      by (rule calc_of_calc_ok[OF IH sC]) (use mn k in auto)
    obtain st7 where st7: "calc_value_body calc s v st3 = Some st7" "calc_ok F (insert s V) k st7"
      using body_ok[OF co ok3 v] by (auto simp: ends_def)
    note ok8 = calc_of.note_change[OF co st7(2), of "s_curr (k_sym st2 s)"]
    have "calc_value_step calc s st = Some (finish_value s (note_change s (s_curr (k_sym st2 s)) st7))"
      using step_body[OF \<open>\<not> has_flag (k_sym st s) SYMBOL_VALID\<close> st1(1) st2_def t_def True] st7(1)
      by (simp add: v_def st3_def)
    moreover note finish_ok[OF ok8 sV C]
    ultimately show ?thesis using k by (auto simp: calc_ok_def)
  qed
qed

lemma calc_value_ok:
  "calc_ok F V m st \<Longrightarrow> m < n \<Longrightarrow>
     ends (\<lambda>st'. calc_ok F V m st' \<and> (f_need F = {} \<longrightarrow> has_flag (k_sym st' s) SYMBOL_VALID)) (sym_calc_value n s st)"
proof (induction n arbitrary: V m st s)
  case (Suc n)
  have "ends (calc_ok F V k) (sym_calc_value n a st)" if "calc_ok F V k st" "k < n" for V k st a
    using Suc.IH[OF that, of a] by (auto simp: ends_def)
  then show ?case using step_ok[of F n "sym_calc_value n", OF _ Suc.prems] by simp
qed simp

text \<open>\<open>sym_calc_value\<close> fulfils the contract that its callers rely on.\<close>

interpretation sym_calc: calc_invariant "calc_ok F V m" "sym_calc_value (Suc m)" for F V m
proof
  show "calc_ok F V m st \<Longrightarrow> ends (calc_ok F V m) (sym_calc_value (Suc m) s st)" for st s
    using calc_value_ok[of F V m st "Suc m" s] by (auto simp: ends_def)
qed (rule calc_ok_core)

interpretation sym_calc_of: calc_of "calc_ok \<lparr>f_type = ty, f_modules = md, f_hash = h, f_const = C - {s}, f_value = c, f_need = N\<rparr> V m"
  "sym_calc_value (Suc m)" s for ty md h C c N V m s
  by (rule calc_of_calc_ok[OF sym_calc.calc]) (simp only: calc_frame.simps, simp)

end
