(* ===== verification/Kc_Snapshot.thy ===== *)
theory Kc_Snapshot
  imports Kc_Calc_Total
begin

text \<open>
  What a calculation means: \<open>sym_calc_value\<close> returns and keeps every value that is already
  valid, and the evaluation of an expression, which calculates symbols as it goes, gives the
  value of the expression in the resulting state.
\<close>

section \<open>Sane states\<close>

text \<open>
  What holds of every state of the program: no bool symbol is m, \<open>symbol_no\<close> has its value,
  and finitely many symbols wait for their calculation.
\<close>

definition sane :: "kstate \<Rightarrow> bool" where
  "sane st \<longleftrightarrow> bool_values st \<and> has_flag (k_sym st symbol_no) SYMBOL_VALID \<and>
     sv_tri (s_curr (k_sym st symbol_no)) = tri_no \<and> finite (open_syms st) \<and> finite (need_syms st)"

definition valid_syms :: "kstate \<Rightarrow> sym set" where
  "valid_syms st = {s. has_flag (k_sym st s) SYMBOL_VALID}"

text \<open>\<open>st'\<close> has all that \<open>st\<close> has settled.\<close>

definition extends :: "kstate \<Rightarrow> kstate \<Rightarrow> bool" where
  "extends st st' \<longleftrightarrow> valid_syms st \<subseteq> valid_syms st' \<and>
     (\<forall>s\<in>valid_syms st. s_curr (k_sym st' s) = s_curr (k_sym st s)) \<and>
     (\<forall>s. s_type (k_sym st' s) = s_type (k_sym st s)) \<and> k_modules st' = k_modules st \<and> k_hash st' = k_hash st"

lemma extends_refl: "extends st st" by (simp add: extends_def)

lemma extends_trans: "extends a b \<Longrightarrow> extends b c \<Longrightarrow> extends a c"
  by (auto simp: extends_def)

definition frame_of :: "kstate \<Rightarrow> calc_frame" where
  "frame_of st = \<lparr>f_type = (\<lambda>s. s_type (k_sym st s)), f_modules = k_modules st, f_hash = k_hash st, f_const = valid_syms st,
                 f_value = (\<lambda>s. s_curr (k_sym st s)), f_need = need_syms st\<rparr>"

lemma sane_calc_ok: "sane st \<Longrightarrow> calc_ok (frame_of st) (valid_syms st) (pending st) st"
  by (auto simp: calc_ok_def frame_ok_def frame_of_def sane_def valid_syms_def)

lemma calc_ok_sane:
  assumes "sane st" and "calc_ok (frame_of st) (valid_syms st) m st'"
  shows "sane st' \<and> extends st st' \<and> pending st' \<le> m \<and> need_syms st' \<subseteq> need_syms st"
proof -
  have "has_flag (k_sym st symbol_no) SYMBOL_VALID" "sv_tri (s_curr (k_sym st symbol_no)) = tri_no"
    using assms(1) by (simp_all add: sane_def)
  with assms finite_need[OF assms(2)] show ?thesis
    by (auto simp: calc_ok_def frame_of_def sane_def extends_def valid_syms_def)
qed

lemma calc_extends:
  assumes "sane st" and "pending st < n"
  obtains st' where "sym_calc_value n s st = Some st'" and "sane st'" and "extends st st'"
    and "pending st' \<le> pending st" and "need_syms st' \<subseteq> need_syms st"
    and "need_syms st = {} \<Longrightarrow> s \<in> valid_syms st'"
proof -
  obtain st' where "sym_calc_value n s st = Some st'" "calc_ok (frame_of st) (valid_syms st) (pending st) st'"
    "f_need (frame_of st) = {} \<Longrightarrow> has_flag (k_sym st' s) SYMBOL_VALID"
    using calc_value_ok[OF sane_calc_ok[OF assms(1)] assms(2), of s] by (auto simp: ends_def)
  with calc_ok_sane[OF assms(1), of _ st'] show thesis
    by (intro that[of st']) (auto simp: frame_of_def valid_syms_def)
qed

text \<open>
  C1: \<open>sym_calc_value\<close> returns for every symbol and every dependency graph, cyclic ones
  included; it leaves every valid symbol valid with the value it had and every bool symbol
  different from m, and a second call changes nothing.
\<close>

theorem sym_calc_value_returns:
  assumes "sane st" and "pending st < n"
  shows "\<exists>st'. sym_calc_value n s st = Some st' \<and> sane st' \<and> extends st st' \<and> pending st' \<le> pending st \<and>
           (need_syms st = {} \<longrightarrow> sym_calc_value n s st' = Some st')"
proof -
  obtain st' where st': "sym_calc_value n s st = Some st'" "sane st'" "extends st st'" "pending st' \<le> pending st"
    "need_syms st = {} \<Longrightarrow> s \<in> valid_syms st'"
    using calc_extends[OF assms, of s thesis] by blast
  obtain k where "n = Suc k" using assms(2) by (cases n) auto
  with st' show ?thesis by (auto simp: calc_value_step_def valid_syms_def)
qed

section \<open>The values in a state\<close>

definition plain_string :: "val \<Rightarrow> string" where
  "plain_string v = (case v of VStr a s \<Rightarrow> s | VName y s \<Rightarrow> s | _ \<Rightarrow> '''')"

text \<open>The string that \<open>sym_get_string_value\<close> returns once everything it needs is valid.\<close>

definition value_string :: "kstate \<Rightarrow> sym \<Rightarrow> string" where
  "value_string st s =
     (let y = k_sym st s in
      if s_type y = S_BOOLEAN \<or> s_type y = S_TRISTATE then
        (case sv_tri (s_curr y) of
           tri_no \<Rightarrow> ''n''
         | tri_mod \<Rightarrow> if sv_tri (s_curr (k_sym st (k_modules st))) = tri_no then ''n'' else ''m''
         | tri_yes \<Rightarrow> ''y'')
      else plain_string (sv_val (s_curr y)))"

definition snapshot :: "kstate \<Rightarrow> valuation" where
  "snapshot st = \<lparr>v_tri = (\<lambda>n. sv_tri (s_curr (k_sym st (sym_at n)))), v_str = (\<lambda>n. value_string st (sym_at n))\<rparr>"

text \<open>The static symbols as symbol.c initialises them.\<close>

definition static_symbols :: "kstate \<Rightarrow> bool" where
  "static_symbols st \<longleftrightarrow>
     (\<forall>s\<in>{symbol_yes, symbol_mod, symbol_no, symbol_empty}.
        s \<in> valid_syms st \<and> s_type (k_sym st s) = S_UNKNOWN \<and>
        sv_tri (s_curr (k_sym st s)) = sym_tri (snapshot st) s \<and>
        plain_string (sv_val (s_curr (k_sym st s))) = sym_str (snapshot st) s)"

lemma static_extends: "static_symbols st \<Longrightarrow> extends st st' \<Longrightarrow> static_symbols st'"
  by (auto simp: static_symbols_def extends_def)

lemma snapshot_tri: "static_symbols st \<Longrightarrow> sym_tri (snapshot st) s = sv_tri (s_curr (k_sym st s))"
  by (cases s) (simp_all add: static_symbols_def snapshot_def)

lemma snapshot_str: "static_symbols st \<Longrightarrow> sym_str (snapshot st) s = value_string st s"
  by (cases s) (simp_all add: static_symbols_def snapshot_def value_string_def)

section \<open>The evaluation computes the value in the snapshot\<close>

lemma c_string_plain: "fst (c_string v st) = plain_string v"
  by (cases v) (simp_all add: plain_string_def)

lemma c_string_core: "sane st \<Longrightarrow> sane (snd (c_string v st)) \<and> extends st (snd (c_string v st)) \<and>
    need_syms (snd (c_string v st)) = need_syms st \<and> pending (snd (c_string v st)) = pending st"
  by (cases v) (simp_all add: extends_refl undefined_use_def sane_def extends_def bool_values_def
      open_syms_def need_syms_def pending_def valid_syms_def)

text \<open>
  \<open>settles m st Q\<close>: the calculation \<open>m\<close> returns a state that extends \<open>st\<close>, and \<open>Q\<close> relates the
  returned value to every later state.
\<close>

definition settles :: "('a \<times> kstate) option \<Rightarrow> kstate \<Rightarrow> nat \<Rightarrow> ('a \<Rightarrow> kstate \<Rightarrow> bool) \<Rightarrow> bool" where
  "settles m st n Q \<longleftrightarrow> (\<exists>a st'. m = Some (a, st') \<and> sane st' \<and> need_syms st' = {} \<and> pending st' < n \<and>
     extends st st' \<and> (\<forall>st''. extends st' st'' \<longrightarrow> Q a st''))"

lemma settles_bind:
  assumes "settles m st n Q"
    and "\<And>a st'. extends st st' \<Longrightarrow> sane st' \<Longrightarrow> need_syms st' = {} \<Longrightarrow> pending st' < n \<Longrightarrow>
           settles (f a st') st' n (\<lambda>b st''. Q a st'' \<longrightarrow> R b st'')"
  shows "settles (Option.bind m (\<lambda>(a, st). f a st)) st n R"
proof -
  from assms(1) obtain a st' where a: "m = Some (a, st')" "sane st'" "need_syms st' = {}" "pending st' < n"
    "extends st st'" "\<And>st''. extends st' st'' \<Longrightarrow> Q a st''"
    by (auto simp: settles_def)
  from assms(2)[OF a(5,2,3,4), of a] obtain b st2 where
    b: "f a st' = Some (b, st2)" "sane st2" "need_syms st2 = {}" "pending st2 < n" "extends st' st2"
      "\<And>st''. extends st2 st'' \<Longrightarrow> Q a st'' \<longrightarrow> R b st''"
    by (auto simp: settles_def)
  show ?thesis unfolding settles_def
    using a b extends_trans[OF a(5) b(5)] extends_trans[OF b(5)] by fastforce
qed

lemma settles_return:
  "sane st \<Longrightarrow> need_syms st = {} \<Longrightarrow> pending st < n \<Longrightarrow> (\<And>st''. extends st st'' \<Longrightarrow> Q a st'') \<Longrightarrow>
     settles (Some (a, st)) st n Q"
  by (auto simp: settles_def extends_refl)

lemma settles_weaken: "settles m st n Q \<Longrightarrow> (\<And>a st. Q a st \<Longrightarrow> R a st) \<Longrightarrow> settles m st n R"
  by (auto simp: settles_def)

lemma valid_extends: "s \<in> valid_syms st \<Longrightarrow> extends st st' \<Longrightarrow> s \<in> valid_syms st'"
  "s \<in> valid_syms st \<Longrightarrow> extends st st' \<Longrightarrow> s_curr (k_sym st' s) = s_curr (k_sym st s)"
  "extends st st' \<Longrightarrow> s_type (k_sym st' s) = s_type (k_sym st s)"
  "extends st st' \<Longrightarrow> k_modules st' = k_modules st"
  by (auto simp: extends_def)

lemma string_settles:
  assumes "sane st" and "need_syms st = {}" and "pending st < n" and "s \<in> valid_syms st"
  shows "settles (sym_get_string_value (sym_calc_value n) s st) st n (\<lambda>str st''. str = value_string st'' s)"
proof (cases "s_type (k_sym st s) = S_BOOLEAN \<or> s_type (k_sym st s) = S_TRISTATE")
  case False
  obtain str st' where c: "c_string (sv_val (s_curr (k_sym st s))) st = (str, st')"
    by (cases "c_string (sv_val (s_curr (k_sym st s))) st")
  then have "str = plain_string (sv_val (s_curr (k_sym st s)))" "sane st'" "extends st st'"
    "need_syms st' = {}" "pending st' < n"
    using c_string_plain[of "sv_val (s_curr (k_sym st s))" st]
      c_string_core[OF assms(1), of "sv_val (s_curr (k_sym st s))"] assms by auto
  with False c assms(4) extends_trans[of st st'] show ?thesis
    by (auto simp: settles_def sym_get_string_value_def Let_def value_string_def valid_extends)
next
  case True
  show ?thesis
  proof (cases "sv_tri (s_curr (k_sym st s)) = tri_mod")
    case False
    then show ?thesis using assms True
      by (cases "sv_tri (s_curr (k_sym st s))")
        (auto simp: sym_get_string_value_def sym_get_tristate_value_def Let_def value_string_def valid_extends
          intro!: settles_return)
  next
    case m: True
    obtain st' where st': "sym_calc_value n (k_modules st) st = Some st'" "sane st'" "extends st st'"
      "pending st' \<le> pending st" "need_syms st' = {}" "k_modules st \<in> valid_syms st'"
      using calc_extends[OF assms(1,3), of "k_modules st"] assms(2) by (metis subset_empty)
    have "value_string st'' s =
        (if sv_tri (s_curr (k_sym st' (k_modules st'))) = tri_no then ''n'' else ''m'')" if e: "extends st' st''" for st''
    proof -
      have x: "extends st st''" by (rule extends_trans[OF st'(3) e])
      show ?thesis using True m valid_extends(2)[OF assms(4) x] valid_extends(3,4)[OF x] valid_extends(4)[OF st'(3)]
        valid_extends(2)[OF st'(6) e] by (simp add: value_string_def)
    qed
    with True m st' assms(3) show ?thesis
      by (auto simp: settles_def sym_get_string_value_def sym_get_tristate_value_def Let_def)
  qed
qed

lemma compare_settles:
  assumes "sane st" and "need_syms st = {}" and "pending st < n"
  shows "settles (compare_strings (sym_calc_value n) a b st) st n
           (\<lambda>eq st''. eq = (value_string st'' a = value_string st'' b))"
proof -
  obtain st1 where st1: "sym_calc_value n a st = Some st1" "sane st1" "extends st st1"
    "pending st1 \<le> pending st" "need_syms st1 = {}" "a \<in> valid_syms st1"
    using calc_extends[OF assms(1,3), of a] assms(2) by (metis subset_empty)
  have p1: "pending st1 < n" using st1(4) assms(3) by simp
  obtain st2 where st2: "sym_calc_value n b st1 = Some st2" "sane st2" "extends st1 st2"
    "pending st2 \<le> pending st1" "need_syms st2 = {}" "b \<in> valid_syms st2"
    using calc_extends[OF st1(2) p1, of b] st1(5) by (metis subset_empty)
  have p2: "pending st2 < n" using st2(4) p1 by simp
  have a2: "a \<in> valid_syms st2" using st1(6) st2(3) by (rule valid_extends)
  let ?m = "do { (str1, st3) \<leftarrow> sym_get_string_value (sym_calc_value n) a st2;
                 (str2, st4) \<leftarrow> sym_get_string_value (sym_calc_value n) b st3;
                 Some (str1 = str2, st4) }"
  have "settles ?m st2 n (\<lambda>eq st''. eq = (value_string st'' a = value_string st'' b))"
    by (intro settles_bind[OF string_settles[OF st2(2,5) p2 a2]]
        settles_bind[OF string_settles[OF _ _ _ valid_extends(1)[OF st2(6)]]] settles_return) auto
  moreover have "compare_strings (sym_calc_value n) a b st = ?m"
    using st1(1) st2(1) by (simp add: compare_strings_def)
  moreover note e = extends_trans[OF st1(3) st2(3)]
  ultimately show ?thesis unfolding settles_def using extends_trans[OF e] by auto
qed

lemma calc_expr_settles:
  "sane st \<Longrightarrow> need_syms st = {} \<Longrightarrow> pending st < n \<Longrightarrow> static_symbols st \<Longrightarrow>
     settles (calc_expr (sym_calc_value n) e st) st n (\<lambda>t st''. t = expr_calc_value (snapshot st'') e)"
proof (induction e arbitrary: st)
  case (Sym s)
  obtain st1 where st1: "sym_calc_value n s st = Some st1" "sane st1" "extends st st1"
    "pending st1 \<le> pending st" "need_syms st1 = {}" "s \<in> valid_syms st1"
    using calc_extends[OF Sym(1,3), of s] Sym(2) by (metis subset_empty)
  have "sym_tri (snapshot st'') s = sv_tri (s_curr (k_sym st1 s))" if "extends st1 st''" for st''
    using snapshot_tri[OF static_extends[OF Sym(4) extends_trans[OF st1(3) that]]] valid_extends(2)[OF st1(6) that]
    by simp
  with st1 Sym(3) show ?case by (auto simp: settles_def)
next
  case (Neg e)
  show ?case
    by (simp, intro settles_bind[OF Neg.IH] settles_return) (use Neg.prems in auto)
next
  case (And l r)
  show ?case
    by (simp add: EXPR_AND_min, intro settles_bind[OF And.IH(1)] settles_bind[OF And.IH(2)] settles_return)
      (use And.prems static_extends in auto)
next
  case (Or l r)
  show ?case
    by (simp add: EXPR_OR_max, intro settles_bind[OF Or.IH(1)] settles_bind[OF Or.IH(2)] settles_return)
      (use Or.prems static_extends in auto)
next
  case (Equal a b)
  have s: "static_symbols st''" if "extends st st''" for st'' by (rule static_extends[OF Equal(4) that])
  show ?case
    apply (simp, rule settles_bind[OF compare_settles[OF Equal(1,2,3)]])
    apply (rule settles_return)
    apply (auto simp: snapshot_str[OF s[OF extends_trans]])
    done
next
  case (Unequal a b)
  have s: "static_symbols st''" if "extends st st''" for st'' by (rule static_extends[OF Unequal(4) that])
  show ?case
    apply (simp, rule settles_bind[OF compare_settles[OF Unequal(1,2,3)]])
    apply (rule settles_return)
    apply (auto simp: snapshot_str[OF s[OF extends_trans]])
    done
qed

text \<open>
  C2: the evaluation of an expression by the program, which calculates the symbols while it
  evaluates, returns the value that the expression has in the state it leaves.
\<close>

theorem expr_calc_value_refines:
  assumes "sane st" and "need_syms st = {}" and "pending st < n" and "static_symbols st"
  shows "\<exists>t st'. calc_expr (sym_calc_value n) e st = Some (t, st') \<and> extends st st' \<and>
           t = expr_calc_value (snapshot st') e"
  using calc_expr_settles[OF assms, of e] by (auto simp: settles_def extends_refl)

section \<open>An example\<close>

text \<open>
  Two symbols that depend on each other, and the symbol of \<open>modules_sym\<close> with the default y.
\<close>

definition static_symbol :: "string \<Rightarrow> tristate \<Rightarrow> u32 \<Rightarrow> symbol" where
  "static_symbol n t f = (example_symbol S_UNKNOWN f)\<lparr>s_name := Some n, s_curr := \<lparr>sv_val = VStr 0 n, sv_tri = t\<rparr>\<rparr>"

definition example_prop :: "prop_type \<Rightarrow> expr \<Rightarrow> property" where
  "example_prop t e = \<lparr>p_type = t, p_text = None, p_visible = \<lparr>ev_expr = None, ev_tri = tri_no\<rparr>,
     p_expr = Some (PE_expr e), p_menu = None, p_file = ''Config.in'', p_lineno = 1\<rparr>"

definition example_table :: symtab where
  "example_table s =
     (if s = symbol_yes then static_symbol ''y'' tri_yes (SYMBOL_CONST OR SYMBOL_VALID)
      else if s = symbol_mod then static_symbol ''m'' tri_mod (SYMBOL_CONST OR SYMBOL_VALID)
      else if s = symbol_no then static_symbol ''n'' tri_no (SYMBOL_CONST OR SYMBOL_VALID)
      else if s = symbol_empty then static_symbol '''' tri_no SYMBOL_VALID
      else if s = sym_at 1 then (example_symbol S_BOOLEAN 0)\<lparr>s_dir_dep := \<lparr>ev_expr = Some (Sym (sym_at 2)), ev_tri = tri_no\<rparr>\<rparr>
      else if s = sym_at 2 then (example_symbol S_TRISTATE 0)\<lparr>s_dir_dep := \<lparr>ev_expr = Some (Sym (sym_at 1)), ev_tri = tri_no\<rparr>\<rparr>
      else if s = sym_at 3 then (example_symbol S_BOOLEAN 0)\<lparr>s_prop := [example_prop P_DEFAULT (Sym symbol_yes)]\<rparr>
      else example_symbol S_UNKNOWN SYMBOL_VALID)"

definition example_state :: kstate where
  "example_state = \<lparr>k_sym = example_table, k_hash = (\<lambda>i. if i = 1 then [sym_at 1, sym_at 2, sym_at 3] else []), k_next = 8, k_modules = sym_at 3,
     k_modval = tri_no, k_change = 0, k_menu_changed = (\<lambda>_. False), k_fresh = 1, k_unmet = [], k_undef = False\<rparr>"

lemma example_table_simps [simp]:
  "has_flag (example_table s) SYMBOL_VALID = (s \<noteq> sym_at 1 \<and> s \<noteq> sym_at 2 \<and> s \<noteq> sym_at 3)"
  "has_flag (example_table s) SYMBOL_NEED_SET_CHOICE_VALUES = False"
  "sv_tri (s_curr (example_table s)) = (if s = symbol_yes then tri_yes else if s = symbol_mod then tri_mod else tri_no)"
  by (auto simp: example_table_def static_symbol_def example_symbol_def has_flag_def flag_defs)

lemma example_open: "open_syms example_state = {sym_at 1, sym_at 2, sym_at 3}"
  "need_syms example_state = {}" "pending example_state = 3"
proof -
  show "open_syms example_state = {sym_at 1, sym_at 2, sym_at 3}" "need_syms example_state = {}"
    by (auto simp: open_syms_def need_syms_def example_state_def)
  then show "pending example_state = 3" by (simp add: pending_def)
qed

lemma example_sane: "sane example_state"
proof -
  have "finite (open_syms example_state)" "finite (need_syms example_state)"
    by (simp_all add: example_open)
  moreover have "bool_values example_state"
    by (auto simp: bool_values_def typed_value_def example_state_def example_table_def static_symbol_def example_symbol_def
        split: if_splits)
  ultimately show ?thesis by (simp add: sane_def example_state_def)
qed

lemma example_static_symbols: "static_symbols example_state"
  by (simp add: static_symbols_def valid_syms_def example_state_def)
    (simp add: example_table_def static_symbol_def example_symbol_def plain_string_def)

theorem sym_calc_value_returns_witness:
  "\<exists>st'. sym_calc_value 4 (sym_at 1) example_state = Some st' \<and> sane st' \<and> sym_calc_value 4 (sym_at 1) st' = Some st'"
  using sym_calc_value_returns[OF example_sane, of 4 "sym_at 1"] by (auto simp: example_open)

theorem expr_calc_value_refines_witness:
  "\<exists>t st'. calc_expr (sym_calc_value 4) (And (Neg (Sym (sym_at 1))) (Equal (sym_at 3) symbol_yes)) example_state = Some (t, st') \<and>
     t = expr_calc_value (snapshot st') (And (Neg (Sym (sym_at 1))) (Equal (sym_at 3) symbol_yes))"
  using expr_calc_value_refines[OF example_sane example_open(2) _ example_static_symbols,
      of 4 "And (Neg (Sym (sym_at 1))) (Equal (sym_at 3) symbol_yes)"]
  by (auto simp: example_open)

section \<open>Typing\<close>

text \<open>
  With modules enabled the string of a boolean or tristate symbol is the name of its value, so
  the calculated values are well typed and every rewriting of expressions is sound for them.
\<close>

definition distinct_constants :: "kstate \<Rightarrow> bool" where
  "distinct_constants st \<longleftrightarrow>
     (\<forall>a b. has_flag (k_sym st a) SYMBOL_CONST \<longrightarrow> has_flag (k_sym st b) SYMBOL_CONST \<longrightarrow> a \<noteq> b \<longrightarrow>
            value_string st a \<noteq> value_string st b)"

definition modules_enabled :: "kstate \<Rightarrow> bool" where
  "modules_enabled st \<longleftrightarrow> sv_tri (s_curr (k_sym st (k_modules st))) \<noteq> tri_no"

lemma snapshot_well_typed:
  assumes "bool_values st" and "static_symbols st" and "modules_enabled st" and "distinct_constants st"
  shows "well_typed (k_sym st) (snapshot st)"
proof -
  have "value_string st s = tri_name (sv_tri (s_curr (k_sym st s)))"
    if "s_type (k_sym st s) = S_BOOLEAN \<or> s_type (k_sym st s) = S_TRISTATE" for s
    using that assms(3) by (cases "sv_tri (s_curr (k_sym st s))") (auto simp: value_string_def modules_enabled_def)
  then show ?thesis
    using assms(1,4) by (auto simp: well_typed_def snapshot_tri[OF assms(2)] snapshot_str[OF assms(2)]
        bool_values_def typed_value_def distinct_constants_def)
qed

text \<open>The rewriting only looks at the types of the symbols.\<close>

lemma transform_types:
  assumes "\<And>s. s_type (b s) = s_type (a s)"
  shows "expr_transform b e = expr_transform a e"
  using assms
proof (induction a e rule: expr_transform.induct)
  case (6 st e)
  from 6 have "expr_transform b e = expr_transform st e" by simp
  then show ?case unfolding expr_transform.simps(6)
    by (cases "expr_transform st e") (simp_all only: expr.case "6.IH"(2-)[OF _ "6.prems"])
qed (simp_all add: transform_equal_def transform_unequal_def)


text \<open>The example after all its symbols have been calculated, with modules enabled.\<close>

definition settled_state :: kstate where
  "settled_state = example_state\<lparr>k_sym := (\<lambda>s.
     if s = sym_at 1 then example_symbol S_BOOLEAN SYMBOL_VALID
     else if s = sym_at 3 then (example_symbol S_BOOLEAN SYMBOL_VALID)\<lparr>s_curr := \<lparr>sv_val = VNull, sv_tri = tri_yes\<rparr>\<rparr>
     else if s = sym_at 2 then example_symbol S_TRISTATE SYMBOL_VALID
     else example_table s)\<rparr>"

lemma settled_valid: "has_flag (k_sym settled_state s) SYMBOL_VALID"
  "\<not> has_flag (k_sym settled_state s) SYMBOL_NEED_SET_CHOICE_VALUES"
  by (auto simp: settled_state_def example_symbol_def has_flag_def flag_defs)
    (auto simp: example_table_def static_symbol_def example_symbol_def flag_defs split: if_splits)

lemma settled_open: "open_syms settled_state = {}" "need_syms settled_state = {}" "pending settled_state = 0"
  by (simp_all add: open_syms_def need_syms_def pending_def settled_valid)

lemma settled_sane: "sane settled_state" "static_symbols settled_state"
  "modules_enabled settled_state" "distinct_constants settled_state"
proof -
  have "bool_values settled_state"
    by (auto simp: bool_values_def typed_value_def settled_state_def example_symbol_def)
      (auto simp: example_table_def static_symbol_def example_symbol_def split: if_splits)
  then show "sane settled_state"
    by (simp add: sane_def settled_open settled_valid) (simp add: settled_state_def)
  show "static_symbols settled_state"
    by (simp add: static_symbols_def valid_syms_def settled_valid)
      (simp add: settled_state_def example_table_def static_symbol_def example_symbol_def plain_string_def)
  show "modules_enabled settled_state"
    by (simp add: modules_enabled_def settled_state_def example_state_def)
  have c: "has_flag (k_sym settled_state s) SYMBOL_CONST \<longleftrightarrow> s = symbol_yes \<or> s = symbol_mod \<or> s = symbol_no" for s
    by (simp add: settled_state_def example_table_def static_symbol_def example_symbol_def has_flag_def flag_defs)
  show "distinct_constants settled_state"
    unfolding distinct_constants_def c
    by (auto simp: value_string_def settled_state_def example_table_def static_symbol_def
        example_symbol_def plain_string_def)
qed


end
