(* ===== verification/Kc_Bounds.thy ===== *)
theory Kc_Bounds
  imports Kc_Snapshot
begin

text \<open>
  The bounds that the calculation of a value keeps: a selected symbol is at least what selects
  it, the user's value counts between the selection and the visibility, and a number is moved
  into the range of its symbol.
\<close>

section \<open>Selected symbols\<close>

lemma mod_to_yes_ge: "t \<le> mod_to_yes b t"
  by (simp add: mod_to_yes_def)

lemma warn_unmet_sym [simp]: "k_sym (warn_unmet s st) = k_sym st" "k_modval (warn_unmet s st) = k_modval st"
  by (simp_all add: warn_unmet_def)

lemma get_type_warn [simp]: "sym_get_type (warn_unmet s st) = sym_get_type st"
  by (rule ext) (simp add: sym_get_type_def)



section \<open>Ranges\<close>

lemma strtoll_bounds: "LLONG_MIN \<le> strtoll s b \<and> strtoll s b \<le> LLONG_MAX"
  by (auto simp: strtoll_def clamp_ll_def LLONG_MIN_def LLONG_MAX_def Let_def split: prod.splits)

text \<open>The number that a symbol stands for, read in a base.\<close>

definition number :: "kstate \<Rightarrow> sym \<Rightarrow> nat \<Rightarrow> int" where
  "number st s base = strtoll (plain_string (sv_val (s_curr (k_sym st s)))) base"

lemma number_store_bound:
  assumes "s_type (k_sym st s) = S_INT \<or> (s_type (k_sym st s) = S_HEX \<and> 0 \<le> b)"
    and "LLONG_MIN \<le> b" and "b \<le> LLONG_MAX"
  shows "number (store_bound s b st) s (range_base (s_type (k_sym st s)) 0) = b"
  using assms strtoll_lld[of b] strtoll_0xllx[of b]
  by (auto simp: number_def store_bound_def set_curr_val_def range_base_def plain_string_def)

lemma range_val_extends:
  assumes "sane st" and "need_syms st = {}" and "pending st < n"
    and "sym_get_range_val (sym_calc_value n) a base st = Some (v, st')"
  shows "sane st' \<and> need_syms st' = {} \<and> pending st' < n \<and> extends st st' \<and> LLONG_MIN \<le> v \<and> v \<le> LLONG_MAX"
proof -
  obtain st1 where st1: "sym_calc_value n a st = Some st1" "sane st1" "extends st st1"
    "pending st1 \<le> pending st" "need_syms st1 = {}"
    using calc_extends[OF assms(1,3), of a] assms(2) by (metis subset_empty)
  have c: "st' = snd (c_string (sv_val (s_curr (k_sym st1 a))) st1)"
    "v = strtoll (fst (c_string (sv_val (s_curr (k_sym st1 a))) st1)) (range_base (s_type (k_sym st1 a)) base)"
    using assms(4) st1(1) by (auto simp: sym_get_range_val_def split_beta)
  from c_string_core[OF st1(2), of "sv_val (s_curr (k_sym st1 a))"] st1 assms(3) extends_trans[OF st1(3)] strtoll_bounds
  show ?thesis unfolding c by auto
qed


lemma sane_upd:
  assumes "sane st" and "s \<noteq> symbol_no" and "s_flags (f (k_sym st s)) = s_flags (k_sym st s)"
    and "typed_value (f (k_sym st s)) (s_curr (f (k_sym st s)))"
  shows "sane (upd s f st)" and "open_syms (upd s f st) = open_syms st" and "need_syms (upd s f st) = need_syms st"
proof -
  have f: "has_flag (k_sym (upd s f st) a) x = has_flag (k_sym st a) x" for a x
    using assms(3) by (simp add: has_flag_def k_sym_upd)
  then show o: "open_syms (upd s f st) = open_syms st" "need_syms (upd s f st) = need_syms st"
    by (simp_all add: open_syms_def need_syms_def)
  show "sane (upd s f st)" unfolding sane_def o f
    using assms(1,2,4) by (auto simp: sane_def bool_values_def k_sym_upd)
qed

definition number_symbol :: "string \<Rightarrow> symbol \<Rightarrow> symbol" where
  "number_symbol n y = y\<lparr>s_type := S_INT, s_curr := \<lparr>sv_val = VStr 1 n, sv_tri = tri_no\<rparr>\<rparr>"

definition number_state :: kstate where
  "number_state = upd (sym_at 5) (number_symbol ''1'') (upd (sym_at 6) (number_symbol ''100'')
     (upd (sym_at 7) (number_symbol ''250'') settled_state))"

lemma number_upd [simp]:
  assumes "sane st" and "s \<noteq> symbol_no"
  shows "sane (upd s (number_symbol n) st)" "open_syms (upd s (number_symbol n) st) = open_syms st"
    "need_syms (upd s (number_symbol n) st) = need_syms st"
  by (rule sane_upd[OF assms]; simp add: number_symbol_def typed_value_def)+

lemma number_state_sane: "sane number_state" "open_syms number_state = {}" "need_syms number_state = {}"
  by (simp_all add: number_state_def settled_sane settled_open)


end
