(* ===== verification/Kc_Set.thy ===== *)
theory Kc_Set
  imports Kc_Bounds
begin

text \<open>
  Setting the value of a symbol in symbol.c: what \<open>sym_tristate_within_range\<close> admits, how a
  choice value is set, the toggling of a value, and the invalidation that follows. The first
  argument of each operation is the bound of \<open>sym_calc_value\<close>.
\<close>

section \<open>Tristate values\<close>

definition sym_tristate_within_range :: "kstate \<Rightarrow> sym \<Rightarrow> tristate \<Rightarrow> bool" where
  "sym_tristate_within_range st s val =
     (let y = k_sym st s; type = sym_get_type st s in
      if s_visible y = tri_no then False
      else if type \<noteq> S_BOOLEAN \<and> type \<noteq> S_TRISTATE then False
      else if type = S_BOOLEAN \<and> val = tri_mod then False
      else if s_visible y \<le> ev_tri (s_rev_dep y) then False
      else if sym_is_choice_value y \<and> s_visible y = tri_yes then val = tri_yes
      else ev_tri (s_rev_dep y) \<le> val \<and> val \<le> s_visible y)"

definition sym_is_changable :: "symbol \<Rightarrow> bool" where
  "sym_is_changable y \<longleftrightarrow> ev_tri (s_rev_dep y) < s_visible y"

text \<open>The loop that resets the new flag of all visible values of the choice.\<close>

fun mark_values :: "sym list \<Rightarrow> kstate \<Rightarrow> kstate" where
  "mark_values [] st = st"
| "mark_values (d # ds) st =
     mark_values ds (if s_visible (k_sym st d) \<noteq> tri_no then upd d (set_flags SYMBOL_DEF_USER) st else st)"

definition select_choice_value :: "sym \<Rightarrow> kstate \<Rightarrow> kstate" where
  "select_choice_value s st =
     (case choice_of (k_sym st s) of
        None \<Rightarrow> undefined_use st
      | Some cs \<Rightarrow>
          let st1 = upd cs (\<lambda>y. y\<lparr>s_def_user := (s_def_user y)\<lparr>sv_val := VSym s\<rparr>\<rparr>) st;
              st2 = upd cs (set_flags SYMBOL_DEF_USER) st1
          in mark_values (choice_list (k_sym st2 cs)) st2)"

definition mark_user_value :: "sym \<Rightarrow> kstate \<Rightarrow> kstate" where
  "mark_user_value s st =
     (if \<not> has_flag (k_sym st s) SYMBOL_DEF_USER
      then sym_set_changed s (upd s (set_flags SYMBOL_DEF_USER) st) else st)"

definition store_user_tri :: "sym \<Rightarrow> tristate \<Rightarrow> kstate \<Rightarrow> kstate" where
  "store_user_tri s val = upd s (\<lambda>y. y\<lparr>s_def_user := (s_def_user y)\<lparr>sv_tri := val\<rparr>\<rparr>)"

definition sym_set_tristate_value :: "nat \<Rightarrow> sym \<Rightarrow> tristate \<Rightarrow> kstate \<Rightarrow> (bool \<times> kstate) option" where
  "sym_set_tristate_value n s val st =
     (let oldval = sym_get_tristate_value (k_sym st s) in
      if oldval \<noteq> val \<and> \<not> sym_tristate_within_range st s val then Some (False, st)
      else
        let st1 = mark_user_value s st;
            st2 = (if sym_is_choice_value (k_sym st1 s) \<and> val = tri_yes then select_choice_value s st1 else st1);
            st3 = store_user_tri s val st2
        in if oldval \<noteq> val then do { st4 \<leftarrow> sym_clear_all_valid n st3; Some (True, st4) }
           else Some (True, st3))"

fun next_tristate :: "tristate \<Rightarrow> tristate" where
  "next_tristate tri_no = tri_mod"
| "next_tristate tri_mod = tri_yes"
| "next_tristate tri_yes = tri_no"

text \<open>The do-while loop: \<open>new\<close> is the value of the last attempt.\<close>

fun steps_to :: "tristate \<Rightarrow> tristate \<Rightarrow> nat" where
  "steps_to old new = (if next_tristate new = old then 1 else if next_tristate (next_tristate new) = old then 2 else 3)"

function toggle_loop :: "nat \<Rightarrow> sym \<Rightarrow> tristate \<Rightarrow> tristate \<Rightarrow> kstate \<Rightarrow> (tristate \<times> kstate) option" where
  "toggle_loop n s old new st = do {
     (ok, st1) \<leftarrow> sym_set_tristate_value n s (next_tristate new) st;
     if ok \<or> old = next_tristate new then Some (next_tristate new, st1)
     else toggle_loop n s old (next_tristate new) st1 }"
  by pat_completeness auto
termination toggle_loop
proof (relation "measure (\<lambda>(n, s, old, new, st). steps_to old new)", simp)
  fix n s old new st x ok st1
  assume "\<not> (ok \<or> old = next_tristate new)"
  then show "((n, s, old, next_tristate new, st1), n, s, old, new, st) \<in> measure (\<lambda>(n, s, old, new, st). steps_to old new)"
    by (cases old; cases new) auto
qed

declare toggle_loop.simps [simp del]

definition sym_toggle_tristate_value :: "nat \<Rightarrow> sym \<Rightarrow> kstate \<Rightarrow> (tristate \<times> kstate) option" where
  "sym_toggle_tristate_value n s st =
     (let oldval = sym_get_tristate_value (k_sym st s) in toggle_loop n s oldval oldval st)"

section \<open>What is admitted\<close>

lemma sane_core: "sane st \<Longrightarrow> same_core st st' \<Longrightarrow> sane st'"
  by (simp add: sane_def bool_values_def typed_value_def same_core_def open_syms_def need_syms_def)

lemma core_select: "same_core st (select_choice_value s st)"
proof -
  have m: "same_core st (mark_values l st)" for l st
  proof (induction l arbitrary: st)
    case Nil
    then show ?case by (simp add: same_core_refl)
  next
    case (Cons d l)
    have "same_core st (upd d (set_flags SYMBOL_DEF_USER) st)"
      by (rule core_set_flags(1)) (simp_all)
    then show ?case using Cons same_core_trans by auto
  qed
  have v: "same_core st (upd c (\<lambda>y. y\<lparr>s_def_user := (s_def_user y)\<lparr>sv_val := VSym s\<rparr>\<rparr>) st)" for c st
    by (rule same_core_upd) (simp_all add: has_flag_def)
  have f: "same_core st (upd c (set_flags SYMBOL_DEF_USER) st)" for c st
    by (rule core_set_flags(1)) simp_all
  show ?thesis
    by (auto simp: select_choice_value_def Let_def core_undefined_use split: option.splits
        intro!: same_core_trans[OF same_core_trans[OF v f] m])
qed

lemma core_mark_user: "same_core st (mark_user_value s st)"
  using same_core_trans[OF core_set_flags(1)[of SYMBOL_DEF_USER] core_set_changed]
  by (simp add: mark_user_value_def same_core_refl)

lemma core_store_user: "same_core st (store_user_tri s v st)"
  unfolding store_user_tri_def by (rule same_core_upd) (simp_all add: has_flag_def)

lemma core_set_tristate:
  "same_core st (store_user_tri s val (if b then select_choice_value s (mark_user_value s st) else mark_user_value s st))"
  by (auto intro!: same_core_trans[OF _ core_store_user] same_core_trans[OF core_mark_user core_select] core_mark_user)

text \<open>Every symbol of the table is invalid afterwards, and \<open>modules_sym\<close> is calculated anew.\<close>

lemma clear_all_valid_sane:
  assumes "sane st" and "need_syms st = {}" and "symbol_no \<notin> set (k_list st)"
    and "card (open_syms st \<union> set (k_list st)) < n"
  obtains st' where "sym_clear_all_valid n st = Some st'" and "sane st'" and "need_syms st' = {}"
    and "k_modules st \<in> valid_syms st'" and "pending st' < n"
proof -
  let ?l = "for_all_symbols st"
  have l: "set ?l \<subseteq> set (k_list st)" by (auto simp: for_all_symbols_def)
  define st1 where "st1 = fold (\<lambda>s. upd s (clear_flags SYMBOL_VALID)) ?l st"
  have k: "k_sym (fold (\<lambda>s. upd s (clear_flags SYMBOL_VALID)) l x) a =
      (if a \<in> set l then clear_flags SYMBOL_VALID (k_sym x a) else k_sym x a)" for l x a
  proof (induction l arbitrary: x)
    case (Cons b l)
    have "clear_flags SYMBOL_VALID (clear_flags SYMBOL_VALID y) = clear_flags SYMBOL_VALID y" for y
      by (simp add: clear_flags_def and.assoc)
    with Cons show ?case by (auto simp: k_sym_upd)
  qed simp
  have m: "k_modules (fold (\<lambda>s. upd s (clear_flags SYMBOL_VALID)) l x) = k_modules x" for l x
    by (induction l arbitrary: x) simp_all
  have o: "open_syms st1 = open_syms st \<union> set ?l"
    by (auto simp: st1_def open_syms_def k flag_simps)
  have nd: "need_syms st1 = {}"
    using assms(2) by (auto simp: st1_def need_syms_def k flag_simps split: if_splits)
  have b: "bool_values st1"
    using assms(1) by (auto simp: st1_def k sane_def bool_values_def typed_value_def clear_flags_def)
  have s1: "sane st1"
  proof -
    have "k_sym st1 symbol_no = k_sym st symbol_no" using l assms(3) by (auto simp: st1_def k)
    with assms(1) b show ?thesis by (auto simp: sane_def o nd)
  qed
  define st2 where "st2 = sym_add_change_count 1 st1"
  have c: "same_core st1 st2" by (simp add: st2_def sym_add_change_count_def same_core_def)
  have s2: "sane st2" by (rule sane_core[OF s1 c])
  have n2: "need_syms st2 = {}" "open_syms st2 = open_syms st1"
    using c nd by (simp_all add: same_core_def need_syms_def open_syms_def)
  have "card (open_syms st1) \<le> card (open_syms st \<union> set (k_list st))"
    by (rule card_mono) (use assms(1) o l in \<open>auto simp: sane_def\<close>)
  then have p: "pending st2 < n" using assms(4) by (simp add: pending_def n2)
  obtain st3 where "sym_calc_value n (k_modules st1) st2 = Some st3" "sane st3" "need_syms st3 = {}"
    "k_modules st1 \<in> valid_syms st3" "pending st3 < n"
    using calc_extends[OF s2 p, of "k_modules st1"] n2(1) p by (metis subset_empty le_less_trans)
  then show thesis
    using that[of st3] by (simp add: sym_clear_all_valid_def Let_def st1_def st2_def m)
qed

lemma within_range_bool:
  "sym_tristate_within_range st s val \<Longrightarrow> s_type (k_sym st s) = S_BOOLEAN \<Longrightarrow> val \<noteq> tri_mod"
  by (auto simp: sym_tristate_within_range_def sym_get_type_def Let_def split: if_splits)

text \<open>The number of symbols that a change can make invalid.\<close>

definition table_bound :: "kstate \<Rightarrow> nat" where
  "table_bound st = card (open_syms st \<union> set (k_list st))"

text \<open>All symbols can be made invalid and \<open>modules_sym\<close> calculated anew; a calculation does not change that.\<close>

definition clearable :: "nat \<Rightarrow> kstate \<Rightarrow> bool" where
  "clearable n st \<longleftrightarrow> need_syms st = {} \<and> symbol_no \<notin> set (k_list st) \<and> table_bound st < n"

lemma clearable_extends:
  assumes "clearable n st" and "sane st" and "extends st st'" and "need_syms st' \<subseteq> need_syms st"
  shows "clearable n st'"
proof -
  have l: "k_list st' = k_list st" using assms(3) by (intro k_list_hash) (simp add: extends_def)
  have "open_syms st' \<subseteq> open_syms st" using assms(3) by (auto simp: extends_def open_syms_def valid_syms_def)
  then have "table_bound st' \<le> table_bound st"
    unfolding table_bound_def l by (intro card_mono) (use assms(2) in \<open>auto simp: sane_def\<close>)
  with assms(1,4) l show ?thesis by (simp add: clearable_def)
qed

lemma set_tristate_cases:
  assumes "sane st" and "need_syms st = {}" and "symbol_no \<notin> set (k_list st)" and "table_bound st < n"
  obtains (refused) "\<not> sym_tristate_within_range st s val" "sv_tri (s_curr (k_sym st s)) \<noteq> val"
      "sym_set_tristate_value n s val st = Some (False, st)"
    | (set) st' where "sym_set_tristate_value n s val st = Some (True, st')" "sane st'" "need_syms st' = {}"
      "sv_tri (s_curr (k_sym st s)) = val \<or> sym_tristate_within_range st s val"
proof -
  let ?c = "sv_tri (s_curr (k_sym st s))"
  define st3 where "st3 = store_user_tri s val
    (if sym_is_choice_value (k_sym (mark_user_value s st) s) \<and> val = tri_yes
     then select_choice_value s (mark_user_value s st) else mark_user_value s st)"
  have c3: "same_core st st3" unfolding st3_def by (rule core_set_tristate)
  have s3: "sane st3" "need_syms st3 = {}" "open_syms st3 = open_syms st"
    using sane_core[OF assms(1) c3] c3 assms(2) by (simp_all add: same_core_def need_syms_def open_syms_def)
  have l: "k_hash (mark_values l x) = k_hash x" for l x by (induction l arbitrary: x) simp_all
  have l3: "k_list st3 = k_list st"
    by (rule k_list_hash) (auto simp: st3_def store_user_tri_def select_choice_value_def mark_user_value_def sym_set_changed_def
        undefined_use_def l Let_def split: option.splits)
  consider "?c \<noteq> val" "\<not> sym_tristate_within_range st s val" | "?c = val"
    | "?c \<noteq> val" "sym_tristate_within_range st s val" by blast
  then show thesis
  proof cases
    case 1
    then show thesis using refused by (simp add: sym_set_tristate_value_def sym_get_tristate_value_def)
  next
    case 2
    then show thesis using set[of st3] s3
      by (simp add: sym_set_tristate_value_def sym_get_tristate_value_def Let_def st3_def)
  next
    case 3
    obtain st4 where "sym_clear_all_valid n st3 = Some st4" "sane st4" "need_syms st4 = {}"
    proof -
      have "symbol_no \<notin> set (k_list st3)" "card (open_syms st3 \<union> set (k_list st3)) < n"
        using assms(3,4) s3(3) l3 by (simp_all add: table_bound_def)
      from clear_all_valid_sane[OF s3(1,2) this] show thesis using that by blast
    qed
    then show thesis using set[of st4] 3
      by (simp add: sym_set_tristate_value_def sym_get_tristate_value_def Let_def st3_def)
  qed
qed


lemma example_list: "set (k_list example_state) = {sym_at 1, sym_at 2, sym_at 3}"
  by (auto simp: k_list_def example_state_def SYMBOL_HASHSIZE_def split: if_splits)


lemma toggle_loop_sets:
  assumes "sane st" and "need_syms st = {}" and "symbol_no \<notin> set (k_list st)" and "table_bound st < n"
    and "old = sv_tri (s_curr (k_sym st s))"
  shows "\<exists>v st'. toggle_loop n s old new st = Some (v, st') \<and> sane st' \<and>
    sym_set_tristate_value n s v st = Some (True, st')"
proof (induction "steps_to old new" arbitrary: new rule: less_induct)
  case less
  show ?case
  proof (cases rule: set_tristate_cases[OF assms(1-4), of s "next_tristate new"])
    case 1
    then have ne: "old \<noteq> next_tristate new" using assms(5) by simp
    have "steps_to old (next_tristate new) < steps_to old new"
      using ne by (cases old; cases new) auto
    from less[OF this] 1(3) ne show ?thesis by (subst toggle_loop.simps) simp
  next
    case (2 st')
    then show ?thesis by (subst toggle_loop.simps) simp
  qed
qed

text \<open>
  toggling returns, and always with a value that \<open>sym_set_tristate_value\<close> has accepted: the
  loop does not need the test that stops it after a full round.
\<close>

theorem toggle_sets_a_value:
  assumes "sane st" and "need_syms st = {}" and "symbol_no \<notin> set (k_list st)" and "table_bound st < n"
  shows "\<exists>v st'. sym_toggle_tristate_value n s st = Some (v, st') \<and> sane st' \<and>
    sym_set_tristate_value n s v st = Some (True, st')"
  using toggle_loop_sets[OF assms refl, of s] by (simp add: sym_toggle_tristate_value_def sym_get_tristate_value_def Let_def)

theorem toggle_sets_a_value_witness:
  "\<exists>v st'. sym_toggle_tristate_value 4 (sym_at 1) example_state = Some (v, st') \<and> sane st'"
proof -
  have k: "set (k_list example_state) = {sym_at 1, sym_at 2, sym_at 3}" by (rule example_list)
  then have l: "symbol_no \<notin> set (k_list example_state)" by simp
  have "open_syms example_state \<union> set (k_list example_state) = {sym_at 1, sym_at 2, sym_at 3}"
    unfolding example_open k by simp
  then have "table_bound example_state < 4" by (simp add: table_bound_def)
  from toggle_sets_a_value[OF example_sane example_open(2) l this] show ?thesis by blast
qed

end
