(* ===== verification/Kc_Hash.thy ===== *)
theory Kc_Hash
  imports Kc_Set
begin

text \<open>
  The symbol table of symbol.c: the hash function, \<open>sym_lookup\<close>, which creates the symbols that
  it does not find, and \<open>sym_find\<close>. The locale states the table as an interning dictionary; it
  is interpreted on the two functions.
\<close>

section \<open>The hash table\<close>

text \<open>\<open>*s\<close> is a signed char, extended to the width of the hash.\<close>

definition char_word :: "char \<Rightarrow> u32" where
  "char_word c = word_of_int (sint (word_of_nat (code c) :: u8))"

fun strhash_loop :: "string \<Rightarrow> u32 \<Rightarrow> u32" where
  "strhash_loop [] hash = hash"
| "strhash_loop (c # s) hash = strhash_loop s ((hash XOR char_word c) * 0x01000193)"

definition strhash :: "string \<Rightarrow> u32" where
  "strhash s = strhash_loop s 2166136261"

definition hash_index :: "string \<Rightarrow> nat" where
  "hash_index s = unat (strhash s mod word_of_nat SYMBOL_HASHSIZE)"

fun static_name :: "string \<Rightarrow> sym option" where
  "static_name [c] =
     (if c = CHR ''y'' then Some symbol_yes else if c = CHR ''m'' then Some symbol_mod
      else if c = CHR ''n'' then Some symbol_no else None)"
| "static_name _ = None"

definition lookup_match :: "u32 \<Rightarrow> string \<Rightarrow> symbol \<Rightarrow> bool" where
  "lookup_match flags name y \<longleftrightarrow> s_name y = Some name \<and>
     (if flags \<noteq> 0 then s_flags y AND flags \<noteq> 0 else s_flags y AND (SYMBOL_CONST OR SYMBOL_CHOICE) = 0)"

text \<open>\<open>memset(symbol, 0, sizeof(*symbol))\<close> with the name and the flags.\<close>

definition new_symbol :: "string option \<Rightarrow> u32 \<Rightarrow> symbol" where
  "new_symbol name flags =
     \<lparr>s_name = name, s_type = S_UNKNOWN, s_curr = \<lparr>sv_val = VNull, sv_tri = tri_no\<rparr>,
      s_def_user = \<lparr>sv_val = VNull, sv_tri = tri_no\<rparr>, s_def_auto = \<lparr>sv_val = VNull, sv_tri = tri_no\<rparr>,
      s_visible = tri_no, s_flags = flags, s_prop = [], s_dir_dep = \<lparr>ev_expr = None, ev_tri = tri_no\<rparr>,
      s_rev_dep = \<lparr>ev_expr = None, ev_tri = tri_no\<rparr>\<rparr>"

definition add_symbol :: "nat \<Rightarrow> string option \<Rightarrow> u32 \<Rightarrow> kstate \<Rightarrow> sym \<times> kstate" where
  "add_symbol hash name flags st =
     (let s = sym_at (k_next st) in
      (s, st\<lparr>k_sym := (k_sym st)(s := new_symbol name flags),
             k_hash := (k_hash st)(hash := s # k_hash st hash),
             k_next := Suc (k_next st)\<rparr>))"

definition sym_lookup :: "string option \<Rightarrow> u32 \<Rightarrow> kstate \<Rightarrow> sym \<times> kstate" where
  "sym_lookup name flags st =
     (case name of
        None \<Rightarrow> add_symbol 0 None flags st
      | Some n \<Rightarrow>
          (case static_name n of
             Some s \<Rightarrow> (s, st)
           | None \<Rightarrow>
               (case List.find (\<lambda>s. lookup_match flags n (k_sym st s)) (k_hash st (hash_index n)) of
                  Some s \<Rightarrow> (s, st)
                | None \<Rightarrow> add_symbol (hash_index n) (Some n) flags st)))"

definition sym_find :: "string \<Rightarrow> kstate \<Rightarrow> sym option" where
  "sym_find n st =
     (case static_name n of
        Some s \<Rightarrow> Some s
      | None \<Rightarrow> List.find (\<lambda>s. s_name (k_sym st s) = Some n \<and> \<not> has_flag (k_sym st s) SYMBOL_CONST)
                 (k_hash st (hash_index n)))"

section \<open>Interning\<close>

locale interning =
  fixes inv :: "'t \<Rightarrow> bool" and find :: "'k \<Rightarrow> 't \<Rightarrow> 'v option" and intern :: "'k \<Rightarrow> 't \<Rightarrow> 'v \<times> 't"
  assumes intern_inv: "inv t \<Longrightarrow> inv (snd (intern k t))"
    and intern_find: "inv t \<Longrightarrow> find k (snd (intern k t)) = Some (fst (intern k t))"
    and intern_present: "inv t \<Longrightarrow> find k t = Some v \<Longrightarrow> intern k t = (v, t)"
    and intern_other: "inv t \<Longrightarrow> find k' t = Some v \<Longrightarrow> find k' (snd (intern k t)) = Some v"
    and injective: "inv t \<Longrightarrow> find k t = Some v \<Longrightarrow> find k' t = Some v \<Longrightarrow> k = k'"
begin

fun intern_list :: "'k list \<Rightarrow> 't \<Rightarrow> 'v list \<times> 't" where
  "intern_list [] t = ([], t)"
| "intern_list (k # ks) t =
     (case intern k t of (v, t1) \<Rightarrow> case intern_list ks t1 of (vs, t2) \<Rightarrow> (v # vs, t2))"

lemma list_inv: "inv t \<Longrightarrow> inv (snd (intern_list ks t))"
  by (induction ks arbitrary: t) (auto split: prod.splits dest: intern_inv simp: prod_eq_iff)

lemma list_other: "inv t \<Longrightarrow> find k t = Some v \<Longrightarrow> find k (snd (intern_list ks t)) = Some v"
proof (induction ks arbitrary: t)
  case (Cons a ks)
  obtain b t1 where a: "intern a t = (b, t1)" by (cases "intern a t")
  obtain vs t2 where r: "intern_list ks t1 = (vs, t2)" by (cases "intern_list ks t1")
  have "inv t1" "find k t1 = Some v"
    using intern_inv[OF Cons.prems(1), of a] intern_other[OF Cons.prems, of a] a by simp_all
  from Cons.IH[OF this] a r show ?case by simp
qed simp

lemma list_find: "inv t \<Longrightarrow> map (\<lambda>k. find k (snd (intern_list ks t))) ks = map Some (fst (intern_list ks t))"
proof (induction ks arbitrary: t)
  case (Cons a ks)
  obtain v t1 where a: "intern a t = (v, t1)" by (cases "intern a t")
  obtain vs t2 where r: "intern_list ks t1 = (vs, t2)" by (cases "intern_list ks t1")
  have i: "inv t1" "find a t1 = Some v" using intern_inv[OF Cons.prems, of a] intern_find[OF Cons.prems, of a] a by auto
  show ?case using Cons.IH[OF i(1)] list_other[OF i, of ks] a r by simp
qed simp

text \<open>Interning the same keys again finds the same values and changes nothing.\<close>

lemma list_present: "inv t \<Longrightarrow> map (\<lambda>k. find k t) ks = map Some vs \<Longrightarrow> intern_list ks t = (vs, t)"
proof (induction ks arbitrary: vs)
  case (Cons a ks)
  then obtain v ws where "vs = v # ws" "find a t = Some v" "map (\<lambda>k. find k t) ks = map Some ws"
    by (cases vs) auto
  with Cons intern_present[of t a v] show ?case by simp
qed simp

lemma list_again:
  assumes "inv t"
  shows "intern_list ks (snd (intern_list ks t)) = intern_list ks t"
  using list_present[OF list_inv[OF assms] list_find[OF assms]] by simp

lemma list_distinct: "inv t \<Longrightarrow> distinct (fst (intern_list ks t)) = distinct ks"
proof -
  assume i: "inv t"
  let ?t = "snd (intern_list ks t)"
  have e: "map (\<lambda>k. find k ?t) ks = map Some (fst (intern_list ks t))" by (rule list_find[OF i])
  have f: "find k ?t \<noteq> None" if "k \<in> set ks" for k
  proof -
    have "find k ?t \<in> set (map Some (fst (intern_list ks t)))" using that by (simp flip: e)
    then show ?thesis by auto
  qed
  have "inj_on (\<lambda>k. find k ?t) (set ks)"
    by (rule inj_onI) (metis f injective[OF list_inv[OF i]] not_None_eq)
  then have "distinct (map (\<lambda>k. find k ?t) ks) = distinct ks" by (simp add: distinct_map)
  moreover have "distinct (map Some (fst (intern_list ks t))) = distinct (fst (intern_list ks t))"
    by (simp add: distinct_map)
  ultimately show ?thesis by (simp add: e)
qed

end

section \<open>The invariant of the table\<close>

text \<open>
  Every symbol is in the chain of its name, was allocated, and, as no choice has a name in this
  program's configurations, is not a choice if it has one.
\<close>

definition hash_ok :: "kstate \<Rightarrow> bool" where
  "hash_ok st \<longleftrightarrow>
     (\<forall>i s. s \<in> set (k_hash st i) \<longrightarrow>
        (\<exists>n < k_next st. s = sym_at n) \<and>
        (case s_name (k_sym st s) of
           None \<Rightarrow> i = 0
         | Some n \<Rightarrow> i = hash_index n \<and> static_name n = None \<and> \<not> has_flag (k_sym st s) SYMBOL_CHOICE))"

lemma lookup_match_0: "lookup_match 0 n y \<longleftrightarrow> s_name y = Some n \<and> \<not> has_flag y SYMBOL_CONST \<and> \<not> has_flag y SYMBOL_CHOICE"
  by (auto simp: lookup_match_def has_flag_def bit.conj_disj_distrib or_eq_0_iff)

lemma find_lookup:
  assumes "hash_ok st"
  shows "List.find (\<lambda>s. lookup_match 0 n (k_sym st s)) (k_hash st (hash_index n)) =
    List.find (\<lambda>s. s_name (k_sym st s) = Some n \<and> \<not> has_flag (k_sym st s) SYMBOL_CONST) (k_hash st (hash_index n))"
proof (rule find_cong[OF refl])
  fix s
  assume s: "s \<in> set (k_hash st (hash_index n))"
  have "\<not> has_flag (k_sym st s) SYMBOL_CHOICE" if "s_name (k_sym st s) = Some n"
    using assms s that by (simp add: hash_ok_def split: option.splits)
  then show "lookup_match 0 n (k_sym st s) = (s_name (k_sym st s) = Some n \<and> \<not> has_flag (k_sym st s) SYMBOL_CONST)"
    by (auto simp: lookup_match_0)
qed

lemma lookup_0:
  "hash_ok st \<Longrightarrow> sym_lookup (Some n) 0 st =
     (case sym_find n st of Some s \<Rightarrow> (s, st) | None \<Rightarrow> add_symbol (hash_index n) (Some n) 0 st)"
  by (auto simp: sym_lookup_def sym_find_def find_lookup split: option.splits)

lemma add_symbol_ok:
  assumes "hash_ok st" and "static_name n = None"
  shows "hash_ok (snd (add_symbol (hash_index n) (Some n) 0 st))"
  using assms unfolding hash_ok_def add_symbol_def Let_def
  by (fastforce simp: new_symbol_def has_flag_def less_Suc_eq split: if_splits option.splits)

lemma fresh_symbol: "hash_ok st \<Longrightarrow> sym_at (k_next st) \<notin> set (k_hash st i)"
  by (auto simp: hash_ok_def)

lemma sym_find_chain:
  assumes "sym_find n st = Some s" and "static_name n = None"
  shows "s \<in> set (k_hash st (hash_index n)) \<and> s_name (k_sym st s) = Some n"
  using assms by (auto simp: sym_find_def find_Some_iff dest!: nth_mem)

lemma static_name_sym: "static_name n = Some s \<Longrightarrow> s \<in> {symbol_yes, symbol_mod, symbol_no}"
  by (induction n rule: static_name.induct) (auto split: if_splits)

lemma static_name_inj: "static_name m = Some s \<Longrightarrow> static_name n = Some s \<Longrightarrow> m = n"
  by (induction m rule: static_name.induct; induction n rule: static_name.induct) (auto split: if_splits)

lemma find_add_symbol:
  assumes "hash_ok st" and "static_name k = None"
  shows "sym_find m (snd (add_symbol (hash_index k) (Some k) 0 st)) =
    (if m = k then Some (sym_at (k_next st)) else sym_find m st)"
proof -
  let ?st = "snd (add_symbol (hash_index k) (Some k) 0 st)"
  let ?P = "\<lambda>x s. s_name (k_sym x s) = Some m \<and> \<not> has_flag (k_sym x s) SYMBOL_CONST"
  have new: "?P ?st (sym_at (k_next st)) = (m = k)"
    by (auto simp: add_symbol_def Let_def new_symbol_def has_flag_def)
  have old: "List.find (?P ?st) (k_hash st i) = List.find (?P st) (k_hash st i)" for i
  proof (rule find_cong[OF refl])
    fix s
    assume "s \<in> set (k_hash st i)"
    then have "s \<noteq> sym_at (k_next st)" using fresh_symbol[OF assms(1), of i] by auto
    then show "?P ?st s = ?P st s" by (simp add: add_symbol_def Let_def)
  qed
  have chain: "k_hash ?st i = (if i = hash_index k then sym_at (k_next st) # k_hash st i else k_hash st i)" for i
    by (simp add: add_symbol_def Let_def)
  show ?thesis
  proof (cases "m = k")
    case True
    then show ?thesis using new assms(2) by (simp add: sym_find_def chain)
  next
    case False
    then show ?thesis using new old by (auto simp: sym_find_def chain split: option.splits)
  qed
qed

interpretation symbols: interning hash_ok sym_find "\<lambda>n. sym_lookup (Some n) 0"
proof
  fix t :: kstate and k k' v
  assume ok: "hash_ok t"
  show "hash_ok (snd (sym_lookup (Some k) 0 t))"
    using ok add_symbol_ok[OF ok, of k] by (auto simp: lookup_0 sym_find_def split: option.splits)
  show "sym_find k (snd (sym_lookup (Some k) 0 t)) = Some (fst (sym_lookup (Some k) 0 t))"
  proof (cases "sym_find k t")
    case None
    then have "static_name k = None" by (simp add: sym_find_def split: option.splits)
    with None find_add_symbol[OF ok this, of k] show ?thesis
      by (simp add: lookup_0[OF ok]) (simp add: add_symbol_def Let_def)
  qed (simp add: lookup_0[OF ok])
  show "sym_lookup (Some k) 0 t = (v, t)" if "sym_find k t = Some v"
    using that by (simp add: lookup_0[OF ok])
  show "sym_find k' (snd (sym_lookup (Some k) 0 t)) = Some v" if f: "sym_find k' t = Some v"
  proof (cases "sym_find k t")
    case None
    then have s: "static_name k = None" by (simp add: sym_find_def split: option.splits)
    have "k' \<noteq> k" using f None by auto
    with None f find_add_symbol[OF ok s, of k'] show ?thesis by (simp add: lookup_0[OF ok])
  qed (simp add: lookup_0[OF ok] f)
  show "k = k'" if f: "sym_find k t = Some v" "sym_find k' t = Some v"
  proof -
    have chain: "\<exists>n. v = sym_at n \<and> s_name (k_sym t v) = Some m" if "sym_find m t = Some v" "static_name m = None" for m
      using sym_find_chain[OF that] ok by (auto simp: hash_ok_def)
    have st: "v \<in> {symbol_yes, symbol_mod, symbol_no}" "static_name m = Some v"
      if "sym_find m t = Some v" "static_name m \<noteq> None" for m
      using that static_name_sym[of m v] by (auto simp: sym_find_def)
    show ?thesis
      using chain[OF f(1)] chain[OF f(2)] st[OF f(1)] st[OF f(2)] static_name_inj[of k v k']
      by (cases "static_name k"; cases "static_name k'") auto
  qed
qed

text \<open>
  C38: looking up a list of names keeps the table well formed, gives distinct symbols to
  distinct names and the same ones when repeated, without a further change; \<open>sym_find\<close> then
  finds each of them.
\<close>

theorem symbol_table_interns:
  assumes "hash_ok st" and "symbols.intern_list ns st = (ss, st')"
  shows "hash_ok st' \<and> map (\<lambda>n. sym_find n st') ns = map Some ss \<and>
    distinct ss = distinct ns \<and> symbols.intern_list ns st' = (ss, st')"
  using symbols.list_inv[OF assms(1), of ns] symbols.list_find[OF assms(1), of ns]
    symbols.list_distinct[OF assms(1), of ns] symbols.list_again[OF assms(1), of ns] assms(2) by simp

lemma example_hash_ok: "hash_ok (example_state\<lparr>k_hash := (\<lambda>_. []), k_next := 0\<rparr>)"
  by (simp add: hash_ok_def)

theorem symbol_table_interns_witness:
  "\<exists>a b st'. symbols.intern_list [''BR2_arm'', ''y'', ''BR2_x86''] (example_state\<lparr>k_hash := (\<lambda>_. []), k_next := 0\<rparr>) =
     ([a, symbol_yes, b], st') \<and> a \<noteq> b \<and> hash_ok st'"
proof -
  let ?st = "example_state\<lparr>k_hash := (\<lambda>_. []), k_next := 0\<rparr>"
  obtain ss st' where i: "symbols.intern_list [''BR2_arm'', ''y'', ''BR2_x86''] ?st = (ss, st')"
    by (cases "symbols.intern_list [''BR2_arm'', ''y'', ''BR2_x86''] ?st")
  note t = symbol_table_interns[OF example_hash_ok i]
  then obtain a y b where s: "ss = [a, y, b]" by (cases ss; cases "tl ss"; cases "tl (tl ss)") auto
  with t have "y = symbol_yes" by (simp add: sym_find_def)
  with t s i show ?thesis by auto
qed

end
