(* ===== verification/Kc_Conf.thy ===== *)
theory Kc_Conf
  imports Kc_Hash
begin

text \<open>
  The configuration file: the escaping of strings in symbol.c, and of confdata.c the printers of
  symbols, the parser of a line and \<open>conf_read_simple\<close>. \<open>CONFIG_\<close>, the prefix of the names, is the
  argument \<open>pre\<close>; strings have no NUL.
\<close>

section \<open>Escaping\<close>

definition plain_char :: "char \<Rightarrow> bool" where
  "plain_char c \<longleftrightarrow> c \<noteq> CHR 0x22 \<and> c \<noteq> CHR 0x5C"

text \<open>The first loop of \<open>sym_escape_string_value\<close>, which counts, and the second, which writes.\<close>

function escape_len :: "string \<Rightarrow> nat \<Rightarrow> nat" where
  "escape_len p reslen = (case dropWhile plain_char p of [] \<Rightarrow> reslen | c # r \<Rightarrow> escape_len r (Suc reslen))"
  by pat_completeness auto

function escape_loop :: "string \<Rightarrow> string \<Rightarrow> string" where
  "escape_loop p res =
     (case dropWhile plain_char p of
        [] \<Rightarrow> res @ takeWhile plain_char p
      | c # r \<Rightarrow> escape_loop r (res @ takeWhile plain_char p @ [CHR 0x5C, c]))"
  by pat_completeness auto

lemma dropWhile_shorter: "dropWhile P p = c # r \<Longrightarrow> length r < length p"
  using length_dropWhile_le[of P p] by simp

termination escape_len
  by (relation "measure (length \<circ> fst)") (auto dest: dropWhile_shorter)

termination escape_loop
  by (relation "measure (length \<circ> fst)") (auto dest: dropWhile_shorter)

declare escape_len.simps [simp del] escape_loop.simps [simp del]

definition escape_size :: "string \<Rightarrow> nat" where
  "escape_size s = escape_len s (length s + 2 + 1)"

definition sym_escape_string_value :: "string \<Rightarrow> string" where
  "sym_escape_string_value s = escape_loop s [CHR 0x22] @ [CHR 0x22]"

text \<open>
  The loop of \<open>conf_set_sym_val\<close> that removes the backslashes up to the closing quote; \<open>None\<close>
  without one. After a backslash at the end of the line the code reads past the string.
\<close>

fun unescape :: "string \<Rightarrow> string option" where
  "unescape [] = None"
| "unescape (c # r) =
     (if c = CHR 0x22 then Some []
      else if c = CHR 0x5C then (case r of [] \<Rightarrow> None | d # r' \<Rightarrow> map_option (Cons d) (unescape r'))
      else map_option (Cons c) (unescape r))"

text \<open>The escaping, character by character.\<close>

definition escape_char :: "char \<Rightarrow> string" where
  "escape_char c = (if plain_char c then [c] else [CHR 0x5C, c])"

lemma escape_plain: "list_all plain_char xs \<Longrightarrow> concat (map escape_char xs) = xs"
  by (induction xs) (auto simp: escape_char_def)

lemma escape_loop_concat: "escape_loop p res = res @ concat (map escape_char p)"
proof (induction p res rule: escape_loop.induct)
  case (1 p res)
  have t: "concat (map escape_char (takeWhile plain_char p)) = takeWhile plain_char p"
    by (rule escape_plain) (auto simp: list_all_iff dest: set_takeWhileD)
  show ?case
  proof (cases "dropWhile plain_char p")
    case Nil
    then have "takeWhile plain_char p = p" using takeWhile_dropWhile_id[of plain_char p] by simp
    with t show ?thesis unfolding escape_loop.simps[of p res] Nil by simp
  next
    case (Cons c r)
    then have p: "p = takeWhile plain_char p @ c # r" using takeWhile_dropWhile_id[of plain_char p] by simp
    have c: "\<not> plain_char c" using Cons hd_dropWhile[of plain_char p] by auto
    have "concat (map escape_char p) = takeWhile plain_char p @ [CHR 0x5C, c] @ concat (map escape_char r)"
      by (subst p) (simp add: t escape_char_def c)
    with Cons 1[OF Cons] show ?thesis by (subst escape_loop.simps) simp
  qed
qed

lemma escape_len_length: "escape_len p n + length p = n + length (concat (map escape_char p))"
proof (induction p n rule: escape_len.induct)
  case (1 p n)
  have t: "concat (map escape_char (takeWhile plain_char p)) = takeWhile plain_char p"
    by (rule escape_plain) (auto simp: list_all_iff dest: set_takeWhileD)
  show ?case
  proof (cases "dropWhile plain_char p")
    case Nil
    then have "takeWhile plain_char p = p" using takeWhile_dropWhile_id[of plain_char p] by simp
    with t show ?thesis unfolding escape_len.simps[of p n] Nil by simp
  next
    case (Cons c r)
    then have p: "p = takeWhile plain_char p @ c # r" using takeWhile_dropWhile_id[of plain_char p] by simp
    have c: "\<not> plain_char c" using Cons hd_dropWhile[of plain_char p] by auto
    have e: "length (concat (map escape_char p)) =
        length (takeWhile plain_char p) + 2 + length (concat (map escape_char r))"
      by (subst p) (simp add: t escape_char_def c)
    have l: "length p = length (takeWhile plain_char p) + 1 + length r" by (subst p) simp
    show ?thesis using 1[OF Cons] e l by (subst escape_len.simps) (simp add: Cons)
  qed
qed

lemma unescape_escape: "unescape (concat (map escape_char s) @ CHR 0x22 # r) = Some s"
  by (induction s) (auto simp: escape_char_def plain_char_def)

lemma escape_eq: "sym_escape_string_value s = CHR 0x22 # concat (map escape_char s) @ [CHR 0x22]"
  by (simp add: sym_escape_string_value_def escape_loop_concat)

text \<open>
  what \<open>sym_escape_string_value\<close> writes fills the buffer whose size its first loop has
  computed, up to the final NUL, and the parser of the configuration reads the string back.
\<close>

theorem escape_roundtrip:
  "escape_size s = length (sym_escape_string_value s) + 1 \<and>
   sym_escape_string_value s = CHR 0x22 # tl (sym_escape_string_value s) \<and>
   unescape (tl (sym_escape_string_value s)) = Some s"
  using escape_len_length[of s "length s + 2 + 1"] unescape_escape[of s "[]"]
  by (simp add: escape_size_def escape_eq)

end
