(* ===== verification/Kc_Valid.thy ===== *)
theory Kc_Valid
  imports Kc_Conf
begin

text \<open>
  The string values of symbol.c: which strings \<open>sym_string_valid\<close> admits for a type, the check of
  the range, \<open>sym_set_string_value\<close> and the string of the default.
\<close>

section \<open>Valid strings\<close>

text \<open>The branch for \<open>S_INT\<close>; a missing character is the NUL that ends the string.\<close>

definition int_valid :: "string \<Rightarrow> bool" where
  "int_valid str =
     (case (case str of c # r \<Rightarrow> if c = CHR ''-'' then r else str | [] \<Rightarrow> str) of
        [] \<Rightarrow> False
      | c # r \<Rightarrow> isdigit c \<and> \<not> (c = CHR ''0'' \<and> r \<noteq> []) \<and> list_all isdigit r)"

fun strip_0x :: "string \<Rightarrow> string" where
  "strip_0x (z # x # r) = (if z = CHR ''0'' \<and> (x = CHR ''x'' \<or> x = CHR ''X'') then r else z # x # r)"
| "strip_0x s = s"

definition hex_valid :: "string \<Rightarrow> bool" where
  "hex_valid str = (case strip_0x str of [] \<Rightarrow> False | c # r \<Rightarrow> isxdigit c \<and> list_all isxdigit r)"

fun tristate_char :: "string \<Rightarrow> tristate option" where
  "tristate_char [] = None"
| "tristate_char (c # r) =
     (if c = CHR ''y'' \<or> c = CHR ''Y'' then Some tri_yes
      else if c = CHR ''m'' \<or> c = CHR ''M'' then Some tri_mod
      else if c = CHR ''n'' \<or> c = CHR ''N'' then Some tri_no else None)"

fun sym_string_valid :: "symbol_type \<Rightarrow> string \<Rightarrow> bool" where
  "sym_string_valid S_STRING str = True"
| "sym_string_valid S_INT str = int_valid str"
| "sym_string_valid S_HEX str = hex_valid str"
| "sym_string_valid S_BOOLEAN str = (tristate_char str \<noteq> None)"
| "sym_string_valid S_TRISTATE str = (tristate_char str \<noteq> None)"
| "sym_string_valid S_UNKNOWN str = False"
| "sym_string_valid S_OTHER str = False"

definition within_bounds :: "nat \<Rightarrow> sym \<Rightarrow> nat \<Rightarrow> string \<Rightarrow> kstate \<Rightarrow> (bool \<times> kstate) option" where
  "within_bounds n s base str st = do {
     (prop, st1) \<leftarrow> sym_get_range_prop (sym_calc_value n) s st;
     case prop of
       None \<Rightarrow> Some (True, st1)
     | Some i \<Rightarrow>
         (case p_expr (s_prop (k_sym st1 s) ! i) of
            Some (PE_range lo hi) \<Rightarrow> do {
              let val = strtoll str base;
              (l, st2) \<leftarrow> sym_get_range_val (sym_calc_value n) lo base st1;
              if l \<le> val then do {
                (h, st3) \<leftarrow> sym_get_range_val (sym_calc_value n) hi base st2;
                Some (val \<le> h, st3) }
              else Some (False, st2) }
          | _ \<Rightarrow> Some (False, undefined_use st1)) }"

definition sym_string_within_range :: "nat \<Rightarrow> sym \<Rightarrow> string \<Rightarrow> kstate \<Rightarrow> (bool \<times> kstate) option" where
  "sym_string_within_range n s str st =
     (case s_type (k_sym st s) of
        S_STRING \<Rightarrow> Some (sym_string_valid S_STRING str, st)
      | S_INT \<Rightarrow> if \<not> sym_string_valid S_INT str then Some (False, st) else within_bounds n s 10 str st
      | S_HEX \<Rightarrow> if \<not> sym_string_valid S_HEX str then Some (False, st) else within_bounds n s 16 str st
      | S_BOOLEAN \<Rightarrow> Some ((case tristate_char str of Some t \<Rightarrow> sym_tristate_within_range st s t | None \<Rightarrow> False), st)
      | S_TRISTATE \<Rightarrow> Some ((case tristate_char str of Some t \<Rightarrow> sym_tristate_within_range st s t | None \<Rightarrow> False), st)
      | _ \<Rightarrow> Some (False, st))"

text \<open>The new string of the user; \<open>None\<close> when the old one is kept.\<close>

definition has_0x :: "string \<Rightarrow> bool" where
  "has_0x s \<longleftrightarrow> strip_0x s \<noteq> s"

definition stored_string :: "symbol_type \<Rightarrow> val \<Rightarrow> string \<Rightarrow> string option" where
  "stored_string t oldval newval =
     (if t = S_HEX \<and> \<not> has_0x newval then Some (''0x'' @ newval)
      else if oldval = VNull \<or> plain_string oldval \<noteq> newval then Some newval
      else None)"

definition sym_set_string_value :: "nat \<Rightarrow> sym \<Rightarrow> string \<Rightarrow> kstate \<Rightarrow> (bool \<times> kstate) option" where
  "sym_set_string_value n s newval st =
     (let t = s_type (k_sym st s) in
      if t = S_BOOLEAN \<or> t = S_TRISTATE then
        (case tristate_char newval of
           Some v \<Rightarrow> sym_set_tristate_value n s v st
         | None \<Rightarrow> Some (False, st))
      else do {
        (ok, st1) \<leftarrow> sym_string_within_range n s newval st;
        if \<not> ok then Some (False, st1)
        else
          let st2 = mark_user_value s st1 in
          (case stored_string t (sv_val (s_def_user (k_sym st2 s))) newval of
             None \<Rightarrow> Some (True, st2)
           | Some str \<Rightarrow> do {
               st3 \<leftarrow> sym_clear_all_valid n
                 ((upd s (\<lambda>y. y\<lparr>s_def_user := (s_def_user y)\<lparr>sv_val := VStr (k_fresh st2) str\<rparr>\<rparr>) st2)
                  \<lparr>k_fresh := Suc (k_fresh st2)\<rparr>);
               Some (True, st3) }) })"

text \<open>The value of the default, as a truth value and as a string.\<close>

definition default_values :: "nat \<Rightarrow> sym \<Rightarrow> symbol_type \<Rightarrow> nat option \<Rightarrow> kstate \<Rightarrow> (tristate \<times> val \<times> kstate) option" where
  "default_values n s t prop st =
     (case prop of
        None \<Rightarrow> Some (sv_tri (s_curr (k_sym st symbol_no)), sv_val (s_curr (k_sym st symbol_empty)), st)
      | Some i \<Rightarrow>
          if t = S_BOOLEAN \<or> t = S_TRISTATE then do {
            (v, st1) \<leftarrow> calc_default_value (sym_calc_value n) s i st;
            Some (v, sv_val (s_curr (k_sym st1 symbol_empty)), st1) }
          else
            (case prop_get_symbol (s_prop (k_sym st s) ! i) of
               None \<Rightarrow> Some (tri_no, sv_val (s_curr (k_sym st symbol_empty)), st)
             | Some ds \<Rightarrow> do {
                 st1 \<leftarrow> sym_calc_value n ds st;
                 Some (tri_no, sv_val (s_curr (k_sym st1 ds)), st1) }))"

definition sym_get_string_default :: "nat \<Rightarrow> sym \<Rightarrow> kstate \<Rightarrow> (string \<times> kstate) option" where
  "sym_get_string_default n s st = do {
     let calc = sym_calc_value n;
     st1 \<leftarrow> sym_calc_visibility calc s st;
     st2 \<leftarrow> calc (k_modules st1) st1;
     let t = s_type (k_sym st2 s);
     (prop, st3) \<leftarrow> sym_get_default_prop calc s st2;
     (val, str, st4) \<leftarrow> default_values n s t prop st3;
     let v1 = EXPR_OR val (ev_tri (s_rev_dep (k_sym st4 s)));
     let v2 = mod_to_yes (\<not> sym_is_choice_value (k_sym st4 s) \<and>
                sv_tri (s_curr (k_sym st4 (k_modules st4))) = tri_no) v1;
     let v3 = mod_to_yes (t = S_BOOLEAN) v2;
     Some (if t = S_BOOLEAN \<or> t = S_TRISTATE then (tri_name v3, st4)
           else if t = S_INT \<or> t = S_HEX \<or> t = S_STRING then c_string str st4
           else ('''', st4)) }"

section \<open>What is valid\<close>

lemma isdigit_digit_char: "isdigit c \<longleftrightarrow> (\<exists>d < 10. c = digit_char d)"
proof
  assume c: "isdigit c"
  then have "digit_char (code c - 48) = char_of (code c)"
    by (auto simp: isdigit_def digit_char_def)
  then have "c = digit_char (code c - 48)" by (simp add: code_def)
  with c show "\<exists>d < 10. c = digit_char d" by (intro exI[of _ "code c - 48"]) (auto simp: isdigit_def)
qed (auto simp: isdigit_def digit_char_code)

lemma digit_char_zero [simp]: "digit_char 0 = CHR ''0''"
  by code_simp

lemma digit_char_0: "d < 10 \<Longrightarrow> digit_char d = CHR ''0'' \<longleftrightarrow> d = 0"
proof
  assume "digit_char d = CHR ''0''" "d < 10"
  then have "code (digit_char d) = 48" by (simp add: code_def)
  with \<open>d < 10\<close> show "d = 0" by (simp add: digit_char_code)
qed simp

text \<open>A number without superfluous zeros is the print of its value.\<close>

lemma digits_nat_str:
  "list_all isdigit s \<Longrightarrow> s \<noteq> [] \<Longrightarrow> hd s \<noteq> CHR ''0'' \<or> tl s = [] \<Longrightarrow> \<exists>n. s = nat_str 10 n"
proof (induction s rule: rev_induct)
  case (snoc c s)
  obtain d where d: "c = digit_char d" "d < 10" using snoc.prems(1) by (auto simp: isdigit_digit_char)
  show ?case
  proof (cases "s = []")
    case True
    then show ?thesis using d by (intro exI[of _ d]) (simp add: nat_str.simps)
  next
    case False
    then have h: "hd s \<noteq> CHR ''0''" using snoc.prems(3) by (cases s) auto
    with snoc.IH snoc.prems(1) False obtain n where n: "s = nat_str 10 n" by auto
    have "n \<noteq> 0"
    proof
      assume "n = 0"
      then have "hd s = digit_char 0" by (simp add: n nat_str.simps)
      with h show False by (simp add: digit_char_0)
    qed
    then have "s @ [c] = nat_str 10 (n * 10 + d)"
      using d n by (subst nat_str.simps) simp
    then show ?thesis by blast
  qed
qed simp

lemma nat_str_head_nonzero: "nat_str 10 n = digit_char 0 # r \<Longrightarrow> n = 0 \<and> r = []"
proof (induction n arbitrary: r rule: less_induct)
  case (less n)
  show ?case
  proof (cases "n < 10")
    case True
    then show ?thesis using less.prems digit_char_0[of n] by (simp add: nat_str.simps)
  next
    case False
    then obtain q where q: "nat_str 10 (n div 10) = digit_char 0 # q"
      using less.prems nat_str_head[of 10 "n div 10"] by (auto simp: nat_str.simps[of 10 n])
    have "n div 10 < n" "n div 10 \<noteq> 0" using False by auto
    with less.IH[OF this(1) q] show ?thesis by simp
  qed
qed

lemma int_digits_iff:
  "(case s of [] \<Rightarrow> False | c # r \<Rightarrow> isdigit c \<and> \<not> (c = CHR ''0'' \<and> r \<noteq> []) \<and> list_all isdigit r) \<longleftrightarrow>
     (\<exists>n. s = nat_str 10 n)"
proof
  assume "case s of [] \<Rightarrow> False | c # r \<Rightarrow> isdigit c \<and> \<not> (c = CHR ''0'' \<and> r \<noteq> []) \<and> list_all isdigit r"
  then show "\<exists>n. s = nat_str 10 n" by (intro digits_nat_str) (auto split: list.splits)
next
  assume "\<exists>n. s = nat_str 10 n"
  then obtain n where n: "s = nat_str 10 n" ..
  obtain d cs where h: "nat_str 10 n = digit_char d # cs" "d < 10" using nat_str_head[of 10 n] by auto
  have "digit_of 10 c \<noteq> None \<Longrightarrow> isdigit c" for c
    by (auto simp: digit_of_def isdigit_def Let_def split: if_splits)
  then have l: "list_all isdigit (nat_str 10 n)"
    using nat_str_digits[of 10 n] by (auto simp: list_all_iff)
  have "cs = []" if "digit_char d = CHR ''0''"
    using nat_str_head_nonzero[of n cs] h that digit_char_0[of d] by simp
  with h l n show "case s of [] \<Rightarrow> False | c # r \<Rightarrow> isdigit c \<and> \<not> (c = CHR ''0'' \<and> r \<noteq> []) \<and> list_all isdigit r"
    by auto
qed

lemma nat_str_not_minus: "nat_str 10 n \<noteq> CHR ''-'' # r"
proof -
  obtain d cs where "nat_str 10 n = digit_char d # cs" "d < 10" using nat_str_head[of 10 n] by auto
  then show ?thesis using digit_char_neutral(2)[of d] by auto
qed

text \<open>
  the strings that an int symbol admits are exactly the decimal numbers without superfluous
  zeros, with or without a minus sign, and \<open>strtoll\<close> reads every one of them as the number it
  shows, up to the saturation at 64 bits.
\<close>

theorem int_valid_correct:
  "(int_valid s \<longleftrightarrow> (\<exists>n. s = nat_str 10 n) \<or> (\<exists>n. s = CHR ''-'' # nat_str 10 n)) \<and>
   strtoll (nat_str 10 n) 10 = clamp_ll (int n) \<and> strtoll (CHR ''-'' # nat_str 10 n) 10 = clamp_ll (- int n)"
proof -
  have v: "digits_val 10 (nat_str 10 n) 0 = n" by (rule digits_val_nat_str) auto
  obtain d cs where h: "nat_str 10 n = digit_char d # cs" "d < 10" using nat_str_head[of 10 n] by auto
  have m: "\<not> isspace (CHR ''-'')" by (simp add: isspace_def code_def)
  have "int_valid s \<longleftrightarrow> (\<exists>n. s = nat_str 10 n) \<or> (\<exists>n. s = CHR ''-'' # nat_str 10 n)"
  proof (cases "\<exists>r. s = CHR ''-'' # r")
    case True
    then obtain r where r: "s = CHR ''-'' # r" by blast
    have n: "s \<noteq> nat_str 10 n" for n using nat_str_not_minus[of n r] r by simp
    have "int_valid s \<longleftrightarrow> (\<exists>n. r = nat_str 10 n)"
      unfolding int_valid_def r by (simp only: list.case if_True simp_thms int_digits_iff)
    with n r show ?thesis by simp
  next
    case False
    then have "(case s of c # r \<Rightarrow> if c = CHR ''-'' then r else s | [] \<Rightarrow> s) = s" by (cases s) auto
    with False show ?thesis unfolding int_valid_def by (simp only: int_digits_iff) auto
  qed
  moreover have "strtoll (nat_str 10 n) 10 = clamp_ll (int n)"
    using v h digit_char_neutral[of d] by (simp add: strtoll_def Let_def)
  moreover have "strtoll (CHR ''-'' # nat_str 10 n) 10 = clamp_ll (- int n)"
    using v m by (simp add: strtoll_def Let_def)
  ultimately show ?thesis by blast
qed

lemma isxdigit_plain: "isxdigit c \<Longrightarrow> \<not> isspace c \<and> c \<noteq> CHR ''-'' \<and> c \<noteq> CHR ''+''"
proof -
  assume "isxdigit c"
  then have "48 \<le> code c" by (auto simp: isxdigit_def isdigit_def)
  moreover have "code (CHR ''-'') = 45" "code (CHR ''+'') = 43" by (simp_all add: code_def)
  ultimately show ?thesis by (auto simp: isspace_def)
qed

lemma skip_no_0x: "\<not> has_0x s \<Longrightarrow> skip_0x s = s"
  by (induction s rule: skip_0x.induct) (auto simp: has_0x_def split: if_splits)

lemma hex_valid_plain: "hex_valid s \<Longrightarrow> \<not> has_0x s \<Longrightarrow> \<exists>c r. s = c # r \<and> isxdigit c"
  by (auto simp: hex_valid_def has_0x_def split: list.splits)

text \<open>
  the string that is stored for a hex symbol starts with 0x, is valid again, and has the
  value of the string that the user gave; for the other types it is that string.
\<close>

theorem stored_string_correct:
  assumes "sym_string_valid t newval" and "stored_string t oldval newval = Some s"
  shows "sym_string_valid t s \<and> strtoll s 16 = strtoll newval 16 \<and>
    (if t = S_HEX then has_0x s else s = newval)"
proof (cases "t = S_HEX \<and> \<not> has_0x newval")
  case True
  then have s: "s = ''0x'' @ newval" using assms(2) by (simp add: stored_string_def)
  from True assms(1) obtain c r where c: "newval = c # r" "isxdigit c"
    using hex_valid_plain[of newval] by auto
  have z: "\<not> isspace (CHR ''0'')" by (simp add: isspace_def code_def)
  have v: "hex_valid newval" using True assms(1) by simp
  have st: "strip_0x newval = newval" using True by (simp add: has_0x_def)
  have "has_0x s" by (simp add: s has_0x_def)
  moreover have "hex_valid s" using v st by (simp add: s hex_valid_def)
  moreover have "strtoll s 16 = strtoll newval 16"
    using True c z isxdigit_plain[OF c(2)] skip_no_0x[of newval] by (simp add: s strtoll_def Let_def)
  ultimately show ?thesis using True by simp
next
  case False
  with assms show ?thesis by (auto simp: stored_string_def split: if_splits)
qed

theorem stored_string_correct_witness:
  "sym_string_valid S_HEX ''1f'' \<and> stored_string S_HEX VNull ''1f'' = Some ''0x1f'' \<and>
   has_0x ''0x1f'' \<and> strtoll ''0x1f'' 16 = strtoll ''1f'' 16"
proof -
  have v: "sym_string_valid S_HEX ''1f''"
    by (simp add: hex_valid_def isxdigit_def isdigit_def code_def)
  have s: "stored_string S_HEX VNull ''1f'' = Some ''0x1f''"
    by (simp add: stored_string_def has_0x_def)
  from stored_string_correct[OF v s] v s show ?thesis by simp
qed

end
