(* ===== verification/Kc_ConfFile.thy ===== *)
theory Kc_ConfFile
  imports Kc_Valid
begin

text \<open>
  Reading and writing the configuration file in confdata.c: the lines, what a line does to the
  symbol table, the printers, and the round trip of a printed symbol.
\<close>

section \<open>State\<close>

record conf =
  c_st :: kstate
  c_lineno :: nat
  c_warnings :: nat
  c_unsaved :: nat

datatype def_index = S_DEF_USER | S_DEF_AUTO

definition get_def :: "def_index \<Rightarrow> symbol \<Rightarrow> symbol_value" where
  "get_def d y = (if d = S_DEF_USER then s_def_user y else s_def_auto y)"

definition set_def :: "def_index \<Rightarrow> symbol_value \<Rightarrow> symbol \<Rightarrow> symbol" where
  "set_def d v y = (if d = S_DEF_USER then y\<lparr>s_def_user := v\<rparr> else y\<lparr>s_def_auto := v\<rparr>)"

definition def_flags :: "def_index \<Rightarrow> u32" where
  "def_flags d = (if d = S_DEF_USER then SYMBOL_DEF_USER else SYMBOL_DEF_AUTO)"

definition set_def_tri :: "def_index \<Rightarrow> tristate \<Rightarrow> symbol \<Rightarrow> symbol" where
  "set_def_tri d t y = set_def d ((get_def d y)\<lparr>sv_tri := t\<rparr>) y"

definition set_def_val :: "def_index \<Rightarrow> val \<Rightarrow> symbol \<Rightarrow> symbol" where
  "set_def_val d v y = set_def d ((get_def d y)\<lparr>sv_val := v\<rparr>) y"

definition with_st :: "(kstate \<Rightarrow> kstate) \<Rightarrow> conf \<Rightarrow> conf" where
  "with_st f c = c\<lparr>c_st := f (c_st c)\<rparr>"

definition conf_warning :: "conf \<Rightarrow> conf" where
  "conf_warning c = c\<lparr>c_warnings := Suc (c_warnings c)\<rparr>"

text \<open>A warning that is not given for \<open>S_DEF_AUTO\<close>.\<close>

definition user_warning :: "def_index \<Rightarrow> conf \<Rightarrow> conf" where
  "user_warning d c = (if d \<noteq> S_DEF_AUTO then conf_warning c else c)"

section \<open>The value of a line\<close>

text \<open>The result is True where the code returns 1, the value being invalid.\<close>

definition store_tri :: "def_index \<Rightarrow> sym \<Rightarrow> tristate \<Rightarrow> conf \<Rightarrow> conf" where
  "store_tri d s t = with_st (upd s (set_flags (def_flags d) \<circ> set_def_tri d t))"

text \<open>The code after the label \<open>done\<close>.\<close>

definition store_string :: "def_index \<Rightarrow> sym \<Rightarrow> string \<Rightarrow> conf \<Rightarrow> bool \<times> conf" where
  "store_string d s p c =
     (if sym_string_valid (s_type (k_sym (c_st c) s)) p
      then (False, with_st (\<lambda>st. (upd s (set_flags (def_flags d) \<circ> set_def_val d (VStr (k_fresh st) p)) st)
                                  \<lparr>k_fresh := Suc (k_fresh st)\<rparr>) c)
      else (True, user_warning d c))"

definition conf_set_boolean :: "def_index \<Rightarrow> sym \<Rightarrow> string \<Rightarrow> conf \<Rightarrow> bool \<times> conf" where
  "conf_set_boolean d s p c =
     (case p of
        ch # _ \<Rightarrow> if ch = CHR ''y'' then (False, store_tri d s tri_yes c)
                  else if ch = CHR ''n'' then (False, store_tri d s tri_no c)
                  else (True, user_warning d c)
      | [] \<Rightarrow> (True, user_warning d c))"

definition conf_set_quoted :: "def_index \<Rightarrow> sym \<Rightarrow> string \<Rightarrow> conf \<Rightarrow> bool \<times> conf" where
  "conf_set_quoted d s p c =
     (case p of
        ch # r \<Rightarrow> if ch \<noteq> CHR 0x22 then (False, c)
                  else (case unescape r of
                          None \<Rightarrow> (True, user_warning d c)
                        | Some str \<Rightarrow> store_string d s str c)
      | [] \<Rightarrow> (False, c))"

definition conf_set_sym_val :: "def_index \<Rightarrow> sym \<Rightarrow> string \<Rightarrow> conf \<Rightarrow> bool \<times> conf" where
  "conf_set_sym_val d s p c =
     (case s_type (k_sym (c_st c) s) of
        S_TRISTATE \<Rightarrow> (case p of
            ch # _ \<Rightarrow> if ch = CHR ''m'' then (False, store_tri d s tri_mod c) else conf_set_boolean d s p c
          | [] \<Rightarrow> conf_set_boolean d s p c)
      | S_BOOLEAN \<Rightarrow> conf_set_boolean d s p c
      | S_OTHER \<Rightarrow>
          if p = [] \<or> hd p \<noteq> CHR 0x22
          then store_string d s p (with_st (upd s (\<lambda>y. y\<lparr>s_type := S_STRING\<rparr>)) c)
          else conf_set_quoted d s p c
      | S_STRING \<Rightarrow> conf_set_quoted d s p c
      | S_INT \<Rightarrow> store_string d s p c
      | S_HEX \<Rightarrow> store_string d s p c
      | S_UNKNOWN \<Rightarrow> (False, c))"

section \<open>Lines\<close>

text \<open>\<open>compat_getline\<close>: the next line with its newline, and the rest; \<open>None\<close> at the end of the file.\<close>

fun compat_getline :: "string \<Rightarrow> (string \<times> string) option" where
  "compat_getline [] = None"
| "compat_getline (c # cs) =
     (if c = CHR 0x0A then Some ([c], cs)
      else (case compat_getline cs of None \<Rightarrow> Some ([c], []) | Some (l, r) \<Rightarrow> Some (c # l, r)))"

text \<open>\<open>strchr(s, ch)\<close>, with the text before and the text after the character.\<close>

fun split_at :: "char \<Rightarrow> string \<Rightarrow> (string \<times> string) option" where
  "split_at ch [] = None"
| "split_at ch (c # cs) =
     (if c = ch then Some ([], cs)
      else (case split_at ch cs of None \<Rightarrow> None | Some (a, b) \<Rightarrow> Some (c # a, b)))"

text \<open>The value without the newline and without a carriage return before it.\<close>

definition cut_line_end :: "string \<Rightarrow> string" where
  "cut_line_end p =
     (case split_at CHR 0x0A p of
        None \<Rightarrow> p
      | Some (v, _) \<Rightarrow> if v \<noteq> [] \<and> last v = CHR 0x0D then butlast v else v)"

text \<open>
  The symbol of a line: \<open>None\<close> if the user's file names an unknown symbol. For auto.conf the
  symbol is created, with the type \<open>t\<close> if it has none.
\<close>

definition line_symbol :: "def_index \<Rightarrow> string \<Rightarrow> symbol_type \<Rightarrow> conf \<Rightarrow> sym option \<times> conf" where
  "line_symbol d name t c =
     (if d = S_DEF_USER then
        (case sym_find name (c_st c) of
           None \<Rightarrow> (None, with_st (sym_add_change_count 1) c)
         | Some s \<Rightarrow> (Some s, c))
      else
        (case sym_lookup (Some name) 0 (c_st c) of (s, st) \<Rightarrow>
           (Some s, c\<lparr>c_st := (if s_type (k_sym st s) = S_UNKNOWN then upd s (\<lambda>y. y\<lparr>s_type := t\<rparr>) st else st)\<rparr>)))"

definition warn_override :: "def_index \<Rightarrow> sym \<Rightarrow> conf \<Rightarrow> conf" where
  "warn_override d s c = (if has_flag (k_sym (c_st c) s) (def_flags d) then conf_warning c else c)"

text \<open>The code after the label \<open>setsym\<close>: what a choice value does to its choice.\<close>

definition setsym :: "def_index \<Rightarrow> sym option \<Rightarrow> conf \<Rightarrow> conf" where
  "setsym d s c =
     (case s of None \<Rightarrow> c
      | Some s \<Rightarrow>
          if \<not> sym_is_choice_value (k_sym (c_st c) s) then c
          else (case choice_of (k_sym (c_st c) s) of
                  None \<Rightarrow> with_st undefined_use c
                | Some cs \<Rightarrow>
                    let t = sv_tri (get_def d (k_sym (c_st c) s));
                        ct = sv_tri (get_def d (k_sym (c_st c) cs));
                        c1 = (case t of
                                tri_no \<Rightarrow> c
                              | tri_mod \<Rightarrow>
                                  if ct = tri_yes
                                  then with_st (upd cs (clear_flags (def_flags d))) (conf_warning c) else c
                              | tri_yes \<Rightarrow>
                                  with_st (upd cs (set_def_val d (VSym s)))
                                    (if ct \<noteq> tri_no then conf_warning c else c))
                    in with_st (\<lambda>st. upd cs (set_def_tri d
                          (EXPR_OR (sv_tri (get_def d (k_sym st cs))) (sv_tri (get_def d (k_sym st s))))) st) c1))"

text \<open>A comment; only \<open># NAME is not set\<close> counts.\<close>

definition read_unset :: "string \<Rightarrow> def_index \<Rightarrow> string \<Rightarrow> conf \<Rightarrow> conf" where
  "read_unset pre d line c =
     (let c = (if length line < 2 then with_st undefined_use c else c); rest = drop 2 line in
      if \<not> starts_with rest pre then c
      else (case split_at CHR '' '' (drop (length pre) rest) of
              None \<Rightarrow> c
            | Some (name, p) \<Rightarrow>
                if \<not> starts_with p ''is not set'' then c
                else (case line_symbol d name S_BOOLEAN c of
                        (None, c1) \<Rightarrow> setsym d None c1
                      | (Some s, c1) \<Rightarrow>
                          let c2 = warn_override d s c1; t = s_type (k_sym (c_st c2) s);
                              c3 = (if t = S_BOOLEAN \<or> t = S_TRISTATE then store_tri d s tri_no c2 else c2)
                          in setsym d (Some s) c3)))"

definition read_assignment :: "string \<Rightarrow> def_index \<Rightarrow> string \<Rightarrow> conf \<Rightarrow> conf" where
  "read_assignment pre d line c =
     (case split_at CHR ''='' (drop (length pre) line) of
        None \<Rightarrow> c
      | Some (name, p) \<Rightarrow>
          (case line_symbol d name S_OTHER c of
             (None, c1) \<Rightarrow> setsym d None c1
           | (Some s, c1) \<Rightarrow>
               (case conf_set_sym_val d s (cut_line_end p) (warn_override d s c1) of
                  (invalid, c2) \<Rightarrow> if invalid then c2 else setsym d (Some s) c2)))"

definition read_line :: "string \<Rightarrow> def_index \<Rightarrow> string \<Rightarrow> conf \<Rightarrow> conf" where
  "read_line pre d line c0 =
     (let c = c0\<lparr>c_lineno := Suc (c_lineno c0)\<rparr> in
      case line of
        ch # _ \<Rightarrow>
          if ch = CHR ''#'' then read_unset pre d line c
          else if starts_with line pre then read_assignment pre d line c
          else if ch \<noteq> CHR 0x0D \<and> ch \<noteq> CHR 0x0A then conf_warning c else c
      | [] \<Rightarrow> c)"

lemma getline_shorter: "compat_getline s = Some (l, r) \<Longrightarrow> length r < length s"
proof (induction s arbitrary: l r)
  case (Cons c s)
  then show ?case by (cases "compat_getline s") (auto split: if_splits intro: less_SucI)
qed simp

function read_lines :: "string \<Rightarrow> def_index \<Rightarrow> string \<Rightarrow> conf \<Rightarrow> conf" where
  "read_lines pre d file c =
     (case compat_getline file of None \<Rightarrow> c | Some (l, r) \<Rightarrow> read_lines pre d r (read_line pre d l c))"
  by pat_completeness auto
termination read_lines
  by (relation "measure (\<lambda>(pre, d, file, c). length file)") (auto dest: getline_shorter)

declare read_lines.simps [simp del]

text \<open>
  \<open>conf_read_simple\<close> from the label \<open>load\<close> on, for a file that could be opened with the given
  contents.
\<close>

definition reset_symbol :: "def_index \<Rightarrow> symbol \<Rightarrow> symbol" where
  "reset_symbol d y =
     (let y1 = clear_flags (def_flags d OR SYMBOL_VALID) (set_flags SYMBOL_CHANGED y);
          y2 = (if sym_is_choice y1 then set_flags (def_flags d) y1 else y1)
      in set_def d \<lparr>sv_val = VNull, sv_tri = tri_no\<rparr> y2)"

definition load_config :: "nat \<Rightarrow> string \<Rightarrow> def_index \<Rightarrow> string \<Rightarrow> conf \<Rightarrow> conf option" where
  "load_config n pre d file c = do {
     let st1 = fold (\<lambda>s. upd s (reset_symbol d)) (for_all_symbols (c_st c)) (c_st c);
     let c1 = read_lines pre d file \<lparr>c_st = st1, c_lineno = 0, c_warnings = 0, c_unsaved = 0\<rparr>;
     st2 \<leftarrow> sym_calc_value n (k_modules (c_st c1)) (c_st c1);
     Some (c1\<lparr>c_st := st2\<rparr>) }"

section \<open>Writing\<close>

definition newline :: string where "newline = [CHR 0x0A]"

fun is_boolean_type :: "symbol_type \<Rightarrow> bool" where
  "is_boolean_type t = (t = S_BOOLEAN \<or> t = S_TRISTATE)"

text \<open>A symbol without a name is printed by \<open>%s\<close> of NULL; only choices have none and none is printed.\<close>

definition sym_name :: "symbol \<Rightarrow> string" where
  "sym_name y = (case s_name y of Some n \<Rightarrow> n | None \<Rightarrow> ''(null)'')"

text \<open>The argument \<open>skip_unset\<close> is \<open>arg != NULL\<close>.\<close>

definition kconfig_print_symbol :: "string \<Rightarrow> symbol \<Rightarrow> string \<Rightarrow> bool \<Rightarrow> string" where
  "kconfig_print_symbol pre y value skip_unset =
     (if is_boolean_type (s_type y) \<and> value \<noteq> [] \<and> hd value = CHR ''n''
      then (if skip_unset then [] else ''# '' @ pre @ sym_name y @ '' is not set'' @ newline)
      else pre @ sym_name y @ ''='' @ value @ newline)"

definition header_print_symbol :: "string \<Rightarrow> symbol \<Rightarrow> string \<Rightarrow> string" where
  "header_print_symbol pre y value =
     (let start = ''#define '' @ pre @ sym_name y in
      case s_type y of
        S_BOOLEAN \<Rightarrow> (case value of c # _ \<Rightarrow>
            if c = CHR ''n'' then [] else if c = CHR ''m'' then start @ ''_MODULE 1'' @ newline else start @ '' 1'' @ newline
          | [] \<Rightarrow> start @ '' 1'' @ newline)
      | S_TRISTATE \<Rightarrow> (case value of c # _ \<Rightarrow>
            if c = CHR ''n'' then [] else if c = CHR ''m'' then start @ ''_MODULE 1'' @ newline else start @ '' 1'' @ newline
          | [] \<Rightarrow> start @ '' 1'' @ newline)
      | S_HEX \<Rightarrow> start @ '' '' @ (if has_0x value then [] else ''0x'') @ value @ newline
      | S_STRING \<Rightarrow> start @ '' '' @ value @ newline
      | S_INT \<Rightarrow> start @ '' '' @ value @ newline
      | _ \<Rightarrow> [])"

definition to_upper :: "char \<Rightarrow> char" where
  "to_upper c = (if 97 \<le> code c \<and> code c \<le> 122 then char_of (code c - 32) else c)"

definition tristate_print_symbol :: "string \<Rightarrow> symbol \<Rightarrow> string \<Rightarrow> string" where
  "tristate_print_symbol pre y value =
     (if s_type y = S_TRISTATE \<and> value \<noteq> [] \<and> hd value \<noteq> CHR ''n''
      then pre @ sym_name y @ ''='' @ [to_upper (hd value)] @ newline else [])"

text \<open>The comment printers: every line of the text gets the mark \<open>m\<close>.\<close>

function comment_lines :: "string \<Rightarrow> string \<Rightarrow> string" where
  "comment_lines m p =
     (let l = takeWhile (\<lambda>c. c \<noteq> CHR 0x0A) p;
          line = m @ (if l \<noteq> [] then '' '' @ l else []) @ newline
      in case dropWhile (\<lambda>c. c \<noteq> CHR 0x0A) p of [] \<Rightarrow> line | c # r \<Rightarrow> line @ comment_lines m r)"
  by pat_completeness auto
termination comment_lines
  by (relation "measure (length \<circ> snd)") (auto dest: dropWhile_shorter)

definition kconfig_print_comment :: "string \<Rightarrow> string" where
  "kconfig_print_comment value = comment_lines ''#'' value"

definition header_print_comment :: "string \<Rightarrow> string" where
  "header_print_comment value = ''/*'' @ newline @ comment_lines '' *'' value @ '' */'' @ newline"

text \<open>\<open>conf_write_symbol\<close> with the printer as an argument.\<close>

definition conf_write_symbol ::
    "nat \<Rightarrow> (symbol \<Rightarrow> string \<Rightarrow> string) \<Rightarrow> sym \<Rightarrow> kstate \<Rightarrow> (string \<times> kstate) option" where
  "conf_write_symbol n print s st =
     (let t = s_type (k_sym st s) in
      if t = S_OTHER \<or> t = S_UNKNOWN then Some ([], st)
      else do {
        (str, st1) \<leftarrow> sym_get_string_value (sym_calc_value n) s st;
        Some (print (k_sym st1 s) (if t = S_STRING then sym_escape_string_value str else str), st1) })"

section \<open>Round trip\<close>

lemma split_at_append: "ch \<notin> set a \<Longrightarrow> split_at ch (a @ ch # b) = Some (a, b)"
  by (induction a) auto

lemma split_at_none: "ch \<notin> set a \<Longrightarrow> split_at ch a = None"
  by (induction a) auto

text \<open>A printed value: without newline and not ending in a carriage return.\<close>

lemma cut_line_end_value:
  assumes "CHR 0x0A \<notin> set v" and "v = [] \<or> last v \<noteq> CHR 0x0D"
  shows "cut_line_end (v @ newline) = v"
  using assms split_at_append[OF assms(1), of "[]"] by (auto simp: cut_line_end_def newline_def)

text \<open>The names of config symbols.\<close>

definition name_ok :: "string \<Rightarrow> bool" where
  "name_ok n \<longleftrightarrow> n \<noteq> [] \<and> list_all (\<lambda>c. isalnum c \<or> c = CHR ''_'') n"

lemma name_char: "isalnum c \<or> c = CHR ''_'' \<Longrightarrow> c \<noteq> CHR ''='' \<and> c \<noteq> CHR '' '' \<and> c \<noteq> CHR ''#'' \<and> c \<noteq> CHR 0x0A"
  by (auto simp: isalnum_def isdigit_def code_def)

lemma name_ok_chars:
  assumes "name_ok n"
  shows "CHR ''='' \<notin> set n" "CHR '' '' \<notin> set n" "hd n \<noteq> CHR ''#''"
proof -
  have c: "c \<noteq> CHR ''='' \<and> c \<noteq> CHR '' '' \<and> c \<noteq> CHR ''#''" if "c \<in> set n" for c
    using assms that name_char by (auto simp: name_ok_def list_all_iff)
  then show "CHR ''='' \<notin> set n" "CHR '' '' \<notin> set n" "hd n \<noteq> CHR ''#''"
    using assms by (auto simp: name_ok_def)
qed

text \<open>The state in which the line is read: what the assignment does to the symbol itself.\<close>

definition user_state :: "sym \<Rightarrow> conf \<Rightarrow> conf" where
  "user_state s c = warn_override S_DEF_USER s (c\<lparr>c_lineno := Suc (c_lineno c)\<rparr>)"

lemma read_assignment_line:
  assumes n: "name_ok n" and f: "sym_find n (c_st c) = Some s" and pre: "pre = [] \<or> hd pre \<noteq> CHR ''#''"
    and v: "CHR 0x0A \<notin> set v" "v = [] \<or> last v \<noteq> CHR 0x0D"
  shows "read_line pre S_DEF_USER (pre @ n @ ''='' @ v @ newline) c =
    (case conf_set_sym_val S_DEF_USER s v (user_state s c) of
       (invalid, c2) \<Rightarrow> if invalid then c2 else setsym S_DEF_USER (Some s) c2)"
proof -
  let ?line = "pre @ n @ ''='' @ v @ newline"
  obtain ch r where l: "?line = ch # r" "ch \<noteq> CHR ''#''"
    using pre name_ok_chars(3)[OF n] n by (cases pre; cases n) (auto simp: name_ok_def)
  have sp: "split_at CHR ''='' (drop (length pre) ?line) = Some (n, v @ newline)"
    using split_at_append[OF name_ok_chars(1)[OF n], of "v @ newline"] by simp
  have "read_line pre S_DEF_USER ?line c = read_assignment pre S_DEF_USER ?line (c\<lparr>c_lineno := Suc (c_lineno c)\<rparr>)"
    using l starts_with_append[of pre "n @ ''='' @ v @ newline"] by (simp add: read_line_def)
  also have "\<dots> = (case conf_set_sym_val S_DEF_USER s v (user_state s c) of
       (invalid, c2) \<Rightarrow> if invalid then c2 else setsym S_DEF_USER (Some s) c2)"
    using sp f by (simp add: read_assignment_def line_symbol_def cut_line_end_value[OF v] user_state_def)
  finally show ?thesis .
qed

lemma read_unset_line:
  assumes n: "name_ok n" and f: "sym_find n (c_st c) = Some s" and t: "is_boolean_type (s_type (k_sym (c_st c) s))"
  shows "read_line pre S_DEF_USER (''# '' @ pre @ n @ '' is not set'' @ newline) c =
    setsym S_DEF_USER (Some s) (store_tri S_DEF_USER s tri_no (user_state s c))"
proof -
  have sp: "split_at CHR '' '' (n @ CHR '' '' # ''is not set'' @ newline) = Some (n, ''is not set'' @ newline)"
    by (rule split_at_append[OF name_ok_chars(2)[OF n]])
  have st: "c_st (warn_override S_DEF_USER s x) = c_st x" for x
    by (simp add: warn_override_def conf_warning_def)
  show ?thesis
    using sp f t by (simp add: read_line_def read_unset_def line_symbol_def Let_def user_state_def st)
qed

lemma user_state_st [simp]: "c_st (user_state s c) = c_st c"
  by (simp add: user_state_def warn_override_def conf_warning_def)

lemma choiceval_set: "has_flag (set_flags SYMBOL_DEF_USER y) SYMBOL_CHOICEVAL = has_flag y SYMBOL_CHOICEVAL"
  by (rule has_set_flags) (simp add: flag_defs)

lemma setsym_plain:
  "\<not> sym_is_choice_value (k_sym (c_st c) s) \<Longrightarrow> setsym d (Some s) c = c"
  by (simp add: setsym_def)

lemma set_def_user [simp]:
  "set_def_tri S_DEF_USER t y = y\<lparr>s_def_user := (s_def_user y)\<lparr>sv_tri := t\<rparr>\<rparr>"
  "set_def_val S_DEF_USER v y = y\<lparr>s_def_user := (s_def_user y)\<lparr>sv_val := v\<rparr>\<rparr>"
  "def_flags S_DEF_USER = SYMBOL_DEF_USER"
  by (simp_all add: set_def_tri_def set_def_val_def set_def_def get_def_def def_flags_def)

text \<open>Reading a value leaves a symbol that is not a choice value with the value and its mark.\<close>

definition has_user_tri :: "sym \<Rightarrow> tristate \<Rightarrow> kstate \<Rightarrow> bool" where
  "has_user_tri s t st \<longleftrightarrow> sym_has_value (k_sym st s) \<and> sv_tri (s_def_user (k_sym st s)) = t"

definition has_user_string :: "sym \<Rightarrow> string \<Rightarrow> kstate \<Rightarrow> bool" where
  "has_user_string s str st \<longleftrightarrow> sym_has_value (k_sym st s) \<and> plain_string (sv_val (s_def_user (k_sym st s))) = str"

definition only_changes :: "sym \<Rightarrow> kstate \<Rightarrow> kstate \<Rightarrow> bool" where
  "only_changes s st st' \<longleftrightarrow> (\<forall>a. a \<noteq> s \<longrightarrow> k_sym st' a = k_sym st a)"

lemma has_value_set: "sym_has_value (set_flags SYMBOL_DEF_USER y)"
  by (simp add: sym_has_value_def has_flag_def set_flags_def flag_defs bit.conj_disj_distrib2 or_eq_0_iff)

lemma set_flags_fields [simp]: "s_def_user (set_flags f y) = s_def_user y" "s_type (set_flags f y) = s_type y"
  by (simp_all add: set_flags_def)

lemma store_tri_user:
  assumes "\<not> sym_is_choice_value (k_sym (c_st c) s)"
  shows "let c' = setsym S_DEF_USER (Some s) (store_tri S_DEF_USER s t c) in
     has_user_tri s t (c_st c') \<and> only_changes s (c_st c) (c_st c')"
proof -
  have "\<not> sym_is_choice_value (k_sym (c_st (store_tri S_DEF_USER s t c)) s)"
    using assms by (simp add: store_tri_def with_st_def sym_is_choice_value_def choiceval_set) (simp add: has_flag_def)
  from setsym_plain[OF this] show ?thesis
    by (simp add: store_tri_def with_st_def has_user_tri_def has_value_set only_changes_def k_sym_upd)
qed

lemma store_string_user:
  assumes "\<not> sym_is_choice_value (k_sym (c_st c) s)" and "sym_string_valid (s_type (k_sym (c_st c) s)) p"
  shows "case store_string S_DEF_USER s p c of (invalid, c1) \<Rightarrow>
     \<not> invalid \<and> (let c' = setsym S_DEF_USER (Some s) c1 in
       has_user_string s p (c_st c') \<and> only_changes s (c_st c) (c_st c'))"
proof -
  obtain c1 where c1: "store_string S_DEF_USER s p c = (False, c1)"
    "c_st c1 = (upd s (set_flags SYMBOL_DEF_USER \<circ> set_def_val S_DEF_USER (VStr (k_fresh (c_st c)) p)) (c_st c))
        \<lparr>k_fresh := Suc (k_fresh (c_st c))\<rparr>"
    using assms(2) by (simp add: store_string_def with_st_def comp_def)
  have "\<not> sym_is_choice_value (k_sym (c_st c1) s)"
    using assms(1) by (simp add: c1(2) sym_is_choice_value_def choiceval_set) (simp add: has_flag_def)
  from setsym_plain[OF this] c1 show ?thesis
    by (simp add: has_user_string_def has_value_set only_changes_def k_sym_upd plain_string_def)
qed

lemma escape_set: "set (concat (map escape_char s)) \<subseteq> set s \<union> {CHR 0x5C}"
  by (induction s) (auto simp: escape_char_def)

lemma escaped_line:
  assumes "CHR 0x0A \<notin> set str"
  shows "CHR 0x0A \<notin> set (sym_escape_string_value str)" "last (sym_escape_string_value str) \<noteq> CHR 0x0D"
  using assms escape_set[of str] by (auto simp: escape_eq)

lemma read_string_line:
  assumes n: "name_ok n" and f: "sym_find n (c_st c) = Some s" and y: "y = k_sym (c_st c) s" "s_name y = Some n"
    and pre: "pre = [] \<or> hd pre \<noteq> CHR ''#''" and cv: "\<not> sym_is_choice_value y" and nl: "CHR 0x0A \<notin> set str"
    and t: "s_type y = S_STRING"
  shows "has_user_string s str (c_st (read_line pre S_DEF_USER
      (kconfig_print_symbol pre y (sym_escape_string_value str) False) c)) \<and>
    only_changes s (c_st c) (c_st (read_line pre S_DEF_USER
      (kconfig_print_symbol pre y (sym_escape_string_value str) False) c))"
proof -
  let ?v = "sym_escape_string_value str"
  have p: "kconfig_print_symbol pre y ?v False = pre @ n @ ''='' @ ?v @ newline"
    using t y(2) by (simp add: kconfig_print_symbol_def sym_name_def)
  have q: "conf_set_sym_val S_DEF_USER s ?v (user_state s c) = store_string S_DEF_USER s str (user_state s c)"
    using t y(1) unescape_escape[of str "[]"] by (simp add: conf_set_sym_val_def conf_set_quoted_def escape_eq)
  have "case store_string S_DEF_USER s str (user_state s c) of (invalid, c1) \<Rightarrow>
     \<not> invalid \<and> (let c' = setsym S_DEF_USER (Some s) c1 in
       has_user_string s str (c_st c') \<and> only_changes s (c_st (user_state s c)) (c_st c'))"
    by (rule store_string_user) (use cv y t in simp_all)
  then show ?thesis
    unfolding p using read_assignment_line[OF n f pre, of ?v] escaped_line[OF nl] q
    by (auto simp: Let_def split: prod.splits)
qed

lemma read_number_line:
  assumes n: "name_ok n" and f: "sym_find n (c_st c) = Some s" and y: "y = k_sym (c_st c) s" "s_name y = Some n"
    and pre: "pre = [] \<or> hd pre \<noteq> CHR ''#''" and cv: "\<not> sym_is_choice_value y" and nl: "CHR 0x0A \<notin> set str"
    and t: "s_type y = S_INT \<or> s_type y = S_HEX" "sym_string_valid (s_type y) str" "last str \<noteq> CHR 0x0D"
  shows "has_user_string s str (c_st (read_line pre S_DEF_USER (kconfig_print_symbol pre y str False) c)) \<and>
    only_changes s (c_st c) (c_st (read_line pre S_DEF_USER (kconfig_print_symbol pre y str False) c))"
proof -
  have p: "kconfig_print_symbol pre y str False = pre @ n @ ''='' @ str @ newline"
    using t y(2) by (auto simp: kconfig_print_symbol_def sym_name_def)
  have q: "conf_set_sym_val S_DEF_USER s str (user_state s c) = store_string S_DEF_USER s str (user_state s c)"
    using t y(1) by (auto simp: conf_set_sym_val_def)
  have "case store_string S_DEF_USER s str (user_state s c) of (invalid, c1) \<Rightarrow>
     \<not> invalid \<and> (let c' = setsym S_DEF_USER (Some s) c1 in
       has_user_string s str (c_st c') \<and> only_changes s (c_st (user_state s c)) (c_st c'))"
    by (rule store_string_user) (use cv y t in simp_all)
  then show ?thesis
    unfolding p using read_assignment_line[OF n f pre nl disjI2, OF t(3)] q
    by (auto simp: Let_def split: prod.splits)
qed

lemma read_boolean_line:
  assumes n: "name_ok n" and f: "sym_find n (c_st c) = Some s" and y: "y = k_sym (c_st c) s" "s_name y = Some n"
    and pre: "pre = [] \<or> hd pre \<noteq> CHR ''#''" and cv: "\<not> sym_is_choice_value y"
    and t: "s_type y = S_TRISTATE \<or> (s_type y = S_BOOLEAN \<and> t \<noteq> tri_mod)"
  shows "has_user_tri s t (c_st (read_line pre S_DEF_USER (kconfig_print_symbol pre y (tri_name t) False) c)) \<and>
    only_changes s (c_st c) (c_st (read_line pre S_DEF_USER (kconfig_print_symbol pre y (tri_name t) False) c))"
proof -
  let ?line = "kconfig_print_symbol pre y (tri_name t) False"
  have "read_line pre S_DEF_USER ?line c = setsym S_DEF_USER (Some s) (store_tri S_DEF_USER s t (user_state s c))"
  proof (cases "t = tri_no")
    case True
    have "?line = ''# '' @ pre @ n @ '' is not set'' @ newline"
      using t y(2) True by (auto simp: kconfig_print_symbol_def sym_name_def)
    with read_unset_line[OF n f, of pre] t y(1) True show ?thesis by auto
  next
    case False
    have p: "?line = pre @ n @ ''='' @ tri_name t @ newline"
      using t y(2) False by (cases t) (auto simp: kconfig_print_symbol_def sym_name_def)
    have v: "CHR 0x0A \<notin> set (tri_name t)" "last (tri_name t) \<noteq> CHR 0x0D" by (cases t; simp)+
    have "conf_set_sym_val S_DEF_USER s (tri_name t) (user_state s c) = (False, store_tri S_DEF_USER s t (user_state s c))"
      using t y(1) False by (cases t) (auto simp: conf_set_sym_val_def conf_set_boolean_def)
    with read_assignment_line[OF n f pre v(1) disjI2, OF v(2)] show ?thesis unfolding p by simp
  qed
  moreover have "let c' = setsym S_DEF_USER (Some s) (store_tri S_DEF_USER s t (user_state s c)) in
     has_user_tri s t (c_st c') \<and> only_changes s (c_st (user_state s c)) (c_st c')"
    by (rule store_tri_user) (use cv y in simp)
  ultimately show ?thesis by (simp add: Let_def)
qed

text \<open>
  C4: the line that the printer of the configuration file writes for a symbol gives the symbol
  its value again when it is read: a boolean or tristate value, a valid number, and every string
  without a newline, whatever quotes and backslashes it has. No other symbol changes.
\<close>

theorem printed_symbol_is_read_back:
  assumes n: "name_ok n" and f: "sym_find n (c_st c) = Some s" and y: "y = k_sym (c_st c) s" "s_name y = Some n"
    and pre: "pre = [] \<or> hd pre \<noteq> CHR ''#''" and cv: "\<not> sym_is_choice_value y" and nl: "CHR 0x0A \<notin> set str"
  shows "let read = (\<lambda>v. c_st (read_line pre S_DEF_USER (kconfig_print_symbol pre y v False) c)) in
    (s_type y = S_TRISTATE \<or> (s_type y = S_BOOLEAN \<and> t \<noteq> tri_mod) \<longrightarrow>
       has_user_tri s t (read (tri_name t)) \<and> only_changes s (c_st c) (read (tri_name t))) \<and>
    ((s_type y = S_INT \<or> s_type y = S_HEX) \<and> sym_string_valid (s_type y) str \<and> last str \<noteq> CHR 0x0D \<longrightarrow>
       has_user_string s str (read str) \<and> only_changes s (c_st c) (read str)) \<and>
    (s_type y = S_STRING \<longrightarrow>
       has_user_string s str (read (sym_escape_string_value str)) \<and>
       only_changes s (c_st c) (read (sym_escape_string_value str)))"
  using read_boolean_line[OF n f y pre cv, of t] read_number_line[OF n f y pre cv nl]
    read_string_line[OF n f y pre cv nl] by (simp add: Let_def)

definition example_conf :: conf where
  "example_conf = \<lparr>c_st = example_state\<lparr>k_hash := (\<lambda>i. [sym_at 9]),
       k_sym := (\<lambda>s. new_symbol (Some ''BR2_CMDLINE'') 0\<lparr>s_type := S_STRING\<rparr>)\<rparr>,
     c_lineno = 0, c_warnings = 0, c_unsaved = 0\<rparr>"

theorem printed_symbol_is_read_back_witness:
  "has_user_string (sym_at 9) [CHR ''a'', CHR 0x22, CHR 0x5C] (c_st (read_line [] S_DEF_USER
     (kconfig_print_symbol [] (k_sym (c_st example_conf) (sym_at 9))
        (sym_escape_string_value [CHR ''a'', CHR 0x22, CHR 0x5C]) False) example_conf))"
proof -
  let ?y = "k_sym (c_st example_conf) (sym_at 9)"
  have y: "s_name ?y = Some ''BR2_CMDLINE''" "s_type ?y = S_STRING" "\<not> sym_is_choice_value ?y" "\<not> has_flag ?y SYMBOL_CONST"
    by (simp_all add: example_conf_def new_symbol_def sym_is_choice_value_def has_flag_def)
  have f: "sym_find ''BR2_CMDLINE'' (c_st example_conf) = Some (sym_at 9)"
    using y by (simp add: sym_find_def) (simp add: example_conf_def)
  have n: "name_ok ''BR2_CMDLINE''"
    by (simp add: name_ok_def isalnum_def isdigit_def code_def)
  from printed_symbol_is_read_back[OF n f refl y(1) disjI1[OF refl] y(3), of "[CHR ''a'', CHR 0x22, CHR 0x5C]" tri_no] y(2)
  show ?thesis by (simp add: Let_def)
qed

text \<open>
  A symbol of auto.conf whose type is not known yet is not given a quoted string: the code falls
  through to the branch of strings but leaves the type, for which no string is valid.
\<close>

lemma quoted_string_of_unknown_type:
  assumes "s_type (k_sym (c_st c) s) = S_OTHER" and "unescape r = Some str"
  shows "conf_set_sym_val d s (CHR 0x22 # r) c = (True, user_warning d c)"
  using assms by (simp add: conf_set_sym_val_def conf_set_quoted_def store_string_def)

end
