(* ===== verification/Kc_Menu.thy ===== *)
theory Kc_Menu
  imports Kc_Hash Kc_Valid
begin

text \<open>
  The tree of menus of menu.c: the entries that the parser makes with \<open>menu_add_entry\<close>,
  \<open>menu_add_menu\<close> and \<open>menu_end_menu\<close>, what it adds to them, and the questions that the front
  ends ask of them. A \<open>struct menu *\<close> is the number of the allocation, \<open>rootmenu\<close> is 0.
\<close>

section \<open>Menus\<close>

text \<open>
  The prompt of an entry is a property: one of its symbol, by position in the symbol's list,
  or one that belongs to no symbol and that only the entry points to.
\<close>

datatype prompt = PSym sym nat | POwn property

record menu =
  m_next :: "nat option"
  m_parent :: "nat option"
  m_list :: "nat option"
  m_sym :: "sym option"
  m_prompt :: "prompt option"
  m_visibility :: "expr option"
  m_dep :: "expr option"
  m_help :: "string option"
  m_file :: string
  m_lineno :: nat

type_synonym menus = "nat \<Rightarrow> menu"

definition rootmenu :: nat where "rootmenu = 0"

text \<open>What \<open>last_entry_ptr\<close> points to.\<close>

datatype slot = NextOf nat | ListOf nat

text \<open>
  The state of the parser: the symbols, the menus, the next allocation, \<open>current_entry\<close>,
  \<open>current_menu\<close>, \<open>last_entry_ptr\<close>, \<open>modules_sym\<close> and \<open>sym_defconfig_list\<close> (both may be
  NULL while the files are read), the position in the file, the messages, newest first, and the
  count \<open>zconfnerrs\<close>.
\<close>

record pstate =
  ps_k :: kstate
  ps_menus :: menus
  ps_alloc :: nat
  ps_entry :: nat
  ps_menu :: "nat option"
  ps_last :: slot
  ps_modules :: "sym option"
  ps_defconfig_list :: "sym option"
  ps_env_list :: "sym list"
  ps_file :: string
  ps_lineno :: nat
  ps_warn :: "string list"
  ps_errors :: nat

definition set_menu :: "nat \<Rightarrow> (menu \<Rightarrow> menu) \<Rightarrow> pstate \<Rightarrow> pstate" where
  "set_menu a f st = st\<lparr>ps_menus := (ps_menus st)(a := f (ps_menus st a))\<rparr>"

definition on_k :: "(kstate \<Rightarrow> kstate) \<Rightarrow> pstate \<Rightarrow> pstate" where
  "on_k f st = st\<lparr>ps_k := f (ps_k st)\<rparr>"

definition warn :: "string \<Rightarrow> pstate \<Rightarrow> pstate" where
  "warn msg st = st\<lparr>ps_warn := msg # ps_warn st\<rparr>"

section \<open>Messages\<close>

definition position :: "string \<Rightarrow> nat \<Rightarrow> string" where
  "position f n = f @ '':'' @ nat_str 10 n @ '':''"

definition menu_warn :: "nat \<Rightarrow> string \<Rightarrow> pstate \<Rightarrow> pstate" where
  "menu_warn a msg st =
     warn (position (m_file (ps_menus st a)) (m_lineno (ps_menus st a)) @ ''warning: '' @ msg) st"

definition prop_warn :: "property \<Rightarrow> string \<Rightarrow> pstate \<Rightarrow> pstate" where
  "prop_warn p msg = warn (position (p_file p) (p_lineno p) @ ''warning: '' @ msg)"

definition newline_s :: string where "newline_s = [CHR 0x0A]"
definition tab :: string where "tab = [CHR 0x09]"

definition shown_name :: "string option \<Rightarrow> string" where
  "shown_name n = (case n of Some s \<Rightarrow> s | None \<Rightarrow> ''<choice>'')"

section \<open>Adding properties\<close>

text \<open>\<open>prop_alloc\<close> of symbol.c: the property, appended to the list of the symbol.\<close>

definition new_prop :: "prop_type \<Rightarrow> string \<Rightarrow> nat \<Rightarrow> property" where
  "new_prop t f n = \<lparr>p_type = t, p_text = None, p_visible = \<lparr>ev_expr = None, ev_tri = tri_no\<rparr>,
     p_expr = None, p_menu = None, p_file = f, p_lineno = n\<rparr>"

definition append_prop :: "sym \<Rightarrow> property \<Rightarrow> kstate \<Rightarrow> kstate" where
  "append_prop s p = upd s (\<lambda>y. y\<lparr>s_prop := s_prop y @ [p]\<rparr>)"

definition prop_alloc :: "property \<Rightarrow> sym option \<Rightarrow> pstate \<Rightarrow> prompt \<times> pstate" where
  "prop_alloc p so st =
     (case so of
        None \<Rightarrow> (POwn p, st)
      | Some s \<Rightarrow> (PSym s (length (s_prop (k_sym (ps_k st) s))), on_k (append_prop s p) st))"

text \<open>
  \<open>menu_check_dep\<close> changes m into m && MODULES. The value None stands for an expression on a
  NULL symbol, which the code builds when no symbol has been made \<open>modules_sym\<close> yet.
\<close>

fun menu_check_dep :: "sym option \<Rightarrow> expr \<Rightarrow> expr option" where
  "menu_check_dep md (Neg e) = map_option Neg (menu_check_dep md e)"
| "menu_check_dep md (Or l r) =
     do { l' \<leftarrow> menu_check_dep md l; r' \<leftarrow> menu_check_dep md r; Some (Or l' r') }"
| "menu_check_dep md (And l r) =
     do { l' \<leftarrow> menu_check_dep md l; r' \<leftarrow> menu_check_dep md r; Some (And l' r') }"
| "menu_check_dep md (Sym s) =
     (if s = symbol_mod then map_option (\<lambda>m. And (Sym s) (expr_alloc_symbol m)) md else Some (Sym s))"
| "menu_check_dep md e = Some e"

definition menu_check_dep_ptr :: "sym option \<Rightarrow> expr option \<Rightarrow> expr option option" where
  "menu_check_dep_ptr md e = (case e of None \<Rightarrow> Some None | Some e \<Rightarrow> map_option Some (menu_check_dep md e))"

text \<open>The visibilities of the menus above an entry, from the innermost one.\<close>

partial_function (option) upper_visibility :: "menus \<Rightarrow> nat option \<Rightarrow> expr option \<Rightarrow> expr option option" where
  "upper_visibility ms m e =
     (case m of
        None \<Rightarrow> Some e
      | Some a \<Rightarrow> upper_visibility ms (m_parent (ms a))
                   (case m_visibility (ms a) of None \<Rightarrow> e | Some v \<Rightarrow> expr_alloc_and e (Some (expr_copy v))))"

definition menu_add_prop ::
  "prop_type \<Rightarrow> string option \<Rightarrow> prop_expr option \<Rightarrow> expr option \<Rightarrow> pstate \<Rightarrow> pstate option"
where
  "menu_add_prop t text expr dep st = do {
     let e = ps_entry st;
     let p = (new_prop t (ps_file st) (ps_lineno st))\<lparr>p_menu := Some e, p_expr := expr\<rparr>;
     vis \<leftarrow> menu_check_dep_ptr (ps_modules st) dep;
     case text of
       None \<Rightarrow> Some (snd (prop_alloc (p\<lparr>p_visible := \<lparr>ev_expr = vis, ev_tri = tri_no\<rparr>\<rparr>) (m_sym (ps_menus st e)) st))
     | Some tx \<Rightarrow> do {
         let st1 = (if tx \<noteq> [] \<and> isspace (hd tx) then prop_warn p ''leading whitespace ignored'' st else st);
         let st2 = (if m_prompt (ps_menus st e) \<noteq> None \<and> e \<noteq> rootmenu
                    then prop_warn p ''prompt redefined'' st1 else st1);
         vis' \<leftarrow> (if t = P_PROMPT then upper_visibility (ps_menus st) (m_parent (ps_menus st e)) vis else Some vis);
         let (ptr, st3) = prop_alloc
               (p\<lparr>p_visible := \<lparr>ev_expr = vis', ev_tri = tri_no\<rparr>, p_text := Some (dropWhile isspace tx)\<rparr>)
               (m_sym (ps_menus st e)) st2;
         Some (set_menu e (\<lambda>m. m\<lparr>m_prompt := Some ptr\<rparr>) st3) } }"

definition menu_add_prompt :: "prop_type \<Rightarrow> string \<Rightarrow> expr option \<Rightarrow> pstate \<Rightarrow> pstate option" where
  "menu_add_prompt t text dep = menu_add_prop t (Some text) None dep"

definition menu_add_expr :: "prop_type \<Rightarrow> prop_expr option \<Rightarrow> expr option \<Rightarrow> pstate \<Rightarrow> pstate option" where
  "menu_add_expr t expr dep = menu_add_prop t None expr dep"

definition menu_add_symbol :: "prop_type \<Rightarrow> sym \<Rightarrow> expr option \<Rightarrow> pstate \<Rightarrow> pstate option" where
  "menu_add_symbol t s dep = menu_add_prop t None (Some (PE_expr (expr_alloc_symbol s))) dep"

section \<open>Building the tree\<close>

definition empty_menu :: menu where
  "empty_menu = \<lparr>m_next = None, m_parent = None, m_list = None, m_sym = None, m_prompt = None,
     m_visibility = None, m_dep = None, m_help = None, m_file = '''', m_lineno = 0\<rparr>"

definition store_slot :: "slot \<Rightarrow> nat \<Rightarrow> pstate \<Rightarrow> pstate" where
  "store_slot sl a =
     (case sl of NextOf b \<Rightarrow> set_menu b (\<lambda>m. m\<lparr>m_next := Some a\<rparr>) | ListOf b \<Rightarrow> set_menu b (\<lambda>m. m\<lparr>m_list := Some a\<rparr>))"

text \<open>\<open>_menu_init\<close>.\<close>

definition menu_init :: "pstate \<Rightarrow> pstate" where
  "menu_init st = st\<lparr>ps_entry := rootmenu, ps_menu := Some rootmenu, ps_last := ListOf rootmenu\<rparr>"

definition menu_add_entry :: "sym option \<Rightarrow> pstate \<Rightarrow> pstate option" where
  "menu_add_entry so st =
     (let a = ps_alloc st;
          st1 = (set_menu a (\<lambda>_. empty_menu\<lparr>m_sym := so, m_parent := ps_menu st, m_file := ps_file st, m_lineno := ps_lineno st\<rparr>) st)
                \<lparr>ps_alloc := Suc a\<rparr>;
          st2 = (store_slot (ps_last st) a st1)\<lparr>ps_last := NextOf a, ps_entry := a\<rparr>
      in case so of None \<Rightarrow> Some st2 | Some s \<Rightarrow> menu_add_symbol P_SYMBOL s None st2)"

definition menu_add_menu :: "pstate \<Rightarrow> pstate" where
  "menu_add_menu st = st\<lparr>ps_last := ListOf (ps_entry st), ps_menu := Some (ps_entry st)\<rparr>"

text \<open>None: there is no current menu to end.\<close>

definition menu_end_menu :: "pstate \<Rightarrow> pstate option" where
  "menu_end_menu st =
     (case ps_menu st of
        None \<Rightarrow> None
      | Some a \<Rightarrow> Some (st\<lparr>ps_last := NextOf a, ps_menu := m_parent (ps_menus st a)\<rparr>))"

definition menu_add_dep :: "expr option \<Rightarrow> pstate \<Rightarrow> pstate option" where
  "menu_add_dep dep st = do {
     d \<leftarrow> menu_check_dep_ptr (ps_modules st) dep;
     Some (set_menu (ps_entry st) (\<lambda>m. m\<lparr>m_dep := expr_alloc_and (m_dep m) d\<rparr>) st) }"

definition menu_add_visibility :: "expr option \<Rightarrow> pstate \<Rightarrow> pstate" where
  "menu_add_visibility e st =
     set_menu (ps_entry st) (\<lambda>m. m\<lparr>m_visibility := expr_alloc_and (m_visibility m) e\<rparr>) st"

text \<open>The entry has a symbol where the parser calls \<open>menu_set_type\<close>; None otherwise.\<close>

definition menu_set_type :: "symbol_type \<Rightarrow> pstate \<Rightarrow> pstate option" where
  "menu_set_type t st =
     (case m_sym (ps_menus st (ps_entry st)) of
        None \<Rightarrow> None
      | Some s \<Rightarrow>
          (let y = k_sym (ps_k st) s in
           Some (if s_type y = t then st
                 else if s_type y = S_UNKNOWN then on_k (upd s (\<lambda>y. y\<lparr>s_type := t\<rparr>)) st
                 else menu_warn (ps_entry st)
                   (''ignoring type redefinition of '' @ [CHR 0x27] @ shown_name (s_name y) @ [CHR 0x27] @ '' from ''
                    @ [CHR 0x27] @ sym_type_name (s_type y) @ [CHR 0x27] @ '' to '' @ [CHR 0x27] @ sym_type_name t @ [CHR 0x27]) st)))"

end
