(* ===== verification/Kc_Menu_Tree.thy ===== *)
theory Kc_Menu_Tree
  imports Kc_Menu
begin

text \<open>
  The menus as trees: what the pointers \<open>next\<close>, \<open>list\<close> and \<open>parent\<close> represent, the loop with
  which confdata.c visits all menus, and the tree that the parser's calls build.
\<close>

section \<open>Trees\<close>

datatype mtree = MNode nat "mtree list"

fun preorder :: "mtree list \<Rightarrow> nat list" where
  "preorder [] = []"
| "preorder (MNode a cs # ts) = a # preorder cs @ preorder ts"

text \<open>
  From the pointer \<open>h\<close> on, the entries with the parent \<open>p\<close> form the trees \<open>ts\<close>, and the last
  of them is followed by \<open>z\<close>.
\<close>

fun menu_seg :: "menus \<Rightarrow> nat option \<Rightarrow> nat option \<Rightarrow> mtree list \<Rightarrow> nat option \<Rightarrow> bool" where
  "menu_seg ms p h [] z \<longleftrightarrow> h = z"
| "menu_seg ms p h (MNode a cs # ts) z \<longleftrightarrow>
     h = Some a \<and> m_parent (ms a) = p \<and> menu_seg ms (Some a) (m_list (ms a)) cs None \<and>
     menu_seg ms p (m_next (ms a)) ts z"

text \<open>The whole tree below \<open>rootmenu\<close>.\<close>

definition menu_tree :: "menus \<Rightarrow> mtree list \<Rightarrow> bool" where
  "menu_tree ms ts \<longleftrightarrow>
     m_next (ms rootmenu) = None \<and> m_parent (ms rootmenu) = None \<and>
     menu_seg ms (Some rootmenu) (m_list (ms rootmenu)) ts None"

definition same_links :: "menus \<Rightarrow> menus \<Rightarrow> bool" where
  "same_links ms ms' \<longleftrightarrow>
     (\<forall>a. m_next (ms' a) = m_next (ms a) \<and> m_parent (ms' a) = m_parent (ms a) \<and> m_list (ms' a) = m_list (ms a))"

lemma same_links_refl [simp]: "same_links ms ms" by (simp add: same_links_def)

lemma same_links_trans: "same_links a b \<Longrightarrow> same_links b c \<Longrightarrow> same_links a c"
  by (simp add: same_links_def)

lemma menu_seg_append:
  "menu_seg ms p h (ts @ us) z \<longleftrightarrow> (\<exists>y. menu_seg ms p h ts y \<and> menu_seg ms p y us z)"
  by (induction ms p h ts z rule: menu_seg.induct) auto

lemma preorder_append [simp]: "preorder (ts @ us) = preorder ts @ preorder us"
  by (induction ts rule: preorder.induct) simp_all

text \<open>A segment only depends on the links of its own menus.\<close>

lemma menu_seg_cong:
  assumes "menu_seg ms p h ts z"
    and "\<And>a. a \<in> set (preorder ts) \<Longrightarrow>
      m_next (ms' a) = m_next (ms a) \<and> m_parent (ms' a) = m_parent (ms a) \<and> m_list (ms' a) = m_list (ms a)"
  shows "menu_seg ms' p h ts z"
  using assms by (induction ms p h ts z rule: menu_seg.induct) auto

lemma menu_seg_links: "menu_seg ms p h ts z \<Longrightarrow> same_links ms ms' \<Longrightarrow> menu_seg ms' p h ts z"
  by (erule menu_seg_cong) (simp add: same_links_def)

lemma menu_tree_links: "menu_tree ms ts \<Longrightarrow> same_links ms ms' \<Longrightarrow> menu_tree ms' ts"
  by (auto simp: menu_tree_def same_links_def intro: menu_seg_links[unfolded same_links_def])

section \<open>Visiting all menus\<close>

text \<open>
  The step to the next menu that \<open>conf_write\<close> and \<open>conf_write_defconfig\<close> share: down, else to
  the next entry, else up to the first menu that has one. The loops may not end when the
  pointers are cyclic, which is the value None.
\<close>

partial_function (option) menu_climb :: "menus \<Rightarrow> nat option \<Rightarrow> nat option option" where
  "menu_climb ms p =
     (case p of
        None \<Rightarrow> Some None
      | Some a \<Rightarrow> (case m_next (ms a) of Some b \<Rightarrow> Some (Some b) | None \<Rightarrow> menu_climb ms (m_parent (ms a))))"

lemma climb_None: "menu_climb ms None = Some None"
  by (subst menu_climb.simps) simp

lemma climb_Some:
  "menu_climb ms (Some a) = (case m_next (ms a) of Some b \<Rightarrow> Some (Some b) | None \<Rightarrow> menu_climb ms (m_parent (ms a)))"
  by (subst menu_climb.simps) simp

definition next_menu :: "menus \<Rightarrow> nat \<Rightarrow> nat option option" where
  "next_menu ms a =
     (case m_list (ms a) of
        Some b \<Rightarrow> Some (Some b)
      | None \<Rightarrow> (case m_next (ms a) of Some b \<Rightarrow> Some (Some b) | None \<Rightarrow> menu_climb ms (m_parent (ms a))))"

text \<open>
  The loop itself, for any body. The body is applied to the state, in which the menus are; it
  may fail to return, too.
\<close>

partial_function (option) visit_menus ::
  "('s \<Rightarrow> menus) \<Rightarrow> (nat \<Rightarrow> 's \<Rightarrow> 's option) \<Rightarrow> nat option \<Rightarrow> 's \<Rightarrow> 's option"
where
  "visit_menus links body m st =
     (case m of
        None \<Rightarrow> Some st
      | Some a \<Rightarrow> do {
          st1 \<leftarrow> body a st;
          n \<leftarrow> next_menu (links st1) a;
          visit_menus links body n st1 })"

lemma visit_None: "visit_menus links body None st = Some st"
  by (subst visit_menus.simps) simp

text \<open>The same over a list of menus.\<close>

fun run_all :: "('a \<Rightarrow> 's \<Rightarrow> 's option) \<Rightarrow> 'a list \<Rightarrow> 's \<Rightarrow> 's option" where
  "run_all f [] st = Some st"
| "run_all f (a # as) st = do { st1 \<leftarrow> f a st; run_all f as st1 }"

lemma run_all_append: "run_all f (as @ bs) st = do { st1 \<leftarrow> run_all f as st; run_all f bs st1 }"
  by (induction as arbitrary: st) (auto split: Option.bind_splits)

lemma climb_links_some:
  assumes "menu_climb ms p = Some y" and "same_links ms ms'"
  shows "menu_climb ms' p = Some y"
  using assms
proof (induction arbitrary: ms' rule: menu_climb.raw_induct[rotated, consumes 1, case_names 1])
  case (1 climb ms p y)
  show ?case
  proof (cases p)
    case None
    with 1(2) show ?thesis by (subst menu_climb.simps) simp
  next
    case (Some a)
    with 1(2) have e: "(case m_next (ms a) of None \<Rightarrow> climb ms (m_parent (ms a)) | Some b \<Rightarrow> Some (Some b)) = Some y"
      by simp
    from 1(3) have l: "m_next (ms' a) = m_next (ms a)" "m_parent (ms' a) = m_parent (ms a)"
      by (simp_all add: same_links_def)
    show ?thesis
    proof (cases "m_next (ms a)")
      case None
      with e have "climb ms (m_parent (ms a)) = Some y" by simp
      from 1(1)[OF this 1(3)] None Some l show ?thesis by (subst menu_climb.simps) simp
    next
      case (Some b)
      with e have "y = Some b" by simp
      with Some l \<open>p = Some a\<close> show ?thesis by (simp add: climb_Some)
    qed
  qed
qed

lemma climb_links: "same_links ms ms' \<Longrightarrow> menu_climb ms' p = menu_climb ms p"
  using climb_links_some[of ms p _ ms'] climb_links_some[of ms' p _ ms]
  by (cases "menu_climb ms p"; cases "menu_climb ms' p") (simp_all add: same_links_def)

lemma next_menu_links: "same_links ms ms' \<Longrightarrow> next_menu ms' a = next_menu ms a"
  using climb_links[of ms ms'] by (auto simp: next_menu_def same_links_def split: option.splits)

text \<open>Where the loop goes on after the last entry of the list of \<open>p\<close>.\<close>

definition after_list :: "menus \<Rightarrow> nat option \<Rightarrow> nat option \<Rightarrow> nat option option" where
  "after_list ms p z = (case z of Some b \<Rightarrow> Some (Some b) | None \<Rightarrow> menu_climb ms p)"

lemma after_list_climb: "menu_climb ms (Some a) = after_list ms (m_parent (ms a)) (m_next (ms a))"
  by (subst menu_climb.simps) (simp add: after_list_def split: option.split)

lemma next_menu_after:
  "next_menu ms a =
     (case m_list (ms a) of Some b \<Rightarrow> Some (Some b) | None \<Rightarrow> after_list ms (m_parent (ms a)) (m_next (ms a)))"
  by (simp add: next_menu_def after_list_def split: option.split)

text \<open>
  The interface of the visiting loop: a body that leaves the links of the menus alone. The loop
  then is the list of the menus in preorder.
\<close>

locale menu_visitor =
  fixes links :: "'s \<Rightarrow> menus"
    and body :: "nat \<Rightarrow> 's \<Rightarrow> 's option"
  assumes keeps: "body a st = Some st' \<Longrightarrow> same_links (links st) (links st')"
begin

lemma run_all_keeps: "run_all body as st = Some st' \<Longrightarrow> same_links (links st) (links st')"
proof (induction as arbitrary: st)
  case (Cons a as)
  then obtain st1 where "body a st = Some st1" "run_all body as st1 = Some st'"
    by (auto split: Option.bind_splits)
  then show ?case using Cons.IH keeps same_links_trans by blast
qed simp

lemma visit_segment:
  assumes "menu_seg ms p h ts z" and "ts \<noteq> []" and "same_links ms (links st)"
  shows "visit_menus links body h st =
    do { st1 \<leftarrow> run_all body (preorder ts) st; n \<leftarrow> after_list ms p z; visit_menus links body n st1 }"
  using assms
proof (induction ms p h ts z arbitrary: st rule: menu_seg.induct)
  case (2 ms p h a cs ts z)
  then have h: "h = Some a" and pa: "m_parent (ms a) = p"
    and seg: "menu_seg ms (Some a) (m_list (ms a)) cs None" "menu_seg ms p (m_next (ms a)) ts z" by simp_all
  have rest: "do { n \<leftarrow> after_list ms p (m_next (ms a)); visit_menus links body n st1 } =
      do { st2 \<leftarrow> run_all body (preorder ts) st1; n \<leftarrow> after_list ms p z; visit_menus links body n st2 }"
    if "same_links ms (links st1)" for st1
  proof (cases ts)
    case Nil
    with seg show ?thesis by simp
  next
    case (Cons t us)
    then obtain b where b: "m_next (ms a) = Some b" using seg by (cases t) auto
    then have "after_list ms p (m_next (ms a)) = Some (Some b)" by (simp add: after_list_def)
    with 2(2)[OF seg(2) _ that] Cons b h pa show ?thesis using 2(3) by simp
  qed
  have down: "do { n \<leftarrow> next_menu ms a; visit_menus links body n st1 } =
      do { st2 \<leftarrow> run_all body (preorder cs) st1; n \<leftarrow> after_list ms p (m_next (ms a)); visit_menus links body n st2 }"
    if "same_links ms (links st1)" for st1
  proof (cases cs)
    case Nil
    with seg pa show ?thesis by (simp add: next_menu_after)
  next
    case (Cons t us)
    then obtain b where b: "m_list (ms a) = Some b" using seg by (cases t) auto
    with 2(1)[OF seg(1) _ that] Cons show ?thesis
      by (simp add: next_menu_after after_list_climb[symmetric] after_list_def[of ms "Some a" None] pa)
         (simp add: after_list_climb pa)
  qed
  show ?case
  proof (cases "body a st")
    case None
    then show ?thesis by (subst visit_menus.simps) (simp add: h)
  next
    case (Some st1)
    then have l1: "same_links ms (links st1)" using keeps same_links_trans 2(5) by blast
    have l2: "same_links ms (links st2)" if "run_all body (preorder cs) st1 = Some st2" for st2
      using run_all_keeps[OF that] l1 same_links_trans by blast
    have "visit_menus links body h st = do { n \<leftarrow> next_menu ms a; visit_menus links body n st1 }"
      by (subst visit_menus.simps) (simp add: h Some next_menu_links[OF l1])
    also have "\<dots> = do { st2 \<leftarrow> run_all body (preorder cs) st1;
        do { n \<leftarrow> after_list ms p (m_next (ms a)); visit_menus links body n st2 } }"
      by (rule down[OF l1])
    also have "\<dots> = do { st2 \<leftarrow> run_all body (preorder cs) st1;
        do { st3 \<leftarrow> run_all body (preorder ts) st2; n \<leftarrow> after_list ms p z; visit_menus links body n st3 } }"
      using rest l2 by (cases "run_all body (preorder cs) st1") simp_all
    finally show ?thesis by (simp add: Some run_all_append bind_assoc)
  qed
qed simp

lemma visit_tree:
  assumes "menu_tree (links st) ts"
  shows "visit_menus links body (m_list (links st rootmenu)) st = run_all body (preorder ts) st"
proof (cases "ts = []")
  case True
  with assms show ?thesis by (subst visit_menus.simps) (simp add: menu_tree_def)
next
  case False
  have "after_list (links st) (Some rootmenu) None = Some None"
    using assms by (simp add: after_list_climb[symmetric] after_list_def menu_tree_def climb_None climb_Some)
  with visit_segment[OF _ False same_links_refl, of st] assms show ?thesis
    by (auto simp: menu_tree_def visit_None split: Option.bind_splits)
qed

end

end
