(* ===== verification/Kc_Menu_Build.thy ===== *)
theory Kc_Menu_Build
  imports Kc_Menu_Tree Kc_Snapshot
begin

text \<open>
  The steps by which the parser builds the tree of menus: \<open>last_entry_ptr\<close> is always an empty slot, so no
  entry is lost, and a block of entries becomes the list of the entry before it. The statements of
  the grammar are put together from these steps.
\<close>

section \<open>What stays\<close>

fun slot_owner :: "slot \<Rightarrow> nat" where
  "slot_owner (NextOf b) = b"
| "slot_owner (ListOf b) = b"

fun slot_val :: "slot \<Rightarrow> menus \<Rightarrow> nat option" where
  "slot_val (NextOf b) ms = m_next (ms b)"
| "slot_val (ListOf b) ms = m_list (ms b)"

text \<open>Only the slot \<open>sl\<close> of the menus that there were may have changed.\<close>

definition links_kept :: "slot \<Rightarrow> pstate \<Rightarrow> pstate \<Rightarrow> bool" where
  "links_kept sl st st' \<longleftrightarrow> ps_alloc st \<le> ps_alloc st' \<and>
     (\<forall>b<ps_alloc st. m_parent (ps_menus st' b) = m_parent (ps_menus st b) \<and> m_sym (ps_menus st' b) = m_sym (ps_menus st b) \<and>
        m_file (ps_menus st' b) = m_file (ps_menus st b) \<and>
        (NextOf b \<noteq> sl \<longrightarrow> m_next (ps_menus st' b) = m_next (ps_menus st b)) \<and>
        (ListOf b \<noteq> sl \<longrightarrow> m_list (ps_menus st' b) = m_list (ps_menus st b)))"

text \<open>An operation on the current entry: the tree and the parser's place in it stay.\<close>

definition same_place :: "pstate \<Rightarrow> pstate \<Rightarrow> bool" where
  "same_place st st' \<longleftrightarrow> same_links (ps_menus st) (ps_menus st') \<and> ps_alloc st' = ps_alloc st \<and>
     ps_entry st' = ps_entry st \<and> ps_menu st' = ps_menu st \<and> ps_last st' = ps_last st \<and>
     (ps_modules st \<noteq> None \<longrightarrow> ps_modules st' \<noteq> None) \<and>
     (\<forall>a. m_sym (ps_menus st' a) = m_sym (ps_menus st a) \<and> m_file (ps_menus st' a) = m_file (ps_menus st a))"

lemma same_place_refl [simp]: "same_place st st" by (simp add: same_place_def)

lemma same_place_trans: "same_place a b \<Longrightarrow> same_place b c \<Longrightarrow> same_place a c"
  by (auto simp: same_place_def intro: same_links_trans)

lemma same_place_basic [simp]:
  "same_place st (on_k f st)" "same_place st (st\<lparr>ps_k := k\<rparr>)" "same_place st (warn m st)" "same_place st (menu_warn a m st)"
  "same_place st (prop_warn p m st)" "same_place st (snd (prop_alloc p so st))"
  by (simp_all add: same_place_def on_k_def warn_def menu_warn_def prop_warn_def prop_alloc_def split: option.split)

lemma same_place_set_menu:
  assumes "\<And>m. m_next (f m) = m_next m \<and> m_parent (f m) = m_parent m \<and> m_list (f m) = m_list m \<and> m_sym (f m) = m_sym m \<and>
    m_file (f m) = m_file m"
  shows "same_place st (set_menu a f st)"
  using assms by (simp add: same_place_def set_menu_def same_links_def)

lemma same_place_add_prop: "menu_add_prop t tx e d st = Some st' \<Longrightarrow> same_place st st'"
proof -
  assume a: "menu_add_prop t tx e d st = Some st'"
  have step: "same_place st (set_menu b (\<lambda>m. m\<lparr>m_prompt := Some ptr\<rparr>) (snd (prop_alloc p so st2)))"
    if "same_place st st2" for b ptr p so st2
    by (rule same_place_trans[OF that], rule same_place_trans[OF same_place_basic(6)], rule same_place_set_menu) simp
  have w: "same_place st (if P then prop_warn p m st1 else st1)" if "same_place st st1" for P p m st1
    using same_place_trans[OF that same_place_basic(5)] that by simp
  show ?thesis
    using a by (auto simp: menu_add_prop_def Let_def split_beta intro!: step w split: Option.bind_splits option.splits)
qed

section \<open>One entry\<close>

lemma links_kept_place: "links_kept sl st st1 \<Longrightarrow> same_place st1 st2 \<Longrightarrow> links_kept sl st st2"
  by (auto simp: links_kept_def same_place_def same_links_def)

lemma slot_val_links: "same_links ms ms' \<Longrightarrow> slot_val sl ms' = slot_val sl ms"
  by (cases sl) (simp_all add: same_links_def)

lemma menu_add_symbol_returns: "\<exists>st'. menu_add_symbol P_SYMBOL s None st = Some st'"
  by (simp add: menu_add_symbol_def menu_add_prop_def menu_check_dep_ptr_def Let_def)

lemma menu_add_entry_correct:
  assumes "slot_owner (ps_last st) < ps_alloc st"
  obtains st' where "menu_add_entry so st = Some st'" and "links_kept (ps_last st) st st'"
    and "ps_alloc st' = Suc (ps_alloc st)" and "ps_entry st' = ps_alloc st" and "ps_last st' = NextOf (ps_alloc st)"
    and "ps_menu st' = ps_menu st" and "ps_modules st \<noteq> None \<longrightarrow> ps_modules st' \<noteq> None"
    and "m_next (ps_menus st' (ps_alloc st)) = None" and "m_list (ps_menus st' (ps_alloc st)) = None"
    and "m_file (ps_menus st' (ps_alloc st)) = ps_file st" and "m_parent (ps_menus st' (ps_alloc st)) = ps_menu st" and "m_sym (ps_menus st' (ps_alloc st)) = so"
    and "slot_val (ps_last st) (ps_menus st') = Some (ps_alloc st)"
proof -
  define a where "a = ps_alloc st"
  define st1 where "st1 = (set_menu a (\<lambda>_. empty_menu\<lparr>m_sym := so, m_parent := ps_menu st, m_file := ps_file st,
    m_lineno := ps_lineno st\<rparr>) st)\<lparr>ps_alloc := Suc a\<rparr>"
  define st2 where "st2 = (store_slot (ps_last st) a st1)\<lparr>ps_last := NextOf a, ps_entry := a\<rparr>"
  have own: "slot_owner (ps_last st) < a" using assms by (simp add: a_def)
  have m: "ps_menus st2 b = (let m = ps_menus st1 b in
      case ps_last st of NextOf c \<Rightarrow> if b = c then m\<lparr>m_next := Some a\<rparr> else m | ListOf c \<Rightarrow> if b = c then m\<lparr>m_list := Some a\<rparr> else m)" for b
    by (simp add: st2_def store_slot_def set_menu_def split: slot.split)
  have f: "links_kept (ps_last st) st st2" "ps_alloc st2 = Suc a" "ps_entry st2 = a" "ps_last st2 = NextOf a"
    "ps_menu st2 = ps_menu st" "ps_modules st2 = ps_modules st" "m_next (ps_menus st2 a) = None"
    "m_list (ps_menus st2 a) = None" "m_file (ps_menus st2 a) = ps_file st" "m_parent (ps_menus st2 a) = ps_menu st" "m_sym (ps_menus st2 a) = so"
    "slot_val (ps_last st) (ps_menus st2) = Some a"
    by (cases "ps_last st"; use own in \<open>auto simp: m links_kept_def Let_def st1_def set_menu_def empty_menu_def a_def[symmetric]\<close>;
      auto simp: st2_def st1_def store_slot_def set_menu_def)+
  have e: "menu_add_entry so st = (case so of None \<Rightarrow> Some st2 | Some s \<Rightarrow> menu_add_symbol P_SYMBOL s None st2)"
    unfolding menu_add_entry_def Let_def st2_def st1_def a_def ..
  obtain st' where s: "menu_add_entry so st = Some st'" "same_place st2 st'"
  proof (cases so)
    case None
    then show ?thesis using that[of st2] e by simp
  next
    case (Some s)
    then show ?thesis using that e menu_add_symbol_returns[of s st2] same_place_add_prop
      by (auto simp: menu_add_symbol_def)
  qed
  show ?thesis
    by (rule that[OF s(1)])
      (use f s(2) links_kept_place[OF f(1) s(2)] slot_val_links[of "ps_menus st2" "ps_menus st'"] in
        \<open>auto simp: same_place_def same_links_def a_def[symmetric]\<close>)
qed

section \<open>Properties that can be added\<close>

text \<open>
  A dependency must not mention m while there is no \<open>modules_sym\<close>; the parents of every entry are older.
\<close>

fun no_mod :: "expr \<Rightarrow> bool" where
  "no_mod (Sym s) \<longleftrightarrow> s \<noteq> symbol_mod"
| "no_mod (Neg e) \<longleftrightarrow> no_mod e"
| "no_mod (And l r) \<longleftrightarrow> no_mod l \<and> no_mod r"
| "no_mod (Or l r) \<longleftrightarrow> no_mod l \<and> no_mod r"
| "no_mod _ \<longleftrightarrow> True"

definition dep_ok :: "sym option \<Rightarrow> expr option \<Rightarrow> bool" where
  "dep_ok md e \<longleftrightarrow> md \<noteq> None \<or> (case e of None \<Rightarrow> True | Some e \<Rightarrow> no_mod e)"

definition parents_ok :: "pstate \<Rightarrow> bool" where
  "parents_ok st \<longleftrightarrow> m_parent (ps_menus st rootmenu) = None \<and>
     (\<forall>a. rootmenu < a \<and> a < ps_alloc st \<longrightarrow> (\<exists>p<a. m_parent (ps_menus st a) = Some p))"

lemma menu_check_dep_defined: "md \<noteq> None \<or> no_mod e \<Longrightarrow> menu_check_dep md e \<noteq> None"
  by (induction md e rule: menu_check_dep.induct) (auto split: Option.bind_splits)

lemma dep_ok_defined: "dep_ok md e \<Longrightarrow> \<exists>e'. menu_check_dep_ptr md e = Some e'"
  using menu_check_dep_defined[of md] by (auto simp: dep_ok_def menu_check_dep_ptr_def split: option.splits)

lemma upper_visibility_defined:
  "parents_ok st \<Longrightarrow> a < ps_alloc st \<Longrightarrow> \<exists>e'. upper_visibility (ps_menus st) (Some a) e = Some e'"
proof (induction a arbitrary: e rule: less_induct)
  case (less a)
  let ?e = "case m_visibility (ps_menus st a) of None \<Rightarrow> e | Some v \<Rightarrow> expr_alloc_and e (Some (expr_copy v))"
  have u: "upper_visibility (ps_menus st) (Some a) e = upper_visibility (ps_menus st) (m_parent (ps_menus st a)) ?e"
    by (subst upper_visibility.simps) simp
  show ?case
  proof (cases "a = rootmenu")
    case True
    with less u show ?thesis by (simp add: parents_ok_def upper_visibility.simps[of _ None])
  next
    case False
    then obtain p where p: "p < a" "m_parent (ps_menus st a) = Some p"
      using less by (auto simp: parents_ok_def rootmenu_def)
    with less.IH[OF p(1) less.prems(1)] less.prems(2) u show ?thesis by auto
  qed
qed

lemma upper_visibility_parent:
  assumes "parents_ok st" and "a < ps_alloc st"
  shows "\<exists>e'. upper_visibility (ps_menus st) (m_parent (ps_menus st a)) e = Some e'"
proof (cases "m_parent (ps_menus st a)")
  case None
  then show ?thesis by (simp add: upper_visibility.simps[of _ None])
next
  case (Some p)
  with assms have "p < ps_alloc st" by (cases "a = rootmenu") (auto simp: parents_ok_def rootmenu_def)
  with Some upper_visibility_defined[OF assms(1)] show ?thesis by simp
qed

section \<open>The tree of a file\<close>

lemma menu_add_prop_returns:
  assumes "parents_ok st" and "ps_entry st < ps_alloc st" and "dep_ok (ps_modules st) d"
  shows "\<exists>st'. menu_add_prop t tx e d st = Some st'"
proof -
  obtain v where v: "menu_check_dep_ptr (ps_modules st) d = Some v" using dep_ok_defined[OF assms(3)] by auto
  obtain v' where "upper_visibility (ps_menus st) (m_parent (ps_menus st (ps_entry st))) v = Some v'"
    using upper_visibility_parent[OF assms(1,2)] by auto
  with v show ?thesis by (auto simp: menu_add_prop_def Let_def split_beta split: option.split)
qed

lemma parents_ok_place: "same_place st st' \<Longrightarrow> parents_ok st' = parents_ok st"
  by (simp add: same_place_def same_links_def parents_ok_def)

text \<open>What is true between two entries of the list of \<open>p\<close>.\<close>

definition place_ok :: "nat \<Rightarrow> pstate \<Rightarrow> bool" where
  "place_ok p st \<longleftrightarrow> ps_menu st = Some p \<and> p < ps_alloc st \<and> slot_owner (ps_last st) < ps_alloc st \<and>
     slot_val (ps_last st) (ps_menus st) = None \<and> parents_ok st \<and>
     (ps_last st = ListOf p \<or> (\<exists>b. ps_last st = NextOf b \<and> b \<noteq> p))"

text \<open>The result of adding trees with the symbols \<open>ss\<close> to the list of \<open>p\<close>.\<close>

definition built :: "nat \<Rightarrow> pstate \<Rightarrow> mtree list \<Rightarrow> sym option list \<Rightarrow> pstate \<Rightarrow> bool" where
  "built p st ts ss st' \<longleftrightarrow> place_ok p st' \<and> (ps_modules st \<noteq> None \<longrightarrow> ps_modules st' \<noteq> None) \<and> links_kept (ps_last st) st st' \<and>
     preorder ts = [ps_alloc st ..< ps_alloc st'] \<and>
     List.map (\<lambda>b. m_sym (ps_menus st' b)) [ps_alloc st ..< ps_alloc st'] = ss \<and>
     menu_seg (ps_menus st') (Some p) (slot_val (ps_last st) (ps_menus st')) ts None"

lemma built_nil: "place_ok p st \<Longrightarrow> built p st [] [] st"
  by (simp add: built_def place_ok_def links_kept_def)

text \<open>An entry with its children \<open>cs\<close>, then the rest of the list.\<close>

lemma built_cons:
  assumes p: "place_ok p st" and k: "links_kept (ps_last st) st st1" and al: "ps_alloc st1 = Suc (ps_alloc st)"
    and a: "m_parent (ps_menus st1 (ps_alloc st)) = Some p" "slot_val (ps_last st) (ps_menus st1) = Some (ps_alloc st)"
      "m_sym (ps_menus st1 (ps_alloc st)) = so"
    and c: "built (ps_alloc st) st1' cs ss st2" and st1': "ps_menus st1' = ps_menus st1" "ps_alloc st1' = ps_alloc st1"
      "ps_modules st \<noteq> None \<longrightarrow> ps_modules st1' \<noteq> None" "ps_last st1' = ListOf (ps_alloc st)"
    and st2': "ps_menus st2' = ps_menus st2" "ps_alloc st2' = ps_alloc st2" "ps_last st2' = NextOf (ps_alloc st)"
      "ps_modules st2 \<noteq> None \<longrightarrow> ps_modules st2' \<noteq> None"
    and r: "built p st2' ts us st3"
  shows "built p st (MNode (ps_alloc st) cs # ts) (so # ss @ us) st3"
proof -
  define a where "a = ps_alloc st"
  have k2: "links_kept (ListOf a) st1' st2" and k3: "links_kept (NextOf a) st2' st3"
    and s2: "menu_seg (ps_menus st2) (Some a) (m_list (ps_menus st2 a)) cs None"
    and s3: "menu_seg (ps_menus st3) (Some p) (m_next (ps_menus st3 a)) ts None"
    and o2: "preorder cs = [Suc a ..< ps_alloc st2]" and o3: "preorder ts = [ps_alloc st2 ..< ps_alloc st3]"
    using c r st1' st2' al by (simp_all add: built_def a_def)
  have le: "Suc a \<le> ps_alloc st2" "ps_alloc st2 \<le> ps_alloc st3"
    using k2 k3 st1' st2' al by (simp_all add: links_kept_def a_def)
  have old: "m_parent (ps_menus st3 b) = m_parent (ps_menus st1 b)" "m_sym (ps_menus st3 b) = m_sym (ps_menus st1 b)"
    "m_file (ps_menus st3 b) = m_file (ps_menus st1 b)" "b \<noteq> a \<Longrightarrow> m_next (ps_menus st3 b) = m_next (ps_menus st1 b)"
    "b \<noteq> a \<Longrightarrow> m_list (ps_menus st3 b) = m_list (ps_menus st1 b)" if "b < Suc a" for b
    using k2 k3 that le st1' st2' al by (simp_all add: links_kept_def a_def)
  have mid: "m_parent (ps_menus st3 b) = m_parent (ps_menus st2 b)" "m_list (ps_menus st3 b) = m_list (ps_menus st2 b)"
    "b \<noteq> a \<Longrightarrow> m_next (ps_menus st3 b) = m_next (ps_menus st2 b)" if "b < ps_alloc st2" for b
    using k3 that st2' by (simp_all add: links_kept_def)
  have own: "slot_owner (ps_last st) < a" using p by (simp add: place_ok_def a_def)
  have sv: "slot_val (ps_last st) (ps_menus st3) = Some a"
    using a(2) old own by (cases "ps_last st") (simp_all add: a_def)
  have "menu_seg (ps_menus st3) (Some a) (m_list (ps_menus st3 a)) cs None"
  proof -
    have "menu_seg (ps_menus st3) (Some a) (m_list (ps_menus st2 a)) cs None"
      by (rule menu_seg_cong[OF s2]) (auto simp: o2 mid)
    then show ?thesis using mid(2)[of a] le by simp
  qed
  then have "menu_seg (ps_menus st3) (Some p) (slot_val (ps_last st) (ps_menus st3)) (MNode a cs # ts) None"
    using s3 sv a(1) old(1)[of a] by (simp add: a_def)
  moreover have "preorder (MNode a cs # ts) = [a ..< ps_alloc st3]"
  proof -
    have "[Suc a ..< ps_alloc st2] @ [ps_alloc st2 ..< ps_alloc st3] = [Suc a ..< ps_alloc st3]"
      using le by (metis le_Suc_ex upt_add_eq_append)
    then show ?thesis using le by (simp add: o2 o3 upt_conv_Cons)
  qed
  moreover have "List.map (\<lambda>b. m_sym (ps_menus st3 b)) [a ..< ps_alloc st3] = so # ss @ us"
  proof -
    have "[a ..< ps_alloc st3] = a # [Suc a ..< ps_alloc st2] @ [ps_alloc st2 ..< ps_alloc st3]"
      using le by (metis le_Suc_ex upt_add_eq_append le_trans upt_conv_Cons Suc_le_eq)
    moreover have "List.map (\<lambda>b. m_sym (ps_menus st3 b)) [Suc a ..< ps_alloc st2] = ss"
      using c k3 st1' st2' al by (auto simp: built_def links_kept_def a_def)
    moreover have "m_sym (ps_menus st3 a) = so"
      using a(3) k2 k3 st1' st2' al le by (simp add: links_kept_def a_def)
    ultimately show ?thesis using r st2' by (simp add: built_def)
  qed
  moreover have "links_kept (ps_last st) st st3"
    using k old le by (auto simp: links_kept_def a_def)
  ultimately show ?thesis using r c st1' st2' by (simp add: built_def a_def)
qed

lemma place_ok_entry:
  assumes "place_ok p st" and "ps_alloc st' = Suc (ps_alloc st)" and "links_kept (ps_last st) st st'"
    and "m_parent (ps_menus st' (ps_alloc st)) = Some p"
  shows "parents_ok st'"
proof -
  have n: "rootmenu < ps_alloc st" "p < ps_alloc st" using assms(1) by (auto simp: place_ok_def rootmenu_def)
  show ?thesis
    using assms n unfolding parents_ok_def place_ok_def links_kept_def by (auto simp: less_Suc_eq)
qed

section \<open>Entries and blocks\<close>

text \<open>A new entry, the current one, to which properties may have been added.\<close>

definition entered :: "sym option \<Rightarrow> pstate \<Rightarrow> pstate \<Rightarrow> bool" where
  "entered so st st' \<longleftrightarrow> (let a = ps_alloc st in
     links_kept (ps_last st) st st' \<and> ps_alloc st' = Suc a \<and> ps_entry st' = a \<and> ps_last st' = NextOf a \<and>
     ps_menu st' = ps_menu st \<and> (ps_modules st \<noteq> None \<longrightarrow> ps_modules st' \<noteq> None) \<and>
     m_next (ps_menus st' a) = None \<and> m_list (ps_menus st' a) = None \<and> m_parent (ps_menus st' a) = ps_menu st \<and>
     m_sym (ps_menus st' a) = so \<and> slot_val (ps_last st) (ps_menus st') = Some a)"

definition entered_file :: "string \<Rightarrow> pstate \<Rightarrow> pstate \<Rightarrow> bool" where
  "entered_file f st st' \<longleftrightarrow> m_file (ps_menus st' (ps_alloc st)) = f"

lemma menu_add_entry_entered:
  "slot_owner (ps_last st) < ps_alloc st \<Longrightarrow> \<exists>st'. menu_add_entry so st = Some st' \<and> entered so st st' \<and> entered_file (ps_file st) st st'"
  by (erule menu_add_entry_correct[of st so]) (auto simp: entered_def entered_file_def Let_def)

lemma entered_after: "entered so st st1 \<Longrightarrow> same_place st1 st2 \<Longrightarrow> entered so st st2"
  using links_kept_place[of "ps_last st" st st1 st2] slot_val_links[of "ps_menus st1" "ps_menus st2" "ps_last st"]
  by (auto simp: entered_def same_place_def same_links_def Let_def)

lemma entered_before: "same_place st st0 \<Longrightarrow> entered so st0 st1 \<Longrightarrow> entered so st st1"
  by (auto simp: entered_def same_place_def same_links_def links_kept_def Let_def)

lemma place_ok_place: "same_place st st' \<Longrightarrow> place_ok p st \<Longrightarrow> place_ok p st'"
  using parents_ok_place[of st st'] slot_val_links[of "ps_menus st" "ps_menus st'" "ps_last st"]
  by (auto simp: place_ok_def same_place_def)

lemma entered_parents: "place_ok p st \<Longrightarrow> entered so st st' \<Longrightarrow> parents_ok st'"
  by (rule place_ok_entry) (auto simp: entered_def place_ok_def Let_def)

lemma entered_place:
  assumes "place_ok p st" and "entered so st st'"
  shows "place_ok p st'" and "place_ok (ps_alloc st) (menu_add_menu st')"
  using assms entered_parents[OF assms] by (auto simp: entered_def place_ok_def parents_ok_def menu_add_menu_def Let_def)

lemma built_place: "built p st ts ss st1 \<Longrightarrow> same_place st1 st2 \<Longrightarrow> built p st ts ss st2"
  using place_ok_place[of st1 st2 p] links_kept_place[of "ps_last st" st st1 st2] slot_val_links[of "ps_menus st1" "ps_menus st2" "ps_last st"]
    menu_seg_links[of "ps_menus st1" "Some p" "slot_val (ps_last st) (ps_menus st1)" ts None "ps_menus st2"]
  by (auto simp: built_def same_place_def)

lemma built_leaf:
  assumes "place_ok p st" and "entered so st st2" and "built p st2 ts us st3"
  shows "built p st (MNode (ps_alloc st) [] # ts) (so # us) st3"
proof -
  let ?a = "ps_alloc st"
  define c0 where "c0 = st2\<lparr>ps_last := ListOf ?a, ps_menu := Some ?a\<rparr>"
  have f: "links_kept (ps_last st) st st2" "ps_alloc st2 = Suc ?a" "m_parent (ps_menus st2 ?a) = Some p" "m_sym (ps_menus st2 ?a) = so"
    "slot_val (ps_last st) (ps_menus st2) = Some ?a" "ps_last st2 = NextOf ?a" "m_list (ps_menus st2 ?a) = None"
    "ps_modules st \<noteq> None \<longrightarrow> ps_modules st2 \<noteq> None"
    using assms(1,2) by (auto simp: entered_def place_ok_def Let_def)
  have "parents_ok st2" by (rule entered_parents[OF assms(1,2)])
  then have c0: "built ?a c0 [] [] c0"
    using f by (intro built_nil) (simp add: c0_def place_ok_def parents_ok_def)
  have "built p st (MNode ?a [] # ts) (so # [] @ us) st3"
    by (rule built_cons[OF assms(1) f(1,2,3,5,4) c0 _ _ _ _ _ _ _ _ assms(3)]) (use f in \<open>auto simp: c0_def\<close>)
  then show ?thesis by simp
qed

lemma built_block_end:
  assumes "place_ok p st" and "entered so st st2" and "built (ps_alloc st) (menu_add_menu st2) cs ss st3"
    and "same_place st3 st3'" and "menu_end_menu st3' = Some st4"
  shows "built (ps_alloc st) (menu_add_menu st2) cs ss st3'" and "place_ok p st4"
    and "st4 = st3'\<lparr>ps_last := NextOf (ps_alloc st), ps_menu := m_parent (ps_menus st3' (ps_alloc st))\<rparr>"
proof -
  let ?a = "ps_alloc st"
  have f: "ps_alloc st2 = Suc ?a" "m_parent (ps_menus st2 ?a) = Some p" "ps_entry st2 = ?a" "m_next (ps_menus st2 ?a) = None"
    using assms(1,2) by (auto simp: entered_def place_ok_def Let_def)
  show b: "built ?a (menu_add_menu st2) cs ss st3'" by (rule built_place[OF assms(3,4)])
  show f4: "st4 = st3'\<lparr>ps_last := NextOf ?a, ps_menu := m_parent (ps_menus st3' ?a)\<rparr>"
    using assms(5) b by (simp add: menu_end_menu_def built_def place_ok_def)
  have l3: "m_parent (ps_menus st3' ?a) = Some p" "m_next (ps_menus st3' ?a) = None" "Suc ?a \<le> ps_alloc st3'"
    using b f by (simp_all add: built_def links_kept_def menu_add_menu_def)
  show "place_ok p st4"
    using b l3 f4 assms(1) by (auto simp: place_ok_def built_def parents_ok_def)
qed

lemma built_block:
  assumes "place_ok p st" and "entered so st st2" and "built (ps_alloc st) (menu_add_menu st2) cs ss st3"
    and "same_place st3 st3'" and "menu_end_menu st3' = Some st4" and "built p st4 ts us st5"
  shows "built p st (MNode (ps_alloc st) cs # ts) (so # ss @ us) st5"
proof -
  let ?a = "ps_alloc st"
  have f: "links_kept (ps_last st) st st2" "ps_alloc st2 = Suc ?a" "m_parent (ps_menus st2 ?a) = Some p" "m_sym (ps_menus st2 ?a) = so"
    "slot_val (ps_last st) (ps_menus st2) = Some ?a" "ps_entry st2 = ?a" "m_list (ps_menus st2 ?a) = None"
    "m_next (ps_menus st2 ?a) = None" "ps_modules st \<noteq> None \<longrightarrow> ps_modules st2 \<noteq> None"
    using assms(1,2) by (auto simp: entered_def place_ok_def Let_def)
  note b = built_block_end[OF assms(1-5)]
  show ?thesis
    by (rule built_cons[OF assms(1) f(1,2,3,5,4) b(1) _ _ _ _ _ _ _ _ assms(6)]) (use f in \<open>auto simp: menu_add_menu_def b(3)\<close>)
qed

section \<open>The start\<close>

text \<open>The state in which the parser starts: no menu but an empty \<open>rootmenu\<close>.\<close>

definition parser_start :: "pstate \<Rightarrow> bool" where
  "parser_start st \<longleftrightarrow> ps_alloc st = Suc rootmenu \<and> m_next (ps_menus st rootmenu) = None \<and>
     m_parent (ps_menus st rootmenu) = None \<and> m_list (ps_menus st rootmenu) = None"

lemma start_place: "parser_start st \<Longrightarrow> place_ok rootmenu (menu_init st)"
  by (auto simp: parser_start_def place_ok_def menu_init_def parents_ok_def rootmenu_def)

lemma built_tree:
  assumes "parser_start st" and "built rootmenu (menu_init st) ts ss st'"
  shows "menu_tree (ps_menus st') ts" and "preorder ts = [1 ..< ps_alloc st']"
    and "List.map (\<lambda>a. m_sym (ps_menus st' a)) (preorder ts) = ss"
  using assms by (auto simp: built_def menu_tree_def parser_start_def menu_init_def links_kept_def place_ok_def rootmenu_def)

definition example_parser :: pstate where
  "example_parser = \<lparr>ps_k = example_state, ps_menus = (\<lambda>_. empty_menu), ps_alloc = 1, ps_entry = 0, ps_menu = None,
     ps_last = ListOf 0, ps_modules = None, ps_defconfig_list = None, ps_env_list = [], ps_file = ''Config.in'',
     ps_lineno = 1, ps_warn = [], ps_errors = 0\<rparr>"

end
