(* ===== verification/Kc_Visible.thy ===== *)
theory Kc_Visible
  imports Kc_Menu_Build
begin

text \<open>
  The questions that menu.c answers about the menus of a configuration: which are visible, what
  their prompts are. The values of symbols are calculated on the way.
\<close>

section \<open>Symbols and menus\<close>

text \<open>The state of the program once the files are read: symbols, menus, and the text being written.\<close>

record wstate =
  w_k :: kstate
  w_menus :: menus
  w_out :: string

definition with_k :: "(kstate \<Rightarrow> kstate) \<Rightarrow> wstate \<Rightarrow> wstate" where
  "with_k f st = st\<lparr>w_k := f (w_k st)\<rparr>"

definition with_out :: "string \<Rightarrow> wstate \<Rightarrow> wstate" where
  "with_out txt st = st\<lparr>w_out := w_out st @ txt\<rparr>"

text \<open>A calculation on the symbols only.\<close>

definition lift_k :: "(kstate \<Rightarrow> ('a \<times> kstate) option) \<Rightarrow> wstate \<Rightarrow> ('a \<times> wstate) option" where
  "lift_k f st = (case f (w_k st) of None \<Rightarrow> None | Some (a, k) \<Rightarrow> Some (a, st\<lparr>w_k := k\<rparr>))"

definition lift_k' :: "(kstate \<Rightarrow> kstate option) \<Rightarrow> wstate \<Rightarrow> wstate option" where
  "lift_k' f st = (case f (w_k st) of None \<Rightarrow> None | Some k \<Rightarrow> Some (st\<lparr>w_k := k\<rparr>))"

definition prompt_prop :: "wstate \<Rightarrow> prompt \<Rightarrow> property" where
  "prompt_prop st pr = (case pr of PSym s i \<Rightarrow> s_prop (k_sym (w_k st) s) ! i | POwn p \<Rightarrow> p)"

section \<open>Visibility\<close>

definition hidden_by_menu :: "calc \<Rightarrow> nat \<Rightarrow> wstate \<Rightarrow> (bool \<times> wstate) option" where
  "hidden_by_menu calc a st =
     (case m_visibility (w_menus st a) of
        None \<Rightarrow> Some (False, st)
      | Some e \<Rightarrow> do { (v, st1) \<leftarrow> lift_k (calc_expr calc e) st; Some (v = tri_no, st1) })"

definition set_own_visible :: "nat \<Rightarrow> tristate \<Rightarrow> wstate \<Rightarrow> wstate" where
  "set_own_visible a v st =
     (case m_prompt (w_menus st a) of
        Some (POwn p) \<Rightarrow> st\<lparr>w_menus := (w_menus st)(a := (w_menus st a)\<lparr>m_prompt := Some (POwn (p\<lparr>p_visible := (p_visible p)\<lparr>ev_tri := v\<rparr>\<rparr>))\<rparr>)\<rparr>
      | Some (PSym s i) \<Rightarrow> with_k (set_prop_visible s i v) st
      | None \<Rightarrow> st)"

text \<open>For an entry with a symbol the visibility of its prompt was stored by \<open>sym_calc_value\<close>.\<close>

definition prompt_visible :: "calc \<Rightarrow> nat \<Rightarrow> prompt \<Rightarrow> wstate \<Rightarrow> (tristate \<times> wstate) option" where
  "prompt_visible calc a pr st =
     (case m_sym (w_menus st a) of
        Some s \<Rightarrow> do {
          st1 \<leftarrow> lift_k' (calc s) st;
          Some (ev_tri (p_visible (prompt_prop st1 pr)), st1) }
      | None \<Rightarrow> do {
          (v, st1) \<leftarrow> lift_k (calc_expr_ptr calc (ev_expr (p_visible (prompt_prop st pr)))) st;
          Some (v, set_own_visible a v st1) })"

text \<open>
  \<open>menu_is_visible\<close> and its loop over the children, with a bound on the number of entries on the
  way, which is None only when it is used up.
\<close>

fun menu_is_visible :: "nat \<Rightarrow> calc \<Rightarrow> nat \<Rightarrow> wstate \<Rightarrow> (bool \<times> wstate) option"
and child_visible :: "nat \<Rightarrow> calc \<Rightarrow> nat option \<Rightarrow> wstate \<Rightarrow> (bool \<times> wstate) option"
where
  "menu_is_visible 0 calc a st = None"
| "menu_is_visible (Suc n) calc a st =
     (case m_prompt (w_menus st a) of
        None \<Rightarrow> Some (False, st)
      | Some pr \<Rightarrow> do {
          (hidden, st1) \<leftarrow> hidden_by_menu calc a st;
          if hidden then Some (False, st1)
          else do {
            (visible, st2) \<leftarrow> prompt_visible calc a pr st1;
            if visible \<noteq> tri_no then Some (True, st2)
            else (case m_sym (w_menus st2 a) of
                    None \<Rightarrow> Some (False, st2)
                  | Some s \<Rightarrow>
                      if sym_get_tristate_value (k_sym (w_k st2) s) = tri_no then Some (False, st2)
                      else do {
                        (any, st3) \<leftarrow> child_visible n calc (m_list (w_menus st2 a)) st2;
                        Some (any, if any then with_k (upd s (set_flags SYMBOL_DEF_USER)) st3 else st3) }) } })"
| "child_visible 0 calc c st = None"
| "child_visible (Suc n) calc c st =
     (case c of
        None \<Rightarrow> Some (False, st)
      | Some c \<Rightarrow> do {
          (v, st1) \<leftarrow> menu_is_visible n calc c st;
          if v then Some (True, st1) else child_visible n calc (m_next (w_menus st1 c)) st1 })"

text \<open>\<open>menu_is_empty\<close>: no child is visible.\<close>

definition menu_is_empty :: "nat \<Rightarrow> calc \<Rightarrow> nat \<Rightarrow> wstate \<Rightarrow> (bool \<times> wstate) option" where
  "menu_is_empty n calc a st = do {
     (any, st1) \<leftarrow> child_visible n calc (m_list (w_menus st a)) st;
     Some (\<not> any, st1) }"

section \<open>Prompts and help\<close>

definition menu_has_prompt :: "menu \<Rightarrow> bool" where
  "menu_has_prompt m \<longleftrightarrow> m_prompt m \<noteq> None"

definition menu_get_prompt :: "wstate \<Rightarrow> nat \<Rightarrow> string option" where
  "menu_get_prompt st a =
     (case m_prompt (w_menus st a) of
        Some pr \<Rightarrow> p_text (prompt_prop st pr)
      | None \<Rightarrow> (case m_sym (w_menus st a) of Some s \<Rightarrow> s_name (k_sym (w_k st) s) | None \<Rightarrow> None))"

definition menu_get_root_menu :: "nat \<Rightarrow> nat" where
  "menu_get_root_menu a = rootmenu"

text \<open>None: the loop follows the parent of a menu that has none.\<close>

partial_function (option) menu_get_parent_menu :: "wstate \<Rightarrow> nat \<Rightarrow> nat option" where
  "menu_get_parent_menu st a =
     (if a = rootmenu \<or> (case m_prompt (w_menus st a) of Some pr \<Rightarrow> p_type (prompt_prop st pr) = P_MENU | None \<Rightarrow> False)
      then Some a
      else (case m_parent (w_menus st a) of None \<Rightarrow> None | Some p \<Rightarrow> menu_get_parent_menu st p))"

definition menu_has_help :: "menu \<Rightarrow> bool" where
  "menu_has_help m \<longleftrightarrow> m_help m \<noteq> None"

definition menu_get_help :: "menu \<Rightarrow> string" where
  "menu_get_help m = (case m_help m of Some h \<Rightarrow> h | None \<Rightarrow> [])"

definition get_symbol_prop :: "symbol \<Rightarrow> property option" where
  "get_symbol_prop y = List.find (\<lambda>p. p_type p = P_SYMBOL) (s_prop y)"

section \<open>Visibility returns\<close>

text \<open>
  The menus keep their links and symbols, and the symbols a property \<open>P\<close> that every calculation
  keeps.
\<close>

definition same_menus :: "wstate \<Rightarrow> wstate \<Rightarrow> bool" where
  "same_menus st st' \<longleftrightarrow> same_links (w_menus st) (w_menus st') \<and>
     (\<forall>a. m_sym (w_menus st' a) = m_sym (w_menus st a) \<and> (m_prompt (w_menus st' a) = None \<longleftrightarrow> m_prompt (w_menus st a) = None))"

lemma same_menus_refl [simp]: "same_menus st st" by (simp add: same_menus_def)

lemma same_menus_trans: "same_menus a b \<Longrightarrow> same_menus b c \<Longrightarrow> same_menus a c"
  by (auto simp: same_menus_def intro: same_links_trans)

lemma same_menus_k [simp]: "same_menus st (with_k f st)" "same_menus st (st\<lparr>w_k := k\<rparr>)" "same_menus st (with_out t st)"
  by (simp_all add: same_menus_def with_k_def with_out_def)

lemma same_menus_left [simp]:
  "same_menus (with_k f st) st' = same_menus st st'" "same_menus st (with_k f st') = same_menus st st'"
  "same_menus st (with_out t st') = same_menus st st'"
  by (simp_all add: same_menus_def with_k_def with_out_def)

lemma with_k_simps [simp]: "w_k (with_k f st) = f (w_k st)" "w_menus (with_k f st) = w_menus st" "w_out (with_k f st) = w_out st"
  "w_k (with_out t st) = w_k st" "w_menus (with_out t st) = w_menus st" "w_out (with_out t st) = w_out st @ t"
  by (simp_all add: with_k_def with_out_def)

definition w_returns :: "(kstate \<Rightarrow> bool) \<Rightarrow> wstate \<Rightarrow> ('a \<times> wstate) option \<Rightarrow> bool" where
  "w_returns P st m \<longleftrightarrow> (\<exists>a st'. m = Some (a, st') \<and> P (w_k st') \<and> same_menus st st')"

definition w_ends :: "(kstate \<Rightarrow> bool) \<Rightarrow> wstate \<Rightarrow> wstate option \<Rightarrow> bool" where
  "w_ends P st m \<longleftrightarrow> (\<exists>st'. m = Some st' \<and> P (w_k st') \<and> same_menus st st')"

lemma w_Some [simp]: "w_returns P st (Some (a, st')) \<longleftrightarrow> P (w_k st') \<and> same_menus st st'"
  "w_ends P st (Some st') \<longleftrightarrow> P (w_k st') \<and> same_menus st st'"
  by (simp_all add: w_returns_def w_ends_def)

lemma w_lift: "returns P (f (w_k st)) \<Longrightarrow> w_returns P st (lift_k f st)" "ends P (g (w_k st)) \<Longrightarrow> w_ends P st (lift_k' g st)"
  by (auto simp: returns_def ends_def w_returns_def w_ends_def lift_k_def lift_k'_def)

lemma w_bind:
  "w_returns P st m \<Longrightarrow> (\<And>a st'. P (w_k st') \<Longrightarrow> same_menus st st' \<Longrightarrow> w_returns P st' (f a st')) \<Longrightarrow>
     w_returns P st (Option.bind m (\<lambda>(a, st). f a st))"
  "w_returns P st m \<Longrightarrow> (\<And>a st'. P (w_k st') \<Longrightarrow> same_menus st st' \<Longrightarrow> w_ends P st' (g a st')) \<Longrightarrow>
     w_ends P st (Option.bind m (\<lambda>(a, st). g a st))"
  "w_ends P st m' \<Longrightarrow> (\<And>st'. P (w_k st') \<Longrightarrow> same_menus st st' \<Longrightarrow> w_returns P st' (h st')) \<Longrightarrow> w_returns P st (Option.bind m' h)"
  "w_ends P st m' \<Longrightarrow> (\<And>st'. P (w_k st') \<Longrightarrow> same_menus st st' \<Longrightarrow> w_ends P st' (k st')) \<Longrightarrow> w_ends P st (Option.bind m' k)"
  by (fastforce simp: w_returns_def w_ends_def split: prod.splits intro: same_menus_trans)+

lemma w_trans: "w_ends P st2 m \<Longrightarrow> same_menus st st2 \<Longrightarrow> w_ends P st m"
  by (auto simp: w_ends_def intro: same_menus_trans)

lemma same_menus_own: "same_menus st (set_own_visible a v st)"
  by (auto simp: set_own_visible_def same_menus_def same_links_def split: option.split prompt.split)

text \<open>What neither a calculation nor a stored visibility changes, the visibility keeps.\<close>

locale visible_keeps =
  fixes R :: "wstate \<Rightarrow> wstate \<Rightarrow> bool"
  assumes same: "R st st"
    and steps: "R x y \<Longrightarrow> R y z \<Longrightarrow> R x z"
    and on_k [simp]: "R st (st\<lparr>w_k := k\<rparr>)"
    and own: "R st (set_own_visible a v st)"
begin

lemma kept_with_k [simp]: "R st (with_k f st)" by (simp add: with_k_def)

lemma kept_lift: "lift_k f st = Some (a, st') \<Longrightarrow> R st st'" "lift_k' g st = Some st' \<Longrightarrow> R st st'"
  by (auto simp: lift_k_def lift_k'_def split: option.splits)

lemma kept_hidden: "hidden_by_menu calc a st = Some (h, st') \<Longrightarrow> R st st'"
  by (auto simp: hidden_by_menu_def dest: kept_lift intro: same split: option.splits Option.bind_splits)

lemma kept_prompt: "prompt_visible calc a pr st = Some (v, st') \<Longrightarrow> R st st'"
  by (auto simp: prompt_visible_def dest!: kept_lift intro: steps own split: option.splits Option.bind_splits)

lemma kept_visible:
  "menu_is_visible n calc a st = Some (v, st') \<Longrightarrow> R st st'"
  "child_visible n calc c st = Some (v', st'') \<Longrightarrow> R st st''"
proof (induction n calc a st and n calc c st arbitrary: v st' and v' st'' rule: menu_is_visible_child_visible.induct)
  case (2 n calc a st)
  show ?case
  proof (cases "m_prompt (w_menus st a)")
    case None
    with 2(2) show ?thesis by (simp add: same)
  next
    case (Some pr)
    then obtain h st1 where h: "hidden_by_menu calc a st = Some (h, st1)"
      using 2(2) by (auto split: Option.bind_splits)
    note s1 = kept_hidden[OF h]
    show ?thesis
    proof (cases h)
      case True
      with 2(2) Some h s1 show ?thesis by simp
    next
      case False
      then obtain t st2 where t: "prompt_visible calc a pr st1 = Some (t, st2)"
        using 2(2) Some h by (auto split: Option.bind_splits)
      note s2 = steps[OF s1 kept_prompt[OF t]]
      have child: "R st2 st3" if "child_visible n calc (m_list (w_menus st2 a)) st2 = Some (b, st3)"
        "t = tri_no" "m_sym (w_menus st2 a) = Some s" "sym_get_tristate_value (k_sym (w_k st2) s) \<noteq> tri_no" for b st3 s
        using 2(1)[OF Some h refl _ t refl] False that by auto
      show ?thesis
        using 2(2) Some h False t s2
        by (auto split: if_splits option.splits Option.bind_splits dest!: child) (blast intro: steps kept_with_k)+
    qed
  qed
next
  case (4 n calc c st)
  show ?case
  proof (cases c)
    case None
    with 4(3) show ?thesis by (simp add: same)
  next
    case (Some b)
    then obtain v1 st1 where v: "menu_is_visible n calc b st = Some (v1, st1)" using 4(3) by (auto split: Option.bind_splits)
    have s1: "R st st1" by (rule 4(1)[OF Some v])
    show ?thesis
    proof (cases v1)
      case True
      with 4(3) Some v s1 show ?thesis by simp
    next
      case False
      with 4(3) Some v have "child_visible n calc (m_next (w_menus st1 b)) st1 = Some (v', st'')" by simp
      from 4(2)[OF Some v refl False this] s1 show ?thesis using steps by blast
    qed
  qed
qed (simp_all add: same)

end

interpretation links: visible_keeps same_menus
  by unfold_locales (auto intro: same_menus_trans same_menus_own)

lemmas same_lift = links.kept_lift
lemmas same_hidden = links.kept_hidden
lemmas same_prompt = links.kept_prompt
lemmas same_visible = links.kept_visible

text \<open>The output stays as well.\<close>

interpretation same_output: visible_keeps "\<lambda>st st'. w_out st' = w_out st"
  by unfold_locales (auto simp: set_own_visible_def split: option.split prompt.split)

context calc_invariant
begin

lemma core_w_user: "P (w_k st) \<Longrightarrow> P (upd s (set_flags SYMBOL_DEF_USER) (w_k st))"
  by (erule core, rule core_set_flags) simp_all

lemma own_visible: "P (w_k st) \<Longrightarrow> P (w_k (set_own_visible a v st))"
  by (auto simp: set_own_visible_def core[OF _ core_set_prop_visible] split: option.split prompt.split)

lemma hidden: "P (w_k st) \<Longrightarrow> w_returns P st (hidden_by_menu calc a st)"
  by (auto simp: hidden_by_menu_def split: option.split intro!: w_bind(1) w_lift expr)

lemma prompt: "P (w_k st) \<Longrightarrow> w_returns P st (prompt_visible calc a pr st)"
  by (auto simp: prompt_visible_def own_visible same_menus_own split: option.split intro!: w_bind w_lift expr_ptr calc)

lemma visible_step:
  assumes "P (w_k st)"
    and "\<And>st'. P (w_k st') \<Longrightarrow> same_menus st st' \<Longrightarrow> w_returns P st' (child_visible n calc (m_list (w_menus st a)) st')"
  shows "w_returns P st (menu_is_visible (Suc n) calc a st)"
proof -
  have l: "m_list (w_menus st' a) = m_list (w_menus st a)" if "same_menus st st'" for st'
    using that by (simp add: same_menus_def same_links_def)
  have children: "w_returns P st2 (do {
      (any, st3) \<leftarrow> child_visible n calc (m_list (w_menus st2 a)) st2;
      Some (any, if any then with_k (upd s (set_flags SYMBOL_DEF_USER)) st3 else st3) })"
    if "P (w_k st2)" "same_menus st st2" for st2 s
    by (rule w_bind(1)) (use assms(2)[OF that] l[OF that(2)] in \<open>simp_all add: core_w_user\<close>)
  show ?thesis
  proof (cases "m_prompt (w_menus st a)")
    case None
    then show ?thesis using assms(1) by simp
  next
    case (Some pr)
    show ?thesis
      unfolding menu_is_visible.simps Some option.case
    proof (rule w_bind(1)[OF hidden[OF assms(1)]])
      fix h st1 assume 1: "P (w_k st1)" "same_menus st st1"
      have "w_returns P st1 (do {
          (visible, st2) \<leftarrow> prompt_visible calc a pr st1;
          if visible \<noteq> tri_no then Some (True, st2)
          else (case m_sym (w_menus st2 a) of
                  None \<Rightarrow> Some (False, st2)
                | Some s \<Rightarrow>
                    if sym_get_tristate_value (k_sym (w_k st2) s) = tri_no then Some (False, st2)
                    else do {
                      (any, st3) \<leftarrow> child_visible n calc (m_list (w_menus st2 a)) st2;
                      Some (any, if any then with_k (upd s (set_flags SYMBOL_DEF_USER)) st3 else st3) }) })"
      proof (rule w_bind(1)[OF prompt[OF 1(1)]])
        fix v st2 assume 2: "P (w_k st2)" "same_menus st1 st2"
        note s2 = same_menus_trans[OF 1(2) 2(2)]
        show "w_returns P st2 (if v \<noteq> tri_no then Some (True, st2)
          else (case m_sym (w_menus st2 a) of
                  None \<Rightarrow> Some (False, st2)
                | Some s \<Rightarrow>
                    if sym_get_tristate_value (k_sym (w_k st2) s) = tri_no then Some (False, st2)
                    else do {
                      (any, st3) \<leftarrow> child_visible n calc (m_list (w_menus st2 a)) st2;
                      Some (any, if any then with_k (upd s (set_flags SYMBOL_DEF_USER)) st3 else st3) }))"
          using 2(1) children[OF 2(1) s2] by (simp split: option.split)
      qed
      with 1(1) show "w_returns P st1 (if h then Some (False, st1) else do {
          (visible, st2) \<leftarrow> prompt_visible calc a pr st1;
          if visible \<noteq> tri_no then Some (True, st2)
          else (case m_sym (w_menus st2 a) of
                  None \<Rightarrow> Some (False, st2)
                | Some s \<Rightarrow>
                    if sym_get_tristate_value (k_sym (w_k st2) s) = tri_no then Some (False, st2)
                    else do {
                      (any, st3) \<leftarrow> child_visible n calc (m_list (w_menus st2 a)) st2;
                      Some (any, if any then with_k (upd s (set_flags SYMBOL_DEF_USER)) st3 else st3) }) })"
        by simp
    qed
  qed
qed

text \<open>The fuel that a list of entries needs, and an entry with its children.\<close>

lemma visible_list:
  "menu_seg (w_menus st) p c ts None \<Longrightarrow> P (w_k st) \<Longrightarrow> 2 * length (preorder ts) < n \<Longrightarrow>
     w_returns P st (child_visible n calc c st)"
proof (induction ts arbitrary: p c st n rule: preorder.induct)
  case 1
  then obtain k where "n = Suc k" "c = None" by (cases n) auto
  with 1 show ?case by simp
next
  case (2 a cs ts)
  then have c: "c = Some a" and segs: "menu_seg (w_menus st) (Some a) (m_list (w_menus st a)) cs None"
    "menu_seg (w_menus st) p (m_next (w_menus st a)) ts None" by simp_all
  obtain k where n: "n = Suc (Suc k)" using 2(5) by (cases n; cases "n - 1") auto
  with 2(5) have k: "2 * length (preorder cs) < k" "2 * length (preorder ts) < Suc k" by simp_all
  have keep: "menu_seg (w_menus st') q h us z" if "menu_seg (w_menus st) q h us z" "same_menus st st'" for q h us z st'
    using that menu_seg_links by (simp add: same_menus_def)
  have first: "w_returns P st (menu_is_visible (Suc k) calc a st)"
    by (rule visible_step[OF 2(4)]) (use 2(1) keep[OF segs(1)] k(1) in blast)
  show ?case unfolding n c child_visible.simps(2)[of "Suc k"] option.case
  proof (rule w_bind(1)[OF first])
    fix v st1 assume 1: "P (w_k st1)" "same_menus st st1"
    then have "m_next (w_menus st1 a) = m_next (w_menus st a)" by (simp add: same_menus_def same_links_def)
    then have "w_returns P st1 (child_visible (Suc k) calc (m_next (w_menus st1 a)) st1)"
      using 2(2)[OF keep[OF segs(2) 1(2)] 1(1) k(2)] by simp
    then show "w_returns P st1 (if v then Some (True, st1) else child_visible (Suc k) calc (m_next (w_menus st1 a)) st1)"
      using 1 by simp
  qed
qed

end

end
