(* ===== verification/Kc_Write.thy ===== *)
theory Kc_Write
  imports Kc_ConfFile Kc_Visible
begin

text \<open>
  The operations of confdata.c on whole configurations: the checks of \<open>conf_read\<close>, \<open>conf_write\<close>,
  \<open>conf_write_defconfig\<close>, what \<open>conf_split_config\<close> touches and what \<open>conf_write_autoconf\<close> prints.
  The prefix \<open>CONFIG_\<close> is the argument \<open>pre\<close>, \<open>n\<close> bounds the depth of the calculations and
  \<open>k\<close> the number of menus that a visibility looks at.
\<close>

section \<open>Reading\<close>

definition sym_set_change_count :: "int \<Rightarrow> kstate \<Rightarrow> kstate" where
  "sym_set_change_count c st = st\<lparr>k_change := c\<rparr>"

definition conf_get_changed :: "kstate \<Rightarrow> bool" where
  "conf_get_changed st \<longleftrightarrow> k_change st \<noteq> 0"

text \<open>\<open>strcmp\<close> of two values.\<close>

definition same_string :: "val \<Rightarrow> val \<Rightarrow> kstate \<Rightarrow> bool \<times> kstate" where
  "same_string v w st = (case c_string v st of (s, st1) \<Rightarrow> case c_string w st1 of (t, st2) \<Rightarrow> (s = t, st2))"

text \<open>Whether the calculated value of a written symbol agrees with the one of the file.\<close>

definition value_agrees :: "sym \<Rightarrow> kstate \<Rightarrow> bool \<times> kstate" where
  "value_agrees s st =
     (let y = k_sym st s in
      if is_boolean_type (s_type y) then (sv_tri (s_def_user y) = sym_get_tristate_value y, st)
      else same_string (sv_val (s_curr y)) (sv_val (s_def_user y)) st)"

definition count_unsaved :: "conf \<Rightarrow> conf" where
  "count_unsaved c = c\<lparr>c_unsaved := Suc (c_unsaved c)\<rparr>"

text \<open>The first loop of \<open>conf_read\<close>.\<close>

definition check_saved :: "nat \<Rightarrow> sym \<Rightarrow> conf \<Rightarrow> conf option" where
  "check_saved n s c = do {
     st \<leftarrow> sym_calc_value n s (c_st c);
     let y = k_sym st s;
     let c1 = c\<lparr>c_st := st\<rparr>;
     if sym_is_choice y \<or> has_flag y SYMBOL_AUTO then Some c1
     else if sym_has_value y \<and> has_flag y SYMBOL_WRITE then
       (case value_agrees s st of (agrees, st1) \<Rightarrow>
          Some (if agrees then c1\<lparr>c_st := st1\<rparr> else count_unsaved (c1\<lparr>c_st := st1\<rparr>)))
     else if \<not> sym_has_value y \<and> \<not> has_flag y SYMBOL_WRITE then Some c1
     else Some (count_unsaved c1) }"

text \<open>The second loop: values of invisible symbols and strings out of range are dropped.\<close>

definition drop_value :: "nat \<Rightarrow> sym \<Rightarrow> conf \<Rightarrow> conf option" where
  "drop_value n s c =
     (let y = k_sym (c_st c) s in
      if \<not> sym_has_value y \<or> sym_is_choice_value y then Some c
      else
        let c1 = (if s_visible y = tri_no \<and> c_unsaved c = 0
                  then with_st (upd s (clear_flags SYMBOL_DEF_USER)) c else c) in
        if s_type y = S_STRING \<or> s_type y = S_INT \<or> s_type y = S_HEX then
          (case c_string (sv_val (s_def_user (k_sym (c_st c1) s))) (c_st c1) of (str, st1) \<Rightarrow> do {
             (ok, st2) \<leftarrow> sym_string_within_range n s str st1;
             Some (if ok then c1\<lparr>c_st := st2\<rparr>
                   else count_unsaved (c1\<lparr>c_st := upd s (clear_flags (SYMBOL_VALID OR SYMBOL_DEF_USER)) st2\<rparr>)) })
        else Some c1)"

text \<open>\<open>conf_read\<close> after the file has been read.\<close>

definition check_config :: "nat \<Rightarrow> conf \<Rightarrow> conf option" where
  "check_config n c = do {
     c1 \<leftarrow> run_all (check_saved n) (for_all_symbols (c_st c)) c;
     c2 \<leftarrow> run_all (drop_value n) (for_all_symbols (c_st c1)) c1;
     Some (with_st (sym_add_change_count (if c_warnings c2 \<noteq> 0 \<or> c_unsaved c2 \<noteq> 0 then 1 else 0)) c2) }"

section \<open>Writing one menu\<close>

definition shown_text :: "string option \<Rightarrow> string" where
  "shown_text t = (case t of Some s \<Rightarrow> s | None \<Rightarrow> ''(null)'')"

definition menu_comment :: "string option \<Rightarrow> string" where
  "menu_comment t = newline @ ''#'' @ newline @ ''# '' @ shown_text t @ newline @ ''#'' @ newline"

text \<open>The body of the loop of \<open>conf_write\<close>.\<close>

definition write_symbol :: "nat \<Rightarrow> (symbol \<Rightarrow> string \<Rightarrow> string) \<Rightarrow> sym \<Rightarrow> wstate \<Rightarrow> wstate option" where
  "write_symbol n print s st = do {
     (txt, st1) \<leftarrow> lift_k (conf_write_symbol n print s) st;
     Some (with_out txt st1) }"

definition write_entry :: "nat \<Rightarrow> nat \<Rightarrow> string \<Rightarrow> nat \<Rightarrow> wstate \<Rightarrow> wstate option" where
  "write_entry n k pre a st =
     (case m_sym (w_menus st a) of
        None \<Rightarrow> do {
          (visible, st1) \<leftarrow> menu_is_visible k (sym_calc_value n) a st;
          Some (if visible then with_out (menu_comment (menu_get_prompt st1 a)) st1 else st1) }
      | Some s \<Rightarrow>
          if sym_is_choice (k_sym (w_k st) s) then Some st
          else do {
            st1 \<leftarrow> lift_k' (sym_calc_value n s) st;
            if \<not> has_flag (k_sym (w_k st1) s) SYMBOL_WRITE then Some st1
            else write_symbol n (\<lambda>y v. kconfig_print_symbol pre y v False) s
                   (with_k (upd s (clear_flags SYMBOL_WRITE)) st1) })"

text \<open>
  The body of the loop of \<open>conf_write_defconfig\<close>: what the user cannot change, what has its
  default value and the default of a choice are left out.
\<close>

definition is_choice_default :: "nat \<Rightarrow> sym \<Rightarrow> kstate \<Rightarrow> (bool \<times> kstate) option" where
  "is_choice_default n s st =
     (if sym_is_choice_value (k_sym st s) then
        (case choice_of (k_sym st s) of
           None \<Rightarrow> Some (False, undefined_use st)
         | Some cs \<Rightarrow> do {
             (ds, st1) \<leftarrow> sym_choice_default (sym_calc_value n) cs st;
             Some (\<not> sym_is_optional (k_sym st1 cs) \<and> ds = Some s \<and> s_type (k_sym st1 s) = S_BOOLEAN
                   \<and> sym_get_tristate_value (k_sym st1 s) = tri_yes, st1) })
      else Some (False, st))"

definition is_default :: "nat \<Rightarrow> sym \<Rightarrow> kstate \<Rightarrow> (bool \<times> kstate) option" where
  "is_default n s st = do {
     (v, st1) \<leftarrow> sym_get_string_value (sym_calc_value n) s st;
     (d, st2) \<leftarrow> sym_get_string_default n s st1;
     if v = d then Some (True, st2) else is_choice_default n s st2 }"

definition write_defconfig_entry :: "nat \<Rightarrow> nat \<Rightarrow> string \<Rightarrow> nat \<Rightarrow> wstate \<Rightarrow> wstate option" where
  "write_defconfig_entry n k pre a st =
     (case m_sym (w_menus st a) of
        None \<Rightarrow> do { (visible, st1) \<leftarrow> menu_is_visible k (sym_calc_value n) a st; Some st1 }
      | Some s \<Rightarrow>
          if sym_is_choice (k_sym (w_k st) s) then Some st
          else do {
            st1 \<leftarrow> lift_k' (sym_calc_value n s) st;
            if \<not> has_flag (k_sym (w_k st1) s) SYMBOL_WRITE then Some st1
            else do {
              let st2 = with_k (upd s (clear_flags SYMBOL_WRITE)) st1;
              if \<not> sym_is_changable (k_sym (w_k st2) s) then Some st2
              else do {
                (skip, st3) \<leftarrow> lift_k (is_default n s) st2;
                if skip then Some st3
                else write_symbol n (\<lambda>y v. kconfig_print_symbol pre y v False) s st3 } } })"

section \<open>Writing the files\<close>

text \<open>\<open>snprintf\<close> into 256 bytes.\<close>

definition conf_heading :: "string option \<Rightarrow> string" where
  "conf_heading title =
     take 255 (newline @ ''Automatically generated file; DO NOT EDIT.'' @ newline @ shown_text title @ newline)"

definition conf_write_heading :: "(string \<Rightarrow> string) \<Rightarrow> wstate \<Rightarrow> wstate" where
  "conf_write_heading print st = with_out (print (conf_heading (menu_get_prompt st rootmenu))) st"

text \<open>The loops over the menus, with the text that they print.\<close>

definition conf_write_menus :: "nat \<Rightarrow> nat \<Rightarrow> string \<Rightarrow> wstate \<Rightarrow> wstate option" where
  "conf_write_menus n k pre st = visit_menus w_menus (write_entry n k pre) (m_list (w_menus st rootmenu)) st"

definition conf_write_defconfig :: "nat \<Rightarrow> nat \<Rightarrow> string \<Rightarrow> wstate \<Rightarrow> wstate option" where
  "conf_write_defconfig n k pre st = do {
     st1 \<leftarrow> lift_k' (sym_clear_all_valid n) (st\<lparr>w_out := []\<rparr>);
     visit_menus w_menus (write_defconfig_entry n k pre) (m_list (w_menus st1 rootmenu)) st1 }"

text \<open>The text of \<open>.config\<close>.\<close>

definition conf_text :: "nat \<Rightarrow> nat \<Rightarrow> string \<Rightarrow> wstate \<Rightarrow> wstate option" where
  "conf_text n k pre st = do {
     let st1 = conf_write_heading kconfig_print_comment (st\<lparr>w_out := []\<rparr>);
     st2 \<leftarrow> (if \<not> conf_get_changed (w_k st1) then lift_k' (sym_clear_all_valid n) st1 else Some st1);
     conf_write_menus n k pre st2 }"

section \<open>conf_write\<close>

text \<open>
  What \<open>conf_write\<close> learns from its environment: \<open>conf_get_configname\<close>, which names are
  directories, the environment variable \<open>KCONFIG_OVERWRITECONFIG\<close>, the process number, which
  files can be opened and which renamings succeed.
\<close>

record out_env =
  oe_configname :: string
  oe_is_dir :: "string \<Rightarrow> bool"
  oe_overwrite :: "string option"
  oe_pid :: nat
  oe_writable :: "string \<Rightarrow> bool"
  oe_movable :: "string \<Rightarrow> string \<Rightarrow> bool"

type_synonym files = "string \<Rightarrow> string option"

text \<open>The name up to its last slash, \<open>strrchr\<close>.\<close>

definition up_to_slash :: "string \<Rightarrow> string" where
  "up_to_slash name = rev (dropWhile (\<lambda>c. c \<noteq> CHR ''/'') (rev name))"

text \<open>The directory part and the last part of the name of the file.\<close>

definition conf_target :: "out_env \<Rightarrow> string option \<Rightarrow> string \<times> string" where
  "conf_target env name =
     (let nm = (case name of None \<Rightarrow> oe_configname env | Some x \<Rightarrow> x) in
      if nm = [] then ([], oe_configname env)
      else if oe_is_dir env nm then (nm @ ''/'', oe_configname env)
      else let dir = up_to_slash nm; rest = drop (length dir) nm in
        if dir \<noteq> [] then (dir, if rest \<noteq> [] then rest else oe_configname env)
        else ([], nm))"

definition rename_file :: "out_env \<Rightarrow> string \<Rightarrow> string \<Rightarrow> files \<Rightarrow> files option" where
  "rename_file env a b fs =
     (if oe_movable env a b \<and> fs a \<noteq> None then Some (if a = b then fs else fs(b := fs a, a := None)) else None)"

definition overwrites :: "out_env \<Rightarrow> bool" where
  "overwrites env \<longleftrightarrow> (case oe_overwrite env of None \<Rightarrow> False | Some v \<Rightarrow> v \<noteq> [])"

definition new_name :: "out_env \<Rightarrow> string option \<Rightarrow> string" where
  "new_name env name = fst (conf_target env name) @ snd (conf_target env name)"

definition tmp_name :: "out_env \<Rightarrow> string option \<Rightarrow> string" where
  "tmp_name env name = fst (conf_target env name) @ ''.tmpconfig.'' @ nat_str 10 (oe_pid env)"

definition old_name :: "out_env \<Rightarrow> string option \<Rightarrow> string" where
  "old_name env name = new_name env name @ ''.old''"

text \<open>The configuration is written to a temporary file that replaces the old one at the end.\<close>

definition conf_write ::
  "nat \<Rightarrow> nat \<Rightarrow> string \<Rightarrow> out_env \<Rightarrow> string option \<Rightarrow> wstate \<Rightarrow> files \<Rightarrow> (nat \<times> wstate \<times> files) option"
where
  "conf_write n k pre env name st fs =
     (let out = (if overwrites env then new_name env name else tmp_name env name) in
      if \<not> oe_writable env out then Some (1, st, fs)
      else do {
        st1 \<leftarrow> conf_text n k pre st;
        let fs1 = fs(out \<mapsto> w_out st1);
        let st2 = with_k (sym_set_change_count 0) st1;
        if overwrites env then Some (0, st2, fs1)
        else
          let fs2 = (case rename_file env (new_name env name) (old_name env name) fs1 of None \<Rightarrow> fs1 | Some f \<Rightarrow> f) in
          (case rename_file env (tmp_name env name) (new_name env name) fs2 of
             None \<Rightarrow> Some (1, st1, fs2)
           | Some fs3 \<Rightarrow> Some (0, st2, fs3)) })"

end
