(* ===== verification/Kc_Write_Total.thy ===== *)
theory Kc_Write_Total
  imports Kc_Write Kc_Set
begin

text \<open>
  Writing a configuration returns: the loops of \<open>conf_write\<close> and \<open>conf_write_defconfig\<close> visit
  every menu of a well-formed tree once, in the order of the tree, and each body returns.
\<close>

section \<open>The bodies return\<close>

text \<open>What an entry needs: fuel for the visibility of itself and of the entries below it.\<close>

definition entry_ok :: "nat \<Rightarrow> menus \<Rightarrow> nat \<Rightarrow> bool" where
  "entry_ok k ms a \<longleftrightarrow> (\<exists>cs. menu_seg ms (Some a) (m_list (ms a)) cs None \<and> Suc (2 * length (preorder cs)) < k)"

lemma bind_triple:
  "(\<exists>v w st'. m = Some (v, w, st') \<and> P st') \<Longrightarrow> (\<And>v w st. P st \<Longrightarrow> returns Q (f v w st)) \<Longrightarrow>
     returns Q (Option.bind m (\<lambda>(v, w, st). f v w st))"
  by auto

text \<open>The contract of the calculation, for the functions that call \<open>sym_calc_value\<close> itself.\<close>

locale conf_writer = calc_invariant P "sym_calc_value n" for P and n :: nat
begin

lemma default_val:
  "P st \<Longrightarrow> \<exists>v w st'. default_values n s t prop st = Some (v, w, st') \<and> P st'"
proof (cases "prop")
  case (Some i)
  assume P: "P st"
  obtain v st' where "calc_default_value (sym_calc_value n) s i st = Some (v, st')" "P st'"
    using default_value[OF P, of s i] by (auto simp: returns_def)
  moreover have "\<exists>v w st'. sym_calc_value n ds st \<bind> (\<lambda>st1. Some (tri_no, sv_val (s_curr (k_sym st1 ds)), st1))
      = Some (v, w, st') \<and> P st'" for ds
    using calc[OF P, of ds] by (auto simp: ends_def)
  ultimately show ?thesis using P Some by (auto simp: default_values_def split: option.split)
qed (simp add: default_values_def)

lemma string_default: "P st \<Longrightarrow> returns P (sym_get_string_default n s st)"
  unfolding sym_get_string_default_def Let_def
proof (rule bind_keeps(2)[OF visibility], assumption, rule bind_keeps(2)[OF calc], assumption,
    rule bind_pair_keeps(2)[OF default_prop], assumption, rule bind_triple[where P = P])
  show "\<exists>v w st'. default_values n s t prop st = Some (v, w, st') \<and> P st'" if "P st" for t "prop" st
    by (rule default_val[OF that])
  show "returns P (Some (if b then (x, st) else if c then c_string w st else ([], st)))" if "P st" for b c x w st
    using that by (simp add: returns_pair core[OF _ core_c_string])
qed

lemma written_symbol: "P st \<Longrightarrow> returns P (conf_write_symbol n print s st)"
  by (auto simp: conf_write_symbol_def Let_def intro!: bind_pair_keeps(2) string_value)

lemma write_symbol: "P (w_k st) \<Longrightarrow> w_ends P st (write_symbol n print s st)"
  by (auto simp: write_symbol_def intro!: w_bind(2) w_lift written_symbol)

lemma choice_is_default: "P st \<Longrightarrow> returns P (is_choice_default n s st)"
  by (auto simp: is_choice_default_def core[OF _ core_undefined_use] split: option.split
      intro!: bind_pair_keeps(2) choice_default)

lemma value_is_default: "P st \<Longrightarrow> returns P (is_default n s st)"
  by (auto simp: is_default_def choice_is_default intro!: bind_pair_keeps(2) string_value string_default)

lemma not_written: "P (w_k st) \<Longrightarrow> P (upd s (clear_flags SYMBOL_WRITE) (w_k st))"
  by (erule core) (rule core_write)

lemma entry_visible:
  assumes "P (w_k st)" and "entry_ok k (w_menus st) a"
  shows "w_returns P st (menu_is_visible k (sym_calc_value n) a st)"
proof -
  obtain cs where cs: "menu_seg (w_menus st) (Some a) (m_list (w_menus st a)) cs None" "Suc (2 * length (preorder cs)) < k"
    using assms(2) by (auto simp: entry_ok_def)
  then obtain j where j: "k = Suc j" "2 * length (preorder cs) < j" by (cases k) auto
  show ?thesis unfolding j
  proof (rule visible_step[OF assms(1)])
    fix st' assume "P (w_k st')" "same_menus st st'"
    then show "w_returns P st' (child_visible j (sym_calc_value n) (m_list (w_menus st a)) st')"
      using visible_list[OF menu_seg_links[OF cs(1)] _ j(2)] by (simp add: same_menus_def)
  qed
qed

lemma write_entry:
  assumes "P (w_k st)" and "entry_ok k (w_menus st) a"
  shows "w_ends P st (write_entry n k pre a st)"
proof (cases "m_sym (w_menus st a)")
  case None
  then show ?thesis
    by (auto simp: write_entry_def intro!: w_bind(2)[OF entry_visible[OF assms]])
next
  case (Some s)
  then show ?thesis
    using assms(1) by (auto simp: write_entry_def intro!: w_bind(4)[OF w_lift(2)[OF calc]] w_trans[OF write_symbol] not_written)
qed

lemma write_defconfig_entry:
  assumes "P (w_k st)" and "entry_ok k (w_menus st) a"
  shows "w_ends P st (write_defconfig_entry n k pre a st)"
proof (cases "m_sym (w_menus st a)")
  case None
  then show ?thesis
    by (auto simp: write_defconfig_entry_def intro!: w_bind(2)[OF entry_visible[OF assms]])
next
  case (Some s)
  have "w_ends P st1 (do {
      (skip, st3) \<leftarrow> lift_k (is_default n s) st1;
      if skip then Some st3 else write_symbol n (\<lambda>y v. kconfig_print_symbol pre y v False) s st3 })"
    if "P (w_k st1)" for st1
    by (rule w_bind(2)[OF w_lift(1)[where f = "is_default n s", OF value_is_default[OF that]]]) (simp add: write_symbol)
  from w_trans[OF this, of "with_k (upd s (clear_flags SYMBOL_WRITE)) st1" st1 for st1]
  have "w_ends P st1 (do {
      (skip, st3) \<leftarrow> lift_k (is_default n s) (with_k (upd s (clear_flags SYMBOL_WRITE)) st1);
      if skip then Some st3 else write_symbol n (\<lambda>y v. kconfig_print_symbol pre y v False) s st3 })"
    if "P (w_k st1)" for st1
    using that by (simp add: not_written)
  with Some show ?thesis
    using assms(1) by (auto simp: write_defconfig_entry_def Let_def not_written intro!: w_bind(4)[OF w_lift(2)[OF calc]])
qed

lemma run_entries:
  assumes "\<And>st a. P (w_k st) \<Longrightarrow> entry_ok k (w_menus st) a \<Longrightarrow> w_ends P st (body a st)"
  shows "P (w_k st) \<Longrightarrow> (\<And>a. a \<in> set as \<Longrightarrow> entry_ok k (w_menus st) a) \<Longrightarrow> w_ends P st (run_all body as st)"
proof (induction as arbitrary: st)
  case (Cons a as)
  show ?case unfolding run_all.simps
  proof (rule w_bind(4)[OF assms[OF Cons.prems(1) Cons.prems(2)]])
    fix st1 assume 1: "P (w_k st1)" "same_menus st st1"
    have "entry_ok k (w_menus st1) b" if b: "b \<in> set as" for b
    proof -
      obtain cs where cs: "menu_seg (w_menus st) (Some b) (m_list (w_menus st b)) cs None" "Suc (2 * length (preorder cs)) < k"
        using Cons.prems(2)[of b] b unfolding entry_ok_def by auto
      have l: "same_links (w_menus st) (w_menus st1)" using 1(2) by (simp add: same_menus_def)
      then have "m_list (w_menus st1 b) = m_list (w_menus st b)" by (simp add: same_links_def)
      with menu_seg_links[OF cs(1) l] cs(2) show ?thesis by (auto simp: entry_ok_def)
    qed
    with Cons.IH[OF 1(1)] show "w_ends P st1 (run_all body as st1)" by blast
  qed simp
qed simp

end

interpretation writer: conf_writer "calc_ok F V m" "Suc m" for F V m
  by (rule conf_writer.intro) unfold_locales

section \<open>The loops visit every menu once\<close>

lemma same_write_symbol: "write_symbol n print s st = Some st' \<Longrightarrow> same_menus st st'"
  by (auto simp: write_symbol_def dest!: same_lift intro: same_menus_trans same_menus_k split: Option.bind_splits)

lemma same_write_entry: "write_entry n k pre a st = Some st' \<Longrightarrow> same_menus st st'"
  by (auto simp: write_entry_def dest!: same_lift same_visible same_write_symbol
      split: Option.bind_splits option.splits if_splits) (meson same_menus_trans)+

lemma same_write_defconfig_entry: "write_defconfig_entry n k pre a st = Some st' \<Longrightarrow> same_menus st st'"
  by (auto simp: write_defconfig_entry_def Let_def dest!: same_lift same_visible same_write_symbol
      split: Option.bind_splits option.splits if_splits) (meson same_menus_trans)+

interpretation config: menu_visitor w_menus "write_entry n k pre" for n k pre
  by unfold_locales (drule same_write_entry, simp add: same_menus_def)

interpretation defconfig: menu_visitor w_menus "write_defconfig_entry n k pre" for n k pre
  by unfold_locales (drule same_write_defconfig_entry, simp add: same_menus_def)

lemma tree_children:
  "menu_seg ms p h ts z \<Longrightarrow> a \<in> set (preorder ts) \<Longrightarrow>
     \<exists>cs. menu_seg ms (Some a) (m_list (ms a)) cs None \<and> length (preorder cs) < length (preorder ts)"
proof (induction ms p h ts z rule: menu_seg.induct)
  case (2 ms p h b cs ts z)
  then consider "a = b" | "a \<in> set (preorder cs)" | "a \<in> set (preorder ts)" by auto
  then show ?case
  proof cases
    case 1
    with 2 show ?thesis by (auto intro!: exI[of _ cs])
  next
    case c: 2
    with 2 show ?thesis by fastforce
  next
    case 3
    with 2 show ?thesis by fastforce
  qed
qed simp

lemma tree_entries: "menu_tree ms ts \<Longrightarrow> 2 * length (preorder ts) \<le> k \<Longrightarrow> a \<in> set (preorder ts) \<Longrightarrow> entry_ok k ms a"
  using tree_children[of ms "Some rootmenu" "m_list (ms rootmenu)" ts None a] by (fastforce simp: menu_tree_def entry_ok_def)

text \<open>A state in which everything that is written can be calculated.\<close>

definition writable_state :: "nat \<Rightarrow> nat \<Rightarrow> mtree list \<Rightarrow> wstate \<Rightarrow> bool" where
  "writable_state n k ts st \<longleftrightarrow> sane (w_k st) \<and> pending (w_k st) < n \<and> menu_tree (w_menus st) ts \<and>
     2 * length (preorder ts) \<le> k"

lemma writable_runs:
  assumes "writable_state n k ts st"
    and body: "\<And>F V m st a. n = Suc m \<Longrightarrow> calc_ok F V m (w_k st) \<Longrightarrow> entry_ok k (w_menus st) a \<Longrightarrow>
      w_ends (calc_ok F V m) st (body a st)"
  shows "\<exists>st'. run_all body (preorder ts) st = Some st' \<and> writable_state n k ts st'"
proof -
  obtain m where n: "n = Suc m" using assms(1) by (cases n) (auto simp: writable_state_def)
  let ?F = "frame_of (w_k st)" and ?V = "valid_syms (w_k st)"
  have ok: "calc_ok ?F ?V m (w_k st)"
    using sane_calc_ok[of "w_k st"] assms(1) n by (auto simp: writable_state_def calc_ok_def)
  have "w_ends (calc_ok ?F ?V m) st (run_all body (preorder ts) st)"
    using writer.run_entries[OF body[OF n] ok] assms(1) tree_entries by (auto simp: writable_state_def)
  then obtain st' where st': "run_all body (preorder ts) st = Some st'" "calc_ok ?F ?V m (w_k st')" "same_menus st st'"
    by (auto simp: w_ends_def)
  have "sane (w_k st')" "pending (w_k st') \<le> m"
    using calc_ok_sane[of "w_k st" m "w_k st'"] st'(2) assms(1) by (auto simp: writable_state_def)
  moreover have "menu_tree (w_menus st') ts"
    using menu_tree_links st'(3) assms(1) by (auto simp: writable_state_def same_menus_def)
  ultimately show ?thesis using st'(1) assms(1) n by (auto simp: writable_state_def)
qed

lemma cleared_writable:
  assumes "writable_state n k ts st" and "need_syms (w_k st) = {}" and "symbol_no \<notin> set (k_list (w_k st))"
    and "card (open_syms (w_k st) \<union> set (k_list (w_k st))) < n"
  shows "\<exists>st'. lift_k' (sym_clear_all_valid n) st = Some st' \<and> writable_state n k ts st' \<and> w_out st' = w_out st"
proof -
  obtain k' where "sym_clear_all_valid n (w_k st) = Some k'" "sane k'" "pending k' < n"
    using clear_all_valid_sane[OF _ assms(2-4), of thesis] assms(1) by (auto simp: writable_state_def)
  then show ?thesis using assms(1) by (auto simp: lift_k'_def writable_state_def)
qed

lemma conf_text_runs:
  assumes "writable_state n k ts st" and "need_syms (w_k st) = {}" and "symbol_no \<notin> set (k_list (w_k st))"
    and "card (open_syms (w_k st) \<union> set (k_list (w_k st))) < n"
  shows "\<exists>st1 st'. conf_text n k pre st = Some st' \<and> run_all (write_entry n k pre) (preorder ts) st1 = Some st' \<and>
    w_out st1 = kconfig_print_comment (conf_heading (menu_get_prompt st rootmenu)) \<and> writable_state n k ts st'"
proof -
  define st0 where "st0 = conf_write_heading kconfig_print_comment (st\<lparr>w_out := []\<rparr>)"
  have s0: "w_k st0 = w_k st" "w_menus st0 = w_menus st"
    "w_out st0 = kconfig_print_comment (conf_heading (menu_get_prompt st rootmenu))"
    by (simp_all add: st0_def conf_write_heading_def menu_get_prompt_def prompt_prop_def cong: option.case_cong prompt.case_cong)
  have ok: "writable_state n k ts st0" using assms(1) s0 by (simp add: writable_state_def)
  obtain st1 where st1: "(if \<not> conf_get_changed (w_k st0) then lift_k' (sym_clear_all_valid n) st0 else Some st0) = Some st1"
    "writable_state n k ts st1" "w_out st1 = w_out st0"
    using cleared_writable[OF ok] assms(2-4) s0 ok that by (cases "conf_get_changed (w_k st0)") auto
  obtain st' where st': "run_all (write_entry n k pre) (preorder ts) st1 = Some st'" "writable_state n k ts st'"
    using writable_runs[OF st1(2), of "write_entry n k pre"] writer.write_entry by auto
  have "conf_text n k pre st = run_all (write_entry n k pre) (preorder ts) st1"
    using st1 config.visit_tree[of st1 ts n k pre] by (simp add: conf_text_def Let_def st0_def[symmetric] conf_write_menus_def writable_state_def)
  with st' st1 s0 show ?thesis by auto
qed

text \<open>
  C15: Writing the configuration returns, and the loop over \<open>list\<close>, \<open>next\<close> and \<open>parent\<close> is the list
  of all menus in the order of the tree, each visited once, after the heading.
\<close>

theorem conf_write_visits_all:
  assumes "writable_state n k ts st" and "need_syms (w_k st) = {}" and "symbol_no \<notin> set (k_list (w_k st))"
    and "card (open_syms (w_k st) \<union> set (k_list (w_k st))) < n"
  shows "\<exists>st1 st'. conf_text n k pre st = Some st' \<and> run_all (write_entry n k pre) (preorder ts) st1 = Some st' \<and>
    w_out st1 = kconfig_print_comment (conf_heading (menu_get_prompt st rootmenu)) \<and> writable_state n k ts st'"
  by (rule conf_text_runs[OF assms])

text \<open>
  The minimal configuration is written the same way, after all values have been invalidated.
\<close>

theorem conf_write_defconfig_visits_all:
  assumes "writable_state n k ts st" and "need_syms (w_k st) = {}" and "symbol_no \<notin> set (k_list (w_k st))"
    and "card (open_syms (w_k st) \<union> set (k_list (w_k st))) < n"
  shows "\<exists>st1 st'. conf_write_defconfig n k pre st = Some st' \<and> w_out st1 = [] \<and>
    run_all (write_defconfig_entry n k pre) (preorder ts) st1 = Some st' \<and> writable_state n k ts st'"
proof -
  let ?st0 = "st\<lparr>w_out := []\<rparr>"
  have ok: "writable_state n k ts ?st0" using assms(1) by (simp add: writable_state_def)
  obtain st1 where st1: "lift_k' (sym_clear_all_valid n) ?st0 = Some st1" "writable_state n k ts st1" "w_out st1 = []"
    using cleared_writable[OF ok] assms(2-4) by auto
  obtain st' where st': "run_all (write_defconfig_entry n k pre) (preorder ts) st1 = Some st'" "writable_state n k ts st'"
    using writable_runs[OF st1(2), of "write_defconfig_entry n k pre"] writer.write_defconfig_entry by auto
  have "conf_write_defconfig n k pre st = run_all (write_defconfig_entry n k pre) (preorder ts) st1"
    using st1 defconfig.visit_tree[of st1 ts n k pre] by (simp add: conf_write_defconfig_def writable_state_def)
  with st' st1 show ?thesis by auto
qed

section \<open>The files\<close>

lemma nat_str_last: "isdigit (last (nat_str 10 n)) \<and> nat_str 10 n \<noteq> []"
proof -
  have "digit_of 10 c \<noteq> None \<Longrightarrow> isdigit c" for c
    by (auto simp: digit_of_def Let_def isdigit_def split: if_splits)
  moreover have ne: "nat_str 10 n \<noteq> []" by (subst nat_str.simps) simp
  moreover have "digit_of 10 (last (nat_str 10 n)) \<noteq> None"
    using nat_str_digits[of 10 n] ne by (auto simp: list_all_iff)
  ultimately show ?thesis by blast
qed

lemma file_names:
  assumes "\<not> starts_with (snd (conf_target env name)) ''.tmpconfig.''"
  shows "tmp_name env name \<noteq> new_name env name" "tmp_name env name \<noteq> old_name env name"
    "new_name env name \<noteq> old_name env name"
proof -
  show "tmp_name env name \<noteq> new_name env name"
    using assms by (metis tmp_name_def new_name_def same_append_eq starts_with_append)
  have "last (tmp_name env name) \<noteq> CHR ''d''"
    using nat_str_last[of "oe_pid env"] by (auto simp: tmp_name_def isdigit_def code_def)
  moreover have "last (old_name env name) = CHR ''d''" by (simp add: old_name_def)
  ultimately show "tmp_name env name \<noteq> old_name env name" by auto
qed (simp add: old_name_def)


section \<open>A configuration with one entry\<close>

definition example_menus :: menus where
  "example_menus = (\<lambda>a. if a = 0 then empty_menu\<lparr>m_list := Some 1\<rparr>
     else if a = 1 then empty_menu\<lparr>m_parent := Some 0, m_sym := Some (sym_at 3)\<rparr> else empty_menu)"

definition example_config :: wstate where
  "example_config = \<lparr>w_k = example_state, w_menus = example_menus, w_out = []\<rparr>"

definition example_env :: out_env where
  "example_env = \<lparr>oe_configname = ''.config'', oe_is_dir = (\<lambda>_. False), oe_overwrite = None, oe_pid = 7,
     oe_writable = (\<lambda>_. True), oe_movable = (\<lambda>_ _. True)\<rparr>"

lemma example_writable: "writable_state 9 4 [MNode 1 []] example_config"
  by (simp add: writable_state_def example_config_def example_sane example_open menu_tree_def example_menus_def
      empty_menu_def rootmenu_def)

lemma example_config_k [simp]: "w_k example_config = example_state"
  by (simp add: example_config_def)

lemma example_card: "card (open_syms example_state \<union> set (k_list example_state)) < 9"
  by (simp add: example_open example_list)

theorem conf_write_visits_all_witness:
  "\<exists>st1 st'. conf_text 9 4 [] example_config = Some st' \<and> run_all (write_entry 9 4 []) [1] st1 = Some st'"
  using conf_write_visits_all[OF example_writable, of "[]"] by (auto simp: example_open example_list)

theorem conf_write_defconfig_visits_all_witness:
  "\<exists>st1 st'. conf_write_defconfig 9 4 [] example_config = Some st' \<and> run_all (write_defconfig_entry 9 4 []) [1] st1 = Some st'"
  using conf_write_defconfig_visits_all[OF example_writable, of "[]"] by (auto simp: example_open example_list)


end
