(* ===== verification/Kc_Auto.thy ===== *)
theory Kc_Auto
  imports Kc_Write_Total
begin

text \<open>
  The rest of confdata.c: which include files \<open>conf_split_config\<close> touches so that make rebuilds
  what depends on a changed symbol, the three texts of \<open>conf_write_autoconf\<close>, and
  \<open>conf_set_all_new_symbols\<close> with the random configurations.
\<close>

section \<open>Changed symbols\<close>

text \<open>Whether the file of a symbol is touched, lines 867 to 915.\<close>

definition new_value_differs :: "nat \<Rightarrow> sym \<Rightarrow> kstate \<Rightarrow> (bool \<times> kstate) option" where
  "new_value_differs n s st =
     (let y = k_sym st s in
      if is_boolean_type (s_type y) then Some (sym_get_tristate_value y \<noteq> sv_tri (s_def_auto y), st)
      else if s_type y = S_STRING \<or> s_type y = S_HEX \<or> s_type y = S_INT then do {
        (v, st1) \<leftarrow> sym_get_string_value (sym_calc_value n) s st;
        (case c_string (sv_val (s_def_auto (k_sym st1 s))) st1 of (w, st2) \<Rightarrow> Some (v \<noteq> w, st2)) }
      else Some (True, st))"

definition needs_touch :: "nat \<Rightarrow> sym \<Rightarrow> kstate \<Rightarrow> (bool \<times> kstate) option" where
  "needs_touch n s st0 = do {
     st \<leftarrow> sym_calc_value n s st0;
     let y = k_sym st s;
     if has_flag y SYMBOL_AUTO \<or> s_name y = None then Some (False, st)
     else if has_flag y SYMBOL_WRITE then
       if has_flag y SYMBOL_DEF_AUTO then new_value_differs n s st
       else Some (\<not> (is_boolean_type (s_type y) \<and> sym_get_tristate_value y = tri_no), st)
     else Some (has_flag y SYMBOL_DEF_AUTO, st) }"

text \<open>The name in lower case, with a slash for every underscore, and ".h".\<close>

definition include_path :: "string \<Rightarrow> string" where
  "include_path name = List.map (\<lambda>c. if tolower c = CHR ''_'' then CHR ''/'' else tolower c) name @ ''.h''"

text \<open>
  The file system below the directory of auto.conf: the directories that exist, and what the
  system calls allow. \<open>strchr\<close> finds every slash of the path in turn.
\<close>

record tree_fs =
  t_dirs :: "string set"
  t_openable :: "string \<Rightarrow> bool"
  t_mkdir_ok :: "string \<Rightarrow> bool"
  t_files :: "string list"

definition slash_prefixes :: "string \<Rightarrow> string list" where
  "slash_prefixes p = List.map (\<lambda>i. take i p) (filter (\<lambda>i. p ! i = CHR ''/'') [0 ..< length p])"

text \<open>The directory of the file is there: the last prefix, or none at all.\<close>

definition has_dir :: "string \<Rightarrow> tree_fs \<Rightarrow> bool" where
  "has_dir p fs \<longleftrightarrow> slash_prefixes p = [] \<or> last (slash_prefixes p) \<in> t_dirs fs"

definition make_dir :: "string \<Rightarrow> tree_fs \<Rightarrow> tree_fs option" where
  "make_dir d fs = (if d \<in> t_dirs fs then Some fs else if t_mkdir_ok fs d then Some (fs\<lparr>t_dirs := insert d (t_dirs fs)\<rparr>) else None)"

definition open_file :: "string \<Rightarrow> tree_fs \<Rightarrow> tree_fs option" where
  "open_file p fs = (if has_dir p fs \<and> t_openable fs p then Some (fs\<lparr>t_files := p # t_files fs\<rparr>) else None)"

text \<open>The new file system, or None with \<open>res = 1\<close>: a missing directory is made and the file tried again.\<close>

definition touch_file :: "string \<Rightarrow> tree_fs \<Rightarrow> tree_fs option" where
  "touch_file p fs =
     (case open_file p fs of
        Some fs1 \<Rightarrow> Some fs1
      | None \<Rightarrow> if has_dir p fs then None
                else do { fs1 \<leftarrow> run_all make_dir (slash_prefixes p) fs; open_file p fs1 })"

text \<open>The loop of \<open>conf_split_config\<close>; the result is 1 after the first file that cannot be touched.\<close>

fun split_symbols :: "nat \<Rightarrow> sym list \<Rightarrow> kstate \<Rightarrow> tree_fs \<Rightarrow> (nat \<times> kstate \<times> tree_fs) option" where
  "split_symbols n [] st fs = Some (0, st, fs)"
| "split_symbols n (s # ss) st fs = do {
     (touch, st1) \<leftarrow> needs_touch n s st;
     if \<not> touch then split_symbols n ss st1 fs
     else
       (case s_name (k_sym st1 s) of
          None \<Rightarrow> split_symbols n ss st1 fs
        | Some name \<Rightarrow>
            (case touch_file (include_path name) fs of
               None \<Rightarrow> Some (1, st1, fs)
             | Some fs1 \<Rightarrow> split_symbols n ss st1 fs1)) }"

text \<open>
  \<open>conf_split_config\<close>: auto.conf, when it can be read, gives the old values; then the directory is changed to its own,
  if that is possible.
\<close>

definition conf_split_config ::
  "nat \<Rightarrow> string \<Rightarrow> string option \<Rightarrow> bool \<Rightarrow> conf \<Rightarrow> tree_fs \<Rightarrow> (nat \<times> kstate \<times> tree_fs) option"
where
  "conf_split_config n pre autoconf can_chdir c fs = do {
     c1 \<leftarrow> (case autoconf of None \<Rightarrow> Some c | Some txt \<Rightarrow> load_config n pre S_DEF_AUTO txt c);
     if \<not> can_chdir then Some (1, c_st c1, fs) else split_symbols n (for_all_symbols (c_st c1)) (c_st c1) fs }"

section \<open>The generated files\<close>

record auto_texts =
  at_conf :: string
  at_tristate :: string
  at_header :: string

text \<open>The loop of \<open>conf_write_autoconf\<close> over the symbols.\<close>

definition auto_symbol :: "nat \<Rightarrow> string \<Rightarrow> sym \<Rightarrow> kstate \<times> auto_texts \<Rightarrow> (kstate \<times> auto_texts) option" where
  "auto_symbol n pre s sa = (case sa of (st0, t) \<Rightarrow> do {
     st \<leftarrow> sym_calc_value n s st0;
     if \<not> has_flag (k_sym st s) SYMBOL_WRITE \<or> s_name (k_sym st s) = None then Some (st, t)
     else do {
       (a, st1) \<leftarrow> conf_write_symbol n (\<lambda>y v. kconfig_print_symbol pre y v True) s st;
       (b, st2) \<leftarrow> conf_write_symbol n (tristate_print_symbol pre) s st1;
       (h, st3) \<leftarrow> conf_write_symbol n (header_print_symbol pre) s st2;
       Some (st3, \<lparr>at_conf = at_conf t @ a, at_tristate = at_tristate t @ b, at_header = at_header t @ h\<rparr>) } })"

definition conf_write_autoconf_texts :: "nat \<Rightarrow> string \<Rightarrow> string option \<Rightarrow> kstate \<Rightarrow> (kstate \<times> auto_texts) option" where
  "conf_write_autoconf_texts n pre title st =
     (let h = conf_heading title in
      run_all (auto_symbol n pre) (for_all_symbols st)
        (st, \<lparr>at_conf = kconfig_print_comment h, at_tristate = kconfig_print_comment h, at_header = header_print_comment h\<rparr>))"

section \<open>New symbols\<close>

datatype conf_def_mode = def_default | def_yes | def_mod | def_no | def_random

text \<open>
  The state of \<open>conf_set_all_new_symbols\<close>: the symbols, the position in the sequence of numbers
  that \<open>rand()\<close> returns, and \<open>has_changed\<close>.
\<close>

record new_state =
  n_k :: kstate
  n_rand :: nat
  n_changed :: bool

definition on_nk :: "(kstate \<Rightarrow> kstate) \<Rightarrow> new_state \<Rightarrow> new_state" where
  "on_nk f st = st\<lparr>n_k := f (n_k st)\<rparr>"

text \<open>\<open>strtol(s, &endp, 10)\<close> with the rest of the string; without digits nothing is read.\<close>

definition strtol_rest :: "string \<Rightarrow> int \<times> string" where
  "strtol_rest s =
     (case read_sign (dropWhile isspace s) of (neg, r) \<Rightarrow>
        if takeWhile isdigit r = [] then (0, s)
        else (strtoll s 10, dropWhile isdigit r))"

text \<open>\<open>KCONFIG_PROBABILITY\<close>, at most \<open>k\<close> numbers separated by colons; None is \<open>exit(1)\<close>.\<close>

fun read_probabilities :: "nat \<Rightarrow> string \<Rightarrow> int list option" where
  "read_probabilities 0 s = Some []"
| "read_probabilities (Suc k) s =
     (if s = [] then Some []
      else case strtol_rest s of (v, r) \<Rightarrow>
        let tmp = to_int32 v in
        if 0 \<le> tmp \<and> tmp \<le> 100
        then map_option (\<lambda>l. tmp # l)
               (read_probabilities k (case r of c # r' \<Rightarrow> if c = CHR '':'' then r' else r | [] \<Rightarrow> r))
        else None)"

record probabilities =
  pby :: int
  pty :: int
  ptm :: int

definition set_probabilities :: "int list \<Rightarrow> probabilities" where
  "set_probabilities p =
     (case p of
        [] \<Rightarrow> \<lparr>pby = 50, pty = 33, ptm = 33\<rparr>
      | [a] \<Rightarrow> \<lparr>pby = a, pty = a - a div 2, ptm = a div 2\<rparr>
      | [a, b] \<Rightarrow> \<lparr>pby = a + b, pty = a, ptm = b\<rparr>
      | a # b # c # _ \<Rightarrow> \<lparr>pby = a, pty = b, ptm = c\<rparr>)"

definition get_probabilities :: "conf_def_mode \<Rightarrow> string option \<Rightarrow> probabilities option" where
  "get_probabilities mode env =
     (if mode \<noteq> def_random then Some (set_probabilities [])
      else do {
        l \<leftarrow> read_probabilities 3 (case env of None \<Rightarrow> [] | Some s \<Rightarrow> s);
        let p = set_probabilities l;
        if pty p + ptm p > 100 then None else Some p })"

definition random_tristate :: "probabilities \<Rightarrow> symbol_type \<Rightarrow> int \<Rightarrow> tristate" where
  "random_tristate p t cnt =
     (if t = S_TRISTATE then (if cnt < pty p then tri_yes else if cnt < pty p + ptm p then tri_mod else tri_no)
      else if cnt < pby p then tri_yes else tri_no)"

definition set_user_tri :: "tristate \<Rightarrow> symbol \<Rightarrow> symbol" where
  "set_user_tri t y = y\<lparr>s_def_user := (s_def_user y)\<lparr>sv_tri := t\<rparr>\<rparr>"

text \<open>The first loop, for one symbol; \<open>rnd\<close> is the sequence of \<open>rand()\<close>.\<close>

definition set_new_symbol ::
  "(nat \<Rightarrow> nat) \<Rightarrow> probabilities \<Rightarrow> conf_def_mode \<Rightarrow> sym \<Rightarrow> new_state \<Rightarrow> new_state"
where
  "set_new_symbol rnd p mode s st =
     (let y = k_sym (n_k st) s in
      if sym_has_value y \<or> has_flag y SYMBOL_VALID then st
      else if \<not> is_boolean_type (sym_get_type (n_k st) s) then st
      else
        let st1 = st\<lparr>n_changed := True\<rparr>;
            user = (\<lambda>st. if sym_is_choice y \<and> mode = def_random then st else on_nk (upd s (set_flags SYMBOL_DEF_USER)) st)
        in case mode of
             def_default \<Rightarrow> st1
           | def_yes \<Rightarrow> user (on_nk (upd s (set_user_tri tri_yes)) st1)
           | def_mod \<Rightarrow> user (on_nk (upd s (set_user_tri tri_mod)) st1)
           | def_no \<Rightarrow> user (on_nk (upd s (set_user_tri tri_no)) st1)
           | def_random \<Rightarrow>
               user (on_nk (upd s (set_user_tri (random_tristate p (s_type y) (int (rnd (n_rand st) mod 100)))))
                 (st1\<lparr>n_rand := Suc (n_rand st)\<rparr>)))"

text \<open>\<open>randomize_choice_values\<close>: the value at a random position becomes y, the others n.\<close>

fun randomize_values :: "sym \<Rightarrow> nat \<Rightarrow> sym list \<Rightarrow> kstate \<Rightarrow> kstate" where
  "randomize_values c d [] st = st"
| "randomize_values c d (s # ss) st =
     (let st1 = (if d = 0
                 then upd c (\<lambda>y. y\<lparr>s_def_user := (s_def_user y)\<lparr>sv_val := VSym s\<rparr>\<rparr>) (upd s (set_user_tri tri_yes) st)
                 else upd s (set_user_tri tri_no) st);
          st2 = upd s (clear_flags SYMBOL_VALID \<circ> set_flags SYMBOL_DEF_USER) st1
      in case d of 0 \<Rightarrow> randomize_values c (length ss + 1) ss st2 | Suc e \<Rightarrow> randomize_values c e ss st2)"

text \<open>A choice without values divides by zero.\<close>

definition randomize_choice_values :: "(nat \<Rightarrow> nat) \<Rightarrow> sym \<Rightarrow> new_state \<Rightarrow> new_state" where
  "randomize_choice_values rnd c st =
     (if sv_tri (s_curr (k_sym (n_k st) c)) \<noteq> tri_yes then st\<lparr>n_changed := False\<rparr>
      else
        let l = choice_list (k_sym (n_k st) c) in
        if l = [] then on_nk undefined_use st
        else
          (on_nk (\<lambda>k. upd c (clear_flags SYMBOL_VALID \<circ> set_flags SYMBOL_DEF_USER)
                        (randomize_values c (rnd (n_rand st) mod length l) l k)) st)
          \<lparr>n_rand := Suc (n_rand st), n_changed := True\<rparr>)"

definition mark_need_set :: "sym \<Rightarrow> kstate \<Rightarrow> kstate" where
  "mark_need_set s st =
     (let y = k_sym st s in
      if (sym_is_choice y \<and> \<not> sym_has_value y) \<or> sym_is_choice_value y
      then upd s (set_flags SYMBOL_NEED_SET_CHOICE_VALUES) st else st)"

text \<open>The last loop, over the choices without a value.\<close>

definition set_new_choice :: "nat \<Rightarrow> (nat \<Rightarrow> nat) \<Rightarrow> conf_def_mode \<Rightarrow> sym \<Rightarrow> new_state \<Rightarrow> new_state option" where
  "set_new_choice n rnd mode c st =
     (let y = k_sym (n_k st) c in
      if sym_has_value y \<or> \<not> sym_is_choice y then Some st
      else do {
        k \<leftarrow> sym_calc_value n c (n_k st);
        let st1 = st\<lparr>n_k := k\<rparr>;
        Some (if mode = def_random then randomize_choice_values rnd c st1
              else (on_nk (set_all_choice_values c) st1)\<lparr>n_changed := True\<rparr>) })"

text \<open>\<open>conf_set_all_new_symbols\<close>; the outer None: a calculation was cut off; the inner one: \<open>exit(1)\<close>.\<close>

definition conf_set_all_new_symbols ::
  "nat \<Rightarrow> (nat \<Rightarrow> nat) \<Rightarrow> conf_def_mode \<Rightarrow> string option \<Rightarrow> kstate \<Rightarrow> new_state option option"
where
  "conf_set_all_new_symbols n rnd mode env st =
     (case get_probabilities mode env of
        None \<Rightarrow> Some None
      | Some p \<Rightarrow>
          (let st1 = fold (set_new_symbol rnd p mode) (for_all_symbols st) \<lparr>n_k = st, n_rand = 0, n_changed = False\<rparr> in do {
             k2 \<leftarrow> sym_clear_all_valid n (n_k st1);
             let k3 = (if mode \<noteq> def_random then fold mark_need_set (for_all_symbols k2) k2 else k2);
             st4 \<leftarrow> run_all (set_new_choice n rnd mode) (for_all_symbols k3) (st1\<lparr>n_k := k3\<rparr>);
             Some (Some st4) }))"

end
