(* ===== verification/Kc_Auto_Props.thy ===== *)
theory Kc_Auto_Props
  imports Kc_Auto
begin

text \<open>
  Properties of the generated files and of the configurations that \<open>conf_set_all_new_symbols\<close>
  makes up.
\<close>

section \<open>What is touched\<close>

text \<open>The values of a boolean symbol in the new and in the old auto.conf, which leaves out n.\<close>

definition new_tri :: "symbol \<Rightarrow> tristate" where
  "new_tri y = (if has_flag y SYMBOL_WRITE then sv_tri (s_curr y) else tri_no)"

definition old_tri :: "symbol \<Rightarrow> tristate" where
  "old_tri y = (if has_flag y SYMBOL_DEF_AUTO then sv_tri (s_def_auto y) else tri_no)"

lemma calc_valid: "s \<in> valid_syms st \<Longrightarrow> 0 < n \<Longrightarrow> sym_calc_value n s st = Some st"
  by (cases n) (simp_all add: calc_value_step_def valid_syms_def)


definition touch_state :: kstate where
  "touch_state = upd (sym_at 1) (\<lambda>y. y\<lparr>s_name := Some ''BR2_GCC'', s_type := S_BOOLEAN, s_flags := SYMBOL_VALID OR SYMBOL_WRITE,
     s_curr := \<lparr>sv_val = VNull, sv_tri = tri_yes\<rparr>\<rparr>) settled_state"


lemma make_dirs:
  "(\<And>d. d \<in> set ds \<Longrightarrow> d \<in> t_dirs fs \<or> t_mkdir_ok fs d) \<Longrightarrow>
     \<exists>fs'. run_all make_dir ds fs = Some fs' \<and> t_dirs fs' = t_dirs fs \<union> set ds \<and>
       t_openable fs' = t_openable fs \<and> t_mkdir_ok fs' = t_mkdir_ok fs \<and> t_files fs' = t_files fs"
proof (induction ds arbitrary: fs)
  case (Cons d ds)
  obtain fs1 where fs1: "make_dir d fs = Some fs1" "t_dirs fs1 = insert d (t_dirs fs)"
    "t_openable fs1 = t_openable fs" "t_mkdir_ok fs1 = t_mkdir_ok fs" "t_files fs1 = t_files fs"
    using Cons.prems[of d] that[of fs] that[of "fs\<lparr>t_dirs := insert d (t_dirs fs)\<rparr>"]
    by (cases "d \<in> t_dirs fs") (auto simp: make_dir_def insert_absorb)
  with Cons.prems Cons.IH[of fs1] show ?case by auto
qed simp

text \<open>
  A file below directories that do not exist yet can be touched when each missing directory can
  be made: the loop makes all of them and the second attempt succeeds.
\<close>

theorem include_file_is_made:
  assumes "t_openable fs (include_path name)"
    and "\<And>d. d \<in> set (slash_prefixes (include_path name)) \<Longrightarrow> d \<in> t_dirs fs \<or> t_mkdir_ok fs d"
  shows "\<exists>fs'. touch_file (include_path name) fs = Some fs' \<and> t_files fs' = include_path name # t_files fs \<and>
    t_dirs fs \<subseteq> t_dirs fs' \<and> has_dir (include_path name) fs'"
proof -
  let ?p = "include_path name"
  obtain fs1 where fs1: "run_all make_dir (slash_prefixes ?p) fs = Some fs1" "t_dirs fs1 = t_dirs fs \<union> set (slash_prefixes ?p)"
    "t_openable fs1 = t_openable fs" "t_files fs1 = t_files fs"
    using make_dirs[of "slash_prefixes ?p" fs] assms(2) by auto
  then have "has_dir ?p fs1" by (auto simp: has_dir_def)
  with fs1 assms(1) show ?thesis by (auto simp: touch_file_def open_file_def has_dir_def)
qed

theorem include_file_is_made_witness:
  "\<exists>fs'. touch_file ''br2/gcc.h'' \<lparr>t_dirs = {}, t_openable = (\<lambda>_. True), t_mkdir_ok = (\<lambda>_. True), t_files = []\<rparr> = Some fs' \<and>
     t_files fs' = [''br2/gcc.h'']"
proof -
  have p: "include_path ''BR2_GCC'' = ''br2/gcc.h''"
    by code_simp
  show ?thesis
    using include_file_is_made[of "\<lparr>t_dirs = {}, t_openable = (\<lambda>_. True), t_mkdir_ok = (\<lambda>_. True), t_files = []\<rparr>" "''BR2_GCC''"]
    by (auto simp: p)
qed

section \<open>The generated texts\<close>

context conf_writer
begin

lemma auto_symbol: "P (fst sa) \<Longrightarrow> \<exists>sa'. auto_symbol n pre s sa = Some sa' \<and> P (fst sa')"
proof -
  assume P: "P (fst sa)"
  obtain st0 t where sa: "sa = (st0, t)" by (cases sa)
  obtain st where st: "sym_calc_value n s st0 = Some st" "P st" using calc[of st0 s] P sa by (auto simp: ends_def)
  obtain a st1 where a: "conf_write_symbol n (\<lambda>y v. kconfig_print_symbol pre y v True) s st = Some (a, st1)" "P st1"
    using written_symbol[OF st(2), of "\<lambda>y v. kconfig_print_symbol pre y v True" s] by (auto simp: returns_def)
  obtain b st2 where b: "conf_write_symbol n (tristate_print_symbol pre) s st1 = Some (b, st2)" "P st2"
    using written_symbol[OF a(2), of "tristate_print_symbol pre" s] by (auto simp: returns_def)
  obtain h st3 where h: "conf_write_symbol n (header_print_symbol pre) s st2 = Some (h, st3)" "P st3"
    using written_symbol[OF b(2), of "header_print_symbol pre" s] by (auto simp: returns_def)
  show ?thesis using sa st a b h by (simp add: auto_symbol_def)
qed

lemma auto_symbols: "P (fst sa) \<Longrightarrow> \<exists>sa'. run_all (auto_symbol n pre) l sa = Some sa' \<and> P (fst sa')"
proof (induction l arbitrary: sa)
  case (Cons s l)
  then show ?case using auto_symbol[of sa pre s] by fastforce
qed auto

end

text \<open>
  The texts of auto.conf, tristate.conf and autoconf.h are made for every sane state.
\<close>

theorem autoconf_texts_return:
  assumes "sane st" and "pending st < n"
  shows "\<exists>st' t. conf_write_autoconf_texts n pre title st = Some (st', t) \<and> sane st' \<and> extends st st'"
proof -
  obtain m where n: "n = Suc m" using assms(2) by (cases n) auto
  have "calc_ok (frame_of st) (valid_syms st) m st"
    using sane_calc_ok[OF assms(1)] assms(2) n by (auto simp: calc_ok_def)
  then show ?thesis
    using writer.auto_symbols[of "frame_of st" "valid_syms st" m _ pre "for_all_symbols st"] calc_ok_sane[OF assms(1)] n
    by (fastforce simp: conf_write_autoconf_texts_def Let_def)
qed

theorem autoconf_texts_return_witness:
  "\<exists>st' t. conf_write_autoconf_texts 4 [] (Some ''Buildroot'') example_state = Some (st', t)"
  using autoconf_texts_return[OF example_sane, of 4 "[]" "Some ''Buildroot''"] by (auto simp: example_open)

section \<open>Probabilities\<close>

lemma probability_range: "read_probabilities k s = Some l \<Longrightarrow> x \<in> set l \<Longrightarrow> 0 \<le> x \<and> x \<le> 100"
  by (induction k s arbitrary: l rule: read_probabilities.induct) (auto simp: Let_def split: if_splits prod.splits)

text \<open>
  Whatever \<open>KCONFIG_PROBABILITY\<close> says, the program ends or all probabilities are percentages and
  those of y and m together are at most 100.
\<close>

theorem probabilities_are_percentages:
  assumes "get_probabilities mode env = Some p"
  shows "0 \<le> pby p \<and> pby p \<le> 100 \<and> 0 \<le> pty p \<and> 0 \<le> ptm p \<and> pty p + ptm p \<le> 100"
proof (cases "mode = def_random")
  case True
  then obtain l where l: "read_probabilities 3 (case env of None \<Rightarrow> [] | Some s \<Rightarrow> s) = Some l"
    "p = set_probabilities l" "pty p + ptm p \<le> 100"
    using assms by (auto simp: get_probabilities_def Let_def split: Option.bind_splits if_splits)
  have r: "x \<in> set l \<Longrightarrow> 0 \<le> x \<and> x \<le> 100" for x by (rule probability_range[OF l(1)])
  consider "l = []" | a where "l = [a]" | a b where "l = [a, b]" | a b c r where "l = a # b # c # r"
    by (metis list.exhaust)
  then show ?thesis using r l(2,3) by cases (auto simp: set_probabilities_def)
next
  case False
  with assms show ?thesis by (auto simp: get_probabilities_def set_probabilities_def)
qed

theorem probabilities_are_percentages_witness:
  "get_probabilities def_random (Some ''60:30'') = Some \<lparr>pby = 90, pty = 60, ptm = 30\<rparr> \<and> (90::int) \<le> 100"
proof -
  have "get_probabilities def_random (Some ''60:30'') = Some \<lparr>pby = 90, pty = 60, ptm = 30\<rparr>" by code_simp
  with probabilities_are_percentages[OF this] show ?thesis by simp
qed

section \<open>New values\<close>

text \<open>What the first loop of \<open>conf_set_all_new_symbols\<close> depends on and does not change.\<close>

definition fixed_tri :: "conf_def_mode \<Rightarrow> tristate option" where
  "fixed_tri mode = (case mode of def_yes \<Rightarrow> Some tri_yes | def_mod \<Rightarrow> Some tri_mod | def_no \<Rightarrow> Some tri_no | _ \<Rightarrow> None)"

definition is_new :: "kstate \<Rightarrow> sym \<Rightarrow> bool" where
  "is_new st s \<longleftrightarrow> \<not> sym_has_value (k_sym st s) \<and> \<not> has_flag (k_sym st s) SYMBOL_VALID \<and> is_boolean_type (sym_get_type st s)"

lemma set_new_symbol_fixed:
  assumes "fixed_tri mode = Some t"
  shows "n_k (set_new_symbol rnd p mode s st) =
    (if is_new (n_k st) s then upd s (set_flags SYMBOL_DEF_USER \<circ> set_user_tri t) (n_k st) else n_k st)"
  using assms
  by (cases mode) (auto simp: fixed_tri_def set_new_symbol_def is_new_def Let_def on_nk_def upd_def)

lemma is_new_upd: "is_new (upd s (set_flags SYMBOL_DEF_USER \<circ> set_user_tri t) st) a \<longleftrightarrow> a \<noteq> s \<and> is_new st a"
proof -
  have f: "has_flag (set_flags SYMBOL_DEF_USER (set_user_tri t y)) SYMBOL_DEF_USER" for y
    by (rule has_set_flags_same) (simp add: flag_defs)
  have g: "has_flag (set_flags SYMBOL_DEF_USER (set_user_tri t y)) SYMBOL_CHOICEVAL = has_flag y SYMBOL_CHOICEVAL" for y
    using has_set_flags[of SYMBOL_CHOICEVAL SYMBOL_DEF_USER "set_user_tri t y"]
    by (simp add: flag_defs) (simp add: has_flag_def set_user_tri_def)
  have h: "s_type (set_flags SYMBOL_DEF_USER (set_user_tri t y)) = s_type y"
    "s_visible (set_flags SYMBOL_DEF_USER (set_user_tri t y)) = s_visible y" for y
    by (simp_all add: set_flags_def set_user_tri_def)
  show ?thesis
    by (cases "a = s") (simp_all add: is_new_def k_sym_upd sym_has_value_def f sym_get_type_def Let_def sym_is_choice_value_def)
qed

lemma set_new_fold:
  assumes "fixed_tri mode = Some t"
  shows "k_sym (n_k (fold (set_new_symbol rnd p mode) l st)) a =
    (if a \<in> set l \<and> is_new (n_k st) a then set_flags SYMBOL_DEF_USER (set_user_tri t (k_sym (n_k st) a)) else k_sym (n_k st) a)"
proof (induction l arbitrary: st)
  case (Cons s l)
  show ?case
    using is_new_upd[of s t "n_k st" a]
    by (auto simp: Cons.IH set_new_symbol_fixed[OF assms] k_sym_upd)
qed simp

text \<open>
  In the modes y, m and n the first loop gives every boolean symbol of the table that has no value
  the value of the mode, and leaves every other symbol as it is.
\<close>

theorem new_symbols_get_the_mode:
  assumes "fixed_tri mode = Some t"
  shows "let st' = n_k (fold (set_new_symbol rnd p mode) (for_all_symbols st) \<lparr>n_k = st, n_rand = 0, n_changed = False\<rparr>) in
    (s \<in> set (for_all_symbols st) \<and> is_new st s \<longrightarrow>
       sym_has_value (k_sym st' s) \<and> sv_tri (s_def_user (k_sym st' s)) = t) \<and>
    (\<not> is_new st s \<longrightarrow> k_sym st' s = k_sym st s)"
  by (auto simp: Let_def set_new_fold[OF assms] has_value_set set_user_tri_def)

theorem new_symbols_get_the_mode_witness:
  "sv_tri (s_def_user (k_sym (n_k (fold (set_new_symbol (\<lambda>_. 0) \<lparr>pby = 50, pty = 33, ptm = 33\<rparr> def_mod) (for_all_symbols example_state)
     \<lparr>n_k = example_state, n_rand = 0, n_changed = False\<rparr>)) (sym_at 2))) = tri_mod"
proof -
  have k: "k_sym example_state (sym_at 2) =
      (example_symbol S_TRISTATE 0)\<lparr>s_dir_dep := \<lparr>ev_expr = Some (Sym (sym_at 1)), ev_tri = tri_no\<rparr>\<rparr>" "k_modval example_state = tri_no"
    by (simp_all add: example_state_def example_table_def)
  have t: "sym_at 2 \<in> set (for_all_symbols example_state)" "is_new example_state (sym_at 2)"
    using example_list by (simp_all add: for_all_symbols_def is_new_def k sym_get_type_def sym_has_value_def has_flag_def example_symbol_def)
  show ?thesis
    using new_symbols_get_the_mode[where mode = def_mod and t = tri_mod and s = "sym_at 2" and st = example_state and
        rnd = "\<lambda>_. 0" and p = "\<lparr>pby = 50, pty = 33, ptm = 33\<rparr>"] t
    by (simp add: fixed_tri_def Let_def)
qed

section \<open>Random choices\<close>

lemma randomize_frame:
  "a \<notin> set l \<Longrightarrow> a \<noteq> c \<Longrightarrow> k_sym (randomize_values c d l st) a = k_sym st a"
  by (induction l arbitrary: d st) (auto simp: Let_def k_sym_upd split: nat.split)

lemma randomize_choice:
  "c \<notin> set l \<Longrightarrow> sv_val (s_def_user (k_sym (randomize_values c d l st) c)) =
     (if d < length l then VSym (l ! d) else sv_val (s_def_user (k_sym st c)))"
  by (induction l arbitrary: d st) (auto simp: Let_def k_sym_upd split: nat.split)

lemma randomize_value:
  "distinct l \<Longrightarrow> c \<notin> set l \<Longrightarrow> i < length l \<Longrightarrow>
     (let y = k_sym (randomize_values c d l st) (l ! i) in
      sv_tri (s_def_user y) = (if i = d then tri_yes else tri_no) \<and> sym_has_value y \<and> \<not> has_flag y SYMBOL_VALID)"
proof (induction l arbitrary: d i st)
  case (Cons s l)
  define st1 where "st1 = (if d = 0
      then upd c (\<lambda>y. y\<lparr>s_def_user := (s_def_user y)\<lparr>sv_val := VSym s\<rparr>\<rparr>) (upd s (set_user_tri tri_yes) st)
      else upd s (set_user_tri tri_no) st)"
  define st2 where "st2 = upd s (clear_flags SYMBOL_VALID \<circ> set_flags SYMBOL_DEF_USER) st1"
  have e: "randomize_values c d (s # l) st = randomize_values c (case d of 0 \<Rightarrow> length l + 1 | Suc e \<Rightarrow> e) l st2"
    by (simp add: Let_def st1_def[symmetric] st2_def[symmetric] split: nat.split)
  show ?case
  proof (cases i)
    case 0
    have v: "sym_has_value (clear_flags SYMBOL_VALID (set_flags SYMBOL_DEF_USER y))"
      "\<not> has_flag (clear_flags SYMBOL_VALID y) SYMBOL_VALID" for y
      using has_value_set[of y] has_clear_flags[of SYMBOL_DEF_USER SYMBOL_VALID "set_flags SYMBOL_DEF_USER y"]
      by (simp_all add: sym_has_value_def has_clear_flags_same flag_defs)
    have "k_sym (randomize_values c d (s # l) st) s = k_sym st2 s"
      unfolding e by (rule randomize_frame) (use Cons.prems in auto)
    moreover have "sv_tri (s_def_user (k_sym st2 s)) = (if d = 0 then tri_yes else tri_no)"
      using Cons.prems by (auto simp: st2_def st1_def k_sym_upd clear_flags_def set_user_tri_def)
    ultimately show ?thesis using 0 v by (simp add: st2_def Let_def)
  next
    case (Suc j)
    define d' where "d' = (case d of 0 \<Rightarrow> length l + 1 | Suc e \<Rightarrow> e)"
    have j: "j < length l" "(Suc j = d) = (j = d')" using Suc Cons.prems by (auto simp: d'_def split: nat.split)
    show ?thesis
      unfolding e d'_def[symmetric] using Cons.IH[OF _ _ j(1), of d' st2] Cons.prems Suc j(2) by simp
  qed
qed simp

text \<open>
  A random choice ends up with exactly one value set to y, the one whose position the random
  number gives, every other value is n, and the choice remembers the one that was set.
\<close>

theorem random_choice_has_one_value:
  assumes "distinct (choice_list (k_sym (n_k st) c))" and "c \<notin> set (choice_list (k_sym (n_k st) c))"
    and "i < length (choice_list (k_sym (n_k st) c))" and "sv_tri (s_curr (k_sym (n_k st) c)) = tri_yes"
  shows "let l = choice_list (k_sym (n_k st) c); d = rnd (n_rand st) mod length l;
      st' = n_k (randomize_choice_values rnd c st); y = k_sym st' (l ! i) in
    sv_tri (s_def_user y) = (if i = d then tri_yes else tri_no) \<and> sym_has_value y \<and> \<not> has_flag y SYMBOL_VALID \<and>
    sv_val (s_def_user (k_sym st' c)) = VSym (l ! d)"
proof -
  define l where "l = choice_list (k_sym (n_k st) c)"
  define d where "d = rnd (n_rand st) mod length l"
  have l: "distinct l" "c \<notin> set l" "i < length l" "l \<noteq> []" using assms by (auto simp: l_def)
  then have d: "d < length l" by (simp add: d_def)
  have st': "n_k (randomize_choice_values rnd c st) =
      upd c (clear_flags SYMBOL_VALID \<circ> set_flags SYMBOL_DEF_USER) (randomize_values c d l (n_k st))"
    using assms(4) l(4) by (simp add: randomize_choice_values_def Let_def on_nk_def l_def[symmetric] d_def[symmetric])
  have "l ! i \<noteq> c" using l by (metis nth_mem)
  then show ?thesis
    using randomize_value[OF l(1,2,3), of d "n_k st"] randomize_choice[OF l(2), of d "n_k st"] d
    by (simp add: Let_def st' l_def[symmetric] d_def[symmetric] k_sym_upd clear_flags_def set_flags_def)
qed

definition choice_state :: kstate where
  "choice_state = upd (sym_at 4) (\<lambda>y. y\<lparr>s_curr := \<lparr>sv_val = VNull, sv_tri = tri_yes\<rparr>,
     s_prop := [(example_prop P_CHOICE (Sym symbol_yes))\<lparr>p_expr := Some (PE_list [sym_at 1, sym_at 2])\<rparr>]\<rparr>) settled_state"

theorem random_choice_has_one_value_witness:
  "sv_tri (s_def_user (k_sym (n_k (randomize_choice_values (\<lambda>_. 41) (sym_at 4) \<lparr>n_k = choice_state, n_rand = 0, n_changed = False\<rparr>))
     (sym_at 2))) = tri_yes"
proof -
  have c: "choice_list (k_sym choice_state (sym_at 4)) = [sym_at 1, sym_at 2]"
    "sv_tri (s_curr (k_sym choice_state (sym_at 4))) = tri_yes"
    by (simp_all add: choice_state_def choice_list_def sym_get_choice_prop_def example_prop_def)
  have m: "(41::nat) mod Suc (Suc 0) = Suc 0" by (subst numeral_2_eq_2[symmetric]) simp
  show ?thesis
    using m random_choice_has_one_value[of "\<lparr>n_k = choice_state, n_rand = 0, n_changed = False\<rparr>" "sym_at 4" 1 "\<lambda>_. 41"] c
    by (simp add: Let_def)
qed

end
