(* ===== verification/Kc_Check.thy ===== *)
theory Kc_Check
  imports Kc_Menu
begin

text \<open>
  The search for recursive dependencies in symbol.c: \<open>sym_check_deps\<close> and what it calls. The
  functions call each other; each takes the recursive call as its argument \<open>check\<close>, and
  \<open>sym_check_deps\<close> ties the knot with a bound on the depth of the recursion.
\<close>

section \<open>The stack of checks\<close>

text \<open>\<open>struct dep_stack\<close>; the entries are on the C stack, linked from \<open>check_top\<close> down.\<close>

record dep_stack =
  ds_sym :: sym
  ds_prop :: "property option"
  ds_expr :: "prop_expr option"

text \<open>
  The state of the checks: the symbols, the menus, the stack from the top, and what has been
  reported, newest first. A report is the lines of one error message; a line is None where the
  code follows a NULL pointer.
\<close>

record check_state =
  cs_k :: kstate
  cs_menus :: menus
  cs_stack :: "dep_stack list"
  cs_reports :: "string option list list"

definition cs_sym :: "check_state \<Rightarrow> sym \<Rightarrow> symbol" where
  "cs_sym cs s = k_sym (cs_k cs) s"

definition on_flags :: "(symbol \<Rightarrow> symbol) \<Rightarrow> sym \<Rightarrow> check_state \<Rightarrow> check_state" where
  "on_flags f s cs = cs\<lparr>cs_k := upd s f (cs_k cs)\<rparr>"

definition dep_stack_insert :: "sym \<Rightarrow> check_state \<Rightarrow> check_state" where
  "dep_stack_insert s cs = cs\<lparr>cs_stack := \<lparr>ds_sym = s, ds_prop = None, ds_expr = None\<rparr> # cs_stack cs\<rparr>"

definition dep_stack_remove :: "check_state \<Rightarrow> check_state" where
  "dep_stack_remove cs = cs\<lparr>cs_stack := tl (cs_stack cs)\<rparr>"

text \<open>\<open>stack.prop = p\<close> and \<open>stack.expr = e\<close> for the entry of the running check, which is the top.\<close>

definition set_top :: "(dep_stack \<Rightarrow> dep_stack) \<Rightarrow> check_state \<Rightarrow> check_state" where
  "set_top f cs = cs\<lparr>cs_stack := (case cs_stack cs of [] \<Rightarrow> [] | e # es \<Rightarrow> f e # es)\<rparr>"

section \<open>The report\<close>

definition prop_position :: "property option \<Rightarrow> string option" where
  "prop_position p = map_option (\<lambda>p. position (p_file p) (p_lineno p)) p"

definition menu_position :: "menus \<Rightarrow> nat option \<Rightarrow> string option" where
  "menu_position ms m = map_option (\<lambda>a. position (m_file (ms a)) (m_lineno (ms a))) m"

text \<open>The first property with a menu, and the menu of the last property that was looked at.\<close>

fun find_menu_prop :: "property list \<Rightarrow> nat option \<Rightarrow> property option \<times> nat option" where
  "find_menu_prop [] m = (None, m)"
| "find_menu_prop (p # ps) m = (if p_menu p \<noteq> None then (Some p, p_menu p) else find_menu_prop ps (p_menu p))"

text \<open>The lines for one entry of the stack; \<open>m\<close> is the variable \<open>menu\<close> from the entries before.\<close>

definition report_entry :: "check_state \<Rightarrow> sym \<Rightarrow> dep_stack \<Rightarrow> sym \<Rightarrow> nat option \<Rightarrow> string option list \<times> nat option" where
  "report_entry cs last_sym e next m0 =
     (let s = ds_sym e; y = cs_sym cs s;
          grouped = sym_is_choice y \<or> sym_is_choice_value y;
          prop0 = (case ds_prop e of None \<Rightarrow> (case s_prop y of [] \<Rightarrow> None | p # _ \<Rightarrow> Some p) | Some p \<Rightarrow> Some p);
          pm = (if grouped then find_menu_prop (s_prop y) m0 else (prop0, m0));
          line = (\<lambda>pos t. map_option (\<lambda>q. q @ t @ newline_s) pos);
          me = shown_name (s_name y); you = shown_name (s_name (cs_sym cs next));
          first = (if s = last_sym then [line (prop_position (fst pm)) ''error: recursive dependency detected!''] else []);
          second =
            (if ds_expr e \<noteq> None then
               (case fst pm of None \<Rightarrow> None
                | Some p \<Rightarrow> line (prop_position (Some p)) (tab @ ''symbol '' @ me @ '' '' @ prop_get_type_name (p_type p) @ '' value contains '' @ you))
             else if ds_prop e \<noteq> None then line (prop_position (fst pm)) (tab @ ''symbol '' @ me @ '' depends on '' @ you)
             else if sym_is_choice y then line (menu_position (cs_menus cs) (snd pm)) (tab @ ''choice '' @ me @ '' contains symbol '' @ you)
             else if sym_is_choice_value y then line (menu_position (cs_menus cs) (snd pm)) (tab @ ''symbol '' @ me @ '' is part of choice '' @ you)
             else line (prop_position (fst pm)) (tab @ ''symbol '' @ me @ '' is selected by '' @ you))
      in (first @ [second], snd pm))"

text \<open>From the entry where the cycle starts up to the top of the stack.\<close>

fun report_entries :: "check_state \<Rightarrow> sym \<Rightarrow> dep_stack list \<Rightarrow> nat option \<Rightarrow> string option list" where
  "report_entries cs last_sym [] m = []"
| "report_entries cs last_sym (e # es) m =
     (case report_entry cs last_sym e (case es of [] \<Rightarrow> last_sym | f # _ \<Rightarrow> ds_sym f) m of
        (lines, m1) \<Rightarrow> lines @ report_entries cs last_sym es m1)"

definition add_report :: "string option list \<Rightarrow> check_state \<Rightarrow> check_state" where
  "add_report r cs = cs\<lparr>cs_reports := r # cs_reports cs\<rparr>"

definition unexpected_report :: "string option list" where
  "unexpected_report = [Some (''unexpected recursive dependency error'' @ newline_s)]"

text \<open>
  \<open>sym_check_print_recursive\<close>. When the symbol is not on the stack the function returns without
  removing the entry that it has inserted for a choice value.
\<close>

definition sym_check_print_recursive :: "sym \<Rightarrow> check_state \<Rightarrow> check_state" where
  "sym_check_print_recursive s cs =
     (let cv = sym_is_choice_value (cs_sym cs s);
          cs1 = (if cv then dep_stack_insert s cs else cs);
          last_sym = (if cv then choice_of (cs_sym cs s) else Some s)
      in case last_sym of
           None \<Rightarrow> add_report [None] cs1
         | Some l \<Rightarrow>
             (case dropWhile (\<lambda>e. ds_sym e \<noteq> l) (cs_stack cs1) of
                [] \<Rightarrow> add_report unexpected_report cs1
              | e # _ \<Rightarrow>
                  let above = takeWhile (\<lambda>e. ds_sym e \<noteq> l) (cs_stack cs1);
                      cs2 = add_report (report_entries cs1 l (e # rev above) None) cs1
                  in if cv then dep_stack_remove cs2 else cs2))"

section \<open>The search\<close>

type_synonym check = "sym \<Rightarrow> check_state \<Rightarrow> (sym option \<times> check_state) option"

text \<open>The first result that is not NULL ends a sequence of checks.\<close>

definition or_else :: "(sym option \<times> check_state) option \<Rightarrow> (check_state \<Rightarrow> (sym option \<times> check_state) option) \<Rightarrow>
    (sym option \<times> check_state) option" where
  "or_else m f = do { (r, cs) \<leftarrow> m; case r of Some s \<Rightarrow> Some (Some s, cs) | None \<Rightarrow> f cs }"

fun sym_check_expr_deps :: "check \<Rightarrow> expr \<Rightarrow> check_state \<Rightarrow> (sym option \<times> check_state) option" where
  "sym_check_expr_deps check (Or l r) cs = or_else (sym_check_expr_deps check l cs) (sym_check_expr_deps check r)"
| "sym_check_expr_deps check (And l r) cs = or_else (sym_check_expr_deps check l cs) (sym_check_expr_deps check r)"
| "sym_check_expr_deps check (Neg e) cs = sym_check_expr_deps check e cs"
| "sym_check_expr_deps check (Equal a b) cs = or_else (check a cs) (check b)"
| "sym_check_expr_deps check (Unequal a b) cs = or_else (check a cs) (check b)"
| "sym_check_expr_deps check (Sym s) cs = check s cs"

definition check_expr_ptr :: "check \<Rightarrow> expr option \<Rightarrow> check_state \<Rightarrow> (sym option \<times> check_state) option" where
  "check_expr_ptr check e cs = (case e of None \<Rightarrow> Some (None, cs) | Some e \<Rightarrow> sym_check_expr_deps check e cs)"

text \<open>Of a list or a range the code prints that it does not know how to check it.\<close>

definition check_prop_expr :: "check \<Rightarrow> prop_expr option \<Rightarrow> check_state \<Rightarrow> (sym option \<times> check_state) option" where
  "check_prop_expr check e cs = (case e of Some (PE_expr e) \<Rightarrow> sym_check_expr_deps check e cs | _ \<Rightarrow> Some (None, cs))"

fun check_props :: "check \<Rightarrow> sym \<Rightarrow> property list \<Rightarrow> check_state \<Rightarrow> (sym option \<times> check_state) option" where
  "check_props check s [] cs = Some (None, cs)"
| "check_props check s (p # ps) cs =
     (if p_type p = P_CHOICE \<or> p_type p = P_SELECT then check_props check s ps cs
      else or_else (check_expr_ptr check (ev_expr (p_visible p)) (set_top (\<lambda>e. e\<lparr>ds_prop := Some p\<rparr>) cs))
        (\<lambda>cs. if p_type p \<noteq> P_DEFAULT \<or> sym_is_choice (cs_sym cs s) then check_props check s ps cs
              else or_else (check_prop_expr check (p_expr p) (set_top (\<lambda>e. e\<lparr>ds_expr := p_expr p\<rparr>) cs))
                (\<lambda>cs. check_props check s ps (set_top (\<lambda>e. e\<lparr>ds_expr := None\<rparr>) cs))))"

definition sym_check_sym_deps :: "check \<Rightarrow> sym \<Rightarrow> check_state \<Rightarrow> (sym option \<times> check_state) option" where
  "sym_check_sym_deps check s cs = do {
     (r, cs1) \<leftarrow> or_else (check_expr_ptr check (ev_expr (s_rev_dep (cs_sym cs s))) (dep_stack_insert s cs))
                   (\<lambda>cs. check_props check s (s_prop (cs_sym cs s)) cs);
     Some (r, dep_stack_remove cs1) }"

definition start_check :: "sym \<Rightarrow> check_state \<Rightarrow> check_state" where
  "start_check = on_flags (set_flags (SYMBOL_CHECK OR SYMBOL_CHECKED))"

definition end_check :: "sym \<Rightarrow> check_state \<Rightarrow> check_state" where
  "end_check = on_flags (clear_flags SYMBOL_CHECK)"

fun check_values :: "check \<Rightarrow> sym list \<Rightarrow> check_state \<Rightarrow> (sym option \<times> check_state) option" where
  "check_values check [] cs = Some (None, cs)"
| "check_values check (s # ss) cs = or_else (sym_check_sym_deps check s cs) (check_values check ss)"

text \<open>The values of the choice are marked before the choice and stay marked until all are checked.\<close>

definition sym_check_choice_deps :: "check \<Rightarrow> sym \<Rightarrow> check_state \<Rightarrow> (sym option \<times> check_state) option" where
  "sym_check_choice_deps check c cs = do {
     let l = choice_list (cs_sym cs c);
     let cs1 = start_check c (fold start_check l (dep_stack_insert c cs));
     (r, cs2) \<leftarrow> sym_check_sym_deps check c cs1;
     (r, cs3) \<leftarrow> or_else (Some (r, end_check c cs2)) (check_values check l);
     let cs4 = fold end_check l cs3;
     let r = (case r of
                Some s \<Rightarrow> if sym_is_choice_value (cs_sym cs4 s) \<and> choice_of (cs_sym cs4 s) = Some c then Some c else Some s
              | None \<Rightarrow> None);
     Some (r, dep_stack_remove cs4) }"

definition check_step :: "check \<Rightarrow> sym \<Rightarrow> check_state \<Rightarrow> (sym option \<times> check_state) option" where
  "check_step check s cs =
     (let y = cs_sym cs s in
      if has_flag y SYMBOL_CHECK then Some (Some s, sym_check_print_recursive s cs)
      else if has_flag y SYMBOL_CHECKED then Some (None, cs)
      else do {
        (r, cs1) \<leftarrow>
          (if sym_is_choice_value y then
             (case choice_of y of
                None \<Rightarrow> Some (None, add_report [None] cs)
              | Some c \<Rightarrow> do {
                  (r, cs1) \<leftarrow> check c (dep_stack_insert s cs);
                  Some (r, dep_stack_remove cs1) })
           else if sym_is_choice y then sym_check_choice_deps check s cs
           else do {
             (r, cs1) \<leftarrow> sym_check_sym_deps check s (start_check s cs);
             Some (r, end_check s cs1) });
        Some (if r = Some s then None else r, cs1) })"

fun sym_check_deps :: "nat \<Rightarrow> check" where
  "sym_check_deps 0 s cs = None"
| "sym_check_deps (Suc n) s cs = check_step (sym_check_deps n) s cs"

end
