(* ===== verification/Kc_Check_Inv.thy ===== *)
theory Kc_Check_Inv
  imports Kc_Check
begin

text \<open>
  What a check of dependencies keeps, and what it finds out: the marks and the stack are as before
  afterwards, and while nothing has been reported the symbols that are done depend only on
  symbols that are done, without a cycle. The laws are stated once for the recursive call.
\<close>

section \<open>The dependency graph\<close>

fun expr_syms :: "expr \<Rightarrow> sym set" where
  "expr_syms (Sym s) = {s}"
| "expr_syms (Neg e) = expr_syms e"
| "expr_syms (And l r) = expr_syms l \<union> expr_syms r"
| "expr_syms (Or l r) = expr_syms l \<union> expr_syms r"
| "expr_syms (Equal a b) = {a, b}"
| "expr_syms (Unequal a b) = {a, b}"

definition ptr_syms :: "expr option \<Rightarrow> sym set" where
  "ptr_syms e = (case e of None \<Rightarrow> {} | Some e \<Rightarrow> expr_syms e)"

definition value_syms :: "prop_expr option \<Rightarrow> sym set" where
  "value_syms e = (case e of Some (PE_expr e) \<Rightarrow> expr_syms e | _ \<Rightarrow> {})"

fun prop_syms :: "bool \<Rightarrow> property list \<Rightarrow> sym set" where
  "prop_syms choice [] = {}"
| "prop_syms choice (p # ps) =
     (if p_type p = P_CHOICE \<or> p_type p = P_SELECT then {}
      else ptr_syms (ev_expr (p_visible p)) \<union> (if p_type p = P_DEFAULT \<and> \<not> choice then value_syms (p_expr p) else {}))
     \<union> prop_syms choice ps"

text \<open>
  The symbols on which a symbol depends: through a select, through the conditions of its
  properties, and through its defaults unless it is a choice.
\<close>

definition deps :: "symbol \<Rightarrow> sym set" where
  "deps y = ptr_syms (ev_expr (s_rev_dep y)) \<union> prop_syms (sym_is_choice y) (s_prop y)"

text \<open>A symbol without the two marks of the search, and the table of all of them.\<close>

definition unmarked :: "symbol \<Rightarrow> symbol" where
  "unmarked y = clear_flags (SYMBOL_CHECK OR SYMBOL_CHECKED) y"

definition table_of :: "check_state \<Rightarrow> symtab" where
  "table_of cs = (\<lambda>s. unmarked (cs_sym cs s))"

lemma unmarked_fields [simp]:
  "s_prop (unmarked y) = s_prop y" "s_rev_dep (unmarked y) = s_rev_dep y" "s_name (unmarked y) = s_name y"
  "sym_is_choice (unmarked y) = sym_is_choice y" "sym_is_choice_value (unmarked y) = sym_is_choice_value y"
  "choice_of (unmarked y) = choice_of y" "choice_list (unmarked y) = choice_list y" "deps (unmarked y) = deps y"
proof -
  show f: "s_prop (unmarked y) = s_prop y" "s_rev_dep (unmarked y) = s_rev_dep y" "s_name (unmarked y) = s_name y"
    by (simp_all add: unmarked_def clear_flags_def)
  show g: "sym_is_choice (unmarked y) = sym_is_choice y" "sym_is_choice_value (unmarked y) = sym_is_choice_value y"
    by (simp_all add: unmarked_def sym_is_choice_def sym_is_choice_value_def has_clear_flags flag_defs)
  show "choice_of (unmarked y) = choice_of y" "choice_list (unmarked y) = choice_list y" "deps (unmarked y) = deps y"
    by (simp_all add: choice_of_def choice_list_def sym_get_choice_prop_def deps_def f g)
qed

section \<open>Marks\<close>

definition grey :: "check_state \<Rightarrow> sym set" where
  "grey cs = {s. has_flag (cs_sym cs s) SYMBOL_CHECK}"

definition seen :: "check_state \<Rightarrow> sym set" where
  "seen cs = {s. has_flag (cs_sym cs s) SYMBOL_CHECKED}"

definition finished :: "check_state \<Rightarrow> sym set" where
  "finished cs = seen cs - grey cs"

lemma cs_sym_simps [simp]:
  "cs_sym (dep_stack_insert s cs) = cs_sym cs" "cs_sym (dep_stack_remove cs) = cs_sym cs" "cs_sym (set_top f cs) = cs_sym cs"
  "cs_sym (add_report r cs) = cs_sym cs"
  by (simp_all add: fun_eq_iff cs_sym_def dep_stack_insert_def dep_stack_remove_def set_top_def add_report_def)

lemma marks_simps [simp]:
  "grey (dep_stack_insert s cs) = grey cs" "grey (dep_stack_remove cs) = grey cs" "grey (set_top f cs) = grey cs"
  "grey (add_report r cs) = grey cs"
  "seen (dep_stack_insert s cs) = seen cs" "seen (dep_stack_remove cs) = seen cs" "seen (set_top f cs) = seen cs"
  "seen (add_report r cs) = seen cs"
  "finished (dep_stack_insert s cs) = finished cs" "finished (dep_stack_remove cs) = finished cs" "finished (set_top f cs) = finished cs"
  "finished (add_report r cs) = finished cs"
  "table_of (dep_stack_insert s cs) = table_of cs" "table_of (dep_stack_remove cs) = table_of cs" "table_of (set_top f cs) = table_of cs"
  "table_of (add_report r cs) = table_of cs"
  by (simp_all add: grey_def seen_def finished_def table_of_def)

lemma cs_sym_flags: "cs_sym (on_flags f s cs) a = (if a = s then f (cs_sym cs s) else cs_sym cs a)"
  by (simp add: cs_sym_def on_flags_def k_sym_upd)

lemma unmark_words:
  fixes f a b :: u32
  shows "(f OR m) AND NOT m = f AND NOT m" and "(f AND NOT a) AND NOT (a OR b) = f AND NOT (a OR b)"
  by (rule bit_word_eqI, auto simp: bit_simps)+

lemma clear_set: "clear_flags m (set_flags m y) = clear_flags m y"
  using unmark_words(1)[of "s_flags y" m] by (simp add: clear_flags_def set_flags_def)

lemma clear_clear: "clear_flags (a OR b) (clear_flags a y) = clear_flags (a OR b) y"
  using unmark_words(2)[of "s_flags y" a b] by (simp add: clear_flags_def)

lemma unmarked_start [simp]: "unmarked (set_flags (SYMBOL_CHECK OR SYMBOL_CHECKED) y) = unmarked y"
  "unmarked (clear_flags SYMBOL_CHECK y) = unmarked y"
  unfolding unmarked_def by (rule clear_set clear_clear)+

lemma start_marks [simp]:
  "grey (start_check s cs) = insert s (grey cs)" "seen (start_check s cs) = insert s (seen cs)"
  "table_of (start_check s cs) = table_of cs"
proof -
  have f: "has_flag (set_flags (SYMBOL_CHECK OR SYMBOL_CHECKED) y) SYMBOL_CHECK"
    "has_flag (set_flags (SYMBOL_CHECK OR SYMBOL_CHECKED) y) SYMBOL_CHECKED" for y
    by (simp_all add: has_flag_def set_flags_def bit.conj_disj_distrib2 or_eq_0_iff flag_defs)
  show "grey (start_check s cs) = insert s (grey cs)" "seen (start_check s cs) = insert s (seen cs)"
    by (auto simp: grey_def seen_def start_check_def cs_sym_flags f)
  show "table_of (start_check s cs) = table_of cs"
    by (auto simp: fun_eq_iff table_of_def start_check_def cs_sym_flags)
qed

lemma end_marks [simp]:
  "grey (end_check s cs) = grey cs - {s}" "seen (end_check s cs) = seen cs" "table_of (end_check s cs) = table_of cs"
proof -
  have f: "\<not> has_flag (clear_flags SYMBOL_CHECK y) SYMBOL_CHECK"
    "has_flag (clear_flags SYMBOL_CHECK y) SYMBOL_CHECKED = has_flag y SYMBOL_CHECKED" for y
    by (simp_all add: has_clear_flags_same has_clear_flags flag_defs)
  show "grey (end_check s cs) = grey cs - {s}" "seen (end_check s cs) = seen cs"
    by (auto simp: grey_def seen_def end_check_def cs_sym_flags f)
  show "table_of (end_check s cs) = table_of cs"
    by (auto simp: fun_eq_iff table_of_def end_check_def cs_sym_flags)
qed

lemma fold_start [simp]:
  "grey (fold start_check l cs) = set l \<union> grey cs" "seen (fold start_check l cs) = set l \<union> seen cs"
  "table_of (fold start_check l cs) = table_of cs"
  by (induction l arbitrary: cs) auto

lemma fold_end [simp]:
  "grey (fold end_check l cs) = grey cs - set l" "seen (fold end_check l cs) = seen cs"
  "table_of (fold end_check l cs) = table_of cs"
  by (induction l arbitrary: cs) auto

lemma rest_simps [simp]:
  "cs_stack (start_check s cs) = cs_stack cs" "cs_stack (end_check s cs) = cs_stack cs"
  "cs_reports (start_check s cs) = cs_reports cs" "cs_reports (end_check s cs) = cs_reports cs"
  "cs_reports (dep_stack_insert s cs) = cs_reports cs" "cs_reports (dep_stack_remove cs) = cs_reports cs"
  "cs_reports (set_top f cs) = cs_reports cs" "cs_stack (add_report r cs) = cs_stack cs"
  "cs_reports (add_report r cs) = r # cs_reports cs" "dep_stack_remove (dep_stack_insert s cs) = cs"
  by (simp_all add: start_check_def end_check_def on_flags_def dep_stack_insert_def dep_stack_remove_def set_top_def add_report_def)

lemma fold_rest [simp]:
  "cs_stack (fold start_check l cs) = cs_stack cs" "cs_stack (fold end_check l cs) = cs_stack cs"
  "cs_reports (fold start_check l cs) = cs_reports cs" "cs_reports (fold end_check l cs) = cs_reports cs"
  by (induction l arbitrary: cs) auto

section \<open>The contract\<close>

text \<open>
  Choice values and choices fit together: a choice value is in the list of its choice, and
  neither kind is the other.
\<close>

definition groups_ok :: "symtab \<Rightarrow> bool" where
  "groups_ok T \<longleftrightarrow>
     (\<forall>v. sym_is_choice_value (T v) \<longrightarrow> \<not> sym_is_choice (T v) \<and>
        (\<exists>c. choice_of (T v) = Some c \<and> sym_is_choice (T c) \<and> v \<in> set (choice_list (T c)))) \<and>
     (\<forall>c. sym_is_choice (T c) \<longrightarrow>
        (\<forall>v\<in>set (choice_list (T c)). sym_is_choice_value (T v) \<and> choice_of (T v) = Some c))"

text \<open>The symbol that stands for another one on the stack.\<close>

definition head_sym :: "symtab \<Rightarrow> sym \<Rightarrow> sym" where
  "head_sym T s = (if sym_is_choice_value (T s) then the (choice_of (T s)) else s)"

definition marks_ok :: "symtab \<Rightarrow> check_state \<Rightarrow> bool" where
  "marks_ok T cs \<longleftrightarrow> groups_ok T \<and> table_of cs = T \<and> grey cs \<subseteq> seen cs \<and>
     (\<forall>c. sym_is_choice (T c) \<longrightarrow> (\<forall>v\<in>set (choice_list (T c)). v \<in> seen cs \<longleftrightarrow> c \<in> seen cs)) \<and>
     (\<forall>s\<in>grey cs. head_sym T s \<in> ds_sym ` set (cs_stack cs))"

text \<open>The finished symbols depend on finished symbols only, without a cycle.\<close>

definition dep_rel :: "symtab \<Rightarrow> sym set \<Rightarrow> (sym \<times> sym) set" where
  "dep_rel T B = {(a, b). a \<in> B \<and> b \<in> deps (T a)}"

definition no_cycle :: "symtab \<Rightarrow> check_state \<Rightarrow> bool" where
  "no_cycle T cs \<longleftrightarrow> (\<forall>s\<in>finished cs. deps (T s) \<subseteq> finished cs) \<and> acyclic (dep_rel T (finished cs))"

lemma add_finished:
  assumes "\<forall>s\<in>B. deps (T s) \<subseteq> B" and "acyclic (dep_rel T B)" and "\<forall>s\<in>N. deps (T s) \<subseteq> B"
  shows "acyclic (dep_rel T (B \<union> N))"
proof -
  have "b \<in> B \<and> (a \<in> B \<longrightarrow> (a, b) \<in> (dep_rel T B)\<^sup>+)" if "(a, b) \<in> (dep_rel T (B \<union> N))\<^sup>+" for a b
    using that
  proof (induction rule: trancl_induct)
    case (base y)
    then show ?case using assms(1,3) by (auto simp: dep_rel_def)
  next
    case (step y z)
    then have "(y, z) \<in> dep_rel T B" by (auto simp: dep_rel_def)
    moreover have "z \<in> B" using step assms(1,3) by (auto simp: dep_rel_def)
    ultimately show ?case using step by (blast intro: trancl_into_trancl)
  qed
  then show ?thesis using assms(2) unfolding acyclic_def by blast
qed

text \<open>
  What a part of the search does, seen from outside: \<open>D\<close> are the symbols that it is to finish.
\<close>

definition new_reports :: "check_state \<Rightarrow> check_state \<Rightarrow> string option list list \<Rightarrow> bool" where
  "new_reports cs cs' l \<longleftrightarrow> cs_reports cs' = l @ cs_reports cs \<and> unexpected_report \<notin> set l"

definition searched :: "symtab \<Rightarrow> check_state \<Rightarrow> sym set \<Rightarrow> sym option \<times> check_state \<Rightarrow> bool" where
  "searched T cs D p \<longleftrightarrow> (case p of (r, cs') \<Rightarrow>
     marks_ok T cs' \<and> grey cs' = grey cs \<and> seen cs \<subseteq> seen cs' \<and>
     tl (cs_stack cs') = tl (cs_stack cs) \<and> List.map ds_sym (cs_stack cs') = List.map ds_sym (cs_stack cs) \<and>
     (\<forall>a. r = Some a \<longrightarrow> a \<in> grey cs) \<and>
     (\<exists>l. new_reports cs cs' l \<and> (r \<noteq> None \<longrightarrow> l \<noteq> []) \<and>
        (l = [] \<and> no_cycle T cs \<longrightarrow> no_cycle T cs' \<and> D \<subseteq> finished cs')))"

lemma searched_none: "marks_ok T cs \<Longrightarrow> searched T cs {} (None, cs)"
  by (simp add: searched_def new_reports_def)

lemma finished_mono: "grey cs' = grey cs \<Longrightarrow> seen cs \<subseteq> seen cs' \<Longrightarrow> finished cs \<subseteq> finished cs'"
  by (auto simp: finished_def)

lemma searched_or_else:
  assumes "case m of None \<Rightarrow> True | Some p \<Rightarrow> searched T cs D p"
    and "\<And>cs1. searched T cs D (None, cs1) \<Longrightarrow> case f cs1 of None \<Rightarrow> True | Some p \<Rightarrow> searched T cs1 E p"
  shows "case or_else m f of None \<Rightarrow> True | Some p \<Rightarrow> searched T cs (D \<union> E) p"
proof (cases m)
  case None
  then show ?thesis by (simp add: or_else_def)
next
  case (Some p)
  obtain r cs1 where p: "p = (r, cs1)" by (cases p)
  with Some assms(1) have 1: "searched T cs D (r, cs1)" by simp
  show ?thesis
  proof (cases r)
    case (Some s)
    with 1 have "searched T cs (D \<union> E) (Some s, cs1)" by (auto simp: searched_def)
    with Some \<open>m = Some p\<close> p show ?thesis by (simp add: or_else_def)
  next
    case None
    show ?thesis
    proof (cases "f cs1")
      case (Some q)
      obtain r2 cs2 where q: "q = (r2, cs2)" by (cases q)
      have 1: "searched T cs D (None, cs1)" using 1 None by simp
      then obtain l where l: "new_reports cs cs1 l" "l = [] \<and> no_cycle T cs \<longrightarrow> no_cycle T cs1 \<and> D \<subseteq> finished cs1"
        by (auto simp: searched_def)
      have 2: "searched T cs1 E (r2, cs2)" using assms(2)[OF 1] Some q by simp
      then obtain l2 where l2: "new_reports cs1 cs2 l2" "r2 \<noteq> None \<longrightarrow> l2 \<noteq> []"
        "l2 = [] \<and> no_cycle T cs1 \<longrightarrow> no_cycle T cs2 \<and> E \<subseteq> finished cs2"
        by (auto simp: searched_def)
      have "new_reports cs cs2 (l2 @ l)" using l(1) l2(1) by (auto simp: new_reports_def)
      moreover have "finished cs1 \<subseteq> finished cs2" using 2 by (auto simp: searched_def finished_def)
      ultimately have "searched T cs (D \<union> E) (r2, cs2)"
        using 1 2 l l2 unfolding searched_def prod.case by (intro conjI) (auto intro!: exI[of _ "l2 @ l"])
      then show ?thesis using Some q None \<open>m = Some p\<close> p by (simp add: or_else_def)
    qed (use None \<open>m = Some p\<close> p in \<open>simp add: or_else_def\<close>)
  qed
qed

lemma searched_weaken: "searched T cs D p \<Longrightarrow> E \<subseteq> D \<Longrightarrow> searched T cs E p"
  by (cases p) (simp add: searched_def, blast)

text \<open>A change of the top entry is not seen.\<close>

lemma set_top_marks: "(\<And>e. ds_sym (f e) = ds_sym e) \<Longrightarrow> marks_ok T cs \<Longrightarrow> marks_ok T (set_top f cs)"
proof -
  assume a: "\<And>e. ds_sym (f e) = ds_sym e" "marks_ok T cs"
  have "ds_sym ` set (cs_stack (set_top f cs)) = ds_sym ` set (cs_stack cs)"
    using a(1) by (cases "cs_stack cs") (simp_all add: set_top_def)
  with a(2) show ?thesis by (simp add: marks_ok_def)
qed

lemma searched_set_top:
  assumes "\<And>e. ds_sym (f e) = ds_sym e" and "searched T (set_top f cs) D p"
  shows "searched T cs D p"
proof -
  have "tl (cs_stack (set_top f cs)) = tl (cs_stack cs)" "List.map ds_sym (cs_stack (set_top f cs)) = List.map ds_sym (cs_stack cs)"
    using assms(1) by (simp_all add: set_top_def split: list.split)
  with assms(2) show ?thesis by (auto simp: searched_def new_reports_def no_cycle_def)
qed

section \<open>The search keeps the contract\<close>

text \<open>The symbols of \<open>U\<close> depend on symbols of \<open>U\<close> only.\<close>

definition closed_under :: "symtab \<Rightarrow> sym set \<Rightarrow> bool" where
  "closed_under T U \<longleftrightarrow> finite U \<and>
     (\<forall>s\<in>U. deps (T s) \<subseteq> U \<and> set (choice_list (T s)) \<subseteq> U \<and> (\<forall>c. choice_of (T s) = Some c \<longrightarrow> c \<in> U))"

definition unseen :: "sym set \<Rightarrow> check_state \<Rightarrow> nat" where
  "unseen U cs = card (U - seen cs)"

lemma unseen_mono: "finite U \<Longrightarrow> seen cs \<subseteq> seen cs' \<Longrightarrow> unseen U cs' \<le> unseen U cs"
  unfolding unseen_def by (rule card_mono) auto

definition is_value :: "symtab \<Rightarrow> sym \<Rightarrow> nat" where
  "is_value T s = (if sym_is_choice_value (T s) then 1 else 0)"

text \<open>The laws of the recursive call: what its result is like, and when there is one.\<close>

locale dependency_check =
  fixes T :: symtab and check :: check and n :: nat
  assumes result: "marks_ok T cs \<Longrightarrow> check s cs = Some (r, cs') \<Longrightarrow>
      searched T cs {s} (r, cs') \<and> cs_stack cs' = cs_stack cs"
    and returns: "marks_ok T cs \<Longrightarrow> closed_under T U \<Longrightarrow> s \<in> U \<Longrightarrow> 2 * unseen U cs + is_value T s < n \<Longrightarrow>
      check s cs \<noteq> None"
begin

lemma check_searched: "marks_ok T cs \<Longrightarrow> case check s cs of None \<Rightarrow> True | Some p \<Rightarrow> searched T cs {s} p"
  using result by (auto split: option.split)

lemma searched_ok: "searched T cs D (r, cs') \<Longrightarrow> marks_ok T cs'"
  by (simp add: searched_def)

lemma expr_searched:
  "marks_ok T cs \<Longrightarrow> case sym_check_expr_deps check e cs of None \<Rightarrow> True | Some p \<Rightarrow> searched T cs (expr_syms e) p"
proof (induction e arbitrary: cs)
  case (And l r)
  show ?case
    unfolding sym_check_expr_deps.simps expr_syms.simps
    by (rule searched_or_else[OF And.IH(1)[OF And.prems]]) (rule And.IH(2), erule searched_ok)
next
  case (Or l r)
  show ?case
    unfolding sym_check_expr_deps.simps expr_syms.simps
    by (rule searched_or_else[OF Or.IH(1)[OF Or.prems]]) (rule Or.IH(2), erule searched_ok)
next
  case (Equal a b)
  show ?case
    unfolding sym_check_expr_deps.simps expr_syms.simps insert_is_Un[of a "{b}"]
    by (rule searched_or_else[OF check_searched[OF Equal]]) (rule check_searched, erule searched_ok)
next
  case (Unequal a b)
  show ?case
    unfolding sym_check_expr_deps.simps expr_syms.simps insert_is_Un[of a "{b}"]
    by (rule searched_or_else[OF check_searched[OF Unequal]]) (rule check_searched, erule searched_ok)
qed (simp_all add: check_searched cong: option.case_cong)

lemma ptr_searched:
  "marks_ok T cs \<Longrightarrow> case check_expr_ptr check e cs of None \<Rightarrow> True | Some p \<Rightarrow> searched T cs (ptr_syms e) p"
  by (cases e) (simp_all add: check_expr_ptr_def ptr_syms_def searched_none expr_searched cong: option.case_cong)

lemma value_searched:
  "marks_ok T cs \<Longrightarrow> case check_prop_expr check e cs of None \<Rightarrow> True | Some p \<Rightarrow> searched T cs (value_syms e) p"
  by (cases e; cases "the e") (simp_all add: check_prop_expr_def value_syms_def searched_none expr_searched cong: option.case_cong)

lemma props_searched:
  "marks_ok T cs \<Longrightarrow> case check_props check s ps cs of None \<Rightarrow> True
     | Some p \<Rightarrow> searched T cs (prop_syms (sym_is_choice (T s)) ps) p"
proof (induction ps arbitrary: cs)
  case Nil
  then show ?case by (simp add: searched_none)
next
  case (Cons p ps)
  let ?ch = "sym_is_choice (T s)"
  have ch: "sym_is_choice (cs_sym cs1 s) = ?ch" if "marks_ok T cs1" for cs1
  proof -
    from that have "T s = unmarked (cs_sym cs1 s)" by (auto simp: marks_ok_def table_of_def)
    then show ?thesis by simp
  qed
  show ?case
  proof (cases "p_type p = P_CHOICE \<or> p_type p = P_SELECT")
    case True
    with Cons show ?thesis by (simp cong: option.case_cong)
  next
    case False
    define f1 where "f1 = (\<lambda>e :: dep_stack. e\<lparr>ds_prop := Some p\<rparr>)"
    define f2 where "f2 = (\<lambda>e :: dep_stack. e\<lparr>ds_expr := p_expr p\<rparr>)"
    define f3 where "f3 = (\<lambda>e :: dep_stack. e\<lparr>ds_expr := None\<rparr>)"
    have f: "ds_sym (f1 e) = ds_sym e" "ds_sym (f2 e) = ds_sym e" "ds_sym (f3 e) = ds_sym e" for e
      by (simp_all add: f1_def f2_def f3_def)
    have top: "case m (set_top g cs1) of None \<Rightarrow> True | Some p \<Rightarrow> searched T cs1 D p"
      if "case m (set_top g cs1) of None \<Rightarrow> True | Some p \<Rightarrow> searched T (set_top g cs1) D p" "\<And>e. ds_sym (g e) = ds_sym e"
      for m g cs1 D
      using that searched_set_top[of g T cs1 D] by (cases "m (set_top g cs1)") simp_all
    have vis: "case check_expr_ptr check (ev_expr (p_visible p)) (set_top f1 cs) of None \<Rightarrow> True
        | Some q \<Rightarrow> searched T cs (ptr_syms (ev_expr (p_visible p))) q"
      by (rule top[where m = "check_expr_ptr check (ev_expr (p_visible p))", OF ptr_searched[OF set_top_marks[OF f(1) Cons.prems]] f(1)])
    have rest: "case (if p_type p \<noteq> P_DEFAULT \<or> sym_is_choice (cs_sym cs1 s) then check_props check s ps cs1
          else or_else (check_prop_expr check (p_expr p) (set_top f2 cs1)) (\<lambda>cs. check_props check s ps (set_top f3 cs)))
        of None \<Rightarrow> True
        | Some q \<Rightarrow> searched T cs1 ((if p_type p = P_DEFAULT \<and> \<not> ?ch then value_syms (p_expr p) else {}) \<union> prop_syms ?ch ps) q"
      if ok: "marks_ok T cs1" for cs1
    proof (cases "p_type p \<noteq> P_DEFAULT \<or> ?ch")
      case True
      then show ?thesis using Cons.IH[OF ok] ch[OF ok] by (auto split: if_splits cong: option.case_cong)
    next
      case False
      have 1: "case check_prop_expr check (p_expr p) (set_top f2 cs1) of None \<Rightarrow> True | Some q \<Rightarrow> searched T cs1 (value_syms (p_expr p)) q"
        by (rule top[where m = "check_prop_expr check (p_expr p)", OF value_searched[OF set_top_marks[OF f(2) ok]] f(2)])
      have 2: "case check_props check s ps (set_top f3 cs2) of None \<Rightarrow> True | Some q \<Rightarrow> searched T cs2 (prop_syms ?ch ps) q"
        if "marks_ok T cs2" for cs2
        by (rule top[where m = "check_props check s ps", OF Cons.IH[OF set_top_marks[OF f(3) that]] f(3)])
      show ?thesis using False ch[OF ok] searched_or_else[OF 1 2] searched_ok by (simp cong: option.case_cong)
    qed
    have "prop_syms ?ch (p # ps) = ptr_syms (ev_expr (p_visible p)) \<union>
        ((if p_type p = P_DEFAULT \<and> \<not> ?ch then value_syms (p_expr p) else {}) \<union> prop_syms ?ch ps)"
      using False by auto
    moreover have "case or_else (check_expr_ptr check (ev_expr (p_visible p)) (set_top f1 cs))
        (\<lambda>cs1. if p_type p \<noteq> P_DEFAULT \<or> sym_is_choice (cs_sym cs1 s) then check_props check s ps cs1
          else or_else (check_prop_expr check (p_expr p) (set_top f2 cs1)) (\<lambda>cs. check_props check s ps (set_top f3 cs)))
        of None \<Rightarrow> True
        | Some q \<Rightarrow> searched T cs (ptr_syms (ev_expr (p_visible p)) \<union>
            ((if p_type p = P_DEFAULT \<and> \<not> ?ch then value_syms (p_expr p) else {}) \<union> prop_syms ?ch ps)) q"
      by (rule searched_or_else[OF vis]) (rule rest, erule searched_ok)
    ultimately show ?thesis using False
      unfolding check_props.simps f1_def[symmetric] f2_def[symmetric] f3_def[symmetric] by (simp cong: option.case_cong)
  qed
qed

text \<open>The check of one symbol, up to the removal of its entry.\<close>

lemma sym_deps_searched:
  assumes "marks_ok T (dep_stack_insert s cs)" and "sym_check_sym_deps check s cs = Some (r, cs')"
  obtains cs1 where "searched T (dep_stack_insert s cs) (deps (T s)) (r, cs1)" and "cs' = dep_stack_remove cs1"
    and "cs_stack cs' = cs_stack cs"
proof -
  have y: "s_prop (cs_sym cs1 s) = s_prop (T s)" if "marks_ok T cs1" for cs1
  proof -
    from that have "T s = unmarked (cs_sym cs1 s)" by (auto simp: marks_ok_def table_of_def)
    then show ?thesis by simp
  qed
  have e: "s_rev_dep (cs_sym cs s) = s_rev_dep (T s)"
  proof -
    from assms(1) have "T s = unmarked (cs_sym cs s)" by (auto simp: marks_ok_def table_of_def)
    then show ?thesis by simp
  qed
  have "case or_else (check_expr_ptr check (ev_expr (s_rev_dep (T s))) (dep_stack_insert s cs))
      (\<lambda>cs. check_props check s (s_prop (cs_sym cs s)) cs) of None \<Rightarrow> True
    | Some q \<Rightarrow> searched T (dep_stack_insert s cs) (ptr_syms (ev_expr (s_rev_dep (T s))) \<union> prop_syms (sym_is_choice (T s)) (s_prop (T s))) q"
    by (rule searched_or_else[OF ptr_searched[OF assms(1)]]) (use props_searched y searched_ok in simp)
  then obtain cs1 where 1: "searched T (dep_stack_insert s cs) (deps (T s)) (r, cs1)" "cs' = dep_stack_remove cs1"
    using assms(2) by (auto simp: sym_check_sym_deps_def e deps_def split: option.splits Option.bind_splits)
  moreover have "cs_stack cs' = cs_stack cs"
    using 1 by (simp add: searched_def dep_stack_remove_def dep_stack_insert_def)
  ultimately show ?thesis by (rule that)
qed

text \<open>The same seen by the caller, when the symbol stays on the stack anyway.\<close>

lemma value_deps_searched:
  assumes "marks_ok T cs" and "sym_check_sym_deps check s cs = Some (r, cs')"
  shows "searched T cs (deps (T s)) (r, cs') \<and> cs_stack cs' = cs_stack cs"
proof -
  have "marks_ok T (dep_stack_insert s cs)" using assms(1) by (auto simp: marks_ok_def) (simp add: dep_stack_insert_def)
  from sym_deps_searched[OF this assms(2)] obtain cs1 where
    1: "searched T (dep_stack_insert s cs) (deps (T s)) (r, cs1)" "cs' = dep_stack_remove cs1" "cs_stack cs' = cs_stack cs"
    by blast
  then have "marks_ok T cs'" using assms(1) by (auto simp: searched_def marks_ok_def)
  with 1 show ?thesis by (auto simp: searched_def new_reports_def no_cycle_def)
qed

lemma values_searched:
  "marks_ok T cs \<Longrightarrow> case check_values check l cs of None \<Rightarrow> True | Some p \<Rightarrow> searched T cs (\<Union>v\<in>set l. deps (T v)) p"
proof (induction l arbitrary: cs)
  case (Cons v l)
  have 1: "case sym_check_sym_deps check v cs of None \<Rightarrow> True | Some p \<Rightarrow> searched T cs (deps (T v)) p"
    using value_deps_searched[OF Cons.prems, of v] by (auto split: option.split)
  have e: "(\<Union>w\<in>set (v # l). deps (T w)) = deps (T v) \<union> (\<Union>w\<in>set l. deps (T w))" by simp
  show ?case unfolding check_values.simps e
    by (rule searched_or_else[OF 1]) (rule Cons.IH, erule searched_ok)
qed (simp add: searched_none)

end

end
