(* ===== verification/Kc_Check_Step.thy ===== *)
theory Kc_Check_Step
  imports Kc_Check_Inv
begin

text \<open>
  One step of the search keeps the contract of the recursive call, so \<open>sym_check_deps\<close> has it:
  the report, a symbol that is on its own, a choice with its values, and the number of nested
  calls that is enough.
\<close>

section \<open>The report\<close>

lemma table_at: "marks_ok T cs \<Longrightarrow> T s = unmarked (cs_sym cs s)"
  by (auto simp: marks_ok_def table_of_def)

lemma report_lines: "report_entries cs l (e # es) m \<noteq> unexpected_report" if "ds_sym e = l"
proof -
  obtain ls m' where e: "report_entry cs l e (case es of [] \<Rightarrow> l | f # _ \<Rightarrow> ds_sym f) m = (ls, m')" by (cases "report_entry cs l e (case es of [] \<Rightarrow> l | f # _ \<Rightarrow> ds_sym f) m")
  then have "2 \<le> length ls" using that by (auto simp: report_entry_def Let_def)
  then have "2 \<le> length (report_entries cs l (e # es) m)" by (simp add: e)
  moreover have "length unexpected_report = 1" by (simp add: unexpected_report_def)
  ultimately show ?thesis by (metis not_one_le_zero numeral_2_eq_2 One_nat_def Suc_le_mono)
qed

lemma report_searched:
  assumes ok: "marks_ok T cs" and "s \<in> grey cs"
  shows "searched T cs {s} (Some s, sym_check_print_recursive s cs) \<and> cs_stack (sym_check_print_recursive s cs) = cs_stack cs"
proof -
  let ?cv = "sym_is_choice_value (cs_sym cs s)"
  define cs1 where "cs1 = (if ?cv then dep_stack_insert s cs else cs)"
  define l where "l = head_sym T s"
  have T: "T a = unmarked (cs_sym cs a)" for a by (rule table_at[OF ok])
  have on: "l \<in> ds_sym ` set (cs_stack cs)" using assms by (simp add: marks_ok_def l_def)
  have last: "(if ?cv then choice_of (cs_sym cs s) else Some s) = Some l" and ne: "?cv \<Longrightarrow> l \<noteq> s"
    using ok T by (auto simp: marks_ok_def groups_ok_def l_def head_sym_def)
  have "l \<in> ds_sym ` set (cs_stack cs1)" using on by (auto simp: cs1_def dep_stack_insert_def)
  then obtain e r where d: "dropWhile (\<lambda>e. ds_sym e \<noteq> l) (cs_stack cs1) = e # r"
    by (cases "dropWhile (\<lambda>e. ds_sym e \<noteq> l) (cs_stack cs1)") (auto simp: dropWhile_eq_Nil_conv)
  then have e: "ds_sym e = l" using hd_dropWhile[of "\<lambda>e. ds_sym e \<noteq> l" "cs_stack cs1"] by auto
  define rep where "rep = report_entries cs1 l (e # rev (takeWhile (\<lambda>e. ds_sym e \<noteq> l) (cs_stack cs1))) None"
  have p: "sym_check_print_recursive s cs = (if ?cv then dep_stack_remove (add_report rep cs1) else add_report rep cs1)"
    unfolding sym_check_print_recursive_def Let_def last cs1_def[symmetric] option.case d list.case rep_def ..
  have st: "cs_stack (sym_check_print_recursive s cs) = cs_stack cs"
    by (auto simp: p cs1_def dep_stack_remove_def dep_stack_insert_def add_report_def)
  have rp: "cs_reports (sym_check_print_recursive s cs) = [rep] @ cs_reports cs" and
    m: "grey (sym_check_print_recursive s cs) = grey cs" "seen (sym_check_print_recursive s cs) = seen cs"
      "table_of (sym_check_print_recursive s cs) = table_of cs"
    by (auto simp: p cs1_def)
  have "rep \<noteq> unexpected_report" unfolding rep_def by (rule report_lines[OF e])
  then have "new_reports cs (sym_check_print_recursive s cs) [rep]" using rp by (simp add: new_reports_def)
  moreover have "marks_ok T (sym_check_print_recursive s cs)" using ok by (simp add: marks_ok_def m st)
  ultimately show ?thesis using st m assms(2) by (auto simp: searched_def)
qed

text \<open>A result that is dropped does no harm.\<close>

lemma searched_drop: "searched T cs D (r, cs') \<Longrightarrow> searched T cs D (if r = Some s then None else r, cs')"
  by (auto simp: searched_def)

lemma stack_insert [simp]: "ds_sym ` set (cs_stack (dep_stack_insert s cs)) = insert s (ds_sym ` set (cs_stack cs))"
  by (simp add: dep_stack_insert_def)

section \<open>A symbol on its own\<close>

lemma finished_insert:
  assumes "no_cycle T cs1" and "\<forall>s\<in>N. deps (T s) \<subseteq> finished cs1" and "finished cs2 = finished cs1 \<union> N"
  shows "no_cycle T cs2"
  using assms add_finished[of "finished cs1" T N] by (auto simp: no_cycle_def)

context dependency_check
begin

lemma plain_searched:
  assumes ok: "marks_ok T cs" and new: "s \<notin> seen cs"
    and k: "\<not> sym_is_choice (T s)" "\<not> sym_is_choice_value (T s)"
    and r: "sym_check_sym_deps check s (start_check s cs) = Some (r, cs1)"
  shows "searched T cs {s} (if r = Some s then None else r, end_check s cs1) \<and> cs_stack (end_check s cs1) = cs_stack cs"
proof -
  have g: "groups_ok T" and ng: "s \<notin> grey cs" using ok new by (auto simp: marks_ok_def)
  have nv: "s \<notin> set (choice_list (T c))" "sym_is_choice (T c) \<Longrightarrow> c \<noteq> s" if "sym_is_choice (T c)" for c
    using g k that by (auto simp: groups_ok_def)
  have ok1: "marks_ok T (dep_stack_insert s (start_check s cs))"
    using ok nv k(2) by (auto simp: marks_ok_def head_sym_def)
  obtain cs2 where s: "searched T (dep_stack_insert s (start_check s cs)) (deps (T s)) (r, cs2)"
    "cs1 = dep_stack_remove cs2" "cs_stack cs1 = cs_stack (start_check s cs)"
    using sym_deps_searched[OF ok1 r] by blast
  then have m: "grey cs1 = insert s (grey cs)" "insert s (seen cs) \<subseteq> seen cs1" "table_of cs1 = T"
    and f: "\<forall>c. sym_is_choice (T c) \<longrightarrow> (\<forall>v\<in>set (choice_list (T c)). v \<in> seen cs1 \<longleftrightarrow> c \<in> seen cs1)"
    by (auto simp: searched_def marks_ok_def)
  have ok2: "marks_ok T (end_check s cs1)"
    using ok m f s(3) by (auto simp: marks_ok_def)
  obtain l where l: "new_reports cs cs1 l" "r \<noteq> None \<longrightarrow> l \<noteq> []"
    "l = [] \<and> no_cycle T (start_check s cs) \<longrightarrow> no_cycle T cs1 \<and> deps (T s) \<subseteq> finished cs1"
    using s(1,2) by (auto simp: searched_def new_reports_def no_cycle_def)
  have r': "\<forall>a. r = Some a \<longrightarrow> a \<in> insert s (grey cs)" using s(1) by (simp add: searched_def)
  have fin: "finished (start_check s cs) = finished cs" using new by (auto simp: finished_def)
  have fin2: "finished (end_check s cs1) = finished cs1 \<union> {s}" using m by (auto simp: finished_def)
  have "no_cycle T (start_check s cs) = no_cycle T cs" by (simp add: no_cycle_def fin)
  then have "l = [] \<and> no_cycle T cs \<longrightarrow> no_cycle T (end_check s cs1) \<and> {s} \<subseteq> finished (end_check s cs1)"
    using l(3) finished_insert[of T cs1 "{s}" "end_check s cs1"] fin2 by auto
  then show ?thesis
    using ok2 m ng s(3) l r' unfolding searched_def prod.case
    by (intro conjI exI[of _ l]) (auto simp: new_reports_def)
qed

text \<open>All symbols of a choice are marked, its values first.\<close>

lemma choice_start:
  assumes ok: "marks_ok T cs" and new: "c \<notin> seen cs" and k: "sym_is_choice (T c)"
  defines "cs1 \<equiv> start_check c (fold start_check (choice_list (T c)) (dep_stack_insert c cs))"
  shows "marks_ok T cs1" and "grey cs1 = insert c (set (choice_list (T c)) \<union> grey cs)"
    and "seen cs1 = insert c (set (choice_list (T c)) \<union> seen cs)" and "cs_stack cs1 = cs_stack (dep_stack_insert c cs)"
    and "cs_reports cs1 = cs_reports cs" and "choice_list (cs_sym cs c) = choice_list (T c)"
    and "set (choice_list (T c)) \<inter> seen cs = {}" and "c \<notin> set (choice_list (T c))"
proof -
  let ?l = "choice_list (T c)"
  have g: "groups_ok T" using ok by (simp add: marks_ok_def)
  have nv: "\<not> sym_is_choice_value (T c)" using g k by (auto simp: groups_ok_def)
  have vals: "sym_is_choice_value (T v)" "choice_of (T v) = Some c" if "v \<in> set ?l" for v
    using g k that by (auto simp: groups_ok_def)
  show "choice_list (cs_sym cs c) = ?l" using table_at[OF ok, of c] by simp
  show "set ?l \<inter> seen cs = {}" using ok new k by (auto simp: marks_ok_def)
  show "c \<notin> set ?l" using vals nv by auto
  have other: "v \<notin> insert c (set ?l)" "d \<notin> insert c (set ?l)"
    if "sym_is_choice (T d)" "v \<in> set (choice_list (T d))" "d \<noteq> c" for d v
    using g that vals k unfolding groups_ok_def by (metis insert_iff option.inject)+
  show m1: "grey cs1 = insert c (set ?l \<union> grey cs)" "seen cs1 = insert c (set ?l \<union> seen cs)"
    "cs_stack cs1 = cs_stack (dep_stack_insert c cs)" "cs_reports cs1 = cs_reports cs"
    by (auto simp: cs1_def)
  have tb: "table_of cs1 = T" using ok by (simp add: cs1_def marks_ok_def)
  have head: "head_sym T v = c" if "v \<in> insert c (set ?l)" for v
    using that vals nv by (auto simp: head_sym_def)
  have groups1: "\<forall>d. sym_is_choice (T d) \<longrightarrow> (\<forall>v\<in>set (choice_list (T d)). v \<in> seen cs1 \<longleftrightarrow> d \<in> seen cs1)"
  proof (intro allI impI ballI)
    fix d v assume d: "sym_is_choice (T d)" "v \<in> set (choice_list (T d))"
    show "v \<in> seen cs1 \<longleftrightarrow> d \<in> seen cs1"
      using d other[OF d] ok by (cases "d = c") (auto simp: m1 marks_ok_def)
  qed
  have "\<forall>s\<in>grey cs1. head_sym T s \<in> ds_sym ` set (cs_stack cs1)"
    using ok head unfolding m1 marks_ok_def by (auto simp: m1)
  then show "marks_ok T cs1" using ok groups1 m1 tb by (auto simp: marks_ok_def)
qed

lemma choice_searched:
  assumes ok: "marks_ok T cs" and new: "c \<notin> seen cs" and k: "sym_is_choice (T c)"
    and r: "sym_check_choice_deps check c cs = Some (r, cs')"
  shows "searched T cs {c} (if r = Some c then None else r, cs') \<and> cs_stack cs' = cs_stack cs"
proof -
  let ?l = "choice_list (T c)"
  define cs1 where "cs1 = start_check c (fold start_check ?l (dep_stack_insert c cs))"
  note start = choice_start[OF ok new k, folded cs1_def]
  note ok1 = start(1) and m1 = start(2-5) and cl = start(6) and lnew = start(7) and cnl = start(8)
  obtain r2 cs2 where c2: "sym_check_sym_deps check c cs1 = Some (r2, cs2)"
    using r by (auto simp: sym_check_choice_deps_def Let_def cl cs1_def[symmetric] split: Option.bind_splits)
  have s2: "searched T cs1 (deps (T c)) (r2, cs2)" "cs_stack cs2 = cs_stack cs1"
    using value_deps_searched[OF ok1 c2] by simp_all
  let ?e2 = "end_check c cs2"
  have ok2: "marks_ok T ?e2" using s2 by (auto simp: searched_def marks_ok_def)
  obtain r3 cs3 where c3: "or_else (Some (r2, ?e2)) (check_values check ?l) = Some (r3, cs3)"
    using r c2 by (auto simp: sym_check_choice_deps_def Let_def cl cs1_def[symmetric] split: Option.bind_splits)
  have s3: "searched T ?e2 (if r2 = None then \<Union>v\<in>set ?l. deps (T v) else {}) (if r2 = None then r3 else None, cs3) \<and>
      (r2 \<noteq> None \<longrightarrow> r3 = r2 \<and> cs3 = ?e2)"
  proof (cases r2)
    case None
    then show ?thesis using c3 values_searched[OF ok2, of ?l] by (simp add: or_else_def)
  next
    case (Some a)
    then show ?thesis using c3 searched_none[OF ok2] by (auto simp: or_else_def)
  qed
  let ?e3 = "fold end_check ?l cs3"
  have cs': "cs' = dep_stack_remove ?e3" and rr: "(r = None) = (r3 = None)"
    using r c2 c3 by (auto simp: sym_check_choice_deps_def Let_def cl cs1_def[symmetric] split: option.splits)
  have r_def: "r = (case r3 of
      Some a \<Rightarrow> if sym_is_choice_value (cs_sym ?e3 a) \<and> choice_of (cs_sym ?e3 a) = Some c then Some c else Some a
    | None \<Rightarrow> None)"
    using r c2 c3 by (auto simp: sym_check_choice_deps_def Let_def cl cs1_def[symmetric])
  have g2: "grey cs2 = grey cs1" "seen cs1 \<subseteq> seen cs2" using s2(1) by (simp_all add: searched_def)
  have g3: "marks_ok T cs3" "grey cs3 = grey cs2 - {c}" "seen cs2 \<subseteq> seen cs3" "tl (cs_stack cs3) = tl (cs_stack cs2)"
    "List.map ds_sym (cs_stack cs3) = List.map ds_sym (cs_stack cs2)"
    using s3 unfolding searched_def prod.case by simp_all
  have m3: "grey cs3 = set ?l \<union> (grey cs - {c})" "insert c (set ?l \<union> seen cs) \<subseteq> seen cs3" "table_of cs3 = T"
    "\<forall>c. sym_is_choice (T c) \<longrightarrow> (\<forall>v\<in>set (choice_list (T c)). v \<in> seen cs3 \<longleftrightarrow> c \<in> seen cs3)"
    using g2 g3 m1 cnl by (auto simp: marks_ok_def)
  have st: "cs_stack cs' = cs_stack cs"
    using g3(4) s2(2) m1(3) by (simp add: cs' dep_stack_remove_def dep_stack_insert_def)
  have gr: "grey ?e3 = grey cs" and ng: "c \<notin> grey cs" using m3 lnew new ok by (auto simp: marks_ok_def)
  have ok': "marks_ok T cs'"
    using ok m3 gr st by (auto simp: marks_ok_def cs')
  obtain l2 where l2: "new_reports cs1 cs2 l2" "r2 \<noteq> None \<longrightarrow> l2 \<noteq> []"
    "l2 = [] \<and> no_cycle T cs1 \<longrightarrow> no_cycle T cs2 \<and> deps (T c) \<subseteq> finished cs2"
    using s2(1) unfolding searched_def prod.case by blast
  obtain l3 where l3: "new_reports ?e2 cs3 l3" "r2 = None \<longrightarrow> r3 \<noteq> None \<longrightarrow> l3 \<noteq> []"
    "r2 = None \<longrightarrow> l3 = [] \<and> no_cycle T ?e2 \<longrightarrow> no_cycle T cs3 \<and> (\<Union>v\<in>set ?l. deps (T v)) \<subseteq> finished cs3"
    using s3 unfolding searched_def prod.case by (cases r2) auto
  have rep: "new_reports cs cs' (l3 @ l2)" using l2(1) l3(1) m1 by (auto simp: new_reports_def cs')
  have some: "r \<noteq> None \<longrightarrow> l3 @ l2 \<noteq> []" using rr l2(2) l3(2) by auto
  have fin: "finished cs1 = finished cs" using lnew new ok by (auto simp: finished_def m1 marks_ok_def)
  have fe2: "finished ?e2 = finished cs2 \<union> {c}" using s2(1) m1 by (auto simp: searched_def finished_def)
  have fe3: "finished cs' = finished cs3 \<union> set ?l" using m3 by (auto simp: finished_def cs')
  have "no_cycle T cs' \<and> {c} \<subseteq> finished cs'" if none: "l3 @ l2 = []" "no_cycle T cs"
  proof -
    have "no_cycle T cs1" using none by (simp add: no_cycle_def fin)
    then have 2: "no_cycle T cs2" "deps (T c) \<subseteq> finished cs2" using none l2(3) by auto
    have e2: "no_cycle T ?e2" using finished_insert[OF 2(1) _ fe2] 2(2) by simp
    have "r2 = None" using none l2(2) by auto
    then have 3: "no_cycle T cs3" "(\<Union>v\<in>set ?l. deps (T v)) \<subseteq> finished cs3" using l3(3) none e2 by auto
    have "no_cycle T cs'" using finished_insert[OF 3(1) _ fe3] 3(2) by blast
    moreover have "c \<in> finished cs'" using m3 gr ng by (auto simp: finished_def cs')
    ultimately show ?thesis by simp
  qed
  note quiet = this
  have "a \<in> insert c (set ?l \<union> grey cs)" if "r3 = Some a" for a
    using s2(1) s3 that m1 g2 unfolding searched_def prod.case by (cases r2) auto
  moreover have "a \<notin> set ?l" if "r = Some a" "a \<noteq> c" for a
  proof
    assume "a \<in> set ?l"
    then have "sym_is_choice_value (T a) \<and> choice_of (T a) = Some c" using ok k by (auto simp: marks_ok_def groups_ok_def)
    moreover have "table_of ?e3 a = T a" using m3(3) by simp
    then have "T a = unmarked (cs_sym ?e3 a)" by (simp add: table_of_def)
    ultimately show False using r_def that by (auto split: option.splits if_splits)
  qed
  moreover have "r3 = Some a" if "r = Some a" "a \<noteq> c" for a
    using r_def that by (auto split: option.splits if_splits)
  ultimately have "\<forall>a. (if r = Some c then None else r) = Some a \<longrightarrow> a \<in> grey cs" by auto
  then show ?thesis
    using ok' gr m3 st rep some quiet unfolding searched_def prod.case
    by (intro conjI exI[of _ "l3 @ l2"]) (auto simp: cs')
qed

lemma step_searched:
  assumes ok: "marks_ok T cs" and r: "check_step check s cs = Some (r, cs')"
  shows "searched T cs {s} (r, cs') \<and> cs_stack cs' = cs_stack cs"
proof -
  have T: "T s = unmarked (cs_sym cs s)" by (rule table_at[OF ok])
  consider "s \<in> grey cs" | "s \<notin> grey cs" "s \<in> seen cs" | "s \<notin> grey cs" "s \<notin> seen cs" by blast
  then show ?thesis
  proof cases
    case 1
    then show ?thesis using r report_searched[OF ok 1] by (simp add: check_step_def Let_def grey_def)
  next
    case 2
    then show ?thesis using r ok by (auto simp: check_step_def Let_def grey_def seen_def searched_def new_reports_def finished_def)
  next
    case 3
    define body where "body = (if sym_is_choice_value (T s) then
             (case choice_of (T s) of
                None \<Rightarrow> Some (None, add_report [None] cs)
              | Some c \<Rightarrow> do {
                  (r, cs1) \<leftarrow> check c (dep_stack_insert s cs);
                  Some (r, dep_stack_remove cs1) })
           else if sym_is_choice (T s) then sym_check_choice_deps check s cs
           else do {
             (r, cs1) \<leftarrow> sym_check_sym_deps check s (start_check s cs);
             Some (r, end_check s cs1) })"
    have f: "sym_is_choice_value (T s) = sym_is_choice_value (cs_sym cs s)" "sym_is_choice (T s) = sym_is_choice (cs_sym cs s)"
      "choice_of (T s) = choice_of (cs_sym cs s)" by (simp_all add: T)
    have "check_step check s cs = do { (r, cs1) \<leftarrow> body; Some (if r = Some s then None else r, cs1) }"
      unfolding body_def f check_step_def Let_def using 3 by (simp add: grey_def seen_def)
    then obtain r1 where b: "body = Some (r1, cs')" and rr: "r = (if r1 = Some s then None else r1)"
      using r by (auto split: Option.bind_splits)
    have "searched T cs {s} (if r1 = Some s then None else r1, cs') \<and> cs_stack cs' = cs_stack cs"
    proof (cases "sym_is_choice_value (T s)")
      case True
      then obtain c where c: "choice_of (T s) = Some c" "sym_is_choice (T c)" "s \<in> set (choice_list (T c))"
        using ok by (auto simp: marks_ok_def groups_ok_def)
      obtain cs1 where cs1: "check c (dep_stack_insert s cs) = Some (r1, cs1)" "cs' = dep_stack_remove cs1"
        using b True c(1) by (auto simp: body_def split: Option.bind_splits)
      have ok1: "marks_ok T (dep_stack_insert s cs)" using ok by (auto simp: marks_ok_def)
      have s1: "searched T (dep_stack_insert s cs) {c} (r1, cs1)" "cs_stack cs1 = cs_stack (dep_stack_insert s cs)"
        using result[OF ok1 cs1(1)] by simp_all
      then have st: "cs_stack cs' = cs_stack cs" by (simp add: cs1(2) dep_stack_remove_def dep_stack_insert_def)
      have ok': "marks_ok T cs'" using s1(1) ok st by (auto simp: searched_def marks_ok_def cs1(2))
      have fin: "s \<in> finished cs'" if "c \<in> finished cs1"
        using that s1(1) c 3 by (auto simp: finished_def searched_def marks_ok_def cs1(2))
      have nc: "no_cycle T (dep_stack_insert s cs) = no_cycle T cs" "no_cycle T cs' = no_cycle T cs1"
        "finished cs' = finished cs1" by (simp_all add: no_cycle_def cs1(2))
      have "searched T cs {s} (r1, cs')" using s1(1) ok' st fin unfolding searched_def prod.case nc
        by (auto simp: new_reports_def cs1(2) simp del: marks_simps(9,10))
      then show ?thesis using st searched_drop by blast
    next
      case nv: False
      show ?thesis
      proof (cases "sym_is_choice (T s)")
        case True
        then show ?thesis using b nv choice_searched[OF ok 3(2)] by (simp add: body_def)
      next
        case False
        then show ?thesis using b nv plain_searched[OF ok 3(2) False nv] by (auto simp: body_def split: Option.bind_splits)
      qed
    qed
    then show ?thesis unfolding rr .
  qed
qed

section \<open>The search returns\<close>

text \<open>Enough depth is left for the symbols of \<open>U\<close>.\<close>

definition depth_ok :: "sym set \<Rightarrow> check_state \<Rightarrow> bool" where
  "depth_ok U cs \<longleftrightarrow> marks_ok T cs \<and> 2 * unseen U cs + 1 < n"

lemma depth_later: "depth_ok U cs \<Longrightarrow> closed_under T U \<Longrightarrow> searched T cs D (r, cs1) \<Longrightarrow> depth_ok U cs1"
  using unseen_mono[of U cs cs1] by (auto simp: depth_ok_def closed_under_def searched_def)

lemma check_returns: "depth_ok U cs \<Longrightarrow> closed_under T U \<Longrightarrow> s \<in> U \<Longrightarrow> check s cs \<noteq> None"
  using returns[of cs U s] by (auto simp: depth_ok_def is_value_def)

text \<open>A part that returns and is followed by one that returns.\<close>

lemma or_else_returns:
  assumes "m \<noteq> None" and "depth_ok U cs" and "closed_under T U"
    and "case m of None \<Rightarrow> True | Some p \<Rightarrow> searched T cs D p"
    and "\<And>cs1. depth_ok U cs1 \<Longrightarrow> f cs1 \<noteq> None"
  shows "or_else m f \<noteq> None"
proof -
  obtain r cs1 where m: "m = Some (r, cs1)" using assms(1) by auto
  then have "depth_ok U cs1" using depth_later[OF assms(2,3)] assms(4) by auto
  then have "f cs1 \<noteq> None" by (rule assms(5))
  with m show ?thesis by (auto simp: or_else_def split: option.split)
qed

lemma depth_marks: "depth_ok U cs \<Longrightarrow> marks_ok T cs" by (simp add: depth_ok_def)

lemma expr_returns:
  "closed_under T U \<Longrightarrow> depth_ok U cs \<Longrightarrow> expr_syms e \<subseteq> U \<Longrightarrow> sym_check_expr_deps check e cs \<noteq> None"
proof (induction e arbitrary: cs)
  case (And l r)
  show ?case unfolding sym_check_expr_deps.simps
    by (rule or_else_returns[OF _ And.prems(2,1) expr_searched[OF depth_marks[OF And.prems(2)]]])
      (use And in auto)
next
  case (Or l r)
  show ?case unfolding sym_check_expr_deps.simps
    by (rule or_else_returns[OF _ Or.prems(2,1) expr_searched[OF depth_marks[OF Or.prems(2)]]])
      (use Or in auto)
next
  case (Equal a b)
  show ?case unfolding sym_check_expr_deps.simps
    by (rule or_else_returns[OF _ Equal(2,1) check_searched[OF depth_marks[OF Equal(2)]]])
      (use Equal check_returns in auto)
next
  case (Unequal a b)
  show ?case unfolding sym_check_expr_deps.simps
    by (rule or_else_returns[OF _ Unequal(2,1) check_searched[OF depth_marks[OF Unequal(2)]]])
      (use Unequal check_returns in auto)
next
  case (Sym s)
  then show ?case using check_returns[OF Sym(2,1), of s] by simp
qed simp

lemma ptr_returns: "closed_under T U \<Longrightarrow> depth_ok U cs \<Longrightarrow> ptr_syms e \<subseteq> U \<Longrightarrow> check_expr_ptr check e cs \<noteq> None"
  using expr_returns[of U cs] by (cases e) (simp_all add: check_expr_ptr_def ptr_syms_def)

lemma value_returns: "closed_under T U \<Longrightarrow> depth_ok U cs \<Longrightarrow> value_syms e \<subseteq> U \<Longrightarrow> check_prop_expr check e cs \<noteq> None"
  using expr_returns[of U cs] by (cases e; cases "the e") (simp_all add: check_prop_expr_def value_syms_def)

lemma depth_set_top: "(\<And>e. ds_sym (f e) = ds_sym e) \<Longrightarrow> depth_ok U cs \<Longrightarrow> depth_ok U (set_top f cs)"
  using set_top_marks[of f T cs] by (simp add: depth_ok_def unseen_def)

lemma props_returns:
  "closed_under T U \<Longrightarrow> depth_ok U cs \<Longrightarrow> prop_syms (sym_is_choice (T s)) ps \<subseteq> U \<Longrightarrow> check_props check s ps cs \<noteq> None"
proof (induction ps arbitrary: cs)
  case (Cons p ps)
  show ?case
  proof (cases "p_type p = P_CHOICE \<or> p_type p = P_SELECT")
    case True
    with Cons show ?thesis by simp
  next
    case False
    define f1 where "f1 = (\<lambda>e :: dep_stack. e\<lparr>ds_prop := Some p\<rparr>)"
    define f2 where "f2 = (\<lambda>e :: dep_stack. e\<lparr>ds_expr := p_expr p\<rparr>)"
    define f3 where "f3 = (\<lambda>e :: dep_stack. e\<lparr>ds_expr := None\<rparr>)"
    have f: "ds_sym (f1 e) = ds_sym e" "ds_sym (f2 e) = ds_sym e" "ds_sym (f3 e) = ds_sym e" for e
      by (simp_all add: f1_def f2_def f3_def)
    have sub: "ptr_syms (ev_expr (p_visible p)) \<subseteq> U" "prop_syms (sym_is_choice (T s)) ps \<subseteq> U"
      "p_type p = P_DEFAULT \<and> \<not> sym_is_choice (T s) \<Longrightarrow> value_syms (p_expr p) \<subseteq> U"
      using Cons.prems(3) False by auto
    note d1 = depth_set_top[of f1, OF f(1) Cons.prems(2)]
    have rest: "(if p_type p \<noteq> P_DEFAULT \<or> sym_is_choice (cs_sym cs1 s) then check_props check s ps cs1
          else or_else (check_prop_expr check (p_expr p) (set_top f2 cs1)) (\<lambda>cs. check_props check s ps (set_top f3 cs))) \<noteq> None"
      if d: "depth_ok U cs1" for cs1
    proof -
      have ch: "sym_is_choice (cs_sym cs1 s) = sym_is_choice (T s)" using table_at[OF depth_marks[OF d], of s] by simp
      note d2 = depth_set_top[of f2, OF f(2) d]
      have "or_else (check_prop_expr check (p_expr p) (set_top f2 cs1)) (\<lambda>cs. check_props check s ps (set_top f3 cs)) \<noteq> None"
        if "p_type p = P_DEFAULT \<and> \<not> sym_is_choice (T s)"
        by (rule or_else_returns[OF value_returns[OF Cons.prems(1) d2 sub(3)[OF that]] d2 Cons.prems(1)
              value_searched[OF depth_marks[OF d2]]])
          (rule Cons.IH[OF Cons.prems(1) depth_set_top[of f3, OF f(3)] sub(2)])
      then show ?thesis using Cons.IH[OF Cons.prems(1) d sub(2)] ch by auto
    qed
    have "or_else (check_expr_ptr check (ev_expr (p_visible p)) (set_top f1 cs))
        (\<lambda>cs1. if p_type p \<noteq> P_DEFAULT \<or> sym_is_choice (cs_sym cs1 s) then check_props check s ps cs1
          else or_else (check_prop_expr check (p_expr p) (set_top f2 cs1)) (\<lambda>cs. check_props check s ps (set_top f3 cs))) \<noteq> None"
      by (rule or_else_returns[OF ptr_returns[OF Cons.prems(1) d1 sub(1)] d1 Cons.prems(1) ptr_searched[OF depth_marks[OF d1]]])
        (rule rest)
    then show ?thesis using False unfolding check_props.simps f1_def[symmetric] f2_def[symmetric] f3_def[symmetric] by simp
  qed
qed simp

lemma sym_deps_returns:
  assumes "closed_under T U" and "depth_ok U (dep_stack_insert s cs)" and "deps (T s) \<subseteq> U"
  shows "sym_check_sym_deps check s cs \<noteq> None"
proof -
  have T: "T s = unmarked (cs_sym cs1 s)" if "depth_ok U cs1" for cs1 by (rule table_at[OF depth_marks[OF that]])
  have sub: "ptr_syms (ev_expr (s_rev_dep (T s))) \<subseteq> U" "prop_syms (sym_is_choice (T s)) (s_prop (T s)) \<subseteq> U"
    using assms(3) by (simp_all add: deps_def)
  have e: "s_rev_dep (cs_sym cs s) = s_rev_dep (T s)" using T[OF assms(2)] by simp
  have "or_else (check_expr_ptr check (ev_expr (s_rev_dep (T s))) (dep_stack_insert s cs))
      (\<lambda>cs. check_props check s (s_prop (cs_sym cs s)) cs) \<noteq> None"
  proof (rule or_else_returns[OF ptr_returns[OF assms(1,2) sub(1)] assms(2,1) ptr_searched[OF depth_marks[OF assms(2)]]])
    fix cs1 assume d: "depth_ok U cs1"
    have "s_prop (cs_sym cs1 s) = s_prop (T s)" using T[OF d] by simp
    then show "check_props check s (s_prop (cs_sym cs1 s)) cs1 \<noteq> None"
      using props_returns[OF assms(1) d sub(2)] by simp
  qed
  then show ?thesis by (auto simp: sym_check_sym_deps_def e split: Option.bind_splits)
qed

lemma values_return:
  "closed_under T U \<Longrightarrow> depth_ok U cs \<Longrightarrow> set l \<subseteq> U \<Longrightarrow> check_values check l cs \<noteq> None"
proof (induction l arbitrary: cs)
  case (Cons v l)
  have d: "depth_ok U (dep_stack_insert v cs)" using Cons.prems(2) by (auto simp: depth_ok_def marks_ok_def unseen_def)
  have v: "sym_check_sym_deps check v cs \<noteq> None"
    by (rule sym_deps_returns[OF Cons.prems(1) d]) (use Cons.prems(1,3) in \<open>auto simp: closed_under_def\<close>)
  have s: "case sym_check_sym_deps check v cs of None \<Rightarrow> True | Some p \<Rightarrow> searched T cs (deps (T v)) p"
    using value_deps_searched[OF depth_marks[OF Cons.prems(2)], of v] by (auto split: option.split)
  show ?case unfolding check_values.simps
    by (rule or_else_returns[OF v Cons.prems(2,1) s]) (use Cons in auto)
qed simp

lemma unseen_less: "finite U \<Longrightarrow> s \<in> U \<Longrightarrow> s \<notin> seen cs \<Longrightarrow> insert s (seen cs) \<subseteq> seen cs1 \<Longrightarrow> Suc (unseen U cs1) \<le> unseen U cs"
  unfolding unseen_def Suc_le_eq by (rule psubset_card_mono) auto

lemma choice_returns:
  assumes ok: "marks_ok T cs" and U: "closed_under T U" "c \<in> U" and new: "c \<notin> seen cs" and k: "sym_is_choice (T c)"
    and d: "2 * unseen U cs < Suc n"
  shows "sym_check_choice_deps check c cs \<noteq> None"
proof -
  let ?l = "choice_list (T c)"
  define cs1 where "cs1 = start_check c (fold start_check ?l (dep_stack_insert c cs))"
  note start = choice_start[OF ok new k, folded cs1_def]
  have l: "set ?l \<subseteq> U" "deps (T c) \<subseteq> U" "finite U" using U by (auto simp: closed_under_def)
  have d1: "depth_ok U cs1"
  proof -
    have "Suc (unseen U cs1) \<le> unseen U cs" by (rule unseen_less[OF l(3) U(2) new]) (auto simp: start(3))
    with d start(1) show ?thesis by (simp add: depth_ok_def)
  qed
  have "depth_ok U (dep_stack_insert c cs1)" using d1 by (auto simp: depth_ok_def marks_ok_def unseen_def)
  then obtain r2 cs2 where c2: "sym_check_sym_deps check c cs1 = Some (r2, cs2)"
    using sym_deps_returns[OF U(1) _ l(2), of cs1] by auto
  have s2: "searched T cs1 (deps (T c)) (r2, cs2)" using value_deps_searched[OF start(1) c2] by simp
  have "marks_ok T (end_check c cs2)" using s2 by (auto simp: searched_def marks_ok_def)
  then have "depth_ok U (end_check c cs2)" using depth_later[OF d1 U(1) s2] by (simp add: depth_ok_def unseen_def)
  then have "check_values check ?l (end_check c cs2) \<noteq> None" by (rule values_return[OF U(1) _ l(1)])
  then have "or_else (Some (r2, end_check c cs2)) (check_values check ?l) \<noteq> None"
    by (auto simp: or_else_def split: option.split)
  with c2 show ?thesis
    by (auto simp: sym_check_choice_deps_def Let_def start(6) cs1_def[symmetric])
qed

lemma step_returns:
  assumes ok: "marks_ok T cs" and U: "closed_under T U" "s \<in> U" and d: "2 * unseen U cs + is_value T s < Suc n"
  shows "check_step check s cs \<noteq> None"
proof -
  have T: "T s = unmarked (cs_sym cs s)" by (rule table_at[OF ok])
  have f: "sym_is_choice_value (T s) = sym_is_choice_value (cs_sym cs s)" "sym_is_choice (T s) = sym_is_choice (cs_sym cs s)"
    "choice_of (T s) = choice_of (cs_sym cs s)" by (simp_all add: T)
  have U': "finite U" "deps (T s) \<subseteq> U" using U by (auto simp: closed_under_def)
  show ?thesis
  proof (cases "s \<in> grey cs \<or> s \<in> seen cs")
    case True
    then show ?thesis by (auto simp: check_step_def Let_def grey_def seen_def)
  next
    case False
    define body where "body = (if sym_is_choice_value (T s) then
             (case choice_of (T s) of
                None \<Rightarrow> Some (None, add_report [None] cs)
              | Some c \<Rightarrow> do {
                  (r, cs1) \<leftarrow> check c (dep_stack_insert s cs);
                  Some (r, dep_stack_remove cs1) })
           else if sym_is_choice (T s) then sym_check_choice_deps check s cs
           else do {
             (r, cs1) \<leftarrow> sym_check_sym_deps check s (start_check s cs);
             Some (r, end_check s cs1) })"
    have e: "check_step check s cs = do { (r, cs1) \<leftarrow> body; Some (if r = Some s then None else r, cs1) }"
      unfolding body_def f check_step_def Let_def using False by (simp add: grey_def seen_def)
    have "body \<noteq> None"
    proof (cases "sym_is_choice_value (T s)")
      case True
      have g: "groups_ok T" using ok by (simp add: marks_ok_def)
      obtain c where c1: "choice_of (T s) = Some c" "sym_is_choice (T c)" using g True by (auto simp: groups_ok_def)
      then have c: "choice_of (T s) = Some c" "\<not> sym_is_choice_value (T c)" "c \<in> U"
        using g U by (auto simp: groups_ok_def closed_under_def)
      have "marks_ok T (dep_stack_insert s cs)" using ok by (auto simp: marks_ok_def)
      then have "check c (dep_stack_insert s cs) \<noteq> None"
        using returns[of "dep_stack_insert s cs" U c] U(1) c d True by (simp add: unseen_def is_value_def)
      with True c(1) show ?thesis by (auto simp: body_def)
    next
      case nv: False
      show ?thesis
      proof (cases "sym_is_choice (T s)")
        case True
        then show ?thesis using nv choice_returns[OF ok U _ True] False d by (simp add: body_def is_value_def)
      next
        case nc: False
        have g: "groups_ok T" using ok by (simp add: marks_ok_def)
        have nval: "s \<notin> set (choice_list (T c))" "c \<noteq> s" if "sym_is_choice (T c)" for c
          using g nv nc that by (auto simp: groups_ok_def)
        have "marks_ok T (dep_stack_insert s (start_check s cs))"
          using ok nval nv by (auto simp: marks_ok_def head_sym_def)
        then have "depth_ok U (dep_stack_insert s (start_check s cs))"
          using unseen_less[OF U'(1) U(2), of cs "start_check s cs"] False d by (simp add: depth_ok_def unseen_def)
        then have "sym_check_sym_deps check s (start_check s cs) \<noteq> None" by (rule sym_deps_returns[OF U(1) _ U'(2)])
        with nv nc show ?thesis by (auto simp: body_def)
      qed
    qed
    then show ?thesis unfolding e by (auto split: prod.split)
  qed
qed

end

text \<open>The search of the program has the contract, whatever the table and the depth.\<close>

interpretation search: dependency_check T "sym_check_deps n" n for T n
proof (induction n)
  case 0
  show ?case by unfold_locales simp_all
next
  case (Suc n)
  show ?case
  proof
    show "marks_ok T cs \<Longrightarrow> sym_check_deps (Suc n) s cs = Some (r, cs') \<Longrightarrow>
        searched T cs {s} (r, cs') \<and> cs_stack cs' = cs_stack cs" for s cs r cs'
      using dependency_check.step_searched[OF Suc] by simp
    show "marks_ok T cs \<Longrightarrow> closed_under T U \<Longrightarrow> s \<in> U \<Longrightarrow> 2 * unseen U cs + is_value T s < Suc n \<Longrightarrow>
        sym_check_deps (Suc n) s cs \<noteq> None" for s cs U
      using dependency_check.step_returns[OF Suc] by simp
  qed
qed

end
