(* ===== verification/Kc_Check_Props.thy ===== *)
theory Kc_Check_Props
  imports Kc_Check_Step
begin

text \<open>
  The check of all symbols at the end of the parse (\<open>conf_parse\<close> in zconf.y), and what it
  promises: it returns, it leaves the symbols as they are apart from the marks, and without a
  report no checked symbol depends on itself. The errors that it counts are never any.
\<close>

section \<open>All symbols\<close>

text \<open>The loop over all symbols, with the count of errors \<open>zconfnerrs\<close>.\<close>

fun check_symbols :: "nat \<Rightarrow> sym list \<Rightarrow> nat \<times> check_state \<Rightarrow> (nat \<times> check_state) option" where
  "check_symbols n [] (e, cs) = Some (e, cs)"
| "check_symbols n (s # ss) (e, cs) = do {
     (r, cs1) \<leftarrow> sym_check_deps n s cs;
     check_symbols n ss (if r \<noteq> None then Suc e else e, cs1) }"

text \<open>Nothing is marked when the check starts.\<close>

definition not_checked :: "check_state \<Rightarrow> bool" where
  "not_checked cs \<longleftrightarrow> groups_ok (table_of cs) \<and> grey cs = {} \<and> seen cs = {}"

lemma not_checked_marks: "not_checked cs \<Longrightarrow> marks_ok (table_of cs) cs"
  by (simp add: not_checked_def marks_ok_def)

lemma check_symbols_searched:
  "marks_ok T cs \<Longrightarrow> check_symbols n ss (e, cs) = Some (e', cs') \<Longrightarrow>
   searched T cs (set ss) (None, cs') \<and> cs_stack cs' = cs_stack cs \<and> (grey cs = {} \<longrightarrow> e' = e)"
proof (induction ss arbitrary: e cs)
  case (Cons s ss)
  obtain r cs1 where 1: "sym_check_deps n s cs = Some (r, cs1)"
    "check_symbols n ss (if r \<noteq> None then Suc e else e, cs1) = Some (e', cs')"
    using Cons.prems(2) by (auto split: Option.bind_splits)
  have s: "searched T cs {s} (r, cs1)" "cs_stack cs1 = cs_stack cs"
    using search.result[OF Cons.prems(1) 1(1)] by simp_all
  then have ok: "marks_ok T cs1" and g: "grey cs1 = grey cs" by (simp_all add: searched_def)
  note 2 = Cons.IH[OF ok 1(2)]
  have "searched T cs {s} (None, cs1)" using s(1) by (auto simp: searched_def)
  moreover have "grey cs = {} \<longrightarrow> r = None" using s(1) by (cases r) (auto simp: searched_def)
  ultimately show ?case
    using 2 s(2) g searched_or_else[where m = "Some (None, cs1)" and f = "\<lambda>cs2. if cs2 = cs1 then Some (None, cs') else None" and T = T and cs = cs
        and D = "{s}" and E = "set ss"]
    by (auto simp: or_else_def)
qed (simp add: searched_none)

lemma check_symbols_returns:
  "marks_ok T cs \<Longrightarrow> closed_under T U \<Longrightarrow> set ss \<subseteq> U \<Longrightarrow> 2 * unseen U cs + 1 < n \<Longrightarrow> check_symbols n ss (e, cs) \<noteq> None"
proof (induction ss arbitrary: e cs)
  case (Cons s ss)
  have "2 * unseen U cs + is_value T s < n" using Cons.prems(4) by (simp add: is_value_def)
  then obtain r cs1 where 1: "sym_check_deps n s cs = Some (r, cs1)"
    using search.returns[OF Cons.prems(1,2), of s n] Cons.prems(3) by auto
  have s: "searched T cs {s} (r, cs1)" using search.result[OF Cons.prems(1) 1] by simp
  have "unseen U cs1 \<le> unseen U cs"
    using s Cons.prems(2) by (intro unseen_mono) (auto simp: closed_under_def searched_def)
  then have "check_symbols n ss (e1, cs1) \<noteq> None" for e1
    using Cons.IH[of cs1 e1] s Cons.prems by (simp add: searched_def)
  with 1 show ?case by simp
qed simp

text \<open>A path from a finished symbol stays in the finished symbols.\<close>

lemma path_finished:
  assumes "no_cycle T cs" and "(a, b) \<in> (dep_rel T UNIV)\<^sup>+" and "a \<in> finished cs"
  shows "(a, b) \<in> (dep_rel T (finished cs))\<^sup>+ \<and> b \<in> finished cs"
  using assms(2)
proof (induction rule: trancl_induct)
  case (base b)
  then show ?case using assms(1,3) by (auto simp: dep_rel_def no_cycle_def)
next
  case (step b c)
  then have "(b, c) \<in> dep_rel T (finished cs)" by (simp add: dep_rel_def)
  then show ?case using step assms(1) by (auto simp: dep_rel_def no_cycle_def intro: trancl_into_trancl)
qed

section \<open>An example\<close>

text \<open>
  Two symbols, where the second depends on what the argument says and the first on the second, and a choice
  with one value.
\<close>

definition example_prompt :: "expr option \<Rightarrow> property" where
  "example_prompt e = \<lparr>p_type = P_PROMPT, p_text = Some ''prompt'', p_visible = \<lparr>ev_expr = e, ev_tri = tri_no\<rparr>,
     p_expr = None, p_menu = Some 1, p_file = ''Config.in'', p_lineno = 7\<rparr>"

definition example_group :: "prop_expr \<Rightarrow> property" where
  "example_group e = (example_prompt None)\<lparr>p_type := P_CHOICE, p_expr := Some e\<rparr>"

definition example_deps :: "expr option \<Rightarrow> symtab" where
  "example_deps e s =
     (if s = sym_at 1 then (example_symbol S_BOOLEAN 0)\<lparr>s_prop := [example_prompt (Some (Sym (sym_at 2)))]\<rparr>
      else if s = sym_at 2 then (example_symbol S_BOOLEAN 0)\<lparr>s_prop := [example_prompt e]\<rparr>
      else if s = sym_at 3 then (example_symbol S_BOOLEAN SYMBOL_CHOICE)\<lparr>s_prop := [example_group (PE_list [sym_at 4])]\<rparr>
      else if s = sym_at 4 then (example_symbol S_BOOLEAN SYMBOL_CHOICEVAL)\<lparr>s_prop := [example_group (PE_expr (Sym (sym_at 3)))]\<rparr>
      else example_symbol S_UNKNOWN 0)"

definition example_check :: "expr option \<Rightarrow> check_state" where
  "example_check e = \<lparr>cs_k = example_state\<lparr>k_sym := example_deps e\<rparr>, cs_menus = (\<lambda>_. empty_menu), cs_stack = [], cs_reports = []\<rparr>"

lemma example_unmarked: "table_of (example_check e) = example_deps e"
  by (simp add: fun_eq_iff table_of_def cs_sym_def example_check_def example_deps_def unmarked_def clear_flags_def
      example_symbol_def flag_defs)

lemma example_kinds:
  "sym_is_choice_value (example_deps e s) = (s = sym_at 4)" "sym_is_choice (example_deps e s) = (s = sym_at 3)"
  "choice_list (example_deps e s) = (if s = sym_at 3 then [sym_at 4] else [])"
  "choice_of (example_deps e s) = (if s = sym_at 4 then Some (sym_at 3) else None)"
  by (simp_all add: example_deps_def example_symbol_def example_prompt_def example_group_def sym_is_choice_value_def
      sym_is_choice_def has_flag_def flag_defs choice_list_def choice_of_def sym_get_choice_prop_def prop_get_symbol_def)

lemma example_not_checked: "not_checked (example_check e)"
proof -
  have "groups_ok (example_deps e)" by (auto simp: groups_ok_def example_kinds)
  moreover have "grey (example_check e) = {}" "seen (example_check e) = {}"
    by (auto simp: grey_def seen_def cs_sym_def example_check_def example_deps_def example_symbol_def has_flag_def flag_defs split: if_splits)
  ultimately show ?thesis by (simp add: not_checked_def example_unmarked)
qed

lemma example_deps_of: "deps (example_deps e s) = (if s = sym_at 1 then {sym_at 2} else if s = sym_at 2 then ptr_syms e else {})"
  by (simp add: deps_def example_deps_def example_symbol_def example_prompt_def example_group_def ptr_syms_def)

lemma example_closed: "closed_under (example_deps (Some (Sym (sym_at 1)))) {sym_at 1, sym_at 2, sym_at 3, sym_at 4}"
  by (simp add: closed_under_def example_kinds example_deps_of ptr_syms_def)

lemma example_run:
  "map_option (\<lambda>p. (fst p, cs_reports (snd p))) (check_symbols 10 [sym_at 1, sym_at 2, sym_at 4] (0, example_check None)) = Some (0, [])"
  "map_option (\<lambda>p. (fst p, length (cs_reports (snd p))))
     (check_symbols 10 [sym_at 1, sym_at 2] (0, example_check (Some (Sym (sym_at 1))))) = Some (0, 1)"
  by code_simp+

section \<open>Properties\<close>

text \<open>
  C7: The check of any symbols returns: twice the number of the symbols that they depend on,
  and two, bounds how deep the calls of \<open>sym_check_deps\<close> nest, whatever cycles there are.
\<close>

theorem dependency_check_returns:
  assumes "not_checked cs" and "closed_under (table_of cs) U" and "set ss \<subseteq> U" and "2 * card U + 2 \<le> n"
  shows "\<exists>e' cs'. check_symbols n ss (e, cs) = Some (e', cs')"
proof -
  have "unseen U cs \<le> card U" using assms(2) unfolding unseen_def by (intro card_mono) (auto simp: closed_under_def)
  then show ?thesis
    using check_symbols_returns[OF not_checked_marks[OF assms(1)] assms(2,3), of n e] assms(4) by auto
qed

theorem dependency_check_returns_witness:
  "\<exists>e' cs'. check_symbols 10 [sym_at 1, sym_at 2, sym_at 4] (0, example_check (Some (Sym (sym_at 1)))) = Some (e', cs')"
  by (rule dependency_check_returns[OF example_not_checked example_closed[folded example_unmarked]]) simp_all

text \<open>
  C6: When the check reports nothing, no symbol that was checked depends on itself, directly or
  through other symbols.
\<close>

theorem no_report_no_recursion:
  assumes "not_checked cs" and "check_symbols n ss (e, cs) = Some (e', cs')" and "cs_reports cs' = cs_reports cs"
  shows "\<forall>s\<in>set ss. (s, s) \<notin> {(a, b). b \<in> deps (table_of cs a)}\<^sup>+"
proof -
  let ?T = "table_of cs"
  have s: "searched ?T cs (set ss) (None, cs')"
    using check_symbols_searched[OF not_checked_marks[OF assms(1)] assms(2)] by simp
  have "no_cycle ?T cs" using assms(1) by (simp add: no_cycle_def finished_def not_checked_def dep_rel_def acyclic_def)
  then have f: "no_cycle ?T cs'" "set ss \<subseteq> finished cs'"
    using s assms(3) by (auto simp: searched_def new_reports_def)
  have d: "dep_rel ?T UNIV = {(a, b). b \<in> deps (table_of cs a)}" by (simp add: dep_rel_def)
  show ?thesis
  proof (intro ballI notI)
    fix s assume "s \<in> set ss" "(s, s) \<in> {(a, b). b \<in> deps (table_of cs a)}\<^sup>+"
    then have "(s, s) \<in> (dep_rel ?T (finished cs'))\<^sup>+" using path_finished[OF f(1), of s s] f(2) unfolding d by blast
    then show False using f(1) by (simp add: no_cycle_def acyclic_def)
  qed
qed

theorem no_report_no_recursion_witness:
  "(sym_at 1, sym_at 1) \<notin> {(a, b). b \<in> deps (table_of (example_check None) a)}\<^sup>+"
proof -
  obtain e cs' where r: "check_symbols 10 [sym_at 1, sym_at 2, sym_at 4] (0, example_check None) = Some (e, cs')" "cs_reports cs' = []"
    using example_run(1) by auto
  then have "cs_reports cs' = cs_reports (example_check None)" by (simp add: example_check_def)
  from no_report_no_recursion[OF example_not_checked r(1) this] show ?thesis by simp
qed

text \<open>
  The check leaves the symbols as they are apart from its marks, no symbol is left in the
  state of being checked, the stack is empty again, and the report for a symbol that is not on the
  stack never appears.
\<close>

theorem dependency_check_restores:
  assumes "not_checked cs" and "check_symbols n ss (e, cs) = Some (e', cs')"
  shows "table_of cs' = table_of cs \<and> (\<forall>s. \<not> has_flag (cs_sym cs' s) SYMBOL_CHECK) \<and> cs_stack cs' = cs_stack cs \<and>
    (\<exists>l. cs_reports cs' = l @ cs_reports cs \<and> unexpected_report \<notin> set l)"
proof -
  note s = check_symbols_searched[OF not_checked_marks[OF assms(1)] assms(2)]
  then have "grey cs' = {}" using assms(1) by (simp add: searched_def not_checked_def)
  then show ?thesis using s by (auto simp: searched_def new_reports_def marks_ok_def grey_def)
qed

theorem dependency_check_restores_witness:
  "\<exists>e cs'. check_symbols 10 [sym_at 1, sym_at 2] (0, example_check (Some (Sym (sym_at 1)))) = Some (e, cs') \<and>
     length (cs_reports cs') = 1 \<and> \<not> has_flag (cs_sym cs' (sym_at 1)) SYMBOL_CHECK \<and> cs_stack cs' = []"
proof -
  let ?c = "example_check (Some (Sym (sym_at 1)))"
  obtain e cs' where r: "check_symbols 10 [sym_at 1, sym_at 2] (0, ?c) = Some (e, cs')" "length (cs_reports cs') = 1"
    using example_run(2) by auto
  have "cs_stack ?c = []" by (simp add: example_check_def)
  then show ?thesis using r dependency_check_restores[OF example_not_checked r(1)] by auto
qed

text \<open>
  No recursive dependency is counted as an error: the symbol that \<open>sym_check_deps\<close> returns is
  always one whose check is still running, and for the symbols of the loop in \<open>conf_parse\<close> there is
  none, so the parse goes on after the report.
\<close>

theorem recursion_is_not_counted:
  assumes "not_checked cs" and "check_symbols n ss (e, cs) = Some (e', cs')"
  shows "e' = e"
  using check_symbols_searched[OF not_checked_marks[OF assms(1)] assms(2)] assms(1) by (simp add: not_checked_def)

theorem recursion_is_not_counted_witness:
  "\<exists>cs'. check_symbols 10 [sym_at 1, sym_at 2] (0, example_check (Some (Sym (sym_at 1)))) = Some (0, cs') \<and>
     length (cs_reports cs') = 1"
proof -
  let ?c = "example_check (Some (Sym (sym_at 1)))"
  obtain e cs' where r: "check_symbols 10 [sym_at 1, sym_at 2] (0, ?c) = Some (e, cs')" "length (cs_reports cs') = 1"
    using example_run(2) by auto
  with recursion_is_not_counted[OF example_not_checked r(1)] show ?thesis by auto
qed

end
