(* ===== verification/Kc_Options.thy ===== *)
theory Kc_Options
  imports Kc_Menu_Tree
begin

text \<open>
  The options of a symbol (\<open>menu_add_option\<close> of menu.c), the symbols with a value from the
  environment (\<open>prop_add_env\<close> of symbol.c), and the symbol that \<open>sym_init\<close> makes. The environment
  and the release of the kernel that \<open>uname\<close> reports are arguments.
\<close>

section \<open>Errors of the parser\<close>

definition zconf_error :: "string \<Rightarrow> pstate \<Rightarrow> pstate" where
  "zconf_error msg st = (warn (position (ps_file st) (ps_lineno st) @ '' '' @ msg) st)\<lparr>ps_errors := Suc (ps_errors st)\<rparr>"

definition quoted :: "string \<Rightarrow> string" where
  "quoted s = [CHR 0x27] @ s @ [CHR 0x27]"

section \<open>Values from outside\<close>

text \<open>A property whose expression is the symbol of a constant.\<close>

definition add_const_prop :: "prop_type \<Rightarrow> sym \<Rightarrow> string \<Rightarrow> pstate \<Rightarrow> pstate" where
  "add_const_prop t s text st =
     (let (c, k) = sym_lookup (Some text) SYMBOL_CONST (ps_k st) in
      snd (prop_alloc ((new_prop t (ps_file st) (ps_lineno st))\<lparr>p_expr := Some (PE_expr (expr_alloc_symbol c))\<rparr>) (Some s)
             (st\<lparr>ps_k := k\<rparr>)))"

definition sym_add_default :: "sym \<Rightarrow> string \<Rightarrow> pstate \<Rightarrow> pstate" where
  "sym_add_default = add_const_prop P_DEFAULT"

text \<open>\<open>sym_init\<close> the first time it is called.\<close>

definition sym_init :: "string \<Rightarrow> pstate \<Rightarrow> pstate" where
  "sym_init release st =
     (let (s, k) = sym_lookup (Some ''UNAME_RELEASE'') 0 (ps_k st);
          k1 = upd s (\<lambda>y. set_flags SYMBOL_AUTO (y\<lparr>s_type := S_STRING\<rparr>)) k
      in sym_add_default s release (st\<lparr>ps_k := k1\<rparr>))"

text \<open>
  \<open>prop_add_env\<close>. None: the current entry has no symbol, or its \<open>P_ENV\<close> property has none with a name.
\<close>

definition prop_add_env :: "(string \<Rightarrow> string option) \<Rightarrow> string \<Rightarrow> pstate \<Rightarrow> pstate option" where
  "prop_add_env getenv env st =
     (case m_sym (ps_menus st (ps_entry st)) of
        None \<Rightarrow> None
      | Some s \<Rightarrow>
          let st1 = on_k (upd s (set_flags SYMBOL_AUTO)) st in
          (case sym_get_env_prop (k_sym (ps_k st1) s) of
             Some p \<Rightarrow> do {
               s2 \<leftarrow> prop_get_symbol p;
               name \<leftarrow> s_name (k_sym (ps_k st1) s2);
               Some (if name \<noteq> env then menu_warn (ps_entry st1) (''redefining environment symbol from '' @ name) st1 else st1) }
           | None \<Rightarrow>
               let st2 = add_const_prop P_ENV s env st1;
                   st3 = st2\<lparr>ps_env_list := s # ps_env_list st2\<rparr>
               in Some (case getenv env of
                          Some v \<Rightarrow> sym_add_default s v st3
                        | None \<Rightarrow> menu_warn (ps_entry st3) (''environment variable '' @ env @ '' undefined'') st3)))"

section \<open>Options\<close>

datatype option_token = T_OPT_MODULES | T_OPT_DEFCONFIG_LIST | T_OPT_ENV

text \<open>None: the message follows the symbol of an entry that has none, or an option \<open>env\<close> without an argument.\<close>

definition menu_add_option :: "(string \<Rightarrow> string option) \<Rightarrow> option_token \<Rightarrow> string option \<Rightarrow> pstate \<Rightarrow> pstate option" where
  "menu_add_option getenv token arg st =
     (let so = m_sym (ps_menus st (ps_entry st)) in
      case token of
        T_OPT_MODULES \<Rightarrow> do {
          st1 \<leftarrow> (case ps_modules st of
                   None \<Rightarrow> Some st
                 | Some m \<Rightarrow> do {
                     s \<leftarrow> so;
                     a \<leftarrow> s_name (k_sym (ps_k st) s);
                     b \<leftarrow> s_name (k_sym (ps_k st) m);
                     Some (zconf_error (''symbol '' @ quoted a @ '' redefines option '' @ quoted ''modules''
                       @ '' already defined by symbol '' @ quoted b) st) });
          Some (st1\<lparr>ps_modules := so\<rparr>) }
      | T_OPT_DEFCONFIG_LIST \<Rightarrow>
          Some (case ps_defconfig_list st of
                  None \<Rightarrow> st\<lparr>ps_defconfig_list := so\<rparr>
                | Some d \<Rightarrow> if so \<noteq> Some d then zconf_error ''trying to redefine defconfig symbol'' st else st)
      | T_OPT_ENV \<Rightarrow> Option.bind arg (\<lambda>env. prop_add_env getenv env st))"

end
