(* ===== verification/Kc_Dups.thy ===== *)
theory Kc_Dups
  imports Kc_Join "HOL-Library.Monad_Syntax"
begin

text \<open>
  The elimination of duplicate operands in expr.c. The code works with two pointers into one
  expression and overwrites what they point to; here a pointer is a position, the list of
  directions from the top of the expression.
\<close>

section \<open>Positions\<close>

datatype dir = DLeft | DRight

type_synonym pos = "dir list"

fun child :: "dir \<Rightarrow> 'a \<Rightarrow> 'a \<Rightarrow> 'a" where
  "child DLeft l r = l"
| "child DRight l r = r"

text \<open>The expression at a position, and the expression with another one there.\<close>

fun at :: "expr \<Rightarrow> pos \<Rightarrow> expr" where
  "at (And l r) (d # p) = at (child d l r) p"
| "at (Or l r) (d # p) = at (child d l r) p"
| "at e p = e"

fun put :: "expr \<Rightarrow> pos \<Rightarrow> expr \<Rightarrow> expr" where
  "put e [] x = x"
| "put (And l r) (DLeft # p) x = And (put l p x) r"
| "put (And l r) (DRight # p) x = And l (put r p x)"
| "put (Or l r) (DLeft # p) x = Or (put l p x) r"
| "put (Or l r) (DRight # p) x = Or l (put r p x)"
| "put e p x = e"

text \<open>\<open>e->type == E_OR || e->type == E_AND\<close>.\<close>

definition is_bin :: "expr_type \<Rightarrow> bool" where
  "is_bin t \<longleftrightarrow> t = E_OR \<or> t = E_AND"

section \<open>Equal operands\<close>

text \<open>\<open>expr_join_or\<close> or \<open>expr_join_and\<close>, by the type.\<close>

definition join_operands :: "symtab \<Rightarrow> expr_type \<Rightarrow> expr \<Rightarrow> expr \<Rightarrow> expr option" where
  "join_operands st t e1 e2 = (if t = E_OR then expr_join_or st e1 e2 else expr_join_and st e1 e2)"

text \<open>
  The two operands at \<open>p\<close> and \<open>q\<close> are joined, if they can be: the constant that may be dropped is left
  at \<open>p\<close>, the joined operand is at \<open>q\<close>.
\<close>

definition join_step :: "symtab \<Rightarrow> expr_type \<Rightarrow> pos \<Rightarrow> pos \<Rightarrow> expr \<times> nat \<Rightarrow> expr \<times> nat" where
  "join_step st t p q s =
     (case s of (e, tc) \<Rightarrow>
        (case join_operands st t (at e p) (at e q) of
           None \<Rightarrow> (e, tc)
         | Some tmp \<Rightarrow> (put (put e p (neutral t)) q tmp, Suc tc)))"

text \<open>
  \<open>expr_eliminate_dups1\<close>, with a bound on the depth of the recursion. The operand at \<open>p\<close> is treated
  as an expression of its own when it is a conjunction in a disjunction or the other way round.
\<close>

fun expr_eliminate_dups1 :: "nat \<Rightarrow> symtab \<Rightarrow> expr_type \<Rightarrow> pos \<Rightarrow> pos \<Rightarrow> expr \<times> nat \<Rightarrow> (expr \<times> nat) option" where
  "expr_eliminate_dups1 0 st t p q s = None"
| "expr_eliminate_dups1 (Suc n) st t p q s =
     (case s of (e, tc) \<Rightarrow>
      if etype (at e p) = t then do {
        s1 \<leftarrow> expr_eliminate_dups1 n st t (p @ [DLeft]) q s;
        expr_eliminate_dups1 n st t (p @ [DRight]) q s1 }
      else if etype (at e q) = t then do {
        s1 \<leftarrow> expr_eliminate_dups1 n st t p (q @ [DLeft]) s;
        expr_eliminate_dups1 n st t p (q @ [DRight]) s1 }
      else if p = q then Some s
      else do {
        s1 \<leftarrow> (if is_bin (etype (at e p)) then do {
                 (x, tc1) \<leftarrow> expr_eliminate_dups1 n st (etype (at e p)) [] [] (at e p, tc);
                 Some (put e p x, tc1) }
               else Some s);
        Some (join_step st t p q s1) })"

section \<open>Contradicting operands\<close>

text \<open>
  \<open>expr_extract_eq\<close> takes the operands that two expressions share out of both; \<open>acc\<close> is what has been
  taken out so far.
\<close>

definition alloc_acc :: "expr_type \<Rightarrow> expr option \<Rightarrow> expr \<Rightarrow> expr option" where
  "alloc_acc t acc e = (case acc of None \<Rightarrow> Some e | Some a \<Rightarrow> Some (mk_bin t a e))"

function expr_extract_eq :: "expr_type \<Rightarrow> expr option \<Rightarrow> expr \<Rightarrow> expr \<Rightarrow> expr option \<times> expr \<times> expr" where
  "expr_extract_eq t acc e1 e2 =
     (case split_bin t e1 of
        Some (l, r) \<Rightarrow>
          (case expr_extract_eq t acc l e2 of (acc1, l', e2') \<Rightarrow>
           (case expr_extract_eq t acc1 r e2' of (acc2, r', e2'') \<Rightarrow> (acc2, mk_bin t l' r', e2'')))
      | None \<Rightarrow>
          (case split_bin t e2 of
             Some (l, r) \<Rightarrow>
               (case expr_extract_eq t acc e1 l of (acc1, e1', l') \<Rightarrow>
                (case expr_extract_eq t acc1 e1' r of (acc2, e1'', r') \<Rightarrow> (acc2, e1'', mk_bin t l' r')))
           | None \<Rightarrow>
               if expr_eq e1 e2 then (alloc_acc t acc e1, neutral t, neutral t) else (acc, e1, e2)))"
  by pat_completeness auto

lemma extract_eq_size:
  "expr_extract_eq_dom (t, acc, e1, e2) \<Longrightarrow> expr_extract_eq t acc e1 e2 = (acc', a, b) \<Longrightarrow>
     size a \<le> size e1 \<and> size b \<le> size e2"
proof (induction t acc e1 e2 arbitrary: acc' a b rule: expr_extract_eq.pinduct)
  case (1 t acc e1 e2)
  have sz: "size (neutral t) \<le> size e" for e :: expr
    by (cases e) (simp_all add: neutral_def)
  show ?case
  proof (cases "split_bin t e1")
    case (Some lr)
    obtain l r where lr: "lr = (l, r)" by (cases lr)
    obtain acc1 l' e2' where s1: "expr_extract_eq t acc l e2 = (acc1, l', e2')" by (cases "expr_extract_eq t acc l e2")
    obtain acc2 r' e2'' where s2: "expr_extract_eq t acc1 r e2' = (acc2, r', e2'')" by (cases "expr_extract_eq t acc1 r e2'")
    have "a = mk_bin t l' r'" "b = e2''" "e1 = mk_bin t l r"
      using 1(6) Some lr s1 s2 by (auto simp: expr_extract_eq.psimps[OF 1(1)] split_bin_Some)
    then show ?thesis using 1(4)[OF Some lr[symmetric] s1] 1(5)[OF Some lr[symmetric] s1[symmetric] refl s2] by auto
  next
    case None
    note n1 = None
    show ?thesis
    proof (cases "split_bin t e2")
      case (Some lr)
      obtain l r where lr: "lr = (l, r)" by (cases lr)
      obtain acc1 e1' l' where s1: "expr_extract_eq t acc e1 l = (acc1, e1', l')" by (cases "expr_extract_eq t acc e1 l")
      obtain acc2 e1'' r' where s2: "expr_extract_eq t acc1 e1' r = (acc2, e1'', r')" by (cases "expr_extract_eq t acc1 e1' r")
      have "b = mk_bin t l' r'" "a = e1''" "e2 = mk_bin t l r"
        using 1(6) n1 Some lr s1 s2 by (auto simp: expr_extract_eq.psimps[OF 1(1)] split_bin_Some)
      then show ?thesis using 1(2)[OF n1 Some lr[symmetric] s1] 1(3)[OF n1 Some lr[symmetric] s1[symmetric] refl s2] by auto
    next
      case None
      then show ?thesis using 1(6) n1 sz by (auto simp: expr_extract_eq.psimps[OF 1(1)] split: if_splits)
    qed
  qed
qed

termination expr_extract_eq
proof (relation "measure (\<lambda>(t, acc, e1, e2). size e1 + size e2)", goal_cases)
  case (3 t acc e1 e2 x2 x y xa ya xb yb)
  then have "size xb \<le> size e1" using extract_eq_size[of t acc e1 x xa xb yb] by simp
  with 3 show ?case by (auto simp: split_bin_Some)
next
  case (5 t acc e1 e2 x2 x y xa ya xb yb)
  then have "size yb \<le> size e2" using extract_eq_size[of t acc x e2 xa xb yb] by simp
  with 5 show ?case by (auto simp: split_bin_Some)
qed (auto simp: split_bin_Some)

declare expr_extract_eq.simps [simp del]

text \<open>\<open>expr_extract_eq_and\<close> and \<open>expr_extract_eq_or\<close>: when something was taken out, the constants are eliminated.\<close>

definition extract_yn :: "expr option \<times> expr \<times> expr \<Rightarrow> expr option \<times> expr \<times> expr" where
  "extract_yn r =
     (case r of (acc, e1, e2) \<Rightarrow>
        if acc = None then (acc, e1, e2) else (acc, expr_eliminate_yn e1, expr_eliminate_yn e2))"

definition expr_extract_eq_and :: "expr \<Rightarrow> expr \<Rightarrow> expr option \<times> expr \<times> expr" where
  "expr_extract_eq_and e1 e2 = extract_yn (expr_extract_eq E_AND None e1 e2)"

definition expr_extract_eq_or :: "expr \<Rightarrow> expr \<Rightarrow> expr option \<times> expr \<times> expr" where
  "expr_extract_eq_or e1 e2 = extract_yn (expr_extract_eq E_OR None e1 e2)"

text \<open>
  An operand at \<open>p\<close> that is a disjunction is n when the negations of its operands are among those at \<open>q\<close>, and
  a conjunction is y when they are.
\<close>

definition contradicted :: "symtab \<Rightarrow> expr \<Rightarrow> expr \<Rightarrow> bool" where
  "contradicted st e1 e2 =
     (let tmp1 = expr_transform st (Neg (expr_copy e1)); tmp2 = expr_copy e2 in
      if etype e1 = E_OR then fst (snd (expr_extract_eq_and tmp1 tmp2)) = Sym symbol_yes
      else fst (snd (expr_extract_eq_or tmp1 tmp2)) = Sym symbol_no)"

definition contradict_step :: "symtab \<Rightarrow> pos \<Rightarrow> pos \<Rightarrow> expr \<times> nat \<Rightarrow> expr \<times> nat" where
  "contradict_step st p q s =
     (case s of (e, tc) \<Rightarrow>
        if contradicted st (at e p) (at e q) then (put e p (neutral (etype (at e p))), Suc tc) else (e, tc))"

fun expr_eliminate_dups2 :: "nat \<Rightarrow> symtab \<Rightarrow> expr_type \<Rightarrow> pos \<Rightarrow> pos \<Rightarrow> expr \<times> nat \<Rightarrow> (expr \<times> nat) option" where
  "expr_eliminate_dups2 0 st t p q s = None"
| "expr_eliminate_dups2 (Suc n) st t p q s =
     (if etype (at (fst s) p) = t then do {
        s1 \<leftarrow> expr_eliminate_dups2 n st t (p @ [DLeft]) q s;
        expr_eliminate_dups2 n st t (p @ [DRight]) q s1 }
      else do {
        (e, tc) \<leftarrow> (if etype (at (fst s) q) = t then do {
                     s1 \<leftarrow> expr_eliminate_dups2 n st t p (q @ [DLeft]) s;
                     expr_eliminate_dups2 n st t p (q @ [DRight]) s1 }
                   else Some s);
        if p = q \<or> \<not> is_bin (etype (at e p)) then Some (e, tc)
        else do {
          (x, tc1) \<leftarrow> expr_eliminate_dups2 n st (etype (at e p)) [] [] (at e p, tc);
          Some (contradict_step st p q (put e p x, tc1)) } })"

section \<open>The loop\<close>

text \<open>One round of \<open>expr_eliminate_dups\<close>, with \<open>trans_count\<close> from 0.\<close>

definition dups_round :: "nat \<Rightarrow> symtab \<Rightarrow> expr \<Rightarrow> (expr \<times> nat) option" where
  "dups_round n st e =
     (if is_bin (etype e) then do {
        s \<leftarrow> expr_eliminate_dups1 n st (etype e) [] [] (e, 0);
        expr_eliminate_dups2 n st (etype (fst s)) [] [] s }
      else Some (e, 0))"

fun dups_loop :: "nat \<Rightarrow> symtab \<Rightarrow> expr \<Rightarrow> expr option" where
  "dups_loop 0 st e = None"
| "dups_loop (Suc n) st e = do {
     (e1, tc) \<leftarrow> dups_round (Suc n) st e;
     if tc = 0 then Some e1 else dups_loop n st (expr_eliminate_yn e1) }"

text \<open>
  The bound for an expression, which is enough for the recursion and the rounds, so that only the
  NULL pointer gives NULL.
\<close>

definition dups_fuel :: "expr \<Rightarrow> nat" where
  "dups_fuel e = Suc (node_count e) * Suc (node_count e)"

definition expr_eliminate_dups :: "symtab \<Rightarrow> expr option \<Rightarrow> expr option" where
  "expr_eliminate_dups st e = (case e of None \<Rightarrow> None | Some e \<Rightarrow> dups_loop (dups_fuel e) st e)"

section \<open>Dependencies that are not met\<close>

text \<open>
  \<open>expr_get_leftmost_symbol\<close>. The loop follows \<open>left.expr\<close> of a comparison, too, where the union has a symbol:
  the value None.
\<close>

fun leftmost_symbol :: "expr \<Rightarrow> expr option" where
  "leftmost_symbol (Sym s) = Some (expr_copy (Sym s))"
| "leftmost_symbol (Neg e) = leftmost_symbol e"
| "leftmost_symbol (And l r) = leftmost_symbol l"
| "leftmost_symbol (Or l r) = leftmost_symbol l"
| "leftmost_symbol (Equal a b) = None"
| "leftmost_symbol (Unequal a b) = None"

definition expr_get_leftmost_symbol :: "expr option \<Rightarrow> expr option option" where
  "expr_get_leftmost_symbol e = (case e of None \<Rightarrow> Some None | Some e \<Rightarrow> map_option Some (leftmost_symbol e))"

fun expr_simplify_unmet_dep :: "symtab \<Rightarrow> expr \<Rightarrow> expr \<Rightarrow> expr option option" where
  "expr_simplify_unmet_dep st (Or l r) e2 = do {
     a \<leftarrow> expr_simplify_unmet_dep st l e2;
     b \<leftarrow> expr_simplify_unmet_dep st r e2;
     Some (expr_alloc_and a b) }"
| "expr_simplify_unmet_dep st (And l r) e2 = do {
     e \<leftarrow> expr_eliminate_dups st (expr_alloc_and (Some (expr_copy (And l r))) (Some (expr_copy e2)));
     expr_get_leftmost_symbol (if \<not> expr_eq e (And l r) then Some (And l r) else None) }"
| "expr_simplify_unmet_dep st e1 e2 = expr_get_leftmost_symbol (Some e1)"

end
