(* ===== verification/Kc_Dups_Sound.thy ===== *)
theory Kc_Dups_Sound
  imports Kc_Dups
begin

text \<open>
  What the elimination of duplicates does to an expression: operands are only replaced at the end
  of the chain of conjunctions or disjunctions that is searched, so the chain stays as it is; the
  expression does not grow, and its value is kept.
\<close>

section \<open>Chains of operands\<close>

text \<open>The positions that are reached from the top through nodes of one type.\<close>

fun on_chain :: "expr_type \<Rightarrow> expr \<Rightarrow> pos \<Rightarrow> bool" where
  "on_chain t e [] = True"
| "on_chain t (And l r) (d # p) = (t = E_AND \<and> on_chain t (child d l r) p)"
| "on_chain t (Or l r) (d # p) = (t = E_OR \<and> on_chain t (child d l r) p)"
| "on_chain t e (d # p) = False"

text \<open>The chain without its operands, and the number of its nodes.\<close>

fun skel :: "expr_type \<Rightarrow> expr \<Rightarrow> expr" where
  "skel t (And l r) = (if t = E_AND then And (skel t l) (skel t r) else Sym symbol_no)"
| "skel t (Or l r) = (if t = E_OR then Or (skel t l) (skel t r) else Sym symbol_no)"
| "skel t e = Sym symbol_no"

fun links :: "expr_type \<Rightarrow> expr \<Rightarrow> nat" where
  "links t (And l r) = (if t = E_AND then Suc (links t l + links t r) else 1)"
| "links t (Or l r) = (if t = E_OR then Suc (links t l + links t r) else 1)"
| "links t e = 1"

lemma child_induct_simps [simp]:
  "skel t (child d l r) = child d (skel t l) (skel t r)" "node_count (child d l r) = child d (node_count l) (node_count r)"
  by (cases d; simp)+

lemma node_count_pos [simp]: "0 < node_count e"
  by (induction e) simp_all

lemma links_count: "links t e \<le> node_count e"
  by (induction e) (auto intro: Suc_leI)

lemma on_chain_skel [simp]: "on_chain t (skel t e) p = on_chain t e p"
  by (induction t e p rule: on_chain.induct) (auto elim: child.elims)

lemma skel_at: "on_chain t e p \<Longrightarrow> skel t (at e p) = at (skel t e) p"
  by (induction t e p rule: on_chain.induct) auto

lemma links_skel [simp]: "links t (skel t e) = links t e"
  by (induction e) auto

lemma links_at: "on_chain t e p \<Longrightarrow> links t (at e p) = links t (at (skel t e) p)"
  by (metis links_skel skel_at)

lemma etype_skel: "is_bin t \<Longrightarrow> etype (skel t e) = t \<longleftrightarrow> etype e = t"
  by (cases e) (auto simp: is_bin_def)

lemma etype_at: "is_bin t \<Longrightarrow> on_chain t e p \<Longrightarrow> etype (at e p) = t \<longleftrightarrow> etype (at (skel t e) p) = t"
  by (metis etype_skel skel_at)

lemma on_chain_snoc:
  "is_bin t \<Longrightarrow> on_chain t e p \<Longrightarrow> etype (at e p) = t \<Longrightarrow>
     on_chain t e (p @ [d]) \<and> links t (at e p) = Suc (links t (at e (p @ [DLeft])) + links t (at e (p @ [DRight])))"
proof (induction t e p rule: on_chain.induct)
  case (1 t e)
  then show ?case by (cases e) (auto simp: is_bin_def)
qed auto

section \<open>Replacing operands\<close>

lemma at_put [simp]: "on_chain t e p \<Longrightarrow> at (put e p x) p = x"
proof (induction t e p rule: on_chain.induct)
  case (2 t l r d p) then show ?case by (cases d) auto
next
  case (3 t l r d p) then show ?case by (cases d) auto
qed (auto elim: at.elims)

lemma put_at [simp]: "on_chain t e p \<Longrightarrow> put e p (at e p) = e"
proof (induction t e p rule: on_chain.induct)
  case (2 t l r d p) then show ?case by (cases d) auto
next
  case (3 t l r d p) then show ?case by (cases d) auto
qed (auto elim: at.elims)

lemma skel_put:
  "is_bin t \<Longrightarrow> on_chain t e p \<Longrightarrow> etype (at e p) \<noteq> t \<Longrightarrow> etype x \<noteq> t \<Longrightarrow> skel t (put e p x) = skel t e"
proof (induction t e p rule: on_chain.induct)
  case (1 t e) then show ?case by (cases e; cases x) (auto simp: is_bin_def)
next
  case (2 t l r d p) then show ?case by (cases d) auto
next
  case (3 t l r d p) then show ?case by (cases d) auto
qed auto

lemma at_put_other:
  "on_chain t e p \<Longrightarrow> on_chain t e q \<Longrightarrow> is_bin t \<Longrightarrow> etype (at e p) \<noteq> t \<Longrightarrow> etype (at e q) \<noteq> t \<Longrightarrow> p \<noteq> q \<Longrightarrow>
     at (put e p x) q = at e q"
proof (induction t e p arbitrary: q rule: on_chain.induct)
  case (1 t e) then show ?case by (cases e; cases q) (auto simp: is_bin_def)
next
  case (2 t l r d p) then show ?case by (cases q; cases d; cases "hd q") auto
next
  case (3 t l r d p) then show ?case by (cases q; cases d; cases "hd q") auto
qed auto

lemma count_put: "on_chain t e p \<Longrightarrow> node_count (put e p x) + node_count (at e p) = node_count e + node_count x"
proof (induction t e p rule: on_chain.induct)
  case (2 t l r d p) then show ?case by (cases d) auto
next
  case (3 t l r d p) then show ?case by (cases d) auto
qed (auto elim: at.elims)

section \<open>Values\<close>

text \<open>The operation on values for a type of node.\<close>

definition opv :: "expr_type \<Rightarrow> tristate \<Rightarrow> tristate \<Rightarrow> tristate" where
  "opv t = (if t = E_OR then max else min)"

lemma opv_ac [ac_simps]:
  "opv t (opv t a b) c = opv t a (opv t b c)" "opv t a b = opv t b a" "opv t a (opv t b c) = opv t b (opv t a c)"
  by (simp_all add: opv_def ac_simps)

lemma opv_neutral [simp]: "opv t (expr_calc_value v (neutral t)) a = a" "opv t a (expr_calc_value v (neutral t)) = a"
  by (simp_all add: opv_def neutral_def)

lemma opv_bin: "is_bin t \<Longrightarrow> expr_calc_value v (mk_bin t l r) = opv t (expr_calc_value v l) (expr_calc_value v r)"
  by (auto simp: opv_def mk_bin_def is_bin_def)

text \<open>The value of an expression as a function of the value of one operand of a chain.\<close>

lemma value_put:
  "is_bin t \<Longrightarrow> on_chain t e p \<Longrightarrow>
     expr_calc_value v (put e p x) = opv t (expr_calc_value v x) (expr_calc_value v (put e p (neutral t)))"
proof (induction t e p rule: on_chain.induct)
  case (1 t e) then show ?case by simp
next
  case (2 t l r d p) then show ?case by (cases d) (auto simp: opv_def ac_simps)
next
  case (3 t l r d p) then show ?case by (cases d) (auto simp: opv_def ac_simps)
qed auto

lemma value_at:
  "is_bin t \<Longrightarrow> on_chain t e p \<Longrightarrow>
     expr_calc_value v e = opv t (expr_calc_value v (at e p)) (expr_calc_value v (put e p (neutral t)))"
  using value_put[of t e p v "at e p"] by simp

section \<open>Constants\<close>

lemma const_put:
  "on_chain t e p \<Longrightarrow> \<not> no_const_operand x \<Longrightarrow> \<not> no_const_operand (put e p x)"
proof (induction t e p rule: on_chain.induct)
  case (2 t l r d p) then show ?case by (cases d) auto
next
  case (3 t l r d p) then show ?case by (cases d) auto
qed auto

lemma const_put_const:
  "on_chain t e p \<Longrightarrow> p \<noteq> [] \<Longrightarrow> x = Sym symbol_yes \<or> x = Sym symbol_no \<Longrightarrow> \<not> no_const_operand (put e p x)"
proof (induction t e p rule: on_chain.induct)
  case (2 t l r d p) then show ?case by (cases d; cases p) auto
next
  case (3 t l r d p) then show ?case by (cases d; cases p) auto
qed auto

lemma count_yn: "node_count (expr_eliminate_yn e) \<le> node_count e"
  by (induction e) (auto simp: Let_def)

lemma count_yn_less: "\<not> no_const_operand e \<Longrightarrow> node_count (expr_eliminate_yn e) < node_count e"
proof (induction e)
  case (And l r)
  then show ?case using count_yn[of l] count_yn[of r] by (auto simp: Let_def)
next
  case (Or l r)
  then show ?case using count_yn[of l] count_yn[of r] by (auto simp: Let_def)
qed simp_all

section \<open>Joined and contradicting operands\<close>

lemma join_value:
  "is_bin t \<Longrightarrow> well_typed st v \<Longrightarrow> join_operands st t e1 e2 = Some a \<Longrightarrow>
     expr_calc_value v a = opv t (expr_calc_value v e1) (expr_calc_value v e2)"
  by (auto simp: join_operands_def opv_def is_bin_def join_or_value join_and_value split: if_splits)

text \<open>A joined operand is one of the two or a single node.\<close>

lemma join_shape:
  assumes "join_operands st t e1 e2 = Some a"
  shows "a = e1 \<or> (node_count a = 1 \<and> \<not> is_bin (etype a))"
  using assms
  by (auto simp: join_operands_def expr_join_or_def expr_join_and_def join_equal_unequal_def join_and_tristate_def
      expr_alloc_symbol_def expr_alloc_comp_def is_bin_def Let_def split: if_splits option.splits expr.splits)

lemma extract_eq_shared:
  "is_bin t \<Longrightarrow> expr_extract_eq t acc e1 e2 = (acc', a, b) \<Longrightarrow>
     \<exists>c. expr_calc_value v e1 = opv t c (expr_calc_value v a) \<and> expr_calc_value v e2 = opv t c (expr_calc_value v b)"
proof (induction t acc e1 e2 arbitrary: acc' a b rule: expr_extract_eq.induct)
  case (1 t acc e1 e2)
  note step = 1(6)[unfolded expr_extract_eq.simps[of t acc e1 e2]]
  show ?case
  proof (cases "split_bin t e1")
    case (Some lr)
    obtain l r where lr: "lr = (l, r)" by (cases lr)
    obtain acc1 l' e2' where s1: "expr_extract_eq t acc l e2 = (acc1, l', e2')" by (cases "expr_extract_eq t acc l e2")
    obtain acc2 r' e2'' where s2: "expr_extract_eq t acc1 r e2' = (acc2, r', e2'')" by (cases "expr_extract_eq t acc1 r e2'")
    have ab: "a = mk_bin t l' r'" "b = e2''" "e1 = mk_bin t l r" using step Some lr s1 s2 by (auto simp: split_bin_Some)
    obtain c where c: "expr_calc_value v l = opv t c (expr_calc_value v l')" "expr_calc_value v e2 = opv t c (expr_calc_value v e2')"
      using 1(3)[OF Some lr[symmetric] 1(5) s1] by blast
    obtain d where d: "expr_calc_value v r = opv t d (expr_calc_value v r')" "expr_calc_value v e2' = opv t d (expr_calc_value v e2'')"
      using 1(4)[OF Some lr[symmetric] s1[symmetric] refl 1(5) s2] by blast
    show ?thesis by (rule exI[of _ "opv t c d"]) (simp add: ab opv_bin[OF 1(5)] c d ac_simps)
  next
    case None
    note n1 = None
    show ?thesis
    proof (cases "split_bin t e2")
      case (Some lr)
      obtain l r where lr: "lr = (l, r)" by (cases lr)
      obtain acc1 e1' l' where s1: "expr_extract_eq t acc e1 l = (acc1, e1', l')" by (cases "expr_extract_eq t acc e1 l")
      obtain acc2 e1'' r' where s2: "expr_extract_eq t acc1 e1' r = (acc2, e1'', r')" by (cases "expr_extract_eq t acc1 e1' r")
      have ab: "b = mk_bin t l' r'" "a = e1''" "e2 = mk_bin t l r" using step n1 Some lr s1 s2 by (auto simp: split_bin_Some)
      obtain c where c: "expr_calc_value v e1 = opv t c (expr_calc_value v e1')" "expr_calc_value v l = opv t c (expr_calc_value v l')"
        using 1(1)[OF n1 Some lr[symmetric] 1(5) s1] by blast
      obtain d where d: "expr_calc_value v e1' = opv t d (expr_calc_value v e1'')" "expr_calc_value v r = opv t d (expr_calc_value v r')"
        using 1(2)[OF n1 Some lr[symmetric] s1[symmetric] refl 1(5) s2] by blast
      show ?thesis by (rule exI[of _ "opv t c d"]) (simp add: ab opv_bin[OF 1(5)] c d ac_simps)
    next
      case None
      show ?thesis
      proof (cases "expr_eq e1 e2")
        case True
        then have "a = neutral t" "b = neutral t" using step n1 None by auto
        then show ?thesis using eliminate_eq_sound(3)[OF True, of v] by (intro exI[of _ "expr_calc_value v e1"]) simp
      next
        case False
        then have "a = e1" "b = e2" using step n1 None by auto
        then show ?thesis by (intro exI[of _ "expr_calc_value v (neutral t)"]) simp
      qed
    qed
  qed
qed

text \<open>The operand at \<open>q\<close> is at most, or at least, the negation of a contradicted operand.\<close>

lemma contradicted_value:
  assumes "contradicted st e1 e2" and "is_bin (etype e1)" and "well_typed st v"
  shows "if etype e1 = E_OR then expr_calc_value v e2 \<le> EXPR_NOT (expr_calc_value v e1)
    else EXPR_NOT (expr_calc_value v e1) \<le> expr_calc_value v e2"
proof -
  let ?t = "if etype e1 = E_OR then E_AND else E_OR"
  let ?n = "expr_transform st (Neg e1)"
  obtain acc a b where x: "expr_extract_eq ?t None ?n e2 = (acc, a, b)" by (cases "expr_extract_eq ?t None ?n e2")
  have t: "is_bin ?t" by (simp add: is_bin_def)
  obtain c where c: "expr_calc_value v ?n = opv ?t c (expr_calc_value v a)" "expr_calc_value v e2 = opv ?t c (expr_calc_value v b)"
    using extract_eq_shared[OF t x] by blast
  have "(if acc = None then a else expr_eliminate_yn a) = (if etype e1 = E_OR then Sym symbol_yes else Sym symbol_no)"
    using assms(1) x
    by (auto simp: contradicted_def Let_def expr_extract_eq_and_def expr_extract_eq_or_def extract_yn_def split: if_splits)
  then have "expr_calc_value v a = (if etype e1 = E_OR then tri_yes else tri_no)"
    by (metis value_eliminate_yn expr_calc_value.simps(1) sym_tri.simps(1,3))
  then show ?thesis using c value_transform[OF assms(3), of "Neg e1"] by (auto simp: opv_def split: if_splits)
qed

section \<open>What a step keeps\<close>

text \<open>The value is kept; where it is not exact, only the value m may change.\<close>

definition keeps :: "bool \<Rightarrow> valuation \<Rightarrow> expr \<Rightarrow> expr \<Rightarrow> bool" where
  "keeps exact v e e' \<longleftrightarrow>
     expr_calc_value v e' = expr_calc_value v e \<or> (\<not> exact \<and> expr_calc_value v e = tri_mod)"

lemma keeps_trans: "keeps x v a b \<Longrightarrow> keeps x v b c \<Longrightarrow> keeps x v a c"
  by (auto simp: keeps_def)

lemma keeps_put:
  assumes "is_bin t" and "on_chain t e p" and "keeps x v (at e p) y"
  shows "keeps x v e (put e p y)"
proof -
  let ?r = "expr_calc_value v (put e p (neutral t))"
  have "opv t tri_mod r = tri_mod \<or> (\<forall>a. opv t a r = opv t tri_mod r)" for r
    by (cases r) (simp_all add: opv_def)
  then show ?thesis
    using assms(3) unfolding keeps_def value_at[OF assms(1,2), of v] value_put[OF assms(1,2), of v y] by metis
qed

definition deduped :: "bool \<Rightarrow> symtab \<Rightarrow> expr_type \<Rightarrow> expr \<times> nat \<Rightarrow> expr \<times> nat \<Rightarrow> bool" where
  "deduped x st t s s' \<longleftrightarrow>
     skel t (fst s') = skel t (fst s) \<and> node_count (fst s') \<le> node_count (fst s) \<and> snd s \<le> snd s' \<and>
     (snd s' = snd s \<longrightarrow> fst s' = fst s) \<and> (snd s < snd s' \<longrightarrow> \<not> no_const_operand (fst s')) \<and>
     (\<forall>v. well_typed st v \<longrightarrow> keeps x v (fst s) (fst s'))"

lemma deduped_refl [simp]: "deduped x st t s s"
  by (simp add: deduped_def keeps_def)

lemma deduped_trans: "deduped x st t a b \<Longrightarrow> deduped x st t b c \<Longrightarrow> deduped x st t a c"
  unfolding deduped_def by (cases "snd b = snd a"; cases "snd c = snd b") (auto intro: keeps_trans)

lemma deduped_chain: "deduped x st t s s' \<Longrightarrow> on_chain t (fst s') p = on_chain t (fst s) p"
  unfolding deduped_def by (metis on_chain_skel)

lemma deduped_links: "deduped x st t s s' \<Longrightarrow> on_chain t (fst s) p \<Longrightarrow> links t (at (fst s') p) = links t (at (fst s) p)"
  using deduped_chain[of x st t s s' p] links_at[of t "fst s" p] links_at[of t "fst s'" p] by (simp add: deduped_def)

lemma deduped_etype: "is_bin t \<Longrightarrow> deduped x st t s s' \<Longrightarrow> on_chain t (fst s) p \<Longrightarrow> etype (at (fst s') p) = t \<longleftrightarrow> etype (at (fst s) p) = t"
  using deduped_chain[of x st t s s' p] etype_at[of t "fst s" p] etype_at[of t "fst s'" p] by (simp add: deduped_def)

lemma deduped_top: "is_bin t \<Longrightarrow> etype (fst s) = t \<Longrightarrow> deduped x st t s s' \<Longrightarrow> etype (fst s') = t"
  unfolding deduped_def by (metis etype_skel)

lemma count_at_le: "node_count (at e p) \<le> node_count e"
proof (induction e p rule: at.induct)
  case (1 l r d p) then show ?case by (cases d) auto
next
  case (2 l r d p) then show ?case by (cases d) auto
qed simp_all

lemma count_at: "on_chain t e p \<Longrightarrow> p \<noteq> [] \<Longrightarrow> node_count (at e p) < node_count e"
proof (induction t e p rule: on_chain.induct)
  case (2 t l r d p) then show ?case using count_at_le[of "child d l r" p] by (cases d) auto
next
  case (3 t l r d p) then show ?case using count_at_le[of "child d l r" p] by (cases d) auto
qed auto

section \<open>The steps\<close>

lemma etype_neutral [simp]: "is_bin t \<Longrightarrow> etype (neutral t) \<noteq> t"
  by (auto simp: neutral_def is_bin_def)

lemma put_swap:
  "on_chain t e p \<Longrightarrow> on_chain t e q \<Longrightarrow> is_bin t \<Longrightarrow> etype (at e p) \<noteq> t \<Longrightarrow> etype (at e q) \<noteq> t \<Longrightarrow> p \<noteq> q \<Longrightarrow>
     put (put e p x) q y = put (put e q y) p x"
proof (induction t e p arbitrary: q rule: on_chain.induct)
  case (1 t e) then show ?case by (cases e; cases q) (auto simp: is_bin_def)
next
  case (2 t l r d p) then show ?case by (cases q; cases d; cases "hd q") auto
next
  case (3 t l r d p) then show ?case by (cases q; cases d; cases "hd q") auto
qed auto

lemma leaf_not_top: "on_chain t e p \<Longrightarrow> on_chain t e q \<Longrightarrow> is_bin t \<Longrightarrow> etype (at e p) \<noteq> t \<Longrightarrow> p \<noteq> q \<Longrightarrow> p \<noteq> []"
  by (cases e; cases q) (auto simp: is_bin_def)

text \<open>An operand of the other type, treated on its own.\<close>

lemma deduped_inner:
  assumes "is_bin t" and "on_chain t e p" and "etype (at e p) \<noteq> t" and "is_bin (etype (at e p))"
    and d: "deduped x st (etype (at e p)) (at e p, tc) (y, tc1)"
  shows "deduped x st t (e, tc) (put e p y, tc1) \<and> etype y = etype (at e p)"
proof -
  have ty: "etype y = etype (at e p)" using deduped_top[OF assms(4) _ d] by simp
  have sk: "skel t (put e p y) = skel t e" using skel_put[OF assms(1,2,3)] ty assms(3) by simp
  have cn: "node_count (put e p y) \<le> node_count e" using count_put[OF assms(2), of y] d by (simp add: deduped_def)
  show ?thesis
    using d sk cn ty put_at[OF assms(2)] const_put[OF assms(2), of y] keeps_put[OF assms(1,2)]
    by (auto simp: deduped_def)
qed

lemma deduped_join:
  assumes t: "is_bin t" and p: "on_chain t e p" "etype (at e p) \<noteq> t" and q: "on_chain t e q" "etype (at e q) \<noteq> t"
    and ne: "p \<noteq> q"
  shows "deduped True st t (e, tc) (join_step st t p q (e, tc))"
proof (cases "join_operands st t (at e p) (at e q)")
  case (Some a)
  let ?f = "put (put e p (neutral t)) q a"
  have j: "join_step st t p q (e, tc) = (?f, Suc tc)" by (simp add: join_step_def Some)
  note sh = join_shape[OF Some]
  have at: "etype a \<noteq> t" using sh p(2) t by auto
  have ca: "node_count a \<le> node_count (at e p)" using sh node_count_pos[of "at e p"] by (auto simp del: node_count_pos intro: Suc_leI)
  let ?g = "put e p (neutral t)"
  have sg: "skel t ?g = skel t e" using skel_put[OF t p] t by simp
  have gq: "on_chain t ?g q" "at ?g q = at e q"
    using sg q(1) at_put_other[OF p(1) q(1) t p(2) q(2) ne] by (metis on_chain_skel, blast)
  have sf: "skel t ?f = skel t e" using skel_put[OF t gq(1)] gq(2) q(2) at sg by simp
  have cg: "node_count ?g + node_count (at e p) = Suc (node_count e)"
    using count_put[OF p(1), of "neutral t"] by (simp add: neutral_def split: if_splits)
  have cf: "node_count ?f + node_count (at e q) = node_count ?g + node_count a" using count_put[OF gq(1), of a] gq(2) by simp
  have cnt: "node_count ?f \<le> node_count e" using cg cf ca node_count_pos[of "at e q"] by linarith
  have swap: "?f = put (put e q a) p (neutral t)" by (rule put_swap[OF p(1) q(1) t p(2) q(2) ne])
  have "on_chain t (put e q a) p" using skel_put[OF t q at] p(1) by (metis on_chain_skel)
  then have const: "\<not> no_const_operand ?f"
    unfolding swap using leaf_not_top[OF p(1) q(1) t p(2) ne] by (rule const_put_const) (auto simp: neutral_def)
  have "expr_calc_value v ?f = expr_calc_value v e" if wt: "well_typed st v" for v
    using value_put[OF t gq(1), of v a] value_at[OF t gq(1), of v] value_at[OF t p(1), of v] join_value[OF t wt Some]
    by (simp add: gq(2) ac_simps)
  then show ?thesis unfolding j using sf cnt const by (simp add: deduped_def keeps_def)
qed (simp add: join_step_def)

lemma deduped_contradict:
  assumes t: "is_bin t" and p: "on_chain t e p" "etype (at e p) \<noteq> t" "is_bin (etype (at e p))" and q: "on_chain t e q"
    and ne: "p \<noteq> []"
  shows "deduped False st t (e, tc) (contradict_step st p q (e, tc))"
proof (cases "contradicted st (at e p) (at e q)")
  case True
  let ?n = "neutral (etype (at e p))"
  have j: "contradict_step st p q (e, tc) = (put e p ?n, Suc tc)" by (simp add: contradict_step_def True)
  have sk: "skel t (put e p ?n) = skel t e" by (rule skel_put[OF t p(1,2)]) (use t in \<open>auto simp: neutral_def is_bin_def\<close>)
  have "node_count ?n = 1" by (simp add: neutral_def)
  then have cn: "node_count (put e p ?n) \<le> node_count e" using count_put[OF p(1), of ?n] node_count_pos[of "at e p"] by linarith
  have const: "\<not> no_const_operand (put e p ?n)"
    by (rule const_put_const[OF p(1) ne]) (auto simp: neutral_def)
  have "keeps False v e (put e p ?n)" if wt: "well_typed st v" for v
  proof -
    let ?x = "expr_calc_value v (at e p)" and ?r = "expr_calc_value v (put e p (neutral t))"
    have e: "expr_calc_value v e = opv t ?x ?r" by (rule value_at[OF t p(1)])
    have f: "expr_calc_value v (put e p ?n) = opv t (expr_calc_value v ?n) ?r" by (rule value_put[OF t p(1)])
    have eq: "expr_calc_value v e = opv t (expr_calc_value v (at e q)) (expr_calc_value v (put e q (neutral t)))" by (rule value_at[OF t q])
    consider "t = E_AND" "etype (at e p) = E_OR" | "t = E_OR" "etype (at e p) = E_AND" using t p(2,3) by (auto simp: is_bin_def)
    then show ?thesis
    proof cases
      case 1
      then have "expr_calc_value v (at e q) \<le> EXPR_NOT ?x" using contradicted_value[OF True p(3) wt] by simp
      then have "expr_calc_value v e \<le> EXPR_NOT ?x" using eq 1 by (simp add: opv_def min.coboundedI1)
      moreover have "expr_calc_value v e \<le> ?x" using e 1 by (simp add: opv_def)
      ultimately show ?thesis using f 1
        by (cases ?x; cases "expr_calc_value v e") (auto simp: keeps_def opv_def neutral_def less_eq_tristate_def)
    next
      case 2
      then have "EXPR_NOT ?x \<le> expr_calc_value v (at e q)" using contradicted_value[OF True p(3) wt] by simp
      then have "EXPR_NOT ?x \<le> expr_calc_value v e" using eq 2 by (simp add: opv_def max.coboundedI1)
      moreover have "?x \<le> expr_calc_value v e" using e 2 by (simp add: opv_def)
      ultimately show ?thesis using f 2
        by (cases ?x; cases "expr_calc_value v e") (auto simp: keeps_def opv_def neutral_def less_eq_tristate_def)
    qed
  qed
  then show ?thesis unfolding j using sk cn const by (simp add: deduped_def)
qed (simp add: contradict_step_def)

section \<open>The recursion\<close>

text \<open>The depth that is left is enough for the rest of the chains and for what is below them.\<close>

definition room :: "nat \<Rightarrow> expr_type \<Rightarrow> expr \<Rightarrow> pos \<Rightarrow> pos \<Rightarrow> bool" where
  "room n t e p q \<longleftrightarrow> is_bin t \<and> on_chain t e p \<and> on_chain t e q \<and>
     links t (at e p) + links t (at e q) + node_count e * node_count e < n"

lemma links_pos: "0 < links t e"
  by (induction e) auto

lemma room_later: "room n t (fst s) p q \<Longrightarrow> deduped x st t s s1 \<Longrightarrow> room n t (fst s1) p q"
  using deduped_chain[of x st t s s1] deduped_links[of x st t s s1] mult_le_mono[of "node_count (fst s1)" "node_count (fst s)"]
  by (fastforce simp: room_def deduped_def)

lemma room_step:
  "room (Suc n) t e p q \<Longrightarrow> etype (at e p) = t \<Longrightarrow> room n t e (p @ [d]) q"
  "room (Suc n) t e p q \<Longrightarrow> etype (at e q) = t \<Longrightarrow> room n t e p (q @ [d])"
  using on_chain_snoc[of t e p d] on_chain_snoc[of t e q d] by (cases d; auto simp: room_def)+

lemma room_inner:
  assumes "room (Suc n) t e p q" and "p \<noteq> []" and "is_bin t'"
  shows "room n t' (at e p) [] []"
proof -
  let ?a = "node_count (at e p)" and ?s = "node_count e"
  have "Suc ?a \<le> ?s" using count_at[of t e p] assms by (simp add: room_def Suc_leI)
  then have "Suc ?a * Suc ?a \<le> ?s * ?s" by (rule mult_le_mono) fact
  moreover have "links t' (at e p) \<le> ?a" by (rule links_count)
  moreover have "0 < links t (at e p)" by (rule links_pos)
  ultimately show ?thesis using assms(1,3) by (simp add: room_def)
qed

lemma dups1_ok:
  "room n t (fst s) p q \<Longrightarrow> \<exists>s'. expr_eliminate_dups1 n st t p q s = Some s' \<and> deduped True st t s s'"
proof (induction n arbitrary: t p q s)
  case 0
  then show ?case by (simp add: room_def)
next
  case (Suc n)
  obtain e tc where s: "s = (e, tc)" by (cases s)
  have r: "room (Suc n) t e p q" and t: "is_bin t" "on_chain t e p" "on_chain t e q" using Suc.prems by (simp_all add: s room_def)
  have two: "\<exists>s2. do { s1 \<leftarrow> expr_eliminate_dups1 n st t p1 q1 s; expr_eliminate_dups1 n st t p2 q2 s1 } = Some s2 \<and> deduped True st t s s2"
    if h: "room n t e p1 q1" "room n t e p2 q2" for p1 q1 p2 q2
  proof -
    obtain s1 where s1: "expr_eliminate_dups1 n st t p1 q1 s = Some s1" "deduped True st t s s1" using Suc.IH[of t s p1 q1] h(1) s by auto
    then obtain s2 where "expr_eliminate_dups1 n st t p2 q2 s1 = Some s2" "deduped True st t s1 s2"
      using Suc.IH[of t s1 p2 q2] room_later[of n t s p2 q2 True st s1] h(2) s by auto
    with s1 deduped_trans[of True st t s s1 s2] show ?thesis by simp
  qed
  consider "etype (at e p) = t" | "etype (at e p) \<noteq> t" "etype (at e q) = t" | "etype (at e p) \<noteq> t" "etype (at e q) \<noteq> t" "p = q"
    | "etype (at e p) \<noteq> t" "etype (at e q) \<noteq> t" "p \<noteq> q" by blast
  then show ?case
  proof cases
    case 1
    then show ?thesis using two[OF room_step(1)[OF r 1] room_step(1)[OF r 1]] by (simp add: s)
  next
    case 2
    then show ?thesis using two[OF room_step(2)[OF r 2(2)] room_step(2)[OF r 2(2)]] by (simp add: s)
  next
    case 3
    then show ?thesis by (simp add: s)
  next
    case 4
    let ?k = "etype (at e p)"
    obtain e1 tc1 where s1: "(if is_bin ?k then do { (x, tc1) \<leftarrow> expr_eliminate_dups1 n st ?k [] [] (at e p, tc); Some (put e p x, tc1) }
        else Some (e, tc)) = Some (e1, tc1)" "deduped True st t (e, tc) (e1, tc1)"
    proof (cases "is_bin ?k")
      case True
      obtain x tx where x: "expr_eliminate_dups1 n st ?k [] [] (at e p, tc) = Some (x, tx)" "deduped True st ?k (at e p, tc) (x, tx)"
        using Suc.IH[of ?k "(at e p, tc)" "[]" "[]"] room_inner[OF r leaf_not_top[OF t(2,3,1) 4(1,3)] True] by auto
      then show ?thesis using that[of "put e p x" tx] deduped_inner[OF t(1,2) 4(1) True x(2)] True by simp
    qed (use that in simp)
    have l: "on_chain t e1 p" "etype (at e1 p) \<noteq> t" "on_chain t e1 q" "etype (at e1 q) \<noteq> t"
      using deduped_chain[OF s1(2)] deduped_etype[OF t(1) s1(2)] t 4 by auto
    have "deduped True st t (e1, tc1) (join_step st t p q (e1, tc1))" by (rule deduped_join[OF t(1) l 4(3)])
    then show ?thesis using 4 s1 deduped_trans[OF s1(2)] by (simp add: s)
  qed
qed

lemma dups2_ok:
  "room n t (fst s) p q \<Longrightarrow> \<exists>s'. expr_eliminate_dups2 n st t p q s = Some s' \<and> deduped False st t s s'"
proof (induction n arbitrary: t p q s)
  case 0
  then show ?case by (simp add: room_def)
next
  case (Suc n)
  have t: "is_bin t" "on_chain t (fst s) p" "on_chain t (fst s) q" using Suc.prems by (simp_all add: room_def)
  have two: "\<exists>s2. do { s1 \<leftarrow> expr_eliminate_dups2 n st t p1 q1 s; expr_eliminate_dups2 n st t p2 q2 s1 } = Some s2 \<and> deduped False st t s s2"
    if h: "room n t (fst s) p1 q1" "room n t (fst s) p2 q2" for p1 q1 p2 q2
  proof -
    obtain s1 where s1: "expr_eliminate_dups2 n st t p1 q1 s = Some s1" "deduped False st t s s1" using Suc.IH[of t s p1 q1] h(1) by auto
    then obtain s2 where "expr_eliminate_dups2 n st t p2 q2 s1 = Some s2" "deduped False st t s1 s2"
      using Suc.IH[of t s1 p2 q2] room_later[of n t s p2 q2 False st s1] h(2) by auto
    with s1 deduped_trans[of False st t s s1 s2] show ?thesis by simp
  qed
  show ?case
  proof (cases "etype (at (fst s) p) = t")
    case True
    then show ?thesis using two[OF room_step(1)[OF Suc.prems True] room_step(1)[OF Suc.prems True]] by simp
  next
    case False
    obtain e tc where s1: "(if etype (at (fst s) q) = t then do {
          s1 \<leftarrow> expr_eliminate_dups2 n st t p (q @ [DLeft]) s; expr_eliminate_dups2 n st t p (q @ [DRight]) s1 } else Some s) = Some (e, tc)"
      "deduped False st t s (e, tc)"
    proof (cases "etype (at (fst s) q) = t")
      case q: True
      obtain s2 where "do { s1 \<leftarrow> expr_eliminate_dups2 n st t p (q @ [DLeft]) s; expr_eliminate_dups2 n st t p (q @ [DRight]) s1 } = Some s2"
        "deduped False st t s s2" using two[OF room_step(2)[OF Suc.prems q] room_step(2)[OF Suc.prems q]] by blast
      then show ?thesis using that[of "fst s2" "snd s2"] q by simp
    qed (use that[of "fst s" "snd s"] in simp)
    have l: "on_chain t e p" "etype (at e p) \<noteq> t" "on_chain t e q" and r: "room (Suc n) t e p q"
      using deduped_chain[OF s1(2)] deduped_etype[OF t(1) s1(2)] t False room_later[OF Suc.prems s1(2)] by auto
    let ?k = "etype (at e p)"
    show ?thesis
    proof (cases "p = q \<or> \<not> is_bin ?k")
      case True
      then show ?thesis using False s1 by auto
    next
      case go: False
      have ne: "p \<noteq> []" using leaf_not_top[OF l(1,3) t(1) l(2)] go by simp
      obtain x tx where x: "expr_eliminate_dups2 n st ?k [] [] (at e p, tc) = Some (x, tx)" "deduped False st ?k (at e p, tc) (x, tx)"
        using Suc.IH[of ?k "(at e p, tc)" "[]" "[]"] room_inner[OF r ne] go by auto
      have d: "deduped False st t (e, tc) (put e p x, tx)" "etype x = ?k"
        using deduped_inner[OF t(1) l(1,2) _ x(2)] go by simp_all
      have "deduped False st t (put e p x, tx) (contradict_step st p q (put e p x, tx))"
        using deduped_contradict[OF t(1), of "put e p x" p q st tx] deduped_chain[OF d(1)] l ne d(2) go by simp
      then have "deduped False st t s (contradict_step st p q (put e p x, tx))"
        using deduped_trans[OF s1(2)] deduped_trans[OF d(1)] by blast
      then show ?thesis using False s1 go x by simp
    qed
  qed
qed

section \<open>The loop\<close>

lemma room_top: "is_bin (etype e) \<Longrightarrow> Suc (node_count e) * Suc (node_count e) \<le> n \<Longrightarrow> room n (etype e) e [] []"
  using links_count[of "etype e" e] by (simp add: room_def)

lemma dups_round_ok:
  assumes "Suc (node_count e) * Suc (node_count e) \<le> n"
  shows "\<exists>e' tc. dups_round n st e = Some (e', tc) \<and> node_count e' \<le> node_count e \<and> (tc \<noteq> 0 \<longrightarrow> \<not> no_const_operand e') \<and>
    (\<forall>v. well_typed st v \<longrightarrow> keeps False v e e')"
proof (cases "is_bin (etype e)")
  case True
  obtain s1 where s1: "expr_eliminate_dups1 n st (etype e) [] [] (e, 0) = Some s1" "deduped True st (etype e) (e, 0) s1"
    using dups1_ok[of n "etype e" "(e, 0)" "[]" "[]" st] room_top[OF True assms] by fastforce
  have t: "etype (fst s1) = etype e" using deduped_top[OF True _ s1(2)] by simp
  obtain s2 where s2: "expr_eliminate_dups2 n st (etype e) [] [] s1 = Some s2" "deduped False st (etype e) s1 s2"
    using dups2_ok[of n "etype e" s1 "[]" "[]" st] room_later[of n "etype e" "(e, 0)" "[]" "[]", OF _ s1(2)] room_top[OF True assms] by auto
  have "deduped False st (etype e) (e, 0) s1" using s1(2) by (auto simp: deduped_def keeps_def)
  from deduped_trans[OF this s2(2)] have "deduped False st (etype e) (e, 0) s2" .
  then show ?thesis using s1 s2 t True by (cases s2) (auto simp: dups_round_def deduped_def)
qed (simp add: dups_round_def keeps_def)

lemma dups_loop_ok:
  "Suc (node_count e) * Suc (node_count e) \<le> n \<Longrightarrow>
     \<exists>e'. dups_loop n st e = Some e' \<and> node_count e' \<le> node_count e \<and> (\<forall>v. well_typed st v \<longrightarrow> keeps False v e e')"
proof (induction n arbitrary: e)
  case (Suc n)
  obtain e1 tc where r: "dups_round (Suc n) st e = Some (e1, tc)" "node_count e1 \<le> node_count e" "tc \<noteq> 0 \<longrightarrow> \<not> no_const_operand e1"
    "\<forall>v. well_typed st v \<longrightarrow> keeps False v e e1" using dups_round_ok[OF Suc.prems, of st] by blast
  show ?case
  proof (cases "tc = 0")
    case False
    let ?y = "expr_eliminate_yn e1"
    have less: "Suc (node_count ?y) \<le> node_count e" using count_yn_less[of e1] r(2,3) False by simp
    then have "Suc (node_count ?y) * Suc (node_count ?y) \<le> node_count e * node_count e" by (rule mult_le_mono) fact
    also have "\<dots> \<le> n" using Suc.prems by simp
    finally obtain e' where e': "dups_loop n st ?y = Some e'" "node_count e' \<le> node_count ?y"
      "\<forall>v. well_typed st v \<longrightarrow> keeps False v ?y e'" using Suc.IH by blast
    have "keeps False v e e'" if "well_typed st v" for v
      using that r(4) e'(3) keeps_trans[of False v e e1 e'] by (simp add: keeps_def value_eliminate_yn)
    then show ?thesis using r(1) e' less False by (intro exI[of _ e']) simp
  qed (use r in simp)
qed simp

text \<open>The function as its callers see it.\<close>

lemma eliminate_dups_keeps:
  "\<exists>e'. expr_eliminate_dups st (Some e) = Some e' \<and> node_count e' \<le> node_count e \<and>
     (\<forall>v. well_typed st v \<longrightarrow> keeps False v e e')"
  using dups_loop_ok[of e "dups_fuel e" st] by (simp add: expr_eliminate_dups_def dups_fuel_def)

lemma eliminate_dups_None [simp]: "expr_eliminate_dups st e = None \<longleftrightarrow> e = None"
  using eliminate_dups_keeps[of st "the e"] by (cases e) (auto simp: expr_eliminate_dups_def)

section \<open>Properties\<close>

text \<open>
  The elimination of duplicates returns: the square of the number of nodes and one bounds the depth of
  the calls and the number of rounds. The result is not larger, and under every well-typed assignment it
  has the value of the expression unless that value is m.
\<close>

theorem expr_eliminate_dups_sound:
  assumes "well_typed st v"
  shows "\<exists>e'. expr_eliminate_dups st (Some e) = Some e' \<and> node_count e' \<le> node_count e \<and>
    (expr_calc_value v e \<noteq> tri_mod \<longrightarrow> expr_calc_value v e' = expr_calc_value v e)"
  using eliminate_dups_keeps[of st e] assms by (auto simp: keeps_def)

definition example_dups :: expr where
  "example_dups = And (Or (Sym (sym_at 1)) (Sym (sym_at 3))) (Or (Sym (sym_at 3)) (Sym (sym_at 1)))"

lemma example_dups_count: "node_count example_dups = 7" "expr_calc_value example_val example_dups = tri_yes"
  by (simp_all add: example_dups_def example_val_def)

theorem expr_eliminate_dups_sound_witness:
  "\<exists>e'. expr_eliminate_dups example_st (Some example_dups) = Some e' \<and> node_count e' \<le> 7 \<and>
     expr_calc_value example_val e' = tri_yes"
  using expr_eliminate_dups_sound[OF example_typed, of example_dups] example_dups_count by simp

text \<open>
  When the value is m it may change: \<open>(A || B) && !A && !B\<close> has the value m for a tristate A that is m,
  and the function makes n of it, as the comment in \<open>expr_eliminate_dups2\<close> says.
\<close>

theorem expr_eliminate_dups_loses_m:
  "expr_eliminate_dups example_st (Some (And (Or (Sym (sym_at 3)) (Sym (sym_at 1))) (And (Neg (Sym (sym_at 3))) (Neg (Sym (sym_at 1)))))) =
     Some (Sym symbol_no) \<and>
   expr_calc_value \<lparr>v_tri = \<lambda>s. if s = 3 then tri_mod else tri_no, v_str = \<lambda>s. if s = 3 then ''m'' else ''n''\<rparr>
     (And (Or (Sym (sym_at 3)) (Sym (sym_at 1))) (And (Neg (Sym (sym_at 3))) (Neg (Sym (sym_at 1))))) = tri_mod"
  by code_simp

end
