(* ===== verification/Kc_Finalize.thy ===== *)
theory Kc_Finalize
  imports Kc_Options Kc_Dups_Sound
begin

text \<open>
  \<open>menu_finalize\<close> of menu.c: the dependencies of an entry are passed down to the entries below
  it and to its properties, entries that depend on the one before them become its children, choices
  get their values, and the children of an entry without a prompt move up to its parent.
\<close>

section \<open>Properties and prompts\<close>

text \<open>
  A \<open>struct property *\<close>: one of the list of a symbol, or the prompt of an entry without a symbol.
\<close>

datatype prop_ptr = PropOf sym nat | PromptOf nat

fun own_prompt :: "prompt option \<Rightarrow> property option" where
  "own_prompt (Some (POwn p)) = Some p"
| "own_prompt _ = None"

definition menu_prompt :: "pstate \<Rightarrow> nat \<Rightarrow> property option" where
  "menu_prompt st a =
     (case m_prompt (ps_menus st a) of
        None \<Rightarrow> None
      | Some (POwn p) \<Rightarrow> Some p
      | Some (PSym s i) \<Rightarrow> Some (s_prop (k_sym (ps_k st) s) ! i))"

fun read_prop :: "pstate \<Rightarrow> prop_ptr \<Rightarrow> property option" where
  "read_prop st (PropOf s i) = Some (s_prop (k_sym (ps_k st) s) ! i)"
| "read_prop st (PromptOf a) = own_prompt (m_prompt (ps_menus st a))"

fun write_prop :: "prop_ptr \<Rightarrow> property \<Rightarrow> pstate \<Rightarrow> pstate" where
  "write_prop (PropOf s i) p st = on_k (upd s (\<lambda>y. y\<lparr>s_prop := (s_prop y)[i := p]\<rparr>)) st"
| "write_prop (PromptOf a) p st = set_menu a (\<lambda>m. m\<lparr>m_prompt := Some (POwn p)\<rparr>) st"

definition with_dep :: "expr option \<Rightarrow> property \<Rightarrow> property" where
  "with_dep e p = p\<lparr>p_visible := (p_visible p)\<lparr>ev_expr := e\<rparr>\<rparr>"

text \<open>The properties that the loops over \<open>prop->next\<close> visit for an entry.\<close>

definition menu_props :: "pstate \<Rightarrow> nat \<Rightarrow> prop_ptr list" where
  "menu_props st a =
     (case m_sym (ps_menus st a) of
        Some s \<Rightarrow> List.map (PropOf s) [0 ..< length (s_prop (k_sym (ps_k st) s))]
      | None \<Rightarrow>
          (case m_prompt (ps_menus st a) of
             None \<Rightarrow> []
           | Some (POwn p) \<Rightarrow> [PromptOf a]
           | Some (PSym s i) \<Rightarrow> List.map (PropOf s) [i ..< length (s_prop (k_sym (ps_k st) s))]))"

definition tab_of :: "pstate \<Rightarrow> symtab" where
  "tab_of st = k_sym (ps_k st)"

definition transform_ptr :: "symtab \<Rightarrow> expr option \<Rightarrow> expr option" where
  "transform_ptr T e = map_option (expr_transform T) e"

section \<open>Dependencies of the entries below\<close>

definition add_rev_dep :: "sym \<Rightarrow> expr option \<Rightarrow> pstate \<Rightarrow> pstate" where
  "add_rev_dep s e =
     on_k (upd s (\<lambda>y. y\<lparr>s_rev_dep := (s_rev_dep y)\<lparr>ev_expr := expr_alloc_or (ev_expr (s_rev_dep y)) e\<rparr>\<rparr>))"

text \<open>None: a select without a symbol.\<close>

definition finalize_prop :: "expr option \<Rightarrow> nat \<Rightarrow> prop_ptr \<Rightarrow> pstate \<Rightarrow> pstate option" where
  "finalize_prop basedep a ptr st = do {
     p \<leftarrow> read_prop st ptr;
     if p_menu p \<noteq> Some a then Some st
     else
       let T = tab_of st; so = m_sym (ps_menus st a);
           dep = expr_eliminate_dups T
                   (expr_alloc_and (map_option expr_copy basedep) (transform_ptr T (ev_expr (p_visible p))));
           dep1 = (if so \<noteq> None \<and> s_type (T (the so)) \<noteq> S_TRISTATE then map_option (expr_trans_bool T) dep else dep);
           st1 = write_prop ptr (with_dep dep1 p) st
       in if p_type p = P_SELECT then do {
            es \<leftarrow> prop_get_symbol p;
            s \<leftarrow> so;
            Some (add_rev_dep es (expr_alloc_and (Some (expr_alloc_symbol s)) (map_option expr_copy dep1)) st1) }
          else Some st1 }"

text \<open>The new dependency of an entry below one with the dependency \<open>parentdep\<close>.\<close>

definition based_dep :: "symtab \<Rightarrow> expr option \<Rightarrow> expr option \<Rightarrow> expr option" where
  "based_dep T parentdep dep =
     expr_eliminate_dups T (expr_alloc_and (map_option expr_copy parentdep) (transform_ptr T dep))"

definition finalize_dep :: "expr option \<Rightarrow> nat \<Rightarrow> pstate \<Rightarrow> pstate option" where
  "finalize_dep parentdep a st =
     (let basedep = based_dep (tab_of st) parentdep (m_dep (ps_menus st a));
          st1 = set_menu a (\<lambda>m. m\<lparr>m_dep := basedep\<rparr>) st
      in run_all (finalize_prop basedep a) (menu_props st1 a) st1)"

text \<open>A loop over \<open>menu->next\<close>, with a bound on its length.\<close>

fun each_next :: "nat \<Rightarrow> (nat \<Rightarrow> pstate \<Rightarrow> pstate option) \<Rightarrow> nat option \<Rightarrow> pstate \<Rightarrow> pstate option" where
  "each_next 0 f m st = None"
| "each_next (Suc n) f None st = Some st"
| "each_next (Suc n) f (Some a) st = do {
     st1 \<leftarrow> f a st;
     each_next n f (m_next (ps_menus st1 a)) st1 }"

section \<open>The types of a choice and its values\<close>

text \<open>The type of the first value that has one, for the choice, which is the current entry.\<close>

fun set_choice_type :: "nat \<Rightarrow> nat option \<Rightarrow> pstate \<Rightarrow> pstate option" where
  "set_choice_type 0 m st = None"
| "set_choice_type (Suc n) None st = Some st"
| "set_choice_type (Suc n) (Some a) st =
     (case m_sym (ps_menus st a) of
        Some v \<Rightarrow> if s_type (tab_of st v) \<noteq> S_UNKNOWN then menu_set_type (s_type (tab_of st v)) st
                  else set_choice_type n (m_next (ps_menus st a)) st
      | None \<Rightarrow> set_choice_type n (m_next (ps_menus st a)) st)"

definition set_value_type :: "sym \<Rightarrow> nat \<Rightarrow> pstate \<Rightarrow> pstate option" where
  "set_value_type s a st =
     (let st1 = st\<lparr>ps_entry := a\<rparr> in
      case m_sym (ps_menus st1 a) of
        Some v \<Rightarrow> if s_type (tab_of st1 v) = S_UNKNOWN then menu_set_type (s_type (tab_of st1 s)) st1 else Some st1
      | None \<Rightarrow> Some st1)"

definition set_choice_types :: "nat \<Rightarrow> nat \<Rightarrow> sym \<Rightarrow> pstate \<Rightarrow> pstate option" where
  "set_choice_types n a s st = do {
     st1 \<leftarrow> (if s_type (tab_of st s) = S_UNKNOWN
             then set_choice_type n (m_list (ps_menus st a)) (st\<lparr>ps_entry := a\<rparr>) else Some st);
     each_next n (set_value_type s) (m_list (ps_menus st1 a)) st1 }"

text \<open>What the entries below depend on, and the state in which they are looked at.\<close>

definition parent_dep :: "nat \<Rightarrow> nat \<Rightarrow> pstate \<Rightarrow> (expr option \<times> pstate) option" where
  "parent_dep n a st =
     (let other = (case menu_prompt st a of
                     Some p \<Rightarrow> ev_expr (p_visible p)
                   | None \<Rightarrow> m_dep (ps_menus st a)) in
      case m_sym (ps_menus st a) of
        Some s \<Rightarrow>
          if sym_is_choice (tab_of st s) then do {
            st1 \<leftarrow> set_choice_types n a s st;
            Some (Some (expr_alloc_symbol s), st1) }
          else Some (other, st)
      | None \<Rightarrow> Some (other, st))"

section \<open>Entries that depend on the one before\<close>

definition expr_is_yes :: "expr option \<Rightarrow> bool" where
  "expr_is_yes e \<longleftrightarrow> e = None \<or> e = Some (Sym symbol_yes)"

text \<open>\<open>expr_eliminate_eq\<close> on two pointers, and the second one afterwards.\<close>

definition without_common :: "expr option \<Rightarrow> expr option \<Rightarrow> expr option" where
  "without_common e1 e2 =
     (case (e1, e2) of
        (Some a, Some b) \<Rightarrow> Some (fst (snd (expr_eliminate_eq a b 0)))
      | _ \<Rightarrow> e2)"

text \<open>The entry is on only if the symbol is not n: the test in the loop over the entries that follow.\<close>

definition stays_below :: "symtab \<Rightarrow> sym \<Rightarrow> expr option \<Rightarrow> expr option \<Rightarrow> bool" where
  "stays_below T s basedep dep =
     (case dep of
        None \<Rightarrow> False
      | Some d \<Rightarrow>
          expr_contains_symbol d s \<and>
          (expr_depends_symbol d s \<or>
           expr_is_yes (without_common
             (expr_eliminate_dups T (transform_ptr T (expr_trans_compare d E_UNEQUAL symbol_no)))
             (map_option expr_copy basedep))))"

definition own_basedep :: "pstate \<Rightarrow> nat \<Rightarrow> expr option" where
  "own_basedep st a =
     expr_eliminate_dups (tab_of st)
       (transform_ptr (tab_of st)
          (expr_trans_compare_ptr
             (case menu_prompt st a of Some p \<Rightarrow> ev_expr (p_visible p) | None \<Rightarrow> None) E_UNEQUAL symbol_no))"

definition entry_dep :: "pstate \<Rightarrow> nat \<Rightarrow> expr option" where
  "entry_dep st a = (case menu_prompt st a of Some p \<Rightarrow> ev_expr (p_visible p) | None \<Rightarrow> m_dep (ps_menus st a))"

text \<open>The entries up to \<open>l\<close> become the children.\<close>

definition adopt :: "nat \<Rightarrow> nat \<Rightarrow> pstate \<Rightarrow> pstate" where
  "adopt a l st =
     (let st1 = set_menu a (\<lambda>m. m\<lparr>m_list := m_next m\<rparr>) st;
          st2 = set_menu a (\<lambda>m. m\<lparr>m_next := m_next (ps_menus st1 l)\<rparr>) st1
      in set_menu l (\<lambda>m. m\<lparr>m_next := None\<rparr>) st2)"

definition add_dir_dep :: "sym \<Rightarrow> expr option \<Rightarrow> pstate \<Rightarrow> pstate" where
  "add_dir_dep s e =
     on_k (upd s (\<lambda>y. y\<lparr>s_dir_dep := (s_dir_dep y)\<lparr>ev_expr := expr_alloc_or (ev_expr (s_dir_dep y)) e\<rparr>\<rparr>))"

section \<open>Values of a choice\<close>

text \<open>
  The messages about a property of a value. None: a prompt without an entry, or one of the top entry.
\<close>

definition check_value_prop :: "sym \<Rightarrow> nat \<Rightarrow> property \<Rightarrow> pstate \<Rightarrow> pstate option" where
  "check_value_prop s m p st =
     (let st1 = (if p_type p = P_DEFAULT then prop_warn p ''defaults for choice values not supported'' st else st) in
      if p_menu p = Some m \<or> p_type p \<noteq> P_PROMPT then Some st1
      else do {
        b \<leftarrow> p_menu p;
        c \<leftarrow> m_parent (ps_menus st1 b);
        Some (if m_sym (ps_menus st1 c) \<noteq> Some s then prop_warn p ''choice value used outside its choice group'' st1 else st1) })"

text \<open>A value of a tristate choice that is no tristate depends on the choice being y.\<close>

definition need_choice_yes :: "sym \<Rightarrow> nat \<Rightarrow> prop_ptr \<Rightarrow> pstate \<Rightarrow> pstate option" where
  "need_choice_yes s m ptr st = do {
     p \<leftarrow> read_prop st ptr;
     Some (if p_menu p = Some m
           then write_prop ptr (with_dep (expr_alloc_and (Some (expr_copy (expr_alloc_comp E_EQUAL s symbol_yes))) (ev_expr (p_visible p))) p) st
           else st) }"

text \<open>
  The value is added at the end of the list of the choice property. None: the choice has no such
  property, or its expression is not a list.
\<close>

fun add_to_choice :: "sym \<Rightarrow> property list \<Rightarrow> property list option" where
  "add_to_choice v [] = None"
| "add_to_choice v (p # ps) =
     (if p_type p = P_CHOICE then
        (case p_expr p of
           None \<Rightarrow> Some (p\<lparr>p_expr := Some (PE_list [v])\<rparr> # ps)
         | Some (PE_list l) \<Rightarrow> Some (p\<lparr>p_expr := Some (PE_list (l @ [v]))\<rparr> # ps)
         | _ \<Rightarrow> None)
      else map_option (Cons p) (add_to_choice v ps))"

definition append_choice_value :: "sym \<Rightarrow> sym \<Rightarrow> pstate \<Rightarrow> pstate option" where
  "append_choice_value s v st = do {
     ps \<leftarrow> add_to_choice v (s_prop (tab_of st s));
     Some (on_k (upd s (\<lambda>y. y\<lparr>s_prop := ps\<rparr>)) st) }"

definition finalize_value :: "sym \<Rightarrow> nat \<Rightarrow> sym \<Rightarrow> pstate \<Rightarrow> pstate option" where
  "finalize_value s m v st = do {
     let st1 = on_k (upd v (set_flags SYMBOL_CHOICEVAL)) (st\<lparr>ps_entry := m\<rparr>);
     let st2 = (if m_prompt (ps_menus st1 m) = None then menu_warn m ''choice value must have a prompt'' st1 else st1);
     st3 \<leftarrow> run_all (check_value_prop s m) (s_prop (tab_of st2 v)) st2;
     st4 \<leftarrow> (if s_type (tab_of st3 s) = S_TRISTATE \<and> s_type (tab_of st3 v) \<noteq> S_TRISTATE then
               run_all (need_choice_yes s m) (menu_props st3 m)
                 (set_menu m (\<lambda>e. e\<lparr>m_dep := expr_alloc_and (Some (expr_alloc_comp E_EQUAL s symbol_yes)) (m_dep e)\<rparr>) st3)
             else Some st3);
     st5 \<leftarrow> menu_add_symbol P_CHOICE s None st4;
     append_choice_value s v st5 }"

section \<open>Entries without a prompt\<close>

text \<open>The parent of the entries from \<open>c\<close> on becomes \<open>a\<close>; the result is the last of them.\<close>

fun reparent :: "nat \<Rightarrow> nat \<Rightarrow> nat \<Rightarrow> pstate \<Rightarrow> (nat \<times> pstate) option" where
  "reparent 0 a c st = None"
| "reparent (Suc n) a c st =
     (let st1 = set_menu c (\<lambda>m. m\<lparr>m_parent := Some a\<rparr>) st in
      case m_next (ps_menus st1 c) of
        None \<Rightarrow> Some (c, st1)
      | Some d \<Rightarrow> reparent n a d st1)"

text \<open>\<open>!menu->prompt || !menu->prompt->text\<close>\<close>

definition no_text :: "pstate \<Rightarrow> nat \<Rightarrow> bool" where
  "no_text st m = (case menu_prompt st m of None \<Rightarrow> True | Some p \<Rightarrow> p_text p = None)"

definition flatten :: "nat \<Rightarrow> nat \<Rightarrow> nat \<Rightarrow> pstate \<Rightarrow> pstate option" where
  "flatten n a m st =
     (case m_list (ps_menus st m) of
        None \<Rightarrow> Some st
      | Some c \<Rightarrow>
          if \<not> no_text st m then Some st
          else do {
            (l, st1) \<leftarrow> reparent n a c st;
            let st2 = set_menu l (\<lambda>e. e\<lparr>m_next := m_next (ps_menus st1 m)\<rparr>) st1;
            let st3 = set_menu m (\<lambda>e. e\<lparr>m_next := m_list e\<rparr>) st2;
            Some (set_menu m (\<lambda>e. e\<lparr>m_list := None\<rparr>) st3) })"

definition finalize_child :: "nat \<Rightarrow> nat \<Rightarrow> sym option \<Rightarrow> nat \<Rightarrow> pstate \<Rightarrow> pstate option" where
  "finalize_child n a so m st = do {
     st1 \<leftarrow> (case (so, m_sym (ps_menus st m)) of
               (Some s, Some v) \<Rightarrow>
                 if sym_is_choice (tab_of st s) \<and> \<not> sym_is_choice_value (tab_of st v) then finalize_value s m v st else Some st
             | _ \<Rightarrow> Some st);
     flatten n a m st1 }"

section \<open>Checks of a symbol\<close>

text \<open>None: a symbol without a name.\<close>

definition menu_validate_number :: "symtab \<Rightarrow> sym \<Rightarrow> sym \<Rightarrow> bool option" where
  "menu_validate_number T s s2 =
     (let t = s_type (T s2) in
      if t = S_INT \<or> t = S_HEX then Some True
      else if t = S_UNKNOWN then map_option (sym_string_valid (s_type (T s))) (s_name (T s2))
      else Some False)"

definition is_number :: "symbol_type \<Rightarrow> bool" where
  "is_number t \<longleftrightarrow> t = S_HEX \<or> t = S_INT"

definition warn_if :: "bool \<Rightarrow> property \<Rightarrow> string \<Rightarrow> pstate \<Rightarrow> pstate" where
  "warn_if b p msg st = (if b then prop_warn p msg st else st)"

text \<open>
  The cases of \<open>sym_check_prop\<close>. None: a property without the expression that its type has, or a select
  without a symbol.
\<close>

definition check_default :: "sym \<Rightarrow> property \<Rightarrow> pstate \<Rightarrow> pstate option" where
  "check_default s p st =
     (let T = tab_of st; t = s_type (T s); name = quoted (shown_name (s_name (T s))) in
      case p_expr p of
        None \<Rightarrow> None
      | Some e \<Rightarrow>
          (let st1 = warn_if ((t = S_STRING \<or> is_number t) \<and> prop_get_symbol p = None) p
                 (''default for config symbol '' @ name @ '' must be a single symbol'') st in
           case prop_get_symbol p of
             None \<Rightarrow> Some st1
           | Some s2 \<Rightarrow>
               if is_number t then do {
                 ok \<leftarrow> menu_validate_number T s s2;
                 Some (warn_if (\<not> ok) p (name @ '': number is invalid'') st1) }
               else Some st1))"

definition check_select :: "sym \<Rightarrow> property \<Rightarrow> pstate \<Rightarrow> pstate option" where
  "check_select s p st =
     (let T = tab_of st; t = s_type (T s) in
      if t \<noteq> S_BOOLEAN \<and> t \<noteq> S_TRISTATE
      then Some (prop_warn p (''config symbol '' @ quoted (shown_name (s_name (T s))) @ '' uses select, but is not boolean or tristate'') st)
      else do {
        s2 \<leftarrow> prop_get_symbol p;
        Some (warn_if (s_type (T s2) \<notin> {S_UNKNOWN, S_BOOLEAN, S_TRISTATE}) p
          (quoted (shown_name (s_name (T s2))) @ '' has wrong type. '' @ quoted ''select''
           @ '' only accept arguments of boolean and tristate type'') st) })"

definition check_range :: "sym \<Rightarrow> property \<Rightarrow> pstate \<Rightarrow> pstate option" where
  "check_range s p st =
     (let T = tab_of st; st1 = warn_if (\<not> is_number (s_type (T s))) p ''range is only allowed for int or hex symbols'' st in
      case p_expr p of
        Some (PE_range a b) \<Rightarrow> do {
          ok \<leftarrow> menu_validate_number T s a;
          ok2 \<leftarrow> (if ok then menu_validate_number T s b else Some False);
          Some (warn_if (\<not> ok2) p ''range is invalid'' st1) }
      | _ \<Rightarrow> None)"

definition check_prop :: "sym \<Rightarrow> property \<Rightarrow> pstate \<Rightarrow> pstate option" where
  "check_prop s p st =
     (case p_type p of
        P_DEFAULT \<Rightarrow> check_default s p st
      | P_SELECT \<Rightarrow> check_select s p st
      | P_RANGE \<Rightarrow> check_range s p st
      | _ \<Rightarrow> Some st)"

definition sym_check_prop :: "sym \<Rightarrow> pstate \<Rightarrow> pstate option" where
  "sym_check_prop s st = run_all (check_prop s) (s_prop (tab_of st s)) st"

definition check_symbol :: "nat \<Rightarrow> sym \<Rightarrow> pstate \<Rightarrow> pstate option" where
  "check_symbol a s st =
     (if has_flag (tab_of st s) SYMBOL_WARNED then Some st
      else
        let st1 = (if s_type (tab_of st s) = S_UNKNOWN then menu_warn a ''config symbol defined without type'' st else st);
            st2 = (if sym_is_choice (tab_of st1 s) \<and> m_prompt (ps_menus st1 a) = None
                   then menu_warn a ''choice must have a prompt'' st1 else st1)
        in do {
          st3 \<leftarrow> sym_check_prop s st2;
          Some (on_k (upd s (set_flags SYMBOL_WARNED)) st3) })"

text \<open>A symbol that is not optional is at least m when its prompt is visible.\<close>

definition not_optional :: "nat \<Rightarrow> sym \<Rightarrow> pstate \<Rightarrow> pstate" where
  "not_optional a s st =
     (case menu_prompt st a of
        Some p \<Rightarrow>
          if sym_is_optional (tab_of st s) then st
          else add_rev_dep s (expr_alloc_and (ev_expr (p_visible p)) (Some (expr_alloc_symbol symbol_mod))) st
      | None \<Rightarrow> st)"

definition finish_entry :: "nat \<Rightarrow> pstate \<Rightarrow> pstate option" where
  "finish_entry a st =
     (case m_sym (ps_menus st a) of
        None \<Rightarrow> Some st
      | Some s \<Rightarrow> map_option (not_optional a s) (check_symbol a s st))"

section \<open>The whole\<close>

text \<open>
  The recursion and its loops, with a bound on the depth: below an entry, along the entries of a list, and
  along the entries that follow one without children. The last result of that loop is the last entry that
  depends on the symbol.
\<close>

fun menu_finalize :: "nat \<Rightarrow> nat \<Rightarrow> pstate \<Rightarrow> pstate option"
and finalize_list :: "nat \<Rightarrow> nat option \<Rightarrow> pstate \<Rightarrow> pstate option"
and finalize_following :: "nat \<Rightarrow> nat \<Rightarrow> sym \<Rightarrow> expr option \<Rightarrow> nat option \<Rightarrow> nat option \<Rightarrow> pstate \<Rightarrow> (nat option \<times> pstate) option"
where
  "menu_finalize 0 a st = None"
| "menu_finalize (Suc n) a st = do {
     st1 \<leftarrow> (case m_list (ps_menus st a) of
               Some c \<Rightarrow> do {
                 (parentdep, st1) \<leftarrow> parent_dep n a st;
                 st2 \<leftarrow> each_next n (finalize_dep parentdep) (m_list (ps_menus st1 a)) st1;
                 finalize_list n (m_list (ps_menus st2 a)) st2 }
             | None \<Rightarrow>
                 (case m_sym (ps_menus st a) of
                    None \<Rightarrow> Some st
                  | Some s \<Rightarrow> do {
                      (lm, st1) \<leftarrow> finalize_following n a s (own_basedep st a) (m_next (ps_menus st a)) None st;
                      let st2 = (case lm of None \<Rightarrow> st1 | Some l \<Rightarrow> adopt a l st1);
                      Some (add_dir_dep s (m_dep (ps_menus st2 a)) st2) }));
     st2 \<leftarrow> each_next n (finalize_child n a (m_sym (ps_menus st1 a))) (m_list (ps_menus st1 a)) st1;
     finish_entry a st2 }"
| "finalize_list 0 m st = None"
| "finalize_list (Suc n) m st =
     (case m of
        None \<Rightarrow> Some st
      | Some a \<Rightarrow> do {
          st1 \<leftarrow> menu_finalize n a st;
          finalize_list n (m_next (ps_menus st1 a)) st1 })"
| "finalize_following 0 a s basedep m lm st = None"
| "finalize_following (Suc n) a s basedep m lm st =
     (case m of
        None \<Rightarrow> Some (lm, st)
      | Some b \<Rightarrow>
          if \<not> stays_below (tab_of st) s basedep (entry_dep st b) then Some (lm, st)
          else do {
            st1 \<leftarrow> menu_finalize n b st;
            let st2 = set_menu b (\<lambda>e. e\<lparr>m_parent := Some a\<rparr>) st1;
            finalize_following n a s basedep (m_next (ps_menus st2 b)) (Some b) st2 })"

end
