(* ===== verification/Kc_Finalize_Inv.thy ===== *)
theory Kc_Finalize_Inv
  imports Kc_Finalize Kc_Menu_Build
begin

text \<open>
  What \<open>menu_finalize\<close> relies on in the symbols and menus that the parser has made, and that each of
  its parts keeps it: then no part of it follows a NULL pointer.
\<close>

section \<open>What the parser guarantees\<close>

text \<open>
  A select has a symbol, a default an expression, a range two symbols, and a prompt belongs to
  an entry that is not the top one.
\<close>

definition named :: "pstate \<Rightarrow> sym \<Rightarrow> bool" where
  "named st s \<longleftrightarrow> s_name (tab_of st s) \<noteq> None"

definition prop_ok :: "pstate \<Rightarrow> property \<Rightarrow> bool" where
  "prop_ok st p \<longleftrightarrow>
     (case p_type p of
        P_SELECT \<Rightarrow> prop_get_symbol p \<noteq> None
      | P_DEFAULT \<Rightarrow> p_expr p \<noteq> None \<and> (\<forall>s. prop_get_symbol p = Some s \<longrightarrow> named st s)
      | P_RANGE \<Rightarrow> (\<exists>a b. p_expr p = Some (PE_range a b) \<and> named st a \<and> named st b)
      | P_PROMPT \<Rightarrow> (\<exists>m. p_menu p = Some m \<and> m_parent (ps_menus st m) \<noteq> None)
      | _ \<Rightarrow> True)"

text \<open>The property of a choice is there, with a list or nothing.\<close>

fun has_list :: "property list \<Rightarrow> bool" where
  "has_list [] = False"
| "has_list (p # ps) =
     (if p_type p = P_CHOICE then (case p_expr p of None \<Rightarrow> True | Some (PE_list l) \<Rightarrow> True | _ \<Rightarrow> False) else has_list ps)"

definition entry_fine :: "menu \<Rightarrow> bool" where
  "entry_fine m \<longleftrightarrow>
     (case m_prompt m of
        None \<Rightarrow> True
      | Some (POwn p) \<Rightarrow> p_type p \<noteq> P_SELECT
      | Some (PSym s i) \<Rightarrow> m_sym m \<noteq> None)"

definition fin_ok :: "pstate \<Rightarrow> bool" where
  "fin_ok st \<longleftrightarrow> (\<forall>s. (\<forall>p\<in>set (s_prop (tab_of st s)). prop_ok st p) \<and>
       (sym_is_choice (tab_of st s) \<longrightarrow> has_list (s_prop (tab_of st s)))) \<and>
     (\<forall>a. entry_fine (ps_menus st a))"

text \<open>A part that leaves the links between the menus alone.\<close>

definition fin_keeps :: "pstate \<Rightarrow> pstate \<Rightarrow> bool" where
  "fin_keeps st st' \<longleftrightarrow> same_links (ps_menus st) (ps_menus st') \<and>
     (\<forall>a. m_sym (ps_menus st' a) = m_sym (ps_menus st a)) \<and>
     (\<forall>a. own_prompt (m_prompt (ps_menus st a)) \<noteq> None \<longrightarrow> own_prompt (m_prompt (ps_menus st' a)) \<noteq> None) \<and>
     (\<forall>s. length (s_prop (tab_of st s)) \<le> length (s_prop (tab_of st' s)) \<and> (named st s \<longrightarrow> named st' s) \<and>
        sym_is_choice (tab_of st' s) = sym_is_choice (tab_of st s)) \<and> fin_ok st'"

lemma fin_keeps_refl: "fin_ok st \<Longrightarrow> fin_keeps st st"
  by (simp add: fin_keeps_def)

lemma fin_keeps_trans: "fin_keeps a b \<Longrightarrow> fin_keeps b c \<Longrightarrow> fin_keeps a c"
  unfolding fin_keeps_def by (auto intro: same_links_trans le_trans)

lemma fin_keeps_ok: "fin_keeps st st' \<Longrightarrow> fin_ok st'"
  by (simp add: fin_keeps_def)

lemma prop_ok_cong:
  assumes "prop_ok st p" and "p_type q = p_type p" and "p_type p \<noteq> P_CHOICE \<longrightarrow> p_expr q = p_expr p" and "p_menu q = p_menu p"
    and "\<And>s. named st s \<Longrightarrow> named st' s"
    and "\<And>a. m_parent (ps_menus st a) \<noteq> None \<Longrightarrow> m_parent (ps_menus st' a) \<noteq> None"
  shows "prop_ok st' q"
proof (cases "p_type p = P_CHOICE")
  case False
  then have e: "p_expr q = p_expr p" "prop_get_symbol q = prop_get_symbol p" using assms(3) by (simp_all add: prop_get_symbol_def)
  have m: "\<exists>z. m_parent (ps_menus st' a) = Some z" if "m_parent (ps_menus st a) = Some y" for a y
    using assms(6)[of a] that by auto
  show ?thesis
    using assms(1) unfolding prop_ok_def assms(2,4) e
    by (cases "p_type p"; simp) (blast intro: assms(5) dest: m)+
qed (simp add: prop_ok_def assms(2))

lemma fin_okI:
  assumes "fin_ok st"
    and "\<And>s. named st s \<Longrightarrow> named st' s"
    and "\<And>a. m_parent (ps_menus st a) \<noteq> None \<Longrightarrow> m_parent (ps_menus st' a) \<noteq> None"
    and "\<And>s q. q \<in> set (s_prop (tab_of st' s)) \<Longrightarrow>
      (\<exists>p\<in>set (s_prop (tab_of st s)). p_type q = p_type p \<and> (p_type p \<noteq> P_CHOICE \<longrightarrow> p_expr q = p_expr p) \<and> p_menu q = p_menu p) \<or>
      p_type q = P_CHOICE"
    and "\<And>s. sym_is_choice (tab_of st' s) \<Longrightarrow> sym_is_choice (tab_of st s)"
    and "\<And>s. has_list (s_prop (tab_of st s)) \<Longrightarrow> has_list (s_prop (tab_of st' s))"
    and "\<And>a. entry_fine (ps_menus st a) \<Longrightarrow> entry_fine (ps_menus st' a)"
  shows "fin_ok st'"
proof -
  have "prop_ok st' q" if q: "q \<in> set (s_prop (tab_of st' s))" for q s
  proof (cases "p_type q = P_CHOICE")
    case False
    then obtain p where p: "p \<in> set (s_prop (tab_of st s))" "p_type q = p_type p" "p_type p \<noteq> P_CHOICE \<longrightarrow> p_expr q = p_expr p" "p_menu q = p_menu p"
      using assms(4)[OF q] by blast
    have "prop_ok st p" using assms(1) p(1) by (auto simp: fin_ok_def)
    then show ?thesis by (rule prop_ok_cong[OF _ p(2-4) assms(2,3)])
  qed (simp add: prop_ok_def)
  then show ?thesis using assms(1,5,6,7) by (auto simp: fin_ok_def)
qed

section \<open>Simple steps\<close>

lemma tab_simps [simp]:
  "tab_of (set_menu a f st) = tab_of st" "tab_of (warn m st) = tab_of st" "tab_of (menu_warn a m st) = tab_of st"
  "tab_of (prop_warn p m st) = tab_of st" "tab_of (st\<lparr>ps_entry := a\<rparr>) = tab_of st"
  "ps_menus (warn m st) = ps_menus st" "ps_menus (menu_warn a m st) = ps_menus st" "ps_menus (prop_warn p m st) = ps_menus st"
  "ps_menus (on_k g st) = ps_menus st" "ps_menus (warn_if b p m st) = ps_menus st" "tab_of (warn_if b p m st) = tab_of st"
  by (simp_all add: tab_of_def set_menu_def warn_def menu_warn_def prop_warn_def on_k_def warn_if_def)

lemma tab_upd: "tab_of (on_k (upd s f) st) a = (if a = s then f (tab_of st s) else tab_of st a)"
  by (simp add: tab_of_def on_k_def k_sym_upd)

lemma menus_set: "ps_menus (set_menu a f st) b = (if b = a then f (ps_menus st a) else ps_menus st b)"
  by (simp add: set_menu_def)

text \<open>A state with the same symbols and menus.\<close>

lemma fin_keeps_same: "fin_ok st \<Longrightarrow> tab_of st' = tab_of st \<Longrightarrow> ps_menus st' = ps_menus st \<Longrightarrow> fin_keeps st st'"
proof -
  assume a: "fin_ok st" "tab_of st' = tab_of st" "ps_menus st' = ps_menus st"
  have "fin_ok st'" by (rule fin_okI[OF a(1)]) (use a(2,3) in \<open>auto simp: named_def\<close>)
  with a show ?thesis by (simp add: fin_keeps_def named_def)
qed

text \<open>A symbol that keeps its name, its properties and whether it is a choice.\<close>

lemma fin_keeps_upd:
  assumes "fin_ok st"
    and "\<And>y. s_name (f y) = s_name y \<and> s_prop (f y) = s_prop y \<and> sym_is_choice (f y) = sym_is_choice y"
  shows "fin_keeps st (on_k (upd s f) st)"
proof -
  have f: "s_name (tab_of (on_k (upd s f) st) a) = s_name (tab_of st a)" "s_prop (tab_of (on_k (upd s f) st) a) = s_prop (tab_of st a)"
    "sym_is_choice (tab_of (on_k (upd s f) st) a) = sym_is_choice (tab_of st a)" for a
    using assms(2) by (auto simp: tab_upd)
  have "fin_ok (on_k (upd s f) st)" by (rule fin_okI[OF assms(1)]) (auto simp: f named_def)
  then show ?thesis by (simp add: fin_keeps_def f named_def)
qed

lemma fin_keeps_menu:
  assumes "fin_ok st"
    and "\<And>m. m_next (f m) = m_next m \<and> m_parent (f m) = m_parent m \<and> m_list (f m) = m_list m \<and> m_sym (f m) = m_sym m \<and>
      m_prompt (f m) = m_prompt m"
  shows "fin_keeps st (set_menu a f st)"
proof -
  have "entry_fine (f m) = entry_fine m" for m
    using assms(2)[of m] by (simp add: entry_fine_def split: option.split prompt.split)
  then have "fin_ok (set_menu a f st)" by (intro fin_okI[OF assms(1)]) (auto simp: menus_set assms(2) named_def)
  then show ?thesis by (auto simp: fin_keeps_def same_links_def menus_set assms(2) named_def)
qed

lemma choice_flags [simp]:
  "sym_is_choice (set_flags SYMBOL_CHOICEVAL y) = sym_is_choice y" "sym_is_choice (set_flags SYMBOL_WARNED y) = sym_is_choice y"
  "s_name (set_flags f y) = s_name y" "s_prop (set_flags f y) = s_prop y"
  by (simp_all add: sym_is_choice_def has_set_flags flag_defs) (simp_all add: set_flags_def)

section \<open>Parts that return\<close>

definition keeps_ok :: "(pstate \<Rightarrow> pstate option) \<Rightarrow> pstate \<Rightarrow> bool" where
  "keeps_ok f st \<longleftrightarrow> (\<exists>st'. f st = Some st' \<and> fin_keeps st st')"

lemma keeps_bind:
  assumes "keeps_ok f st" and "\<And>st1. fin_keeps st st1 \<Longrightarrow> keeps_ok g st1"
  shows "keeps_ok (\<lambda>st. do { st1 \<leftarrow> f st; g st1 }) st"
proof -
  obtain st1 where 1: "f st = Some st1" "fin_keeps st st1" using assms(1) by (auto simp: keeps_ok_def)
  with assms(2)[OF 1(2)] fin_keeps_trans show ?thesis by (auto simp: keeps_ok_def)
qed

lemma keeps_run_all:
  assumes "fin_ok st" and "\<And>x st. x \<in> set l \<Longrightarrow> fin_ok st \<Longrightarrow> Q st x \<Longrightarrow> keeps_ok (f x) st"
    and "\<And>x. x \<in> set l \<Longrightarrow> Q st x" and "\<And>x st st'. Q st x \<Longrightarrow> fin_keeps st st' \<Longrightarrow> Q st' x"
  shows "keeps_ok (run_all f l) st"
  using assms
proof (induction l arbitrary: st)
  case Nil
  then show ?case by (simp add: keeps_ok_def fin_keeps_refl)
next
  case (Cons x l)
  have "keeps_ok (f x) st" by (rule Cons.prems(2)) (use Cons.prems(1,3) in auto)
  then obtain st1 where 1: "f x st = Some st1" "fin_keeps st st1" by (auto simp: keeps_ok_def)
  have "Q st1 y" if "y \<in> set l" for y
    by (rule Cons.prems(4)[OF Cons.prems(3) 1(2)]) (use that in simp)
  then have "keeps_ok (run_all f l) st1"
    using Cons.IH[OF fin_keeps_ok[OF 1(2)]] Cons.prems(2,4) by simp
  with 1 fin_keeps_trans show ?case by (auto simp: keeps_ok_def)
qed

section \<open>Properties\<close>

lemma has_list_update: "p_type q = p_type (ps ! i) \<Longrightarrow> p_expr q = p_expr (ps ! i) \<Longrightarrow> has_list (ps[i := q]) = has_list ps"
proof (induction ps arbitrary: i)
  case (Cons p ps)
  then show ?case by (cases i) auto
qed simp

lemma has_list_append: "has_list ps \<Longrightarrow> has_list (ps @ qs)"
  by (induction ps) auto

definition ptr_ok :: "nat \<Rightarrow> pstate \<Rightarrow> prop_ptr \<Rightarrow> bool" where
  "ptr_ok a st ptr \<longleftrightarrow>
     (case ptr of
        PropOf s i \<Rightarrow> i < length (s_prop (tab_of st s)) \<and> m_sym (ps_menus st a) = Some s
      | PromptOf b \<Rightarrow> own_prompt (m_prompt (ps_menus st b)) \<noteq> None)"

lemma ptr_ok_keeps: "ptr_ok a st ptr \<Longrightarrow> fin_keeps st st' \<Longrightarrow> ptr_ok a st' ptr"
  by (cases ptr) (auto simp: ptr_ok_def fin_keeps_def intro: less_le_trans)

lemma own_prompt_Some: "own_prompt pr = Some p \<longleftrightarrow> pr = Some (POwn p)"
  by (cases pr rule: own_prompt.cases) auto

lemma menu_props_ok: "fin_ok st \<Longrightarrow> ptr \<in> set (menu_props st a) \<Longrightarrow> ptr_ok a st ptr"
proof -
  assume ok: "fin_ok st" and ptr: "ptr \<in> set (menu_props st a)"
  have "entry_fine (ps_menus st a)" using ok by (simp add: fin_ok_def)
  then show ?thesis
    using ptr by (cases "m_sym (ps_menus st a)"; cases "m_prompt (ps_menus st a)")
      (auto simp: menu_props_def ptr_ok_def entry_fine_def tab_of_def split: prompt.splits)
qed

lemma read_ptr: "ptr_ok a st ptr \<Longrightarrow> \<exists>p. read_prop st ptr = Some p"
  by (cases ptr) (auto simp: ptr_ok_def)

text \<open>A property that is read is one of those that are fine, and a select has a symbol and an entry with one.\<close>

lemma read_select:
  assumes "fin_ok st" and "ptr_ok a st ptr" and "read_prop st ptr = Some p" and "p_type p = P_SELECT"
  shows "prop_get_symbol p \<noteq> None \<and> m_sym (ps_menus st a) \<noteq> None"
proof (cases ptr)
  case (PropOf s i)
  then have "p \<in> set (s_prop (tab_of st s))" using assms(2,3) by (auto simp: ptr_ok_def tab_of_def)
  then have "prop_ok st p" using assms(1) by (auto simp: fin_ok_def)
  then show ?thesis using assms(2,4) PropOf by (simp add: prop_ok_def ptr_ok_def)
next
  case (PromptOf b)
  then have "m_prompt (ps_menus st b) = Some (POwn p)" using assms(3) by (simp add: own_prompt_Some)
  then have "p_type p \<noteq> P_SELECT" using assms(1) by (auto simp: fin_ok_def entry_fine_def dest!: conjunct2 spec[of _ b])
  with assms(4) show ?thesis by simp
qed

lemma fin_keeps_write:
  assumes ok: "fin_ok st" and ptr: "ptr_ok a st ptr" and p: "read_prop st ptr = Some p"
  shows "fin_keeps st (write_prop ptr (with_dep e p) st)"
proof (cases ptr)
  case (PropOf s i)
  then have i: "i < length (s_prop (tab_of st s))" "p = s_prop (tab_of st s) ! i" using ptr p by (auto simp: ptr_ok_def tab_of_def)
  let ?st = "on_k (upd s (\<lambda>y. y\<lparr>s_prop := (s_prop y)[i := with_dep e p]\<rparr>)) st"
  have w: "p_type (with_dep e p) = p_type p" "p_expr (with_dep e p) = p_expr p" "p_menu (with_dep e p) = p_menu p"
    by (simp_all add: with_dep_def)
  have hl: "has_list ((s_prop (tab_of st s))[i := with_dep e p]) = has_list (s_prop (tab_of st s))"
    by (rule has_list_update) (use w i(2) in metis)+
  have "fin_ok ?st"
  proof (rule fin_okI[OF ok])
    fix s' q assume "q \<in> set (s_prop (tab_of ?st s'))"
    then have "q \<in> set (s_prop (tab_of st s')) \<or> (s' = s \<and> q = with_dep e p)"
      by (auto simp: tab_upd split: if_splits dest: subsetD[OF set_update_subset_insert])
    moreover have "p \<in> set (s_prop (tab_of st s))" using i by simp
    ultimately show "(\<exists>p\<in>set (s_prop (tab_of st s')). p_type q = p_type p \<and> (p_type p \<noteq> P_CHOICE \<longrightarrow> p_expr q = p_expr p) \<and> p_menu q = p_menu p) \<or>
      p_type q = P_CHOICE" using w by metis
  qed (auto simp: named_def tab_upd sym_is_choice_def has_flag_def hl split: if_splits)
  then show ?thesis using PropOf by (auto simp: fin_keeps_def tab_upd named_def sym_is_choice_def has_flag_def)
next
  case (PromptOf b)
  then have b: "m_prompt (ps_menus st b) = Some (POwn p)" using p by (simp add: own_prompt_Some)
  let ?st = "set_menu b (\<lambda>m. m\<lparr>m_prompt := Some (POwn (with_dep e p))\<rparr>) st"
  have "fin_ok ?st"
    by (rule fin_okI[OF ok]) (use b in \<open>auto simp: named_def menus_set entry_fine_def with_dep_def\<close>)
  then show ?thesis using PromptOf by (auto simp: fin_keeps_def menus_set same_links_def named_def)
qed

lemma finalize_prop_ok: "fin_ok st \<Longrightarrow> ptr_ok a st ptr \<Longrightarrow> keeps_ok (finalize_prop b a ptr) st"
proof -
  assume ok: "fin_ok st" and ptr: "ptr_ok a st ptr"
  obtain p where p: "read_prop st ptr = Some p" using read_ptr[OF ptr] by blast
  note sel = read_select[OF ok ptr p]
  note w = fin_keeps_write[OF ok ptr p]
  have "fin_keeps st (add_rev_dep es x (write_prop ptr (with_dep e p) st))" for es x e
    by (rule fin_keeps_trans[OF w], unfold add_rev_dep_def, rule fin_keeps_upd[OF fin_keeps_ok[OF w]])
      (simp add: sym_is_choice_def has_flag_def)
  then show ?thesis using p sel w fin_keeps_refl[OF ok] by (auto simp: keeps_ok_def finalize_prop_def Let_def)
qed

lemma finalize_dep_ok: "fin_ok st \<Longrightarrow> keeps_ok (finalize_dep pd a) st"
proof -
  assume ok: "fin_ok st"
  define st1 where "st1 = set_menu a (\<lambda>m. m\<lparr>m_dep := based_dep (tab_of st) pd (m_dep (ps_menus st a))\<rparr>) st"
  have 1: "fin_keeps st st1" unfolding st1_def by (rule fin_keeps_menu[OF ok]) simp
  have "keeps_ok (run_all (finalize_prop b a) (menu_props st1 a)) st1" for b
    by (rule keeps_run_all[where Q = "ptr_ok a"])
      (use fin_keeps_ok[OF 1] finalize_prop_ok menu_props_ok ptr_ok_keeps in auto)
  then show ?thesis using fin_keeps_trans[OF 1] by (auto simp: keeps_ok_def finalize_dep_def Let_def st1_def)
qed

section \<open>Types and values of a choice\<close>

lemma menu_set_type_ok: "fin_ok st \<Longrightarrow> m_sym (ps_menus st (ps_entry st)) \<noteq> None \<Longrightarrow> keeps_ok (menu_set_type t) st"
proof -
  assume ok: "fin_ok st" and "m_sym (ps_menus st (ps_entry st)) \<noteq> None"
  then obtain s where s: "m_sym (ps_menus st (ps_entry st)) = Some s" by auto
  have "fin_keeps st (on_k (upd s (\<lambda>y. y\<lparr>s_type := t\<rparr>)) st)"
    by (rule fin_keeps_upd[OF ok]) (simp add: sym_is_choice_def has_flag_def)
  moreover have "fin_keeps st (menu_warn a m st)" for a m by (rule fin_keeps_same[OF ok]) simp_all
  ultimately show ?thesis using s fin_keeps_refl[OF ok] by (simp add: keeps_ok_def menu_set_type_def Let_def)
qed

lemma entry_keeps: "fin_ok st \<Longrightarrow> fin_keeps st (st\<lparr>ps_entry := a\<rparr>)"
  by (rule fin_keeps_same) simp_all

lemma set_value_type_ok: "fin_ok st \<Longrightarrow> keeps_ok (set_value_type s a) st"
proof -
  assume ok: "fin_ok st"
  note e = entry_keeps[OF ok, of a]
  show ?thesis
  proof (cases "m_sym (ps_menus st a)")
    case (Some v)
    have "keeps_ok (menu_set_type (s_type (tab_of st s))) (st\<lparr>ps_entry := a\<rparr>)"
      by (rule menu_set_type_ok[OF fin_keeps_ok[OF e]]) (simp add: Some)
    then obtain st' where "menu_set_type (s_type (tab_of st s)) (st\<lparr>ps_entry := a\<rparr>) = Some st'" "fin_keeps (st\<lparr>ps_entry := a\<rparr>) st'"
      by (auto simp: keeps_ok_def)
    then show ?thesis using e fin_keeps_trans[OF e] Some by (simp add: keeps_ok_def set_value_type_def Let_def)
  qed (use e in \<open>simp add: keeps_ok_def set_value_type_def Let_def\<close>)
qed

lemma check_value_prop_ok: "fin_ok st \<Longrightarrow> prop_ok st p \<Longrightarrow> keeps_ok (check_value_prop s m p) st"
proof -
  assume ok: "fin_ok st" and p: "prop_ok st p"
  have w: "fin_keeps st (warn_if b p x (warn_if c p y st))" "fin_keeps st (warn_if c p y st)" for b c x y
    by (rule fin_keeps_same[OF ok]; simp)+
  have if_w: "(if b then prop_warn p x st1 else st1) = warn_if b p x st1" for b x st1 by (simp add: warn_if_def)
  show ?thesis
  proof (cases "p_menu p = Some m \<or> p_type p \<noteq> P_PROMPT")
    case True
    then show ?thesis using w(2) by (auto simp: keeps_ok_def check_value_prop_def if_w)
  next
    case False
    then obtain b c where "p_menu p = Some b" "m_parent (ps_menus st b) = Some c" "p_type p = P_PROMPT"
      using p by (auto simp: prop_ok_def)
    with False show ?thesis using w(1) by (simp add: keeps_ok_def check_value_prop_def if_w Let_def)
  qed
qed

lemma need_choice_yes_ok: "fin_ok st \<Longrightarrow> ptr_ok m st ptr \<Longrightarrow> keeps_ok (need_choice_yes s m ptr) st"
proof -
  assume ok: "fin_ok st" and ptr: "ptr_ok m st ptr"
  obtain p where p: "read_prop st ptr = Some p" using read_ptr[OF ptr] by blast
  show ?thesis using fin_keeps_write[OF ok ptr p] fin_keeps_refl[OF ok] p by (simp add: keeps_ok_def need_choice_yes_def)
qed

lemma prop_ok_keeps: "prop_ok st p \<Longrightarrow> fin_keeps st st' \<Longrightarrow> prop_ok st' p"
  by (rule prop_ok_cong) (auto simp: fin_keeps_def same_links_def)

lemma add_to_choice_ok:
  "has_list ps \<Longrightarrow> \<exists>ps'. add_to_choice v ps = Some ps' \<and> has_list ps' \<and> length ps' = length ps \<and>
     (\<forall>q\<in>set ps'. q \<in> set ps \<or> p_type q = P_CHOICE)"
proof (induction ps)
  case (Cons p ps)
  then show ?case by (auto split: option.splits prop_expr.splits if_splits)
qed simp

lemma append_choice_value_ok: "fin_ok st \<Longrightarrow> sym_is_choice (tab_of st s) \<Longrightarrow> keeps_ok (append_choice_value s v) st"
proof -
  assume ok: "fin_ok st" and "sym_is_choice (tab_of st s)"
  then have "has_list (s_prop (tab_of st s))" by (simp add: fin_ok_def)
  from add_to_choice_ok[OF this, of v] obtain ps where ps: "add_to_choice v (s_prop (tab_of st s)) = Some ps" "has_list ps"
    "length ps = length (s_prop (tab_of st s))" "\<forall>q\<in>set ps. q \<in> set (s_prop (tab_of st s)) \<or> p_type q = P_CHOICE" by blast
  let ?st = "on_k (upd s (\<lambda>y. y\<lparr>s_prop := ps\<rparr>)) st"
  have "fin_ok ?st"
  proof (rule fin_okI[OF ok])
    fix s' q assume "q \<in> set (s_prop (tab_of ?st s'))"
    then have "q \<in> set (s_prop (tab_of st s')) \<or> p_type q = P_CHOICE" using ps(4) by (auto simp: tab_upd split: if_splits)
    then show "(\<exists>p\<in>set (s_prop (tab_of st s')). p_type q = p_type p \<and> (p_type p \<noteq> P_CHOICE \<longrightarrow> p_expr q = p_expr p) \<and> p_menu q = p_menu p) \<or>
      p_type q = P_CHOICE" by blast
  qed (auto simp: named_def tab_upd sym_is_choice_def has_flag_def ps(2) split: if_splits)
  then show ?thesis using ps by (auto simp: keeps_ok_def append_choice_value_def fin_keeps_def tab_upd named_def sym_is_choice_def has_flag_def)
qed

text \<open>The property that makes a symbol a value of a choice is added at the end of its list.\<close>

lemma add_choice_symbol_ok:
  assumes ok: "fin_ok st" and v: "m_sym (ps_menus st (ps_entry st)) = Some v"
  shows "keeps_ok (menu_add_symbol P_CHOICE s None) st"
proof -
  let ?q = "(new_prop P_CHOICE (ps_file st) (ps_lineno st))\<lparr>p_menu := Some (ps_entry st), p_expr := Some (PE_expr (expr_alloc_symbol s)),
    p_visible := \<lparr>ev_expr = None, ev_tri = tri_no\<rparr>\<rparr>"
  let ?st = "on_k (append_prop v ?q) st"
  have t: "p_type ?q = P_CHOICE" by (simp add: new_prop_def)
  have tab: "tab_of ?st a = (if a = v then (tab_of st v)\<lparr>s_prop := s_prop (tab_of st v) @ [?q]\<rparr> else tab_of st a)" for a
    by (simp add: append_prop_def tab_upd)
  have "fin_ok ?st"
  proof (rule fin_okI[OF ok])
    fix s' q assume "q \<in> set (s_prop (tab_of ?st s'))"
    then have "q \<in> set (s_prop (tab_of st s')) \<or> p_type q = P_CHOICE" using t by (auto simp: tab split: if_splits)
    then show "(\<exists>p\<in>set (s_prop (tab_of st s')). p_type q = p_type p \<and> (p_type p \<noteq> P_CHOICE \<longrightarrow> p_expr q = p_expr p) \<and> p_menu q = p_menu p) \<or>
      p_type q = P_CHOICE" by blast
  qed (auto simp: named_def tab sym_is_choice_def has_flag_def has_list_append split: if_splits)
  then have "fin_keeps st ?st" by (auto simp: fin_keeps_def tab named_def sym_is_choice_def has_flag_def)
  then show ?thesis using v
    by (simp add: keeps_ok_def menu_add_symbol_def menu_add_prop_def menu_check_dep_ptr_def Let_def prop_alloc_def)
qed

lemma keeps_okI: "f st = Some st' \<Longrightarrow> fin_keeps st st' \<Longrightarrow> keeps_ok f st"
  by (simp add: keeps_ok_def)

lemma keeps_okE: "keeps_ok f st \<Longrightarrow> (\<And>st'. f st = Some st' \<Longrightarrow> fin_keeps st st' \<Longrightarrow> thesis) \<Longrightarrow> thesis"
  by (auto simp: keeps_ok_def)

lemma props_ok: "fin_ok st \<Longrightarrow> p \<in> set (s_prop (tab_of st s)) \<Longrightarrow> prop_ok st p"
  by (auto simp: fin_ok_def)

lemma run_all_same:
  assumes "\<And>x st st'. f x st = Some st' \<Longrightarrow> g st' = g st" and "run_all f l st = Some st'"
  shows "g st' = g st"
  using assms(2)
proof (induction l arbitrary: st)
  case (Cons x l)
  then show ?case by (auto split: Option.bind_splits dest: assms(1))
qed simp

lemma check_value_prop_entry: "check_value_prop s m p st = Some st' \<Longrightarrow> ps_entry st' = ps_entry st"
  by (auto simp: check_value_prop_def Let_def prop_warn_def warn_def split: if_splits Option.bind_splits)

lemma write_prop_entry [simp]: "ps_entry (write_prop ptr p st) = ps_entry st"
  by (cases ptr) (simp_all add: on_k_def set_menu_def)

lemma need_choice_yes_entry: "need_choice_yes s m ptr st = Some st' \<Longrightarrow> ps_entry st' = ps_entry st"
  by (auto simp: need_choice_yes_def split: if_splits Option.bind_splits)

lemma finalize_value_ok:
  assumes ok: "fin_ok st" and v: "m_sym (ps_menus st m) = Some v" and s: "sym_is_choice (tab_of st s)"
  shows "keeps_ok (finalize_value s m v) st"
proof -
  define st1 where "st1 = on_k (upd v (set_flags SYMBOL_CHOICEVAL)) (st\<lparr>ps_entry := m\<rparr>)"
  define st2 where "st2 = (if m_prompt (ps_menus st1 m) = None then menu_warn m ''choice value must have a prompt'' st1 else st1)"
  have k1: "fin_keeps st st1" unfolding st1_def
    by (rule fin_keeps_trans[OF entry_keeps[OF ok]], rule fin_keeps_upd[OF fin_keeps_ok[OF entry_keeps[OF ok]]]) simp
  have k2: "fin_keeps st st2"
    by (rule fin_keeps_trans[OF k1], rule fin_keeps_same[OF fin_keeps_ok[OF k1]]) (simp_all add: st2_def)
  have "keeps_ok (run_all (check_value_prop s m) (s_prop (tab_of st2 v))) st2"
    by (rule keeps_run_all[where Q = prop_ok])
      (use fin_keeps_ok[OF k2] check_value_prop_ok prop_ok_keeps props_ok in auto)
  then obtain st3 where 3: "run_all (check_value_prop s m) (s_prop (tab_of st2 v)) st2 = Some st3" "fin_keeps st2 st3"
    by (rule keeps_okE)
  note k3 = fin_keeps_trans[OF k2 3(2)]
  let ?yes = "expr_alloc_comp E_EQUAL s symbol_yes"
  define st3' where "st3' = set_menu m (\<lambda>e. e\<lparr>m_dep := expr_alloc_and (Some ?yes) (m_dep e)\<rparr>) st3"
  have k3': "fin_keeps st3 st3'" unfolding st3'_def by (rule fin_keeps_menu[OF fin_keeps_ok[OF k3]]) simp
  have "keeps_ok (run_all (need_choice_yes s m) (menu_props st3 m)) st3'"
    by (rule keeps_run_all[where Q = "ptr_ok m"])
      (use fin_keeps_ok[OF k3'] need_choice_yes_ok ptr_ok_keeps[OF menu_props_ok[OF fin_keeps_ok[OF k3]] k3'] ptr_ok_keeps in auto)
  then obtain st3'' where y3: "run_all (need_choice_yes s m) (menu_props st3 m) st3' = Some st3''" "fin_keeps st3' st3''"
    by (rule keeps_okE)
  define st4 where "st4 = (if s_type (tab_of st3 s) = S_TRISTATE \<and> s_type (tab_of st3 v) \<noteq> S_TRISTATE then st3'' else st3)"
  have k4: "fin_keeps st st4"
    using fin_keeps_trans[OF k3 fin_keeps_trans[OF k3' y3(2)]] k3 by (simp add: st4_def)
  have e2: "ps_entry st2 = m" by (simp add: st2_def st1_def menu_warn_def warn_def on_k_def)
  have "ps_entry st3 = m" using run_all_same[where g = ps_entry, OF check_value_prop_entry 3(1)] e2 by simp
  moreover have "ps_entry st3'' = m" using run_all_same[where g = ps_entry, OF need_choice_yes_entry y3(1)] calculation by (simp add: st3'_def set_menu_def)
  ultimately have entry: "ps_entry st4 = m" by (simp add: st4_def)
  have sym4: "m_sym (ps_menus st4 m) = Some v" and ch4: "sym_is_choice (tab_of st4 s)"
    using k4 v s by (simp_all add: fin_keeps_def)
  have "keeps_ok (menu_add_symbol P_CHOICE s None) st4"
    by (rule add_choice_symbol_ok[OF fin_keeps_ok[OF k4]]) (simp add: entry sym4)
  then obtain st5 where 5: "menu_add_symbol P_CHOICE s None st4 = Some st5" "fin_keeps st4 st5" by (rule keeps_okE)
  note k5 = fin_keeps_trans[OF k4 5(2)]
  have "keeps_ok (append_choice_value s v) st5"
    by (rule append_choice_value_ok[OF fin_keeps_ok[OF k5]]) (use k5 s in \<open>simp add: fin_keeps_def\<close>)
  then obtain st6 where 6: "append_choice_value s v st5 = Some st6" "fin_keeps st5 st6" by (rule keeps_okE)
  have 4: "(if s_type (tab_of st3 s) = S_TRISTATE \<and> s_type (tab_of st3 v) \<noteq> S_TRISTATE
      then run_all (need_choice_yes s m) (menu_props st3 m) st3' else Some st3) = Some st4"
    by (simp add: st4_def y3(1))
  have "finalize_value s m v st = Some st6"
    unfolding finalize_value_def Let_def st1_def[symmetric] st2_def[symmetric] 3(1) bind.simps st3'_def[symmetric] 4 5(1)
    by (rule 6(1))
  then show ?thesis using fin_keeps_trans[OF k5 6(2)] by (rule keeps_okI)
qed

section \<open>The checks\<close>

lemma validate_named: "named st s2 \<Longrightarrow> \<exists>b. menu_validate_number (tab_of st) s s2 = Some b"
  by (auto simp: menu_validate_number_def named_def Let_def)

lemma warn_if_keeps: "fin_ok st \<Longrightarrow> fin_keeps st (warn_if b p x st)"
  by (rule fin_keeps_same) simp_all

lemma check_default_ok:
  assumes ok: "fin_ok st" and p: "prop_ok st p" "p_type p = P_DEFAULT"
  shows "keeps_ok (check_default s p) st"
proof -
  have w: "fin_keeps st (warn_if b q x st)" "fin_keeps st (warn_if b q x (warn_if c q y st))" for b c q x y
    by (rule fin_keeps_same[OF ok]; simp)+
  obtain e where e: "p_expr p = Some e" using p by (auto simp: prop_ok_def)
  show ?thesis
  proof (cases "prop_get_symbol p")
    case None
    then show ?thesis using e w(1) by (simp add: keeps_ok_def check_default_def Let_def)
  next
    case (Some s2)
    then have "named st s2" using p by (simp add: prop_ok_def)
    then obtain b where "menu_validate_number (tab_of st) s s2 = Some b" using validate_named by blast
    then show ?thesis using e Some w by (simp add: keeps_ok_def check_default_def Let_def)
  qed
qed

lemma check_select_ok:
  assumes ok: "fin_ok st" and p: "prop_ok st p" "p_type p = P_SELECT"
  shows "keeps_ok (check_select s p) st"
proof -
  have w: "fin_keeps st (warn_if b q x st)" "fin_keeps st (prop_warn q x st)" for b q x
    by (rule fin_keeps_same[OF ok]; simp)+
  obtain s2 where "prop_get_symbol p = Some s2" using p by (auto simp: prop_ok_def)
  then show ?thesis using w by (simp add: keeps_ok_def check_select_def Let_def)
qed

lemma check_range_ok:
  assumes ok: "fin_ok st" and p: "prop_ok st p" "p_type p = P_RANGE"
  shows "keeps_ok (check_range s p) st"
proof -
  have w: "fin_keeps st (warn_if b q x (warn_if c q y st))" for b c q x y
    by (rule fin_keeps_same[OF ok]; simp)
  obtain a b where e: "p_expr p = Some (PE_range a b)" "named st a" "named st b" using p by (auto simp: prop_ok_def)
  obtain x y where "menu_validate_number (tab_of st) s a = Some x" "menu_validate_number (tab_of st) s b = Some y"
    using validate_named e by blast
  then show ?thesis using e(1) w by (cases x) (simp_all add: keeps_ok_def check_range_def Let_def)
qed

lemma check_prop_ok: "fin_ok st \<Longrightarrow> prop_ok st p \<Longrightarrow> keeps_ok (check_prop s p) st"
  by (cases "p_type p")
    (simp_all add: check_default_ok check_select_ok check_range_ok check_prop_def[abs_def] keeps_ok_def[of "\<lambda>st. Some st"]
      fin_keeps_refl)

lemma check_symbol_ok: "fin_ok st \<Longrightarrow> keeps_ok (check_symbol a s) st"
proof -
  assume ok: "fin_ok st"
  define st1 where "st1 = (if s_type (tab_of st s) = S_UNKNOWN then menu_warn a ''config symbol defined without type'' st else st)"
  define st2 where "st2 = (if sym_is_choice (tab_of st1 s) \<and> m_prompt (ps_menus st1 a) = None
    then menu_warn a ''choice must have a prompt'' st1 else st1)"
  have k2: "fin_keeps st st2" by (rule fin_keeps_same[OF ok]) (simp_all add: st2_def st1_def)
  have "keeps_ok (run_all (check_prop s) (s_prop (tab_of st2 s))) st2"
    by (rule keeps_run_all[where Q = prop_ok])
      (use fin_keeps_ok[OF k2] check_prop_ok prop_ok_keeps props_ok in auto)
  then obtain st3 where 3: "sym_check_prop s st2 = Some st3" "fin_keeps st2 st3"
    unfolding sym_check_prop_def by (rule keeps_okE)
  have "fin_keeps st3 (on_k (upd s (set_flags SYMBOL_WARNED)) st3)" by (rule fin_keeps_upd[OF fin_keeps_ok[OF 3(2)]]) simp
  then have "fin_keeps st (on_k (upd s (set_flags SYMBOL_WARNED)) st3)" using k2 3(2) fin_keeps_trans by blast
  then show ?thesis using fin_keeps_refl[OF ok] 3(1)
    by (simp add: keeps_ok_def check_symbol_def Let_def st1_def[symmetric] st2_def[symmetric])
qed

lemma not_optional_keeps: "fin_ok st \<Longrightarrow> fin_keeps st (not_optional a s st)"
  by (simp add: not_optional_def add_rev_dep_def fin_keeps_refl fin_keeps_upd sym_is_choice_def has_flag_def split: option.split)

lemma finish_entry_ok: "fin_ok st \<Longrightarrow> keeps_ok (finish_entry a) st"
proof -
  assume ok: "fin_ok st"
  show ?thesis
  proof (cases "m_sym (ps_menus st a)")
    case (Some s)
    obtain st1 where "check_symbol a s st = Some st1" "fin_keeps st st1" using check_symbol_ok[OF ok] by (rule keeps_okE)
    then show ?thesis using Some fin_keeps_trans[OF _ not_optional_keeps[OF fin_keeps_ok]]
      by (auto simp: keeps_ok_def finish_entry_def)
  qed (simp add: keeps_ok_def finish_entry_def fin_keeps_refl[OF ok])
qed

end
