(* ===== verification/Kc_Finalize_Tree.thy ===== *)
theory Kc_Finalize_Tree
  imports Kc_Finalize_Inv
begin

text \<open>
  \<open>menu_finalize\<close> rearranges the tree of menus: it returns, and every entry is in the tree afterwards
  once and in the order of the files.
\<close>

section \<open>Loops over a list of entries\<close>

fun root :: "mtree \<Rightarrow> nat" where "root (MNode a cs) = a"

lemma length_roots: "length ts \<le> length (preorder ts)"
  by (induction ts rule: preorder.induct) auto

lemma each_next_ok:
  assumes "menu_seg (ps_menus st) p h ts None" and "length ts < n" and "fin_ok st"
    and "\<And>a st'. a \<in> root ` set ts \<Longrightarrow> fin_keeps st st' \<Longrightarrow> keeps_ok (f a) st'"
  shows "keeps_ok (each_next n f h) st"
  using assms
proof (induction ts arbitrary: n h st)
  case Nil
  then show ?case by (cases n) (auto simp: keeps_ok_def fin_keeps_refl)
next
  case (Cons t ts)
  obtain a cs where t: "t = MNode a cs" by (cases t)
  obtain k where n: "n = Suc k" using Cons.prems(2) by (cases n) auto
  have h: "h = Some a" and seg: "menu_seg (ps_menus st) p (m_next (ps_menus st a)) ts None" using Cons.prems(1) t by auto
  have "keeps_ok (f a) st" by (rule Cons.prems(4)) (use t fin_keeps_refl[OF Cons.prems(3)] in auto)
  then obtain st1 where 1: "f a st = Some st1" "fin_keeps st st1" by (rule keeps_okE)
  have l: "same_links (ps_menus st) (ps_menus st1)" using 1(2) by (simp add: fin_keeps_def)
  have "keeps_ok (each_next k f (m_next (ps_menus st1 a))) st1"
  proof (rule Cons.IH)
    show "menu_seg (ps_menus st1) p (m_next (ps_menus st1 a)) ts None"
      using menu_seg_links[OF seg l] l by (simp add: same_links_def)
    show "keeps_ok (f b) st'" if "b \<in> root ` set ts" "fin_keeps st1 st'" for b st'
      by (rule Cons.prems(4)) (use that fin_keeps_trans[OF 1(2)] in auto)
  qed (use n Cons.prems(2) fin_keeps_ok[OF 1(2)] in auto)
  then show ?case using h n 1 fin_keeps_trans[OF 1(2)] by (auto simp: keeps_ok_def)
qed

lemma set_choice_type_ok:
  assumes "menu_seg (ps_menus st) p h ts None" and "length ts < n" and "fin_ok st" and "m_sym (ps_menus st (ps_entry st)) \<noteq> None"
  shows "keeps_ok (set_choice_type n h) st"
  using assms
proof (induction ts arbitrary: n h)
  case Nil
  then show ?case by (cases n) (auto simp: keeps_ok_def fin_keeps_refl)
next
  case (Cons t ts)
  obtain a cs where t: "t = MNode a cs" by (cases t)
  obtain k where n: "n = Suc k" using Cons.prems(2) by (cases n) auto
  have h: "h = Some a" and seg: "menu_seg (ps_menus st) p (m_next (ps_menus st a)) ts None" using Cons.prems(1) t by auto
  have 1: "keeps_ok (set_choice_type k (m_next (ps_menus st a))) st"
    by (rule Cons.IH[OF seg]) (use Cons.prems n in auto)
  have 2: "keeps_ok (menu_set_type t) st" for t by (rule menu_set_type_ok[OF Cons.prems(3,4)])
  show ?case using 1 2 by (auto simp: keeps_ok_def n h split: option.split)
qed

lemma set_choice_types_ok:
  assumes seg: "menu_seg (ps_menus st) (Some a) (m_list (ps_menus st a)) cs None" and n: "length cs < n" and ok: "fin_ok st"
    and s: "m_sym (ps_menus st a) = Some s"
  shows "keeps_ok (set_choice_types n a s) st"
proof -
  let ?st = "st\<lparr>ps_entry := a\<rparr>"
  have "keeps_ok (set_choice_type n (m_list (ps_menus st a))) ?st"
    by (rule set_choice_type_ok[OF _ n fin_keeps_ok[OF entry_keeps[OF ok]]]) (use seg s in auto)
  then obtain st' where st': "set_choice_type n (m_list (ps_menus st a)) ?st = Some st'" "fin_keeps ?st st'" by (rule keeps_okE)
  define st1 where "st1 = (if s_type (tab_of st s) = S_UNKNOWN then st' else st)"
  have 1: "fin_keeps st st1" using fin_keeps_trans[OF entry_keeps[OF ok] st'(2)] fin_keeps_refl[OF ok] by (simp add: st1_def)
  have l: "same_links (ps_menus st) (ps_menus st1)" using 1 by (simp add: fin_keeps_def)
  have "keeps_ok (each_next n (set_value_type s) (m_list (ps_menus st1 a))) st1"
    by (rule each_next_ok[OF _ n fin_keeps_ok[OF 1]])
      (use menu_seg_links[OF seg l] l set_value_type_ok fin_keeps_ok in \<open>auto simp: same_links_def\<close>)
  then obtain st2 where 2: "each_next n (set_value_type s) (m_list (ps_menus st1 a)) st1 = Some st2" "fin_keeps st1 st2"
    by (rule keeps_okE)
  have "(if s_type (tab_of st s) = S_UNKNOWN then set_choice_type n (m_list (ps_menus st a)) ?st else Some st) = Some st1"
    by (simp add: st1_def st'(1))
  then have "set_choice_types n a s st = Some st2" by (simp add: set_choice_types_def 2(1))
  then show ?thesis using fin_keeps_trans[OF 1 2(2)] by (rule keeps_okI)
qed

lemma parent_dep_ok:
  assumes "menu_seg (ps_menus st) (Some a) (m_list (ps_menus st a)) cs None" and "length cs < n" and "fin_ok st"
  obtains d st1 where "parent_dep n a st = Some (d, st1)" and "fin_keeps st st1"
proof -
  note r = fin_keeps_refl[OF assms(3)]
  consider (no) "m_sym (ps_menus st a) = None" | (plain) s where "m_sym (ps_menus st a) = Some s" "\<not> sym_is_choice (tab_of st s)"
    | (choice) s where "m_sym (ps_menus st a) = Some s" "sym_is_choice (tab_of st s)" by (cases "m_sym (ps_menus st a)") auto
  then show thesis
  proof cases
    case choice
    obtain st1 where "set_choice_types n a s st = Some st1" "fin_keeps st st1"
      using set_choice_types_ok[OF assms choice(1)] by (rule keeps_okE)
    then show ?thesis using choice that by (simp add: parent_dep_def Let_def)
  qed (use r that in \<open>simp_all add: parent_dep_def Let_def\<close>)
qed

section \<open>Steps that change links\<close>

text \<open>Only links of the entries in \<open>S\<close> change.\<close>

definition moves :: "nat set \<Rightarrow> pstate \<Rightarrow> pstate \<Rightarrow> bool" where
  "moves S st st' \<longleftrightarrow> fin_ok st' \<and> (\<forall>b. m_sym (ps_menus st' b) = m_sym (ps_menus st b)) \<and>
     (\<forall>b. b \<notin> S \<longrightarrow> m_next (ps_menus st' b) = m_next (ps_menus st b) \<and> m_parent (ps_menus st' b) = m_parent (ps_menus st b) \<and>
        m_list (ps_menus st' b) = m_list (ps_menus st b))"

lemma moves_ok: "moves S st st' \<Longrightarrow> fin_ok st'" by (simp add: moves_def)

lemma moves_keeps: "fin_keeps st st' \<Longrightarrow> moves S st st'"
  by (simp add: moves_def fin_keeps_def same_links_def)

lemma moves_refl: "fin_ok st \<Longrightarrow> moves S st st" by (simp add: moves_def)

lemma moves_trans: "moves S a b \<Longrightarrow> moves S b c \<Longrightarrow> moves S a c"
  by (simp add: moves_def)

lemma moves_mono: "moves S a b \<Longrightarrow> S \<subseteq> U \<Longrightarrow> moves U a b"
  unfolding moves_def by blast

text \<open>A segment of other entries stays.\<close>

lemma seg_moves: "menu_seg (ps_menus st) p h ts z \<Longrightarrow> moves S st st' \<Longrightarrow> S \<inter> set (preorder ts) = {} \<Longrightarrow> menu_seg (ps_menus st') p h ts z"
  by (erule menu_seg_cong) (auto simp: moves_def)

lemma seg_keeps: "menu_seg (ps_menus st) p h ts z \<Longrightarrow> fin_keeps st st' \<Longrightarrow> menu_seg (ps_menus st') p h ts z"
  by (erule menu_seg_links) (simp add: fin_keeps_def)

lemma moves_set:
  assumes ok: "fin_ok st" and a: "a \<in> S"
    and f: "\<And>m. m_sym (f m) = m_sym m \<and> m_prompt (f m) = m_prompt m \<and> (m_parent m \<noteq> None \<longrightarrow> m_parent (f m) \<noteq> None)"
  shows "moves S st (set_menu a f st)"
proof -
  have e: "entry_fine (f m) = entry_fine m" for m
    using f[of m] by (simp add: entry_fine_def split: option.split prompt.split)
  have "fin_ok (set_menu a f st)"
    by (rule fin_okI[OF ok]) (use f in \<open>auto simp: menus_set named_def e\<close>)
  then show ?thesis using a f by (auto simp: moves_def menus_set)
qed

text \<open>The entry after a list is the link of its last entry.\<close>

lemma seg_last:
  assumes "menu_seg (ps_menus st) p h ts z" and "ts \<noteq> []" and "distinct (preorder ts)"
  shows "menu_seg (ps_menus (set_menu (root (last ts)) (\<lambda>m. m\<lparr>m_next := y\<rparr>) st)) p h ts y"
  using assms
proof (induction ts arbitrary: h)
  case (Cons t ts)
  obtain a cs where t: "t = MNode a cs" by (cases t)
  define l where "l = root (last (t # ts))"
  define ms where "ms = ps_menus (set_menu l (\<lambda>m. m\<lparr>m_next := y\<rparr>) st)"
  have links: "m_next (ms b) = (if b = l then y else m_next (ps_menus st b))" "m_parent (ms b) = m_parent (ps_menus st b)"
    "m_list (ms b) = m_list (ps_menus st b)" for b by (simp_all add: ms_def menus_set)
  have own: "menu_seg ms (Some a) (m_list (ps_menus st a)) cs None" if "l \<notin> set (preorder cs)"
    by (rule menu_seg_cong[where ms = "ps_menus st"]) (use Cons.prems(1) t that in \<open>auto simp: links\<close>)
  have "menu_seg ms p h (t # ts) y"
  proof (cases "ts = []")
    case True
    then show ?thesis using Cons.prems t own by (simp add: links l_def)
  next
    case False
    obtain b ds where b: "last ts = MNode b ds" by (cases "last ts")
    have "b \<in> set (preorder ts)" using False b
      by (metis append_butlast_last_id list.set_intros(1) preorder.simps(2) preorder_append Un_iff set_append)
    then have d: "l \<notin> set (preorder cs)" "l \<noteq> a" using Cons.prems(3) t b False by (auto simp: l_def)
    have "menu_seg ms p (m_next (ps_menus st a)) ts y"
      using Cons.IH[of "m_next (ps_menus st a)"] Cons.prems False t by (simp add: l_def ms_def)
    then show ?thesis using Cons.prems(1) t own[OF d(1)] d(2) by (simp add: links)
  qed
  then show ?case by (simp add: ms_def l_def)
qed simp

lemma root_in: "ts \<noteq> [] \<Longrightarrow> root (last ts) \<in> set (preorder ts)"
proof (induction ts rule: preorder.induct)
  case (2 a cs ts)
  then show ?case by (cases "ts = []") auto
qed simp

text \<open>The parent of a list changes to that of the entry above.\<close>

lemma reparent_ok:
  assumes "menu_seg (ps_menus st) p (Some c) ts None" and "ts \<noteq> []" and "distinct (preorder ts)" and "length ts \<le> n" and "fin_ok st"
  shows "\<exists>st'. reparent n a c st = Some (root (last ts), st') \<and> menu_seg (ps_menus st') (Some a) (Some c) ts None \<and>
    moves (set (preorder ts)) st st'"
  using assms
proof (induction ts arbitrary: n c st)
  case (Cons t ts)
  obtain cs where t: "t = MNode c cs" using Cons.prems(1) by (cases t) auto
  obtain k where n: "n = Suc k" using Cons.prems(4) by (cases n) auto
  define st1 where "st1 = set_menu c (\<lambda>m. m\<lparr>m_parent := Some a\<rparr>) st"
  have m1: "moves {c} st st1" unfolding st1_def by (rule moves_set[OF Cons.prems(5)]) auto
  have d: "c \<notin> set (preorder cs)" "c \<notin> set (preorder ts)" "distinct (preorder ts)" "set (preorder cs) \<inter> set (preorder ts) = {}"
    using Cons.prems(3) t by auto
  have l1: "m_next (ps_menus st1 c) = m_next (ps_menus st c)" "m_list (ps_menus st1 c) = m_list (ps_menus st c)"
    "m_parent (ps_menus st1 c) = Some a" by (simp_all add: st1_def menus_set)
  have s1: "menu_seg (ps_menus st1) p (m_next (ps_menus st c)) ts None"
    "menu_seg (ps_menus st1) (Some c) (m_list (ps_menus st c)) cs None"
    using Cons.prems(1) t d seg_moves[OF _ m1] by auto
  show ?case
  proof (cases "m_next (ps_menus st c)")
    case None
    then have "ts = []" using s1(1) by (cases ts rule: preorder.cases) auto
    then show ?thesis using None n t s1 l1 moves_mono[OF m1] by (auto simp: st1_def[symmetric] Let_def)
  next
    case (Some e)
    then have "ts \<noteq> []" using s1(1) by auto
    obtain st2 where 2: "reparent k a e st1 = Some (root (last ts), st2)" "menu_seg (ps_menus st2) (Some a) (Some e) ts None"
      "moves (set (preorder ts)) st1 st2"
      using Cons.IH[OF s1(1)[unfolded Some] \<open>ts \<noteq> []\<close> d(3) _ moves_ok[OF m1]] n Cons.prems(4) by auto
    have l2: "m_next (ps_menus st2 c) = Some e" "m_list (ps_menus st2 c) = m_list (ps_menus st c)" "m_parent (ps_menus st2 c) = Some a"
      using 2(3) d(2) l1 Some by (simp_all add: moves_def)
    have "menu_seg (ps_menus st2) (Some c) (m_list (ps_menus st c)) cs None"
      by (rule seg_moves[OF s1(2) 2(3)]) (use d in auto)
    then have "menu_seg (ps_menus st2) (Some a) (Some c) (t # ts) None" using t l2 2(2) by simp
    moreover have "moves (set (preorder (t # ts))) st st2"
      by (rule moves_trans[OF moves_mono[OF m1] moves_mono[OF 2(3)]]) (use t in auto)
    moreover have "reparent n a c st = Some (root (last (t # ts)), st2)"
      using n 2(1) l1(1) Some \<open>ts \<noteq> []\<close> by (simp add: st1_def[symmetric] Let_def)
    ultimately show ?thesis by blast
  qed
qed simp

section \<open>The entries below an entry without a prompt move up\<close>

text \<open>What \<open>flatten\<close> leaves: the entry as it is, or in front of its children.\<close>

lemma flatten_ok:
  assumes seg: "menu_seg (ps_menus st) (Some a) (Some m) (MNode m cs # rs) None"
    and d: "distinct (preorder (MNode m cs # rs))" and n: "length (preorder cs) \<le> n" and ok: "fin_ok st"
  shows "\<exists>st' cs' rs'. flatten n a m st = Some st' \<and>
    menu_seg (ps_menus st') (Some a) (Some m) (MNode m cs' # rs') None \<and>
    preorder (MNode m cs' # rs') = preorder (MNode m cs # rs) \<and>
    length (preorder rs') \<le> length (preorder cs @ preorder rs) \<and>
    moves (set (preorder (MNode m cs # rs))) st st'"
proof (cases "m_list (ps_menus st m) = None \<or> \<not> no_text st m")
  case True
  then have "flatten n a m st = Some st" by (auto simp: flatten_def split: option.split)
  then show ?thesis using seg moves_refl[OF ok] by fastforce
next
  case False
  then obtain c where c: "m_list (ps_menus st m) = Some c" "no_text st m" by auto
  have cs: "menu_seg (ps_menus st) (Some m) (Some c) cs None" "cs \<noteq> []" using seg c by auto
  have dc: "distinct (preorder cs)" "m \<notin> set (preorder cs)" "m \<notin> set (preorder rs)" "set (preorder cs) \<inter> set (preorder rs) = {}"
    "distinct (preorder rs)" using d by auto
  obtain st1 where 1: "reparent n a c st = Some (root (last cs), st1)" "menu_seg (ps_menus st1) (Some a) (Some c) cs None"
    "moves (set (preorder cs)) st st1"
    using reparent_ok[OF cs dc(1) le_trans[OF length_roots n] ok] by blast
  define l where "l = root (last cs)"
  have l: "l \<in> set (preorder cs)" using root_in[OF cs(2)] by (simp add: l_def)
  define y where "y = m_next (ps_menus st m)"
  define st2 where "st2 = set_menu l (\<lambda>e. e\<lparr>m_next := m_next (ps_menus st1 m)\<rparr>) st1"
  define st3 where "st3 = set_menu m (\<lambda>e. e\<lparr>m_next := m_list e\<rparr>) st2"
  define st4 where "st4 = set_menu m (\<lambda>e. e\<lparr>m_list := None\<rparr>) st3"
  have y1: "m_next (ps_menus st1 m) = y" using 1(3) dc(2) by (simp add: moves_def y_def)
  have m2: "moves (set (preorder cs)) st1 st2" unfolding st2_def by (rule moves_set[OF moves_ok[OF 1(3)] l]) simp
  have m3: "moves {m} st2 st3" unfolding st3_def by (rule moves_set[OF moves_ok[OF m2]]) simp_all
  have m4: "moves {m} st3 st4" unfolding st4_def by (rule moves_set[OF moves_ok[OF m3]]) simp_all
  have m34: "moves {m} st2 st4" by (rule moves_trans[OF m3 m4])
  have m12: "moves (set (preorder cs)) st st2" by (rule moves_trans[OF 1(3) m2])
  have s2: "menu_seg (ps_menus st2) (Some a) (Some c) cs y"
    using seg_last[OF 1(2) cs(2) dc(1), of y] by (simp add: st2_def l_def y1)
  have s4: "menu_seg (ps_menus st4) (Some a) (Some c) cs y" by (rule seg_moves[OF s2 m34]) (use dc in auto)
  have r2: "menu_seg (ps_menus st2) (Some a) y rs None" by (rule seg_moves[OF _ m12]) (use seg dc y_def in auto)
  have r4: "menu_seg (ps_menus st4) (Some a) y rs None" by (rule seg_moves[OF r2 m34]) (use dc in auto)
  have lm: "m_list (ps_menus st2 m) = Some c" "m_parent (ps_menus st2 m) = Some a"
    using m12 dc(2) c seg by (simp_all add: moves_def)
  have "m_next (ps_menus st4 m) = Some c" "m_list (ps_menus st4 m) = None" "m_parent (ps_menus st4 m) = Some a"
    using lm by (simp_all add: st4_def st3_def menus_set)
  then have "menu_seg (ps_menus st4) (Some a) (Some m) (MNode m [] # cs @ rs) None"
    using s4 r4 by (auto simp: menu_seg_append)
  moreover have "flatten n a m st = Some st4"
    using c 1(1) by (simp add: flatten_def l_def[symmetric] st2_def[symmetric] st3_def[symmetric] st4_def[symmetric] Let_def)
  moreover have "moves (set (preorder (MNode m cs # rs))) st st4"
    by (rule moves_trans[OF moves_mono[OF m12] moves_mono[OF m34]]) auto
  ultimately show ?thesis by fastforce
qed

lemma finalize_child_ok:
  assumes seg: "menu_seg (ps_menus st) (Some a) (Some m) (MNode m cs # rs) None"
    and d: "distinct (preorder (MNode m cs # rs))" and n: "length (preorder cs) \<le> n" and ok: "fin_ok st"
  shows "\<exists>st' cs' rs'. finalize_child n a so m st = Some st' \<and>
    menu_seg (ps_menus st') (Some a) (Some m) (MNode m cs' # rs') None \<and>
    preorder (MNode m cs' # rs') = preorder (MNode m cs # rs) \<and>
    length (preorder rs') \<le> length (preorder cs @ preorder rs) \<and>
    moves (set (preorder (MNode m cs # rs))) st st'"
proof -
  have "keeps_ok (\<lambda>st. case (so, m_sym (ps_menus st m)) of
               (Some s, Some v) \<Rightarrow>
                 if sym_is_choice (tab_of st s) \<and> \<not> sym_is_choice_value (tab_of st v) then finalize_value s m v st else Some st
             | _ \<Rightarrow> Some st) st"
    using finalize_value_ok[OF ok] fin_keeps_refl[OF ok] by (auto simp: keeps_ok_def split: option.split)
  then obtain st1 where 1: "(case (so, m_sym (ps_menus st m)) of
               (Some s, Some v) \<Rightarrow>
                 if sym_is_choice (tab_of st s) \<and> \<not> sym_is_choice_value (tab_of st v) then finalize_value s m v st else Some st
             | _ \<Rightarrow> Some st) = Some st1" "fin_keeps st st1" by (rule keeps_okE)
  obtain st' cs' rs' where 2: "flatten n a m st1 = Some st'"
    "menu_seg (ps_menus st') (Some a) (Some m) (MNode m cs' # rs') None"
    "preorder (MNode m cs' # rs') = preorder (MNode m cs # rs)"
    "length (preorder rs') \<le> length (preorder cs @ preorder rs)"
    "moves (set (preorder (MNode m cs # rs))) st1 st'"
    using flatten_ok[OF seg_keeps[OF seg 1(2)] d n fin_keeps_ok[OF 1(2)]] by blast
  have "finalize_child n a so m st = Some st'" unfolding finalize_child_def 1(1) by (simp add: 2(1))
  then show ?thesis using 2 moves_trans[OF moves_keeps[OF 1(2)] 2(5)] by blast
qed

lemma finalize_children_ok:
  assumes "menu_seg (ps_menus st) (Some a) h ts None" and "distinct (preorder ts)" and "length (preorder ts) < k"
    and "length (preorder ts) \<le> n" and "fin_ok st"
  shows "\<exists>st' ts'. each_next k (finalize_child n a so) h st = Some st' \<and> menu_seg (ps_menus st') (Some a) h ts' None \<and>
    preorder ts' = preorder ts \<and> moves (set (preorder ts)) st st'"
  using assms
proof (induction k arbitrary: h ts st)
  case (Suc k)
  show ?case
  proof (cases ts)
    case Nil
    then show ?thesis using Suc.prems moves_refl[OF Suc.prems(5)] by (intro exI[of _ st] exI[of _ "[]"]) simp
  next
    case (Cons t rs)
    obtain m cs where t: "t = MNode m cs" by (cases t)
    have h: "h = Some m" using Suc.prems(1) Cons t by simp
    have n: "length (preorder cs) \<le> n" using Suc.prems(4) Cons t by simp
    obtain st1 cs1 rs1 where 1: "finalize_child n a so m st = Some st1"
      "menu_seg (ps_menus st1) (Some a) (Some m) (MNode m cs1 # rs1) None"
      "preorder (MNode m cs1 # rs1) = preorder (MNode m cs # rs)"
      "length (preorder rs1) \<le> length (preorder cs @ preorder rs)" "moves (set (preorder (MNode m cs # rs))) st st1"
      using finalize_child_ok[OF _ _ n Suc.prems(5), of a m rs so] Suc.prems(1,2) Cons t h by auto
    have d1: "distinct (preorder (MNode m cs1 # rs1))" using Suc.prems(2) Cons t unfolding 1(3) by simp
    have "\<exists>st' ts'. each_next k (finalize_child n a so) (m_next (ps_menus st1 m)) st1 = Some st' \<and>
        menu_seg (ps_menus st') (Some a) (m_next (ps_menus st1 m)) ts' None \<and> preorder ts' = preorder rs1 \<and>
        moves (set (preorder rs1)) st1 st'"
      by (rule Suc.IH) (use 1(2,4) d1 moves_ok[OF 1(5)] Suc.prems(3,4) Cons t in auto)
    then obtain st2 rs2 where 2: "each_next k (finalize_child n a so) (m_next (ps_menus st1 m)) st1 = Some st2"
      "menu_seg (ps_menus st2) (Some a) (m_next (ps_menus st1 m)) rs2 None" "preorder rs2 = preorder rs1"
      "moves (set (preorder rs1)) st1 st2" by blast
    have l2: "m_next (ps_menus st2 m) = m_next (ps_menus st1 m)" "m_list (ps_menus st2 m) = m_list (ps_menus st1 m)"
      "m_parent (ps_menus st2 m) = Some a" using 2(4) d1 1(2) by (simp_all add: moves_def)
    have "menu_seg (ps_menus st2) (Some m) (m_list (ps_menus st1 m)) cs1 None"
      by (rule seg_moves[OF _ 2(4)]) (use 1(2) d1 in auto)
    then have "menu_seg (ps_menus st2) (Some a) h (MNode m cs1 # rs2) None" using l2 2(2) h by simp
    moreover have "preorder (MNode m cs1 # rs2) = preorder ts" using 1(3) 2(3) Cons t by simp
    moreover have "moves (set (preorder ts)) st st2"
    proof (rule moves_trans)
      show "moves (set (preorder ts)) st st1" using 1(5) Cons t by simp
      have "set (preorder rs1) \<subseteq> set (preorder (MNode m cs # rs))" unfolding 1(3)[symmetric] by auto
      then show "moves (set (preorder ts)) st1 st2" using 2(4) Cons t moves_mono by blast
    qed
    moreover have "each_next (Suc k) (finalize_child n a so) h st = Some st2" using 1(1) 2(1) h by simp
    ultimately show ?thesis by blast
  qed
qed simp

section \<open>Entries that follow\<close>

lemma adopt_ok:
  assumes a: "m_next (ps_menus st a) = h" "m_parent (ps_menus st a) = p"
    and ds: "menu_seg (ps_menus st) (Some a) h ds z" "ds \<noteq> []" and rs: "menu_seg (ps_menus st) p z rs None"
    and d: "distinct (a # preorder ds @ preorder rs)" and ok: "fin_ok st"
  shows "menu_seg (ps_menus (adopt a (root (last ds)) st)) p (Some a) (MNode a ds # rs) None \<and>
    moves (set (a # preorder ds @ preorder rs)) st (adopt a (root (last ds)) st)"
proof -
  define l where "l = root (last ds)"
  have l: "l \<in> set (preorder ds)" using root_in[OF ds(2)] by (simp add: l_def)
  define st1 where "st1 = set_menu a (\<lambda>m. m\<lparr>m_list := m_next m\<rparr>) st"
  define st2 where "st2 = set_menu a (\<lambda>m. m\<lparr>m_next := m_next (ps_menus st1 l)\<rparr>) st1"
  define st3 where "st3 = set_menu l (\<lambda>m. m\<lparr>m_next := None\<rparr>) st2"
  have e: "adopt a l st = st3" by (simp add: adopt_def st1_def st2_def st3_def Let_def)
  have m1: "moves {a} st st1" unfolding st1_def by (rule moves_set[OF ok]) simp_all
  have m2: "moves {a} st1 st2" unfolding st2_def by (rule moves_set[OF moves_ok[OF m1]]) simp_all
  have m12: "moves {a} st st2" by (rule moves_trans[OF m1 m2])
  have m3: "moves (set (preorder ds)) st2 st3" unfolding st3_def by (rule moves_set[OF moves_ok[OF m2] l]) simp
  have nl: "m_next (ps_menus st l) = z"
    using ds(1,2) unfolding l_def
  proof (induction ds arbitrary: h)
    case (Cons t ts)
    then show ?case by (cases t; cases "ts = []") auto
  qed simp
  have nl1: "m_next (ps_menus st1 l) = z" using nl m1 l d by (auto simp: moves_def)
  have s2: "menu_seg (ps_menus st2) (Some a) h ds z" by (rule seg_moves[OF ds(1) m12]) (use d in auto)
  have s3: "menu_seg (ps_menus st3) (Some a) h ds None"
    using seg_last[OF s2 ds(2), of None] d by (simp add: st3_def l_def)
  have r2: "menu_seg (ps_menus st2) p z rs None" by (rule seg_moves[OF rs m12]) (use d in auto)
  have r3: "menu_seg (ps_menus st3) p z rs None" by (rule seg_moves[OF r2 m3]) (use d in auto)
  have "l \<noteq> a" using l d by auto
  then have "m_list (ps_menus st3 a) = h" "m_next (ps_menus st3 a) = z" "m_parent (ps_menus st3 a) = p"
    using a nl1 by (auto simp: st3_def st2_def st1_def menus_set)
  then have "menu_seg (ps_menus st3) p (Some a) (MNode a ds # rs) None" using s3 r3 by simp
  moreover have "moves (set (a # preorder ds @ preorder rs)) st st3"
    by (rule moves_trans[OF moves_mono[OF m12] moves_mono[OF m3]]) auto
  ultimately show ?thesis using e by (simp add: l_def)
qed

lemma add_dir_dep_keeps: "fin_ok st \<Longrightarrow> fin_keeps st (add_dir_dep s e st)"
  unfolding add_dir_dep_def by (rule fin_keeps_upd) (simp_all add: sym_is_choice_def has_flag_def)

section \<open>The recursion\<close>

text \<open>
  The three functions on a segment: an entry with those that follow it, a list, and the entries after one
  that may become its children, \<open>ds\<close>.
\<close>

definition finalizes :: "nat \<Rightarrow> bool" where
  "finalizes n \<longleftrightarrow> (\<forall>st p a cs rs. menu_seg (ps_menus st) p (Some a) (MNode a cs # rs) None \<longrightarrow>
     distinct (preorder (MNode a cs # rs)) \<longrightarrow> 2 * length (preorder (MNode a cs # rs)) \<le> n \<longrightarrow> p \<noteq> None \<or> rs = [] \<longrightarrow> fin_ok st \<longrightarrow>
     (\<exists>st' cs' rs'. menu_finalize n a st = Some st' \<and> menu_seg (ps_menus st') p (Some a) (MNode a cs' # rs') None \<and>
        preorder (MNode a cs' # rs') = preorder (MNode a cs # rs) \<and> (rs = [] \<longrightarrow> rs' = []) \<and>
        moves (set (preorder (MNode a cs # rs))) st st'))"

definition finalizes_list :: "nat \<Rightarrow> bool" where
  "finalizes_list n \<longleftrightarrow> (\<forall>st p h ts. menu_seg (ps_menus st) (Some p) h ts None \<longrightarrow>
     distinct (preorder ts) \<longrightarrow> 2 * length (preorder ts) < n \<longrightarrow> fin_ok st \<longrightarrow>
     (\<exists>st' ts'. finalize_list n h st = Some st' \<and> menu_seg (ps_menus st') (Some p) h ts' None \<and>
        preorder ts' = preorder ts \<and> moves (set (preorder ts)) st st'))"

definition finalizes_following :: "nat \<Rightarrow> bool" where
  "finalizes_following n \<longleftrightarrow> (\<forall>st p a s bd h lm rs. menu_seg (ps_menus st) (Some p) h rs None \<longrightarrow>
     distinct (preorder rs) \<longrightarrow> 2 * length (preorder rs) < n \<longrightarrow> fin_ok st \<longrightarrow>
     (\<exists>st' ds rs' z. finalize_following n a s bd h lm st = Some (if ds = [] then lm else Some (root (last ds)), st') \<and>
        menu_seg (ps_menus st') (Some a) h ds z \<and> menu_seg (ps_menus st') (Some p) z rs' None \<and>
        preorder (ds @ rs') = preorder rs \<and> moves (set (preorder rs)) st st'))"

lemma finalizes_list_step:
  assumes F: "finalizes n" and L: "finalizes_list n" and seg: "menu_seg (ps_menus st) (Some p) h ts None"
    and d: "distinct (preorder ts)" and n: "2 * length (preorder ts) < Suc n" and ok: "fin_ok st"
  shows "\<exists>st' ts'. finalize_list (Suc n) h st = Some st' \<and> menu_seg (ps_menus st') (Some p) h ts' None \<and>
        preorder ts' = preorder ts \<and> moves (set (preorder ts)) st st'"
proof (cases ts)
  case Nil
  then show ?thesis using seg moves_refl[OF ok] by (intro exI[of _ st] exI[of _ "[]"]) simp
next
  case (Cons t rs)
  obtain a cs where t: "t = MNode a cs" by (cases t)
  have h: "h = Some a" using seg Cons t by simp
  obtain st1 cs1 rs1 where 1: "menu_finalize n a st = Some st1" "menu_seg (ps_menus st1) (Some p) (Some a) (MNode a cs1 # rs1) None"
    "preorder (MNode a cs1 # rs1) = preorder (MNode a cs # rs)" "moves (set (preorder (MNode a cs # rs))) st st1"
    using F[unfolded finalizes_def, rule_format, of st "Some p" a cs rs] seg d n ok Cons t h by auto
  have d1: "distinct (preorder (MNode a cs1 # rs1))" using d Cons t unfolding 1(3) by simp
  have le: "Suc (length (preorder rs1)) \<le> length (preorder (MNode a cs # rs))" unfolding 1(3)[symmetric] by simp
  have sub: "set (preorder rs1) \<subseteq> set (preorder (MNode a cs # rs))" unfolding 1(3)[symmetric] by auto
  obtain st2 rs2 where 2: "finalize_list n (m_next (ps_menus st1 a)) st1 = Some st2"
    "menu_seg (ps_menus st2) (Some p) (m_next (ps_menus st1 a)) rs2 None" "preorder rs2 = preorder rs1"
    "moves (set (preorder rs1)) st1 st2"
    using L[unfolded finalizes_list_def, rule_format, of st1 p "m_next (ps_menus st1 a)" rs1] 1(2) d1 le n Cons t moves_ok[OF 1(4)]
    by auto
  have l2: "m_next (ps_menus st2 a) = m_next (ps_menus st1 a)" "m_list (ps_menus st2 a) = m_list (ps_menus st1 a)"
    "m_parent (ps_menus st2 a) = Some p" using 2(4) d1 1(2) by (simp_all add: moves_def)
  have "menu_seg (ps_menus st2) (Some a) (m_list (ps_menus st1 a)) cs1 None"
    by (rule seg_moves[OF _ 2(4)]) (use 1(2) d1 in auto)
  then have "menu_seg (ps_menus st2) (Some p) h (MNode a cs1 # rs2) None" using l2 2(2) h by simp
  moreover have "preorder (MNode a cs1 # rs2) = preorder ts" using 1(3) 2(3) Cons t by simp
  moreover have "moves (set (preorder ts)) st st2"
    using moves_trans[OF 1(4) moves_mono[OF 2(4) sub]] Cons t by simp
  moreover have "finalize_list (Suc n) h st = Some st2" using 1(1) 2(1) h by simp
  ultimately show ?thesis by blast
qed

lemma finalizes_following_step:
  assumes F: "finalizes n" and L: "finalizes_following n" and seg: "menu_seg (ps_menus st) (Some p) h rs None"
    and d: "distinct (preorder rs)" and n: "2 * length (preorder rs) < Suc n" and ok: "fin_ok st"
  shows "\<exists>st' ds rs' z. finalize_following (Suc n) a s bd h lm st = Some (if ds = [] then lm else Some (root (last ds)), st') \<and>
        menu_seg (ps_menus st') (Some a) h ds z \<and> menu_seg (ps_menus st') (Some p) z rs' None \<and>
        preorder (ds @ rs') = preorder rs \<and> moves (set (preorder rs)) st st'"
proof (cases "\<exists>b. h = Some b \<and> stays_below (tab_of st) s bd (entry_dep st b)")
  case False
  then have "finalize_following (Suc n) a s bd h lm st = Some (lm, st)" by (auto split: option.split)
  then show ?thesis using seg moves_refl[OF ok]
    by (intro exI[of _ st] exI[of _ "[]"] exI[of _ rs] exI[of _ h]) simp
next
  case True
  then obtain b where h: "h = Some b" and below: "stays_below (tab_of st) s bd (entry_dep st b)" by blast
  obtain bs rs0 where rs: "rs = MNode b bs # rs0" using seg h by (cases rs rule: preorder.cases) auto
  obtain st1 bs1 rs1 where 1: "menu_finalize n b st = Some st1" "menu_seg (ps_menus st1) (Some p) (Some b) (MNode b bs1 # rs1) None"
    "preorder (MNode b bs1 # rs1) = preorder rs" "moves (set (preorder rs)) st st1"
    using F[unfolded finalizes_def, rule_format, of st "Some p" b bs rs0] seg d n ok rs h by auto
  have d1: "distinct (preorder (MNode b bs1 # rs1))" using d unfolding 1(3) .
  have le: "Suc (length (preorder rs1)) \<le> length (preorder rs)" unfolding 1(3)[symmetric] by simp
  have sub: "set (preorder rs1) \<subseteq> set (preorder rs)" "b \<in> set (preorder rs)" unfolding 1(3)[symmetric] by auto
  define st2 where "st2 = set_menu b (\<lambda>e. e\<lparr>m_parent := Some a\<rparr>) st1"
  have m2: "moves {b} st1 st2" unfolding st2_def by (rule moves_set[OF moves_ok[OF 1(4)]]) simp_all
  have s2: "menu_seg (ps_menus st2) (Some p) (m_next (ps_menus st1 b)) rs1 None"
    "menu_seg (ps_menus st2) (Some b) (m_list (ps_menus st1 b)) bs1 None"
    by (rule seg_moves[OF _ m2]; use 1(2) d1 in auto)+
  have l2: "m_next (ps_menus st2 b) = m_next (ps_menus st1 b)" "m_list (ps_menus st2 b) = m_list (ps_menus st1 b)"
    "m_parent (ps_menus st2 b) = Some a" by (simp_all add: st2_def menus_set)
  obtain st3 ds rs3 z where 3: "finalize_following n a s bd (m_next (ps_menus st2 b)) (Some b) st2 =
      Some (if ds = [] then Some b else Some (root (last ds)), st3)"
    "menu_seg (ps_menus st3) (Some a) (m_next (ps_menus st2 b)) ds z" "menu_seg (ps_menus st3) (Some p) z rs3 None"
    "preorder (ds @ rs3) = preorder rs1" "moves (set (preorder rs1)) st2 st3"
    using L[unfolded finalizes_following_def, rule_format, of st2 p "m_next (ps_menus st2 b)" rs1 a s bd "Some b"]
      s2(1) d1 le n l2(1) moves_ok[OF m2] by auto
  have l3: "m_next (ps_menus st3 b) = m_next (ps_menus st2 b)" "m_list (ps_menus st3 b) = m_list (ps_menus st1 b)"
    "m_parent (ps_menus st3 b) = Some a" using 3(5) d1 l2 by (simp_all add: moves_def)
  have "menu_seg (ps_menus st3) (Some b) (m_list (ps_menus st1 b)) bs1 None"
    by (rule seg_moves[OF s2(2) 3(5)]) (use d1 in auto)
  then have "menu_seg (ps_menus st3) (Some a) h (MNode b bs1 # ds) z" using l3 3(2) h by simp
  moreover have "preorder ((MNode b bs1 # ds) @ rs3) = preorder rs" using 1(3) 3(4) by simp
  moreover have "moves (set (preorder rs)) st st3"
    by (rule moves_trans[OF 1(4) moves_trans[OF moves_mono[OF m2] moves_mono[OF 3(5) sub(1)]]]) (use sub(2) in auto)
  moreover have "finalize_following (Suc n) a s bd h lm st = Some (if MNode b bs1 # ds = [] then lm else Some (root (last (MNode b bs1 # ds))), st3)"
    using h below 1(1) 3(1) by (simp add: st2_def[symmetric] Let_def)
  ultimately show ?thesis using 3(3) by blast
qed

text \<open>The first part of \<open>menu_finalize\<close>: an entry with a list, and one that looks at those that follow.\<close>

lemma finalize_below_ok:
  assumes L: "finalizes_list n" and seg: "menu_seg (ps_menus st) p (Some a) (MNode a cs # rs) None"
    and d: "distinct (preorder (MNode a cs # rs))" and n: "2 * length (preorder (MNode a cs # rs)) \<le> Suc n" and ok: "fin_ok st"
  shows "\<exists>st' cs'. do { (parentdep, st1) \<leftarrow> parent_dep n a st;
         st2 \<leftarrow> each_next n (finalize_dep parentdep) (m_list (ps_menus st1 a)) st1;
         finalize_list n (m_list (ps_menus st2 a)) st2 } = Some st' \<and>
       menu_seg (ps_menus st') p (Some a) (MNode a cs' # rs) None \<and> preorder cs' = preorder cs \<and>
       moves (set (preorder (MNode a cs # rs))) st st'"
proof -
  have lc: "length cs < n" using length_roots[of cs] n by simp
  have own: "menu_seg (ps_menus st) (Some a) (m_list (ps_menus st a)) cs None" using seg by simp
  obtain dp st1 where 1: "parent_dep n a st = Some (dp, st1)" "fin_keeps st st1"
    by (rule parent_dep_ok[OF own lc ok])
  have own1: "menu_seg (ps_menus st1) (Some a) (m_list (ps_menus st1 a)) cs None"
    using seg_keeps[OF own 1(2)] 1(2) by (simp add: fin_keeps_def same_links_def)
  have "keeps_ok (each_next n (finalize_dep dp) (m_list (ps_menus st1 a))) st1"
    by (rule each_next_ok[OF own1 lc fin_keeps_ok[OF 1(2)]]) (use finalize_dep_ok fin_keeps_ok in blast)
  then obtain st2 where 2: "each_next n (finalize_dep dp) (m_list (ps_menus st1 a)) st1 = Some st2" "fin_keeps st1 st2"
    by (rule keeps_okE)
  have k2: "fin_keeps st st2" by (rule fin_keeps_trans[OF 1(2) 2(2)])
  have own2: "menu_seg (ps_menus st2) (Some a) (m_list (ps_menus st2 a)) cs None"
    using seg_keeps[OF own k2] k2 by (simp add: fin_keeps_def same_links_def)
  obtain st3 cs3 where 3: "finalize_list n (m_list (ps_menus st2 a)) st2 = Some st3"
    "menu_seg (ps_menus st3) (Some a) (m_list (ps_menus st2 a)) cs3 None" "preorder cs3 = preorder cs" "moves (set (preorder cs)) st2 st3"
    using L[unfolded finalizes_list_def, rule_format, of st2 a "m_list (ps_menus st2 a)" cs] own2 d n fin_keeps_ok[OF k2] by auto
  have l3: "m_next (ps_menus st3 a) = m_next (ps_menus st a)" "m_list (ps_menus st3 a) = m_list (ps_menus st2 a)"
    "m_parent (ps_menus st3 a) = p" using 3(4) d seg k2 by (simp_all add: moves_def fin_keeps_def same_links_def)
  have "menu_seg (ps_menus st3) p (m_next (ps_menus st a)) rs None"
    by (rule seg_moves[OF seg_keeps[OF _ k2] 3(4)]) (use seg d in auto)
  then have "menu_seg (ps_menus st3) p (Some a) (MNode a cs3 # rs) None" using l3 3(2) by simp
  moreover have "moves (set (preorder (MNode a cs # rs))) st st3"
    by (rule moves_trans[OF moves_keeps[OF k2] moves_mono[OF 3(4)]]) auto
  ultimately show ?thesis using 1(1) 2(1) 3(1,3) by auto
qed

lemma finalize_after_ok:
  assumes L: "finalizes_following n" and seg: "menu_seg (ps_menus st) p (Some a) (MNode a [] # rs) None"
    and d: "distinct (preorder (MNode a [] # rs))" and n: "2 * length (preorder (MNode a [] # rs)) \<le> Suc n"
    and p: "p \<noteq> None \<or> rs = []" and ok: "fin_ok st"
  shows "\<exists>st' cs' rs'. do {
         (lm, st1) \<leftarrow> finalize_following n a s bd (m_next (ps_menus st a)) None st;
         let st2 = (case lm of None \<Rightarrow> st1 | Some l \<Rightarrow> adopt a l st1);
         Some (add_dir_dep s (m_dep (ps_menus st2 a)) st2) } = Some st' \<and>
       menu_seg (ps_menus st') p (Some a) (MNode a cs' # rs') None \<and>
       preorder (MNode a cs' # rs') = preorder (MNode a [] # rs) \<and> (rs = [] \<longrightarrow> rs' = []) \<and>
       moves (set (preorder (MNode a [] # rs))) st st'"
proof -
  obtain q where q: "rs = [] \<or> p = Some q" using p by auto
  have "menu_seg (ps_menus st) (Some q) (m_next (ps_menus st a)) rs None" using seg q by auto
  then obtain st1 ds rs1 z where 1: "finalize_following n a s bd (m_next (ps_menus st a)) None st =
      Some (if ds = [] then None else Some (root (last ds)), st1)"
    "menu_seg (ps_menus st1) (Some a) (m_next (ps_menus st a)) ds z" "menu_seg (ps_menus st1) (Some q) z rs1 None"
    "preorder (ds @ rs1) = preorder rs" "moves (set (preorder rs)) st st1"
    using L[unfolded finalizes_following_def, rule_format, of st q "m_next (ps_menus st a)" rs a s bd None] d n ok by auto
  have nil: "preorder us = [] \<longleftrightarrow> us = []" for us by (cases us rule: preorder.cases) auto
  have rs1: "menu_seg (ps_menus st1) p z rs1 None" using 1(3,4) q by (auto simp: nil)
  have l1: "m_next (ps_menus st1 a) = m_next (ps_menus st a)" "m_list (ps_menus st1 a) = None"
    "m_parent (ps_menus st1 a) = p" using 1(5) d seg by (simp_all add: moves_def)
  have d1: "distinct (a # preorder ds @ preorder rs1)" using d unfolding preorder_append[symmetric] 1(4) by simp
  have set1: "set (a # preorder ds @ preorder rs1) = set (preorder (MNode a [] # rs))"
    unfolding preorder_append[symmetric] 1(4) by simp
  define st2 where "st2 = (if ds = [] then st1 else adopt a (root (last ds)) st1)"
  have 2: "menu_seg (ps_menus st2) p (Some a) (MNode a ds # rs1) None \<and> moves (set (preorder (MNode a [] # rs))) st1 st2"
  proof (cases "ds = []")
    case True
    then show ?thesis using 1(2) rs1 l1 moves_refl[OF moves_ok[OF 1(5)]] by (simp add: st2_def)
  next
    case False
    then show ?thesis
      using adopt_ok[OF l1(1,3) 1(2) False rs1 d1 moves_ok[OF 1(5)], unfolded set1] by (simp add: st2_def)
  qed
  define st3 where "st3 = add_dir_dep s (m_dep (ps_menus st2 a)) st2"
  have k3: "fin_keeps st2 st3" unfolding st3_def by (rule add_dir_dep_keeps) (use 2 moves_ok in blast)
  have "moves (set (preorder (MNode a [] # rs))) st st3"
    by (rule moves_trans[OF moves_mono[OF 1(5)] moves_trans[OF conjunct2[OF 2] moves_keeps[OF k3]]]) auto
  moreover have "menu_seg (ps_menus st3) p (Some a) (MNode a ds # rs1) None" by (rule seg_keeps[OF conjunct1[OF 2] k3])
  moreover have "preorder (MNode a ds # rs1) = preorder (MNode a [] # rs)" using 1(4) by simp
  moreover have "rs = [] \<longrightarrow> rs1 = []" using 1(4) nil[of "ds @ rs1"] by auto
  moreover have "do { (lm, st1) \<leftarrow> finalize_following n a s bd (m_next (ps_menus st a)) None st;
         let st2 = (case lm of None \<Rightarrow> st1 | Some l \<Rightarrow> adopt a l st1);
         Some (add_dir_dep s (m_dep (ps_menus st2 a)) st2) } = Some st3"
    unfolding 1(1) by (simp add: st3_def st2_def Let_def)
  ultimately show ?thesis by (intro exI[of _ st3] exI[of _ ds] exI[of _ rs1] conjI)
qed

lemma finalizes_step:
  assumes L: "finalizes_list n" and L': "finalizes_following n"
    and seg: "menu_seg (ps_menus st) p (Some a) (MNode a cs # rs) None"
    and d: "distinct (preorder (MNode a cs # rs))" and n: "2 * length (preorder (MNode a cs # rs)) \<le> Suc n"
    and p: "p \<noteq> None \<or> rs = []" and ok: "fin_ok st"
  shows "\<exists>st' cs' rs'. menu_finalize (Suc n) a st = Some st' \<and> menu_seg (ps_menus st') p (Some a) (MNode a cs' # rs') None \<and>
        preorder (MNode a cs' # rs') = preorder (MNode a cs # rs) \<and> (rs = [] \<longrightarrow> rs' = []) \<and>
        moves (set (preorder (MNode a cs # rs))) st st'"
proof -
  let ?S = "set (preorder (MNode a cs # rs))"
  obtain st1 cs1 rs1 where 1: "(case m_list (ps_menus st a) of
               Some c \<Rightarrow> do {
                 (parentdep, st1) \<leftarrow> parent_dep n a st;
                 st2 \<leftarrow> each_next n (finalize_dep parentdep) (m_list (ps_menus st1 a)) st1;
                 finalize_list n (m_list (ps_menus st2 a)) st2 }
             | None \<Rightarrow>
                 (case m_sym (ps_menus st a) of
                    None \<Rightarrow> Some st
                  | Some s \<Rightarrow> do {
                      (lm, st1) \<leftarrow> finalize_following n a s (own_basedep st a) (m_next (ps_menus st a)) None st;
                      let st2 = (case lm of None \<Rightarrow> st1 | Some l \<Rightarrow> adopt a l st1);
                      Some (add_dir_dep s (m_dep (ps_menus st2 a)) st2) })) = Some st1"
    "menu_seg (ps_menus st1) p (Some a) (MNode a cs1 # rs1) None"
    "preorder (MNode a cs1 # rs1) = preorder (MNode a cs # rs)" "rs = [] \<longrightarrow> rs1 = []" "moves ?S st st1"
  proof (cases "m_list (ps_menus st a)")
    case None
    then have cs: "cs = []" using seg by (cases cs rule: preorder.cases) auto
    show ?thesis
    proof (cases "m_sym (ps_menus st a)")
      case None
      then show ?thesis using that[of st cs rs] \<open>m_list (ps_menus st a) = None\<close> seg moves_refl[OF ok] by simp
    next
      case (Some s)
      note after = finalize_after_ok[OF L' seg[unfolded cs] d[unfolded cs] n[unfolded cs] p ok, of s "own_basedep st a"]
      show ?thesis
        by (insert after, elim exE conjE, rule that, unfold None Some option.case cs, assumption+)
    qed
  next
    case (Some c)
    from finalize_below_ok[OF L seg d n ok] obtain st' cs' where b: "do { (parentdep, st1) \<leftarrow> parent_dep n a st;
         st2 \<leftarrow> each_next n (finalize_dep parentdep) (m_list (ps_menus st1 a)) st1;
         finalize_list n (m_list (ps_menus st2 a)) st2 } = Some st'"
      "menu_seg (ps_menus st') p (Some a) (MNode a cs' # rs) None" "preorder cs' = preorder cs" "moves ?S st st'" by blast
    show ?thesis by (rule that[OF _ b(2) _ _ b(4)]) (unfold Some option.case, rule b(1), simp_all add: b(3))
  qed
  have N: "length (preorder (MNode a cs1 # rs1)) = length (preorder (MNode a cs # rs))" by (simp only: 1(3))
  have d1: "distinct (preorder (MNode a cs1 # rs1))" using d by (simp only: 1(3))
  have S1: "set (preorder cs1) \<subseteq> ?S" unfolding 1(3)[symmetric] by auto
  have len: "length (preorder cs1) < n" using n N by simp
  obtain st2 cs2 where 2: "each_next n (finalize_child n a (m_sym (ps_menus st1 a))) (m_list (ps_menus st1 a)) st1 = Some st2"
    "menu_seg (ps_menus st2) (Some a) (m_list (ps_menus st1 a)) cs2 None" "preorder cs2 = preorder cs1"
    "moves (set (preorder cs1)) st1 st2"
    using finalize_children_ok[OF _ _ len less_imp_le[OF len] moves_ok[OF 1(5)], of a "m_list (ps_menus st1 a)" "m_sym (ps_menus st1 a)"]
      1(2) d1 by auto
  have l2: "m_next (ps_menus st2 a) = m_next (ps_menus st1 a)" "m_list (ps_menus st2 a) = m_list (ps_menus st1 a)"
    "m_parent (ps_menus st2 a) = p" using 2(4) d1 1(2) by (simp_all add: moves_def)
  have "menu_seg (ps_menus st2) p (m_next (ps_menus st1 a)) rs1 None"
    by (rule seg_moves[OF _ 2(4)]) (use 1(2) d1 in auto)
  then have s2: "menu_seg (ps_menus st2) p (Some a) (MNode a cs2 # rs1) None" using l2 2(2) by simp
  obtain st3 where 3: "finish_entry a st2 = Some st3" "fin_keeps st2 st3"
    using finish_entry_ok[OF moves_ok[OF 2(4)]] by (rule keeps_okE)
  have "menu_finalize (Suc n) a st = Some st3" unfolding menu_finalize.simps 1(1) by (simp add: 2(1) 3(1))
  moreover have "preorder (MNode a cs2 # rs1) = preorder (MNode a cs # rs)" using 1(3) 2(3) by simp
  moreover have "moves ?S st st3"
    by (rule moves_trans[OF 1(5) moves_trans[OF moves_mono[OF 2(4) S1] moves_keeps[OF 3(2)]]])
  ultimately show ?thesis using seg_keeps[OF s2 3(2)] 1(4) by blast
qed

lemma finalizes_all: "finalizes n \<and> finalizes_list n \<and> finalizes_following n"
proof (induction n)
  case 0
  then show ?case by (simp add: finalizes_def finalizes_list_def finalizes_following_def)
next
  case (Suc n)
  then have IH: "finalizes n" "finalizes_list n" "finalizes_following n" by auto
  have "finalizes (Suc n)" unfolding finalizes_def by (intro allI impI) (rule finalizes_step[OF IH(2,3)])
  moreover have "finalizes_list (Suc n)" unfolding finalizes_list_def by (intro allI impI) (rule finalizes_list_step[OF IH(1,2)])
  moreover have "finalizes_following (Suc n)"
    unfolding finalizes_following_def by (intro allI impI) (rule finalizes_following_step[OF IH(1,3)])
  ultimately show ?case by blast
qed

end
