(* ===== verification/Kc_Finalize_Props.thy ===== *)
theory Kc_Finalize_Props
  imports Kc_Finalize_Tree
begin

text \<open>
  Properties of \<open>menu_finalize\<close>: the whole tree, and what the entries below another inherit.
\<close>

section \<open>Inherited dependencies\<close>

lemma value_alloc_and:
  "expr_calc_value_ptr v (expr_alloc_and a b) = min (expr_calc_value_ptr v a) (expr_calc_value_ptr v b)"
  by (cases a; cases b) (simp_all add: expr_calc_value_ptr_def expr_alloc_and_def)

lemma value_copy_ptr [simp]: "map_option expr_copy e = e"
  by (cases e) simp_all

lemma value_transform_ptr: "well_typed T v \<Longrightarrow> expr_calc_value_ptr v (transform_ptr T e) = expr_calc_value_ptr v e"
  by (cases e) (simp_all add: expr_calc_value_ptr_def transform_ptr_def value_transform)

lemma value_eliminate_ptr:
  assumes "well_typed T v" and "expr_calc_value_ptr v e \<noteq> tri_mod"
  shows "expr_calc_value_ptr v (expr_eliminate_dups T e) = expr_calc_value_ptr v e"
proof (cases e)
  case None
  then show ?thesis by (simp add: expr_eliminate_dups_def)
next
  case (Some x)
  then show ?thesis using eliminate_dups_keeps[of T x] assms by (auto simp: expr_calc_value_ptr_def keeps_def)
qed

text \<open>The expression that \<open>finalize_dep\<close> and \<open>finalize_prop\<close> make of two.\<close>

lemma value_based:
  assumes "well_typed T v" and "expr_calc_value_ptr v a \<noteq> tri_mod" and "expr_calc_value_ptr v b \<noteq> tri_mod"
  shows "expr_calc_value_ptr v (based_dep T a b) = min (expr_calc_value_ptr v a) (expr_calc_value_ptr v b)"
proof -
  let ?e = "expr_alloc_and (map_option expr_copy a) (transform_ptr T b)"
  have e: "expr_calc_value_ptr v ?e = min (expr_calc_value_ptr v a) (expr_calc_value_ptr v b)"
    by (simp add: value_alloc_and value_transform_ptr[OF assms(1)])
  have "expr_calc_value_ptr v ?e \<noteq> tri_mod" using assms(2,3) unfolding e by (simp add: min_def)
  then show ?thesis using value_eliminate_ptr[OF assms(1)] e by (simp add: based_dep_def)
qed

text \<open>The condition of a property afterwards.\<close>

definition prop_dep :: "symtab \<Rightarrow> sym option \<Rightarrow> expr option \<Rightarrow> expr option \<Rightarrow> expr option" where
  "prop_dep T so b e =
     (if so \<noteq> None \<and> s_type (T (the so)) \<noteq> S_TRISTATE then map_option (expr_trans_bool T) (based_dep T b e) else based_dep T b e)"

lemma set_menu_k [simp]: "ps_k (set_menu a f st) = ps_k st" by (simp add: set_menu_def)

lemma read_rev_dep [simp]: "read_prop (add_rev_dep s e st) ptr = read_prop st ptr"
  by (cases ptr) (simp_all add: add_rev_dep_def tab_upd[unfolded tab_of_def])

lemma read_write: "read_prop (write_prop ptr p st) ptr' = (if ptr' = ptr \<and> ptr_ok a st ptr then Some p else read_prop st ptr')"
  if "ptr_ok a st ptr"
  using that by (cases ptr; cases ptr') (auto simp: ptr_ok_def tab_upd[unfolded tab_of_def] tab_of_def menus_set)

text \<open>Types and the symbols of the entries are the same.\<close>

definition same_types :: "pstate \<Rightarrow> pstate \<Rightarrow> bool" where
  "same_types st st' \<longleftrightarrow> (\<forall>s. s_type (tab_of st' s) = s_type (tab_of st s) \<and> s_flags (tab_of st' s) = s_flags (tab_of st s)) \<and>
     (\<forall>a. m_sym (ps_menus st' a) = m_sym (ps_menus st a))"

lemma same_types_trans: "same_types a b \<Longrightarrow> same_types b c \<Longrightarrow> same_types a c" by (simp add: same_types_def)

lemma same_types_steps [simp]:
  "same_types st st" "same_types st (write_prop ptr p st)" "same_types st (add_rev_dep s e st)"
  "same_types st (add_rev_dep s e (write_prop ptr p st))"
  by (cases ptr; simp add: same_types_def add_rev_dep_def tab_upd menus_set)+

lemma well_typed_same: "same_types st st' \<Longrightarrow> well_typed (tab_of st') v \<longleftrightarrow> well_typed (tab_of st) v"
  by (simp add: same_types_def well_typed_def has_flag_def)

lemma finalize_prop_types: "finalize_prop b a ptr st = Some st' \<Longrightarrow> same_types st st'"
  by (auto simp: finalize_prop_def Let_def split: if_splits Option.bind_splits intro: same_types_trans)

lemma finalize_prop_reads:
  assumes "finalize_prop b a ptr st = Some st'" and "ptr_ok a st ptr" and "read_prop st ptr = Some p"
  shows "read_prop st' ptr' = (if ptr' = ptr \<and> p_menu p = Some a
      then Some (with_dep (prop_dep (tab_of st) (m_sym (ps_menus st a)) b (ev_expr (p_visible p))) p) else read_prop st ptr')"
  using assms by (auto simp: finalize_prop_def prop_dep_def based_dep_def Let_def read_write[OF assms(2)] split: if_splits Option.bind_splits)

lemma finalize_props_other:
  "run_all (finalize_prop b a) l st = Some st' \<Longrightarrow> \<forall>x\<in>set l. ptr_ok a st x \<Longrightarrow> fin_ok st \<Longrightarrow> ptr \<notin> set l \<Longrightarrow>
    read_prop st' ptr = read_prop st ptr"
proof (induction l arbitrary: st)
  case (Cons x l)
  then obtain st1 where 1: "finalize_prop b a x st = Some st1" "run_all (finalize_prop b a) l st1 = Some st'"
    by (auto split: Option.bind_splits)
  have x: "ptr_ok a st x" using Cons.prems(2) by simp
  obtain p where p: "read_prop st x = Some p" using read_ptr[OF x] by blast
  have k: "fin_keeps st st1" using finalize_prop_ok[OF Cons.prems(3) x, of b] 1(1) by (auto simp: keeps_ok_def)
  have "read_prop st' ptr = read_prop st1 ptr"
    by (rule Cons.IH[OF 1(2)]) (use Cons.prems ptr_ok_keeps[OF _ k] fin_keeps_ok[OF k] in auto)
  then show ?case using finalize_prop_reads[OF 1(1) x p, of ptr] Cons.prems(4) by simp
qed simp

lemma finalize_props_inherit:
  assumes "run_all (finalize_prop b a) l st = Some st'" and "distinct l" and "\<forall>x\<in>set l. ptr_ok a st x" and "fin_ok st"
    and "well_typed (tab_of st) v" and "expr_calc_value_ptr v b \<noteq> tri_mod"
    and "\<And>s. m_sym (ps_menus st a) = Some s \<Longrightarrow> s_type (tab_of st s) = S_TRISTATE"
    and "ptr \<in> set l" and "read_prop st ptr = Some p" and "p_menu p = Some a" and "expr_calc_value_ptr v (ev_expr (p_visible p)) \<noteq> tri_mod"
  shows "\<exists>p'. read_prop st' ptr = Some p' \<and>
    expr_calc_value_ptr v (ev_expr (p_visible p')) = min (expr_calc_value_ptr v b) (expr_calc_value_ptr v (ev_expr (p_visible p)))"
  using assms
proof (induction l arbitrary: st)
  case (Cons x l)
  then obtain st1 where 1: "finalize_prop b a x st = Some st1" "run_all (finalize_prop b a) l st1 = Some st'"
    by (auto split: Option.bind_splits)
  have x: "ptr_ok a st x" using Cons.prems(3) by simp
  obtain q where q: "read_prop st x = Some q" using read_ptr[OF x] by blast
  have k: "fin_keeps st st1" using finalize_prop_ok[OF Cons.prems(4) x, of b] 1(1) by (auto simp: keeps_ok_def)
  have ok1: "\<forall>x\<in>set l. ptr_ok a st1 x" using Cons.prems(3) ptr_ok_keeps[OF _ k] by simp
  have t1: "same_types st st1" by (rule finalize_prop_types[OF 1(1)])
  note r = finalize_prop_reads[OF 1(1) x q, of ptr]
  show ?case
  proof (cases "ptr = x")
    case True
    then have "ptr \<notin> set l" using Cons.prems(2) by simp
    then have "read_prop st' ptr = read_prop st1 ptr" by (rule finalize_props_other[OF 1(2) ok1 fin_keeps_ok[OF k]])
    moreover have "prop_dep (tab_of st) (m_sym (ps_menus st a)) b e = based_dep (tab_of st) b e" for e
      using Cons.prems(7) by (auto simp: prop_dep_def)
    ultimately show ?thesis
      using r True q Cons.prems(9-11) value_based[OF Cons.prems(5,6,11)] by (simp add: with_dep_def)
  next
    case False
    show ?thesis
    proof (rule Cons.IH[OF 1(2)])
      show "s_type (tab_of st1 s) = S_TRISTATE" if "m_sym (ps_menus st1 a) = Some s" for s
        using that t1 Cons.prems(7) by (simp add: same_types_def)
    qed (use Cons.prems False r ok1 fin_keeps_ok[OF k] well_typed_same[OF t1] in auto)
  qed
qed simp

lemma distinct_menu_props: "distinct (menu_props st a)"
  by (auto simp: menu_props_def distinct_map inj_on_def split: option.split prompt.split)

lemma write_prop_dep [simp]: "m_dep (ps_menus (write_prop ptr p st) a) = m_dep (ps_menus st a)"
  by (cases ptr) (simp_all add: menus_set)

lemma add_rev_menus [simp]: "ps_menus (add_rev_dep s e st) = ps_menus st"
  by (simp add: add_rev_dep_def)

lemma finalize_prop_dep: "finalize_prop b a ptr st = Some st' \<Longrightarrow> m_dep (ps_menus st' c) = m_dep (ps_menus st c)"
  by (auto simp: finalize_prop_def Let_def split: if_splits Option.bind_splits)

lemma set_dep_same [simp]:
  "menu_props (set_menu a (\<lambda>m. m\<lparr>m_dep := e\<rparr>) st) b = menu_props st b"
  "read_prop (set_menu a (\<lambda>m. m\<lparr>m_dep := e\<rparr>) st) ptr = read_prop st ptr"
  by (simp_all add: menu_props_def menus_set split: option.split prompt.split) (cases ptr; simp add: menus_set)


section \<open>The whole tree\<close>

lemma menu_finalize_total:
  assumes "menu_tree (ps_menus st) ts" and "distinct (rootmenu # preorder ts)" and "fin_ok st" and "2 * Suc (length (preorder ts)) \<le> n"
  shows "\<exists>st' ts'. menu_finalize n rootmenu st = Some st' \<and> menu_tree (ps_menus st') ts' \<and> preorder ts' = preorder ts \<and>
    (\<forall>a. m_sym (ps_menus st' a) = m_sym (ps_menus st a)) \<and> fin_ok st'"
proof -
  have seg: "menu_seg (ps_menus st) None (Some rootmenu) (MNode rootmenu ts # []) None"
    using assms(1) by (simp add: menu_tree_def)
  obtain st' cs rs where f: "menu_finalize n rootmenu st = Some st'"
    "menu_seg (ps_menus st') None (Some rootmenu) (MNode rootmenu cs # rs) None"
    "preorder (MNode rootmenu cs # rs) = preorder (MNode rootmenu ts # [])" "rs = []" "moves (set (preorder (MNode rootmenu ts # []))) st st'"
    using finalizes_all[of n, THEN conjunct1, unfolded finalizes_def, rule_format, OF seg] assms(2-4) by auto
  have "menu_tree (ps_menus st') cs" "preorder cs = preorder ts" using f(2,3) unfolding f(4) by (simp_all add: menu_tree_def)
  then show ?thesis using f(1,5) by (auto simp: moves_def)
qed

text \<open>
  C14: \<open>menu_finalize\<close> returns, and what it leaves is a tree with the same entries in the same order: no entry is
  lost or there twice, although lists are taken apart and put together. Twice the number of
  entries bounds the depth of the calls.
\<close>

theorem menu_finalize_rearranges:
  assumes "menu_tree (ps_menus st) ts" and "distinct (rootmenu # preorder ts)" and "fin_ok st"
    and "2 * Suc (length (preorder ts)) \<le> n"
  shows "\<exists>st' ts'. menu_finalize n rootmenu st = Some st' \<and> menu_tree (ps_menus st') ts' \<and> preorder ts' = preorder ts \<and>
    (\<forall>a. m_sym (ps_menus st' a) = m_sym (ps_menus st a))"
  using menu_finalize_total[OF assms] by blast

section \<open>An example\<close>

text \<open>An entry, a menu that depends on it with one entry, and another entry.\<close>

definition example_tree_menus :: menus where
  "example_tree_menus a =
     (if a = 0 then empty_menu\<lparr>m_list := Some 1\<rparr>
      else if a = 1 then empty_menu\<lparr>m_parent := Some 0, m_next := Some 2, m_sym := Some (sym_at 1)\<rparr>
      else if a = 2 then empty_menu\<lparr>m_parent := Some 0, m_next := Some 4, m_list := Some 3, m_dep := Some (Sym (sym_at 1)),
        m_prompt := Some (POwn ((new_prop P_MENU ''Config.in'' 3)\<lparr>p_menu := Some 2, p_visible := \<lparr>ev_expr = Some (Neg (Sym (sym_at 2))), ev_tri = tri_no\<rparr>\<rparr>))\<rparr>
      else if a = 3 then empty_menu\<lparr>m_parent := Some 2, m_sym := Some (sym_at 3)\<rparr>
      else if a = 4 then empty_menu\<lparr>m_parent := Some 0, m_sym := Some (sym_at 2)\<rparr>
      else empty_menu)"

definition example_fin :: pstate where
  "example_fin = example_parser\<lparr>ps_k := example_state\<lparr>k_sym := example_st\<rparr>, ps_menus := example_tree_menus\<rparr>"

lemma example_fin_ok: "fin_ok example_fin"
proof -
  have "s_prop (example_st s) = []" "\<not> sym_is_choice (example_st s)" for s
    by (simp_all add: example_st_def example_symbol_def sym_is_choice_def has_flag_def flag_defs)
  moreover have "entry_fine (example_tree_menus a)" for a
    by (simp add: example_tree_menus_def entry_fine_def empty_menu_def new_prop_def)
  ultimately show ?thesis by (simp add: fin_ok_def example_fin_def tab_of_def)
qed

theorem menu_finalize_rearranges_witness:
  "\<exists>st' ts'. menu_finalize 10 rootmenu example_fin = Some st' \<and> menu_tree (ps_menus st') ts' \<and> preorder ts' = [1, 2, 3, 4] \<and>
    (\<forall>a. m_sym (ps_menus st' a) = m_sym (example_tree_menus a))"
proof -
  have "menu_tree (ps_menus example_fin) [MNode 1 [], MNode 2 [MNode 3 []], MNode 4 []]"
    by (simp add: menu_tree_def example_fin_def example_tree_menus_def rootmenu_def empty_menu_def)
  from menu_finalize_rearranges[OF this _ example_fin_ok, of 10] show ?thesis
    by (simp add: rootmenu_def) (simp add: example_fin_def)
qed


end
