(* ===== verification/Kc_Print.thy ===== *)
theory Kc_Print
  imports Kc_Visible
begin

text \<open>
  Printing in expr.c: \<open>expr_print\<close> with the function that takes the pieces, and the growing string of
  util.c that the help texts are written to.
\<close>

section \<open>Precedence\<close>

text \<open>The cases fall through from one to the next.\<close>

definition expr_compare_type :: "expr_type \<Rightarrow> expr_type \<Rightarrow> int" where
  "expr_compare_type t1 t2 =
     (let from_list = (if t2 = E_NONE then 1 else -1);
          from_or = (if t2 = E_LIST then 1 else from_list);
          from_and = (if t2 = E_OR then 1 else from_or);
          from_not = (if t2 = E_AND then 1 else from_and)
      in if t1 = t2 then 0
         else case t1 of
           E_EQUAL \<Rightarrow> if t2 = E_NOT then 1 else from_not
         | E_UNEQUAL \<Rightarrow> if t2 = E_NOT then 1 else from_not
         | E_NOT \<Rightarrow> from_not
         | E_AND \<Rightarrow> from_and
         | E_OR \<Rightarrow> from_or
         | E_LIST \<Rightarrow> from_list
         | _ \<Rightarrow> -1)"

section \<open>Pieces of an expression\<close>

text \<open>
  The calls of \<open>fn\<close>: a symbol, or NULL for punctuation, and the text, which is NULL for the right operand of
  a comparison that has no name.
\<close>

type_synonym piece = "sym option \<times> string option"

definition lit :: "string \<Rightarrow> piece" where "lit s = (None, Some s)"

definition left_piece :: "symtab \<Rightarrow> sym \<Rightarrow> piece" where
  "left_piece T s = (case s_name (T s) of Some n \<Rightarrow> (Some s, Some n) | None \<Rightarrow> lit ''<choice>'')"

definition right_piece :: "symtab \<Rightarrow> sym \<Rightarrow> piece" where
  "right_piece T s = (Some s, s_name (T s))"

definition in_parens :: "expr_type \<Rightarrow> expr_type \<Rightarrow> piece list \<Rightarrow> piece list" where
  "in_parens prevtoken t ps = (if expr_compare_type prevtoken t > 0 then [lit ''(''] @ ps @ [lit '')''] else ps)"

fun expr_print :: "symtab \<Rightarrow> expr \<Rightarrow> expr_type \<Rightarrow> piece list" where
  "expr_print T (Sym s) prevtoken = in_parens prevtoken E_SYMBOL [left_piece T s]"
| "expr_print T (Neg e) prevtoken = in_parens prevtoken E_NOT (lit ''!'' # expr_print T e E_NOT)"
| "expr_print T (Equal a b) prevtoken = in_parens prevtoken E_EQUAL [left_piece T a, lit ''='', right_piece T b]"
| "expr_print T (Unequal a b) prevtoken = in_parens prevtoken E_UNEQUAL [left_piece T a, lit ''!='', right_piece T b]"
| "expr_print T (Or l r) prevtoken = in_parens prevtoken E_OR (expr_print T l E_OR @ [lit '' || ''] @ expr_print T r E_OR)"
| "expr_print T (And l r) prevtoken = in_parens prevtoken E_AND (expr_print T l E_AND @ [lit '' && ''] @ expr_print T r E_AND)"

text \<open>The other nodes that a property has.\<close>

fun print_list :: "symtab \<Rightarrow> sym list \<Rightarrow> piece list" where
  "print_list T [] = [lit ''y'']"
| "print_list T [s] = [right_piece T s]"
| "print_list T (s # ss) = right_piece T s # lit '' ^ '' # print_list T ss"

definition print_prop_expr :: "symtab \<Rightarrow> prop_expr option \<Rightarrow> piece list" where
  "print_prop_expr T e =
     (case e of
        None \<Rightarrow> [lit ''y'']
      | Some (PE_expr x) \<Rightarrow> expr_print T x E_NONE
      | Some (PE_list l) \<Rightarrow> print_list T l
      | Some (PE_range a b) \<Rightarrow> [lit ''['', right_piece T a, lit '' '', right_piece T b, lit '']''])"

definition print_ptr :: "symtab \<Rightarrow> expr option \<Rightarrow> piece list" where
  "print_ptr T e = (case e of None \<Rightarrow> [lit ''y''] | Some x \<Rightarrow> expr_print T x E_NONE)"

section \<open>Growing strings\<close>

record gstr =
  g_s :: string
  g_len :: nat
  g_max_width :: nat

definition str_new :: gstr where
  "str_new = \<lparr>g_s = [], g_len = 64, g_max_width = 0\<rparr>"

definition str_assign :: "string \<Rightarrow> gstr" where
  "str_assign s = \<lparr>g_s = s, g_len = length s + 1, g_max_width = 0\<rparr>"

definition str_append :: "gstr \<Rightarrow> string option \<Rightarrow> gstr" where
  "str_append gs s =
     (case s of
        None \<Rightarrow> gs
      | Some s \<Rightarrow>
          let l = length (g_s gs) + length s + 1
          in gs\<lparr>g_s := g_s gs @ s, g_len := (if l > g_len gs then l else g_len gs)\<rparr>)"

text \<open>The formatted text goes through a buffer of 10000 characters.\<close>

definition str_printf :: "gstr \<Rightarrow> string \<Rightarrow> gstr" where
  "str_printf gs s = str_append gs (Some (take 9999 s))"

text \<open>The length of the last line, with its line feed.\<close>

definition last_line_length :: "string \<Rightarrow> nat" where
  "last_line_length s = (let r = rev s; l = takeWhile (\<lambda>c. c \<noteq> CHR 0x0A) r in if length l < length r then Suc (length l) else length s)"

definition wrap_line :: "string \<Rightarrow> string option \<Rightarrow> gstr \<Rightarrow> gstr" where
  "wrap_line str value gs =
     (let extra_length = length str + (case value of Some v \<Rightarrow> 4 + length v | None \<Rightarrow> 0)
      in if g_max_width gs \<noteq> 0 \<and> last_line_length (g_s gs) + extra_length > g_max_width gs
         then str_append gs (Some [CHR 0x5C, CHR 0x0A]) else gs)"

text \<open>\<open>sym_get_string_value\<close>, with None for NULL.\<close>

definition string_or_null :: "calc \<Rightarrow> sym \<Rightarrow> kstate \<Rightarrow> (string option \<times> kstate) option" where
  "string_or_null calc s k =
     (if s_type (k_sym k s) \<notin> {S_BOOLEAN, S_TRISTATE} \<and> sv_val (s_curr (k_sym k s)) = VNull then Some (None, k)
      else map_option (\<lambda>(v, k1). (Some v, k1)) (sym_get_string_value calc s k))"

text \<open>The string that a format prints, which must not be NULL.\<close>

definition shown_string :: "string option \<Rightarrow> kstate \<Rightarrow> string \<times> kstate" where
  "shown_string v k = (case v of Some s \<Rightarrow> (s, k) | None \<Rightarrow> c_string VNull k)"

text \<open>None: a text that is NULL, or a value that cannot be calculated.\<close>

definition expr_print_gstr_helper :: "calc \<Rightarrow> piece \<Rightarrow> gstr \<times> kstate \<Rightarrow> (gstr \<times> kstate) option" where
  "expr_print_gstr_helper calc piece gk =
     (let (gs, k) = gk in
      case piece of
        (None, str) \<Rightarrow> do {
          str \<leftarrow> str;
          Some (str_append (wrap_line str None gs) (Some str), k) }
      | (Some s, str) \<Rightarrow> do {
          (v, k1) \<leftarrow> string_or_null calc s k;
          str \<leftarrow> str;
          let gs1 = str_append (wrap_line str v gs) (Some str);
          Some (if s_type (k_sym k1 s) \<noteq> S_UNKNOWN
                then (let (shown, k2) = shown_string v k1 in (str_printf gs1 ('' [='' @ shown @ '']''), k2))
                else (gs1, k1)) })"

definition gstr_print :: "calc \<Rightarrow> piece list \<Rightarrow> gstr \<times> kstate \<Rightarrow> (gstr \<times> kstate) option" where
  "gstr_print calc ps = run_all (expr_print_gstr_helper calc) ps"

definition expr_gstr_print :: "calc \<Rightarrow> expr option \<Rightarrow> gstr \<times> kstate \<Rightarrow> (gstr \<times> kstate) option" where
  "expr_gstr_print calc e gk = gstr_print calc (print_ptr (k_sym (snd gk)) e) gk"

definition expr_fprint :: "symtab \<Rightarrow> expr option \<Rightarrow> string option" where
  "expr_fprint T e = (let ps = List.map snd (print_ptr T e) in if None \<in> set ps then None else Some (concat (List.map the ps)))"

end
