(* ===== verification/Kc_Print_Props.thy ===== *)
theory Kc_Print_Props
  imports Kc_Print
begin

text \<open>
  The text that \<open>expr_print\<close> makes says what the expression means: read by the grammar of zconf.y, with
  its precedences, it is an expression with the same value.
\<close>

section \<open>The grammar\<close>

text \<open>
  The rules for \<open>expr\<close> in zconf.y on the printed pieces: ! binds most closely, then && and then ||, both to the left.
  The argument \<open>n\<close> bounds the number of pieces.
\<close>

definition starts :: "string \<Rightarrow> piece list \<Rightarrow> bool" where
  "starts t ts \<longleftrightarrow> ts \<noteq> [] \<and> hd ts = lit t"

definition read_symbol :: "piece list \<Rightarrow> (sym \<times> piece list) option" where
  "read_symbol ts = (if ts = [] then None else map_option (\<lambda>s. (s, tl ts)) (fst (hd ts)))"

definition read_comparison :: "piece list \<Rightarrow> (expr \<times> piece list) option" where
  "read_comparison ts = do {
     (a, r) \<leftarrow> read_symbol ts;
     if starts ''='' r then map_option (\<lambda>(b, r1). (Equal a b, r1)) (read_symbol (tl r))
     else if starts ''!='' r then map_option (\<lambda>(b, r1). (Unequal a b, r1)) (read_symbol (tl r))
     else Some (Sym a, r) }"

text \<open>Operands with an operator between them, joined to the left, and the operands of a level.\<close>

type_synonym reader = "piece list \<Rightarrow> (expr \<times> piece list) option"

fun more :: "string \<Rightarrow> (expr \<Rightarrow> expr \<Rightarrow> expr) \<Rightarrow> reader \<Rightarrow> nat \<Rightarrow> expr \<Rightarrow> reader" where
  "more t f p 0 e ts = None"
| "more t f p (Suc k) e ts = (if starts t ts then do { (x, r) \<leftarrow> p (tl ts); more t f p k (f e x) r } else Some (e, ts))"

definition level :: "string \<Rightarrow> (expr \<Rightarrow> expr \<Rightarrow> expr) \<Rightarrow> reader \<Rightarrow> nat \<Rightarrow> reader" where
  "level t f p k ts = do { (e, r) \<leftarrow> p ts; more t f p k e r }"

definition or_level :: "reader \<Rightarrow> nat \<Rightarrow> reader" where
  "or_level p n = level '' || '' Or (level '' && '' And p n) n"

fun read_not :: "nat \<Rightarrow> reader" where
  "read_not 0 ts = None"
| "read_not (Suc n) ts =
     (if starts ''!'' ts then map_option (\<lambda>(e, r). (Neg e, r)) (read_not n (tl ts))
      else if starts ''('' ts then do { (e, r) \<leftarrow> or_level (read_not n) n (tl ts); if starts '')'' r then Some (e, tl r) else None }
      else read_comparison ts)"

definition read_expr :: "piece list \<Rightarrow> expr option" where
  "read_expr ts = (let n = Suc (length ts) in case or_level (read_not n) n ts of Some (e, []) \<Rightarrow> Some e | _ \<Rightarrow> None)"

section \<open>Operands\<close>

fun and_ops :: "expr \<Rightarrow> expr list" where
  "and_ops (And l r) = and_ops l @ and_ops r"
| "and_ops e = [e]"

fun or_ops :: "expr \<Rightarrow> expr list" where
  "or_ops (Or l r) = or_ops l @ or_ops r"
| "or_ops e = [e]"

lemma ops_nonempty [simp]: "and_ops e \<noteq> []" "or_ops e \<noteq> []"
  by (induction e) simp_all

fun flat :: "string \<Rightarrow> (expr \<Rightarrow> piece list) \<Rightarrow> expr list \<Rightarrow> piece list" where
  "flat t pr [] = []"
| "flat t pr (x # xs) = pr x @ concat (List.map (\<lambda>y. lit t # pr y) xs)"

lemma flat_append: "xs \<noteq> [] \<Longrightarrow> ys \<noteq> [] \<Longrightarrow> flat t pr (xs @ ys) = flat t pr xs @ lit t # flat t pr ys"
  by (cases xs; cases ys) simp_all

lemma compare_simps [simp]:
  "expr_compare_type E_OR t > 0 \<longleftrightarrow> t = E_LIST \<or> t = E_NONE" "expr_compare_type E_AND t > 0 \<longleftrightarrow> t = E_OR \<or> t = E_LIST \<or> t = E_NONE"
  "expr_compare_type E_NOT t > 0 \<longleftrightarrow> t = E_AND \<or> t = E_OR \<or> t = E_LIST \<or> t = E_NONE" "\<not> expr_compare_type E_NONE t > 0"
  by (cases t; simp add: expr_compare_type_def Let_def)+

text \<open>The pieces of an expression are those of its operands with the operator between them.\<close>

lemma print_and: "expr_print T e E_AND = flat '' && '' (\<lambda>x. expr_print T x E_NOT) (and_ops e)"
  by (induction e) (simp_all add: in_parens_def flat_append)

lemma print_or: "expr_print T e E_OR = flat '' || '' (\<lambda>x. expr_print T x E_AND) (or_ops e)"
  by (induction e) (simp_all add: in_parens_def flat_append)

lemma print_none: "expr_print T e E_NONE = expr_print T e E_OR"
  by (cases e) (simp_all add: in_parens_def)

section \<open>Reading a list of operands\<close>

text \<open>The operands are read one by one when no piece is taken for a part of the next operand.\<close>

definition reads :: "reader \<Rightarrow> (piece list \<Rightarrow> bool) \<Rightarrow> piece list \<Rightarrow> expr \<Rightarrow> bool" where
  "reads p ok ts e \<longleftrightarrow> (\<forall>rest. ok rest \<longrightarrow> (\<exists>x. p (ts @ rest) = Some (x, rest) \<and> (\<forall>v. expr_calc_value v x = expr_calc_value v e)))"

lemma readsD: "reads p ok ts e \<Longrightarrow> ok rest \<Longrightarrow> \<exists>x. p (ts @ rest) = Some (x, rest) \<and> (\<forall>v. expr_calc_value v x = expr_calc_value v e)"
  by (simp add: reads_def)

lemma starts_lit [simp]: "starts t (lit u # ts) \<longleftrightarrow> u = t" "\<not> starts t []"
  by (auto simp: starts_def lit_def)

lemma more_reads:
  assumes f: "\<And>v a b. expr_calc_value v (f a b) = g (expr_calc_value v a) (expr_calc_value v b)"
    and ok: "\<And>ts. ok (lit t # ts)" and rest: "ok rest" "\<not> starts t rest"
  shows "length xs < k \<Longrightarrow> \<forall>x\<in>set xs. reads p ok (pr x) x \<Longrightarrow>
    \<exists>y. more t f p k e (concat (List.map (\<lambda>y. lit t # pr y) xs) @ rest) = Some (y, rest) \<and>
      (\<forall>v. expr_calc_value v y = foldl g (expr_calc_value v e) (List.map (expr_calc_value v) xs))"
proof (induction xs arbitrary: e k)
  case Nil
  then show ?case using rest by (cases k) auto
next
  case (Cons x xs)
  obtain k' where k: "k = Suc k'" using Cons.prems(1) by (cases k) auto
  let ?r = "concat (List.map (\<lambda>y. lit t # pr y) xs) @ rest"
  have "ok ?r" using ok rest(1) by (cases xs) auto
  then obtain x' where x': "p (pr x @ ?r) = Some (x', ?r)" "\<forall>v. expr_calc_value v x' = expr_calc_value v x"
    using readsD[of p ok "pr x" x, OF _ \<open>ok ?r\<close>] Cons.prems(2) by auto
  obtain y where "more t f p k' (f e x') ?r = Some (y, rest)"
    "\<forall>v. expr_calc_value v y = foldl g (expr_calc_value v (f e x')) (List.map (expr_calc_value v) xs)"
    using Cons.IH[of k' "f e x'"] Cons.prems k by auto
  then show ?case using k x' by (simp add: f)
qed

lemma level_reads:
  assumes f: "\<And>v a b. expr_calc_value v (f a b) = g (expr_calc_value v a) (expr_calc_value v b)"
    and ok: "\<And>ts. ok (lit t # ts)" and xs: "xs \<noteq> []" "length xs \<le> k" "\<forall>x\<in>set xs. reads p ok (pr x) x"
    and e: "\<And>v. expr_calc_value v e = foldl g (expr_calc_value v (hd xs)) (List.map (expr_calc_value v) (tl xs))"
  shows "reads (level t f p k) (\<lambda>r. ok r \<and> \<not> starts t r) (flat t pr xs) e"
  unfolding reads_def
proof (intro allI impI, elim conjE)
  fix rest assume rest: "ok rest" "\<not> starts t rest"
  obtain x ys where x: "xs = x # ys" using xs(1) by (cases xs) auto
  let ?r = "concat (List.map (\<lambda>y. lit t # pr y) ys) @ rest"
  have "ok ?r" using ok rest(1) by (cases ys) auto
  then obtain x' where x': "p (pr x @ ?r) = Some (x', ?r)" "\<forall>v. expr_calc_value v x' = expr_calc_value v x"
    using readsD[of p ok "pr x" x, OF _ \<open>ok ?r\<close>] xs(3) x by auto
  obtain y where "more t f p k x' ?r = Some (y, rest)"
    "\<forall>v. expr_calc_value v y = foldl g (expr_calc_value v x') (List.map (expr_calc_value v) ys)"
    using more_reads[where f = f and g = g and ok = ok and t = t, OF f ok rest, of ys k p pr x'] xs(2,3) x by auto
  then show "\<exists>y. level t f p k (flat t pr xs @ rest) = Some (y, rest) \<and> (\<forall>v. expr_calc_value v y = expr_calc_value v e)"
    using x x' by (simp add: level_def e)
qed

lemma foldl_first: "(\<And>a b c. g (g a b) c = g a (g b c)) \<Longrightarrow> ys \<noteq> [] \<Longrightarrow> foldl g a ys = g a (foldl g (hd ys) (tl ys))"
proof (induction ys arbitrary: a rule: rev_induct)
  case (snoc y ys)
  then show ?case by (cases ys) auto
qed simp

lemma ops_value:
  "expr_calc_value v e = foldl min (expr_calc_value v (hd (and_ops e))) (List.map (expr_calc_value v) (tl (and_ops e)))"
  "expr_calc_value v e = foldl max (expr_calc_value v (hd (or_ops e))) (List.map (expr_calc_value v) (tl (or_ops e)))"
proof (induction e)
  case (And l r)
  case 1
  have "foldl min a (List.map (expr_calc_value v) (and_ops r)) = min a (expr_calc_value v r)" for a
    using foldl_first[of min "List.map (expr_calc_value v) (and_ops r)" a] And.IH(3) by (simp add: min.assoc hd_map map_tl)
  then show ?case using And.IH(1) by (simp add: foldl_append)
next
  case (Or l r)
  case 2
  have "foldl max a (List.map (expr_calc_value v) (or_ops r)) = max a (expr_calc_value v r)" for a
    using foldl_first[of max "List.map (expr_calc_value v) (or_ops r)" a] Or.IH(4) by (simp add: max.assoc hd_map map_tl)
  then show ?case using Or.IH(2) by (simp add: foldl_append)
qed simp_all

section \<open>The expression is read\<close>

text \<open>Symbols on the left have names.\<close>

fun lefts_named :: "symtab \<Rightarrow> expr \<Rightarrow> bool" where
  "lefts_named T (Sym s) \<longleftrightarrow> s_name (T s) \<noteq> None"
| "lefts_named T (Neg e) \<longleftrightarrow> lefts_named T e"
| "lefts_named T (Equal a b) \<longleftrightarrow> s_name (T a) \<noteq> None"
| "lefts_named T (Unequal a b) \<longleftrightarrow> s_name (T a) \<noteq> None"
| "lefts_named T (And l r) \<longleftrightarrow> lefts_named T l \<and> lefts_named T r"
| "lefts_named T (Or l r) \<longleftrightarrow> lefts_named T l \<and> lefts_named T r"

lemma ops_named: "lefts_named T e \<Longrightarrow> x \<in> set (and_ops e) \<union> set (or_ops e) \<Longrightarrow> lefts_named T x"
  by (induction e) auto

lemma ops_size:
  "x \<in> set (and_ops e) \<Longrightarrow> size x \<le> size e" "x \<in> set (or_ops e) \<Longrightarrow> size x \<le> size e"
  by (induction e) auto

definition no_op :: "piece list \<Rightarrow> bool" where
  "no_op ts \<longleftrightarrow> \<not> starts ''='' ts \<and> \<not> starts ''!='' ts"

definition reads_not :: "symtab \<Rightarrow> nat \<Rightarrow> expr \<Rightarrow> bool" where
  "reads_not T n e \<longleftrightarrow> reads (read_not n) no_op (expr_print T e E_NOT) e"

lemma no_op_lit [simp]: "no_op (lit t # ts) \<longleftrightarrow> t \<noteq> ''='' \<and> t \<noteq> ''!=''" "no_op []"
  by (simp_all add: no_op_def)

lemma length_flat: "(\<And>x. pr x \<noteq> []) \<Longrightarrow> length xs \<le> length (flat t pr xs)"
proof -
  assume pr: "\<And>x. pr x \<noteq> []"
  have c: "length ys \<le> length (concat (List.map (\<lambda>y. lit t # pr y) ys))" for ys by (induction ys) auto
  show ?thesis using c[of "tl xs"] pr by (cases xs) (auto simp: Suc_le_eq intro: add_pos_nonneg le_less_trans[of _ "length (concat (List.map (\<lambda>y. lit t # pr y) (tl xs)))"])
qed

lemma print_nonempty [simp]: "expr_print T e t \<noteq> []"
  by (induction T e t rule: expr_print.induct) (simp_all add: in_parens_def)

lemma or_level_reads:
  assumes "\<And>x y. x \<in> set (or_ops e) \<Longrightarrow> y \<in> set (and_ops x) \<Longrightarrow> reads_not T n y" and "length (expr_print T e E_OR) \<le> k"
  shows "reads (or_level (read_not n) k) (\<lambda>r. (no_op r \<and> \<not> starts '' && '' r) \<and> \<not> starts '' || '' r) (expr_print T e E_OR) e"
proof -
  have len: "length (expr_print T x E_AND) \<le> length (expr_print T e E_OR)" if "x \<in> set (or_ops e)" for x
    using that unfolding print_or by (cases "or_ops e") (auto simp: in_set_conv_decomp)
  have inner: "reads (level '' && '' And (read_not n) k) (\<lambda>r. no_op r \<and> \<not> starts '' && '' r) (expr_print T x E_AND) x"
    if x: "x \<in> set (or_ops e)" for x
    unfolding print_and
  proof (rule level_reads[where g = min])
    show "length (and_ops x) \<le> k"
      using length_flat[of "\<lambda>x. expr_print T x E_NOT" "and_ops x" "'' && ''"] len[OF x] assms(2) by (simp add: print_and)
    show "\<forall>y\<in>set (and_ops x). reads (read_not n) no_op (expr_print T y E_NOT) y"
      using assms(1)[OF x] by (simp add: reads_not_def)
  qed (simp_all add: ops_value(1)[symmetric])
  show ?thesis
    unfolding or_level_def print_or
  proof (rule level_reads[where g = max])
    show "length (or_ops e) \<le> k"
      using length_flat[of "\<lambda>x. expr_print T x E_AND" "or_ops e" "'' || ''"] assms(2) by (simp add: print_or)
  qed (use inner in \<open>simp_all add: ops_value(2)[symmetric]\<close>)
qed

lemma read_comparison_reads:
  "s_name (T a) \<noteq> None \<Longrightarrow> reads read_comparison no_op [left_piece T a] (Sym a)"
  "s_name (T a) \<noteq> None \<Longrightarrow> reads read_comparison no_op [left_piece T a, lit ''='', right_piece T b] (Equal a b)"
  "s_name (T a) \<noteq> None \<Longrightarrow> reads read_comparison no_op [left_piece T a, lit ''!='', right_piece T b] (Unequal a b)"
  by (auto simp: reads_def read_comparison_def read_symbol_def left_piece_def right_piece_def no_op_def)

lemma reads_Suc:
  "reads p ok ts e \<Longrightarrow> (\<And>rest. q (ts @ rest) = p (ts @ rest)) \<Longrightarrow> reads q ok ts e"
  by (simp add: reads_def)

lemma length_operand: "x \<in> set xs \<Longrightarrow> length (pr x) \<le> length (flat t pr xs)"
  by (cases xs) (auto simp: in_set_conv_decomp)

lemma length_ops:
  "x \<in> set (or_ops e) \<Longrightarrow> y \<in> set (and_ops x) \<Longrightarrow> length (expr_print T y E_NOT) \<le> length (expr_print T e E_OR)"
  using length_operand[of x "or_ops e" "\<lambda>x. expr_print T x E_AND" "'' || ''"]
    length_operand[of y "and_ops x" "\<lambda>x. expr_print T x E_NOT" "'' && ''"]
  by (simp add: print_or[of T e] print_and[of T x])

lemma read_parens:
  assumes "reads (or_level (read_not n) n) (\<lambda>r. (no_op r \<and> \<not> starts '' && '' r) \<and> \<not> starts '' || '' r) ts e"
  shows "reads (read_not (Suc n)) no_op (lit ''('' # ts @ [lit '')'']) e"
  unfolding reads_def
proof (intro allI impI)
  fix rest assume "no_op rest"
  obtain x where "or_level (read_not n) n (ts @ lit '')'' # rest) = Some (x, lit '')'' # rest)" "\<forall>v. expr_calc_value v x = expr_calc_value v e"
    using readsD[OF assms, of "lit '')'' # rest"] by auto
  then show "\<exists>x. read_not (Suc n) ((lit ''('' # ts @ [lit '')'']) @ rest) = Some (x, rest) \<and> (\<forall>v. expr_calc_value v x = expr_calc_value v e)"
    by simp
qed

text \<open>The number of pieces bounds the depth.\<close>

lemma read_not_reads: "lefts_named T e \<Longrightarrow> length (expr_print T e E_NOT) \<le> n \<Longrightarrow> reads_not T n e"
proof (induction "size e" arbitrary: e n rule: less_induct)
  case less
  have "expr_print T e E_NOT \<noteq> []" by simp
  then obtain m where n: "n = Suc m" using less.prems(2) by (cases n) auto
  have sym: "reads_not T n e" if "reads read_comparison no_op (expr_print T e E_NOT) e" "expr_print T e E_NOT = left_piece T a # qs" "s_name (T a) \<noteq> None" for a qs
  proof -
    have "read_not n (expr_print T e E_NOT @ rest) = read_comparison (expr_print T e E_NOT @ rest)" for rest
      using that(2,3) by (auto simp: n starts_def left_piece_def lit_def)
    then show ?thesis using that(1) by (simp add: reads_not_def reads_def)
  qed
  have parens: "reads_not T n e" if p: "expr_print T e E_NOT = lit ''('' # expr_print T e E_OR @ [lit '')'']"
    and sz: "\<And>x y. x \<in> set (or_ops e) \<Longrightarrow> y \<in> set (and_ops x) \<Longrightarrow> size y < size e"
  proof -
    have len: "length (expr_print T e E_OR) \<le> m" using less.prems(2) p n by simp
    have "reads_not T m y" if "x \<in> set (or_ops e)" "y \<in> set (and_ops x)" for x y
    proof (rule less.hyps[OF sz[OF that]])
      show "lefts_named T y" using ops_named[of T x y] ops_named[of T e x] less.prems(1) that by blast
      show "length (expr_print T y E_NOT) \<le> m" using length_ops[OF that, of T] len by simp
    qed
    from read_parens[OF or_level_reads[OF this len]] show ?thesis by (simp add: reads_not_def p n)
  qed
  show ?case
  proof (cases e)
    case (Sym s)
    then show ?thesis using sym[of s] read_comparison_reads(1)[of T s] less.prems(1) by (simp add: in_parens_def)
  next
    case (Equal a b)
    then show ?thesis using sym[of a] read_comparison_reads(2)[of T a b] less.prems(1) by (simp add: in_parens_def)
  next
    case (Unequal a b)
    then show ?thesis using sym[of a] read_comparison_reads(3)[of T a b] less.prems(1) by (simp add: in_parens_def)
  next
    case (Neg x)
    have "reads_not T m x" by (rule less.hyps) (use less.prems Neg n in \<open>simp_all add: in_parens_def\<close>)
    then show ?thesis
      unfolding reads_not_def reads_def Neg n by (fastforce simp: in_parens_def)
  next
    case (And l r)
    show ?thesis
      by (rule parens) (use And ops_size(1)[of _ l] ops_size(1)[of _ r] in \<open>fastforce simp: in_parens_def\<close>)+
  next
    case (Or l r)
    have "size y < size e" if xy: "x \<in> set (or_ops e)" "y \<in> set (and_ops x)" for x y
    proof -
      have "size x \<le> size l \<or> size x \<le> size r" using xy(1) Or ops_size(2)[of x l] ops_size(2)[of x r] by auto
      then show ?thesis using ops_size(1)[OF xy(2)] Or by auto
    qed
    then show ?thesis using parens Or by (simp add: in_parens_def)
  qed
qed

section \<open>The property\<close>

text \<open>
  C35: What \<open>expr_print\<close> prints, read by the grammar of the configuration files, has the value of the expression under every
  assignment: the parentheses are where the grammar needs them. The operators are joined to the left, so that the expression
  itself may be another one.
\<close>

theorem expr_print_read_back:
  assumes "lefts_named T e"
  shows "\<exists>e'. read_expr (expr_print T e E_NONE) = Some e' \<and> (\<forall>v. expr_calc_value v e' = expr_calc_value v e)"
proof -
  let ?ts = "expr_print T e E_OR"
  have "reads_not T (Suc (length ?ts)) y" if "x \<in> set (or_ops e)" "y \<in> set (and_ops x)" for x y
  proof (rule read_not_reads)
    show "lefts_named T y" using ops_named[of T x y] ops_named[of T e x] assms that by blast
    show "length (expr_print T y E_NOT) \<le> Suc (length ?ts)" using length_ops[OF that, of T] by simp
  qed
  then have "reads (or_level (read_not (Suc (length ?ts))) (Suc (length ?ts))) (\<lambda>r. (no_op r \<and> \<not> starts '' && '' r) \<and> \<not> starts '' || '' r) ?ts e"
    by (rule or_level_reads) simp_all
  from readsD[OF this, of "[]"] obtain x where x: "or_level (read_not (Suc (length ?ts))) (Suc (length ?ts)) ?ts = Some (x, [])"
    "\<forall>v. expr_calc_value v x = expr_calc_value v e" by auto
  have "read_expr (expr_print T e E_NONE) = Some x" unfolding print_none read_expr_def Let_def x(1) by simp
  then show ?thesis using x(2) by blast
qed

theorem expr_print_read_back_witness:
  "\<exists>e'. read_expr (expr_print example_st (And (Or (Sym (sym_at 1)) (Neg (Sym (sym_at 3)))) (Equal (sym_at 2) symbol_yes)) E_NONE) = Some e' \<and>
    (\<forall>v. expr_calc_value v e' = expr_calc_value v (And (Or (Sym (sym_at 1)) (Neg (Sym (sym_at 3)))) (Equal (sym_at 2) symbol_yes)))"
  by (rule expr_print_read_back) (simp add: example_st_def example_symbol_def)

end
