(* ===== verification/Kc_Search.thy ===== *)
theory Kc_Search
  imports Kc_Menu
begin

text \<open>
  The functions that work on the names of symbols: the expansion of names in a string, and the search for the symbols
  that match a pattern. The matcher, \<open>regexec\<close> of a compiled pattern, is an argument, which gives the
  start and the end of the first match.
\<close>

section \<open>Expansion\<close>

text \<open>The value that stands for a name; of an unknown symbol nothing.\<close>

definition symbol_text :: "calc \<Rightarrow> string \<Rightarrow> kstate \<Rightarrow> (string \<times> kstate) option" where
  "symbol_text calc name st =
     (case sym_find name st of
        None \<Rightarrow> Some ([], st)
      | Some s \<Rightarrow> do { st1 \<leftarrow> calc s st; sym_get_string_value calc s st1 })"

definition name_char :: "char \<Rightarrow> bool" where
  "name_char c \<longleftrightarrow> isalnum c \<or> c = CHR ''_''"

text \<open>The loop over the names, each of which stands for what \<open>f\<close> makes of it.\<close>

function expand_loop :: "(string \<Rightarrow> kstate \<Rightarrow> (string \<times> kstate) option) \<Rightarrow> string \<Rightarrow> string \<Rightarrow> kstate \<Rightarrow> (string \<times> kstate) option" where
  "expand_loop f res inp st =
     (case dropWhile (\<lambda>c. c \<noteq> CHR ''$'') inp of
        [] \<Rightarrow> Some (res @ inp, st)
      | _ # src \<Rightarrow> do {
          (symval, st1) \<leftarrow> f (takeWhile name_char src) st;
          expand_loop f (res @ takeWhile (\<lambda>c. c \<noteq> CHR ''$'') inp @ symval) (dropWhile name_char src) st1 })"
  by pat_completeness auto
termination expand_loop
proof (relation "measure (\<lambda>(f, res, inp, st). length inp)", simp)
  fix f :: "string \<Rightarrow> kstate \<Rightarrow> (string \<times> kstate) option" and res inp st c src
  assume "dropWhile (\<lambda>c. c \<noteq> CHR ''$'') inp = c # src"
  then have "Suc (length src) \<le> length inp" using length_dropWhile_le[of "\<lambda>c. c \<noteq> CHR ''$''" inp] by simp
  moreover have "length (dropWhile name_char src) \<le> length src" by (rule length_dropWhile_le)
  ultimately show "((f, r, dropWhile name_char src, st1), f, res, inp, st) \<in> measure (\<lambda>(f, res, inp, st). length inp)" for r st1
    by simp
qed

declare expand_loop.simps [simp del]

definition sym_expand_string_value :: "calc \<Rightarrow> string \<Rightarrow> kstate \<Rightarrow> (string \<times> kstate) option" where
  "sym_expand_string_value calc inp st = expand_loop (symbol_text calc) [] inp st"

text \<open>\<open>conf_expand_value\<close> of confdata.c is the same, but makes a symbol of an unknown name.\<close>

definition conf_symbol_text :: "calc \<Rightarrow> string \<Rightarrow> kstate \<Rightarrow> (string \<times> kstate) option" where
  "conf_symbol_text calc name st =
     (case sym_lookup (Some name) 0 st of (s, st1) \<Rightarrow> do { st2 \<leftarrow> calc s st1; sym_get_string_value calc s st2 })"

definition conf_expand_value :: "calc \<Rightarrow> string \<Rightarrow> kstate \<Rightarrow> (string \<times> kstate) option" where
  "conf_expand_value calc inp st = expand_loop (conf_symbol_text calc) [] inp st"

lemma expand_loop_plain: "CHR ''$'' \<notin> set inp \<Longrightarrow> expand_loop f [] inp st = Some (inp, st)"
proof -
  assume "CHR ''$'' \<notin> set inp"
  then have "dropWhile (\<lambda>c. c \<noteq> CHR ''$'') inp = []" by (auto simp: dropWhile_eq_Nil_conv)
  then show ?thesis by (subst expand_loop.simps) (simp only: list.case append_Nil)
qed

lemma expand_plain: "CHR ''$'' \<notin> set inp \<Longrightarrow> sym_expand_string_value calc inp st = Some (inp, st)"
  and conf_expand_plain: "CHR ''$'' \<notin> set inp \<Longrightarrow> conf_expand_value calc inp st = Some (inp, st)"
  by (simp_all add: sym_expand_string_value_def conf_expand_value_def expand_loop_plain)

section \<open>Search\<close>

text \<open>A matched symbol with its name, and where the match starts and ends.\<close>

record sym_match =
  sm_sym :: sym
  sm_name :: string
  sm_so :: nat
  sm_eo :: nat

fun strcmp :: "string \<Rightarrow> string \<Rightarrow> int" where
  "strcmp [] [] = 0"
| "strcmp [] (d # t) = -1"
| "strcmp (c # s) [] = 1"
| "strcmp (c # s) (d # t) = (if code c < code d then -1 else if code d < code c then 1 else strcmp s t)"

definition exact :: "sym_match \<Rightarrow> bool" where
  "exact m \<longleftrightarrow> sm_eo m - sm_so m = length (sm_name m)"

definition sym_rel_comp :: "sym_match \<Rightarrow> sym_match \<Rightarrow> int" where
  "sym_rel_comp s1 s2 =
     (if exact s1 \<and> \<not> exact s2 then -1
      else if \<not> exact s1 \<and> exact s2 then 1
      else strcmp (sm_name s1) (sm_name s2))"

text \<open>The loop over all symbols, which calculates every symbol that matches.\<close>

fun collect_matches :: "calc \<Rightarrow> (string \<Rightarrow> (nat \<times> nat) option) \<Rightarrow> sym list \<Rightarrow> kstate \<Rightarrow> (sym_match list \<times> kstate) option" where
  "collect_matches calc regexec [] st = Some ([], st)"
| "collect_matches calc regexec (s # ss) st =
     (let y = k_sym st s in
      case (if has_flag y SYMBOL_CONST then None else s_name y) of
        None \<Rightarrow> collect_matches calc regexec ss st
      | Some name \<Rightarrow>
          (case regexec name of
             None \<Rightarrow> collect_matches calc regexec ss st
           | Some (so, eo) \<Rightarrow> do {
               st1 \<leftarrow> calc s st;
               (ms, st2) \<leftarrow> collect_matches calc regexec ss st1;
               Some (\<lparr>sm_sym = s, sm_name = name, sm_so = so, sm_eo = eo\<rparr> # ms, st2) }))"

text \<open>\<open>qsort\<close> with a comparison.\<close>

fun insert_by :: "('a \<Rightarrow> 'a \<Rightarrow> int) \<Rightarrow> 'a \<Rightarrow> 'a list \<Rightarrow> 'a list" where
  "insert_by cmp x [] = [x]"
| "insert_by cmp x (y # ys) = (if cmp x y \<le> 0 then x # y # ys else y # insert_by cmp x ys)"

definition qsort :: "('a \<Rightarrow> 'a \<Rightarrow> int) \<Rightarrow> 'a list \<Rightarrow> 'a list" where
  "qsort cmp xs = foldr (insert_by cmp) xs []"

text \<open>\<open>regcomp\<close> gives the matcher, or None when the pattern is malformed. NULL, an array without symbols, is the empty list.\<close>

definition sym_re_search ::
  "calc \<Rightarrow> (string \<Rightarrow> (string \<Rightarrow> (nat \<times> nat) option) option) \<Rightarrow> string \<Rightarrow> kstate \<Rightarrow> (sym list \<times> kstate) option"
where
  "sym_re_search calc regcomp pattern st =
     (if pattern = [] then Some ([], st)
      else (case regcomp pattern of
              None \<Rightarrow> Some ([], st)
            | Some regexec \<Rightarrow> do {
                (ms, st1) \<leftarrow> collect_matches calc regexec (for_all_symbols st) st;
                Some (map sm_sym (qsort sym_rel_comp ms), st1) }))"

section \<open>The order of the result\<close>

lemma strcmp_swap: "strcmp s t \<le> 0 \<or> strcmp t s \<le> 0"
  by (induction s t rule: strcmp.induct) auto

lemma strcmp_trans: "strcmp s t \<le> 0 \<Longrightarrow> strcmp t u \<le> 0 \<Longrightarrow> strcmp s u \<le> 0"
proof (induction s t arbitrary: u rule: strcmp.induct)
  case (4 c s d t)
  show ?case
  proof (cases u)
    case (Cons e v)
    have ih: "strcmp s v \<le> 0" if "code c = code d" "strcmp s t \<le> 0" "strcmp t v \<le> 0"
      using 4(1)[of v] that by simp
    have "\<not> code d < code c" "\<not> code e < code d" using 4(2,3) Cons by auto
    then consider "code c < code e" | "code c = code d" "code d = code e" by linarith
    then show ?thesis
    proof cases
      case 2
      then have "strcmp s t \<le> 0" "strcmp t v \<le> 0" using 4(2,3) Cons by simp_all
      then show ?thesis using ih 2 Cons by simp
    qed (use Cons in simp)
  qed (use 4 in simp)
next
  case (2 d t)
  then show ?case by (cases u) simp_all
qed simp_all

lemma cmp_swap: "sym_rel_comp a b \<le> 0 \<or> sym_rel_comp b a \<le> 0"
  using strcmp_swap[of "sm_name a" "sm_name b"] by (simp add: sym_rel_comp_def)

lemma cmp_trans: "sym_rel_comp a b \<le> 0 \<Longrightarrow> sym_rel_comp b c \<le> 0 \<Longrightarrow> sym_rel_comp a c \<le> 0"
  using strcmp_trans[of "sm_name a" "sm_name b" "sm_name c"] by (auto simp: sym_rel_comp_def split: if_splits)

definition in_order :: "sym_match list \<Rightarrow> bool" where
  "in_order ms \<longleftrightarrow> sorted_wrt (\<lambda>a b. sym_rel_comp a b \<le> 0) ms"

lemma set_insert_by [simp]: "set (insert_by cmp x ys) = insert x (set ys)"
  by (induction ys) auto

lemma insert_in_order: "in_order ms \<Longrightarrow> in_order (insert_by sym_rel_comp m ms)"
proof (induction ms)
  case (Cons a ms)
  have "sym_rel_comp a m \<le> 0" if "\<not> sym_rel_comp m a \<le> 0" using cmp_swap[of a m] that by simp
  moreover have "sym_rel_comp m b \<le> 0" if "sym_rel_comp m a \<le> 0" "b \<in> set ms" for b
    using cmp_trans[OF that(1)] Cons.prems that(2) by (auto simp: in_order_def)
  ultimately show ?case using Cons by (auto simp: in_order_def)
qed (simp add: in_order_def)

lemma qsort_in_order: "in_order (qsort sym_rel_comp ms)"
  by (induction ms) (simp_all add: qsort_def in_order_def insert_in_order[unfolded in_order_def])

lemma set_qsort: "set (qsort cmp xs) = set xs" and length_qsort: "length (qsort cmp xs) = length xs"
proof -
  have l: "length (insert_by cmp x ys) = Suc (length ys)" for x ys by (induction ys) simp_all
  show "set (qsort cmp xs) = set xs" by (induction xs) (simp_all add: qsort_def)
  show "length (qsort cmp xs) = length xs" by (induction xs) (simp_all add: qsort_def l)
qed

text \<open>
  Every symbol that is found has a name that the pattern matches, and the symbols whose whole name matches come first.
\<close>

lemma matches_sound: "collect_matches calc regexec ss st = Some (ms, st') \<Longrightarrow> m \<in> set ms \<Longrightarrow>
    sm_sym m \<in> set ss \<and> regexec (sm_name m) = Some (sm_so m, sm_eo m)"
  by (induction ss arbitrary: st ms) (fastforce split: option.splits if_splits Option.bind_splits simp: Let_def)+

lemma search_in_order:
  assumes "sym_re_search calc regcomp pattern st = Some (l, st')" and "pattern \<noteq> []" and "regcomp pattern = Some regexec"
  shows "\<exists>ms. l = map sm_sym ms \<and> in_order ms \<and>
    (\<forall>m\<in>set ms. sm_sym m \<in> set (for_all_symbols st) \<and> regexec (sm_name m) = Some (sm_so m, sm_eo m))"
proof -
  obtain ms where ms: "collect_matches calc regexec (for_all_symbols st) st = Some (ms, st')" "l = map sm_sym (qsort sym_rel_comp ms)"
    using assms by (auto simp: sym_re_search_def split: Option.bind_splits)
  have "\<forall>m\<in>set (qsort sym_rel_comp ms). sm_sym m \<in> set (for_all_symbols st) \<and> regexec (sm_name m) = Some (sm_so m, sm_eo m)"
    using matches_sound[OF ms(1)] by (simp add: set_qsort)
  then show ?thesis using ms(2) qsort_in_order by blast
qed

end
