(* ===== verification/Kc_Files.thy ===== *)
theory Kc_Files
  imports Kc_Search Kc_Auto Kc_Write_Total
begin

text \<open>
  The files that confdata.c and util.c choose, read and write: which configuration is read, the file of dependencies,
  and the files of \<open>conf_write_autoconf\<close>. The file system is a map from names to contents. Names are short enough for
  the buffers of \<open>PATH_MAX\<close> characters.
\<close>

section \<open>The system\<close>

text \<open>
  The environment, which names are directories, the number of the process, which files can be opened for writing, which
  renamings are possible, and whether the directory of a file can be entered.
\<close>

record sys =
  sys_getenv :: "string \<Rightarrow> string option"
  sys_is_dir :: "string \<Rightarrow> bool"
  sys_pid :: nat
  sys_writable :: "string \<Rightarrow> bool"
  sys_movable :: "string \<Rightarrow> string \<Rightarrow> bool"
  sys_enter :: "string \<Rightarrow> bool"

definition conf_get_configname :: "sys \<Rightarrow> string" where
  "conf_get_configname sys = (case sys_getenv sys ''BR2_CONFIG'' of Some name \<Rightarrow> name | None \<Rightarrow> ''.config'')"

definition conf_get_autoconfig_name :: "sys \<Rightarrow> string option" where
  "conf_get_autoconfig_name sys = sys_getenv sys ''KCONFIG_AUTOCONFIG''"

definition out_env_of :: "sys \<Rightarrow> out_env" where
  "out_env_of sys = \<lparr>oe_configname = conf_get_configname sys, oe_is_dir = sys_is_dir sys,
     oe_overwrite = sys_getenv sys ''KCONFIG_OVERWRITECONFIG'', oe_pid = sys_pid sys, oe_writable = sys_writable sys,
     oe_movable = sys_movable sys\<rparr>"

definition can_stat :: "sys \<Rightarrow> files \<Rightarrow> string \<Rightarrow> bool" where
  "can_stat sys fs name \<longleftrightarrow> sys_is_dir sys name \<or> fs name \<noteq> None"

section \<open>Reading\<close>

text \<open>The contents of the file, below the directory \<open>srctree\<close> if it is not here.\<close>

definition zconf_fopen :: "sys \<Rightarrow> files \<Rightarrow> string \<Rightarrow> string option" where
  "zconf_fopen sys fs name =
     (case fs name of
        Some txt \<Rightarrow> Some txt
      | None \<Rightarrow>
          if take 1 name = ''/'' then None
          else (case sys_getenv sys ''srctree'' of None \<Rightarrow> None | Some d \<Rightarrow> fs (d @ ''/'' @ name)))"

definition conf_defname :: string where "conf_defname = ''.defconfig''"

definition conf_get_default_confname :: "calc \<Rightarrow> sys \<Rightarrow> files \<Rightarrow> kstate \<Rightarrow> (string \<times> kstate) option" where
  "conf_get_default_confname calc sys fs st = do {
     (name, st1) \<leftarrow> conf_expand_value calc conf_defname st;
     Some (case sys_getenv sys ''srctree'' of
             None \<Rightarrow> (name, st1)
           | Some d \<Rightarrow> (if can_stat sys fs (d @ ''/'' @ name) then d @ ''/'' @ name else name, st1)) }"

definition conf_message :: "string \<Rightarrow> string" where
  "conf_message msg = ''#'' @ newline @ ''# '' @ msg @ newline @ ''#'' @ newline"

text \<open>The first default of \<open>sym_defconfig_list\<close> whose condition holds and whose file is there.\<close>

fun find_defaults :: "calc \<Rightarrow> sys \<Rightarrow> files \<Rightarrow> property list \<Rightarrow> kstate \<Rightarrow> ((string \<times> string) option \<times> kstate) option" where
  "find_defaults calc sys fs [] st = Some (None, st)"
| "find_defaults calc sys fs (p # ps) st =
     (if p_type p \<noteq> P_DEFAULT then find_defaults calc sys fs ps st
      else do {
        (v, st1) \<leftarrow> calc_expr_ptr calc (ev_expr (p_visible p)) st;
        case (if v = tri_no then None else prop_get_symbol p) of
          None \<Rightarrow> find_defaults calc sys fs ps st1
        | Some s \<Rightarrow> do {
            text \<leftarrow> s_name (k_sym st1 s);
            (name, st2) \<leftarrow> conf_expand_value calc text st1;
            case zconf_fopen sys fs name of
              Some txt \<Rightarrow> Some (Some (name, txt), st2)
            | None \<Rightarrow> find_defaults calc sys fs ps st2 } })"

definition no_counts :: "kstate \<Rightarrow> conf" where
  "no_counts st = \<lparr>c_st = st, c_lineno = 0, c_warnings = 0, c_unsaved = 0\<rparr>"

text \<open>
  \<open>conf_read_simple\<close>: 0 with the configuration that was read, or 1; and what is printed. The name None is NULL,
  for the configuration itself or, when it is missing, a default one.
\<close>

definition conf_read_simple ::
  "nat \<Rightarrow> string \<Rightarrow> sys \<Rightarrow> sym option \<Rightarrow> def_index \<Rightarrow> string option \<Rightarrow> files \<Rightarrow> kstate \<Rightarrow> (nat \<times> string \<times> conf) option"
where
  "conf_read_simple n pre sys defconfig d name fs st =
     (let load = (\<lambda>msg txt st1. map_option (\<lambda>c. (0, msg, c)) (load_config n pre d txt (no_counts st1))) in
      case name of
        Some f \<Rightarrow> (case zconf_fopen sys fs f of None \<Rightarrow> Some (1, [], no_counts st) | Some txt \<Rightarrow> load [] txt st)
      | None \<Rightarrow>
          (case zconf_fopen sys fs (conf_get_configname sys) of
             Some txt \<Rightarrow> load [] txt st
           | None \<Rightarrow>
               let st1 = sym_add_change_count 1 st in
               (case defconfig of
                  None \<Rightarrow> map_option (\<lambda>st2. (1, [], no_counts st2)) (sym_calc_value n (k_modules st1) st1)
                | Some s \<Rightarrow> do {
                    (found, st2) \<leftarrow> find_defaults (sym_calc_value n) sys fs (s_prop (k_sym st1 s)) st1;
                    case found of
                      None \<Rightarrow> Some (1, [], no_counts st2)
                    | Some (f, txt) \<Rightarrow> load (conf_message (''using defaults found in '' @ f)) txt st2 })))"

definition conf_read ::
  "nat \<Rightarrow> string \<Rightarrow> sys \<Rightarrow> sym option \<Rightarrow> string option \<Rightarrow> files \<Rightarrow> kstate \<Rightarrow> (nat \<times> string \<times> kstate) option"
where
  "conf_read n pre sys defconfig name fs st = do {
     (r, msg, c) \<leftarrow> conf_read_simple n pre sys defconfig S_DEF_USER name fs (sym_set_change_count 0 st);
     if r \<noteq> 0 then Some (1, msg, c_st c)
     else map_option (\<lambda>c1. (0, msg, c_st c1)) (check_config n c) }"

section \<open>The list of files\<close>

text \<open>\<open>file_list\<close> with the last file first; the result is the name in the entry that is found or made.\<close>

definition file_lookup :: "calc \<Rightarrow> string \<Rightarrow> string list \<Rightarrow> kstate \<Rightarrow> (string \<times> string list \<times> kstate) option" where
  "file_lookup calc name l st = do {
     (file_name, st1) \<leftarrow> sym_expand_string_value calc name st;
     Some (if name \<in> set l then (name, l, st1) else (file_name, file_name # l, st1)) }"

definition backslash :: string where "backslash = [CHR 0x5C]"

definition double_quote :: string where "double_quote = [CHR 0x22]"

fun dep_files :: "string list \<Rightarrow> string" where
  "dep_files [] = []"
| "dep_files [f] = tab @ f @ newline"
| "dep_files (f # g # fs) = tab @ f @ '' '' @ backslash @ newline @ dep_files (g # fs)"

text \<open>The lines for a symbol with a value from the environment; None: it has no such property, or one without a name.\<close>

definition dep_env :: "sys \<Rightarrow> kstate \<Rightarrow> sym \<Rightarrow> string option" where
  "dep_env sys st s = do {
     p \<leftarrow> sym_get_env_prop (k_sym st s);
     case prop_get_symbol p of
       None \<Rightarrow> Some []
     | Some e \<Rightarrow> do {
         name \<leftarrow> s_name (k_sym st e);
         let value = (case sys_getenv sys name of None \<Rightarrow> [] | Some v \<Rightarrow> v);
         Some (''ifneq '' @ double_quote @ ''$('' @ name @ '')'' @ double_quote @ '' '' @ double_quote @ value @ double_quote @ newline @
           shown_text (conf_get_autoconfig_name sys) @ '': FORCE'' @ newline @ ''endif'' @ newline) } }"

fun dep_envs :: "sys \<Rightarrow> kstate \<Rightarrow> sym list \<Rightarrow> string option" where
  "dep_envs sys st [] = Some []"
| "dep_envs sys st (s # ss) = do { a \<leftarrow> dep_env sys st s; b \<leftarrow> dep_envs sys st ss; Some (a @ b) }"

definition dep_text :: "sys \<Rightarrow> string list \<Rightarrow> sym list \<Rightarrow> kstate \<Rightarrow> string option" where
  "dep_text sys l env_list st = do {
     envs \<leftarrow> dep_envs sys st env_list;
     Some (''deps_config := '' @ backslash @ newline @ dep_files l @ newline @ shown_text (conf_get_autoconfig_name sys) @ '': '' @
       backslash @ newline @ tab @ ''$(deps_config)'' @ newline @ newline @ envs @ newline @ ''$(deps_config): ;'' @ newline) }"

definition config_dir :: "sys \<Rightarrow> string" where
  "config_dir sys = up_to_slash (conf_get_configname sys)"

text \<open>The result of \<open>rename\<close> is ignored.\<close>

definition file_write_dep ::
  "sys \<Rightarrow> string list \<Rightarrow> sym list \<Rightarrow> string option \<Rightarrow> kstate \<Rightarrow> files \<Rightarrow> (nat \<times> files) option"
where
  "file_write_dep sys l env_list name st fs =
     (let nm = (case name of None \<Rightarrow> ''.kconfig.d'' | Some f \<Rightarrow> f);
          buf = config_dir sys @ ''..config.tmp''
      in if \<not> sys_writable sys buf then Some (1, fs)
         else do {
           text \<leftarrow> dep_text sys l env_list st;
           let fs1 = fs(buf \<mapsto> text);
           Some (0, case rename_file (out_env_of sys) buf (config_dir sys @ nm) fs1 of None \<Rightarrow> fs1 | Some fs2 \<Rightarrow> fs2) })"

section \<open>The files for make\<close>

definition auto_file :: "sys \<Rightarrow> string \<Rightarrow> string" where
  "auto_file sys suffix = config_dir sys @ ''.tmpconfig'' @ suffix"

definition env_or :: "sys \<Rightarrow> string \<Rightarrow> string \<Rightarrow> string" where
  "env_or sys var def = (case sys_getenv sys var of None \<Rightarrow> def | Some v \<Rightarrow> v)"

definition header_name :: "sys \<Rightarrow> string" where
  "header_name sys = env_or sys ''KCONFIG_AUTOHEADER'' ''include/generated/autoconf.h''"

definition tristate_name :: "sys \<Rightarrow> string" where
  "tristate_name sys = env_or sys ''KCONFIG_TRISTATE'' ''include/config/tristate.conf''"

text \<open>The three files are moved to their places one after the other; the first that cannot be moved ends it.\<close>

definition move_texts :: "sys \<Rightarrow> string \<Rightarrow> files \<Rightarrow> nat \<times> files" where
  "move_texts sys name fs =
     (case rename_file (out_env_of sys) (auto_file sys ''.h'') (header_name sys) fs of
        None \<Rightarrow> (1, fs)
      | Some fs1 \<Rightarrow>
          (case rename_file (out_env_of sys) (auto_file sys ''_tristate'') (tristate_name sys) fs1 of
             None \<Rightarrow> (1, fs1)
           | Some fs2 \<Rightarrow>
               (case rename_file (out_env_of sys) (auto_file sys []) name fs2 of
                  None \<Rightarrow> (1, fs2)
                | Some fs3 \<Rightarrow> (0, fs3))))"

text \<open>The files that are opened before any text is written; False when one cannot be opened.\<close>

definition open_texts :: "sys \<Rightarrow> files \<Rightarrow> bool \<times> files" where
  "open_texts sys fs =
     (if \<not> sys_writable sys (auto_file sys []) then (False, fs)
      else let fs1 = fs(auto_file sys [] \<mapsto> []) in
        if \<not> sys_writable sys (auto_file sys ''_tristate'') then (False, fs1)
        else let fs2 = fs1(auto_file sys ''_tristate'' \<mapsto> []) in
          if \<not> sys_writable sys (auto_file sys ''.h'') then (False, fs2)
          else (True, fs2(auto_file sys ''.h'' \<mapsto> [])))"

text \<open>None also when there is no \<open>KCONFIG_AUTOCONFIG\<close>: its name, NULL, is copied.\<close>

definition conf_write_autoconf ::
  "nat \<Rightarrow> string \<Rightarrow> sys \<Rightarrow> string option \<Rightarrow> string list \<Rightarrow> sym list \<Rightarrow> kstate \<Rightarrow> files \<Rightarrow> tree_fs \<Rightarrow>
     (nat \<times> kstate \<times> files \<times> tree_fs) option"
where
  "conf_write_autoconf n pre sys title l env_list st fs t = do {
     st1 \<leftarrow> sym_clear_all_valid n st;
     (_, fs1) \<leftarrow> file_write_dep sys l env_list (Some (config_dir sys @ ''.config.cmd'')) st1 fs;
     name \<leftarrow> conf_get_autoconfig_name sys;
     (r, st2, t1) \<leftarrow> conf_split_config n pre (zconf_fopen sys fs1 name) (sys_enter sys name) (no_counts st1) t;
     if r \<noteq> 0 then Some (1, st2, fs1, t1)
     else
       (case open_texts sys fs1 of
          (False, fs2) \<Rightarrow> Some (1, st2, fs2, t1)
        | (True, fs2) \<Rightarrow> do {
            (st3, tx) \<leftarrow> conf_write_autoconf_texts n pre title st2;
            let fs3 = fs2(auto_file sys [] \<mapsto> at_conf tx, auto_file sys ''_tristate'' \<mapsto> at_tristate tx, auto_file sys ''.h'' \<mapsto> at_header tx);
            (case move_texts sys name fs3 of (r1, fs4) \<Rightarrow> Some (r1, st3, fs4, t1)) }) }"

end
