(* ===== verification/Kc_Help.thy ===== *)
theory Kc_Help
  imports Kc_Print Kc_Write Kc_Finalize
begin

text \<open>
  The text that the front ends show about a symbol and an entry: where it is defined and prompted for, what it depends
  on and selects, with the values of the symbols (\<open>get_symbol_str\<close>, \<open>menu_get_ext_help\<close> of menu.c).
\<close>

section \<open>Prompts\<close>

type_synonym gstate = "gstr \<times> wstate"

definition in_gk :: "(gstr \<times> kstate \<Rightarrow> (gstr \<times> kstate) option) \<Rightarrow> gstate \<Rightarrow> gstate option" where
  "in_gk f st = map_option (\<lambda>(g, k). (g, (snd st)\<lparr>w_k := k\<rparr>)) (f (fst st, w_k (snd st)))"

definition say :: "string \<Rightarrow> gstate \<Rightarrow> gstate" where
  "say s st = (str_printf (fst st) s, snd st)"

definition append_text :: "string \<Rightarrow> gstate \<Rightarrow> gstate" where
  "append_text s st = (str_append (fst st) (Some s), snd st)"

text \<open>\<open>struct jump_key\<close>: where a front end goes from the line of a search result.\<close>

record jump =
  j_offset :: nat
  j_target :: nat
  j_index :: nat

text \<open>
  The menus above an entry, at most eight, from the innermost one, and the first of them that is visible. None: a menu
  without a parent that is not the top one.
\<close>

fun submenus :: "nat \<Rightarrow> nat \<Rightarrow> calc \<Rightarrow> nat option \<Rightarrow> nat option \<Rightarrow> wstate \<Rightarrow> (nat list \<times> nat option \<times> wstate) option" where
  "submenus 0 n calc m location st = Some ([], location, st)"
| "submenus (Suc i) n calc m location st =
     (if m = Some rootmenu then Some ([], location, st)
      else do {
        a \<leftarrow> m;
        (accessible, st1) \<leftarrow> menu_is_visible n calc a st;
        (rest, loc, st2) \<leftarrow> submenus i n calc (m_parent (w_menus st1 a))
           (if location = None \<and> accessible then Some a else location) st1;
        Some (a # rest, loc, st2) })"

definition next_index :: "jump list \<Rightarrow> nat" where
  "next_index head = (if head = [] then 0 else j_index (last head) + 1)"

definition add_jump :: "nat \<Rightarrow> calc \<Rightarrow> nat \<Rightarrow> nat \<Rightarrow> jump list \<Rightarrow> wstate \<Rightarrow> (jump list \<times> wstate) option" where
  "add_jump n calc a location head st = do {
     (v, st1) \<leftarrow> menu_is_visible n calc a st;
     Some (head @ [\<lparr>j_offset = 0, j_target = (if v then a else location), j_index = next_index head\<rparr>], st1) }"

definition set_last_offset :: "nat \<Rightarrow> jump list \<Rightarrow> jump list" where
  "set_last_offset i head = butlast head @ [(last head)\<lparr>j_offset := i\<rparr>]"

text \<open>The lines of the location, from the outermost menu.\<close>

fun print_location :: "calc \<Rightarrow> nat option \<Rightarrow> nat \<Rightarrow> nat list \<Rightarrow> jump list option \<Rightarrow> gstate \<Rightarrow> (jump list option \<times> gstate) option" where
  "print_location calc location j [] head st = Some (head, st)"
| "print_location calc location j (a # as) head st =
     (let head1 = (if location = Some a then map_option (set_last_offset (length (g_s (fst st)))) head else head);
          st1 = say (replicate j CHR 0x20 @ ''-> '' @ shown_text (menu_get_prompt (snd st) a)) st
      in do {
        st2 \<leftarrow> (case m_sym (w_menus (snd st1) a) of
                 None \<Rightarrow> Some st1
               | Some s \<Rightarrow> do {
                   (v, w) \<leftarrow> lift_k (string_or_null calc s) (snd st1);
                   let (shown, k) = shown_string v (w_k w);
                   Some (say ('' ('' @ shown_name (s_name (k_sym (w_k (snd st1)) s)) @ '' [='' @ shown @ ''])'') (fst st1, w\<lparr>w_k := k\<rparr>)) });
        print_location calc location (j + 2) as head1 (append_text newline st2) })"

text \<open>None: a prompt of the top entry or of none.\<close>

definition get_prompt_str :: "nat \<Rightarrow> calc \<Rightarrow> property \<Rightarrow> jump list option \<times> gstate \<Rightarrow> (jump list option \<times> gstate) option" where
  "get_prompt_str n calc p hst = (case hst of (head, st) \<Rightarrow> do {
     let st1 = say (''Prompt: '' @ shown_text (p_text p) @ newline) st;
     a \<leftarrow> p_menu p;
     (subs, location, w) \<leftarrow> submenus 8 n calc (m_parent (w_menus (snd st1) a)) None (snd st1);
     (head1, w1) \<leftarrow> (case (head, location) of
         (Some h, Some l) \<Rightarrow> map_option (\<lambda>(h1, w1). (Some h1, w1)) (add_jump n calc a l h w)
       | _ \<Rightarrow> Some (head, w));
     let st2 = (fst st1, w1);
     if subs = [] then Some (head1, st2)
     else print_location calc location 4 (rev subs) head1 (say (''  Location:'' @ newline) st2) })"

section \<open>Symbols\<close>

definition symbol_lines :: "calc \<Rightarrow> sym \<Rightarrow> gstate \<Rightarrow> gstate option" where
  "symbol_lines calc s st =
     (case s_name (k_sym (w_k (snd st)) s) of
        None \<Rightarrow> Some st
      | Some name \<Rightarrow> do {
          (v, w) \<leftarrow> lift_k (string_or_null calc s) (snd st);
          let (shown, k) = shown_string v (w_k w);
          let y = k_sym k s;
          let st1 = say (''Type  : '' @ sym_type_name (s_type y) @ newline)
                      (say (''Symbol: '' @ name @ '' [='' @ shown @ '']'' @ newline) (fst st, w\<lparr>w_k := k\<rparr>));
          if s_type y = S_INT \<or> s_type y = S_HEX then do {
            (i, w1) \<leftarrow> lift_k (sym_get_range_prop calc s) (snd st1);
            (case i of
               None \<Rightarrow> Some (fst st1, w1)
             | Some i \<Rightarrow> do {
                 let st2 = say ''Range : '' (fst st1, w1);
                 st3 \<leftarrow> in_gk (gstr_print calc (print_prop_expr (k_sym (w_k w1)) (p_expr (s_prop (k_sym (w_k w1) s) ! i)))) st2;
                 Some (append_text newline st3) }) }
          else Some st1 })"

text \<open>None: the entry that defines the symbol is not known.\<close>

definition defined_lines :: "calc \<Rightarrow> sym \<Rightarrow> gstate \<Rightarrow> gstate option" where
  "defined_lines calc s st =
     (case get_symbol_prop (k_sym (w_k (snd st)) s) of
        None \<Rightarrow> Some st
      | Some p \<Rightarrow> do {
          a \<leftarrow> p_menu p;
          let m = w_menus (snd st) a;
          let st1 = say (''  Defined at '' @ m_file m @ '':'' @ nat_str 10 (m_lineno m) @ newline) st;
          if expr_is_yes (ev_expr (p_visible p)) then Some st1
          else do {
            st2 \<leftarrow> in_gk (expr_gstr_print calc (ev_expr (p_visible p))) (append_text ''  Depends on: '' st1);
            Some (append_text newline st2) } })"

definition select_text :: "calc \<Rightarrow> property \<Rightarrow> bool \<times> gstate \<Rightarrow> (bool \<times> gstate) option" where
  "select_text calc p hst = (case hst of (hit, st) \<Rightarrow> do {
     let st1 = (if hit then say '' && '' st else append_text ''  Selects: '' st);
     st2 \<leftarrow> in_gk (gstr_print calc (print_prop_expr (k_sym (w_k (snd st1))) (p_expr p))) st1;
     Some (True, st2) })"

definition select_lines :: "calc \<Rightarrow> sym \<Rightarrow> gstate \<Rightarrow> gstate option" where
  "select_lines calc s st = do {
     (hit, st1) \<leftarrow> run_all (select_text calc) [p \<leftarrow> s_prop (k_sym (w_k (snd st)) s). p_type p = P_SELECT] (False, st);
     let st2 = (if hit then append_text newline st1 else st1);
     let rev = ev_expr (s_rev_dep (k_sym (w_k (snd st2)) s));
     if rev = None then Some st2
     else do {
       st3 \<leftarrow> in_gk (expr_gstr_print calc rev) (append_text ''  Selected by: '' st2);
       Some (append_text newline st3) } }"

definition get_symbol_str :: "nat \<Rightarrow> calc \<Rightarrow> sym \<Rightarrow> jump list option \<times> gstate \<Rightarrow> (jump list option \<times> gstate) option" where
  "get_symbol_str n calc s hst = (case hst of (head, st) \<Rightarrow> do {
     st1 \<leftarrow> symbol_lines calc s st;
     (head1, st2) \<leftarrow> run_all (get_prompt_str n calc) [p \<leftarrow> s_prop (k_sym (w_k (snd st1)) s). p_text p \<noteq> None] (head, st1);
     st3 \<leftarrow> defined_lines calc s st2;
     st4 \<leftarrow> select_lines calc s st3;
     Some (head1, append_text (newline @ newline) st4) })"

definition get_relations_str :: "nat \<Rightarrow> calc \<Rightarrow> sym list \<Rightarrow> jump list option \<Rightarrow> wstate \<Rightarrow> (jump list option \<times> gstate) option" where
  "get_relations_str n calc syms head w = do {
     (head1, st) \<leftarrow> run_all (get_symbol_str n calc) syms (head, (str_new, w));
     Some (head1, if syms = [] then append_text (''No matches found.'' @ newline) st else st) }"

section \<open>Entries\<close>

definition nohelp_text :: string where
  "nohelp_text = ''There is no help available for this option.''"

text \<open>None: an entry with a help text and without a symbol, whose name is read.\<close>

definition menu_get_ext_help :: "nat \<Rightarrow> calc \<Rightarrow> string \<Rightarrow> nat \<Rightarrow> gstate \<Rightarrow> gstate option" where
  "menu_get_ext_help n calc pre a st =
     (let m = w_menus (snd st) a; so = m_sym m in do {
        (st1, text) \<leftarrow> (if menu_has_help m then do {
             s \<leftarrow> so;
             Some (case s_name (k_sym (w_k (snd st)) s) of
                     Some name \<Rightarrow> say (pre @ name @ '':'' @ newline @ newline) st
                   | None \<Rightarrow> st, menu_get_help m) }
           else Some (st, nohelp_text));
        let st2 = say (text @ newline) st1;
        (case so of
           None \<Rightarrow> Some st2
         | Some s \<Rightarrow> map_option snd (get_symbol_str n calc s (None, st2))) })"

end
