(* ===== verification/Kc_Ask.thy ===== *)
theory Kc_Ask
  imports Kc_Help Kc_Auto
begin

text \<open>
  The line-oriented front end, conf.c: the questions about symbols and choices, the walk over the menus that asks
  them, and the search for new symbols.
\<close>

section \<open>State\<close>

datatype input_mode =
  oldaskconfig | silentoldconfig | oldconfig | allnoconfig | allyesconfig | allmodconfig | alldefconfig | randconfig
| defconfig | savedefconfig | listnewconfig | olddefconfig

text \<open>
  The configuration, with the output in \<open>w_out\<close>; what the next calls of \<open>fgets\<close> store, in the order of the calls, and
  nothing more when the input has ended; the variables of conf.c; the number of messages about the end of the input.
\<close>

record ask =
  a_w :: wstate
  a_in :: "string list"
  a_line :: string
  a_indent :: nat
  a_mode :: input_mode
  a_valid :: bool
  a_cnt :: nat
  a_root :: "nat option"
  a_eof :: nat

text \<open>What does not change: the bounds of the calculations and of the visibility, \<open>CONFIG_\<close>, and \<open>tty_stdio\<close>.\<close>

record ask_env =
  e_calc :: nat
  e_menus :: nat
  e_prefix :: string
  e_tty :: bool

text \<open>
  A part of the program: None when a bound is used up or a NULL pointer is followed, \<open>Inl\<close> after \<open>exit(1)\<close>, else the
  result and the state.
\<close>

type_synonym 'a run = "(ask + 'a \<times> ask) option"

definition go :: "'a \<Rightarrow> ask \<Rightarrow> 'a run" where "go a st = Some (Inr (a, st))"

definition and_then :: "'a run \<Rightarrow> ('a \<Rightarrow> ask \<Rightarrow> 'b run) \<Rightarrow> 'b run" where
  "and_then m f = (case m of None \<Rightarrow> None | Some (Inl st) \<Rightarrow> Some (Inl st) | Some (Inr (a, st)) \<Rightarrow> f a st)"

definition on_w :: "(wstate \<Rightarrow> wstate) \<Rightarrow> ask \<Rightarrow> ask" where "on_w f st = st\<lparr>a_w := f (a_w st)\<rparr>"

definition put :: "string \<Rightarrow> ask \<Rightarrow> ask" where "put s = on_w (with_out s)"

definition run_w :: "(wstate \<Rightarrow> ('a \<times> wstate) option) \<Rightarrow> ask \<Rightarrow> 'a run" where
  "run_w f st = (case f (a_w st) of None \<Rightarrow> None | Some (a, w) \<Rightarrow> go a (st\<lparr>a_w := w\<rparr>))"

definition run_k :: "(kstate \<Rightarrow> ('a \<times> kstate) option) \<Rightarrow> ask \<Rightarrow> 'a run" where
  "run_k f = run_w (lift_k f)"

definition a_sym :: "ask \<Rightarrow> sym \<Rightarrow> symbol" where "a_sym st s = k_sym (w_k (a_w st)) s"

definition a_menu :: "ask \<Rightarrow> nat \<Rightarrow> menu" where "a_menu st a = w_menus (a_w st) a"

definition is_visible :: "ask_env \<Rightarrow> nat \<Rightarrow> ask \<Rightarrow> bool run" where
  "is_visible env a = run_w (menu_is_visible (e_menus env) (sym_calc_value (e_calc env)) a)"

definition spaces :: "nat \<Rightarrow> string" where "spaces n = replicate n CHR 0x20"

text \<open>\<open>%*s\<close> and \<open>%*c\<close> with the indentation.\<close>

definition margin :: "ask \<Rightarrow> string" where "margin st = spaces (a_indent st - 1)"

definition starred :: "ask \<Rightarrow> char \<Rightarrow> string" where "starred st c = margin st @ [c]"

section \<open>Lines\<close>

definition strip :: "string \<Rightarrow> string" where
  "strip s = rev (dropWhile isspace (rev (dropWhile isspace s)))"

text \<open>At the end of the input the buffer keeps what it has.\<close>

definition xfgets :: "ask \<Rightarrow> ask" where
  "xfgets st =
     (case a_in st of
        [] \<Rightarrow> st\<lparr>a_eof := Suc (a_eof st)\<rparr>
      | l # ls \<Rightarrow> st\<lparr>a_line := l, a_in := ls\<rparr>)"

definition print_help :: "ask_env \<Rightarrow> nat \<Rightarrow> ask \<Rightarrow> unit run" where
  "print_help env a st =
     (case menu_get_ext_help (e_menus env) (sym_calc_value (e_calc env)) (e_prefix env) a (str_new, a_w st) of
        None \<Rightarrow> None
      | Some (g, w) \<Rightarrow> go () (put (newline @ g_s g @ newline) (st\<lparr>a_w := w\<rparr>)))"

definition check_stdin :: "ask \<Rightarrow> unit run" where
  "check_stdin st =
     (if a_valid st then go () st
      else Some (Inl (put (''aborted!'' @ newline @ newline @ ''Console input/output is redirected. ''
             @ ''Run '' @ quoted ''make oldconfig'' @ '' to update configuration.'' @ newline @ newline) st)))"

definition ask_line :: "ask_env \<Rightarrow> ask \<Rightarrow> ask" where
  "ask_line env st = (if e_tty env then xfgets st else put newline (xfgets st))"

text \<open>\<open>conf_askvalue\<close>: whether there is an answer to look at.\<close>

definition conf_askvalue :: "ask_env \<Rightarrow> sym \<Rightarrow> string option \<Rightarrow> ask \<Rightarrow> bool run" where
  "conf_askvalue env s def st =
     (let type = sym_get_type (w_k (a_w st)) s;
          has = sym_has_value (a_sym st s);
          st1 = (if \<not> has then put ''(NEW) '' st else st)\<lparr>a_line := newline\<rparr>;
          show_def = put (shown_text def @ newline)
      in if \<not> sym_is_changable (a_sym st1 s) then go False ((show_def st1)\<lparr>a_line := newline\<rparr>)
         else if a_mode st1 = oldconfig \<or> a_mode st1 = silentoldconfig then
           if has then go False (show_def st1)
           else and_then (check_stdin st1) (\<lambda>_ st2. go True (ask_line env st2))
         else if a_mode st1 = oldaskconfig then go True (ask_line env st1)
         else if type = S_INT \<or> type = S_HEX \<or> type = S_STRING then go True (show_def st1)
         else go True (put (a_line st1) st1))"

section \<open>Strings\<close>

text \<open>The string to set; None after the help.\<close>

definition string_answer :: "string \<Rightarrow> string option \<Rightarrow> string option" where
  "string_answer l def = (if take 1 l = newline then def else if take 2 l = ''?'' @ newline then None else Some (butlast l))"

definition prompt_text :: "ask \<Rightarrow> nat \<Rightarrow> string option" where
  "prompt_text st a = (case m_prompt (a_menu st a) of Some pr \<Rightarrow> p_text (prompt_prop (a_w st) pr) | None \<Rightarrow> None)"

definition string_question :: "ask_env \<Rightarrow> nat \<Rightarrow> sym \<Rightarrow> ask \<Rightarrow> (string option \<times> bool) run" where
  "string_question env a s st =
     (let st1 = put (margin st @ shown_text (prompt_text st a) @ '' '' @ ''('' @ shown_text (s_name (a_sym st s)) @ '') '') st
      in and_then (run_k (string_or_null (sym_calc_value (e_calc env)) s) st1) (\<lambda>def st2.
         and_then (run_k (string_or_null (sym_calc_value (e_calc env)) s) st2) (\<lambda>again st3.
           let st4 = (if again \<noteq> None then put (''['' @ shown_text def @ ''] '') st3 else st3)
           in and_then (conf_askvalue env s def st4) (\<lambda>answered st5. go (def, answered) st5))))"

fun conf_string :: "nat \<Rightarrow> ask_env \<Rightarrow> nat \<Rightarrow> sym \<Rightarrow> ask \<Rightarrow> unit run" where
  "conf_string 0 env a s st = None"
| "conf_string (Suc n) env a s st =
     and_then (string_question env a s st) (\<lambda>(def, answered) st1.
       if \<not> answered then go () st1
       else
         let answer = string_answer (a_line st1) def;
             help = take 2 (a_line st1) = ''?'' @ newline;
             st2 = (if take 1 (a_line st1) = newline \<or> help then st1 else st1\<lparr>a_line := butlast (a_line st1)\<rparr>)
         in and_then (if help then print_help env a st2 else go () st2) (\<lambda>_ st3.
              case answer of
                None \<Rightarrow> conf_string n env a s st3
              | Some v \<Rightarrow> and_then (run_k (sym_set_string_value (e_calc env) s v) st3) (\<lambda>ok st4.
                  if ok then go () st4 else conf_string n env a s st4)))"

section \<open>Truth values\<close>

datatype answer = Value tristate | Help | Again

definition tristate_answer :: "tristate \<Rightarrow> string \<Rightarrow> answer" where
  "tristate_answer oldval l =
     (case l of
        [] \<Rightarrow> Value oldval
      | c # r \<Rightarrow>
          if c = CHR ''n'' \<or> c = CHR ''N'' then (if r = [] \<or> r = ''o'' then Value tri_no else Again)
          else if c = CHR ''m'' \<or> c = CHR ''M'' then (if r = [] then Value tri_mod else Again)
          else if c = CHR ''y'' \<or> c = CHR ''Y'' then (if r = [] \<or> r = ''es'' then Value tri_yes else Again)
          else if c = CHR ''?'' then Help
          else Again)"

fun tristate_letter :: "tristate \<Rightarrow> string" where
  "tristate_letter tri_no = ''N''"
| "tristate_letter tri_mod = ''M''"
| "tristate_letter tri_yes = ''Y''"

definition offer :: "ask \<Rightarrow> sym \<Rightarrow> tristate \<Rightarrow> tristate \<Rightarrow> string \<Rightarrow> string" where
  "offer st s oldval t txt = (if oldval \<noteq> t \<and> sym_tristate_within_range (w_k (a_w st)) s t then txt else [])"

definition tristate_prompt :: "nat \<Rightarrow> sym \<Rightarrow> ask \<Rightarrow> string" where
  "tristate_prompt a s st =
     (let oldval = sym_get_tristate_value (a_sym st s) in
      margin st @ shown_text (prompt_text st a) @ '' ''
      @ (case s_name (a_sym st s) of Some name \<Rightarrow> ''('' @ name @ '') '' | None \<Rightarrow> [])
      @ ''['' @ tristate_letter oldval
      @ offer st s oldval tri_no ''/n'' @ offer st s oldval tri_mod ''/m'' @ offer st s oldval tri_yes ''/y''
      @ (if menu_has_help (a_menu st a) then ''/?'' else []) @ ''] '')"

fun conf_sym :: "nat \<Rightarrow> ask_env \<Rightarrow> nat \<Rightarrow> sym \<Rightarrow> ask \<Rightarrow> unit run" where
  "conf_sym 0 env a s st = None"
| "conf_sym (Suc n) env a s st =
     (let oldval = sym_get_tristate_value (a_sym st s) in
      and_then (run_k (string_or_null (sym_calc_value (e_calc env)) s) (put (tristate_prompt a s st) st)) (\<lambda>def st1.
      and_then (conf_askvalue env s def st1) (\<lambda>answered st2.
        if \<not> answered then go () st2
        else
          let st3 = st2\<lparr>a_line := strip (a_line st2)\<rparr>
          in (case tristate_answer oldval (a_line st3) of
                Again \<Rightarrow> conf_sym n env a s st3
              | Help \<Rightarrow> and_then (print_help env a st3) (\<lambda>_ st4. conf_sym n env a s st4)
              | Value newval \<Rightarrow> and_then (run_k (sym_set_tristate_value (e_calc env) s newval) st3) (\<lambda>ok st4.
                  if ok then go () st4
                  else and_then (print_help env a st4) (\<lambda>_ st5. conf_sym n env a s st5))))))"

section \<open>Choices\<close>

definition sym_get_choice_value :: "symbol \<Rightarrow> sym option" where
  "sym_get_choice_value y = (case sv_val (s_curr y) of VSym s \<Rightarrow> Some s | _ \<Rightarrow> None)"

definition own_prompt_line :: "ask \<Rightarrow> nat \<Rightarrow> ask" where
  "own_prompt_line st a = put (margin st @ shown_text (menu_get_prompt (a_w st) a) @ newline) st"

text \<open>The lines of the values, counted, and the number of the one that is set.\<close>

definition value_line :: "ask \<Rightarrow> nat \<Rightarrow> sym \<Rightarrow> sym option \<Rightarrow> nat \<Rightarrow> string" where
  "value_line st b v def_sym cnt =
     starred st (if Some v = def_sym then CHR ''>'' else CHR '' '') @ '' '' @ nat_str 10 cnt @ ''. ''
     @ shown_text (menu_get_prompt (a_w st) b)
     @ (case s_name (a_sym st v) of Some name \<Rightarrow> '' ('' @ name @ '')'' | None \<Rightarrow> [])
     @ (if \<not> sym_has_value (a_sym st v) then '' (NEW)'' else []) @ newline"

fun list_values :: "nat \<Rightarrow> ask_env \<Rightarrow> sym option \<Rightarrow> nat option \<Rightarrow> nat \<times> nat \<Rightarrow> ask \<Rightarrow> (nat \<times> nat) run" where
  "list_values 0 env def_sym ch c st = None"
| "list_values (Suc n) env def_sym ch c st =
     (case ch of
        None \<Rightarrow> go c st
      | Some b \<Rightarrow> and_then (is_visible env b st) (\<lambda>v st1.
          let next = m_next (a_menu st1 b) in
          if \<not> v then list_values n env def_sym next c st1
          else (case m_sym (a_menu st1 b) of
                  None \<Rightarrow> list_values n env def_sym next c
                            (put (starred st1 CHR ''*'' @ '' '' @ shown_text (menu_get_prompt (a_w st1) b) @ newline) st1)
                | Some s \<Rightarrow>
                    let cnt = Suc (fst c) in
                    list_values n env def_sym next (cnt, if Some s = def_sym then cnt else snd c)
                      (put (value_line st1 b s def_sym cnt) st1))))"

text \<open>The entry of the value with a number; None after the last.\<close>

fun pick_value :: "nat \<Rightarrow> ask_env \<Rightarrow> nat option \<Rightarrow> int \<Rightarrow> ask \<Rightarrow> nat option run" where
  "pick_value 0 env ch cnt st = None"
| "pick_value (Suc n) env ch cnt st =
     (case ch of
        None \<Rightarrow> go None st
      | Some b \<Rightarrow>
          if m_sym (a_menu st b) = None then pick_value n env (m_next (a_menu st b)) cnt st
          else and_then (is_visible env b st) (\<lambda>v st1.
            if \<not> v then pick_value n env (m_next (a_menu st1 b)) cnt st1
            else if cnt = 1 then go (Some b) st1
            else pick_value n env (m_next (a_menu st1 b)) (cnt - 1) st1))"

text \<open>The number that is taken; None: the question is asked again.\<close>

definition read_number :: "ask_env \<Rightarrow> nat \<Rightarrow> nat \<Rightarrow> ask \<Rightarrow> int option run" where
  "read_number env a def st =
     (let st1 = (xfgets st)\<lparr>a_line := strip (a_line (xfgets st))\<rparr>;
          l = a_line st1
      in if take 1 l = ''?'' then and_then (print_help env a st1) (\<lambda>_ st2. go None st2)
         else if l = [] then go (Some (int def)) st1
         else if isdigit (hd l) then go (Some (atoi l)) st1
         else go None st1)"

definition choice_number :: "ask_env \<Rightarrow> nat \<Rightarrow> bool \<Rightarrow> nat \<times> nat \<Rightarrow> ask \<Rightarrow> int option run" where
  "choice_number env a is_new c st =
     (case c of (cnt, def) \<Rightarrow>
        let st1 = put (margin st @ ''choice'') st in
        if cnt = 1 then go (Some 1) (put (''[1]: 1'' @ newline) st1)
        else
          let st2 = put (''[1-'' @ nat_str 10 cnt @ (if menu_has_help (a_menu st a) then ''?'' else []) @ '']: '') st1 in
          if a_mode st2 = oldconfig \<or> a_mode st2 = silentoldconfig then
            if \<not> is_new then go (Some (int def)) (put (nat_str 10 def @ newline) st2)
            else and_then (check_stdin st2) (\<lambda>_ st3. read_number env a def st3)
          else if a_mode st2 = oldaskconfig then read_number env a def st2
          else go (Some (int cnt)) st2)"

section \<open>The walk over the menus\<close>

text \<open>
  The functions call one another: \<open>conf\<close>, its loop over the children, with and without the indentation around each,
  the loop of \<open>conf_choice\<close>, and \<open>check_conf\<close> with its loop. Each body gets the recursive call as an argument.
\<close>

datatype task =
  Conf nat | Confs bool "nat option" | Choose nat sym bool | Check nat | Checks "nat option"

definition choose_body :: "nat \<Rightarrow> ask_env \<Rightarrow> (task \<Rightarrow> ask \<Rightarrow> unit run) \<Rightarrow> nat \<Rightarrow> sym \<Rightarrow> bool \<Rightarrow> ask \<Rightarrow> unit run" where
  "choose_body n env rec a s is_new st =
     (let st1 = (own_prompt_line st a)\<lparr>a_line := []\<rparr>;
          def_sym = sym_get_choice_value (a_sym st1 s)
      in and_then (list_values n env def_sym (m_list (a_menu st1 a)) (0, 0) st1) (\<lambda>c st2.
         and_then (choice_number env a is_new c st2) (\<lambda>number st3.
           case number of
             None \<Rightarrow> rec (Choose a s is_new) st3
           | Some cnt \<Rightarrow> and_then (pick_value n env (m_list (a_menu st3 a)) cnt st3) (\<lambda>ch st4.
               case ch of
                 None \<Rightarrow> rec (Choose a s is_new) st4
               | Some b \<Rightarrow>
                   if a_line st4 \<noteq> [] \<and> last (a_line st4) = CHR ''?'' then
                     and_then (print_help env b st4) (\<lambda>_ st5. rec (Choose a s is_new) st5)
                   else (case m_sym (a_menu st4 b) of
                           None \<Rightarrow> None
                         | Some v \<Rightarrow> and_then (run_k (sym_set_tristate_value (e_calc env) v tri_yes) st4) (\<lambda>ok st5.
                             rec (Confs True (m_list (a_menu st5 b))) st5))))))"

definition conf_choice :: "nat \<Rightarrow> ask_env \<Rightarrow> (task \<Rightarrow> ask \<Rightarrow> unit run) \<Rightarrow> nat \<Rightarrow> sym \<Rightarrow> ask \<Rightarrow> unit run" where
  "conf_choice n env rec a s st =
     (let is_new = \<not> sym_has_value (a_sym st s) in
      if sym_is_changable (a_sym st s) then
        and_then (conf_sym n env a s st) (\<lambda>_ st1.
        and_then (run_k (\<lambda>k. map_option (Pair ()) (sym_calc_value (e_calc env) s k)) st1) (\<lambda>_ st2.
          if sym_get_tristate_value (a_sym st2 s) = tri_yes then rec (Choose a s is_new) st2 else go () st2))
      else
        (case sym_get_tristate_value (a_sym st s) of
           tri_no \<Rightarrow> go () st
         | tri_mod \<Rightarrow> go () (own_prompt_line st a)
         | tri_yes \<Rightarrow> rec (Choose a s is_new) st))"

definition prompt_type :: "ask \<Rightarrow> nat \<Rightarrow> prop_type option" where
  "prompt_type st a = map_option (\<lambda>pr. p_type (prompt_prop (a_w st) pr)) (m_prompt (a_menu st a))"

definition heading :: "nat \<Rightarrow> ask \<Rightarrow> ask" where
  "heading a st =
     (case menu_get_prompt (a_w st) a of
        None \<Rightarrow> st
      | Some txt \<Rightarrow> put (starred st CHR ''*'' @ newline @ starred st CHR ''*'' @ '' '' @ txt @ newline @ starred st CHR ''*'' @ newline) st)"

definition indented :: "bool \<Rightarrow> ask \<Rightarrow> (ask \<Rightarrow> unit run) \<Rightarrow> unit run" where
  "indented b st f =
     (if b then and_then (f (st\<lparr>a_indent := a_indent st + 2\<rparr>)) (\<lambda>_ st1. go () (st1\<lparr>a_indent := a_indent st1 - 2\<rparr>)) else f st)"

definition conf_body :: "nat \<Rightarrow> ask_env \<Rightarrow> (task \<Rightarrow> ask \<Rightarrow> unit run) \<Rightarrow> nat \<Rightarrow> ask \<Rightarrow> unit run" where
  "conf_body n env rec a st =
     and_then (is_visible env a st) (\<lambda>v st1.
       if \<not> v then go () st1
       else if prompt_type st1 a = Some P_MENU \<and> a_mode st1 \<in> {silentoldconfig, listnewconfig, olddefconfig} \<and> a_root st1 \<noteq> Some a
         then rec (Check a) st1
       else
         let st2 = (if prompt_type st1 a = Some P_MENU \<or> prompt_type st1 a = Some P_COMMENT then heading a st1 else st1);
             children = (\<lambda>st. indented (m_sym (a_menu st a) \<noteq> None) st (rec (Confs False (m_list (a_menu st a)))))
         in (case m_sym (a_menu st2 a) of
               None \<Rightarrow> children st2
             | Some s \<Rightarrow>
                 if sym_is_choice (a_sym st2 s) then
                   and_then (conf_choice n env rec a s st2) (\<lambda>_ st3.
                     if sv_tri (s_curr (a_sym st3 s)) \<noteq> tri_mod then go () st3 else children st3)
                 else
                   and_then (if s_type (a_sym st2 s) \<in> {S_INT, S_HEX, S_STRING} then conf_string n env a s st2 else conf_sym n env a s st2)
                     (\<lambda>_ st3. children st3)))"

definition confs_body :: "(task \<Rightarrow> ask \<Rightarrow> unit run) \<Rightarrow> bool \<Rightarrow> nat option \<Rightarrow> ask \<Rightarrow> unit run" where
  "confs_body rec b ch st =
     (case ch of
        None \<Rightarrow> go () st
      | Some c \<Rightarrow> and_then (indented b st (rec (Conf c))) (\<lambda>_ st1. rec (Confs b (m_next (a_menu st1 c))) st1))"

text \<open>A symbol without a value that the user may set.\<close>

definition is_new_symbol :: "symbol \<Rightarrow> bool" where
  "is_new_symbol y \<longleftrightarrow> \<not> sym_has_value y \<and> (sym_is_changable y \<or> (sym_is_choice y \<and> sym_get_tristate_value y = tri_yes))"

definition ask_if_new :: "ask_env \<Rightarrow> (task \<Rightarrow> ask \<Rightarrow> unit run) \<Rightarrow> nat \<Rightarrow> sym \<Rightarrow> ask \<Rightarrow> unit run" where
  "ask_if_new env rec a s st =
     (if \<not> is_new_symbol (a_sym st s) then go () st
      else if a_mode st = listnewconfig then
        go () (case s_name (a_sym st s) of
                 Some name \<Rightarrow> if \<not> sym_is_choice_value (a_sym st s) then put (e_prefix env @ name @ newline) st else st
               | None \<Rightarrow> st)
      else if a_mode st \<noteq> olddefconfig then
        let st1 = (if a_cnt st = 0 then put (''*'' @ newline @ ''* Restart config...'' @ newline @ ''*'' @ newline) st else st)
                  \<lparr>a_cnt := Suc (a_cnt st)\<rparr>
        in (case menu_get_parent_menu (a_w st1) a of
              None \<Rightarrow> None
            | Some r \<Rightarrow> rec (Conf r) (st1\<lparr>a_root := Some r\<rparr>))
      else go () st)"

definition check_body :: "ask_env \<Rightarrow> (task \<Rightarrow> ask \<Rightarrow> unit run) \<Rightarrow> nat \<Rightarrow> ask \<Rightarrow> unit run" where
  "check_body env rec a st =
     and_then (is_visible env a st) (\<lambda>v st1.
       if \<not> v then go () st1
       else and_then (case m_sym (a_menu st1 a) of None \<Rightarrow> go () st1 | Some s \<Rightarrow> ask_if_new env rec a s st1)
              (\<lambda>_ st2. rec (Checks (m_list (a_menu st2 a))) st2))"

definition checks_body :: "(task \<Rightarrow> ask \<Rightarrow> unit run) \<Rightarrow> nat option \<Rightarrow> ask \<Rightarrow> unit run" where
  "checks_body rec ch st =
     (case ch of
        None \<Rightarrow> go () st
      | Some c \<Rightarrow> and_then (rec (Check c) st) (\<lambda>_ st1. rec (Checks (m_next (a_menu st1 c))) st1))"

fun walk :: "nat \<Rightarrow> ask_env \<Rightarrow> task \<Rightarrow> ask \<Rightarrow> unit run" where
  "walk 0 env t st = None"
| "walk (Suc n) env t st =
     (case t of
        Conf a \<Rightarrow> conf_body n env (walk n env) a st
      | Confs b c \<Rightarrow> confs_body (walk n env) b c st
      | Choose a s is_new \<Rightarrow> choose_body n env (walk n env) a s is_new st
      | Check a \<Rightarrow> check_body env (walk n env) a st
      | Checks c \<Rightarrow> checks_body (walk n env) c st)"

text \<open>\<open>conf\<close> and \<open>check_conf\<close>, each with its bound.\<close>

definition conf_entry :: "nat \<Rightarrow> ask_env \<Rightarrow> nat \<Rightarrow> ask \<Rightarrow> unit run" where "conf_entry n env a = walk n env (Conf a)"

definition check_conf :: "nat \<Rightarrow> ask_env \<Rightarrow> nat \<Rightarrow> ask \<Rightarrow> unit run" where "check_conf n env a = walk n env (Check a)"

text \<open>The loop of \<open>main\<close> until nothing changes, and the modes that ask.\<close>

fun update_loop :: "nat \<Rightarrow> ask_env \<Rightarrow> ask \<Rightarrow> unit run" where
  "update_loop 0 env st = None"
| "update_loop (Suc n) env st =
     and_then (check_conf n env rootmenu (st\<lparr>a_cnt := 0\<rparr>)) (\<lambda>_ st1.
       if a_cnt st1 \<noteq> 0 \<and> a_mode st1 \<noteq> listnewconfig \<and> a_mode st1 \<noteq> olddefconfig then update_loop n env st1 else go () st1)"

definition ask_all :: "nat \<Rightarrow> ask_env \<Rightarrow> ask \<Rightarrow> unit run" where
  "ask_all n env st =
     (if a_mode st = oldaskconfig then
        and_then (conf_entry n env rootmenu (st\<lparr>a_root := Some rootmenu\<rparr>)) (\<lambda>_ st1. update_loop n env (st1\<lparr>a_mode := silentoldconfig\<rparr>))
      else update_loop n env st)"

end
