(* ===== verification/Kc_Ask_Props.thy ===== *)
theory Kc_Ask_Props
  imports Kc_Ask
begin

text \<open>
  Properties of the questions: when they end at the end of the input, and that the modes that do not ask leave
  the input alone.
\<close>

section \<open>Steps\<close>

lemma and_then_go [simp]: "and_then (go a st) f = f a st" by (simp add: and_then_def go_def)

lemma and_then_None [simp]: "and_then None f = None" by (simp add: and_then_def)

lemma put_simps [simp]:
  "w_k (a_w (put x st)) = w_k (a_w st)" "w_menus (a_w (put x st)) = w_menus (a_w st)" "a_in (put x st) = a_in st" "a_line (put x st) = a_line st"
  "a_mode (put x st) = a_mode st" "a_valid (put x st) = a_valid st" "a_root (put x st) = a_root st" "a_indent (put x st) = a_indent st"
  "w_out (a_w (put x st)) = w_out (a_w st) @ x" "a_cnt (put x st) = a_cnt st"
  by (simp_all add: put_def on_w_def)

lemma put_sym [simp]: "a_sym (put x st) s = a_sym st s" "a_menu (put x st) a = a_menu st a" by (simp_all add: a_sym_def a_menu_def)

lemma field_sym [simp]:
  "a_sym (st\<lparr>a_line := l\<rparr>) s = a_sym st s" "a_sym (st\<lparr>a_eof := e\<rparr>) s = a_sym st s"
  by (simp_all add: a_sym_def)

text \<open>A part of the symbols that gives the same state back.\<close>

lemma run_k_same: "f (w_k (a_w st)) = Some (x, w_k (a_w st)) \<Longrightarrow> run_k f st = go x st"
  by (simp add: run_k_def run_w_def lift_k_def)

lemma xfgets_empty: "a_in st = [] \<Longrightarrow> xfgets st = st\<lparr>a_eof := Suc (a_eof st)\<rparr>" by (simp add: xfgets_def)

section \<open>A number without a value\<close>

text \<open>A question is asked, and not answered for the lack of input.\<close>

definition asks :: "sym \<Rightarrow> ask \<Rightarrow> bool" where
  "asks s st \<longleftrightarrow> a_in st = [] \<and> sym_is_changable (a_sym st s) \<and>
     (a_mode st = oldaskconfig \<or> (a_mode st = oldconfig \<or> a_mode st = silentoldconfig) \<and> a_valid st \<and> \<not> sym_has_value (a_sym st s))"

text \<open>The answer is an empty line, and only the output and the buffer change.\<close>

definition only_output :: "ask \<Rightarrow> ask \<Rightarrow> bool" where
  "only_output st st' \<longleftrightarrow> w_k (a_w st') = w_k (a_w st) \<and> w_menus (a_w st') = w_menus (a_w st) \<and> a_in st' = a_in st \<and>
     a_mode st' = a_mode st \<and> a_valid st' = a_valid st"

lemma only_output_asks: "only_output st st' \<Longrightarrow> asks s st \<Longrightarrow> asks s st'"
  by (simp add: only_output_def asks_def a_sym_def)

lemma askvalue_end:
  assumes "asks s st"
  shows "\<exists>st'. conf_askvalue env s def st = go True st' \<and> only_output st st' \<and> a_line st' = newline"
  using assms
  by (auto simp: conf_askvalue_def asks_def ask_line_def check_stdin_def xfgets_empty only_output_def Let_def)

definition empty_number :: "sym \<Rightarrow> ask \<Rightarrow> bool" where
  "empty_number s st \<longleftrightarrow> s_type (a_sym st s) \<in> {S_INT, S_HEX} \<and> (\<exists>a. sv_val (s_curr (a_sym st s)) = VStr a [])"

lemma empty_number_string:
  "empty_number s st \<Longrightarrow> string_or_null c s (w_k (a_w st)) = Some (Some [], w_k (a_w st))"
  by (auto simp: empty_number_def string_or_null_def sym_get_string_value_def a_sym_def Let_def)

lemma string_question_end:
  assumes "empty_number s st" and "asks s st"
  shows "\<exists>st'. string_question env a s st = go (Some [], True) st' \<and> only_output st st' \<and> a_line st' = newline"
proof -
  define st1 where "st1 = put (margin st @ shown_text (prompt_text st a) @ '' '' @ ''('' @ shown_text (s_name (a_sym st s)) @ '') '') st"
  define st4 where "st4 = put (''['' @ shown_text (Some []) @ ''] '') st1"
  have o: "only_output st st1" "only_output st st4" by (simp_all add: only_output_def st1_def st4_def)
  have e: "empty_number s st1" using assms(1) by (simp add: st1_def empty_number_def)
  have r: "run_k (string_or_null (sym_calc_value (e_calc env)) s) st1 = go (Some []) st1"
    by (rule run_k_same) (rule empty_number_string[OF e])
  obtain st' where "conf_askvalue env s (Some []) st4 = go True st'" "only_output st4 st'" "a_line st' = newline"
    using askvalue_end[OF only_output_asks[OF o(2) assms(2)]] by blast
  moreover have "string_question env a s st = go (Some [], True) st'" if "conf_askvalue env s (Some []) st4 = go True st'" for st'
    unfolding string_question_def Let_def st1_def[symmetric] by (simp add: r that[unfolded st4_def, simplified])
  ultimately show ?thesis using o(2) by (auto simp: only_output_def)
qed

lemma empty_number_refused:
  "empty_number s st \<Longrightarrow> sym_set_string_value c s [] (w_k (a_w st)) = Some (False, w_k (a_w st))"
  by (auto simp: empty_number_def sym_set_string_value_def sym_string_within_range_def a_sym_def int_valid_def hex_valid_def Let_def)

text \<open>
  C40: At the end of the input the question for a number that has no value is asked for ever: the empty answer
  stands for the current value, which is not a number and is refused.
\<close>

theorem conf_string_never_returns:
  assumes "s_type (a_sym st s) \<in> {S_INT, S_HEX}" and "sv_val (s_curr (a_sym st s)) = VStr i []" and "a_in st = []"
    and "sym_is_changable (a_sym st s)" and "a_mode st = oldaskconfig"
  shows "conf_string n env a s st = None"
proof -
  have "empty_number s st \<Longrightarrow> asks s st \<Longrightarrow> conf_string n env a s st = None"
  proof (induction n arbitrary: st)
    case (Suc n)
    obtain st1 where q: "string_question env a s st = go (Some [], True) st1" "only_output st st1" "a_line st1 = newline"
      using string_question_end[OF Suc.prems] by blast
    have 1: "empty_number s st1" "asks s st1" using Suc.prems q(2) only_output_asks by (auto simp: empty_number_def only_output_def a_sym_def)
    have "run_k (sym_set_string_value (e_calc env) s []) st1 = go False st1"
      by (rule run_k_same) (rule empty_number_refused[OF 1(1)])
    moreover have "conf_string n env a s st1 = None" by (rule Suc.IH[OF 1])
    moreover have "take 1 newline = newline" "take 2 newline \<noteq> ''?'' @ newline" by (simp_all add: newline_def)
    ultimately show ?case using q by (simp add: string_answer_def Let_def)
  qed simp
  then show ?thesis using assms by (simp add: empty_number_def asks_def)
qed


section \<open>A truth value at the end of the input\<close>

text \<open>An empty line, or no line at all.\<close>

definition empty_answer :: "ask \<Rightarrow> bool" where
  "empty_answer st \<longleftrightarrow> (case a_in st of [] \<Rightarrow> True | l # ls \<Rightarrow> strip l = [])"

lemma strip_newline: "strip newline = []"
  by (simp add: strip_def newline_def isspace_def code_def)

lemma askvalue_empty:
  assumes "empty_answer st" and "sym_is_changable (a_sym st s)" and "a_mode st = oldaskconfig"
  shows "\<exists>st'. conf_askvalue env s def st = go True st' \<and> w_k (a_w st') = w_k (a_w st) \<and> strip (a_line st') = []"
  using assms
  by (cases "a_in st") (auto simp: conf_askvalue_def ask_line_def xfgets_def empty_answer_def strip_newline Let_def)

text \<open>The text of a truth value is read without a calculation when \<open>modules_sym\<close> is calculated.\<close>

lemma tristate_string:
  assumes "s_type (k_sym k s) \<in> {S_BOOLEAN, S_TRISTATE}"
    and "sv_tri (s_curr (k_sym k s)) = tri_mod \<Longrightarrow> has_flag (k_sym k (k_modules k)) SYMBOL_VALID"
  shows "\<exists>v. string_or_null (sym_calc_value (Suc c)) s k = Some (Some v, k)"
proof -
  have "sym_calc_value (Suc c) (k_modules k) k = Some k" if "sv_tri (s_curr (k_sym k s)) = tri_mod"
    using assms(2)[OF that] by (simp add: calc_value_step_def)
  then show ?thesis
    using assms(1)
    by (cases "sv_tri (s_curr (k_sym k s))")
      (auto simp: string_or_null_def sym_get_string_value_def sym_get_tristate_value_def Let_def)
qed

lemma user_flag: "sym_has_value (set_flags SYMBOL_DEF_USER y)"
  by (simp add: sym_has_value_def flag_simps SYMBOL_DEF_USER_def)

lemma mark_values_user: "sym_has_value (k_sym k s) \<Longrightarrow> sym_has_value (k_sym (mark_values l k) s)"
  by (induction l arbitrary: k) (auto simp: k_sym_upd user_flag)

lemma select_user: "sym_has_value (k_sym k s) \<Longrightarrow> sym_has_value (k_sym (select_choice_value c k) s)"
proof -
  assume k: "sym_has_value (k_sym k s)"
  have "sym_has_value (k_sym (upd cs (set_flags SYMBOL_DEF_USER) (upd cs (\<lambda>y. y\<lparr>s_def_user := v y\<rparr>) k)) s)" for cs v
    using k by (simp add: k_sym_upd user_flag)
  with k show ?thesis
    by (simp add: select_choice_value_def undefined_use_def Let_def mark_values_user split: option.split)
qed

text \<open>The current value is always accepted, and becomes the user's.\<close>

lemma current_value_accepted:
  "\<exists>k'. sym_set_tristate_value c s (sv_tri (s_curr (k_sym k s))) k = Some (True, k') \<and> same_core k k' \<and> sym_has_value (k_sym k' s)"
proof -
  have m: "sym_has_value (k_sym (mark_user_value s k) s)"
    by (simp add: mark_user_value_def sym_set_changed_def Let_def sym_has_value_def flag_simps SYMBOL_DEF_USER_def SYMBOL_CHANGED_def)
  then show ?thesis
    using core_set_tristate[of k s] m select_user
    by (simp add: sym_set_tristate_value_def sym_get_tristate_value_def Let_def store_user_tri_def sym_has_value_def has_flag_def)
qed

text \<open>
  Where the front end asks for a truth value, an empty line, or the end of the input, accepts the current value: the
  question is asked once, all values stay, and the symbol has a value of the user afterwards.
\<close>

theorem empty_answer_keeps_value:
  assumes "s_type (a_sym st s) \<in> {S_BOOLEAN, S_TRISTATE}" and "sym_is_changable (a_sym st s)"
    and "a_mode st = oldaskconfig" and "e_calc env = Suc c" and "empty_answer st"
    and "sv_tri (s_curr (a_sym st s)) = tri_mod \<Longrightarrow> has_flag (a_sym st (k_modules (w_k (a_w st)))) SYMBOL_VALID"
  shows "\<exists>st'. conf_sym (Suc n) env a s st = go () st' \<and> sym_has_value (a_sym st' s) \<and>
    (\<forall>x. s_curr (a_sym st' x) = s_curr (a_sym st x))"
proof -
  let ?k = "w_k (a_w st)"
  define st1 where "st1 = put (tristate_prompt a s st) st"
  have k1: "w_k (a_w st1) = ?k" by (simp add: st1_def)
  obtain v where v: "string_or_null (sym_calc_value (Suc c)) s ?k = Some (Some v, ?k)"
    using tristate_string[of ?k s c] assms(1,6) by (auto simp: a_sym_def)
  then have question: "run_k (string_or_null (sym_calc_value (e_calc env)) s) st1 = go (Some v) st1"
    by (intro run_k_same) (simp add: k1 assms(4))
  have 1: "empty_answer st1" "sym_is_changable (a_sym st1 s)" "a_mode st1 = oldaskconfig"
    using assms by (simp_all add: st1_def empty_answer_def)
  obtain st2 where st2: "conf_askvalue env s (Some v) st1 = go True st2" "w_k (a_w st2) = w_k (a_w st1)" "strip (a_line st2) = []"
    using askvalue_empty[OF 1] by blast
  obtain k' where k': "sym_set_tristate_value (e_calc env) s (sv_tri (s_curr (k_sym ?k s))) ?k = Some (True, k')"
      "same_core ?k k'" "sym_has_value (k_sym k' s)"
    using current_value_accepted by blast
  define st3 where "st3 = st2\<lparr>a_line := [], a_w := (a_w st2)\<lparr>w_k := k'\<rparr>\<rparr>"
  have "run_k (sym_set_tristate_value (e_calc env) s (sv_tri (s_curr (k_sym ?k s)))) (st2\<lparr>a_line := []\<rparr>) = go True st3"
    using k'(1) by (simp add: run_k_def run_w_def lift_k_def st2 k1 st3_def)
  then have "conf_sym (Suc n) env a s st = go () st3"
    by (simp add: question st1_def[symmetric] st2 tristate_answer_def sym_get_tristate_value_def a_sym_def Let_def)
  moreover have "sym_has_value (a_sym st3 s)" "s_curr (a_sym st3 x) = s_curr (a_sym st x)" for x
    using k'(2,3) by (simp_all add: st3_def a_sym_def same_core_def)
  ultimately show ?thesis by blast
qed


section \<open>The modes that do not ask\<close>

text \<open>
  Nothing but the configuration changes, the menus keep their links, and at most a number of lines with the names of
  symbols are printed, none in the mode \<open>olddefconfig\<close>.
\<close>

definition listed :: "ask_env \<Rightarrow> nat \<Rightarrow> ask \<Rightarrow> ask \<Rightarrow> bool" where
  "listed env m st st' \<longleftrightarrow> st' = st\<lparr>a_w := a_w st'\<rparr> \<and> same_menus (a_w st) (a_w st') \<and>
     (\<exists>names. w_out (a_w st') = w_out (a_w st) @ concat (map (\<lambda>x. e_prefix env @ x @ newline) names) \<and> length names \<le> m \<and>
        (a_mode st = olddefconfig \<longrightarrow> names = []))"

lemma listed_refl: "listed env m st st"
  by (auto simp: listed_def intro: exI[of _ "[]"])

lemma listed_trans: "listed env m st st1 \<Longrightarrow> listed env n st1 st2 \<Longrightarrow> listed env (m + n) st st2"
proof -
  assume l: "listed env m st st1" "listed env n st1 st2"
  then have u: "st1 = st\<lparr>a_w := a_w st1\<rparr>" "st2 = st1\<lparr>a_w := a_w st2\<rparr>" unfolding listed_def by blast+
  have f: "st2 = st\<lparr>a_w := a_w st2\<rparr>" by (subst u(2), subst u(1)) simp
  have m: "a_mode st1 = a_mode st" by (subst u(1)) simp
  obtain xs ys where x: "w_out (a_w st1) = w_out (a_w st) @ concat (map (\<lambda>x. e_prefix env @ x @ newline) xs)" "length xs \<le> m"
      "a_mode st = olddefconfig \<longrightarrow> xs = []"
    and y: "w_out (a_w st2) = w_out (a_w st1) @ concat (map (\<lambda>x. e_prefix env @ x @ newline) ys)" "length ys \<le> n"
      "a_mode st1 = olddefconfig \<longrightarrow> ys = []"
    using l unfolding listed_def by blast
  have "same_menus (a_w st) (a_w st2)" using l same_menus_trans unfolding listed_def by blast
  with f x y m show ?thesis unfolding listed_def by (auto intro!: exI[of _ "xs @ ys"])
qed

lemma listed_mono: "listed env m st st' \<Longrightarrow> m \<le> n \<Longrightarrow> listed env n st st'"
  unfolding listed_def by (blast intro: le_trans)

lemma listed_mode: "listed env m st st' \<Longrightarrow> a_mode st' = a_mode st"
  unfolding listed_def by (metis ask.select_convs(5) ask.surjective ask.update_convs(1))

lemma listed_put:
  "a_mode st = listnewconfig \<Longrightarrow> listed env 1 st (put (e_prefix env @ x @ newline) st)"
  by (auto simp: listed_def put_def on_w_def intro!: exI[of _ "[x]"])

definition lists :: "(kstate \<Rightarrow> bool) \<Rightarrow> ask_env \<Rightarrow> nat \<Rightarrow> ask \<Rightarrow> unit run \<Rightarrow> bool" where
  "lists P env m st r \<longleftrightarrow> (\<exists>st'. r = go () st' \<and> P (w_k (a_w st')) \<and> listed env m st st')"

lemma lists_go: "P (w_k (a_w st')) \<Longrightarrow> listed env m st st' \<Longrightarrow> lists P env m st (go () st')"
  by (auto simp: lists_def)

lemma lists_then:
  assumes "lists P env m st r" and "\<And>st1. P (w_k (a_w st1)) \<Longrightarrow> listed env m st st1 \<Longrightarrow> lists P env n st1 (f () st1)"
  shows "lists P env (m + n) st (and_then r f)"
  using assms unfolding lists_def by (metis and_then_go listed_trans)

context conf_writer
begin

lemma visible_listed:
  assumes "P (w_k (a_w st))" and "entry_ok (e_menus env) (w_menus (a_w st)) a" and "e_calc env = n"
  shows "\<exists>v st'. is_visible env a st = go v st' \<and> P (w_k (a_w st')) \<and> listed env 0 st st'"
proof -
  obtain v w where w: "menu_is_visible (e_menus env) (sym_calc_value n) a (a_w st) = Some (v, w)" "P (w_k w)" "same_menus (a_w st) w"
    using entry_visible[OF assms(1,2)] by (auto simp: w_returns_def)
  then have "w_out w = w_out (a_w st)" using same_output.kept_visible(1) by blast
  with w assms(3) show ?thesis
    by (intro exI[of _ v] exI[of _ "st\<lparr>a_w := w\<rparr>"]) (simp add: is_visible_def run_w_def listed_def)
qed

lemma symbol_listed:
  assumes "a_mode st \<in> {listnewconfig, olddefconfig}"
  shows "\<exists>st'. ask_if_new env rec a s st = go () st' \<and> w_k (a_w st') = w_k (a_w st) \<and> listed env 1 st st'"
  using assms listed_put[of st env] listed_refl by (auto simp: ask_if_new_def split: option.split)

lemma check_entry:
  assumes "P (w_k (a_w st))" and "entry_ok (e_menus env) (w_menus (a_w st)) a" and "e_calc env = n"
    and "a_mode st \<in> {listnewconfig, olddefconfig}"
    and rec: "\<And>st'. P (w_k (a_w st')) \<Longrightarrow> listed env 1 st st' \<Longrightarrow> lists P env m st' (rec (Checks (m_list (a_menu st' a))) st')"
  shows "lists P env (Suc m) st (check_body env rec a st)"
proof -
  obtain v st1 where v: "is_visible env a st = go v st1" "P (w_k (a_w st1))" "listed env 0 st st1"
    using visible_listed[OF assms(1-3)] by blast
  have mode: "a_mode st1 \<in> {listnewconfig, olddefconfig}" using assms(4) listed_mode[OF v(3)] by simp
  have "\<exists>st2. (case m_sym (a_menu st1 a) of None \<Rightarrow> go () st1 | Some s \<Rightarrow> ask_if_new env rec a s st1) = go () st2 \<and>
      P (w_k (a_w st2)) \<and> listed env 1 st1 st2"
    using symbol_listed[OF mode] v(2) listed_refl by (cases "m_sym (a_menu st1 a)") fastforce+
  then obtain st2 where st2: "(case m_sym (a_menu st1 a) of None \<Rightarrow> go () st1 | Some s \<Rightarrow> ask_if_new env rec a s st1) = go () st2"
      "P (w_k (a_w st2))" "listed env 1 st1 st2" by blast
  have l: "listed env 1 st st2" using listed_trans[OF v(3) st2(3)] by simp
  have "lists P env (1 + m) st (rec (Checks (m_list (a_menu st2 a))) st2)"
    using lists_then[OF lists_go[where P = P, OF st2(2) l], of m "\<lambda>_ st3. rec (Checks (m_list (a_menu st3 a))) st3"] rec by simp
  then show ?thesis
    using v st2 listed_mono[OF v(3)] by (cases v) (auto simp: check_body_def intro: lists_go)
qed

lemma check_entries:
  assumes "e_calc env = n"
  shows "menu_seg (w_menus (a_w st)) p c ts None \<Longrightarrow> P (w_k (a_w st)) \<Longrightarrow> a_mode st \<in> {listnewconfig, olddefconfig} \<Longrightarrow>
     2 * length (preorder ts) < e_menus env \<Longrightarrow> 2 * length (preorder ts) < b \<Longrightarrow>
     lists P env (length (preorder ts)) st (walk b env (Checks c) st)"
proof (induction ts arbitrary: p c st b rule: preorder.induct)
  case 1
  then obtain k where "b = Suc k" "c = None" by (cases b) auto
  with 1 show ?case by (auto simp: checks_body_def intro!: lists_go listed_refl)
next
  case (2 a cs ts)
  then have c: "c = Some a" and segs: "menu_seg (w_menus (a_w st)) (Some a) (m_list (w_menus (a_w st) a)) cs None"
    "menu_seg (w_menus (a_w st)) p (m_next (w_menus (a_w st) a)) ts None" by simp_all
  obtain k where b: "b = Suc (Suc k)" using 2(7) by (cases b; cases "b - 1") auto
  have keep: "menu_seg (w_menus (a_w st')) q h us None" "m_list (a_menu st' x) = m_list (a_menu st x)"
      "m_next (a_menu st' x) = m_next (a_menu st x)" "a_mode st' \<in> {listnewconfig, olddefconfig}"
    if "menu_seg (w_menus (a_w st)) q h us None" "listed env j st st'" for q h us st' j x
    using that 2(5) menu_seg_links[OF that(1)] listed_mode[OF that(2)]
    by (auto simp: listed_def same_menus_def same_links_def a_menu_def)
  have ok: "entry_ok (e_menus env) (w_menus (a_w st)) a"
    using segs(1) 2(6) by (auto simp: entry_ok_def)
  have below: "lists P env (length (preorder cs)) st' (walk k env (Checks (m_list (a_menu st' a))) st')"
    if "P (w_k (a_w st'))" "listed env 1 st st'" for st'
  proof -
    have "menu_seg (w_menus (a_w st')) (Some a) (m_list (a_menu st' a)) cs None"
      using keep(1)[OF segs(1) that(2)] keep(2)[OF segs(1) that(2), of a] by (simp add: a_menu_def)
    then show ?thesis
      by (rule 2(1)) (use that(1) keep(4)[OF segs(1) that(2)] 2(6,7) b in auto)
  qed
  have first: "lists P env (Suc (length (preorder cs))) st (walk (Suc k) env (Check a) st)"
    using check_entry[where rec = "walk k env", OF 2(4) ok assms 2(5) below] by simp
  have "lists P env (Suc (length (preorder cs)) + length (preorder ts)) st
      (and_then (walk (Suc k) env (Check a) st) (\<lambda>_ st1. walk (Suc k) env (Checks (m_next (a_menu st1 a))) st1))"
  proof (rule lists_then[OF first])
    fix st1 assume 1: "P (w_k (a_w st1))" "listed env (Suc (length (preorder cs))) st st1"
    have "menu_seg (w_menus (a_w st1)) p (m_next (a_menu st1 a)) ts None"
      using keep(1)[OF segs(2) 1(2)] keep(3)[OF segs(2) 1(2), of a] by (simp add: a_menu_def)
    then show "lists P env (length (preorder ts)) st1 (walk (Suc k) env (Checks (m_next (a_menu st1 a))) st1)"
      by (rule 2(2)) (use 1(1) keep(4)[OF segs(2) 1(2)] 2(6,7) b in auto)
  qed
  then show ?case by (simp add: b c checks_body_def)
qed

end

lemma update_loop_lists:
  assumes "writable_state n k ts (a_w st)" and "e_calc env = n" and "e_menus env = k"
    and "a_mode st \<in> {listnewconfig, olddefconfig}" and "2 * length (preorder ts) + 1 < k" and "2 * length (preorder ts) + 1 < b"
  shows "\<exists>st'. update_loop (Suc b) env st = go () st' \<and> listed env (Suc (length (preorder ts))) (st\<lparr>a_cnt := 0\<rparr>) st' \<and>
    writable_state n k ts (a_w st') \<and> extends (w_k (a_w st)) (w_k (a_w st')) \<and>
    (clearable n (w_k (a_w st)) \<longrightarrow> clearable n (w_k (a_w st')))"
proof -
  obtain m where n: "n = Suc m" using assms(1) by (cases n) (auto simp: writable_state_def)
  let ?P = "calc_ok (frame_of (w_k (a_w st))) (valid_syms (w_k (a_w st))) m"
  define st0 where "st0 = st\<lparr>a_cnt := 0\<rparr>"
  have ok: "?P (w_k (a_w st0))"
    using sane_calc_ok[of "w_k (a_w st)"] assms(1) n by (auto simp: writable_state_def calc_ok_def st0_def)
  have seg: "menu_seg (w_menus (a_w st0)) (Some rootmenu) (m_list (a_menu st0 rootmenu)) ts None"
    using assms(1) by (simp add: writable_state_def menu_tree_def st0_def a_menu_def)
  then have entry: "entry_ok (e_menus env) (w_menus (a_w st0)) rootmenu"
    using assms(3,5) by (auto simp: entry_ok_def a_menu_def)
  obtain j where j: "b = Suc j" using assms(6) by (cases b) auto
  have mode: "a_mode st0 \<in> {listnewconfig, olddefconfig}" using assms(4) by (simp add: st0_def)
  have below: "lists ?P env (length (preorder ts)) st' (walk j env (Checks (m_list (a_menu st' rootmenu))) st')"
    if "?P (w_k (a_w st'))" "listed env 1 st0 st'" for st'
  proof -
    have "menu_seg (w_menus (a_w st')) (Some rootmenu) (m_list (a_menu st' rootmenu)) ts None"
      using seg that(2) menu_seg_links[OF seg] by (auto simp: listed_def same_menus_def same_links_def a_menu_def)
    then show ?thesis
      by (rule writer.check_entries[rotated]) (use assms n j that mode listed_mode[OF that(2)] in auto)
  qed
  have "lists ?P env (Suc (length (preorder ts))) st0 (check_conf b env rootmenu st0)"
    using writer.check_entry[where rec = "walk j env", OF ok entry _ mode below] assms(2) n j by (simp add: check_conf_def)
  then obtain st1 where st1: "check_conf b env rootmenu st0 = go () st1" "?P (w_k (a_w st1))" "listed env (Suc (length (preorder ts))) st0 st1"
    by (auto simp: lists_def)
  have u: "update_loop (Suc b) env st = go () st1"
    using st1 mode listed_mode[OF st1(3)] by (auto simp: st0_def[symmetric])
  have "sane (w_k (a_w st1))" "pending (w_k (a_w st1)) \<le> m"
    using calc_ok_sane[of "w_k (a_w st)" m "w_k (a_w st1)"] st1(2) assms(1) by (auto simp: writable_state_def)
  moreover have "menu_tree (w_menus (a_w st1)) ts"
    using menu_tree_links st1(3) assms(1) by (auto simp: writable_state_def listed_def same_menus_def st0_def)
  ultimately have "writable_state n k ts (a_w st1)" using assms(1) n by (auto simp: writable_state_def)
  moreover have "extends (w_k (a_w st)) (w_k (a_w st1))" "clearable n (w_k (a_w st)) \<longrightarrow> clearable n (w_k (a_w st1))"
    using calc_ok_sane[of "w_k (a_w st)" m "w_k (a_w st1)"] st1(2) assms(1) clearable_extends by (auto simp: writable_state_def)
  ultimately show ?thesis using u st1(3) unfolding st0_def by blast
qed

text \<open>
  C36: In the modes \<open>listnewconfig\<close> and \<open>olddefconfig\<close> the loop of \<open>main\<close> returns for every well-formed tree of menus, reads
  nothing of the input, prints at most one line for each entry, nothing at all in \<open>olddefconfig\<close>, and leaves a state
  that can be written.
\<close>

theorem update_loop_asks_nothing:
  assumes "writable_state n k ts (a_w st)" and "e_calc env = n" and "e_menus env = k"
    and "a_mode st \<in> {listnewconfig, olddefconfig}" and "2 * length (preorder ts) + 1 < k" and "2 * length (preorder ts) + 1 < b"
  shows "\<exists>st' names. update_loop (Suc b) env st = go () st' \<and> a_in st' = a_in st \<and> a_eof st' = a_eof st \<and>
    w_out (a_w st') = w_out (a_w st) @ concat (map (\<lambda>x. e_prefix env @ x @ newline) names) \<and> length names \<le> Suc (length (preorder ts)) \<and>
    (a_mode st = olddefconfig \<longrightarrow> names = []) \<and> writable_state n k ts (a_w st')"
proof -
  obtain st1 where st1: "update_loop (Suc b) env st = go () st1" "listed env (Suc (length (preorder ts))) (st\<lparr>a_cnt := 0\<rparr>) st1"
    "writable_state n k ts (a_w st1)" using update_loop_lists[OF assms] by blast
  have f: "st1 = st\<lparr>a_cnt := 0, a_w := a_w st1\<rparr>" using st1(2) unfolding listed_def by simp
  have "a_in st1 = a_in st" "a_eof st1 = a_eof st" by (subst f, simp)+
  with st1 show ?thesis unfolding listed_def by (intro exI[of _ st1]) auto
qed


section \<open>Examples\<close>

definition example_ask :: "symbol \<Rightarrow> input_mode \<Rightarrow> ask" where
  "example_ask y mode = \<lparr>a_w = example_config\<lparr>w_k := example_state\<lparr>k_sym := (\<lambda>_. y)\<rparr>\<rparr>, a_in = [], a_line = [], a_indent = 1, a_mode = mode,
     a_valid = True, a_cnt = 0, a_root = None, a_eof = 0\<rparr>"

definition example_ask_env :: ask_env where
  "example_ask_env = \<lparr>e_calc = 9, e_menus = 4, e_prefix = ''BR2_'', e_tty = False\<rparr>"

theorem conf_string_never_returns_witness:
  "\<forall>n. conf_string n example_ask_env 1 (sym_at 3) (example_ask
     ((example_symbol S_INT 0)\<lparr>s_visible := tri_yes, s_curr := \<lparr>sv_val = VStr 0 [], sv_tri = tri_no\<rparr>\<rparr>) oldaskconfig) = None"
proof
  show "conf_string n example_ask_env 1 (sym_at 3) (example_ask
     ((example_symbol S_INT 0)\<lparr>s_visible := tri_yes, s_curr := \<lparr>sv_val = VStr 0 [], sv_tri = tri_no\<rparr>\<rparr>) oldaskconfig) = None" for n
    by (rule conf_string_never_returns[where i = 0])
      (simp_all add: example_ask_def a_sym_def example_symbol_def sym_is_changable_def)
qed

theorem empty_answer_keeps_value_witness:
  "\<exists>st'. conf_sym 1 example_ask_env 1 (sym_at 3) (example_ask ((example_symbol S_BOOLEAN 0)\<lparr>s_visible := tri_yes\<rparr>) oldaskconfig) = go () st' \<and>
     sym_has_value (a_sym st' (sym_at 3)) \<and> sv_tri (s_curr (a_sym st' (sym_at 3))) = tri_no"
proof -
  let ?st = "example_ask ((example_symbol S_BOOLEAN 0)\<lparr>s_visible := tri_yes\<rparr>) oldaskconfig"
  have "s_type (a_sym ?st (sym_at 3)) \<in> {S_BOOLEAN, S_TRISTATE}" "sym_is_changable (a_sym ?st (sym_at 3))" "a_mode ?st = oldaskconfig"
    "e_calc example_ask_env = Suc 8" "empty_answer ?st" "sv_tri (s_curr (a_sym ?st (sym_at 3))) = tri_no"
    by (simp_all add: example_ask_def example_ask_env_def a_sym_def example_symbol_def sym_is_changable_def empty_answer_def)
  with empty_answer_keeps_value[of ?st "sym_at 3" example_ask_env 8 0 1] show ?thesis by auto
qed

theorem update_loop_asks_nothing_witness:
  "\<exists>st'. update_loop 9 example_ask_env ((example_ask (k_sym example_state (sym_at 3)) olddefconfig)\<lparr>a_w := example_config\<rparr>) = go () st' \<and>
     w_out (a_w st') = []"
proof -
  let ?st = "(example_ask (k_sym example_state (sym_at 3)) olddefconfig)\<lparr>a_w := example_config\<rparr>"
  have "writable_state 9 4 [MNode 1 []] (a_w ?st)" using example_writable by simp
  moreover have "a_mode ?st = olddefconfig" by (simp add: example_ask_def)
  moreover have "w_out example_config = []" by (simp add: example_config_def)
  ultimately show ?thesis
    using update_loop_asks_nothing[of 9 4 "[MNode 1 []]" ?st example_ask_env 8] by (auto simp: example_ask_env_def)
qed

end
