(* ===== verification/Kc_Parse.thy ===== *)
theory Kc_Parse
  imports Kc_Search Kc_Options Kc_Finalize Kc_Check_Props Kc_Write
begin

text \<open>
  The actions of the grammar zconf.y, and \<open>conf_parse\<close>. The tables of the parser are
  not part of the model, and the lexer is that of \<open>Kc_Lex\<close>: a file is what the grammar makes of it, a list of statements, and what is included by
  \<open>source\<close> stands where the statement is, as the lexer continues with it. Each action has the
  position that the lexer reports when it runs, a file and a line. Text that the grammar rejects, where
  the parser skips to the end of the line, is left out.
\<close>

section \<open>The text\<close>

type_synonym pos = "string \<times> nat"

text \<open>\<open>T_WORD\<close> and \<open>T_WORD_QUOTE\<close>.\<close>

datatype word_token = T_WORD string | T_WORD_QUOTE string

datatype cond =
  C_symbol word_token
| C_equal word_token word_token
| C_unequal word_token word_token
| C_not cond
| C_or cond cond
| C_and cond cond

datatype config_option =
  O_type symbol_type "(string \<times> cond option) option"
| O_prompt string "cond option"
| O_default symbol_type cond "cond option"
| O_select string "cond option"
| O_range word_token word_token "cond option"
| O_options "(string \<times> string option) list"
| O_depends cond
| O_help string

text \<open>A type that is not \<open>bool\<close> or \<open>tristate\<close>, and a default with a type, are errors in a choice.\<close>

datatype choice_option =
  H_prompt string "cond option"
| H_type bool "(string \<times> cond option) option"
| H_optional
| H_default string "cond option"
| H_depends cond
| H_help string

datatype end_token = T_ENDMENU | T_ENDCHOICE | T_ENDIF

datatype stmt =
  S_config pos string "(pos \<times> config_option) list"
| S_menuconfig pos string "(pos \<times> config_option) list" pos
| S_choice pos "string option" "(pos \<times> choice_option) list" "stmt list" pos end_token
| S_if pos cond "stmt list" pos end_token
| S_menu pos string "cond option list" "(pos \<times> cond) list" "stmt list" pos end_token
| S_comment pos string "(pos \<times> cond) list"
| S_source string

section \<open>Symbols and expressions\<close>

text \<open>An action that works on the symbols and has a value.\<close>

definition with_value :: "(kstate \<Rightarrow> 'a \<times> kstate) \<Rightarrow> ('a \<Rightarrow> pstate \<Rightarrow> pstate option) \<Rightarrow> pstate \<Rightarrow> pstate option" where
  "with_value f g st = (case f (ps_k st) of (x, k) \<Rightarrow> g x (st\<lparr>ps_k := k\<rparr>))"

definition move_to :: "pos \<Rightarrow> pstate \<Rightarrow> pstate" where
  "move_to p st = st\<lparr>ps_file := fst p, ps_lineno := snd p\<rparr>"

fun symbol_action :: "word_token \<Rightarrow> kstate \<Rightarrow> sym \<times> kstate" where
  "symbol_action (T_WORD w) k = sym_lookup (Some w) 0 k"
| "symbol_action (T_WORD_QUOTE w) k = sym_lookup (Some w) SYMBOL_CONST k"

fun expr_action :: "cond \<Rightarrow> kstate \<Rightarrow> expr \<times> kstate" where
  "expr_action (C_symbol a) k = (case symbol_action a k of (s, k1) \<Rightarrow> (expr_alloc_symbol s, k1))"
| "expr_action (C_equal a b) k =
     (case symbol_action a k of (s, k1) \<Rightarrow> case symbol_action b k1 of (t, k2) \<Rightarrow> (Equal s t, k2))"
| "expr_action (C_unequal a b) k =
     (case symbol_action a k of (s, k1) \<Rightarrow> case symbol_action b k1 of (t, k2) \<Rightarrow> (Unequal s t, k2))"
| "expr_action (C_not c) k = (case expr_action c k of (e, k1) \<Rightarrow> (Neg e, k1))"
| "expr_action (C_or c d) k =
     (case expr_action c k of (l, k1) \<Rightarrow> case expr_action d k1 of (r, k2) \<Rightarrow> (Or l r, k2))"
| "expr_action (C_and c d) k =
     (case expr_action c k of (l, k1) \<Rightarrow> case expr_action d k1 of (r, k2) \<Rightarrow> (And l r, k2))"

definition if_expr_action :: "cond option \<Rightarrow> kstate \<Rightarrow> expr option \<times> kstate" where
  "if_expr_action c k = (case c of None \<Rightarrow> (None, k) | Some c \<Rightarrow> case expr_action c k of (e, k1) \<Rightarrow> (Some e, k1))"

definition range_action :: "word_token \<Rightarrow> word_token \<Rightarrow> kstate \<Rightarrow> prop_expr \<times> kstate" where
  "range_action a b k =
     (case symbol_action a k of (s, k1) \<Rightarrow> case symbol_action b k1 of (t, k2) \<Rightarrow> (PE_range s t, k2))"

section \<open>Options\<close>

definition prompt_action :: "string \<Rightarrow> cond option \<Rightarrow> pstate \<Rightarrow> pstate option" where
  "prompt_action text c = with_value (if_expr_action c) (menu_add_prompt P_PROMPT text)"

definition prompt_stmt_opt :: "(string \<times> cond option) option \<Rightarrow> pstate \<Rightarrow> pstate option" where
  "prompt_stmt_opt p st = (case p of None \<Rightarrow> Some st | Some (text, c) \<Rightarrow> prompt_action text c st)"

definition depends_action :: "cond \<Rightarrow> pstate \<Rightarrow> pstate option" where
  "depends_action c = with_value (expr_action c) (\<lambda>e. menu_add_dep (Some e))"

definition help_action :: "string \<Rightarrow> pstate \<Rightarrow> pstate" where
  "help_action text st = set_menu (ps_entry st) (\<lambda>m. m\<lparr>m_help := Some text\<rparr>) st"

text \<open>The keywords with the flag \<open>TF_OPTION\<close> of zconf.gperf.\<close>

definition option_id :: "string \<Rightarrow> option_token option" where
  "option_id name =
     (if name = ''modules'' then Some T_OPT_MODULES
      else if name = ''defconfig_list'' then Some T_OPT_DEFCONFIG_LIST
      else if name = ''env'' then Some T_OPT_ENV
      else None)"

definition zconfprint :: "string \<Rightarrow> pstate \<Rightarrow> pstate" where
  "zconfprint msg st = warn (position (ps_file st) (ps_lineno st) @ '' '' @ msg) st"

definition option_action :: "(string \<Rightarrow> string option) \<Rightarrow> string \<times> string option \<Rightarrow> pstate \<Rightarrow> pstate option" where
  "option_action getenv opt st =
     (case opt of (name, arg) \<Rightarrow>
        (case option_id name of
           Some token \<Rightarrow> menu_add_option getenv token arg st
         | None \<Rightarrow> Some (zconfprint (''warning: ignoring unknown option '' @ name) st)))"

fun config_option_action :: "(string \<Rightarrow> string option) \<Rightarrow> config_option \<Rightarrow> pstate \<Rightarrow> pstate option" where
  "config_option_action getenv (O_type t p) st = do { st1 \<leftarrow> prompt_stmt_opt p st; menu_set_type t st1 }"
| "config_option_action getenv (O_prompt text c) st = prompt_action text c st"
| "config_option_action getenv (O_default t e c) st = do {
     st1 \<leftarrow> with_value (expr_action e) (\<lambda>e. with_value (if_expr_action c) (menu_add_expr P_DEFAULT (Some (PE_expr e)))) st;
     if t \<noteq> S_UNKNOWN then menu_set_type t st1 else Some st1 }"
| "config_option_action getenv (O_select w c) st =
     with_value (if_expr_action c) (\<lambda>c. with_value (sym_lookup (Some w) 0) (\<lambda>s. menu_add_symbol P_SELECT s c)) st"
| "config_option_action getenv (O_range a b c) st =
     with_value (range_action a b) (\<lambda>e. with_value (if_expr_action c) (menu_add_expr P_RANGE (Some e))) st"
| "config_option_action getenv (O_options os) st = run_all (option_action getenv) os st"
| "config_option_action getenv (O_depends c) st = depends_action c st"
| "config_option_action getenv (O_help text) st = Some (help_action text st)"

text \<open>None: the current entry has no symbol.\<close>

definition optional_action :: "pstate \<Rightarrow> pstate option" where
  "optional_action st =
     (case m_sym (ps_menus st (ps_entry st)) of
        None \<Rightarrow> None
      | Some s \<Rightarrow> Some (on_k (upd s (set_flags SYMBOL_OPTIONAL)) st))"

fun choice_option_action :: "choice_option \<Rightarrow> pstate \<Rightarrow> pstate option" where
  "choice_option_action (H_prompt text c) st = prompt_action text c st"
| "choice_option_action (H_type tri p) st = do {
     st1 \<leftarrow> prompt_stmt_opt p st;
     menu_set_type (if tri then S_TRISTATE else S_BOOLEAN) st1 }"
| "choice_option_action H_optional st = optional_action st"
| "choice_option_action (H_default w c) st =
     with_value (if_expr_action c) (\<lambda>c. with_value (sym_lookup (Some w) 0) (\<lambda>s. menu_add_symbol P_DEFAULT s c)) st"
| "choice_option_action (H_depends c) st = depends_action c st"
| "choice_option_action (H_help text) st = Some (help_action text st)"

definition at_pos :: "('a \<Rightarrow> pstate \<Rightarrow> pstate option) \<Rightarrow> pos \<times> 'a \<Rightarrow> pstate \<Rightarrow> pstate option" where
  "at_pos f pa st = (case pa of (p, a) \<Rightarrow> f a (move_to p st))"

section \<open>Entries\<close>

definition config_entry_start :: "pos \<Rightarrow> string \<Rightarrow> pstate \<Rightarrow> pstate option" where
  "config_entry_start p w st =
     with_value (sym_lookup (Some w) 0) (\<lambda>s st1. menu_add_entry (Some s) (on_k (upd s (set_flags SYMBOL_OPTIONAL)) st1))
       (move_to p st)"

text \<open>The property that \<open>current_entry->prompt\<close> points to becomes a menu.\<close>

definition menuconfig_end :: "pstate \<Rightarrow> pstate" where
  "menuconfig_end st =
     (let a = ps_entry st in
      case m_prompt (ps_menus st a) of
        None \<Rightarrow> zconfprint ''warning: menuconfig statement without prompt'' st
      | Some (POwn p) \<Rightarrow> set_menu a (\<lambda>m. m\<lparr>m_prompt := Some (POwn (p\<lparr>p_type := P_MENU\<rparr>))\<rparr>) st
      | Some (PSym s i) \<Rightarrow> on_k (upd s (\<lambda>y. y\<lparr>s_prop := (s_prop y)[i := (s_prop y ! i)\<lparr>p_type := P_MENU\<rparr>]\<rparr>)) st)"

definition choice_start :: "pos \<Rightarrow> string option \<Rightarrow> pstate \<Rightarrow> pstate option" where
  "choice_start p w st =
     with_value (sym_lookup w SYMBOL_CHOICE) (\<lambda>s st1. do {
       st2 \<leftarrow> menu_add_entry (Some s) (on_k (upd s (set_flags SYMBOL_AUTO)) st1);
       menu_add_expr P_CHOICE None None st2 }) (move_to p st)"

definition if_start :: "pos \<Rightarrow> cond \<Rightarrow> pstate \<Rightarrow> pstate option" where
  "if_start p c st =
     with_value (expr_action c) (\<lambda>e st1. do {
       st2 \<leftarrow> menu_add_entry None st1;
       menu_add_dep (Some e) st2 }) (move_to p st)"

definition titled_start :: "prop_type \<Rightarrow> pos \<Rightarrow> string \<Rightarrow> pstate \<Rightarrow> pstate option" where
  "titled_start t p text st = do {
     st1 \<leftarrow> menu_add_entry None (move_to p st);
     menu_add_prompt t text None st1 }"

definition visible_action :: "cond option \<Rightarrow> pstate \<Rightarrow> pstate option" where
  "visible_action c = with_value (if_expr_action c) (\<lambda>e st. Some (menu_add_visibility e st))"

section \<open>Ends of blocks\<close>

fun end_name :: "end_token \<Rightarrow> string" where
  "end_name T_ENDMENU = ''endmenu''"
| "end_name T_ENDCHOICE = ''endchoice''"
| "end_name T_ENDIF = ''endif''"

text \<open>\<open>zconf_tokenname\<close> of the token that starts the block.\<close>

fun zconf_tokenname :: "end_token \<Rightarrow> string" where
  "zconf_tokenname T_ENDMENU = ''menu''"
| "zconf_tokenname T_ENDCHOICE = ''choice''"
| "zconf_tokenname T_ENDIF = ''if''"

definition count_error :: "pstate \<Rightarrow> pstate" where
  "count_error st = st\<lparr>ps_errors := Suc (ps_errors st)\<rparr>"

text \<open>
  The keyword that is there, and the one that ends the block, which stands for the one that starts it as well. None:
  \<open>current_menu\<close> is NULL.
\<close>

definition zconf_endtoken :: "end_token \<Rightarrow> end_token \<Rightarrow> pstate \<Rightarrow> (bool \<times> pstate) option" where
  "zconf_endtoken found expected st =
     (if found \<noteq> expected then
        Some (False, count_error (zconf_error (''unexpected '' @ quoted (end_name found) @ '' within '' @ zconf_tokenname expected @ '' block'') st))
      else (case ps_menu st of
              None \<Rightarrow> None
            | Some a \<Rightarrow>
                if m_file (ps_menus st a) \<noteq> ps_file st then
                  Some (False, count_error (warn (position (m_file (ps_menus st a)) (m_lineno (ps_menus st a))
                                @ '' location of the '' @ quoted (zconf_tokenname expected))
                    (zconf_error (quoted (end_name found) @ '' in different file than '' @ quoted (zconf_tokenname expected)) st)))
                else Some (True, st)))"

definition end_block :: "pos \<Rightarrow> end_token \<Rightarrow> end_token \<Rightarrow> pstate \<Rightarrow> pstate option" where
  "end_block p found expected st = do {
     (ok, st1) \<leftarrow> zconf_endtoken found expected (move_to p st);
     if ok then menu_end_menu st1 else Some st1 }"

section \<open>Statements\<close>

fun parse_stmts :: "(string \<Rightarrow> string option) \<Rightarrow> stmt list \<Rightarrow> pstate \<Rightarrow> pstate option" where
  "parse_stmts getenv [] st = Some st"
| "parse_stmts getenv (S_config p w os # ss) st = do {
     st1 \<leftarrow> config_entry_start p w st;
     st2 \<leftarrow> run_all (at_pos (config_option_action getenv)) os st1;
     parse_stmts getenv ss st2 }"
| "parse_stmts getenv (S_menuconfig p w os q # ss) st = do {
     st1 \<leftarrow> config_entry_start p w st;
     st2 \<leftarrow> run_all (at_pos (config_option_action getenv)) os st1;
     parse_stmts getenv ss (menuconfig_end (move_to q st2)) }"
| "parse_stmts getenv (S_choice p w os body q f # ss) st = do {
     st1 \<leftarrow> choice_start p w st;
     st2 \<leftarrow> run_all (at_pos choice_option_action) os st1;
     st3 \<leftarrow> parse_stmts getenv body (menu_add_menu st2);
     st4 \<leftarrow> end_block q f T_ENDCHOICE st3;
     parse_stmts getenv ss st4 }"
| "parse_stmts getenv (S_if p c body q f # ss) st = do {
     st1 \<leftarrow> if_start p c st;
     st3 \<leftarrow> parse_stmts getenv body (menu_add_menu st1);
     st4 \<leftarrow> end_block q f T_ENDIF st3;
     parse_stmts getenv ss st4 }"
| "parse_stmts getenv (S_menu p text vs ds body q f # ss) st = do {
     st1 \<leftarrow> titled_start P_MENU p text st;
     st2 \<leftarrow> run_all visible_action vs st1;
     st2' \<leftarrow> run_all (at_pos depends_action) ds st2;
     st3 \<leftarrow> parse_stmts getenv body (menu_add_menu st2');
     st4 \<leftarrow> end_block q f T_ENDMENU st3;
     parse_stmts getenv ss st4 }"
| "parse_stmts getenv (S_comment p text ds # ss) st = do {
     st1 \<leftarrow> titled_start P_COMMENT p text st;
     st2 \<leftarrow> run_all (at_pos depends_action) ds st1;
     parse_stmts getenv ss st2 }"
| "parse_stmts getenv (S_source name # ss) st = parse_stmts getenv ss st"

section \<open>The whole parse\<close>

text \<open>The text of the prompt of \<open>rootmenu\<close>, with the names in it expanded. None: there is no prompt, or no text.\<close>

definition expand_title :: "calc \<Rightarrow> pstate \<Rightarrow> pstate option" where
  "expand_title calc st =
     (case m_prompt (ps_menus st rootmenu) of
        Some (POwn p) \<Rightarrow> do {
          text \<leftarrow> p_text p;
          (v, k) \<leftarrow> sym_expand_string_value calc text (ps_k st);
          Some (set_menu rootmenu (\<lambda>m. m\<lparr>m_prompt := Some (POwn (p\<lparr>p_text := Some v\<rparr>))\<rparr>) (st\<lparr>ps_k := k\<rparr>)) }
      | _ \<Rightarrow> None)"

definition mainmenu_stmt :: "(pos \<times> string) option \<Rightarrow> pstate \<Rightarrow> pstate option" where
  "mainmenu_stmt t st = (case t of None \<Rightarrow> Some st | Some (p, text) \<Rightarrow> menu_add_prompt P_MENU text None (move_to p st))"

definition default_modules :: "pstate \<Rightarrow> pstate" where
  "default_modules st =
     (let m = (case ps_modules st of None \<Rightarrow> sym_find ''n'' (ps_k st) | Some m \<Rightarrow> Some m) in
      st\<lparr>ps_modules := m, ps_k := (case m of None \<Rightarrow> ps_k st | Some s \<Rightarrow> (ps_k st)\<lparr>k_modules := s\<rparr>)\<rparr>)"

text \<open>
  What the grammar has read before and after the calls of \<open>sym_init\<close> and \<open>_menu_init\<close>, up to \<open>menu_finalize\<close>. The bound
  is that of \<open>menu_finalize\<close>; \<open>Inl\<close> after \<open>exit(1)\<close>.
\<close>

definition read_menus ::
  "(string \<Rightarrow> string option) \<Rightarrow> string \<Rightarrow> pos \<Rightarrow> (pos \<times> string) option \<Rightarrow> stmt list \<Rightarrow> pstate \<Rightarrow> pstate option"
where
  "read_menus getenv release start title ss st = do {
     st1 \<leftarrow> menu_add_prompt P_MENU ''Buildroot Configuration'' None (menu_init (sym_init release (move_to start st)));
     st2 \<leftarrow> mainmenu_stmt title st1;
     parse_stmts getenv ss st2 }"

definition start_checks :: "pstate \<Rightarrow> check_state" where
  "start_checks st = \<lparr>cs_k = ps_k st, cs_menus = ps_menus st, cs_stack = [], cs_reports = []\<rparr>"

definition after_checks :: "pstate \<Rightarrow> nat \<times> check_state \<Rightarrow> pstate + pstate \<times> check_state" where
  "after_checks st r =
     (case r of (e, cs) \<Rightarrow>
        let st1 = st\<lparr>ps_k := cs_k cs, ps_errors := e\<rparr>
        in if e \<noteq> 0 then Inl st1 else Inr (on_k (sym_set_change_count 1) st1, cs))"

definition conf_parse ::
  "nat \<Rightarrow> nat \<Rightarrow> nat \<Rightarrow> (string \<Rightarrow> string option) \<Rightarrow> string \<Rightarrow> pos \<Rightarrow> (pos \<times> string) option \<Rightarrow> stmt list \<Rightarrow>
     pstate \<Rightarrow> (pstate + pstate \<times> check_state) option"
where
  "conf_parse n c d getenv release start title ss st = do {
     st1 \<leftarrow> read_menus getenv release start title ss st;
     if ps_errors st1 \<noteq> 0 then Some (Inl st1)
     else do {
       st2 \<leftarrow> expand_title (sym_calc_value c) (default_modules st1);
       st3 \<leftarrow> menu_finalize n rootmenu st2;
       map_option (after_checks st3) (check_symbols d (for_all_symbols (ps_k st3)) (ps_errors st3, start_checks st3)) } }"

end
