(* ===== verification/Kc_Parse_Inv.thy ===== *)
theory Kc_Parse_Inv
  imports Kc_Parse Kc_Finalize_Inv
begin

text \<open>
  What the actions of the grammar keep true of the symbols and properties, whatever the text: every property has what
  its type needs. This is what \<open>menu_finalize\<close> relies on.
\<close>

section \<open>The table of symbols\<close>

definition allocated :: "kstate \<Rightarrow> sym \<Rightarrow> bool" where
  "allocated k s \<longleftrightarrow> (\<forall>n. s = sym_at n \<longrightarrow> n < k_next k)"

text \<open>The chains hold allocated symbols, memory that is not allocated is empty, and the constants have their names.\<close>

definition table_ok :: "kstate \<Rightarrow> bool" where
  "table_ok k \<longleftrightarrow>
     (\<forall>i. \<forall>s\<in>set (k_hash k i). \<exists>n<k_next k. s = sym_at n) \<and>
     (\<forall>s. \<not> allocated k s \<longrightarrow> s_name (k_sym k s) = None \<and> s_prop (k_sym k s) = [] \<and> \<not> sym_is_choice (k_sym k s)) \<and>
     s_name (k_sym k symbol_yes) = Some ''y'' \<and> s_name (k_sym k symbol_mod) = Some ''m'' \<and> s_name (k_sym k symbol_no) = Some ''n''"

text \<open>Symbols keep their names.\<close>

definition names_kept :: "kstate \<Rightarrow> kstate \<Rightarrow> bool" where
  "names_kept k k' \<longleftrightarrow> k_next k \<le> k_next k' \<and> (\<forall>s. allocated k s \<longrightarrow> s_name (k_sym k' s) = s_name (k_sym k s))"

lemma names_kept_refl [simp]: "names_kept k k" by (simp add: names_kept_def)

lemma allocated_kept: "names_kept k k' \<Longrightarrow> allocated k s \<Longrightarrow> allocated k' s"
  unfolding names_kept_def allocated_def by fastforce

lemma names_kept_trans: "names_kept a b \<Longrightarrow> names_kept b c \<Longrightarrow> names_kept a c"
  using allocated_kept[of a b] by (auto simp: names_kept_def)

lemma named_allocated: "table_ok k \<Longrightarrow> s_name (k_sym k s) \<noteq> None \<Longrightarrow> allocated k s"
  by (auto simp: table_ok_def)

lemma static_name_named:
  "table_ok k \<Longrightarrow> static_name w = Some s \<Longrightarrow> s_name (k_sym k s) = Some w \<and> allocated k s"
  by (induction w rule: static_name.induct) (auto simp: table_ok_def allocated_def split: if_splits)

text \<open>A lookup gives a symbol with the name, an old one or a new and empty one.\<close>

lemma lookup_cases:
  assumes "table_ok k" and "sym_lookup name f k = (s, k')"
  obtains (old) "k' = k" "allocated k s" "s_name (k_sym k s) = name" "\<And>n. s = sym_at n \<Longrightarrow> name \<noteq> None"
    | (new) n h where "s = sym_at n" "n = k_next k" "k_next k' = Suc n" "k_sym k' = (k_sym k)(s := new_symbol name f)"
        "k_hash k' = (k_hash k)(h := s # k_hash k h)" "k_modules k' = k_modules k"
proof (cases name)
  case None
  then show thesis using new assms(2) by (auto simp: sym_lookup_def add_symbol_def Let_def)
next
  case (Some w)
  show thesis
  proof (cases "static_name w")
    case None
    show thesis
    proof (cases "List.find (\<lambda>s. lookup_match f w (k_sym k s)) (k_hash k (hash_index w))")
      case None
      then show thesis using new \<open>static_name w = None\<close> Some assms(2) by (auto simp: sym_lookup_def add_symbol_def Let_def)
    next
      case (Some t)
      then have "t \<in> set (k_hash k (hash_index w))" "lookup_match f w (k_sym k t)"
        by (auto simp: find_Some_iff dest: nth_mem)
      moreover have "s = t" "k' = k" using Some \<open>static_name w = None\<close> \<open>name = Some w\<close> assms(2) by (simp_all add: sym_lookup_def)
      ultimately show thesis using old assms(1) \<open>name = Some w\<close>
        by (fastforce simp: table_ok_def allocated_def lookup_match_def)
    qed
  next
    case st: (Some t)
    then have "s = t" "k' = k" using Some assms(2) by (simp_all add: sym_lookup_def)
    then show thesis using old static_name_named[OF assms(1) st] Some by simp
  qed
qed

lemma lookup_ok:
  assumes "table_ok k" and "sym_lookup name f k = (s, k')"
  shows "table_ok k' \<and> names_kept k k' \<and> allocated k' s \<and> s_name (k_sym k' s) = name \<and>
    (\<forall>a. s_prop (k_sym k' a) = s_prop (k_sym k a) \<and>
       (sym_is_choice (k_sym k' a) \<longrightarrow> sym_is_choice (k_sym k a) \<or> (a = s \<and> f AND SYMBOL_CHOICE \<noteq> 0)))"
proof (cases rule: lookup_cases[OF assms])
  case 1
  then show ?thesis using assms(1) by simp
next
  case (2 n h)
  have blank: "s_prop (k_sym k s) = []" using assms(1) 2 by (simp add: table_ok_def allocated_def)
  have "allocated k a \<Longrightarrow> a \<noteq> s" for a using 2(1,2) by (auto simp: allocated_def)
  moreover have "allocated k' a \<longleftrightarrow> allocated k a \<or> a = s" for a using 2(1-3) by (auto simp: allocated_def less_Suc_eq)
  moreover have "symbol_yes \<noteq> s" "symbol_mod \<noteq> s" "symbol_no \<noteq> s" using 2(1) by simp_all
  moreover have "\<exists>n<k_next k'. t = sym_at n" if "t \<in> set (k_hash k' i)" for i t
  proof (cases "t = s")
    case False
    then have "t \<in> set (k_hash k i)" using that 2(5) by (auto split: if_splits)
    then obtain m where "m < k_next k" "t = sym_at m" using assms(1) unfolding table_ok_def by blast
    then show ?thesis using 2(3) 2(2) by auto
  qed (use 2(1-3) in auto)
  ultimately show ?thesis
    using assms(1) 2(1-4) blank unfolding table_ok_def names_kept_def
    by (auto simp: new_symbol_def sym_is_choice_def has_flag_def less_Suc_eq)
qed

section \<open>Properties\<close>

definition prop_fine :: "pstate \<Rightarrow> property \<Rightarrow> bool" where
  "prop_fine st p \<longleftrightarrow> prop_ok st p \<and> (p_type p = P_ENV \<longrightarrow> (\<exists>s. prop_get_symbol p = Some s \<and> named st s)) \<and>
     (p_type p = P_CHOICE \<longrightarrow> p_expr p = None)"

definition has_choice :: "property list \<Rightarrow> bool" where
  "has_choice ps \<longleftrightarrow> (\<exists>p\<in>set ps. p_type p = P_CHOICE)"

text \<open>The prompt of an entry is a property of its symbol that is there, and not the one that makes a choice.\<close>

definition prompt_there :: "pstate \<Rightarrow> menu \<Rightarrow> bool" where
  "prompt_there st m \<longleftrightarrow> (\<forall>s i. m_prompt m = Some (PSym s i) \<longrightarrow>
     i < length (s_prop (tab_of st s)) \<and> p_type (s_prop (tab_of st s) ! i) \<noteq> P_CHOICE)"

text \<open>Everything is as it should be, but for the property of the choices in \<open>X\<close>.\<close>

definition open_ok :: "sym set \<Rightarrow> pstate \<Rightarrow> bool" where
  "open_ok X st \<longleftrightarrow> table_ok (ps_k st) \<and>
     (\<forall>s. (\<forall>p\<in>set (s_prop (tab_of st s)). prop_fine st p) \<and>
        (s \<notin> X \<longrightarrow> sym_is_choice (tab_of st s) \<longrightarrow> has_choice (s_prop (tab_of st s)))) \<and>
     (\<forall>a. entry_fine (ps_menus st a) \<and> (\<forall>s. m_sym (ps_menus st a) = Some s \<longrightarrow> allocated (ps_k st) s) \<and>
        prompt_there st (ps_menus st a)) \<and>
     (\<forall>m. ps_modules st = Some m \<longrightarrow> named st m)"

lemma has_choice_list: "has_choice ps \<Longrightarrow> \<forall>p\<in>set ps. p_type p = P_CHOICE \<longrightarrow> p_expr p = None \<Longrightarrow> has_list ps"
  by (induction ps) (auto simp: has_choice_def)

lemma open_fin: "open_ok {} st \<Longrightarrow> fin_ok st"
  using has_choice_list by (fastforce simp: open_ok_def fin_ok_def prop_fine_def)

lemma named_kept: "table_ok (ps_k st) \<Longrightarrow> names_kept (ps_k st) (ps_k st') \<Longrightarrow> named st s \<Longrightarrow> named st' s"
  using named_allocated[of "ps_k st" s] by (auto simp: named_def tab_of_def names_kept_def)

definition parents_kept :: "pstate \<Rightarrow> pstate \<Rightarrow> bool" where
  "parents_kept st st' \<longleftrightarrow> (\<forall>a. m_parent (ps_menus st a) \<noteq> None \<longrightarrow> m_parent (ps_menus st' a) \<noteq> None)"

lemma prop_fine_kept:
  assumes "prop_fine st p" and "table_ok (ps_k st)" and "names_kept (ps_k st) (ps_k st')" and "parents_kept st st'"
    and "p_expr q = p_expr p" and "p_menu q = p_menu p" and "p_type q = p_type p \<or> p_type q = P_MENU"
  shows "prop_fine st' q"
proof (cases "p_type q = P_MENU")
  case False
  then have t: "p_type q = p_type p" using assms(7) by simp
  have s: "prop_get_symbol q = prop_get_symbol p" using assms(5) by (simp add: prop_get_symbol_def)
  have n: "named st s \<Longrightarrow> named st' s" for s by (rule named_kept[OF assms(2,3)])
  have "prop_ok st' q"
    by (rule prop_ok_cong[where p = p and st = st]) (use assms t n in \<open>auto simp: prop_fine_def parents_kept_def\<close>)
  then show ?thesis using assms(1,5) t s n by (auto simp: prop_fine_def)
qed (simp add: prop_fine_def prop_ok_def)

lemma open_okI:
  assumes "open_ok X st" and "table_ok (ps_k st')" and "names_kept (ps_k st) (ps_k st')" and "parents_kept st st'"
    and "\<And>s q. q \<in> set (s_prop (tab_of st' s)) \<Longrightarrow> prop_fine st' q \<or>
      (\<exists>p\<in>set (s_prop (tab_of st s)). p_expr q = p_expr p \<and> p_menu q = p_menu p \<and> (p_type q = p_type p \<or> p_type q = P_MENU))"
    and "\<And>s. s \<notin> Y \<Longrightarrow> sym_is_choice (tab_of st' s) \<Longrightarrow> has_choice (s_prop (tab_of st' s))"
    and "\<And>a. entry_fine (ps_menus st' a)"
    and "\<And>a s. m_sym (ps_menus st' a) = Some s \<Longrightarrow> m_sym (ps_menus st a) = Some s \<or> allocated (ps_k st') s"
    and "\<And>a. prompt_there st' (ps_menus st' a)" and "\<And>m. ps_modules st' = Some m \<Longrightarrow> named st' m"
  shows "open_ok Y st'"
proof -
  have "prop_fine st' q" if q: "q \<in> set (s_prop (tab_of st' s))" for q s
  proof (cases "prop_fine st' q")
    case False
    then obtain p where p: "p \<in> set (s_prop (tab_of st s))" "p_expr q = p_expr p" "p_menu q = p_menu p" "p_type q = p_type p \<or> p_type q = P_MENU"
      using assms(5)[OF q] by blast
    have "prop_fine st p" "table_ok (ps_k st)" using assms(1) p(1) by (auto simp: open_ok_def)
    then show ?thesis by (rule prop_fine_kept[OF _ _ assms(3,4) p(2-4)])
  qed
  moreover have "allocated (ps_k st') s" if "m_sym (ps_menus st' a) = Some s" for a s
    using assms(8)[OF that] assms(1) allocated_kept[OF assms(3), of s] by (auto simp: open_ok_def)
  ultimately show ?thesis using assms(2,6,7,9,10) by (auto simp: open_ok_def)
qed

text \<open>The properties of every symbol are the same, or more.\<close>

lemma prompt_there_more:
  assumes "prompt_there st m" and "m_prompt m' = m_prompt m" and "\<And>s. \<exists>l. s_prop (tab_of st' s) = s_prop (tab_of st s) @ l"
  shows "prompt_there st' m'"
  unfolding prompt_there_def
proof (intro allI impI)
  fix s i assume "m_prompt m' = Some (PSym s i)"
  then have i: "i < length (s_prop (tab_of st s))" "p_type (s_prop (tab_of st s) ! i) \<noteq> P_CHOICE"
    using assms(1,2) by (auto simp: prompt_there_def)
  obtain l where "s_prop (tab_of st' s) = s_prop (tab_of st s) @ l" using assms(3) by blast
  with i show "i < length (s_prop (tab_of st' s)) \<and> p_type (s_prop (tab_of st' s) ! i) \<noteq> P_CHOICE" by (simp add: nth_append)
qed


section \<open>Actions on the current entry\<close>

definition ready :: "pstate \<Rightarrow> bool" where
  "ready st \<longleftrightarrow> open_ok {} st \<and> parents_ok st \<and> ps_entry st < ps_alloc st \<and> m_parent (ps_menus st (ps_entry st)) \<noteq> None"

text \<open>The step returns, the tree and the place in it are the same, and everything is as it should be.\<close>

definition step_ok :: "pstate \<Rightarrow> pstate \<Rightarrow> bool" where
  "step_ok st st' \<longleftrightarrow> same_place st st' \<and> names_kept (ps_k st) (ps_k st') \<and> open_ok {} st'"

definition does :: "pstate \<Rightarrow> pstate option \<Rightarrow> bool" where
  "does st r \<longleftrightarrow> (\<exists>st'. r = Some st' \<and> step_ok st st')"

definition cur_sym :: "pstate \<Rightarrow> sym option" where
  "cur_sym st = m_sym (ps_menus st (ps_entry st))"

lemma step_ready: "ready st \<Longrightarrow> step_ok st st' \<Longrightarrow> ready st'"
  using parents_ok_place[of st st'] by (auto simp: ready_def step_ok_def same_place_def same_links_def)

lemma step_trans: "step_ok a b \<Longrightarrow> step_ok b c \<Longrightarrow> step_ok a c"
  by (auto simp: step_ok_def intro: same_place_trans names_kept_trans)

lemma step_cur: "step_ok st st' \<Longrightarrow> cur_sym st' = cur_sym st"
  by (simp add: step_ok_def same_place_def cur_sym_def)

lemma step_modules: "step_ok st st' \<Longrightarrow> ps_modules st \<noteq> None \<Longrightarrow> ps_modules st' \<noteq> None"
  by (simp add: step_ok_def same_place_def)

lemma step_named: "ready st \<Longrightarrow> step_ok st st' \<Longrightarrow> named st s \<Longrightarrow> named st' s"
  by (rule named_kept) (auto simp: ready_def step_ok_def open_ok_def)

lemma does_Some [simp]: "does st (Some st') \<longleftrightarrow> step_ok st st'" by (simp add: does_def)

lemma does_bind:
  assumes "does st m" and "\<And>st1. m = Some st1 \<Longrightarrow> step_ok st st1 \<Longrightarrow> does st1 (f st1)"
  shows "does st (Option.bind m f)"
  using assms step_trans by (fastforce simp: does_def)

lemma does_after: "step_ok st st1 \<Longrightarrow> does st1 r \<Longrightarrow> does st r"
  by (auto simp: does_def intro: step_trans)

lemma does_all:
  assumes "\<And>st a. ready st \<Longrightarrow> Q st \<Longrightarrow> a \<in> set as \<Longrightarrow> does st (f a st)"
    and "\<And>st st'. ready st \<Longrightarrow> Q st \<Longrightarrow> step_ok st st' \<Longrightarrow> Q st'"
  shows "ready st \<Longrightarrow> Q st \<Longrightarrow> does st (run_all f as st)"
  using assms(1)
proof (induction as arbitrary: st)
  case Nil
  then show ?case by (simp add: step_ok_def ready_def)
next
  case (Cons a as)
  show ?case unfolding run_all.simps
  proof (rule does_bind)
    show "does st (f a st)" using Cons.prems by simp
    fix st1 assume "step_ok st st1"
    then show "does st1 (run_all f as st1)"
      using Cons.IH[of st1] Cons.prems assms(2)[of st st1] step_ready[of st st1] by simp
  qed
qed

text \<open>Changes that leave the symbols and the menus alone.\<close>

lemma step_same:
  assumes "open_ok {} st" and "ps_k st' = ps_k st" and "ps_menus st' = ps_menus st" and "ps_modules st' = ps_modules st"
    and "ps_alloc st' = ps_alloc st" and "ps_entry st' = ps_entry st" and "ps_menu st' = ps_menu st" and "ps_last st' = ps_last st"
  shows "step_ok st st'"
proof -
  have "prop_fine st' p = prop_fine st p" for p
    using assms(2,3) by (simp add: prop_fine_def prop_ok_def named_def tab_of_def cong: prop_type.case_cong)
  then show ?thesis using assms by (simp add: step_ok_def same_place_def open_ok_def prompt_there_def tab_of_def named_def)
qed

lemma step_warn: "open_ok {} st \<Longrightarrow> step_ok st (warn m st)" "open_ok {} st \<Longrightarrow> step_ok st (menu_warn a m st)"
  "open_ok {} st \<Longrightarrow> step_ok st (zconfprint m st)" "open_ok {} st \<Longrightarrow> step_ok st (zconf_error m st)"
  "open_ok {} st \<Longrightarrow> step_ok st (move_to p st)"
  by (rule step_same; simp add: warn_def menu_warn_def zconfprint_def zconf_error_def move_to_def)+

text \<open>A symbol that keeps its name, its properties and whether it is a choice.\<close>

lemma table_ok_upd:
  assumes "table_ok k" and "\<And>y. s_name (f y) = s_name y \<and> s_prop (f y) = s_prop y \<and> sym_is_choice (f y) = sym_is_choice y"
  shows "table_ok (upd s f k)" and "names_kept k (upd s f k)"
  using assms by (simp_all add: table_ok_def names_kept_def allocated_def k_sym_upd)

lemma step_upd:
  assumes "open_ok X st" and f: "\<And>y. s_name (f y) = s_name y \<and> s_prop (f y) = s_prop y \<and> sym_is_choice (f y) = sym_is_choice y"
  shows "open_ok X (on_k (upd s f) st)" and "names_kept (ps_k st) (ps_k (on_k (upd s f) st))"
proof -
  have k: "ps_k (on_k (upd s f) st) = upd s f (ps_k st)" by (simp add: on_k_def)
  have t: "table_ok (ps_k st)" using assms(1) by (simp add: open_ok_def)
  note tk = table_ok_upd[where f = f, OF t f]
  show "names_kept (ps_k st) (ps_k (on_k (upd s f) st))" unfolding k by (rule tk(2))
  have p: "s_prop (tab_of (on_k (upd s f) st) a) = s_prop (tab_of st a)"
    "sym_is_choice (tab_of (on_k (upd s f) st) a) = sym_is_choice (tab_of st a)"
    "s_name (tab_of (on_k (upd s f) st) a) = s_name (tab_of st a)" for a
    using f by (auto simp: tab_upd)
  have o: "ps_modules (on_k (upd s f) st) = ps_modules st" by (simp add: on_k_def)
  have th: "prompt_there (on_k (upd s f) st) (ps_menus (on_k (upd s f) st) a)" for a
    by (rule prompt_there_more[where st = st and m = "ps_menus st a"]) (use assms(1) p in \<open>simp_all add: open_ok_def\<close>)
  show "open_ok X (on_k (upd s f) st)"
    by (rule open_okI[OF assms(1)])
      (use assms(1) tk o th in \<open>auto simp: k p open_ok_def named_def parents_kept_def\<close>)
qed

lemma step_upd_ok:
  "open_ok {} st \<Longrightarrow> (\<And>y. s_name (f y) = s_name y \<and> s_prop (f y) = s_prop y \<and> sym_is_choice (f y) = sym_is_choice y) \<Longrightarrow>
    step_ok st (on_k (upd s f) st)"
  using step_upd[of "{}" st f s] by (simp add: step_ok_def)

text \<open>A menu that keeps its links, its symbol and its prompt.\<close>

lemma step_menu:
  assumes "open_ok {} st"
    and f: "\<And>m. m_next (f m) = m_next m \<and> m_parent (f m) = m_parent m \<and> m_list (f m) = m_list m \<and> m_sym (f m) = m_sym m \<and>
      m_file (f m) = m_file m \<and> m_prompt (f m) = m_prompt m"
  shows "step_ok st (set_menu a f st)"
proof -
  have p: "same_place st (set_menu a f st)" by (rule same_place_set_menu) (simp add: f)
  have k: "ps_k (set_menu a f st) = ps_k st" "ps_modules (set_menu a f st) = ps_modules st" by (simp_all add: set_menu_def)
  have "entry_fine (f m) = entry_fine m" for m using f[of m] by (simp add: entry_fine_def split: option.split prompt.split)
  moreover have "prompt_there (set_menu a f st) (ps_menus (set_menu a f st) b)" for b
    by (rule prompt_there_more[where st = st and m = "ps_menus st b"]) (use assms(1) f in \<open>simp_all add: open_ok_def menus_set\<close>)
  ultimately have "open_ok {} (set_menu a f st)"
    by (intro open_okI[OF assms(1)])
      (use assms(1) in \<open>auto simp: k open_ok_def named_def parents_kept_def menus_set f tab_of_def split: if_splits\<close>)
  with p show ?thesis by (simp add: step_ok_def k)
qed

text \<open>Lookups.\<close>

lemma step_lookup:
  assumes "open_ok X st" and "sym_lookup name f (ps_k st) = (s, k)"
  shows "open_ok (if f AND SYMBOL_CHOICE \<noteq> 0 then insert s X else X) (st\<lparr>ps_k := k\<rparr>)" and "names_kept (ps_k st) k"
    and "s_name (k_sym k s) = name" and "allocated k s"
proof -
  have t: "table_ok (ps_k st)" using assms(1) by (simp add: open_ok_def)
  note l = lookup_ok[OF t assms(2)]
  then show "names_kept (ps_k st) k" "s_name (k_sym k s) = name" "allocated k s" by simp_all
  have n: "named st m \<Longrightarrow> named (st\<lparr>ps_k := k\<rparr>) m" for m
    by (rule named_kept[OF t]) (use l in \<open>simp_all add: tab_of_def\<close>)
  have th: "prompt_there (st\<lparr>ps_k := k\<rparr>) (ps_menus (st\<lparr>ps_k := k\<rparr>) a)" for a
    by (rule prompt_there_more[where st = st and m = "ps_menus st a"]) (use assms(1) l in \<open>simp_all add: open_ok_def tab_of_def\<close>)
  show "open_ok (if f AND SYMBOL_CHOICE \<noteq> 0 then insert s X else X) (st\<lparr>ps_k := k\<rparr>)"
    by (rule open_okI[OF assms(1)])
      (use l assms(1) n th in \<open>auto simp: tab_of_def open_ok_def parents_kept_def split: if_splits\<close>)
qed

lemma step_lookup_ok:
  assumes "open_ok {} st" and "sym_lookup name f (ps_k st) = (s, k)" and "f AND SYMBOL_CHOICE = 0"
  shows "step_ok st (st\<lparr>ps_k := k\<rparr>)"
  using step_lookup[OF assms(1,2)] assms(3) by (simp add: step_ok_def)


section \<open>New properties\<close>

text \<open>What the expression of a property must be; the position of the entry matters for a prompt.\<close>

definition expr_fine :: "pstate \<Rightarrow> prop_type \<Rightarrow> prop_expr option \<Rightarrow> bool" where
  "expr_fine st t e \<longleftrightarrow>
     (case t of
        P_SELECT \<Rightarrow> \<exists>s. e = Some (PE_expr (Sym s))
      | P_DEFAULT \<Rightarrow> \<exists>x. e = Some (PE_expr x) \<and> (\<forall>s. x = Sym s \<longrightarrow> named st s)
      | P_RANGE \<Rightarrow> \<exists>a b. e = Some (PE_range a b) \<and> named st a \<and> named st b
      | P_ENV \<Rightarrow> \<exists>s. e = Some (PE_expr (Sym s)) \<and> named st s
      | P_CHOICE \<Rightarrow> e = None
      | P_PROMPT \<Rightarrow> m_parent (ps_menus st (ps_entry st)) \<noteq> None
      | _ \<Rightarrow> True)"

lemma new_prop_fine:
  assumes "expr_fine st t e" and "p_type p = t" and "p_expr p = e" and "t = P_PROMPT \<Longrightarrow> p_menu p = Some (ps_entry st)"
  shows "prop_fine st p"
  using assms by (cases t) (auto simp: prop_fine_def prop_ok_def expr_fine_def prop_get_symbol_def split: expr.splits)

lemma append_ok:
  assumes "open_ok X st" and "prop_fine st p" and "allocated (ps_k st) s"
  shows "open_ok (if p_type p = P_CHOICE then X - {s} else X) (on_k (append_prop s p) st)"
    and "names_kept (ps_k st) (ps_k (on_k (append_prop s p) st))"
proof -
  let ?st = "on_k (append_prop s p) st"
  have t: "table_ok (ps_k st)" using assms(1) by (simp add: open_ok_def)
  have tab: "tab_of ?st a = (if a = s then (tab_of st s)\<lparr>s_prop := s_prop (tab_of st s) @ [p]\<rparr> else tab_of st a)" for a
    by (simp add: append_prop_def tab_upd)
  have f: "ps_menus ?st = ps_menus st" "ps_modules ?st = ps_modules st" "k_next (ps_k ?st) = k_next (ps_k st)" "k_hash (ps_k ?st) = k_hash (ps_k st)"
    by (simp_all add: on_k_def append_prop_def)
  have al: "allocated (ps_k ?st) a = allocated (ps_k st) a" for a by (simp add: allocated_def f)
  have c: "sym_is_choice (tab_of ?st a) = sym_is_choice (tab_of st a)" "s_name (tab_of ?st a) = s_name (tab_of st a)" for a
    by (simp_all add: tab sym_is_choice_def has_flag_def)
  have tk: "table_ok (ps_k ?st)"
    using t assms(3) unfolding table_ok_def al f by (auto simp: tab[unfolded tab_of_def] sym_is_choice_def has_flag_def)
  show nk: "names_kept (ps_k st) (ps_k ?st)"
    using c(2) by (simp add: names_kept_def f tab_of_def)
  have pf: "prop_fine ?st p"
    by (rule prop_fine_kept[OF assms(2) t nk]) (simp_all add: parents_kept_def f)
  have th: "prompt_there ?st (ps_menus ?st a)" for a
    by (rule prompt_there_more[where st = st and m = "ps_menus st a"]) (use assms(1) in \<open>simp_all add: open_ok_def f tab\<close>)
  show "open_ok (if p_type p = P_CHOICE then X - {s} else X) ?st"
    by (rule open_okI[OF assms(1) tk nk])
      (use assms(1) pf th in \<open>auto simp: f tab parents_kept_def open_ok_def has_choice_def named_def sym_is_choice_def has_flag_def split: if_splits\<close>)
qed

text \<open>The prompt of the current entry.\<close>

lemma prompt_set_ok:
  assumes "open_ok X st" and "case ptr of POwn p \<Rightarrow> p_type p \<noteq> P_SELECT
    | PSym s i \<Rightarrow> m_sym (ps_menus st a) \<noteq> None \<and> i < length (s_prop (tab_of st s)) \<and> p_type (s_prop (tab_of st s) ! i) \<noteq> P_CHOICE"
  shows "open_ok X (set_menu a (\<lambda>m. m\<lparr>m_prompt := Some ptr\<rparr>) st)"
proof -
  let ?st = "set_menu a (\<lambda>m. m\<lparr>m_prompt := Some ptr\<rparr>) st"
  have f: "ps_k ?st = ps_k st" "ps_modules ?st = ps_modules st" by (simp_all add: set_menu_def)
  have th: "prompt_there ?st (ps_menus ?st b)" for b
    using assms by (auto simp: prompt_there_def open_ok_def menus_set split: if_splits)
  show ?thesis
    by (rule open_okI[OF assms(1)])
      (use assms th in \<open>auto simp: f open_ok_def named_def parents_kept_def menus_set tab_of_def entry_fine_def split: prompt.splits if_splits\<close>)
qed

definition closes :: "prop_type \<Rightarrow> sym option \<Rightarrow> sym set \<Rightarrow> sym set" where
  "closes t so X = (if t = P_CHOICE then X - set_option so else X)"

lemma closes_none [simp]: "closes t so {} = {}" by (simp add: closes_def)

lemma prop_alloc_ok:
  assumes "open_ok X st" and "prop_fine st p" and "\<And>s. so = Some s \<Longrightarrow> allocated (ps_k st) s"
    and "prop_alloc p so st = (ptr, st')"
  shows "open_ok (closes (p_type p) so X) st' \<and> names_kept (ps_k st) (ps_k st') \<and> ps_menus st' = ps_menus st \<and>
    (case so of None \<Rightarrow> ptr = POwn p
     | Some s \<Rightarrow> \<exists>i. ptr = PSym s i \<and> i < length (s_prop (tab_of st' s)) \<and> p_type (s_prop (tab_of st' s) ! i) = p_type p)"
proof (cases so)
  case None
  then show ?thesis using assms by (auto simp: prop_alloc_def closes_def)
next
  case (Some s)
  have "open_ok (closes (p_type p) so X) (on_k (append_prop s p) st)" "names_kept (ps_k st) (ps_k (on_k (append_prop s p) st))"
    using append_ok[OF assms(1,2) assms(3)[OF Some]] Some by (auto simp: closes_def)
  then show ?thesis using assms(4) Some by (auto simp: prop_alloc_def append_prop_def tab_upd tab_of_def[symmetric])
qed


lemma open_warned: "open_ok X st \<Longrightarrow> open_ok X (if b then prop_warn p m st else st)"
  by (simp add: open_ok_def prop_warn_def warn_def tab_of_def named_def prop_fine_def prop_ok_def prompt_there_def cong: prop_type.case_cong)

lemma add_prop_ok:
  assumes "open_ok X st" and "parents_ok st" and "ps_entry st < ps_alloc st" and "dep_ok (ps_modules st) d"
    and "expr_fine st t e" and "tx \<noteq> None \<Longrightarrow> t \<noteq> P_SELECT \<and> t \<noteq> P_CHOICE"
  shows "\<exists>st'. menu_add_prop t tx e d st = Some st' \<and> same_place st st' \<and> names_kept (ps_k st) (ps_k st') \<and>
    open_ok (closes t (cur_sym st) X) st'"
proof -
  obtain st' where st': "menu_add_prop t tx e d st = Some st'" using menu_add_prop_returns[OF assms(2-4)] by blast
  have al: "allocated (ps_k st) s" if "cur_sym st = Some s" for s
    using assms(1) that by (auto simp: open_ok_def cur_sym_def)
  obtain vis where vis: "menu_check_dep_ptr (ps_modules st) d = Some vis" using dep_ok_defined[OF assms(4)] by blast
  let ?p = "(new_prop t (ps_file st) (ps_lineno st))\<lparr>p_menu := Some (ps_entry st), p_expr := e\<rparr>"
  have fine: "prop_fine st (?p\<lparr>p_visible := v\<rparr>)" "prop_fine st (?p\<lparr>p_visible := v, p_text := x\<rparr>)" for v x
    by (rule new_prop_fine[OF assms(5)]; simp add: new_prop_def)+
  have ty: "p_type ?p = t" by (simp add: new_prop_def)
  show ?thesis
  proof (cases tx)
    case None
    obtain ptr st1 where a: "prop_alloc (?p\<lparr>p_visible := \<lparr>ev_expr = vis, ev_tri = tri_no\<rparr>\<rparr>) (cur_sym st) st = (ptr, st1)"
      by (cases "prop_alloc (?p\<lparr>p_visible := \<lparr>ev_expr = vis, ev_tri = tri_no\<rparr>\<rparr>) (cur_sym st) st")
    then have "st' = st1" using st' None vis by (simp add: menu_add_prop_def Let_def cur_sym_def)
    moreover have "open_ok (closes t (cur_sym st) X) st1 \<and> names_kept (ps_k st) (ps_k st1)"
      using prop_alloc_ok[OF assms(1) fine(1) al a] ty by simp
    ultimately show ?thesis using st' same_place_add_prop[OF st'] by blast
  next
    case (Some tex)
    define st2 where "st2 = (if m_prompt (ps_menus st (ps_entry st)) \<noteq> None \<and> ps_entry st \<noteq> rootmenu
      then prop_warn ?p ''prompt redefined'' (if tex \<noteq> [] \<and> isspace (hd tex) then prop_warn ?p ''leading whitespace ignored'' st else st)
      else (if tex \<noteq> [] \<and> isspace (hd tex) then prop_warn ?p ''leading whitespace ignored'' st else st))"
    obtain v where v: "(if t = P_PROMPT then upper_visibility (ps_menus st) (m_parent (ps_menus st (ps_entry st))) vis else Some vis) = Some v"
      using upper_visibility_parent[OF assms(2,3), of vis] by (cases "t = P_PROMPT") auto
    let ?q = "?p\<lparr>p_visible := \<lparr>ev_expr = v, ev_tri = tri_no\<rparr>, p_text := Some (dropWhile isspace tex)\<rparr>"
    obtain ptr st3 where a: "prop_alloc ?q (cur_sym st) st2 = (ptr, st3)" by (cases "prop_alloc ?q (cur_sym st) st2")
    have s': "st' = set_menu (ps_entry st) (\<lambda>m. m\<lparr>m_prompt := Some ptr\<rparr>) st3"
      using st' Some vis v a by (simp add: menu_add_prop_def Let_def cur_sym_def st2_def)
    have 2: "open_ok X st2" unfolding st2_def by (intro open_warned assms(1))
    have k2: "ps_k st2 = ps_k st" "ps_menus st2 = ps_menus st" by (simp_all add: st2_def prop_warn_def warn_def)
    have q2: "prop_fine st2 ?q"
      by (rule prop_fine_kept[OF fine(2)]) (use 2 k2 in \<open>auto simp: open_ok_def parents_kept_def\<close>)
    have 3: "open_ok (closes t (cur_sym st) X) st3" "names_kept (ps_k st) (ps_k st3)" "ps_menus st3 = ps_menus st"
      "case cur_sym st of None \<Rightarrow> ptr = POwn ?q
       | Some s \<Rightarrow> \<exists>i. ptr = PSym s i \<and> i < length (s_prop (tab_of st3 s)) \<and> p_type (s_prop (tab_of st3 s) ! i) = t"
      using prop_alloc_ok[OF 2 q2 _ a] al k2 ty by (simp_all split: option.splits)
    have "open_ok (closes t (cur_sym st) X) st'"
      unfolding s' by (rule prompt_set_ok[OF 3(1)])
        (use 3(3,4) Some assms(6) in \<open>auto simp: cur_sym_def new_prop_def split: option.splits prompt.split\<close>)
    moreover have "names_kept (ps_k st) (ps_k st')" using 3(2) by (simp add: s' set_menu_def)
    ultimately show ?thesis using st' same_place_add_prop[OF st'] by blast
  qed
qed

lemma does_add_prop:
  assumes "ready st" and "dep_ok (ps_modules st) d" and "expr_fine st t e" and "tx \<noteq> None \<Longrightarrow> t \<noteq> P_SELECT \<and> t \<noteq> P_CHOICE"
  shows "does st (menu_add_prop t tx e d st)"
proof -
  have "open_ok {} st" "parents_ok st" "ps_entry st < ps_alloc st" using assms(1) by (simp_all add: ready_def)
  from add_prop_ok[OF this assms(2,3), of tx] assms(4) show ?thesis by (auto simp: does_def step_ok_def)
qed

lemma does_prompt: "ready st \<Longrightarrow> dep_ok (ps_modules st) d \<Longrightarrow> t \<in> {P_PROMPT, P_MENU, P_COMMENT} \<Longrightarrow> does st (menu_add_prompt t tx d st)"
  unfolding menu_add_prompt_def by (rule does_add_prop) (auto simp: expr_fine_def ready_def)

lemma does_dep: "ready st \<Longrightarrow> dep_ok (ps_modules st) d \<Longrightarrow> does st (menu_add_dep d st)"
  using dep_ok_defined[of "ps_modules st" d] by (auto simp: menu_add_dep_def ready_def intro!: step_menu)

lemma does_visibility: "ready st \<Longrightarrow> step_ok st (menu_add_visibility d st)"
  unfolding menu_add_visibility_def by (rule step_menu) (auto simp: ready_def)

lemma does_help: "ready st \<Longrightarrow> step_ok st (help_action x st)"
  unfolding help_action_def by (rule step_menu) (auto simp: ready_def)

lemma step_refl: "open_ok {} st \<Longrightarrow> step_ok st st" by (simp add: step_ok_def)

lemma does_type: "ready st \<Longrightarrow> cur_sym st \<noteq> None \<Longrightarrow> does st (menu_set_type t st)"
  by (auto simp: menu_set_type_def cur_sym_def ready_def Let_def sym_is_choice_def has_flag_def
      intro!: step_upd_ok step_warn(2) step_refl)


section \<open>Symbols and expressions\<close>

fun word_of :: "word_token \<Rightarrow> string" where
  "word_of (T_WORD w) = w"
| "word_of (T_WORD_QUOTE w) = w"

text \<open>No m where \<open>menu_check_dep\<close> looks for it.\<close>

fun plain :: "cond \<Rightarrow> bool" where
  "plain (C_symbol a) \<longleftrightarrow> word_of a \<noteq> ''m''"
| "plain (C_not c) \<longleftrightarrow> plain c"
| "plain (C_or c d) \<longleftrightarrow> plain c \<and> plain d"
| "plain (C_and c d) \<longleftrightarrow> plain c \<and> plain d"
| "plain _ \<longleftrightarrow> True"

lemma symbol_action_ok:
  assumes "open_ok {} st" and "symbol_action a (ps_k st) = (s, k)"
  shows "step_ok st (st\<lparr>ps_k := k\<rparr>)" and "s_name (k_sym k s) = Some (word_of a)"
proof -
  have "0 AND SYMBOL_CHOICE = 0" "SYMBOL_CONST AND SYMBOL_CHOICE = 0" by (simp_all add: flag_defs)
  then show "step_ok st (st\<lparr>ps_k := k\<rparr>)" "s_name (k_sym k s) = Some (word_of a)"
    using assms(2) step_lookup_ok[OF assms(1)] step_lookup(3)[OF assms(1)] by (cases a; auto)+
qed

lemma not_modules: "open_ok X st \<Longrightarrow> s_name (k_sym (ps_k st) s) = Some w \<Longrightarrow> w \<noteq> ''m'' \<Longrightarrow> s \<noteq> symbol_mod"
  by (auto simp: open_ok_def table_ok_def)

lemma step_open: "step_ok st st' \<Longrightarrow> open_ok {} st'" by (simp add: step_ok_def)

lemma expr_action_ok:
  "open_ok {} st \<Longrightarrow> expr_action c (ps_k st) = (e, k) \<Longrightarrow>
     step_ok st (st\<lparr>ps_k := k\<rparr>) \<and> (plain c \<longrightarrow> no_mod e) \<and> (\<forall>s. e = Sym s \<longrightarrow> s_name (k_sym k s) \<noteq> None)"
proof (induction c arbitrary: st e k)
  case (C_symbol a)
  obtain s where s: "symbol_action a (ps_k st) = (s, k)" "e = Sym s"
    using C_symbol(2) by (auto simp: expr_alloc_symbol_def split: prod.splits)
  note o = symbol_action_ok[OF C_symbol(1) s(1)]
  have "word_of a \<noteq> ''m'' \<Longrightarrow> s \<noteq> symbol_mod" using not_modules[OF step_open[OF o(1)]] o(2) by simp
  then show ?case using o s(2) by simp
next
  case (C_equal a b)
  obtain s k1 t where s: "symbol_action a (ps_k st) = (s, k1)" "symbol_action b k1 = (t, k)" "e = Equal s t"
    using C_equal(2) by (auto split: prod.splits)
  note o = symbol_action_ok(1)[OF C_equal(1) s(1)]
  have "step_ok (st\<lparr>ps_k := k1\<rparr>) (st\<lparr>ps_k := k\<rparr>)" using symbol_action_ok(1)[OF step_open[OF o]] s(2) by simp
  then show ?case using step_trans[OF o] s(3) by simp
next
  case (C_unequal a b)
  obtain s k1 t where s: "symbol_action a (ps_k st) = (s, k1)" "symbol_action b k1 = (t, k)" "e = Unequal s t"
    using C_unequal(2) by (auto split: prod.splits)
  note o = symbol_action_ok(1)[OF C_unequal(1) s(1)]
  have "step_ok (st\<lparr>ps_k := k1\<rparr>) (st\<lparr>ps_k := k\<rparr>)" using symbol_action_ok(1)[OF step_open[OF o]] s(2) by simp
  then show ?case using step_trans[OF o] s(3) by simp
next
  case (C_not c)
  then show ?case by (fastforce split: prod.splits)
next
  case (C_or c d)
  obtain l k1 r where s: "expr_action c (ps_k st) = (l, k1)" "expr_action d k1 = (r, k)" "e = Or l r"
    using C_or(4) by (auto split: prod.splits)
  note o = C_or(1)[OF C_or(3) s(1)]
  from C_or(2)[of "st\<lparr>ps_k := k1\<rparr>" r k] o s show ?case by (auto simp: step_ok_def intro: same_place_trans names_kept_trans)
next
  case (C_and c d)
  obtain l k1 r where s: "expr_action c (ps_k st) = (l, k1)" "expr_action d k1 = (r, k)" "e = And l r"
    using C_and(4) by (auto split: prod.splits)
  note o = C_and(1)[OF C_and(3) s(1)]
  from C_and(2)[of "st\<lparr>ps_k := k1\<rparr>" r k] o s show ?case by (auto simp: step_ok_def intro: same_place_trans names_kept_trans)
qed

text \<open>A condition is allowed when there is a \<open>modules_sym\<close>, or it does not mention m.\<close>

definition allowed :: "bool \<Rightarrow> cond option \<Rightarrow> bool" where
  "allowed md c \<longleftrightarrow> md \<or> (\<forall>x. c = Some x \<longrightarrow> plain x)"

definition knows_modules :: "bool \<Rightarrow> pstate \<Rightarrow> bool" where
  "knows_modules md st \<longleftrightarrow> (md \<longrightarrow> ps_modules st \<noteq> None)"

lemma step_knows: "knows_modules md st \<Longrightarrow> step_ok st st' \<Longrightarrow> knows_modules md st'"
  using step_modules by (auto simp: knows_modules_def)

lemma if_expr_ok:
  assumes "ready st" and "if_expr_action c (ps_k st) = (e, k)" and "allowed md c" and "knows_modules md st"
  shows "step_ok st (st\<lparr>ps_k := k\<rparr>) \<and> dep_ok (ps_modules st) e"
proof (cases c)
  case None
  then show ?thesis using assms by (auto simp: if_expr_action_def dep_ok_def ready_def intro: step_refl)
next
  case (Some x)
  obtain y where y: "expr_action x (ps_k st) = (y, k)" "e = Some y" using assms(2) Some by (auto simp: if_expr_action_def split: prod.splits)
  have "open_ok {} st" using assms(1) by (simp add: ready_def)
  from expr_action_ok[OF this y(1)] show ?thesis using assms(3,4) Some y(2) by (auto simp: allowed_def knows_modules_def dep_ok_def)
qed

lemma does_with:
  assumes "ready st" and "f (ps_k st) = (x, k)" and "step_ok st (st\<lparr>ps_k := k\<rparr>)"
    and "ready (st\<lparr>ps_k := k\<rparr>) \<Longrightarrow> does (st\<lparr>ps_k := k\<rparr>) (g x (st\<lparr>ps_k := k\<rparr>))"
  shows "does st (with_value f g st)"
  using assms step_ready[OF assms(1,3)] does_after[OF assms(3)] by (simp add: with_value_def)

lemma does_if_expr:
  assumes "ready st" and "allowed md c" and "knows_modules md st"
    and "\<And>e st1. ready st1 \<Longrightarrow> step_ok st st1 \<Longrightarrow> dep_ok (ps_modules st1) e \<Longrightarrow> does st1 (g e st1)"
  shows "does st (with_value (if_expr_action c) g st)"
proof -
  obtain e k where e: "if_expr_action c (ps_k st) = (e, k)" by (cases "if_expr_action c (ps_k st)")
  note o = if_expr_ok[OF assms(1) e assms(2,3)]
  show ?thesis by (rule does_with[where f = "if_expr_action c", OF assms(1) e]) (use o assms(4) in auto)
qed

lemma does_expr:
  assumes "ready st" and "allowed md (Some c)" and "knows_modules md st"
    and "\<And>e st1. ready st1 \<Longrightarrow> step_ok st st1 \<Longrightarrow> dep_ok (ps_modules st1) (Some e) \<Longrightarrow> (\<forall>s. e = Sym s \<longrightarrow> named st1 s) \<Longrightarrow> does st1 (g e st1)"
  shows "does st (with_value (expr_action c) g st)"
proof -
  obtain e k where e: "expr_action c (ps_k st) = (e, k)" by (cases "expr_action c (ps_k st)")
  have o: "step_ok st (st\<lparr>ps_k := k\<rparr>) \<and> (plain c \<longrightarrow> no_mod e) \<and> (\<forall>s. e = Sym s \<longrightarrow> s_name (k_sym k s) \<noteq> None)"
    by (rule expr_action_ok[OF _ e]) (use assms(1) in \<open>simp add: ready_def\<close>)
  show ?thesis
    by (rule does_with[where f = "expr_action c", OF assms(1) e])
      (use o assms(2,3,4) in \<open>auto simp: named_def tab_of_def dep_ok_def allowed_def knows_modules_def\<close>)
qed

lemma does_lookup:
  assumes "ready st" and "f AND SYMBOL_CHOICE = 0"
    and "\<And>s st1. ready st1 \<Longrightarrow> step_ok st st1 \<Longrightarrow> named st1 s \<Longrightarrow> does st1 (g s st1)"
  shows "does st (with_value (sym_lookup (Some w) f) g st)"
proof -
  obtain s k where s: "sym_lookup (Some w) f (ps_k st) = (s, k)" by (cases "sym_lookup (Some w) f (ps_k st)")
  have o: "open_ok {} st" using assms(1) by (simp add: ready_def)
  note l = step_lookup_ok[OF o s assms(2)] step_lookup(3)[OF o s]
  show ?thesis by (rule does_with[where f = "sym_lookup (Some w) f", OF assms(1) s l(1)]) (use l assms(3) in \<open>auto simp: named_def tab_of_def\<close>)
qed


section \<open>Options\<close>

fun option_ok :: "bool \<Rightarrow> config_option \<Rightarrow> bool" where
  "option_ok md (O_type t p) \<longleftrightarrow> (\<forall>x c. p = Some (x, c) \<longrightarrow> allowed md c)"
| "option_ok md (O_prompt x c) \<longleftrightarrow> allowed md c"
| "option_ok md (O_default t e c) \<longleftrightarrow> allowed md c"
| "option_ok md (O_select w c) \<longleftrightarrow> allowed md c"
| "option_ok md (O_range a b c) \<longleftrightarrow> allowed md c"
| "option_ok md (O_options os) \<longleftrightarrow> (\<forall>(n, a)\<in>set os. option_id n = Some T_OPT_ENV \<longrightarrow> a \<noteq> None)"
| "option_ok md (O_depends c) \<longleftrightarrow> allowed md (Some c)"
| "option_ok md (O_help x) \<longleftrightarrow> True"

fun choice_option_ok :: "bool \<Rightarrow> choice_option \<Rightarrow> bool" where
  "choice_option_ok md (H_prompt x c) \<longleftrightarrow> allowed md c"
| "choice_option_ok md (H_type tri p) \<longleftrightarrow> (\<forall>x c. p = Some (x, c) \<longrightarrow> allowed md c)"
| "choice_option_ok md H_optional \<longleftrightarrow> True"
| "choice_option_ok md (H_default w c) \<longleftrightarrow> allowed md c"
| "choice_option_ok md (H_depends c) \<longleftrightarrow> allowed md (Some c)"
| "choice_option_ok md (H_help x) \<longleftrightarrow> True"

lemma does_prompt_action: "ready st \<Longrightarrow> allowed md c \<Longrightarrow> knows_modules md st \<Longrightarrow> does st (prompt_action x c st)"
  unfolding prompt_action_def by (rule does_if_expr) (auto intro: does_prompt)

lemma does_prompt_opt:
  "ready st \<Longrightarrow> (\<And>x c. p = Some (x, c) \<Longrightarrow> allowed md c) \<Longrightarrow> knows_modules md st \<Longrightarrow> does st (prompt_stmt_opt p st)"
  by (cases p) (auto simp: prompt_stmt_opt_def ready_def[of st] intro: step_refl does_prompt_action)

lemma does_depends: "ready st \<Longrightarrow> allowed md (Some c) \<Longrightarrow> knows_modules md st \<Longrightarrow> does st (depends_action c st)"
  unfolding depends_action_def by (rule does_expr) (auto intro: does_dep)

text \<open>The entry has a symbol with a name; of a choice only a symbol.\<close>

definition on_symbol :: "bool \<Rightarrow> pstate \<Rightarrow> bool" where
  "on_symbol md st \<longleftrightarrow> (\<exists>s. cur_sym st = Some s \<and> named st s) \<and> knows_modules md st"

definition on_choice :: "bool \<Rightarrow> pstate \<Rightarrow> bool" where
  "on_choice md st \<longleftrightarrow> cur_sym st \<noteq> None \<and> knows_modules md st"

lemma step_on_symbol: "ready st \<Longrightarrow> on_symbol md st \<Longrightarrow> step_ok st st' \<Longrightarrow> on_symbol md st'"
  by (auto simp: on_symbol_def step_cur intro: step_named step_knows)

lemma step_on_choice: "ready st \<Longrightarrow> on_choice md st \<Longrightarrow> step_ok st st' \<Longrightarrow> on_choice md st'"
  by (auto simp: on_choice_def step_cur intro: step_knows)

lemma does_typed:
  assumes "ready st" and "does st m" and "cur_sym st \<noteq> None"
  shows "does st (Option.bind m (menu_set_type t))"
  by (rule does_bind[OF assms(2)]) (use assms(1,3) in \<open>auto intro: does_type dest: step_ready simp: step_cur\<close>)

lemma const_prop_kept:
  assumes o: "open_ok {} st" and al: "allocated (ps_k st) s" and "t \<in> {P_DEFAULT, P_ENV}"
  shows "step_ok st (add_const_prop t s x st)"
proof -
  obtain c k where c: "sym_lookup (Some x) SYMBOL_CONST (ps_k st) = (c, k)" by (cases "sym_lookup (Some x) SYMBOL_CONST (ps_k st)")
  have "SYMBOL_CONST AND SYMBOL_CHOICE = 0" by (simp add: flag_defs)
  from step_lookup_ok[OF o c this] have 1: "step_ok st (st\<lparr>ps_k := k\<rparr>)" .
  have n: "named (st\<lparr>ps_k := k\<rparr>) c" using step_lookup(3)[OF o c] by (simp add: named_def tab_of_def)
  let ?p = "(new_prop t (ps_file st) (ps_lineno st))\<lparr>p_expr := Some (PE_expr (expr_alloc_symbol c))\<rparr>"
  have "prop_fine (st\<lparr>ps_k := k\<rparr>) ?p" "p_type ?p = t"
    using assms(3) n by (auto simp: prop_fine_def prop_ok_def new_prop_def prop_get_symbol_def expr_alloc_symbol_def)
  moreover have "allocated k s"
    using 1 allocated_kept[OF _ al] by (simp add: step_ok_def)
  ultimately have "open_ok {} (on_k (append_prop s ?p) (st\<lparr>ps_k := k\<rparr>))" "names_kept k (ps_k (on_k (append_prop s ?p) (st\<lparr>ps_k := k\<rparr>)))"
    using append_ok[OF step_open[OF 1], of ?p s] assms(3) by (auto split: if_splits)
  then have "step_ok (st\<lparr>ps_k := k\<rparr>) (on_k (append_prop s ?p) (st\<lparr>ps_k := k\<rparr>))" by (simp add: step_ok_def)
  from step_trans[OF 1 this] show ?thesis by (simp add: add_const_prop_def c prop_alloc_def)
qed

lemma const_prop_ok: "ready st \<Longrightarrow> cur_sym st = Some s \<Longrightarrow> t \<in> {P_DEFAULT, P_ENV} \<Longrightarrow> step_ok st (add_const_prop t s x st)"
  by (rule const_prop_kept) (auto simp: ready_def open_ok_def cur_sym_def)

lemma does_env:
  assumes "ready st" and "cur_sym st = Some s"
  shows "does st (prop_add_env getenv env st)"
proof -
  define st1 where "st1 = on_k (upd s (set_flags SYMBOL_AUTO)) st"
  have 1: "step_ok st st1"
    unfolding st1_def by (rule step_upd_ok) (use assms(1) in \<open>auto simp: ready_def set_flags_def sym_is_choice_def has_flag_def flag_defs bit.conj_disj_distrib2\<close>)
  have r1: "ready st1" "cur_sym st1 = Some s" using step_ready[OF assms(1) 1] step_cur[OF 1] assms(2) by simp_all
  have w: "step_ok st' (menu_warn a m st')" if "ready st'" for st' a m using that step_warn(2) by (simp add: ready_def)
  have "does st1 (case sym_get_env_prop (k_sym (ps_k st1) s) of
      Some p \<Rightarrow> do {
        s2 \<leftarrow> prop_get_symbol p;
        name \<leftarrow> s_name (k_sym (ps_k st1) s2);
        Some (if name \<noteq> env then menu_warn (ps_entry st1) (''redefining environment symbol from '' @ name) st1 else st1) }
    | None \<Rightarrow> (let st2 = add_const_prop P_ENV s env st1; st3 = st2\<lparr>ps_env_list := s # ps_env_list st2\<rparr>
               in Some (case getenv env of
                          Some v \<Rightarrow> sym_add_default s v st3
                        | None \<Rightarrow> menu_warn (ps_entry st3) (''environment variable '' @ env @ '' undefined'') st3)))"
  proof (cases "sym_get_env_prop (k_sym (ps_k st1) s)")
    case (Some p)
    then have "p \<in> set (s_prop (tab_of st1 s))" "p_type p = P_ENV"
      by (auto simp: sym_get_env_prop_def tab_of_def find_Some_iff dest: nth_mem)
    then obtain s2 where "prop_get_symbol p = Some s2" "named st1 s2"
      using r1(1) by (fastforce simp: ready_def open_ok_def prop_fine_def)
    then show ?thesis using Some w[OF r1(1)] r1(1) by (auto simp: named_def tab_of_def ready_def intro: step_refl)
  next
    case None
    define st3 where "st3 = (add_const_prop P_ENV s env st1)\<lparr>ps_env_list := s # ps_env_list (add_const_prop P_ENV s env st1)\<rparr>"
    have 2: "step_ok st1 (add_const_prop P_ENV s env st1)" by (rule const_prop_ok[OF r1]) simp
    have 3: "step_ok st1 st3"
      unfolding st3_def by (rule step_trans[OF 2 step_same]) (use step_open[OF 2] in simp_all)
    have r3: "ready st3" "cur_sym st3 = Some s" using step_ready[OF r1(1) 3] step_cur[OF 3] r1(2) by simp_all
    have "step_ok st3 (sym_add_default s v st3)" for v
      unfolding sym_add_default_def by (rule const_prop_ok[OF r3]) simp
    then show ?thesis using None step_trans[OF 3] w[OF r3(1)] by (auto simp: Let_def st3_def[symmetric] split: option.split)
  qed
  then show ?thesis using does_after[OF 1] assms(2) by (simp add: prop_add_env_def st1_def[symmetric] cur_sym_def Let_def)
qed

lemma does_option:
  assumes "ready st" and "on_symbol md st" and "token = T_OPT_ENV \<Longrightarrow> arg \<noteq> None"
  shows "does st (menu_add_option getenv token arg st)"
proof -
  obtain s where s: "cur_sym st = Some s" "named st s" using assms(2) by (auto simp: on_symbol_def)
  have o: "open_ok {} st" using assms(1) by (simp add: ready_def)
  have m: "step_ok st (st1\<lparr>ps_modules := Some s\<rparr>)" if "step_ok st st1" for st1
  proof -
    have "named st1 s" by (rule step_named[OF assms(1) that s(2)])
    moreover have "prop_fine (st1\<lparr>ps_modules := Some s\<rparr>) p = prop_fine st1 p" for p
      by (simp add: prop_fine_def prop_ok_def named_def tab_of_def cong: prop_type.case_cong)
    ultimately show ?thesis using that by (simp add: step_ok_def open_ok_def same_place_def tab_of_def named_def prompt_there_def)
  qed
  show ?thesis
  proof (cases token)
    case T_OPT_MODULES
    show ?thesis
    proof (cases "ps_modules st")
      case None
      then show ?thesis using m[OF step_refl[OF o]] s(1) T_OPT_MODULES by (simp add: menu_add_option_def cur_sym_def Let_def)
    next
      case (Some md)
      then have "named st md" using o by (simp add: open_ok_def)
      then show ?thesis using m[OF step_warn(4)[OF o]] s Some T_OPT_MODULES
        by (auto simp: menu_add_option_def cur_sym_def named_def tab_of_def Let_def)
    qed
  next
    case T_OPT_DEFCONFIG_LIST
    have "step_ok st (st\<lparr>ps_defconfig_list := x\<rparr>)" for x by (rule step_same) (use o in simp_all)
    then show ?thesis using T_OPT_DEFCONFIG_LIST step_warn(4)[OF o] step_refl[OF o]
      by (auto simp: menu_add_option_def Let_def split: option.split)
  next
    case T_OPT_ENV
    then show ?thesis using assms(3) does_env[OF assms(1) s(1)] by (auto simp: menu_add_option_def Let_def)
  qed
qed


lemma does_options:
  assumes "ready st" and "on_symbol md st" and "\<forall>(n, a)\<in>set os. option_id n = Some T_OPT_ENV \<longrightarrow> a \<noteq> None"
  shows "does st (run_all (option_action getenv) os st)"
proof (rule does_all[where Q = "on_symbol md"])
  fix st1 x assume 1: "ready st1" "on_symbol md st1" "x \<in> set os"
  obtain n a where x: "x = (n, a)" by (cases x)
  show "does st1 (option_action getenv x st1)"
  proof (cases "option_id n")
    case None
    then show ?thesis using 1(1) step_warn(3) by (simp add: option_action_def x ready_def)
  next
    case (Some t)
    have "does st1 (menu_add_option getenv t a st1)"
      by (rule does_option[OF 1(1,2)]) (use Some assms(3) 1(3) x in auto)
    with Some show ?thesis by (simp add: option_action_def x)
  qed
qed (use assms step_on_symbol in auto)

lemma range_action_ok:
  assumes "open_ok {} st" and "range_action a b (ps_k st) = (e, k)"
  shows "step_ok st (st\<lparr>ps_k := k\<rparr>) \<and> (\<exists>s t. e = PE_range s t \<and> named (st\<lparr>ps_k := k\<rparr>) s \<and> named (st\<lparr>ps_k := k\<rparr>) t)"
proof -
  obtain s k1 t where s: "symbol_action a (ps_k st) = (s, k1)" "symbol_action b k1 = (t, k)" "e = PE_range s t"
    using assms(2) by (auto simp: range_action_def split: prod.splits)
  note 1 = symbol_action_ok[OF assms(1) s(1)]
  have "symbol_action b (ps_k (st\<lparr>ps_k := k1\<rparr>)) = (t, k)" using s(2) by simp
  note 2 = symbol_action_ok[OF step_open[OF 1(1)] this]
  have n: "named (st\<lparr>ps_k := k1\<rparr>) s" using 1(2) by (simp add: named_def tab_of_def)
  have "table_ok k1" "names_kept k1 k" using step_open[OF 1(1)] 2(1) by (simp_all add: open_ok_def step_ok_def)
  then have "named (st\<lparr>ps_k := k\<rparr>) s" using named_kept[of "st\<lparr>ps_k := k1\<rparr>" "st\<lparr>ps_k := k\<rparr>" s] n by simp
  then show ?thesis using step_trans[OF 1(1)] 2 s(3) by (simp add: named_def tab_of_def)
qed

lemma expr_fine_step:
  assumes "ready st" and "step_ok st st'" and "expr_fine st t e"
  shows "expr_fine st' t e"
proof -
  have "m_parent (ps_menus st' (ps_entry st')) = m_parent (ps_menus st (ps_entry st))"
    using assms(2) by (simp add: step_ok_def same_place_def same_links_def)
  then show ?thesis using assms(3) step_named[OF assms(1,2)]
    by (cases t) (auto simp: expr_fine_def)
qed

lemma does_config_option:
  assumes "ready st" and "on_symbol md st" and "option_ok md x"
  shows "does st (config_option_action getenv x st)"
proof -
  have c: "cur_sym st \<noteq> None" "knows_modules md st" using assms(2) by (auto simp: on_symbol_def)
  show ?thesis
  proof (cases x)
    case (O_type t p)
    have "does st (prompt_stmt_opt p st)" by (rule does_prompt_opt[OF assms(1) _ c(2)]) (use assms(3) O_type in auto)
    then show ?thesis using does_typed[OF assms(1) _ c(1)] O_type by simp
  next
    case (O_prompt y z)
    then show ?thesis using does_prompt_action[OF assms(1) _ c(2)] assms(3) by simp
  next
    case (O_default t y z)
    have "does st (with_value (expr_action y) (\<lambda>e. with_value (if_expr_action z) (menu_add_expr P_DEFAULT (Some (PE_expr e)))) st)"
    proof (rule does_with[where f = "expr_action y", OF assms(1)])
      obtain e k where e: "expr_action y (ps_k st) = (e, k)" by (cases "expr_action y (ps_k st)")
      show "expr_action y (ps_k st) = (fst (expr_action y (ps_k st)), snd (expr_action y (ps_k st)))" by simp
      have o: "open_ok {} st" using assms(1) by (simp add: ready_def)
      note s = expr_action_ok[OF o e]
      then show "step_ok st (st\<lparr>ps_k := snd (expr_action y (ps_k st))\<rparr>)" using e by simp
      assume r: "ready (st\<lparr>ps_k := snd (expr_action y (ps_k st))\<rparr>)"
      have f: "expr_fine (st\<lparr>ps_k := k\<rparr>) P_DEFAULT (Some (PE_expr e))" using s by (auto simp: expr_fine_def named_def tab_of_def)
      have "does (st\<lparr>ps_k := k\<rparr>) (with_value (if_expr_action z) (menu_add_expr P_DEFAULT (Some (PE_expr e))) (st\<lparr>ps_k := k\<rparr>))"
      proof (rule does_if_expr)
        show "ready (st\<lparr>ps_k := k\<rparr>)" using r e by simp
        show "allowed md z" using assms(3) O_default by simp
        show "knows_modules md (st\<lparr>ps_k := k\<rparr>)" using c(2) by (simp add: knows_modules_def)
        fix d st1 assume 1: "ready st1" "step_ok (st\<lparr>ps_k := k\<rparr>) st1" "dep_ok (ps_modules st1) d"
        show "does st1 (menu_add_expr P_DEFAULT (Some (PE_expr e)) d st1)"
          unfolding menu_add_expr_def using does_add_prop[OF 1(1,3)] expr_fine_step[OF _ 1(2) f] r e by simp
      qed
      then show "does (st\<lparr>ps_k := snd (expr_action y (ps_k st))\<rparr>) (with_value (if_expr_action z)
          (menu_add_expr P_DEFAULT (Some (PE_expr (fst (expr_action y (ps_k st))))))
          (st\<lparr>ps_k := snd (expr_action y (ps_k st))\<rparr>))" using e by simp
    qed
    moreover have "does st1 (if t \<noteq> S_UNKNOWN then menu_set_type t st1 else Some st1)" if "step_ok st st1" for st1
      using does_type[OF step_ready[OF assms(1) that]] step_cur[OF that] c(1) step_refl[OF step_open[OF that]] by simp
    ultimately have "does st (Option.bind (with_value (expr_action y) (\<lambda>e. with_value (if_expr_action z) (menu_add_expr P_DEFAULT (Some (PE_expr e)))) st)
        (\<lambda>st1. if t \<noteq> S_UNKNOWN then menu_set_type t st1 else Some st1))"
      by (rule does_bind)
    then show ?thesis using O_default by simp
  next
    case (O_select w z)
    have "does st (with_value (if_expr_action z) (\<lambda>c. with_value (sym_lookup (Some w) 0) (\<lambda>s. menu_add_symbol P_SELECT s c)) st)"
    proof (rule does_if_expr[OF assms(1) _ c(2)])
      show "allowed md z" using assms(3) O_select by simp
      fix d st1 assume 1: "ready st1" "step_ok st st1" "dep_ok (ps_modules st1) d"
      show "does st1 (with_value (sym_lookup (Some w) 0) (\<lambda>s. menu_add_symbol P_SELECT s d) st1)"
      proof (rule does_lookup[OF 1(1)], simp)
        fix s st2 assume 2: "ready st2" "step_ok st1 st2" "named st2 s"
        have "dep_ok (ps_modules st2) d" using 1(3) step_modules[OF 2(2)] by (auto simp: dep_ok_def)
        moreover have "expr_fine st2 P_SELECT (Some (PE_expr (Sym s)))" by (simp add: expr_fine_def)
        ultimately show "does st2 (menu_add_symbol P_SELECT s d st2)"
          unfolding menu_add_symbol_def expr_alloc_symbol_def by (rule does_add_prop[OF 2(1)]) simp
      qed
    qed
    then show ?thesis using O_select by simp
  next
    case (O_range a b z)
    have "does st (with_value (range_action a b) (\<lambda>e. with_value (if_expr_action z) (menu_add_expr P_RANGE (Some e))) st)"
    proof (rule does_with[where f = "range_action a b", OF assms(1)])
      obtain e k where e: "range_action a b (ps_k st) = (e, k)" by (cases "range_action a b (ps_k st)")
      show "range_action a b (ps_k st) = (fst (range_action a b (ps_k st)), snd (range_action a b (ps_k st)))" by simp
      have o: "open_ok {} st" using assms(1) by (simp add: ready_def)
      note s = range_action_ok[OF o e]
      then show "step_ok st (st\<lparr>ps_k := snd (range_action a b (ps_k st))\<rparr>)" using e by simp
      assume r: "ready (st\<lparr>ps_k := snd (range_action a b (ps_k st))\<rparr>)"
      have f: "expr_fine (st\<lparr>ps_k := k\<rparr>) P_RANGE (Some e)" using s by (auto simp: expr_fine_def)
      have "does (st\<lparr>ps_k := k\<rparr>) (with_value (if_expr_action z) (menu_add_expr P_RANGE (Some e)) (st\<lparr>ps_k := k\<rparr>))"
      proof (rule does_if_expr)
        show "ready (st\<lparr>ps_k := k\<rparr>)" using r e by simp
        show "allowed md z" using assms(3) O_range by simp
        show "knows_modules md (st\<lparr>ps_k := k\<rparr>)" using c(2) by (simp add: knows_modules_def)
        fix d st1 assume 1: "ready st1" "step_ok (st\<lparr>ps_k := k\<rparr>) st1" "dep_ok (ps_modules st1) d"
        show "does st1 (menu_add_expr P_RANGE (Some e) d st1)"
          unfolding menu_add_expr_def using does_add_prop[OF 1(1,3)] expr_fine_step[OF _ 1(2) f] r e by simp
      qed
      then show "does (st\<lparr>ps_k := snd (range_action a b (ps_k st))\<rparr>) (with_value (if_expr_action z)
          (menu_add_expr P_RANGE (Some (fst (range_action a b (ps_k st))))) (st\<lparr>ps_k := snd (range_action a b (ps_k st))\<rparr>))"
        using e by simp
    qed
    then show ?thesis using O_range by simp
  next
    case (O_options os)
    then show ?thesis using does_options[OF assms(1,2)] assms(3) by simp
  next
    case (O_depends z)
    then show ?thesis using does_depends[OF assms(1) _ c(2)] assms(3) by simp
  next
    case (O_help y)
    then show ?thesis using does_help[OF assms(1)] by simp
  qed
qed

lemma does_choice_option:
  assumes "ready st" and "on_choice md st" and "choice_option_ok md x"
  shows "does st (choice_option_action x st)"
proof -
  have c: "cur_sym st \<noteq> None" "knows_modules md st" using assms(2) by (auto simp: on_choice_def)
  show ?thesis
  proof (cases x)
    case (H_prompt y z)
    then show ?thesis using does_prompt_action[OF assms(1) _ c(2)] assms(3) by simp
  next
    case (H_type tri p)
    have "does st (prompt_stmt_opt p st)" by (rule does_prompt_opt[OF assms(1) _ c(2)]) (use assms(3) H_type in auto)
    then show ?thesis using does_typed[OF assms(1) _ c(1)] H_type by simp
  next
    case H_optional
    obtain s where "cur_sym st = Some s" using c(1) by auto
    moreover have "step_ok st (on_k (upd s (set_flags SYMBOL_OPTIONAL)) st)"
      by (rule step_upd_ok) (use assms(1) in \<open>auto simp: ready_def set_flags_def sym_is_choice_def has_flag_def flag_defs bit.conj_disj_distrib2\<close>)
    ultimately show ?thesis using H_optional by (simp add: optional_action_def cur_sym_def)
  next
    case (H_default w z)
    have "does st (with_value (if_expr_action z) (\<lambda>c. with_value (sym_lookup (Some w) 0) (\<lambda>s. menu_add_symbol P_DEFAULT s c)) st)"
    proof (rule does_if_expr[OF assms(1) _ c(2)])
      show "allowed md z" using assms(3) H_default by simp
      fix d st1 assume 1: "ready st1" "step_ok st st1" "dep_ok (ps_modules st1) d"
      show "does st1 (with_value (sym_lookup (Some w) 0) (\<lambda>s. menu_add_symbol P_DEFAULT s d) st1)"
      proof (rule does_lookup[OF 1(1)], simp)
        fix s st2 assume 2: "ready st2" "step_ok st1 st2" "named st2 s"
        have "dep_ok (ps_modules st2) d" using 1(3) step_modules[OF 2(2)] by (auto simp: dep_ok_def)
        moreover have "expr_fine st2 P_DEFAULT (Some (PE_expr (Sym s)))" using 2(3) by (simp add: expr_fine_def)
        ultimately show "does st2 (menu_add_symbol P_DEFAULT s d st2)"
          unfolding menu_add_symbol_def expr_alloc_symbol_def by (rule does_add_prop[OF 2(1)]) simp
      qed
    qed
    then show ?thesis using H_default by simp
  next
    case (H_depends z)
    then show ?thesis using does_depends[OF assms(1) _ c(2)] assms(3) by simp
  next
    case (H_help y)
    then show ?thesis using does_help[OF assms(1)] by simp
  qed
qed

text \<open>A list of options, each with its position.\<close>

lemma does_at:
  assumes "ready st" and "\<And>st1. ready st1 \<Longrightarrow> step_ok st st1 \<Longrightarrow> does st1 (f a st1)"
  shows "does st (at_pos f (p, a) st)"
proof -
  have 1: "step_ok st (move_to p st)" using assms(1) step_warn(5) by (simp add: ready_def)
  show ?thesis using does_after[OF 1 assms(2)[OF step_ready[OF assms(1) 1] 1]] by (simp add: at_pos_def)
qed

lemma does_all_at:
  assumes "ready st" and "Q st" and "list_all (ok \<circ> snd) os"
    and "\<And>st1 a. ready st1 \<Longrightarrow> Q st1 \<Longrightarrow> ok a \<Longrightarrow> does st1 (f a st1)"
    and keep: "\<And>st1 st2. ready st1 \<Longrightarrow> Q st1 \<Longrightarrow> step_ok st1 st2 \<Longrightarrow> Q st2"
  shows "does st (run_all (at_pos f) os st)"
proof (rule does_all[where Q = Q])
  fix st1 pa assume 1: "ready st1" "Q st1" "pa \<in> set os"
  obtain p a where pa: "pa = (p, a)" by (cases pa)
  have "ok a" using 1(3) assms(3) pa by (auto simp: list_all_iff)
  show "does st1 (at_pos f pa st1)"
    unfolding pa
  proof (rule does_at[OF 1(1)])
    fix st2 assume "ready st2" "step_ok st1 st2"
    with assms(4)[OF _ keep[OF 1(1,2)]] \<open>ok a\<close> show "does st2 (f a st2)" by blast
  qed
qed (use assms(1,2) keep in blast)+

lemma does_config_options:
  assumes "ready st" and "on_symbol md st" and "list_all (option_ok md \<circ> snd) os"
  shows "does st (run_all (at_pos (config_option_action getenv)) os st)"
proof (rule does_all_at[where Q = "on_symbol md" and ok = "option_ok md", OF assms])
  show "does st1 (config_option_action getenv a st1)" if "ready st1" "on_symbol md st1" "option_ok md a" for st1 a
    by (rule does_config_option[OF that])
  show "on_symbol md st2" if "ready st1" "on_symbol md st1" "step_ok st1 st2" for st1 st2 by (rule step_on_symbol[OF that])
qed

lemma does_choice_options:
  assumes "ready st" and "on_choice md st" and "list_all (choice_option_ok md \<circ> snd) os"
  shows "does st (run_all (at_pos choice_option_action) os st)"
proof (rule does_all_at[where Q = "on_choice md" and ok = "choice_option_ok md", OF assms])
  show "does st1 (choice_option_action a st1)" if "ready st1" "on_choice md st1" "choice_option_ok md a" for st1 a
    by (rule does_choice_option[OF that])
  show "on_choice md st2" if "ready st1" "on_choice md st1" "step_ok st1 st2" for st1 st2 by (rule step_on_choice[OF that])
qed

lemma does_depends_list:
  "ready st \<Longrightarrow> knows_modules md st \<Longrightarrow> list_all (\<lambda>(p, c). allowed md (Some c)) ds \<Longrightarrow> does st (run_all (at_pos depends_action) ds st)"
  by (rule does_all_at[where Q = "knows_modules md" and ok = "\<lambda>c. allowed md (Some c)"])
    (auto simp: list_all_iff intro: does_depends step_knows)

lemma does_visible_list:
  assumes "ready st"
  shows "does st (run_all visible_action vs st)"
proof (rule does_all[where Q = "\<lambda>_. True"])
  fix st1 c assume 1: "ready st1"
  obtain e k where e: "if_expr_action c (ps_k st1) = (e, k)" by (cases "if_expr_action c (ps_k st1)")
  have s: "step_ok st1 (st1\<lparr>ps_k := k\<rparr>)"
  proof (cases c)
    case None
    then show ?thesis using e 1 by (auto simp: if_expr_action_def ready_def intro: step_refl)
  next
    case (Some x)
    then obtain y where "expr_action x (ps_k st1) = (y, k)" using e by (auto simp: if_expr_action_def split: prod.splits)
    with expr_action_ok[of st1 x y k] 1 show ?thesis by (simp add: ready_def)
  qed
  show "does st1 (visible_action c st1)"
    unfolding visible_action_def
    by (rule does_with[where f = "if_expr_action c", OF 1 e s]) (simp add: does_visibility)
qed (use assms in auto)

end
