(* ===== verification/Kc_Parse_Title.thy ===== *)
theory Kc_Parse_Title
  imports Kc_Parse
begin

text \<open>The statements leave the prompt of \<open>rootmenu\<close> alone, which is the title.\<close>

section \<open>Actions on the current entry\<close>

definition title :: "pstate \<Rightarrow> prompt option" where
  "title st = m_prompt (ps_menus st rootmenu)"

text \<open>An action that returns stays at the entry, and changes the title only when the entry is \<open>rootmenu\<close>.\<close>

definition stays :: "pstate \<Rightarrow> pstate \<Rightarrow> bool" where
  "stays st st' \<longleftrightarrow> ps_entry st' = ps_entry st \<and> ps_alloc st' = ps_alloc st \<and> (ps_entry st \<noteq> rootmenu \<longrightarrow> title st' = title st)"

definition act :: "pstate \<Rightarrow> pstate option \<Rightarrow> bool" where
  "act st r \<longleftrightarrow> (\<forall>st'. r = Some st' \<longrightarrow> stays st st')"

named_theorems acts \<open>actions that stay at the entry\<close>

lemma stays_trans: "stays a b \<Longrightarrow> stays b c \<Longrightarrow> stays a c" by (auto simp: stays_def)

lemma act_None [simp]: "act st None" by (simp add: act_def)

lemma act_Some [simp]: "act st (Some st') \<longleftrightarrow> stays st st'" by (simp add: act_def)

lemma act_bind [acts]: "act st r \<Longrightarrow> (\<And>st1. act st1 (f st1)) \<Longrightarrow> act st (Option.bind r f)"
  by (auto simp: act_def intro: stays_trans split: Option.bind_splits)

lemma act_if [acts]: "(b \<Longrightarrow> act st r) \<Longrightarrow> (\<not> b \<Longrightarrow> act st s) \<Longrightarrow> act st (if b then r else s)" by simp

lemma stays_basic [simp]: "stays st st" "stays st (on_k f st)" "stays st (st\<lparr>ps_k := k\<rparr>)" "stays st (warn m st)" "stays st (menu_warn a m st)"
  "stays st (prop_warn pr m st)" "stays st (zconf_error m st)" "stays st (zconfprint m st)" "stays st (move_to p st)"
  "stays st (set_menu (ps_entry st) g st)" "stays st (st\<lparr>ps_modules := md\<rparr>)" "stays st (st\<lparr>ps_defconfig_list := dl\<rparr>)"
  by (simp_all add: stays_def title_def on_k_def warn_def menu_warn_def prop_warn_def zconf_error_def zconfprint_def move_to_def set_menu_def)

lemma act_with [acts]: "(\<And>x st1. act st1 (g x st1)) \<Longrightarrow> act st (with_value f g st)"
  unfolding with_value_def by (auto simp: act_def split: prod.split intro: stays_trans[OF stays_basic(3)])

lemma act_at [acts]: "(\<And>st1. act st1 (f a st1)) \<Longrightarrow> act st (at_pos f (p, a) st)"
  unfolding at_pos_def by (auto simp: act_def intro: stays_trans[OF stays_basic(9)])

lemma act_all: "(\<And>a st1. act st1 (f a st1)) \<Longrightarrow> act st (run_all f as st)"
proof (induction as arbitrary: st)
  case (Cons a as)
  then show ?case by (simp add: act_bind)
qed simp

lemma prop_alloc_stays: "prop_alloc p so st = (ptr, st') \<Longrightarrow> stays st st'"
  by (auto simp: prop_alloc_def split: option.splits)

lemma act_vbind: "(\<And>x. r = Some x \<Longrightarrow> act st (f x)) \<Longrightarrow> act st (Option.bind r f)"
  by (cases r) simp_all

lemma alloc_stays: "stays st (snd (prop_alloc p so st))"
  by (simp add: prop_alloc_def split: option.split)

lemma act_prompt_set:
  assumes "stays st st2"
  shows "act st (case prop_alloc p so st2 of (ptr, st3) \<Rightarrow> Some (set_menu (ps_entry st) (\<lambda>m. m\<lparr>m_prompt := Some ptr\<rparr>) st3))"
proof -
  obtain ptr st3 where a: "prop_alloc p so st2 = (ptr, st3)" by (cases "prop_alloc p so st2")
  have s: "stays st st3" by (rule stays_trans[OF assms]) (use alloc_stays[of st2 p so] a in simp)
  then have "ps_entry st3 = ps_entry st" by (simp add: stays_def)
  then show ?thesis using stays_trans[OF s stays_basic(10)] a by simp
qed

lemma act_add_prop [acts]: "act st (menu_add_prop t tx e d st)"
  unfolding menu_add_prop_def Let_def
proof (rule act_vbind)
  fix vis
  show "act st (case tx of None \<Rightarrow> Some (snd (prop_alloc (new_prop t (ps_file st) (ps_lineno st)
        \<lparr>p_menu := Some (ps_entry st), p_expr := e, p_visible := \<lparr>ev_expr = vis, ev_tri = tri_no\<rparr>\<rparr>) (m_sym (ps_menus st (ps_entry st))) st))
     | Some tx \<Rightarrow> Option.bind (if t = P_PROMPT then upper_visibility (ps_menus st) (m_parent (ps_menus st (ps_entry st))) vis else Some vis)
         (\<lambda>vis'. case prop_alloc (new_prop t (ps_file st) (ps_lineno st)
               \<lparr>p_menu := Some (ps_entry st), p_expr := e, p_visible := \<lparr>ev_expr = vis', ev_tri = tri_no\<rparr>, p_text := Some (dropWhile isspace tx)\<rparr>)
               (m_sym (ps_menus st (ps_entry st)))
               (if m_prompt (ps_menus st (ps_entry st)) \<noteq> None \<and> ps_entry st \<noteq> rootmenu
                then prop_warn (new_prop t (ps_file st) (ps_lineno st)\<lparr>p_menu := Some (ps_entry st), p_expr := e\<rparr>) ''prompt redefined''
                  (if tx \<noteq> [] \<and> isspace (hd tx) then prop_warn (new_prop t (ps_file st) (ps_lineno st)\<lparr>p_menu := Some (ps_entry st), p_expr := e\<rparr>)
                     ''leading whitespace ignored'' st else st)
                else if tx \<noteq> [] \<and> isspace (hd tx) then prop_warn (new_prop t (ps_file st) (ps_lineno st)\<lparr>p_menu := Some (ps_entry st), p_expr := e\<rparr>)
                     ''leading whitespace ignored'' st else st)
            of (ptr, st3) \<Rightarrow> Some (set_menu (ps_entry st) (\<lambda>m. m\<lparr>m_prompt := Some ptr\<rparr>) st3)))"
  proof (cases tx)
    case None
    then show ?thesis by (simp add: alloc_stays)
  next
    case (Some x)
    show ?thesis
      unfolding Some option.case
      by (rule act_vbind, rule act_prompt_set) (auto intro: stays_trans[OF stays_basic(6) stays_basic(6)])
  qed
qed

lemma act_prompt [acts]: "act st (menu_add_prompt t x d st)" and act_expr [acts]: "act st (menu_add_expr t e d st)"
  and act_symbol [acts]: "act st (menu_add_symbol t s d st)"
  unfolding menu_add_prompt_def menu_add_expr_def menu_add_symbol_def by (rule act_add_prop)+

lemma act_dep [acts]: "act st (menu_add_dep d st)"
  by (auto simp: menu_add_dep_def act_def split: Option.bind_splits)

lemma act_type [acts]: "act st (menu_set_type t st)"
  by (auto simp: menu_set_type_def Let_def split: option.split)

lemma const_prop_stays: "stays st (add_const_prop t s x st)"
  unfolding add_const_prop_def Let_def
  by (cases "sym_lookup (Some x) SYMBOL_CONST (ps_k st)") (simp add: stays_trans[OF stays_basic(3) alloc_stays])

lemma act_env [acts]: "act st (prop_add_env getenv env st)"
proof (cases "m_sym (ps_menus st (ps_entry st))")
  case (Some s)
  let ?st1 = "on_k (upd s (set_flags SYMBOL_AUTO)) st"
  have "stays ?st1 ((add_const_prop P_ENV s env ?st1)\<lparr>ps_env_list := l\<rparr>)" for l
    using const_prop_stays[of ?st1 P_ENV s env] by (simp add: stays_def title_def)
  then have "stays st ((add_const_prop P_ENV s env ?st1)\<lparr>ps_env_list := l\<rparr>)" for l by (rule stays_trans[OF stays_basic(2)])
  then show ?thesis
    unfolding prop_add_env_def Some
    by (auto simp: Let_def act_def sym_add_default_def split: option.splits Option.bind_splits
        intro: stays_trans[OF stays_basic(2)] stays_trans[OF _ const_prop_stays] stays_trans[OF _ stays_basic(5)])
qed (simp add: prop_add_env_def)

lemma act_option [acts]: "act st (menu_add_option getenv token arg st)"
proof -
  have *: "stays st ((zconf_error m st)\<lparr>ps_modules := md\<rparr>)" for m md by (rule stays_trans[OF stays_basic(7,11)])
  show ?thesis
    by (cases token) (auto simp: menu_add_option_def Let_def act_def split: option.splits Option.bind_splits intro: * dest: act_env[unfolded act_def, rule_format])
qed

lemma act_option_action [acts]: "act st (option_action getenv x st)"
  by (cases x) (auto simp: option_action_def split: option.split intro: acts)

lemma act_prompt_action [acts]: "act st (prompt_action x c st)"
  unfolding prompt_action_def by (intro acts)

lemma act_prompt_opt [acts]: "act st (prompt_stmt_opt p st)"
  by (auto simp: prompt_stmt_opt_def split: option.split intro: acts)

lemma act_depends [acts]: "act st (depends_action c st)"
  unfolding depends_action_def by (intro acts)

lemma act_config_option: "act st (config_option_action getenv x st)"
  by (cases x) (simp_all add: acts act_all help_action_def)

lemma act_choice_option: "act st (choice_option_action x st)"
  by (cases x) (simp_all add: acts act_all help_action_def optional_action_def split: option.split)

lemma act_visible: "act st (visible_action c st)"
  unfolding visible_action_def menu_add_visibility_def by (intro acts) simp

lemma act_menuconfig_end: "stays st (menuconfig_end st)"
  by (simp add: menuconfig_end_def Let_def split: option.split prompt.split)

section \<open>Statements\<close>

definition keeps_title :: "pstate \<Rightarrow> pstate \<Rightarrow> bool" where
  "keeps_title st st' \<longleftrightarrow> (rootmenu < ps_alloc st \<longrightarrow> rootmenu < ps_alloc st' \<and> title st' = title st)"

definition begins :: "pstate \<Rightarrow> pstate option \<Rightarrow> bool" where
  "begins st r \<longleftrightarrow> (\<forall>st'. r = Some st' \<longrightarrow> keeps_title st st' \<and> (rootmenu < ps_alloc st \<longrightarrow> ps_entry st' \<noteq> rootmenu))"

lemma keeps_title_trans: "keeps_title a b \<Longrightarrow> keeps_title b c \<Longrightarrow> keeps_title a c" by (auto simp: keeps_title_def)

lemma begins_entry: "begins st (menu_add_entry so st)"
proof -
  define st2 where "st2 = (store_slot (ps_last st) (ps_alloc st)
      ((set_menu (ps_alloc st) (\<lambda>_. empty_menu\<lparr>m_sym := so, m_parent := ps_menu st, m_file := ps_file st, m_lineno := ps_lineno st\<rparr>) st)
       \<lparr>ps_alloc := Suc (ps_alloc st)\<rparr>))\<lparr>ps_last := NextOf (ps_alloc st), ps_entry := ps_alloc st\<rparr>"
  have k: "keeps_title st st' \<and> (rootmenu < ps_alloc st \<longrightarrow> ps_entry st' \<noteq> rootmenu)" if "stays st2 st'" for st'
    using that unfolding st2_def by (cases "ps_last st"; auto simp: keeps_title_def stays_def title_def store_slot_def set_menu_def)
  have "menu_add_entry so st = (case so of None \<Rightarrow> Some st2 | Some s \<Rightarrow> menu_add_symbol P_SYMBOL s None st2)"
    unfolding menu_add_entry_def Let_def st2_def ..
  then have "act st2 (menu_add_entry so st)" using act_symbol by (simp split: option.split)
  then show ?thesis using k unfolding begins_def act_def by blast
qed

lemma begins_then:
  assumes "begins st r" and "\<And>st1. act st1 (f st1)"
  shows "begins st (Option.bind r f)"
proof (cases r)
  case (Some st1)
  with assms(1) have "keeps_title st st1" "rootmenu < ps_alloc st \<longrightarrow> ps_entry st1 \<noteq> rootmenu" by (simp_all add: begins_def)
  then show ?thesis using assms(2)[of st1] Some by (auto simp: begins_def act_def stays_def keeps_title_def)
qed (simp add: begins_def)

lemma begins_after: "stays st st1 \<Longrightarrow> ps_menus st1 = ps_menus st \<Longrightarrow> begins st1 r \<Longrightarrow> begins st r"
  by (auto simp: begins_def stays_def keeps_title_def title_def)

lemma begins_with: "(\<And>x st1. begins st1 (g x st1)) \<Longrightarrow> begins st (with_value f g st)"
  unfolding with_value_def
  by (cases "f (ps_k st)") (simp add: begins_after[where ?st1.0 = "st\<lparr>ps_k := snd (f (ps_k st))\<rparr>"])

lemma begins_move: "(\<And>st1. begins st1 (r st1)) \<Longrightarrow> begins st (r (move_to p st))"
  by (rule begins_after[OF stays_basic(9)[of st p]]) (simp_all add: move_to_def)

lemma begins_upd: "(\<And>st1. begins st1 (r st1)) \<Longrightarrow> begins st (r (on_k f st))"
  by (rule begins_after[OF stays_basic(2)[of st f]]) (simp_all add: on_k_def)

lemma begins_starts:
  "begins st (config_entry_start p w st)" "begins st (choice_start p v st)" "begins st (if_start p c st)" "begins st (titled_start t p x st)"
proof -
  have "begins st (menu_add_entry so (on_k f st))" for so f st by (rule begins_upd[where r = "menu_add_entry so"]) (rule begins_entry)
  note e = this begins_entry
  have "begins st (with_value (sym_lookup (Some w) 0) (\<lambda>s st1. menu_add_entry (Some s) (on_k (upd s (set_flags SYMBOL_OPTIONAL)) st1)) st)" for st w
    by (rule begins_with) (rule e)
  then show "begins st (config_entry_start p w st)" unfolding config_entry_start_def by (rule begins_move)
  have "begins st (with_value (sym_lookup v SYMBOL_CHOICE) (\<lambda>s st1. Option.bind (menu_add_entry (Some s) (on_k (upd s (set_flags SYMBOL_AUTO)) st1))
      (menu_add_expr P_CHOICE None None)) st)" for st
    by (rule begins_with, rule begins_then) (rule e acts)+
  then show "begins st (choice_start p v st)" unfolding choice_start_def by (rule begins_move)
  have "begins st (with_value (expr_action c) (\<lambda>x st1. Option.bind (menu_add_entry None st1) (menu_add_dep (Some x))) st)" for st
    by (rule begins_with, rule begins_then) (rule e acts)+
  then show "begins st (if_start p c st)" unfolding if_start_def by (rule begins_move)
  have "begins st (menu_add_entry None (move_to p st))" for st by (rule begins_move[where r = "menu_add_entry None"]) (rule e)
  then show "begins st (titled_start t p x st)" unfolding titled_start_def by (rule begins_then) (rule acts)
qed

lemma end_block_keeps: "end_block p f t st = Some st' \<Longrightarrow> keeps_title st st'"
  by (auto simp: end_block_def zconf_endtoken_def menu_end_menu_def count_error_def zconf_error_def warn_def move_to_def keeps_title_def
      title_def split: Option.bind_splits option.splits if_splits)

lemma begun: "begins st r \<Longrightarrow> r = Some st1 \<Longrightarrow> act st1 s \<Longrightarrow> s = Some st2 \<Longrightarrow> keeps_title st st2"
  by (auto simp: begins_def act_def stays_def keeps_title_def)

lemma keeps_menu: "keeps_title (menu_add_menu st) st' \<longleftrightarrow> keeps_title st st'"
  by (simp add: keeps_title_def menu_add_menu_def title_def)

lemma at_all: "(\<And>a st1. act st1 (f a st1)) \<Longrightarrow> act st (run_all (at_pos f) os st)"
proof (rule act_all)
  fix pa st1 assume "\<And>a st1. act st1 (f a st1)"
  then show "act st1 (at_pos f pa st1)" by (cases pa) (auto intro: acts)
qed

lemma parse_stmts_title: "parse_stmts getenv ss st = Some st' \<Longrightarrow> keeps_title st st'"
proof (induction getenv ss st arbitrary: st' rule: parse_stmts.induct)
  case (1 getenv st)
  then show ?case by (simp add: keeps_title_def)
next
  case (2 getenv p w os ss st)
  obtain st1 st2 where s: "config_entry_start p w st = Some st1" "run_all (at_pos (config_option_action getenv)) os st1 = Some st2"
    "parse_stmts getenv ss st2 = Some st'" using 2(2) by (auto split: Option.bind_splits)
  show ?case by (rule keeps_title_trans[OF begun[OF begins_starts(1) s(1) at_all[OF act_config_option] s(2)] 2(1)[OF s]])
next
  case (3 getenv p w os q ss st)
  obtain st1 st2 where s: "config_entry_start p w st = Some st1" "run_all (at_pos (config_option_action getenv)) os st1 = Some st2"
    "parse_stmts getenv ss (menuconfig_end (move_to q st2)) = Some st'" using 3(2) by (auto split: Option.bind_splits)
  have "act st1 (Option.bind (run_all (at_pos (config_option_action getenv)) os st1) (\<lambda>st2. Some (menuconfig_end (move_to q st2))))"
    by (rule act_bind[OF at_all[OF act_config_option]]) (simp add: stays_trans[OF stays_basic(9) act_menuconfig_end])
  from begun[OF begins_starts(1) s(1) this, of "menuconfig_end (move_to q st2)"] s(2) 3(1)[OF s] show ?case by (auto intro: keeps_title_trans)
next
  case (4 getenv p w os body q f ss st)
  obtain st1 st2 st3 st4 where s: "choice_start p w st = Some st1" "run_all (at_pos choice_option_action) os st1 = Some st2"
    "parse_stmts getenv body (menu_add_menu st2) = Some st3" "end_block q f T_ENDCHOICE st3 = Some st4" "parse_stmts getenv ss st4 = Some st'"
    using 4(3) by (auto split: Option.bind_splits)
  show ?case
    by (rule keeps_title_trans[OF begun[OF begins_starts(2) s(1) at_all[OF act_choice_option] s(2)]
        keeps_title_trans[OF 4(1)[OF s(1-3), unfolded keeps_menu] keeps_title_trans[OF end_block_keeps[OF s(4)] 4(2)[OF s]]]])
next
  case (5 getenv p c body q f ss st)
  obtain st1 st3 st4 where s: "if_start p c st = Some st1"
    "parse_stmts getenv body (menu_add_menu st1) = Some st3" "end_block q f T_ENDIF st3 = Some st4" "parse_stmts getenv ss st4 = Some st'"
    using 5(3) by (auto split: Option.bind_splits)
  have "keeps_title st st1" using begins_starts(3)[of st p c] s(1) by (simp add: begins_def)
  then show ?case
    by (rule keeps_title_trans[OF _ keeps_title_trans[OF 5(1)[OF s(1,2), unfolded keeps_menu] keeps_title_trans[OF end_block_keeps[OF s(3)] 5(2)[OF s]]]])
next
  case (6 getenv p x vs ds body q f ss st)
  obtain st1 st2 st2' st3 st4 where s: "titled_start P_MENU p x st = Some st1" "run_all visible_action vs st1 = Some st2"
    "run_all (at_pos depends_action) ds st2 = Some st2'"
    "parse_stmts getenv body (menu_add_menu st2') = Some st3" "end_block q f T_ENDMENU st3 = Some st4" "parse_stmts getenv ss st4 = Some st'"
    using 6(3) by (auto split: Option.bind_splits)
  have "act st1 (Option.bind (run_all visible_action vs st1) (run_all (at_pos depends_action) ds))"
    by (rule act_bind[OF act_all[OF act_visible] at_all[OF act_depends]])
  from begun[OF begins_starts(4) s(1) this, of st2'] s(2,3) have "keeps_title st st2'" by simp
  then show ?case
    by (rule keeps_title_trans[OF _ keeps_title_trans[OF 6(1)[OF s(1-4), unfolded keeps_menu] keeps_title_trans[OF end_block_keeps[OF s(5)] 6(2)[OF s]]]])
next
  case (7 getenv p x ds ss st)
  obtain st1 st2 where s: "titled_start P_COMMENT p x st = Some st1" "run_all (at_pos depends_action) ds st1 = Some st2"
    "parse_stmts getenv ss st2 = Some st'" using 7(2) by (auto split: Option.bind_splits)
  show ?case by (rule keeps_title_trans[OF begun[OF begins_starts(4) s(1) at_all[OF act_depends] s(2)] 7(1)[OF s]])
next
  case (8 getenv x ss st)
  then show ?case by simp
qed

end
