(* ===== verification/Kc_Parse_Props.thy ===== *)
theory Kc_Parse_Props
  imports Kc_Parse_Inv Kc_Parse_Title Kc_Finalize_Props
begin

text \<open>
  The parse as a whole: the statements of a file become a tree of entries with the names in the order of the text, all
  properties have what they need, and \<open>conf_parse\<close> hands this tree to \<open>menu_finalize\<close> and to the check.
\<close>

section \<open>New entries\<close>

definition entry_base :: "sym option \<Rightarrow> pstate \<Rightarrow> pstate" where
  "entry_base so st =
     (let a = ps_alloc st;
          st1 = (set_menu a (\<lambda>_. empty_menu\<lparr>m_sym := so, m_parent := ps_menu st, m_file := ps_file st, m_lineno := ps_lineno st\<rparr>) st)
                \<lparr>ps_alloc := Suc a\<rparr>
      in (store_slot (ps_last st) a st1)\<lparr>ps_last := NextOf a, ps_entry := a\<rparr>)"

lemma add_entry_base:
  "menu_add_entry so st = (case so of None \<Rightarrow> Some (entry_base so st) | Some s \<Rightarrow> menu_add_symbol P_SYMBOL s None (entry_base so st))"
  unfolding menu_add_entry_def entry_base_def Let_def ..

lemma base_simps:
  assumes "slot_owner (ps_last st) < ps_alloc st"
  shows "ps_k (entry_base so st) = ps_k st" "ps_modules (entry_base so st) = ps_modules st" "ps_alloc (entry_base so st) = Suc (ps_alloc st)"
    "ps_entry (entry_base so st) = ps_alloc st"
    "m_prompt (ps_menus (entry_base so st) b) = (if b = ps_alloc st then None else m_prompt (ps_menus st b))"
    "m_sym (ps_menus (entry_base so st) b) = (if b = ps_alloc st then so else m_sym (ps_menus st b))"
    "m_parent (ps_menus (entry_base so st) b) = (if b = ps_alloc st then ps_menu st else m_parent (ps_menus st b))"
  using assms by (cases "ps_last st"; auto simp: entry_base_def store_slot_def set_menu_def empty_menu_def Let_def)+

text \<open>An entry that has been started, in a state with everything as it should be.\<close>

definition started :: "sym option \<Rightarrow> string \<Rightarrow> pstate \<Rightarrow> pstate \<Rightarrow> bool" where
  "started so f st st' \<longleftrightarrow> entered so st st' \<and> entered_file f st st' \<and> names_kept (ps_k st) (ps_k st') \<and> open_ok {} st'"

lemma base_ok:
  assumes "open_ok X st" and "place_ok p st" and "\<And>s. so = Some s \<Longrightarrow> allocated (ps_k st) s"
  shows "open_ok X (entry_base so st)" and "parents_ok (entry_base so st)"
proof -
  have own: "slot_owner (ps_last st) < ps_alloc st" and p: "ps_menu st = Some p" "p < ps_alloc st" "parents_ok st"
    using assms(2) by (simp_all add: place_ok_def)
  note b = base_simps[OF own, where so = so]
  have f: "entry_fine (ps_menus (entry_base so st) a)" for a
  proof -
    have "entry_fine (ps_menus st a)" using assms(1) by (simp add: open_ok_def)
    then show ?thesis by (simp add: entry_fine_def b split: option.splits prompt.splits)
  qed
  have th: "prompt_there (entry_base so st) (ps_menus (entry_base so st) a)" for a
    using assms(1) by (auto simp: prompt_there_def open_ok_def b tab_of_def)
  show "open_ok X (entry_base so st)"
    by (rule open_okI[OF assms(1)])
      (use assms(1,3) p f th in \<open>auto simp: b open_ok_def tab_of_def named_def parents_kept_def split: if_splits\<close>)
  show "parents_ok (entry_base so st)"
    using p by (auto simp: parents_ok_def b less_Suc_eq rootmenu_def)
qed

lemma add_entry_ok:
  assumes "open_ok X st" and "place_ok p st" and "\<And>s. so = Some s \<Longrightarrow> allocated (ps_k st) s"
  shows "\<exists>st'. menu_add_entry so st = Some st' \<and> entered so st st' \<and> entered_file (ps_file st) st st' \<and>
    names_kept (ps_k st) (ps_k st') \<and> open_ok X st' \<and> parents_ok st'"
proof -
  have own: "slot_owner (ps_last st) < ps_alloc st" using assms(2) by (simp add: place_ok_def)
  note b = base_simps[OF own, where so = so]
  note ok = base_ok[OF assms]
  obtain st' where st': "menu_add_entry so st = Some st'" "entered so st st'" "entered_file (ps_file st) st st'"
    using menu_add_entry_entered[OF own] by blast
  have "names_kept (ps_k st) (ps_k st') \<and> open_ok X st'"
  proof (cases so)
    case None
    then have "st' = entry_base so st" using st'(1) by (simp add: add_entry_base)
    then show ?thesis using ok(1) b(1) by simp
  next
    case (Some s)
    have "expr_fine (entry_base so st) P_SYMBOL (Some (PE_expr (Sym s)))" "dep_ok (ps_modules (entry_base so st)) None"
      by (simp_all add: expr_fine_def dep_ok_def)
    from add_prop_ok[OF ok(1,2) _ this(2,1), of None] show ?thesis
      using st'(1) Some b(1,3,4) by (auto simp: add_entry_base menu_add_symbol_def expr_alloc_symbol_def closes_def)
  qed
  with st' entered_parents[OF assms(2) st'(2)] show ?thesis by blast
qed

lemma started_ready:
  assumes "place_ok p st" and "started so f st st'"
  shows "ready st'" and "cur_sym st' = so" and "ps_modules st \<noteq> None \<longrightarrow> ps_modules st' \<noteq> None"
  using assms entered_parents[OF assms(1), of so st']
  by (auto simp: ready_def started_def entered_def place_ok_def cur_sym_def Let_def)

lemma started_after: "started so f st st1 \<Longrightarrow> step_ok st1 st2 \<Longrightarrow> started so f st st2"
  using entered_after[of so st st1 st2] names_kept_trans
  by (auto simp: started_def step_ok_def entered_file_def same_place_def)

lemma started_before:
  assumes "same_place st st0" and "names_kept (ps_k st) (ps_k st0)" and "entered so st0 st1" and "entered_file f st0 st1"
    and "names_kept (ps_k st0) (ps_k st1)" and "open_ok {} st1"
  shows "started so f st st1"
  using entered_before[OF assms(1,3)] names_kept_trans[OF assms(2,5)] assms
  by (auto simp: started_def entered_file_def same_place_def)

lemma move_to_simps [simp]: "ps_file (move_to p st) = fst p" "ps_k (move_to p st) = ps_k st" "ps_menus (move_to p st) = ps_menus st"
  by (simp_all add: move_to_def)

lemma started_entry:
  assumes "open_ok {} st0" and "place_ok p st" and "same_place st st0" and "names_kept (ps_k st) (ps_k st0)"
    and "\<And>s. so = Some s \<Longrightarrow> allocated (ps_k st0) s"
  shows "\<exists>st'. menu_add_entry so st0 = Some st' \<and> started so (ps_file st0) st st' \<and> names_kept (ps_k st0) (ps_k st')"
  using add_entry_ok[OF assms(1) place_ok_place[OF assms(3,2)] assms(5)] started_before[OF assms(3,4)] by blast

text \<open>The starts of the statements.\<close>

lemma config_started:
  assumes "open_ok {} st" and "place_ok p st"
  shows "\<exists>s st'. config_entry_start q w st = Some st' \<and> started (Some s) (fst q) st st' \<and> s_name (tab_of st' s) = Some w"
proof -
  have m: "step_ok st (move_to q st)" by (rule step_warn(5)[OF assms(1)])
  obtain s k where s: "sym_lookup (Some w) 0 (ps_k (move_to q st)) = (s, k)" by (cases "sym_lookup (Some w) 0 (ps_k (move_to q st))")
  let ?st1 = "(move_to q st)\<lparr>ps_k := k\<rparr>"
  have 1: "step_ok (move_to q st) ?st1" by (rule step_lookup_ok[OF step_open[OF m] s]) simp
  let ?st2 = "on_k (upd s (set_flags SYMBOL_OPTIONAL)) ?st1"
  have 2: "step_ok ?st1 ?st2"
    by (rule step_upd_ok[OF step_open[OF 1]])
      (auto simp: set_flags_def sym_is_choice_def has_flag_def flag_defs bit.conj_disj_distrib2)
  have a: "step_ok st ?st2" by (rule step_trans[OF step_trans[OF m 1] 2])
  have n: "s_name (k_sym k s) = Some w" "allocated k s" using step_lookup(3,4)[OF step_open[OF m] s] by simp_all
  have nk: "names_kept k (ps_k ?st2)" using 2 by (simp add: step_ok_def)
  have al: "allocated (ps_k ?st2) s" by (rule allocated_kept[OF nk n(2)])
  have "\<exists>st'. menu_add_entry (Some s) ?st2 = Some st' \<and> started (Some s) (ps_file ?st2) st st' \<and> names_kept (ps_k ?st2) (ps_k st')"
    by (rule started_entry[OF step_open[OF a] assms(2)]) (use a al in \<open>auto simp: step_ok_def\<close>)
  then obtain st' where st': "menu_add_entry (Some s) ?st2 = Some st'" "started (Some s) (ps_file ?st2) st st'"
    "names_kept (ps_k ?st2) (ps_k st')" by blast
  have f: "ps_file ?st2 = fst q" by (simp add: on_k_def)
  have "s_name (tab_of st' s) = Some w"
    using names_kept_trans[OF nk st'(3)] n by (simp add: names_kept_def tab_of_def)
  then show ?thesis using s st' f by (auto simp: config_entry_start_def with_value_def)
qed


lemma choice_started:
  assumes "open_ok {} st" and "place_ok p st"
  shows "\<exists>s st'. choice_start q w st = Some st' \<and> started (Some s) (fst q) st st' \<and> s_name (tab_of st' s) = w"
proof -
  have m: "step_ok st (move_to q st)" by (rule step_warn(5)[OF assms(1)])
  obtain s k where s: "sym_lookup w SYMBOL_CHOICE (ps_k (move_to q st)) = (s, k)" by (cases "sym_lookup w SYMBOL_CHOICE (ps_k (move_to q st))")
  let ?st1 = "(move_to q st)\<lparr>ps_k := k\<rparr>"
  have 1: "open_ok {s} ?st1" "names_kept (ps_k st) k" "s_name (k_sym k s) = w" "allocated k s"
    using step_lookup[OF step_open[OF m] s] by (simp_all add: SYMBOL_CHOICE_def)
  let ?f = "set_flags SYMBOL_AUTO"
  let ?st2 = "on_k (upd s ?f) ?st1"
  have f: "s_name (?f y) = s_name y \<and> s_prop (?f y) = s_prop y \<and> sym_is_choice (?f y) = sym_is_choice y" for y
    by (auto simp: set_flags_def sym_is_choice_def has_flag_def flag_defs bit.conj_disj_distrib2)
  have 2: "open_ok {s} ?st2" "names_kept k (ps_k ?st2)" using step_upd[where f = ?f, OF 1(1) f] by simp_all
  have pl: "same_place st ?st2" by (rule same_place_trans[OF _ same_place_trans[OF same_place_basic(2) same_place_basic(1)]]) (use m in \<open>simp add: step_ok_def\<close>)
  have p2: "place_ok p ?st2" by (rule place_ok_place[OF pl assms(2)])
  have al: "allocated (ps_k ?st2) s" by (rule allocated_kept[OF 2(2) 1(4)])
  obtain st3 where st3: "menu_add_entry (Some s) ?st2 = Some st3" "entered (Some s) ?st2 st3" "entered_file (ps_file ?st2) ?st2 st3"
    "names_kept (ps_k ?st2) (ps_k st3)" "open_ok {s} st3" "parents_ok st3"
    using add_entry_ok[OF 2(1) p2, of "Some s"] al by auto
  have c: "cur_sym st3 = Some s" "ps_entry st3 < ps_alloc st3" using st3(2) by (auto simp: cur_sym_def entered_def Let_def)
  have "expr_fine st3 P_CHOICE None" "dep_ok (ps_modules st3) None" by (simp_all add: expr_fine_def dep_ok_def)
  from add_prop_ok[OF st3(5,6) c(2) this(2,1), of None] c(1)
  obtain st4 where st4: "menu_add_expr P_CHOICE None None st3 = Some st4" "same_place st3 st4" "names_kept (ps_k st3) (ps_k st4)" "open_ok {} st4"
    by (auto simp: menu_add_expr_def closes_def)
  have "started (Some s) (ps_file ?st2) st st4"
  proof (rule started_before[OF pl])
    show "entered (Some s) ?st2 st4" by (rule entered_after[OF st3(2) st4(2)])
    show "entered_file (ps_file ?st2) ?st2 st4" using st3(3) st4(2) by (simp add: entered_file_def same_place_def)
  qed (use names_kept_trans[OF 1(2) 2(2)] names_kept_trans[OF st3(4) st4(3)] st4(4) in simp_all)
  moreover have "s_name (tab_of st4 s) = w"
    using names_kept_trans[OF 2(2) names_kept_trans[OF st3(4) st4(3)]] 1(3,4) by (simp add: names_kept_def tab_of_def)
  moreover have "ps_file ?st2 = fst q" by (simp add: on_k_def)
  ultimately show ?thesis using s st3(1) st4(1) by (auto simp: choice_start_def with_value_def)
qed

lemma if_started:
  assumes "open_ok {} st" and "place_ok p st" and "allowed md (Some c)" and "knows_modules md st"
  shows "\<exists>st'. if_start q c st = Some st' \<and> started None (fst q) st st'"
proof -
  have m: "step_ok st (move_to q st)" by (rule step_warn(5)[OF assms(1)])
  obtain e k where e: "expr_action c (ps_k (move_to q st)) = (e, k)" by (cases "expr_action c (ps_k (move_to q st))")
  let ?st1 = "(move_to q st)\<lparr>ps_k := k\<rparr>"
  have 1: "step_ok (move_to q st) ?st1" "plain c \<longrightarrow> no_mod e" using expr_action_ok[OF step_open[OF m] e] by simp_all
  have a: "step_ok st ?st1" by (rule step_trans[OF m 1(1)])
  have "\<exists>st'. menu_add_entry None ?st1 = Some st' \<and> started None (ps_file ?st1) st st' \<and> names_kept (ps_k ?st1) (ps_k st')"
    by (rule started_entry[OF step_open[OF a] assms(2)]) (use a in \<open>auto simp: step_ok_def\<close>)
  then obtain st2 where st2: "menu_add_entry None ?st1 = Some st2" "started None (fst q) st st2" by auto
  have "dep_ok (ps_modules st2) (Some e)"
    using started_ready(3)[OF assms(2) st2(2)] assms(3,4) 1(2) by (auto simp: dep_ok_def allowed_def knows_modules_def)
  then obtain st3 where "menu_add_dep (Some e) st2 = Some st3" "step_ok st2 st3"
    using does_dep[OF started_ready(1)[OF assms(2) st2(2)]] by (auto simp: does_def)
  then show ?thesis using e st2 started_after by (auto simp: if_start_def with_value_def)
qed

lemma titled_started:
  assumes "open_ok {} st" and "place_ok p st" and "t \<in> {P_MENU, P_COMMENT}"
  shows "\<exists>st'. titled_start t q x st = Some st' \<and> started None (fst q) st st'"
proof -
  have m: "step_ok st (move_to q st)" by (rule step_warn(5)[OF assms(1)])
  have "\<exists>st'. menu_add_entry None (move_to q st) = Some st' \<and> started None (ps_file (move_to q st)) st st' \<and>
      names_kept (ps_k (move_to q st)) (ps_k st')"
    by (rule started_entry[OF step_open[OF m] assms(2)]) (use m in \<open>auto simp: step_ok_def\<close>)
  then obtain st2 where st2: "menu_add_entry None (move_to q st) = Some st2" "started None (fst q) st st2" by auto
  have "dep_ok (ps_modules st2) None" by (simp add: dep_ok_def)
  then obtain st3 where "menu_add_prompt t x None st2 = Some st3" "step_ok st2 st3"
    using does_prompt[OF started_ready(1)[OF assms(2) st2(2)], of None t x] assms(3) by (auto simp: does_def)
  then show ?thesis using st2 started_after by (auto simp: titled_start_def)
qed


section \<open>The statements\<close>

text \<open>
  What the text must be: a dependency does not mention m unless there is a \<open>modules_sym\<close>, the option \<open>env\<close> has an
  argument, and every block ends with its own keyword in the file in which it starts.
\<close>

definition end_ok :: "pos \<Rightarrow> pos \<Rightarrow> end_token \<Rightarrow> end_token \<Rightarrow> bool" where
  "end_ok p q found expected \<longleftrightarrow> found = expected \<and> fst q = fst p"

definition deps_ok :: "bool \<Rightarrow> (pos \<times> cond) list \<Rightarrow> bool" where
  "deps_ok md ds \<longleftrightarrow> list_all (\<lambda>(p, c). allowed md (Some c)) ds"

fun text_ok :: "bool \<Rightarrow> stmt list \<Rightarrow> bool" where
  "text_ok md [] \<longleftrightarrow> True"
| "text_ok md (S_config p w os # ss) \<longleftrightarrow> list_all (option_ok md \<circ> snd) os \<and> text_ok md ss"
| "text_ok md (S_menuconfig p w os q # ss) \<longleftrightarrow> list_all (option_ok md \<circ> snd) os \<and> text_ok md ss"
| "text_ok md (S_choice p w os body q f # ss) \<longleftrightarrow>
     list_all (choice_option_ok md \<circ> snd) os \<and> text_ok md body \<and> end_ok p q f T_ENDCHOICE \<and> text_ok md ss"
| "text_ok md (S_if p c body q f # ss) \<longleftrightarrow> allowed md (Some c) \<and> text_ok md body \<and> end_ok p q f T_ENDIF \<and> text_ok md ss"
| "text_ok md (S_menu p x vs ds body q f # ss) \<longleftrightarrow> deps_ok md ds \<and> text_ok md body \<and> end_ok p q f T_ENDMENU \<and> text_ok md ss"
| "text_ok md (S_comment p x ds # ss) \<longleftrightarrow> deps_ok md ds \<and> text_ok md ss"
| "text_ok md (S_source x # ss) \<longleftrightarrow> text_ok md ss"

text \<open>The entries of the text in their order: the name of the symbol, which a choice may not have, or no symbol.\<close>

fun entry_names :: "stmt list \<Rightarrow> string option option list" where
  "entry_names [] = []"
| "entry_names (S_config p w os # ss) = Some (Some w) # entry_names ss"
| "entry_names (S_menuconfig p w os q # ss) = Some (Some w) # entry_names ss"
| "entry_names (S_choice p w os body q f # ss) = Some w # entry_names body @ entry_names ss"
| "entry_names (S_if p c body q f # ss) = None # entry_names body @ entry_names ss"
| "entry_names (S_menu p x vs ds body q f # ss) = None # entry_names body @ entry_names ss"
| "entry_names (S_comment p x ds # ss) = None # entry_names ss"
| "entry_names (S_source x # ss) = entry_names ss"

text \<open>Symbols with these names, whatever is read afterwards.\<close>

definition labels :: "kstate \<Rightarrow> sym option list \<Rightarrow> string option option list \<Rightarrow> bool" where
  "labels k ss ns \<longleftrightarrow> (\<forall>k'. names_kept k k' \<longrightarrow> map (map_option (\<lambda>s. s_name (k_sym k' s))) ss = ns)"

lemma labels_kept: "labels k ss ns \<Longrightarrow> names_kept k k' \<Longrightarrow> labels k' ss ns"
  unfolding labels_def by (blast intro: names_kept_trans)

lemma labels_cons: "labels k [so] [n] \<Longrightarrow> labels k ss ns \<Longrightarrow> labels k (so # ss) (n # ns)"
  unfolding labels_def by auto

lemma labels_append: "labels k ss ns \<Longrightarrow> labels k ts ms \<Longrightarrow> labels k (ss @ ts) (ns @ ms)"
  unfolding labels_def by auto

lemma labels_none: "labels k [None] [None]" and labels_nil: "labels k [] []"
  by (simp_all add: labels_def)

lemma labels_symbol:
  assumes "place_ok p st" and "started (Some s) f st st'" and "s_name (tab_of st' s) = w"
  shows "labels (ps_k st') [Some s] [Some w]"
proof -
  have "m_sym (ps_menus st' (ps_alloc st)) = Some s" "open_ok {} st'" using assms(2) by (auto simp: started_def entered_def Let_def)
  then have "allocated (ps_k st') s" by (auto simp: open_ok_def)
  then show ?thesis using assms(3) by (simp add: labels_def names_kept_def tab_of_def)
qed

text \<open>What the parse of a list of statements does, in the list of the entry \<open>p\<close>.\<close>

definition parsed :: "nat \<Rightarrow> pstate \<Rightarrow> string option option list \<Rightarrow> pstate option \<Rightarrow> bool" where
  "parsed p st ns r \<longleftrightarrow> (\<exists>st' ts ss. r = Some st' \<and> built p st ts ss st' \<and> names_kept (ps_k st) (ps_k st') \<and> open_ok {} st' \<and>
     labels (ps_k st') ss ns)"

definition good :: "nat \<Rightarrow> bool \<Rightarrow> pstate \<Rightarrow> bool" where
  "good p md st \<longleftrightarrow> open_ok {} st \<and> place_ok p st \<and> knows_modules md st"

lemma good_started:
  assumes "good p md st" and "started so f st st'"
  shows "good p md st'" and "good (ps_alloc st) md (menu_add_menu st')" and "ready st'" and "cur_sym st' = so" and "knows_modules md st'"
proof -
  have g: "open_ok {} st" "place_ok p st" "knows_modules md st" using assms(1) by (simp_all add: good_def)
  have e: "entered so st st'" "open_ok {} st'" using assms(2) by (simp_all add: started_def)
  note s = started_ready[OF g(2) assms(2)]
  show "ready st'" "cur_sym st' = so" by (rule s)+
  show k: "knows_modules md st'" using g(3) s(3) by (simp add: knows_modules_def)
  have "open_ok {} (menu_add_menu st')"
    using e(2) by (simp add: open_ok_def menu_add_menu_def tab_of_def named_def prop_fine_def prop_ok_def prompt_there_def cong: prop_type.case_cong)
  then show "good p md st'" "good (ps_alloc st) md (menu_add_menu st')"
    using entered_place[OF g(2) e(1)] e(2) k by (simp_all add: good_def knows_modules_def menu_add_menu_def)
qed

lemma parsed_leaf:
  assumes "good p md st" and "started so f st st1" and "labels (ps_k st1) [so] [n]" and "parsed p st1 ns r"
  shows "parsed p st (n # ns) r"
proof -
  obtain st' ts ss where r: "r = Some st'" "built p st1 ts ss st'" "names_kept (ps_k st1) (ps_k st')" "open_ok {} st'" "labels (ps_k st') ss ns"
    using assms(4) by (auto simp: parsed_def)
  have "built p st (MNode (ps_alloc st) [] # ts) (so # ss) st'"
    by (rule built_leaf[OF _ _ r(2)]) (use assms(1,2) in \<open>simp_all add: good_def started_def\<close>)
  moreover have "labels (ps_k st') (so # ss) (n # ns)" by (rule labels_cons[OF labels_kept[OF assms(3) r(3)] r(5)])
  moreover have "names_kept (ps_k st) (ps_k st')" using assms(2) r(3) by (auto simp: started_def intro: names_kept_trans)
  ultimately show ?thesis using r(1,4) by (auto simp: parsed_def)
qed

lemma parsed_block:
  assumes "good p md st" and "started so (fst q0) st st1" and "labels (ps_k st1) [so] [n]" and "end_ok q0 q f t"
    and body: "parsed (ps_alloc st) (menu_add_menu st1) ns r"
    and rest: "\<And>st4. good p md st4 \<Longrightarrow> parsed p st4 ms (g st4)"
  shows "parsed p st (n # ns @ ms) (Option.bind r (\<lambda>st3. Option.bind (end_block q f t st3) g))"
proof -
  obtain st3 cs ss where b: "r = Some st3" "built (ps_alloc st) (menu_add_menu st1) cs ss st3" "names_kept (ps_k st1) (ps_k st3)"
      "open_ok {} st3" "labels (ps_k st3) ss ns"
    using body by (auto simp: parsed_def menu_add_menu_def)
  have e: "entered so st st1" "m_file (ps_menus st1 (ps_alloc st)) = fst q0" "names_kept (ps_k st) (ps_k st1)"
    using assms(2) by (simp_all add: started_def entered_file_def)
  have p: "place_ok p st" using assms(1) by (simp add: good_def)
  have "ps_alloc st1 = Suc (ps_alloc st)" using e(1) by (simp add: entered_def Let_def)
  then have "m_file (ps_menus st3 (ps_alloc st)) = fst q0" "ps_menu st3 = Some (ps_alloc st)"
    using b(2) e(2) by (simp_all add: built_def links_kept_def menu_add_menu_def place_ok_def)
  then have "zconf_endtoken f t (move_to q st3) = Some (True, move_to q st3)"
    using assms(4) by (simp add: zconf_endtoken_def end_ok_def move_to_def)
  moreover obtain st4 where st4: "menu_end_menu (move_to q st3) = Some st4"
    using \<open>ps_menu st3 = _\<close> by (auto simp: menu_end_menu_def move_to_def)
  ultimately have eb: "end_block q f t st3 = Some st4" by (simp add: end_block_def)
  have k4: "ps_k st4 = ps_k st3" "ps_menus st4 = ps_menus st3" "ps_modules st4 = ps_modules st3"
    using st4 by (auto simp: menu_end_menu_def move_to_def split: option.splits)
  have sp: "same_place st3 (move_to q st3)" using step_warn(5)[OF b(4)] by (simp add: step_ok_def)
  have "open_ok {} st4"
    using b(4) k4 by (simp add: open_ok_def tab_of_def named_def prop_fine_def prop_ok_def prompt_there_def cong: prop_type.case_cong)
  moreover have "knows_modules md st4"
    using good_started(5)[OF assms(1,2)] b(2) k4 by (simp add: knows_modules_def built_def menu_add_menu_def)
  moreover have "place_ok p st4" by (rule built_block_end(2)[OF p e(1) b(2) sp st4])
  ultimately have "parsed p st4 ms (g st4)" by (intro rest) (simp add: good_def)
  then obtain st' ts us where r: "g st4 = Some st'" "built p st4 ts us st'" "names_kept (ps_k st4) (ps_k st')" "open_ok {} st'" "labels (ps_k st') us ms"
    by (auto simp: parsed_def)
  have nk: "names_kept (ps_k st1) (ps_k st')" "names_kept (ps_k st3) (ps_k st')"
    using names_kept_trans[OF b(3)] r(3) k4(1) by simp_all
  have "labels (ps_k st') (so # ss @ us) (n # ns @ ms)"
    by (rule labels_cons[OF labels_kept[OF assms(3) nk(1)] labels_append[OF labels_kept[OF b(5) nk(2)] r(5)]])
  then show ?thesis
    using b(1) eb r(1,4) built_block[OF p e(1) b(2) sp st4 r(2)] names_kept_trans[OF e(3) nk(1)] by (auto simp: parsed_def)
qed


lemma parsed_bind: "(\<And>st1. m = Some st1 \<Longrightarrow> Q st1 \<Longrightarrow> parsed p st ns (f st1)) \<Longrightarrow> \<exists>st1. m = Some st1 \<and> Q st1 \<Longrightarrow>
    parsed p st ns (Option.bind m f)"
  by auto

lemma menuconfig_end_ok:
  assumes "open_ok {} st"
  shows "step_ok st (menuconfig_end st)"
proof (cases "m_prompt (ps_menus st (ps_entry st))")
  case None
  then show ?thesis using step_warn(3)[OF assms] by (simp add: menuconfig_end_def Let_def)
next
  case (Some ptr)
  show ?thesis
  proof (cases ptr)
    case (POwn p)
    have e: "menuconfig_end st = set_menu (ps_entry st) (\<lambda>m. m\<lparr>m_prompt := Some (POwn (p\<lparr>p_type := P_MENU\<rparr>))\<rparr>) st"
      using Some POwn by (simp add: menuconfig_end_def Let_def)
    have "open_ok {} (menuconfig_end st)" unfolding e by (rule prompt_set_ok[OF assms]) simp
    moreover have "same_place st (menuconfig_end st)" unfolding e by (rule same_place_set_menu) simp
    ultimately show ?thesis by (simp add: step_ok_def e set_menu_def)
  next
    case (PSym s i)
    define f :: "symbol \<Rightarrow> symbol" where "f = (\<lambda>y. y\<lparr>s_prop := (s_prop y)[i := (s_prop y ! i)\<lparr>p_type := P_MENU\<rparr>]\<rparr>)"
    have e: "menuconfig_end st = on_k (upd s f) st" using Some PSym by (simp add: menuconfig_end_def Let_def f_def)
    let ?st = "on_k (upd s f) st" and ?ps = "s_prop (tab_of st s)"
    have t: "table_ok (ps_k st)" using assms by (simp add: open_ok_def)
    have i: "i < length ?ps" "p_type (?ps ! i) \<noteq> P_CHOICE"
      using assms Some PSym by (auto simp: open_ok_def prompt_there_def)
    have k: "s_name (f y) = s_name y" "sym_is_choice (f y) = sym_is_choice y" "s_prop y = [] \<Longrightarrow> s_prop (f y) = []" for y
      by (simp_all add: f_def sym_is_choice_def has_flag_def)
    have al: "allocated (ps_k ?st) a = allocated (ps_k st) a" for a by (simp add: allocated_def on_k_def)
    have tk: "table_ok (ps_k ?st)" using t k unfolding table_ok_def al by (auto simp: on_k_def k_sym_upd)
    have nk: "names_kept (ps_k st) (ps_k ?st)" using k by (simp add: names_kept_def on_k_def k_sym_upd)
    have m: "ps_modules ?st = ps_modules st" "ps_menus ?st = ps_menus st" by (simp_all add: on_k_def)
    have nth: "length (s_prop (tab_of ?st a)) = length (s_prop (tab_of st a))"
      "s_prop (tab_of ?st a) ! j = (if a = s \<and> j = i then (?ps ! i)\<lparr>p_type := P_MENU\<rparr> else s_prop (tab_of st a) ! j)" for a j
      using i by (simp_all add: tab_upd f_def nth_list_update)
    have old: "\<exists>p\<in>set (s_prop (tab_of st a)). p_expr q = p_expr p \<and> p_menu q = p_menu p \<and> (p_type q = p_type p \<or> p_type q = P_MENU)"
      if q: "q \<in> set (s_prop (tab_of ?st a))" for q a
    proof -
      obtain j where j: "j < length (s_prop (tab_of st a))" "q = s_prop (tab_of ?st a) ! j" using q nth(1) by (auto simp: in_set_conv_nth)
      then show ?thesis by (intro bexI[of _ "s_prop (tab_of st a) ! j"]) (auto simp: nth(2))
    qed
    have ch: "has_choice (s_prop (tab_of ?st a))" if "sym_is_choice (tab_of ?st a)" for a
    proof -
      have "sym_is_choice (tab_of st a)" using that k(2) by (simp add: tab_upd split: if_splits)
      then have "has_choice (s_prop (tab_of st a))" using assms by (simp add: open_ok_def)
      then obtain j where j: "j < length (s_prop (tab_of st a))" "p_type (s_prop (tab_of st a) ! j) = P_CHOICE"
        by (auto simp: has_choice_def in_set_conv_nth)
      then have "s_prop (tab_of ?st a) ! j = s_prop (tab_of st a) ! j" using i(2) by (auto simp: nth(2))
      then show ?thesis using j nth(1)[of a] nth_mem[of j "s_prop (tab_of ?st a)"] by (auto simp: has_choice_def)
    qed
    have th: "prompt_there ?st (ps_menus ?st a)" for a
      using assms by (auto simp: prompt_there_def open_ok_def m nth)
    have "open_ok {} ?st"
      by (rule open_okI[OF assms tk nk]) (use assms old m ch th in \<open>auto simp: parents_kept_def open_ok_def named_def tab_upd k\<close>)
    then show ?thesis unfolding e by (simp add: step_ok_def nk)
  qed
qed


lemma doesE: "does st r \<Longrightarrow> (\<And>st'. r = Some st' \<Longrightarrow> step_ok st st' \<Longrightarrow> thesis) \<Longrightarrow> thesis"
  by (auto simp: does_def)

lemma parsed_config:
  assumes "good p md st" and "list_all (option_ok md \<circ> snd) os"
    and "\<And>st1 st2. config_entry_start q w st = Some st1 \<Longrightarrow> run_all (at_pos (config_option_action getenv)) os st1 = Some st2 \<Longrightarrow>
      open_ok {} st2 \<Longrightarrow> \<exists>st3. step_ok st2 st3 \<and> r = g st3 \<and> (good p md st3 \<longrightarrow> parsed p st3 ns (g st3))"
  shows "\<exists>st1 st2. config_entry_start q w st = Some st1 \<and> run_all (at_pos (config_option_action getenv)) os st1 = Some st2 \<and>
    parsed p st (Some (Some w) # ns) r"
proof -
  obtain s st1 where 1: "config_entry_start q w st = Some st1" "started (Some s) (fst q) st st1" "s_name (tab_of st1 s) = Some w"
    using config_started[of st p q w] assms(1) by (auto simp: good_def)
  note g = good_started[OF assms(1) 1(2)]
  have "on_symbol md st1" using 1(3) g(4,5) by (simp add: on_symbol_def named_def)
  with does_config_options[OF g(3) _ assms(2)]
  obtain st2 where 2: "run_all (at_pos (config_option_action getenv)) os st1 = Some st2" "step_ok st1 st2" by (auto elim: doesE)
  obtain st3 where 3: "step_ok st2 st3" "r = g st3" "good p md st3 \<longrightarrow> parsed p st3 ns (g st3)"
    using assms(3)[OF 1(1) 2(1) step_open[OF 2(2)]] by blast
  have s3: "started (Some s) (fst q) st st3" by (rule started_after[OF started_after[OF 1(2) 2(2)] 3(1)])
  have nk: "names_kept (ps_k st1) (ps_k st3)" using step_trans[OF 2(2) 3(1)] by (simp add: step_ok_def)
  have l: "labels (ps_k st3) [Some s] [Some (Some w)]"
    by (rule labels_kept[OF labels_symbol[where p = p, OF _ 1(2,3)] nk]) (use assms(1) in \<open>simp add: good_def\<close>)
  have "parsed p st (Some (Some w) # ns) r"
    using parsed_leaf[OF assms(1) s3 l] 3(2,3) good_started(1)[OF assms(1) s3] by simp
  with 1(1) 2(1) show ?thesis by blast
qed

lemma parse_stmts_parsed:
  "text_ok md ss \<Longrightarrow> good p md st \<Longrightarrow> parsed p st (entry_names ss) (parse_stmts getenv ss st)"
proof (induction md ss arbitrary: p st rule: text_ok.induct)
  case (1 md)
  then have "built p st [] [] st" by (simp add: good_def built_nil)
  with 1 show ?case using labels_nil by (fastforce simp: parsed_def good_def)
next
  case (2 md q w os ss)
  have "\<exists>st1 st2. config_entry_start q w st = Some st1 \<and> run_all (at_pos (config_option_action getenv)) os st1 = Some st2 \<and>
    parsed p st (Some (Some w) # entry_names ss) (parse_stmts getenv (S_config q w os # ss) st)"
  proof (rule parsed_config[OF 2(3), where g = "parse_stmts getenv ss"])
    fix st1 st2 assume "config_entry_start q w st = Some st1" "run_all (at_pos (config_option_action getenv)) os st1 = Some st2" "open_ok {} st2"
    then show "\<exists>st3. step_ok st2 st3 \<and> parse_stmts getenv (S_config q w os # ss) st = parse_stmts getenv ss st3 \<and>
        (good p md st3 \<longrightarrow> parsed p st3 (entry_names ss) (parse_stmts getenv ss st3))"
      using 2(1)[of p] 2(2) by (auto intro!: exI[of _ st2] step_refl)
  qed (use 2(2) in simp)
  then show ?case by auto
next
  case (3 md q w os q2 ss)
  have "\<exists>st1 st2. config_entry_start q w st = Some st1 \<and> run_all (at_pos (config_option_action getenv)) os st1 = Some st2 \<and>
    parsed p st (Some (Some w) # entry_names ss) (parse_stmts getenv (S_menuconfig q w os q2 # ss) st)"
  proof (rule parsed_config[OF 3(3), where g = "parse_stmts getenv ss"])
    fix st1 st2 assume a: "config_entry_start q w st = Some st1" "run_all (at_pos (config_option_action getenv)) os st1 = Some st2" "open_ok {} st2"
    have m: "step_ok st2 (move_to q2 st2)" by (rule step_warn(5)[OF a(3)])
    have "step_ok st2 (menuconfig_end (move_to q2 st2))" by (rule step_trans[OF m menuconfig_end_ok[OF step_open[OF m]]])
    then show "\<exists>st3. step_ok st2 st3 \<and> parse_stmts getenv (S_menuconfig q w os q2 # ss) st = parse_stmts getenv ss st3 \<and>
        (good p md st3 \<longrightarrow> parsed p st3 (entry_names ss) (parse_stmts getenv ss st3))"
      using a 3(1)[of p] 3(2) by (auto intro!: exI[of _ "menuconfig_end (move_to q2 st2)"])
  qed (use 3(2) in simp)
  then show ?case by auto
next
  case (4 md q w os body q2 f ss)
  obtain s st1 where 1: "choice_start q w st = Some st1" "started (Some s) (fst q) st st1" "s_name (tab_of st1 s) = w"
    using choice_started[of st p q w] 4(4) by (auto simp: good_def)
  note g = good_started[OF 4(4) 1(2)]
  have "on_choice md st1" using g(4,5) by (simp add: on_choice_def)
  with does_choice_options[OF g(3), of md os] 4(3)
  obtain st2 where 2: "run_all (at_pos choice_option_action) os st1 = Some st2" "step_ok st1 st2" by (auto elim: doesE)
  have s2: "started (Some s) (fst q) st st2" by (rule started_after[OF 1(2) 2(2)])
  have l: "labels (ps_k st2) [Some s] [Some w]"
    by (rule labels_kept[OF labels_symbol[where p = p, OF _ 1(2,3)]]) (use 4(4) 2(2) in \<open>simp_all add: good_def step_ok_def\<close>)
  have "parsed p st (Some w # entry_names body @ entry_names ss)
      (Option.bind (parse_stmts getenv body (menu_add_menu st2)) (\<lambda>st3. Option.bind (end_block q2 f T_ENDCHOICE st3) (parse_stmts getenv ss)))"
    by (rule parsed_block[OF 4(4) s2 l]) (use 4 good_started(2)[OF 4(4) s2] in auto)
  then show ?case using 1(1) 2(1) by simp
next
  case (5 md q c body q2 f ss)
  obtain st1 where 1: "if_start q c st = Some st1" "started None (fst q) st st1"
    using if_started[of st p md c q] 5(3,4) by (auto simp: good_def)
  have "parsed p st (None # entry_names body @ entry_names ss)
      (Option.bind (parse_stmts getenv body (menu_add_menu st1)) (\<lambda>st3. Option.bind (end_block q2 f T_ENDIF st3) (parse_stmts getenv ss)))"
    by (rule parsed_block[OF 5(4) 1(2) labels_none]) (use 5 good_started(2)[OF 5(4) 1(2)] in auto)
  then show ?case using 1(1) by simp
next
  case (6 md q x vs ds body q2 f ss)
  obtain st1 where 1: "titled_start P_MENU q x st = Some st1" "started None (fst q) st st1"
    using titled_started[of st p P_MENU q x] 6(4) by (auto simp: good_def)
  note g = good_started[OF 6(4) 1(2)]
  obtain st2 where 2: "run_all visible_action vs st1 = Some st2" "step_ok st1 st2" using does_visible_list[OF g(3)] by (auto elim: doesE)
  have "does st2 (run_all (at_pos depends_action) ds st2)"
    by (rule does_depends_list[OF step_ready[OF g(3) 2(2)] step_knows[OF g(5) 2(2)]]) (use 6(3) in \<open>simp add: deps_ok_def\<close>)
  then obtain st3 where 3: "run_all (at_pos depends_action) ds st2 = Some st3" "step_ok st2 st3" by (auto elim: doesE)
  have s3: "started None (fst q) st st3" by (rule started_after[OF started_after[OF 1(2) 2(2)] 3(2)])
  have "parsed p st (None # entry_names body @ entry_names ss)
      (Option.bind (parse_stmts getenv body (menu_add_menu st3)) (\<lambda>st4. Option.bind (end_block q2 f T_ENDMENU st4) (parse_stmts getenv ss)))"
    by (rule parsed_block[OF 6(4) s3 labels_none]) (use 6 good_started(2)[OF 6(4) s3] in auto)
  then show ?case using 1(1) 2(1) 3(1) by simp
next
  case (7 md q x ds ss)
  obtain st1 where 1: "titled_start P_COMMENT q x st = Some st1" "started None (fst q) st st1"
    using titled_started[of st p P_COMMENT q x] 7(3) by (auto simp: good_def)
  note g = good_started[OF 7(3) 1(2)]
  have "does st1 (run_all (at_pos depends_action) ds st1)"
    by (rule does_depends_list[OF g(3,5)]) (use 7(2) in \<open>simp add: deps_ok_def\<close>)
  then obtain st2 where 2: "run_all (at_pos depends_action) ds st1 = Some st2" "step_ok st1 st2" by (auto elim: doesE)
  have s2: "started None (fst q) st st2" by (rule started_after[OF 1(2) 2(2)])
  have "parsed p st (None # entry_names ss) (parse_stmts getenv ss st2)"
    by (rule parsed_leaf[OF 7(3) s2 labels_none]) (use 7 good_started(1)[OF 7(3) s2] in auto)
  then show ?case using 1(1) 2(1) by simp
next
  case (8 md x ss)
  then show ?case by simp
qed

section \<open>The whole parse\<close>

text \<open>The program has not read anything yet: no symbols but the constants, no entries but \<open>rootmenu\<close>.\<close>

definition at_start :: "pstate \<Rightarrow> bool" where
  "at_start st \<longleftrightarrow> parser_start st \<and> ps_modules st = None \<and> k_next (ps_k st) = 0 \<and> (\<forall>i. k_hash (ps_k st) i = []) \<and>
     (\<forall>s. s_prop (tab_of st s) = [] \<and> \<not> sym_is_choice (tab_of st s)) \<and> (\<forall>n. s_name (tab_of st (sym_at n)) = None) \<and>
     s_name (tab_of st symbol_yes) = Some ''y'' \<and> s_name (tab_of st symbol_mod) = Some ''m'' \<and> s_name (tab_of st symbol_no) = Some ''n'' \<and>
     (\<forall>a. m_prompt (ps_menus st a) = None \<and> m_sym (ps_menus st a) = None)"

lemma at_start_open: "at_start st \<Longrightarrow> open_ok {} st"
proof -
  assume s: "at_start st"
  have al: "\<exists>n. a = sym_at n" if "\<not> allocated (ps_k st) a" for a using that by (cases a) (auto simp: allocated_def)
  have "s_name (k_sym (ps_k st) a) = None \<and> s_prop (k_sym (ps_k st) a) = [] \<and> \<not> sym_is_choice (k_sym (ps_k st) a)"
    if "\<not> allocated (ps_k st) a" for a using al[OF that] s by (auto simp: at_start_def tab_of_def)
  then have "table_ok (ps_k st)" using s by (simp add: table_ok_def at_start_def tab_of_def)
  then show ?thesis using s by (simp add: open_ok_def at_start_def entry_fine_def prompt_there_def)
qed

text \<open>\<open>sym_init\<close>.\<close>

lemma sym_init_ok:
  assumes "open_ok {} st"
  shows "step_ok st (sym_init release st)"
proof -
  obtain s k where s: "sym_lookup (Some ''UNAME_RELEASE'') 0 (ps_k st) = (s, k)" by (cases "sym_lookup (Some ''UNAME_RELEASE'') 0 (ps_k st)")
  have 1: "step_ok st (st\<lparr>ps_k := k\<rparr>)" by (rule step_lookup_ok[OF assms s]) simp
  let ?f = "\<lambda>y. set_flags SYMBOL_AUTO (y\<lparr>s_type := S_STRING\<rparr>)"
  let ?st2 = "on_k (upd s ?f) (st\<lparr>ps_k := k\<rparr>)"
  have 2: "step_ok (st\<lparr>ps_k := k\<rparr>) ?st2"
    by (rule step_upd_ok[OF step_open[OF 1]]) (auto simp: set_flags_def sym_is_choice_def has_flag_def flag_defs bit.conj_disj_distrib2)
  have al: "allocated (ps_k ?st2) s"
    using step_lookup(4)[OF assms s] 2 allocated_kept[of k "ps_k ?st2" s] by (simp add: step_ok_def)
  have e: "sym_init release st = sym_add_default s release ?st2"
    by (simp add: sym_init_def s on_k_def)
  show ?thesis
    unfolding e sym_add_default_def
    by (rule step_trans[OF step_trans[OF 1 2] const_prop_kept[OF step_open[OF 2] al]]) simp
qed

text \<open>The parser is at \<open>rootmenu\<close>, with no entry below it.\<close>

definition at_root :: "pstate \<Rightarrow> bool" where
  "at_root st \<longleftrightarrow> open_ok {} st \<and> place_ok rootmenu st \<and> m_sym (ps_menus st rootmenu) = None \<and> parser_start st \<and> menu_init st = st"

lemma menu_init_same: "menu_init st = st \<longleftrightarrow> ps_entry st = rootmenu \<and> ps_menu st = Some rootmenu \<and> ps_last st = ListOf rootmenu"
  by (cases st) (auto simp: menu_init_def)

lemma at_root_step: "at_root a \<Longrightarrow> step_ok a b \<Longrightarrow> at_root b"
  using place_ok_place[of a b rootmenu]
  by (auto simp: at_root_def menu_init_same step_ok_def same_place_def same_links_def parser_start_def)

lemma at_root_start:
  assumes "at_start st"
  shows "at_root (menu_init (sym_init release (move_to q st)))"
proof -
  let ?st0 = "sym_init release (move_to q st)"
  have m: "step_ok st (move_to q st)" by (rule step_warn(5)[OF at_start_open[OF assms]])
  have 0: "step_ok st ?st0" by (rule step_trans[OF m sym_init_ok[OF step_open[OF m]]])
  have "parser_start st" "m_sym (ps_menus st rootmenu) = None" using assms by (simp_all add: at_start_def)
  then have "parser_start ?st0" "m_sym (ps_menus ?st0 rootmenu) = None"
    using 0 by (auto simp: step_ok_def same_place_def same_links_def parser_start_def)
  then show ?thesis
    using step_open[OF 0] start_place[of ?st0]
    by (simp add: at_root_def menu_init_def open_ok_def parser_start_def tab_of_def named_def prop_fine_def prop_ok_def prompt_there_def cong: prop_type.case_cong)
qed

text \<open>The title.\<close>

lemma root_title:
  assumes "at_root st"
  shows "\<exists>st' p. menu_add_prompt P_MENU x None st = Some st' \<and> at_root st' \<and> title st' = Some (POwn p) \<and>
    p_text p = Some (dropWhile isspace x)"
proof -
  have r: "open_ok {} st" "place_ok rootmenu st" "ps_entry st = rootmenu" "m_sym (ps_menus st rootmenu) = None"
    using assms by (simp_all add: at_root_def menu_init_same)
  have "parents_ok st" "ps_entry st < ps_alloc st" using r(2,3) by (simp_all add: place_ok_def)
  moreover have "dep_ok (ps_modules st) None" "expr_fine st P_MENU None" by (simp_all add: dep_ok_def expr_fine_def)
  ultimately obtain st' where st': "menu_add_prop P_MENU (Some x) None None st = Some st'" "step_ok st st'"
    using add_prop_ok[OF r(1), of None P_MENU None "Some x"] by (auto simp: step_ok_def)
  moreover have "\<exists>p. title st' = Some (POwn p) \<and> p_text p = Some (dropWhile isspace x)"
    using st'(1) r(3,4) by (auto simp: menu_add_prop_def Let_def menu_check_dep_ptr_def prop_alloc_def title_def set_menu_def)
  ultimately show ?thesis using at_root_step[OF assms] by (auto simp: menu_add_prompt_def)
qed

definition title_text :: "(pos \<times> string) option \<Rightarrow> string" where
  "title_text t = (case t of None \<Rightarrow> ''Buildroot Configuration'' | Some (p, x) \<Rightarrow> dropWhile isspace x)"

lemma mainmenu_read:
  assumes "at_root st" and "title st = Some (POwn p)" and "p_text p = Some ''Buildroot Configuration''"
  shows "\<exists>st' p. mainmenu_stmt t st = Some st' \<and> at_root st' \<and> title st' = Some (POwn p) \<and> p_text p = Some (title_text t)"
proof (cases t)
  case None
  then show ?thesis using assms by (auto simp: mainmenu_stmt_def title_text_def)
next
  case (Some qx)
  obtain q x where qx: "qx = (q, x)" by (cases qx)
  have "at_root (move_to q st)" by (rule at_root_step[OF assms(1) step_warn(5)]) (use assms(1) in \<open>simp add: at_root_def\<close>)
  from root_title[OF this] Some qx show ?thesis by (auto simp: mainmenu_stmt_def title_text_def)
qed

lemma plain_title: "dropWhile isspace ''Buildroot Configuration'' = ''Buildroot Configuration''" by code_simp

lemma start_read:
  assumes "at_start st"
  shows "\<exists>st2 p. Option.bind (menu_add_prompt P_MENU ''Buildroot Configuration'' None (menu_init (sym_init release (move_to q st)))) (mainmenu_stmt t) =
    Some st2 \<and> at_root st2 \<and> title st2 = Some (POwn p) \<and> p_text p = Some (title_text t)"
proof -
  obtain st1 p where 1: "menu_add_prompt P_MENU ''Buildroot Configuration'' None (menu_init (sym_init release (move_to q st))) = Some st1"
    "at_root st1" "title st1 = Some (POwn p)" "p_text p = Some ''Buildroot Configuration''"
    using root_title[OF at_root_start[OF assms], of "''Buildroot Configuration''"] unfolding plain_title by blast
  then show ?thesis using mainmenu_read[OF 1(2-4)] by simp
qed

lemma menus_read:
  assumes "at_start st" and "text_ok False ss"
  shows "\<exists>st1 ts p. read_menus getenv release q t ss st = Some st1 \<and> open_ok {} st1 \<and> menu_tree (ps_menus st1) ts \<and>
    distinct (rootmenu # preorder ts) \<and> labels (ps_k st1) (map (\<lambda>a. m_sym (ps_menus st1 a)) (preorder ts)) (entry_names ss) \<and>
    title st1 = Some (POwn p) \<and> p_text p = Some (title_text t)"
proof -
  obtain st2 p where 2: "Option.bind (menu_add_prompt P_MENU ''Buildroot Configuration'' None (menu_init (sym_init release (move_to q st)))) (mainmenu_stmt t) =
    Some st2" "at_root st2" "title st2 = Some (POwn p)" "p_text p = Some (title_text t)"
    using start_read[OF assms(1)] by blast
  have g: "good rootmenu False st2" and s: "parser_start st2" "menu_init st2 = st2"
    using 2(2) by (simp_all add: at_root_def good_def knows_modules_def)
  obtain st1 ts us where p: "parse_stmts getenv ss st2 = Some st1" "built rootmenu st2 ts us st1" "open_ok {} st1" "labels (ps_k st1) us (entry_names ss)"
    using parse_stmts_parsed[OF assms(2) g, of getenv] by (auto simp: parsed_def)
  have b: "built rootmenu (menu_init st2) ts us st1" using p(2) s(2) by simp
  note tree = built_tree[OF s(1) b]
  have "rootmenu < ps_alloc st2" using 2(2) by (simp add: at_root_def place_ok_def)
  then have "title st1 = title st2" using parse_stmts_title[OF p(1)] by (simp add: keeps_title_def)
  moreover have "read_menus getenv release q t ss st = Some st1" using 2(1) p(1) by (auto simp: read_menus_def split: Option.bind_splits)
  moreover have "distinct (rootmenu # preorder ts)" unfolding tree(2) by (simp add: rootmenu_def)
  ultimately show ?thesis using tree p(3,4) 2(3,4) by auto
qed

text \<open>
  C8: Every text of the right form is read to its end: each action finds what it needs, a symbol, a name or a
  current menu. The result is a tree of entries under \<open>rootmenu\<close>, none twice, whose symbols have the
  names of the text in the order of the text, and all properties have what their type needs, as \<open>menu_finalize\<close>
  requires. The form is that no condition mentions m, that the option env has an argument, and that a block ends with
  its own keyword in its own file.
\<close>

theorem text_becomes_menus:
  assumes "at_start st" and "text_ok False ss"
  shows "\<exists>st1 ts. read_menus getenv release q t ss st = Some st1 \<and> menu_tree (ps_menus st1) ts \<and> distinct (rootmenu # preorder ts) \<and>
    map (\<lambda>a. map_option (\<lambda>s. s_name (tab_of st1 s)) (m_sym (ps_menus st1 a))) (preorder ts) = entry_names ss \<and> fin_ok st1"
proof -
  obtain st1 ts where r: "read_menus getenv release q t ss st = Some st1" "open_ok {} st1" "menu_tree (ps_menus st1) ts"
    "distinct (rootmenu # preorder ts)" "labels (ps_k st1) (map (\<lambda>a. m_sym (ps_menus st1 a)) (preorder ts)) (entry_names ss)"
    using menus_read[OF assms] by blast
  have "map (\<lambda>a. map_option (\<lambda>s. s_name (tab_of st1 s)) (m_sym (ps_menus st1 a))) (preorder ts) = entry_names ss"
    using r(5) names_kept_refl[of "ps_k st1"] unfolding labels_def by (auto simp: tab_of_def o_def)
  with r open_fin[OF r(2)] show ?thesis by blast
qed

lemma default_modules_ok: "open_ok {} st \<Longrightarrow> open_ok {} (default_modules st)"
proof -
  assume o: "open_ok {} st"
  have "named st m" if "sym_find ''n'' (ps_k st) = Some m" for m
    using that o by (auto simp: sym_find_def open_ok_def table_ok_def named_def tab_of_def)
  moreover have "table_ok (ps_k (default_modules st))"
    using o by (auto simp: default_modules_def Let_def open_ok_def table_ok_def allocated_def split: option.split)
  moreover have "tab_of (default_modules st) = tab_of st" "allocated (ps_k (default_modules st)) = allocated (ps_k st)"
    by (auto simp: fun_eq_iff default_modules_def Let_def tab_of_def allocated_def split: option.split)
  moreover have "prop_fine (default_modules st) p = prop_fine st p" for p
    using calculation(3) by (simp add: prop_fine_def prop_ok_def named_def default_modules_def Let_def cong: prop_type.case_cong)
  ultimately show ?thesis
    using o by (auto simp: open_ok_def prompt_there_def named_def default_modules_def Let_def split: option.splits)
qed

lemma title_expanded:
  assumes "open_ok {} st" and "title st = Some (POwn p)" and "p_text p = Some x" and "CHR ''$'' \<notin> set x"
  shows "\<exists>st2. expand_title calc st = Some st2 \<and> open_ok {} st2 \<and> (\<forall>a. m_next (ps_menus st2 a) = m_next (ps_menus st a) \<and>
    m_parent (ps_menus st2 a) = m_parent (ps_menus st a) \<and> m_list (ps_menus st2 a) = m_list (ps_menus st a) \<and>
    m_sym (ps_menus st2 a) = m_sym (ps_menus st a))"
proof -
  let ?st2 = "set_menu rootmenu (\<lambda>m. m\<lparr>m_prompt := Some (POwn (p\<lparr>p_text := Some x\<rparr>))\<rparr>) st"
  have "expand_title calc st = Some ?st2" using assms(2-4) by (simp add: expand_title_def title_def expand_plain)
  moreover have "p_type p \<noteq> P_SELECT" using assms(1,2) by (force simp: open_ok_def entry_fine_def title_def split: option.splits prompt.splits)
  then have "open_ok {} ?st2" by (intro prompt_set_ok[OF assms(1)]) simp
  ultimately show ?thesis by (auto simp: set_menu_def)
qed


section \<open>An example\<close>

definition start_table :: symtab where
  "start_table s =
     (if s = symbol_yes then static_symbol ''y'' tri_yes (SYMBOL_CONST OR SYMBOL_VALID)
      else if s = symbol_mod then static_symbol ''m'' tri_mod (SYMBOL_CONST OR SYMBOL_VALID)
      else if s = symbol_no then static_symbol ''n'' tri_no (SYMBOL_CONST OR SYMBOL_VALID)
      else if s = symbol_empty then static_symbol [] tri_no SYMBOL_VALID
      else new_symbol None 0)"

definition example_start :: pstate where
  "example_start = example_parser\<lparr>ps_k := example_state\<lparr>k_sym := start_table, k_hash := (\<lambda>_. []), k_next := 0\<rparr>\<rparr>"

text \<open>A symbol with a prompt, and a menu with a choice of one value that depends on it.\<close>

definition example_text :: "stmt list" where
  "example_text =
     (let p = (''Config.in'', 2) in
      [S_config p ''A'' [(p, O_type S_BOOLEAN (Some (''first'', None))), (p, O_default S_UNKNOWN (C_symbol (T_WORD ''y'')) None)],
       S_menu p ''More'' [] [(p, C_symbol (T_WORD ''A''))]
         [S_choice p None [(p, H_prompt ''which'' None)] [S_config p ''B'' [(p, O_type S_BOOLEAN (Some (''second'', None)))]] p T_ENDCHOICE]
         p T_ENDMENU])"

lemma example_start_ok: "at_start example_start"
proof -
  have "s_prop (start_table s) = [] \<and> \<not> sym_is_choice (start_table s)" for s
    by (simp add: start_table_def static_symbol_def new_symbol_def example_symbol_def sym_is_choice_def has_flag_def flag_defs)
  then show ?thesis
    by (simp add: at_start_def parser_start_def example_start_def example_parser_def tab_of_def rootmenu_def empty_menu_def)
      (simp add: start_table_def static_symbol_def new_symbol_def)
qed

lemma example_text_ok: "text_ok False example_text"
  by (simp add: example_text_def Let_def deps_ok_def end_ok_def allowed_def)

lemma example_names: "entry_names example_text = [Some (Some ''A''), None, Some None, Some (Some ''B'')]"
  by (simp add: example_text_def Let_def)

theorem text_becomes_menus_witness:
  "\<exists>st1 ts. read_menus (\<lambda>_. None) ''6.1'' (''Config.in'', 1) None example_text example_start = Some st1 \<and> menu_tree (ps_menus st1) ts \<and>
    distinct (rootmenu # preorder ts) \<and>
    map (\<lambda>a. map_option (\<lambda>s. s_name (tab_of st1 s)) (m_sym (ps_menus st1 a))) (preorder ts) = [Some (Some ''A''), None, Some None, Some (Some ''B'')] \<and>
    fin_ok st1"
  using text_becomes_menus[OF example_start_ok example_text_ok, of "\<lambda>_. None" "''6.1''" "(''Config.in'', 1)" None, unfolded example_names] .


end
