(* ===== verification/Kc_Main.thy ===== *)
theory Kc_Main
  imports Kc_Files Kc_Ask_Props Kc_Parse_Props
begin

text \<open>
  \<open>main\<close> of conf.c: the configuration files are parsed, a configuration is read, updated in the way that the mode says,
  and written. What \<open>getopt_long\<close> makes of the arguments and the numbers of \<open>rand\<close> are given; messages on the error
  output are left out.
\<close>

section \<open>The command line\<close>

text \<open>An option of \<open>long_opts\<close> with its argument, or one that \<open>getopt_long\<close> reports with a question mark.\<close>

datatype cmd_option = Opt input_mode "string option" | Unknown_option

fun long_opts :: "string \<Rightarrow> input_mode option" where
  "long_opts name =
     (if name = ''oldaskconfig'' then Some oldaskconfig
      else if name = ''oldconfig'' then Some oldconfig
      else if name = ''silentoldconfig'' then Some silentoldconfig
      else if name = ''defconfig'' then Some defconfig
      else if name = ''savedefconfig'' then Some savedefconfig
      else if name = ''allnoconfig'' then Some allnoconfig
      else if name = ''allyesconfig'' then Some allyesconfig
      else if name = ''allmodconfig'' then Some allmodconfig
      else if name = ''alldefconfig'' then Some alldefconfig
      else if name = ''randconfig'' then Some randconfig
      else if name = ''listnewconfig'' then Some listnewconfig
      else if name = ''olddefconfig'' then Some olddefconfig
      else if name = ''oldnoconfig'' then Some olddefconfig
      else None)"

record command =
  cm_mode :: input_mode
  cm_sync :: bool
  cm_file :: "string option"

text \<open>The loop over the options; None after an unknown one, when \<open>main\<close> exits.\<close>

definition note_option :: "cmd_option \<Rightarrow> command \<Rightarrow> command option" where
  "note_option opt c =
     (case opt of
        Unknown_option \<Rightarrow> None
      | Opt m arg \<Rightarrow> Some (c\<lparr>cm_mode := m, cm_sync := cm_sync c \<or> m = silentoldconfig,
          cm_file := (if m = defconfig \<or> m = savedefconfig then arg else cm_file c)\<rparr>))"

definition read_options :: "cmd_option list \<Rightarrow> command option" where
  "read_options opts = run_all note_option opts \<lparr>cm_mode = oldaskconfig, cm_sync = False, cm_file = None\<rparr>"

definition conf_usage :: "string \<Rightarrow> string" where
  "conf_usage progname = concat (map (\<lambda>l. l @ newline)
     [''Usage: '' @ progname @ '' [option] <kconfig-file>'',
      ''[option] is _one_ of the following:'',
      ''  --listnewconfig         List new options'',
      ''  --oldaskconfig          Start a new configuration using a line-oriented program'',
      ''  --oldconfig             Update a configuration using a provided .config as base'',
      ''  --silentoldconfig       Same as oldconfig, but quietly, additionally update deps'',
      ''  --olddefconfig          Same as silentoldconfig but sets new symbols to their default value'',
      ''  --oldnoconfig           An alias of olddefconfig'',
      ''  --defconfig <file>      New config with default defined in <file>'',
      ''  --savedefconfig <file>  Save the minimal current configuration to <file>'',
      ''  --allnoconfig           New config where all options are answered with no'',
      ''  --allyesconfig          New config where all options are answered with yes'',
      ''  --allmodconfig          New config where all options are answered with mod'',
      ''  --alldefconfig          New config with all symbols set to default'',
      ''  --randconfig            New config with random answer to all options''])"

section \<open>The state of the program\<close>

text \<open>The front end with the symbols and the standard output, the files, and how many random numbers have been used.\<close>

record prog =
  p_ask :: ask
  p_fs :: files
  p_tree :: tree_fs
  p_rand :: nat

text \<open>
  What does not change: the system, the bounds and the prefix, the random numbers, \<open>file_list\<close>, and
  \<open>sym_defconfig_list\<close> and \<open>sym_env_list\<close> after the parse; the bound of the loops.
\<close>

record main_env =
  me_sys :: sys
  me_ask :: ask_env
  me_rnd :: "nat \<Rightarrow> nat"
  me_files :: "string list"
  me_defconfig :: "sym option"
  me_env_list :: "sym list"
  me_loops :: nat

text \<open>A part of \<open>main\<close>: None when a bound is used up or NULL is followed, \<open>Inl\<close> with the status when the program ends.\<close>

type_synonym step = "(nat \<times> prog + prog) option"

definition next_step :: "step \<Rightarrow> (prog \<Rightarrow> step) \<Rightarrow> step" where
  "next_step m f = (case m of None \<Rightarrow> None | Some (Inl r) \<Rightarrow> Some (Inl r) | Some (Inr st) \<Rightarrow> f st)"

definition leave :: "nat \<Rightarrow> prog \<Rightarrow> step" where "leave r st = Some (Inl (r, st))"

definition p_k :: "prog \<Rightarrow> kstate" where "p_k st = w_k (a_w (p_ask st))"

definition with_pk :: "kstate \<Rightarrow> prog \<Rightarrow> prog" where
  "with_pk k st = st\<lparr>p_ask := on_w (\<lambda>w. w\<lparr>w_k := k\<rparr>) (p_ask st)\<rparr>"

definition say :: "string \<Rightarrow> prog \<Rightarrow> prog" where "say msg st = st\<lparr>p_ask := put msg (p_ask st)\<rparr>"

definition e_n :: "main_env \<Rightarrow> nat" where "e_n env = e_calc (me_ask env)"

section \<open>Reading\<close>

definition read_config :: "main_env \<Rightarrow> string option \<Rightarrow> prog \<Rightarrow> (nat \<times> prog) option" where
  "read_config env name st = do {
     (r, msg, k) \<leftarrow> conf_read (e_n env) (e_prefix (me_ask env)) (me_sys env) (me_defconfig env) name (p_fs st) (p_k st);
     Some (r, say msg (with_pk k st)) }"

definition read_seed :: "main_env \<Rightarrow> string \<Rightarrow> prog \<Rightarrow> (nat \<times> prog) option" where
  "read_seed env name st = do {
     (r, msg, c) \<leftarrow> conf_read_simple (e_n env) (e_prefix (me_ask env)) (me_sys env) (me_defconfig env) S_DEF_USER (Some name) (p_fs st) (p_k st);
     Some (r, say msg (with_pk (c_st c) st)) }"

definition cant_find :: "string \<Rightarrow> string" where
  "cant_find f = ''***'' @ newline @ ''*** Can'' @ [CHR 0x27] @ ''t find default configuration '' @ double_quote @ f @ double_quote @ ''!''
     @ newline @ ''***'' @ newline"

definition read_default :: "main_env \<Rightarrow> string option \<Rightarrow> prog \<Rightarrow> step" where
  "read_default env file st = do {
     (f, k) \<leftarrow> (case file of
                 Some f \<Rightarrow> Some (f, p_k st)
               | None \<Rightarrow> conf_get_default_confname (sym_calc_value (e_n env)) (me_sys env) (p_fs st) (p_k st));
     (r, st1) \<leftarrow> read_config env (Some f) (with_pk k st);
     if r \<noteq> 0 then leave 1 (say (cant_find f) st1) else Some (Inr st1) }"

fun all_config :: "input_mode \<Rightarrow> string" where
  "all_config allnoconfig = ''allno.config''"
| "all_config allyesconfig = ''allyes.config''"
| "all_config allmodconfig = ''allmod.config''"
| "all_config alldefconfig = ''alldef.config''"
| "all_config _ = ''allrandom.config''"

definition read_all_config :: "main_env \<Rightarrow> input_mode \<Rightarrow> prog \<Rightarrow> step" where
  "read_all_config env mode st =
     (case sys_getenv (me_sys env) ''KCONFIG_ALLCONFIG'' of
        None \<Rightarrow> Some (Inr st)
      | Some name \<Rightarrow>
          if name \<noteq> [] \<and> name \<noteq> ''1'' then do {
            (r, st1) \<leftarrow> read_seed env name st;
            if r \<noteq> 0 then leave 1 st1 else Some (Inr st1) }
          else do {
            (r, st1) \<leftarrow> read_seed env (all_config mode) st;
            if r = 0 then Some (Inr st1)
            else do {
              (r2, st2) \<leftarrow> read_seed env ''all.config'' st1;
              if r2 \<noteq> 0 then leave 1 st2 else Some (Inr st2) } })"

definition read_step :: "main_env \<Rightarrow> command \<Rightarrow> prog \<Rightarrow> step" where
  "read_step env c st =
     (if cm_mode c = defconfig then read_default env (cm_file c) st
      else if cm_mode c \<in> {savedefconfig, silentoldconfig, oldaskconfig, oldconfig, listnewconfig, olddefconfig} then
        map_option (\<lambda>r. Inr (snd r)) (read_config env None st)
      else read_all_config env (cm_mode c) st)"

section \<open>Updating\<close>

definition sync_step :: "main_env \<Rightarrow> command \<Rightarrow> prog \<Rightarrow> step" where
  "sync_step env c st =
     (if \<not> cm_sync c then Some (Inr st)
      else if conf_get_changed (p_k st) \<and> (case sys_getenv (me_sys env) ''KCONFIG_NOSILENTUPDATE'' of None \<Rightarrow> False | Some v \<Rightarrow> v \<noteq> []) then
        leave 1 st
      else Some (Inr (st\<lparr>p_ask := (p_ask st)\<lparr>a_valid := e_tty (me_ask env)\<rparr>\<rparr>)))"

text \<open>One call of \<open>conf_set_all_new_symbols\<close>, with \<open>has_changed\<close>.\<close>

definition set_new :: "main_env \<Rightarrow> conf_def_mode \<Rightarrow> prog \<Rightarrow> ((nat \<times> prog) + bool \<times> prog) option" where
  "set_new env mode st =
     (case conf_set_all_new_symbols (e_n env) (\<lambda>i. me_rnd env (p_rand st + i)) mode (sys_getenv (me_sys env) ''KCONFIG_PROBABILITY'') (p_k st) of
        None \<Rightarrow> None
      | Some None \<Rightarrow> Some (Inl (1, st))
      | Some (Some ns) \<Rightarrow> Some (Inr (n_changed ns, (with_pk (n_k ns) st)\<lparr>p_rand := p_rand st + n_rand ns\<rparr>)))"

definition set_new_once :: "main_env \<Rightarrow> conf_def_mode \<Rightarrow> prog \<Rightarrow> step" where
  "set_new_once env mode st = map_option (map_sum id snd) (set_new env mode st)"

fun set_new_loop :: "nat \<Rightarrow> main_env \<Rightarrow> prog \<Rightarrow> step" where
  "set_new_loop 0 env st = None"
| "set_new_loop (Suc b) env st =
     (case set_new env def_random st of
        None \<Rightarrow> None
      | Some (Inl r) \<Rightarrow> Some (Inl r)
      | Some (Inr (changed, st1)) \<Rightarrow> if changed then set_new_loop b env st1 else Some (Inr st1))"

definition ask_step :: "main_env \<Rightarrow> prog \<Rightarrow> step" where
  "ask_step env st =
     (case ask_all (me_loops env) (me_ask env) (p_ask st) of
        None \<Rightarrow> None
      | Some (Inl a) \<Rightarrow> leave 1 (st\<lparr>p_ask := a\<rparr>)
      | Some (Inr (_, a)) \<Rightarrow> Some (Inr (st\<lparr>p_ask := a\<rparr>)))"

fun update_step :: "main_env \<Rightarrow> input_mode \<Rightarrow> prog \<Rightarrow> step" where
  "update_step env allnoconfig st = set_new_once env def_no st"
| "update_step env allyesconfig st = set_new_once env def_yes st"
| "update_step env allmodconfig st = set_new_once env def_mod st"
| "update_step env alldefconfig st = set_new_once env def_default st"
| "update_step env randconfig st = set_new_loop (me_loops env) env st"
| "update_step env defconfig st = set_new_once env def_default st"
| "update_step env savedefconfig st = Some (Inr st)"
| "update_step env mode st = ask_step env st"

section \<open>Writing\<close>

text \<open>What is written is not part of the standard output, but the message after it is.\<close>

definition after_writing :: "prog \<Rightarrow> wstate \<Rightarrow> files \<Rightarrow> prog" where
  "after_writing st w fs = st\<lparr>p_ask := (p_ask st)\<lparr>a_w := w\<lparr>w_out := w_out (a_w (p_ask st))\<rparr>\<rparr>, p_fs := fs\<rparr>"

definition written_message :: "out_env \<Rightarrow> string" where
  "written_message e = conf_message (''configuration written to '' @ new_name e None)"

definition write_config :: "main_env \<Rightarrow> prog \<Rightarrow> (nat \<times> prog) option" where
  "write_config env st = do {
     (r, w, fs) \<leftarrow> conf_write (e_n env) (e_menus (me_ask env)) (e_prefix (me_ask env)) (out_env_of (me_sys env)) None (a_w (p_ask st)) (p_fs st);
     let st1 = after_writing st w fs;
     Some (r, if r = 0 then say (written_message (out_env_of (me_sys env))) st1 else st1) }"

definition write_autoconf :: "main_env \<Rightarrow> prog \<Rightarrow> (nat \<times> prog) option" where
  "write_autoconf env st = do {
     (r, k, fs, t) \<leftarrow> conf_write_autoconf (e_n env) (e_prefix (me_ask env)) (me_sys env) (menu_get_prompt (a_w (p_ask st)) rootmenu)
         (me_files env) (me_env_list env) (p_k st) (p_fs st) (p_tree st);
     Some (r, (with_pk k st)\<lparr>p_fs := fs, p_tree := t\<rparr>) }"

text \<open>None also for \<open>fopen\<close> of NULL.\<close>

definition write_defconfig :: "main_env \<Rightarrow> string option \<Rightarrow> prog \<Rightarrow> (nat \<times> prog) option" where
  "write_defconfig env file st = do {
     f \<leftarrow> file;
     if \<not> sys_writable (me_sys env) f then Some (1, st)
     else do {
       w \<leftarrow> conf_write_defconfig (e_n env) (e_menus (me_ask env)) (e_prefix (me_ask env)) (a_w (p_ask st));
       Some (0, after_writing st w ((p_fs st)(f \<mapsto> w_out w))) } }"

definition ending :: "(nat \<times> prog) option \<Rightarrow> step" where
  "ending m = (case m of None \<Rightarrow> None | Some (r, st) \<Rightarrow> leave (if r \<noteq> 0 then 1 else 0) st)"

text \<open>The mode is the one that the front end has left.\<close>

definition write_step :: "main_env \<Rightarrow> command \<Rightarrow> prog \<Rightarrow> step" where
  "write_step env c st =
     (if cm_sync c then do {
        (r, st1) \<leftarrow> (if conf_get_changed (p_k st) then write_config env st else Some (0, st));
        if r \<noteq> 0 then leave 1 st1 else ending (write_autoconf env st1) }
      else if a_mode (p_ask st) = savedefconfig then ending (write_defconfig env (cm_file c) st)
      else if a_mode (p_ask st) \<noteq> listnewconfig then ending (write_config env st)
      else leave 0 st)"

section \<open>main\<close>

text \<open>From the end of the parse on.\<close>

definition run_mode :: "main_env \<Rightarrow> command \<Rightarrow> prog \<Rightarrow> step" where
  "run_mode env c st =
     (if cm_sync c \<and> \<not> can_stat (me_sys env) (p_fs st) (conf_get_configname (me_sys env)) then leave 1 st
      else next_step (read_step env c st) (\<lambda>st1.
           next_step (sync_step env c st1) (\<lambda>st2.
           next_step (update_step env (cm_mode c) st2) (write_step env c))))"

definition start_prog :: "command \<Rightarrow> pstate \<Rightarrow> string list \<Rightarrow> files \<Rightarrow> tree_fs \<Rightarrow> prog" where
  "start_prog c st inp fs t =
     \<lparr>p_ask = \<lparr>a_w = \<lparr>w_k = ps_k st, w_menus = ps_menus st, w_out = []\<rparr>, a_in = inp, a_line = [], a_indent = 1, a_mode = cm_mode c,
        a_valid = True, a_cnt = 0, a_root = None, a_eof = 0\<rparr>, p_fs = fs, p_tree = t, p_rand = 0\<rparr>"

text \<open>What \<open>main\<close> leaves: its status, its standard output, the files and the directories of \<open>include/config\<close>.\<close>

record outcome =
  out_status :: nat
  out_text :: string
  out_files :: files
  out_tree :: tree_fs

definition outcome_of :: "nat \<times> prog \<Rightarrow> outcome" where
  "outcome_of r = \<lparr>out_status = fst r, out_text = w_out (a_w (p_ask (snd r))), out_files = p_fs (snd r), out_tree = p_tree (snd r)\<rparr>"

text \<open>
  The arguments are the options and, unless it is missing, the name of the first configuration file, which has been read
  as \<open>head\<close> and \<open>ss\<close>.
\<close>

definition conf_main ::
  "main_env \<Rightarrow> nat \<Rightarrow> string \<Rightarrow> string \<Rightarrow> cmd_option list \<Rightarrow> string option \<Rightarrow> (pos \<times> string) option \<Rightarrow> stmt list \<Rightarrow>
     pstate \<Rightarrow> string list \<Rightarrow> files \<Rightarrow> tree_fs \<Rightarrow> outcome option"
where
  "conf_main env d release progname opts kf head ss st inp fs t =
     (let failed = (\<lambda>txt. Some \<lparr>out_status = 1, out_text = txt, out_files = fs, out_tree = t\<rparr>) in
      case read_options opts of
        None \<Rightarrow> failed (conf_usage progname)
      | Some c \<Rightarrow>
          (case kf of
             None \<Rightarrow> failed (progname @ '': Kconfig file missing'' @ newline @ conf_usage progname)
           | Some name \<Rightarrow>
               (case conf_parse (me_loops env) (e_n env) d (sys_getenv (me_sys env)) release (name, 1) head ss st of
                  None \<Rightarrow> None
                | Some (Inl _) \<Rightarrow> failed []
                | Some (Inr (st1, _)) \<Rightarrow>
                    (case run_mode (env\<lparr>me_defconfig := ps_defconfig_list st1, me_env_list := ps_env_list st1\<rparr>) c (start_prog c st1 inp fs t) of
                       None \<Rightarrow> None
                     | Some (Inl r) \<Rightarrow> Some (outcome_of r)
                     | Some (Inr st2) \<Rightarrow> Some (outcome_of (0, st2))))))"

end
