(* ===== verification/Kc_Files_Props.thy ===== *)
theory Kc_Files_Props
  imports Kc_Files
begin

text \<open>
  The files after a run: when auto.conf is new, which name the file of dependencies gets, and the list of files.
\<close>

section \<open>auto.conf\<close>

lemma rename_other: "rename_file env a b fs = Some fs' \<Longrightarrow> f \<noteq> a \<Longrightarrow> f \<noteq> b \<Longrightarrow> fs' f = fs f"
  by (auto simp: rename_file_def split: if_splits)

lemma rename_target: "rename_file env a b fs = Some fs' \<Longrightarrow> fs' b = fs a"
  by (auto simp: rename_file_def split: if_splits)

definition dep_names :: "sys \<Rightarrow> string list" where
  "dep_names sys = [config_dir sys @ ''..config.tmp'', config_dir sys @ config_dir sys @ ''.config.cmd'']"

text \<open>The names of the files of \<open>conf_write_autoconf\<close> are different.\<close>

definition names_apart :: "sys \<Rightarrow> string \<Rightarrow> bool" where
  "names_apart sys name \<longleftrightarrow>
     distinct [name, header_name sys, tristate_name sys, auto_file sys [], auto_file sys ''_tristate'', auto_file sys ''.h''] \<and>
     name \<notin> set (dep_names sys)"

lemma write_dep_other:
  assumes "file_write_dep sys l es (Some (config_dir sys @ ''.config.cmd'')) st fs = Some (r, fs')" and "f \<notin> set (dep_names sys)"
  shows "fs' f = fs f"
  using assms by (auto simp: file_write_dep_def Let_def dep_names_def rename_other split: if_splits option.splits Option.bind_splits)

lemma open_texts_other:
  assumes "open_texts sys fs = (b, fs')" and "f \<notin> {auto_file sys [], auto_file sys ''_tristate'', auto_file sys ''.h''}"
  shows "fs' f = fs f"
  using assms by (auto simp: open_texts_def Let_def split: if_splits)

lemma move_texts_result:
  assumes "names_apart sys name" and "move_texts sys name fs = (r, fs')"
  shows "r \<noteq> 0 \<Longrightarrow> fs' name = fs name"
    and "r = 0 \<Longrightarrow> fs' name = fs (auto_file sys []) \<and> fs' (header_name sys) = fs (auto_file sys ''.h'') \<and>
      fs' (tristate_name sys) = fs (auto_file sys ''_tristate'')"
  using assms
  by (auto simp: move_texts_def names_apart_def rename_other rename_target split: option.splits)

text \<open>
  A new auto.conf marks the end of \<open>conf_write_autoconf\<close>: when it fails, at whatever point, auto.conf is as it was; when it
  succeeds, auto.conf, the header and the file of tristate values hold the texts for one and the same state.
\<close>

lemma autoconf_marks_completion:
  assumes "conf_write_autoconf n pre sys title l es st fs t = Some (r, st', fs', t')"
    and "conf_get_autoconfig_name sys = Some name" and "names_apart sys name"
  shows "(r \<noteq> 0 \<longrightarrow> fs' name = fs name) \<and>
    (r = 0 \<longrightarrow> (\<exists>k tx. conf_write_autoconf_texts n pre title k = Some (st', tx) \<and> fs' name = Some (at_conf tx) \<and>
       fs' (header_name sys) = Some (at_header tx) \<and> fs' (tristate_name sys) = Some (at_tristate tx)))"
proof -
  obtain st1 r0 fs1 r1 st2 t1 where 1: "sym_clear_all_valid n st = Some st1"
    "file_write_dep sys l es (Some (config_dir sys @ ''.config.cmd'')) st1 fs = Some (r0, fs1)"
    "conf_split_config n pre (zconf_fopen sys fs1 name) (sys_enter sys name) (no_counts st1) t = Some (r1, st2, t1)"
    using assms(1,2) by (auto simp: conf_write_autoconf_def split: Option.bind_splits)
  have old: "fs1 name = fs name" using write_dep_other[OF 1(2)] assms(3) by (simp add: names_apart_def)
  have apart: "name \<notin> {auto_file sys [], auto_file sys ''_tristate'', auto_file sys ''.h''}" using assms(3) by (auto simp: names_apart_def)
  show ?thesis
  proof (cases "r1 = 0")
    case False
    then have "r = 1" "fs' = fs1" using assms(1,2) 1 by (simp_all add: conf_write_autoconf_def)
    then show ?thesis using old by simp
  next
    case True
    obtain b fs2 where o: "open_texts sys fs1 = (b, fs2)" by (cases "open_texts sys fs1")
    have old2: "fs2 name = fs name" using open_texts_other[OF o apart] old by simp
    show ?thesis
    proof (cases b)
      case False
      then have "r = 1" "fs' = fs2" using assms(1,2) 1 True o by (simp_all add: conf_write_autoconf_def)
      then show ?thesis using old2 by simp
    next
      case b: True
      obtain st3 tx where x: "conf_write_autoconf_texts n pre title st2 = Some (st3, tx)"
        using assms(1,2) 1 True o b by (auto simp: conf_write_autoconf_def split: Option.bind_splits)
      define fs3 where "fs3 = fs2(auto_file sys [] \<mapsto> at_conf tx, auto_file sys ''_tristate'' \<mapsto> at_tristate tx, auto_file sys ''.h'' \<mapsto> at_header tx)"
      have m: "move_texts sys name fs3 = (r, fs')" "st' = st3"
        using assms(1,2) 1 True o b x by (auto simp: conf_write_autoconf_def fs3_def split: prod.splits)
      have f3: "fs3 name = fs name" "fs3 (auto_file sys []) = Some (at_conf tx)" "fs3 (auto_file sys ''_tristate'') = Some (at_tristate tx)"
        "fs3 (auto_file sys ''.h'') = Some (at_header tx)"
        using old2 assms(3) by (auto simp: fs3_def names_apart_def)
      show ?thesis using move_texts_result[OF assms(3) m(1)] f3 x m(2) by auto
    qed
  qed
qed

section \<open>The file of dependencies\<close>

text \<open>
  C20: \<open>conf_write_autoconf\<close> asks for the file .config.cmd beside the configuration, but \<open>file_write_dep\<close> puts the directory of
  the configuration in front of the name once more: in a directory of its own the configuration never gets the file.
  When the name with two directories does not exist, the text stays in the temporary file, and the result is 0 all the same.
\<close>

theorem dependency_file_is_misplaced:
  assumes "config_dir sys \<noteq> []" and "sys_writable sys (config_dir sys @ ''..config.tmp'')" and "dep_text sys l es st = Some text"
  shows "\<exists>fs'. file_write_dep sys l es (Some (config_dir sys @ ''.config.cmd'')) st fs = Some (0, fs') \<and>
    fs' (config_dir sys @ ''.config.cmd'') = fs (config_dir sys @ ''.config.cmd'') \<and>
    (if sys_movable sys (config_dir sys @ ''..config.tmp'') (config_dir sys @ config_dir sys @ ''.config.cmd'')
     then fs' (config_dir sys @ config_dir sys @ ''.config.cmd'') = Some text
     else fs' (config_dir sys @ ''..config.tmp'') = Some text)"
proof -
  let ?a = "config_dir sys @ ''..config.tmp''" and ?b = "config_dir sys @ config_dir sys @ ''.config.cmd''"
  have "last ''..config.tmp'' \<noteq> last ''.config.cmd''" by simp
  then have "?a \<noteq> ?b" using last_appendR[of "''..config.tmp''" "config_dir sys"] last_appendR[of "''.config.cmd''" "config_dir sys @ config_dir sys"] by auto
  moreover have "config_dir sys @ ''.config.cmd'' \<noteq> ?a" by simp
  moreover have "config_dir sys @ ''.config.cmd'' \<noteq> ?b" using assms(1) by simp
  ultimately show ?thesis
    using assms(2,3) by (auto simp: file_write_dep_def Let_def rename_file_def out_env_of_def)
qed

section \<open>The list of files\<close>

text \<open>
  A name without a dollar sign has one entry in the list, however often it is looked up; one with a dollar sign gets a
  new entry every time, as its expansion is stored but the name is compared.
\<close>

theorem file_lookup_interns:
  assumes "file_lookup calc name l st = Some (f, l', st')" and "distinct l"
  shows "if CHR ''$'' \<notin> set name then f = name \<and> distinct l' \<and> set l' = insert name (set l) \<and> st' = st \<and>
      file_lookup calc name l' st' = Some (name, l', st')
    else (\<forall>g\<in>set l. CHR ''$'' \<notin> set g) \<longrightarrow> l' = f # l"
proof (cases "CHR ''$'' \<in> set name")
  case False
  then show ?thesis using assms expand_plain[OF False] by (auto simp: file_lookup_def split: if_splits)
next
  case True
  then show ?thesis using assms(1) by (auto simp: file_lookup_def split: Option.bind_splits if_splits)
qed

section \<open>An example\<close>

definition outside_sys :: sys where
  "outside_sys = \<lparr>sys_getenv = (\<lambda>v. if v = ''BR2_CONFIG'' then Some ''output/.config'' else None), sys_is_dir = (\<lambda>_. False),
     sys_pid = 7, sys_writable = (\<lambda>_. True), sys_movable = (\<lambda>_ b. b \<noteq> ''output/output/.config.cmd''), sys_enter = (\<lambda>_. True)\<rparr>"

theorem dependency_file_is_misplaced_witness:
  "\<exists>fs' tx. file_write_dep outside_sys [''Config.in''] [] (Some ''output/.config.cmd'') example_state (\<lambda>_. None) = Some (0, fs') \<and>
     fs' ''output/.config.cmd'' = None \<and> fs' ''output/..config.tmp'' = Some tx"
proof -
  have d: "config_dir outside_sys = ''output/''" by (simp add: config_dir_def conf_get_configname_def outside_sys_def up_to_slash_def)
  obtain tx where t: "dep_text outside_sys [''Config.in''] [] example_state = Some tx" by (simp add: dep_text_def)
  show ?thesis
    using dependency_file_is_misplaced[OF _ _ t, of "\<lambda>_. None"] d by (auto simp: outside_sys_def)
qed

end
