(* ===== verification/Kc_Main_Props.thy ===== *)
theory Kc_Main_Props
  imports Kc_Main Kc_Files_Props
begin

text \<open>What \<open>main\<close> promises about the files: when it writes, and what a status of 0 means.\<close>

section \<open>The front end keeps the mode\<close>

definition in_mode :: "(input_mode \<Rightarrow> bool) \<Rightarrow> 'a run \<Rightarrow> bool" where
  "in_mode md m \<longleftrightarrow> (\<forall>a st. m = Some (Inr (a, st)) \<longrightarrow> md (a_mode st))"

named_theorems modes \<open>parts of the front end that keep the mode\<close>

lemma mode_None [simp]: "in_mode md None" and mode_Inl [simp]: "in_mode md (Some (Inl r))"
  by (simp_all add: in_mode_def)

lemma mode_go [simp]: "in_mode md (go a st) \<longleftrightarrow> md (a_mode st)"
  by (simp add: in_mode_def go_def)

lemma mode_then [modes]: "in_mode md m \<Longrightarrow> (\<And>a st. md (a_mode st) \<Longrightarrow> in_mode md (f a st)) \<Longrightarrow> in_mode md (and_then m f)"
  by (auto simp: and_then_def in_mode_def split: option.splits sum.splits)

lemma mode_then_any: "(\<And>a st. in_mode md (f a st)) \<Longrightarrow> in_mode md (and_then m f)"
  by (auto simp: and_then_def in_mode_def split: option.splits sum.splits)

lemma mode_put [simp]: "a_mode (put t st) = a_mode st" "a_mode (own_prompt_line st a) = a_mode st" "a_mode (heading a st) = a_mode st"
  "a_mode (xfgets st) = a_mode st" "a_mode (ask_line env st) = a_mode st"
  by (simp_all add: put_def on_w_def own_prompt_line_def heading_def xfgets_def ask_line_def split: option.split list.split)

lemma mode_run_w [modes]: "md (a_mode st) \<Longrightarrow> in_mode md (run_w f st)"
  by (auto simp: run_w_def split: option.split)

lemma mode_run_k [modes]: "md (a_mode st) \<Longrightarrow> in_mode md (run_k f st)"
  unfolding run_k_def by (rule mode_run_w)

lemma mode_visible [modes]: "md (a_mode st) \<Longrightarrow> in_mode md (is_visible env a st)"
  unfolding is_visible_def by (rule mode_run_w)

lemma mode_help [modes]: "md (a_mode st) \<Longrightarrow> in_mode md (print_help env a st)"
  by (auto simp: print_help_def split: option.split)

lemma mode_stdin [modes]: "md (a_mode st) \<Longrightarrow> in_mode md (check_stdin st)"
  by (simp add: check_stdin_def)

lemma mode_askvalue [modes]: "md (a_mode st) \<Longrightarrow> in_mode md (conf_askvalue env s def st)"
  by (auto simp: conf_askvalue_def Let_def intro!: modes)

lemma mode_string_question [modes]: "md (a_mode st) \<Longrightarrow> in_mode md (string_question env a s st)"
  by (auto simp: string_question_def Let_def intro!: modes)

lemma mode_string [modes]: "md (a_mode st) \<Longrightarrow> in_mode md (conf_string n env a s st)"
proof (induction n arbitrary: st)
  case (Suc n)
  then show ?case by (auto simp: Let_def split: option.split intro!: modes Suc.IH)
qed simp

lemma mode_sym [modes]: "md (a_mode st) \<Longrightarrow> in_mode md (conf_sym n env a s st)"
proof (induction n arbitrary: st)
  case (Suc n)
  then show ?case by (auto simp: Let_def split: answer.split intro!: modes Suc.IH)
qed simp

lemma mode_list [modes]: "md (a_mode st) \<Longrightarrow> in_mode md (list_values n env d ch c st)"
proof (induction n arbitrary: ch c st)
  case (Suc n)
  then show ?case by (auto simp: Let_def split: option.split intro!: modes Suc.IH)
qed simp

lemma mode_pick [modes]: "md (a_mode st) \<Longrightarrow> in_mode md (pick_value n env ch cnt st)"
proof (induction n arbitrary: ch cnt st)
  case (Suc n)
  then show ?case by (auto split: option.split intro!: modes Suc.IH)
qed simp

lemma mode_number [modes]: "md (a_mode st) \<Longrightarrow> in_mode md (read_number env a d st)"
  by (auto simp: read_number_def Let_def intro!: modes)

lemma mode_choice_number [modes]: "md (a_mode st) \<Longrightarrow> in_mode md (choice_number env a b c st)"
  by (auto simp: choice_number_def Let_def split: prod.split intro!: modes)

lemma mode_indented: "(\<And>st1. md (a_mode st1) \<Longrightarrow> in_mode md (f st1)) \<Longrightarrow> md (a_mode st) \<Longrightarrow> in_mode md (indented b st f)"
  by (auto simp: indented_def intro!: modes)

lemma mode_walk: "md (a_mode st) \<Longrightarrow> in_mode md (walk n env t st)"
proof (induction n arbitrary: t st)
  case (Suc n)
  note IH = Suc.IH
  have c: "in_mode md (conf_choice n env (walk n env) a s st)" if "md (a_mode st)" for a s st
    unfolding conf_choice_def Let_def using that by (auto split: tristate.split intro!: modes IH)
  have k: "in_mode md (indented b st (walk n env t'))" if "md (a_mode st)" for b t' st by (rule mode_indented) (use that IH in auto)
  show ?case
  proof (cases t)
    case (Conf a)
    show ?thesis unfolding Conf walk.simps task.case conf_body_def Let_def
      by (rule modes Suc.prems)+ (auto split: option.split intro!: modes IH c k)
  next
    case (Confs b ch)
    then show ?thesis using Suc.prems by (auto simp: confs_body_def split: option.split intro!: modes IH k)
  next
    case (Choose a s is_new)
    show ?thesis unfolding Choose walk.simps task.case choose_body_def Let_def
      by (intro modes) (auto simp: Suc.prems split: option.split intro!: modes IH)
  next
    case (Check a)
    have "in_mode md (ask_if_new env (walk n env) a s st)" if "md (a_mode st)" for s st
      unfolding ask_if_new_def Let_def using that by (auto split: option.split intro!: IH)
    then show ?thesis using Check Suc.prems by (auto simp: check_body_def split: option.split intro!: modes IH)
  next
    case (Checks ch)
    then show ?thesis using Suc.prems by (auto simp: checks_body_def split: option.split intro!: modes IH)
  qed
qed simp

lemma mode_update: "md (a_mode st) \<Longrightarrow> in_mode md (update_loop n env st)"
proof (induction n arbitrary: st)
  case (Suc n)
  then show ?case by (auto simp: check_conf_def intro!: modes mode_walk Suc.IH)
qed simp

lemma mode_ask_all: "in_mode (\<lambda>m. m = (if a_mode st = oldaskconfig then silentoldconfig else a_mode st)) (ask_all n env st)"
proof (cases "a_mode st = oldaskconfig")
  case True
  have "in_mode (\<lambda>m. m = silentoldconfig) (and_then (conf_entry n env rootmenu (st\<lparr>a_root := Some rootmenu\<rparr>))
      (\<lambda>_ st1. update_loop n env (st1\<lparr>a_mode := silentoldconfig\<rparr>)))"
    by (rule mode_then_any, rule mode_update) simp
  then show ?thesis using True by (simp add: ask_all_def)
next
  case False
  then show ?thesis using mode_update[where md = "\<lambda>m. m = a_mode st" and st = st] by (simp add: ask_all_def)
qed

section \<open>The steps of main\<close>

text \<open>A step that leaves the files alone, whether the program goes on, in the given mode, or ends.\<close>

definition idle :: "prog \<Rightarrow> step \<Rightarrow> bool" where
  "idle st m \<longleftrightarrow> (\<forall>st'. (m = Some (Inr st') \<or> (\<exists>r. m = Some (Inl (r, st')))) \<longrightarrow> p_fs st' = p_fs st \<and> p_tree st' = p_tree st)"

definition goes_on :: "input_mode \<Rightarrow> step \<Rightarrow> bool" where
  "goes_on md m \<longleftrightarrow> (\<forall>st'. m = Some (Inr st') \<longrightarrow> a_mode (p_ask st') = md)"

lemma prog_simps [simp]:
  "p_fs (say t st) = p_fs st" "p_tree (say t st) = p_tree st" "a_mode (p_ask (say t st)) = a_mode (p_ask st)"
  "p_fs (with_pk k st) = p_fs st" "p_tree (with_pk k st) = p_tree st" "a_mode (p_ask (with_pk k st)) = a_mode (p_ask st)"
  by (simp_all add: say_def with_pk_def on_w_def)

lemma read_config_same: "read_config env name st = Some (r, st') \<Longrightarrow> p_fs st' = p_fs st \<and> p_tree st' = p_tree st \<and> a_mode (p_ask st') = a_mode (p_ask st)"
  and read_seed_same: "read_seed env f st = Some (r, st') \<Longrightarrow> p_fs st' = p_fs st \<and> p_tree st' = p_tree st \<and> a_mode (p_ask st') = a_mode (p_ask st)"
  by (auto simp: read_config_def read_seed_def split: Option.bind_splits)

lemma read_step_idle: "idle st (read_step env c st)" "goes_on (a_mode (p_ask st)) (read_step env c st)"
proof -
  have d: "idle st (read_default env f st) \<and> goes_on (a_mode (p_ask st)) (read_default env f st)" for f
    by (auto simp: read_default_def idle_def goes_on_def leave_def split: Option.bind_splits if_splits dest!: read_config_same)
  have a: "idle st (read_all_config env md st) \<and> goes_on (a_mode (p_ask st)) (read_all_config env md st)" for md
    by (auto simp: read_all_config_def idle_def goes_on_def leave_def split: option.splits Option.bind_splits if_splits dest!: read_seed_same)
  have n: "idle st (map_option (\<lambda>r. Inr (snd r)) (read_config env None st)) \<and> goes_on (a_mode (p_ask st)) (map_option (\<lambda>r. Inr (snd r)) (read_config env None st))"
    by (auto simp: idle_def goes_on_def dest!: read_config_same)
  show "idle st (read_step env c st)" "goes_on (a_mode (p_ask st)) (read_step env c st)"
    using d a n by (simp_all add: read_step_def)
qed

lemma sync_step_idle: "idle st (sync_step env c st)" "goes_on (a_mode (p_ask st)) (sync_step env c st)"
  by (auto simp: sync_step_def idle_def goes_on_def leave_def)

lemma set_new_same: "set_new env md st = Some (Inl (r, st')) \<or> set_new env md st = Some (Inr (b, st')) \<Longrightarrow>
    p_fs st' = p_fs st \<and> p_tree st' = p_tree st \<and> a_mode (p_ask st') = a_mode (p_ask st)"
  by (auto simp: set_new_def split: option.splits)

text \<open>Both.\<close>

definition plain :: "input_mode \<Rightarrow> prog \<Rightarrow> step \<Rightarrow> bool" where
  "plain md st m \<longleftrightarrow> idle st m \<and> goes_on md m"

lemma plain_simps [simp]: "plain md st None" "plain md st (Some (Inl (r, st'))) \<longleftrightarrow> p_fs st' = p_fs st \<and> p_tree st' = p_tree st"
  "plain md st (Some (Inr st')) \<longleftrightarrow> p_fs st' = p_fs st \<and> p_tree st' = p_tree st \<and> a_mode (p_ask st') = md"
  by (auto simp: plain_def idle_def goes_on_def)

lemma set_once_plain: "plain (a_mode (p_ask st)) st (set_new_once env md st)"
proof (cases "set_new env md st")
  case (Some x)
  show ?thesis
  proof (cases x)
    case (Inl r)
    then show ?thesis using Some set_new_same[of env md st "fst r" "snd r"] by (cases r) (simp add: set_new_once_def)
  next
    case (Inr y)
    then show ?thesis using Some set_new_same[of env md st _ "snd y" "fst y"] by (simp add: set_new_once_def)
  qed
qed (simp add: set_new_once_def)

lemma set_loop_plain: "plain (a_mode (p_ask st)) st (set_new_loop b env st)"
proof (induction b arbitrary: st)
  case (Suc b)
  show ?case
  proof (cases "set_new env def_random st")
    case (Some x)
    show ?thesis
    proof (cases x)
      case (Inl r)
      then show ?thesis using Some set_new_same[of env def_random st "fst r" "snd r"] by (cases r) simp
    next
      case (Inr y)
      obtain ch st1 where y: "y = (ch, st1)" by (cases y)
      have "p_fs st1 = p_fs st \<and> p_tree st1 = p_tree st \<and> a_mode (p_ask st1) = a_mode (p_ask st)"
        using set_new_same[of env def_random st _ st1 ch] Some Inr y by auto
      then show ?thesis using Suc[of st1] Some Inr y by (simp add: plain_def idle_def goes_on_def)
    qed
  qed simp
qed simp

lemma ask_step_plain: "plain (if a_mode (p_ask st) = oldaskconfig then silentoldconfig else a_mode (p_ask st)) st (ask_step env st)"
  using mode_ask_all[of "p_ask st" "me_loops env" "me_ask env"]
  by (auto simp: ask_step_def leave_def in_mode_def split: option.splits sum.splits)

definition final_mode :: "input_mode \<Rightarrow> input_mode" where
  "final_mode md = (if md = oldaskconfig then silentoldconfig else md)"

lemma update_step_plain:
  assumes "a_mode (p_ask st) = md"
  shows "plain (final_mode md) st (update_step env md st)"
proof -
  have "plain (final_mode md) st (set_new_once env d st)" "plain (final_mode md) st (set_new_loop b env st)" if "md \<noteq> oldaskconfig" for d b
    using set_once_plain[of st env d] set_loop_plain[of st b env] assms that by (simp_all add: final_mode_def)
  note u = this
  have a: "plain (final_mode md) st (ask_step env st)" using ask_step_plain[of st env] unfolding assms final_mode_def .
  show ?thesis by (cases md) (use u a assms in \<open>simp_all add: final_mode_def\<close>)
qed

text \<open>A run ends before the writing, with the files untouched, or with what is written from a state with the same files.\<close>

lemma plain_read: "plain (a_mode (p_ask st)) st (read_step env c st)" and plain_sync: "plain (a_mode (p_ask st)) st (sync_step env c st)"
  using read_step_idle[of st env c] sync_step_idle[of st env c] by (simp_all add: plain_def)

lemma map_sum_Inl: "map_sum id f x = Inl r \<Longrightarrow> (x = Inl r \<Longrightarrow> P) \<Longrightarrow> P"
  by (cases x) simp_all

lemma leaves_with_1: "read_step env c st = Some (Inl (r, st')) \<Longrightarrow> r = 1" "sync_step env c st = Some (Inl (r, st')) \<Longrightarrow> r = 1"
  "update_step env md st = Some (Inl (r, st')) \<Longrightarrow> r = 1"
proof -
  have n: "set_new env d st = Some (Inl (r, st')) \<Longrightarrow> r = 1" for d st by (auto simp: set_new_def split: option.splits)
  have l: "set_new_loop b env st = Some (Inl (r, st')) \<Longrightarrow> r = 1" for b st
    by (induction b arbitrary: st) (auto dest: n split: option.splits sum.splits if_splits)
  show "read_step env c st = Some (Inl (r, st')) \<Longrightarrow> r = 1"
    by (auto simp: read_step_def read_default_def read_all_config_def leave_def split: Option.bind_splits if_splits option.splits)
  show "sync_step env c st = Some (Inl (r, st')) \<Longrightarrow> r = 1" by (auto simp: sync_step_def leave_def split: if_splits)
  have o: "set_new_once env d st = Some (Inl (r, st')) \<Longrightarrow> r = 1" for d
    by (cases "set_new env d st") (auto simp: set_new_once_def dest: n elim!: map_sum_Inl)
  have a: "ask_step env st = Some (Inl (r, st')) \<Longrightarrow> r = 1" by (auto simp: ask_step_def leave_def split: option.splits sum.splits)
  show "update_step env md st = Some (Inl (r, st')) \<Longrightarrow> r = 1" by (cases md) (auto dest: o l a)
qed

lemma next_stepE:
  assumes "next_step m f = Some (Inl (r, st'))" and "plain md st m"
  obtains "m = Some (Inl (r, st'))" "p_fs st' = p_fs st" "p_tree st' = p_tree st"
    | st1 where "m = Some (Inr st1)" "p_fs st1 = p_fs st" "p_tree st1 = p_tree st" "a_mode (p_ask st1) = md" "f st1 = Some (Inl (r, st'))"
  using assms by (auto simp: next_step_def split: option.splits sum.splits)

lemma run_mode_cases:
  assumes "run_mode env c st = Some (Inl (r, st'))" and "a_mode (p_ask st) = cm_mode c"
  obtains "p_fs st' = p_fs st" "p_tree st' = p_tree st" "r = 1"
    | st1 where "p_fs st1 = p_fs st" "p_tree st1 = p_tree st" "a_mode (p_ask st1) = final_mode (cm_mode c)"
        "write_step env c st1 = Some (Inl (r, st'))"
proof (cases "cm_sync c \<and> \<not> can_stat (me_sys env) (p_fs st) (conf_get_configname (me_sys env))")
  case True
  then show thesis using assms(1) that(1) by (simp add: run_mode_def leave_def)
next
  case False
  then have m: "next_step (read_step env c st) (\<lambda>st1. next_step (sync_step env c st1) (\<lambda>st2.
      next_step (update_step env (cm_mode c) st2) (write_step env c))) = Some (Inl (r, st'))" using assms(1) by (simp only: run_mode_def if_False)
  show thesis
  proof (cases rule: next_stepE[OF m plain_read])
    case 1
    then show thesis using that(1) leaves_with_1(1) by blast
  next
    case (2 st1)
    show thesis
    proof (cases rule: next_stepE[OF 2(5) plain_sync])
      case 1
      then show thesis using that(1) leaves_with_1(2) 2 by simp
    next
      case b: (2 st2)
      have m2: "a_mode (p_ask st2) = cm_mode c" using b(4) 2(4) assms(2) by simp
      show thesis
      proof (cases rule: next_stepE[OF b(5) update_step_plain[OF m2]])
        case 1
        then show thesis using that(1) leaves_with_1(3) 2 b by simp
      next
        case (2 st3)
        then show thesis using that(2) b \<open>p_fs st1 = p_fs st\<close> \<open>p_tree st1 = p_tree st\<close> by simp
      qed
    qed
  qed
qed

section \<open>How it ends\<close>

lemma run_mode_ends: "run_mode env c st \<noteq> Some (Inr st')"
proof -
  have "write_step env c st1 \<noteq> Some (Inr st')" for st1
    by (auto simp: write_step_def ending_def leave_def split: Option.bind_splits option.splits if_splits)
  then show ?thesis by (auto simp: run_mode_def next_step_def leave_def split: option.splits sum.splits)
qed

lemma conf_write_result:
  assumes "conf_write n k pre env name w fs = Some (r, w', fs')" and "\<not> starts_with (snd (conf_target env name)) ''.tmpconfig.''"
  shows "r = 0 \<Longrightarrow> \<exists>w0. conf_text n k pre w = Some w0 \<and> fs' (new_name env name) = Some (w_out w0)"
    and "f \<notin> {new_name env name, old_name env name, tmp_name env name} \<Longrightarrow> fs' f = fs f"
  using assms(1) file_names[OF assms(2)]
  by (auto simp: conf_write_def Let_def rename_other rename_target split: if_splits option.splits Option.bind_splits)

lemma write_config_result:
  assumes "write_config env st = Some (r, st')" and "\<not> starts_with (snd (conf_target (out_env_of (me_sys env)) None)) ''.tmpconfig.''"
    and "e = out_env_of (me_sys env)"
  shows "r = 0 \<Longrightarrow> \<exists>w. conf_text (e_n env) (e_menus (me_ask env)) (e_prefix (me_ask env)) (a_w (p_ask st)) = Some w \<and>
      p_fs st' (new_name e None) = Some (w_out w)"
    and "f \<notin> {new_name e None, old_name e None, tmp_name e None} \<Longrightarrow> p_fs st' f = p_fs st f"
proof -
  obtain w fs where c: "conf_write (e_n env) (e_menus (me_ask env)) (e_prefix (me_ask env)) e None (a_w (p_ask st)) (p_fs st) = Some (r, w, fs)"
    "p_fs st' = fs" using assms(1,3) by (auto simp: write_config_def after_writing_def Let_def split: Option.bind_splits if_splits)
  note r = conf_write_result[OF c(1) assms(2)[folded assms(3)]]
  show "r = 0 \<Longrightarrow> \<exists>w. conf_text (e_n env) (e_menus (me_ask env)) (e_prefix (me_ask env)) (a_w (p_ask st)) = Some w \<and>
      p_fs st' (new_name e None) = Some (w_out w)"
    "f \<notin> {new_name e None, old_name e None, tmp_name e None} \<Longrightarrow> p_fs st' f = p_fs st f"
    using r c(2) by auto
qed

lemma run_success:
  assumes "run_mode env c st = Some (Inl (0, st'))" and "a_mode (p_ask st) = cm_mode c"
    and "\<not> cm_sync c" and "cm_mode c \<noteq> savedefconfig" and "cm_mode c \<noteq> listnewconfig"
    and "e = out_env_of (me_sys env)" and "\<not> starts_with (snd (conf_target e None)) ''.tmpconfig.''"
  shows "(\<exists>w w'. conf_text (e_n env) (e_menus (me_ask env)) (e_prefix (me_ask env)) w = Some w' \<and>
      p_fs st' (new_name e None) = Some (w_out w')) \<and>
    (\<forall>f. f \<notin> {new_name e None, old_name e None, tmp_name e None} \<longrightarrow> p_fs st' f = p_fs st f)"
proof (cases rule: run_mode_cases[OF assms(1,2)])
  case (2 st1)
  have "a_mode (p_ask st1) \<noteq> savedefconfig \<and> a_mode (p_ask st1) \<noteq> listnewconfig" using 2(3) assms(4,5) by (auto simp: final_mode_def)
  then have "ending (write_config env st1) = Some (Inl (0, st'))" using 2(4) assms(3) by (simp add: write_step_def)
  then have w: "write_config env st1 = Some (0, st')" by (auto simp: ending_def leave_def split: option.splits if_splits)
  note r = write_config_result[OF w assms(7)[unfolded assms(6)] assms(6)]
  show ?thesis using r(1) r(2) 2(1) by auto
qed simp

text \<open>
  C17: In the modes that make a configuration, a status of 0 means that it has been written: the file has the complete text
  of a configuration, and besides it only its backup and the temporary file can have changed.
\<close>

theorem success_means_written:
  assumes "run_mode env c st = Some (Inl (0, st'))" and "a_mode (p_ask st) = cm_mode c"
    and "\<not> cm_sync c" and "cm_mode c \<noteq> savedefconfig" and "cm_mode c \<noteq> listnewconfig"
    and "e = out_env_of (me_sys env)" and "\<not> starts_with (snd (conf_target e None)) ''.tmpconfig.''"
  shows "(\<exists>w w'. conf_text (e_n env) (e_menus (me_ask env)) (e_prefix (me_ask env)) w = Some w' \<and>
      p_fs st' (new_name e None) = Some (w_out w')) \<and>
    (\<forall>f. f \<notin> {new_name e None, old_name e None, tmp_name e None} \<longrightarrow> p_fs st' f = p_fs st f)"
  by (rule run_success[OF assms])

text \<open>
  C19: With the option silentoldconfig a new auto.conf marks success: with any other status than 0 it is as it was, with 0
  it is the text for a state together with the header and the file of tristate values.
\<close>

theorem sync_marks_completion:
  assumes "run_mode env c st = Some (Inl (r, st'))" and "a_mode (p_ask st) = cm_mode c" and "cm_sync c"
    and "e = out_env_of (me_sys env)" and "\<not> starts_with (snd (conf_target e None)) ''.tmpconfig.''"
    and "conf_get_autoconfig_name (me_sys env) = Some name" and "names_apart (me_sys env) name"
    and "name \<notin> {new_name e None, old_name e None, tmp_name e None}"
  shows "(r \<noteq> 0 \<longrightarrow> p_fs st' name = p_fs st name) \<and>
    (r = 0 \<longrightarrow> (\<exists>title k k' tx. conf_write_autoconf_texts (e_n env) (e_prefix (me_ask env)) title k = Some (k', tx) \<and>
       p_fs st' name = Some (at_conf tx) \<and> p_fs st' (header_name (me_sys env)) = Some (at_header tx) \<and>
       p_fs st' (tristate_name (me_sys env)) = Some (at_tristate tx)))"
proof (cases rule: run_mode_cases[OF assms(1,2)])
  case (2 st1)
  obtain r1 st2 where c: "(if conf_get_changed (p_k st1) then write_config env st1 else Some (0, st1)) = Some (r1, st2)"
    "(if r1 \<noteq> 0 then leave 1 st2 else ending (write_autoconf env st2)) = Some (Inl (r, st'))"
    using 2(4) assms(3) by (auto simp: write_step_def split: Option.bind_splits)
  have "p_fs st2 name = p_fs st1 name"
    using c(1) assms(8) write_config_result(2)[OF _ assms(5)[unfolded assms(4)] assms(4), of st1 r1 st2 name]
    by (auto split: if_splits)
  then have old: "p_fs st2 name = p_fs st name" using 2(1) by simp
  show ?thesis
  proof (cases "r1 = 0")
    case False
    then show ?thesis using c(2) old by (auto simp: leave_def)
  next
    case True
    then obtain r2 k fs2 t2 where a: "conf_write_autoconf (e_n env) (e_prefix (me_ask env)) (me_sys env) (menu_get_prompt (a_w (p_ask st2)) rootmenu)
       (me_files env) (me_env_list env) (p_k st2) (p_fs st2) (p_tree st2) = Some (r2, k, fs2, t2)" "r = (if r2 \<noteq> 0 then 1 else 0)" "p_fs st' = fs2"
      using c(2) by (auto simp: ending_def leave_def write_autoconf_def split: option.splits Option.bind_splits)
    from autoconf_marks_completion[OF a(1) assms(6,7)] show ?thesis using a(2,3) old by (auto split: if_splits)
  qed
qed simp

section \<open>Default values for the new symbols\<close>

text \<open>A configuration can be written to a file.\<close>

definition out_ready :: "out_env \<Rightarrow> bool" where
  "out_ready e \<longleftrightarrow>
     (if overwrites e then oe_writable e (new_name e None)
      else oe_writable e (tmp_name e None) \<and> oe_movable e (tmp_name e None) (new_name e None))"

lemma conf_write_ready:
  assumes "conf_text n k pre w = Some w1" and "out_ready e" and "\<not> starts_with (snd (conf_target e None)) ''.tmpconfig.''"
  shows "\<exists>w' fs'. conf_write n k pre e None w fs = Some (0, w', fs') \<and> w_k w' = sym_set_change_count 0 (w_k w1)"
proof (cases "overwrites e")
  case True
  with assms show ?thesis by (simp add: conf_write_def Let_def out_ready_def)
next
  case False
  define fs2 where "fs2 = (case rename_file e (new_name e None) (old_name e None) (fs(tmp_name e None \<mapsto> w_out w1)) of
      None \<Rightarrow> fs(tmp_name e None \<mapsto> w_out w1) | Some f \<Rightarrow> f)"
  have "fs2 (tmp_name e None) = Some (w_out w1)"
    using file_names[OF assms(3)] by (auto simp: fs2_def rename_file_def)
  then obtain fs3 where "rename_file e (tmp_name e None) (new_name e None) fs2 = Some fs3"
    using assms(2) False by (auto simp: rename_file_def out_ready_def)
  with assms False show ?thesis by (simp add: conf_write_def Let_def out_ready_def fs2_def[symmetric])
qed

lemma ask_step_runs:
  assumes "writable_state n k ts (a_w (p_ask st))" and "e_n env = n" and "e_menus (me_ask env) = k"
    and "a_mode (p_ask st) = olddefconfig" and "2 * length (preorder ts) + 1 < k" and "2 * length (preorder ts) + 2 < me_loops env"
  shows "\<exists>a. ask_step env st = Some (Inr (st\<lparr>p_ask := a\<rparr>)) \<and> a_in a = a_in (p_ask st) \<and> a_mode a = olddefconfig \<and>
    w_out (a_w a) = w_out (a_w (p_ask st)) \<and> writable_state n k ts (a_w a) \<and> extends (p_k st) (w_k (a_w a)) \<and>
    (clearable n (p_k st) \<longrightarrow> clearable n (w_k (a_w a)))"
proof -
  obtain b where b: "me_loops env = Suc b" "2 * length (preorder ts) + 1 < b" using assms(6) by (cases "me_loops env") auto
  obtain a where a: "update_loop (Suc b) (me_ask env) (p_ask st) = go () a" "listed (me_ask env) (Suc (length (preorder ts))) ((p_ask st)\<lparr>a_cnt := 0\<rparr>) a"
    "writable_state n k ts (a_w a)" "extends (p_k st) (w_k (a_w a))" "clearable n (p_k st) \<longrightarrow> clearable n (w_k (a_w a))"
    using update_loop_lists[OF assms(1) _ assms(3) _ assms(5) b(2)] assms(2,4) by (auto simp: e_n_def p_k_def)
  have f: "a = (p_ask st)\<lparr>a_cnt := 0, a_w := a_w a\<rparr>" using a(2) unfolding listed_def by simp
  have "a_in a = a_in (p_ask st)" "a_mode a = olddefconfig" by (subst f, simp add: assms(4))+
  moreover have "w_out (a_w a) = w_out (a_w (p_ask st))" using a(2) assms(4) unfolding listed_def by auto
  ultimately show ?thesis
    using a assms(4) b(1) by (intro exI[of _ a]) (simp add: ask_step_def ask_all_def go_def del: update_loop.simps)
qed

lemma olddefconfig_runs:
  assumes "read_config env None st = Some (r0, st1)" and "writable_state n k ts (a_w (p_ask st1))" and "clearable n (p_k st1)"
    and "e_n env = n" and "e_menus (me_ask env) = k" and "2 * length (preorder ts) + 1 < k" and "2 * length (preorder ts) + 2 < me_loops env"
    and "c = \<lparr>cm_mode = olddefconfig, cm_sync = False, cm_file = f\<rparr>" and "a_mode (p_ask st) = olddefconfig"
    and "e = out_env_of (me_sys env)" and "out_ready e" and "\<not> starts_with (snd (conf_target e None)) ''.tmpconfig.''"
  shows "\<exists>st' w w'. run_mode env c st = Some (Inl (0, st')) \<and> a_in (p_ask st') = a_in (p_ask st1) \<and>
    w_out (a_w (p_ask st')) = w_out (a_w (p_ask st1)) @ written_message e \<and> extends (p_k st1) (w_k w) \<and>
    conf_text n k (e_prefix (me_ask env)) w = Some w' \<and> p_fs st' (new_name e None) = Some (w_out w')"
proof -
  have m1: "a_mode (p_ask st1) = olddefconfig" using read_config_same[OF assms(1)] assms(9) by simp
  obtain a where a: "ask_step env st1 = Some (Inr (st1\<lparr>p_ask := a\<rparr>))" "a_in a = a_in (p_ask st1)" "a_mode a = olddefconfig"
    "w_out (a_w a) = w_out (a_w (p_ask st1))" "writable_state n k ts (a_w a)" "extends (p_k st1) (w_k (a_w a))" "clearable n (w_k (a_w a))"
    using ask_step_runs[OF assms(2,4,5) m1 assms(6,7)] assms(3) by blast
  obtain w' where w': "conf_text n k (e_prefix (me_ask env)) (a_w a) = Some w'"
    using conf_text_runs[OF a(5)] a(7) unfolding clearable_def table_bound_def by blast
  let ?st2 = "st1\<lparr>p_ask := a\<rparr>"
  obtain w2 fs2 where c: "conf_write n k (e_prefix (me_ask env)) e None (a_w a) (p_fs st1) = Some (0, w2, fs2)"
    using conf_write_ready[OF w' assms(11,12)] by blast
  have w: "write_config env ?st2 = Some (0, say (written_message e) (after_writing ?st2 w2 fs2))"
    using c assms(4,5,10) by (simp add: write_config_def)
  have r: "run_mode env c st = Some (Inl (0, say (written_message e) (after_writing ?st2 w2 fs2)))"
    using assms(1,8) a(1,3) w by (simp add: run_mode_def read_step_def sync_step_def next_step_def write_step_def ending_def leave_def)
  have "p_fs (say (written_message e) (after_writing ?st2 w2 fs2)) (new_name e None) = Some (w_out w')"
    using write_config_result(1)[OF w assms(12)[unfolded assms(10)] assms(10)] w' assms(4,5) by simp
  moreover have "a_in (p_ask (say (written_message e) (after_writing ?st2 w2 fs2))) = a_in (p_ask st1)"
    "w_out (a_w (p_ask (say (written_message e) (after_writing ?st2 w2 fs2)))) = w_out (a_w (p_ask st1)) @ written_message e"
    using a(2,4) by (simp_all add: say_def after_writing_def put_def on_w_def)
  ultimately show ?thesis using r a(6) w' by (intro exI conjI) (assumption | simp add: p_k_def)+
qed

text \<open>
  C18: In the mode olddefconfig the program ends with 0 whatever configuration has been read, as long as its state can be
  calculated and the file can be written: nothing of the input is read, the only output is the message, the file has
  the text for a state in which every value that was settled is as it was.
\<close>

theorem olddefconfig_writes:
  assumes "read_config env None st = Some (r0, st1)" and "writable_state n k ts (a_w (p_ask st1))" and "clearable n (p_k st1)"
    and "e_n env = n" and "e_menus (me_ask env) = k" and "2 * length (preorder ts) + 1 < k" and "2 * length (preorder ts) + 2 < me_loops env"
    and "c = \<lparr>cm_mode = olddefconfig, cm_sync = False, cm_file = f\<rparr>" and "a_mode (p_ask st) = olddefconfig"
    and "e = out_env_of (me_sys env)" and "out_ready e" and "\<not> starts_with (snd (conf_target e None)) ''.tmpconfig.''"
  shows "\<exists>st' w w'. run_mode env c st = Some (Inl (0, st')) \<and> a_in (p_ask st') = a_in (p_ask st1) \<and>
    w_out (a_w (p_ask st')) = w_out (a_w (p_ask st1)) @ written_message e \<and> extends (p_k st1) (w_k w) \<and>
    conf_text n k (e_prefix (me_ask env)) w = Some w' \<and> p_fs st' (new_name e None) = Some (w_out w')"
  by (rule olddefconfig_runs[OF assms])

section \<open>The whole program\<close>

text \<open>What \<open>main\<close> leaves comes from a run of the mode, or it has failed before it with the files untouched.\<close>

lemma main_cases:
  assumes "conf_main env d release progname opts kf head ss st inp fs t = Some out" and "read_options opts = Some c"
  obtains "out_files out = fs" "out_tree out = t" "out_status out = 1"
    | env' st0 r st' where "me_sys env' = me_sys env" "me_ask env' = me_ask env" "p_fs st0 = fs" "p_tree st0 = t" "a_mode (p_ask st0) = cm_mode c"
        "run_mode env' c st0 = Some (Inl (r, st'))" "out_files out = p_fs st'" "out_tree out = p_tree st'" "out_status out = r"
proof (cases kf)
  case None
  then show thesis using assms that(1) by (auto simp: conf_main_def Let_def)
next
  case (Some name)
  show thesis
  proof (cases "conf_parse (me_loops env) (e_n env) d (sys_getenv (me_sys env)) release (name, 1) head ss st")
    case None
    then show thesis using assms Some by (simp add: conf_main_def)
  next
    case p: (Some x)
    show thesis
    proof (cases x)
      case (Inl y)
      then show thesis using assms Some p that(1) by (auto simp: conf_main_def Let_def)
    next
      case (Inr y)
      obtain st1 cs where y: "y = (st1, cs)" by (cases y)
      let ?env = "env\<lparr>me_defconfig := ps_defconfig_list st1, me_env_list := ps_env_list st1\<rparr>"
      let ?st0 = "start_prog c st1 inp fs t"
      obtain z where z: "run_mode ?env c ?st0 = Some (Inl z)" "out = outcome_of z"
        using assms Some p Inr y run_mode_ends[of ?env c ?st0]
        by (auto simp: conf_main_def Let_def split: option.splits sum.splits)
      obtain r st' where "z = (r, st')" by (cases z)
      with z show thesis using that(2)[of ?env ?st0 r st'] by (simp add: start_prog_def outcome_of_def)
    qed
  qed
qed


text \<open>
  A status of 0 at the end of the whole program: the configuration has been written.
\<close>

lemma main_success:
  assumes "conf_main env d release progname opts kf head ss st inp fs t = Some out" and "out_status out = 0"
    and "read_options opts = Some c" and "\<not> cm_sync c" and "cm_mode c \<noteq> savedefconfig" and "cm_mode c \<noteq> listnewconfig"
    and "e = out_env_of (me_sys env)" and "\<not> starts_with (snd (conf_target e None)) ''.tmpconfig.''"
  shows "\<exists>w w'. conf_text (e_n env) (e_menus (me_ask env)) (e_prefix (me_ask env)) w = Some w' \<and>
    out_files out (new_name e None) = Some (w_out w')"
proof (cases rule: main_cases[OF assms(1,3)])
  case 1
  then show ?thesis using assms(2) by simp
next
  case (2 env' st0 r st')
  then have "run_mode env' c st0 = Some (Inl (0, st'))" "e = out_env_of (me_sys env')" using assms(2,7) by simp_all
  from run_success[OF this(1) 2(5) assms(4-6) this(2) assms(8)] show ?thesis using 2(1,2,7) by (simp add: e_n_def)
qed

section \<open>Examples\<close>

definition example_sys :: sys where
  "example_sys = \<lparr>sys_getenv = (\<lambda>v. if v = ''KCONFIG_AUTOCONFIG'' then Some ''auto.conf'' else None), sys_is_dir = (\<lambda>_. False),
     sys_pid = 7, sys_writable = (\<lambda>_. True), sys_movable = (\<lambda>_ _. True), sys_enter = (\<lambda>_. True)\<rparr>"

definition example_main :: main_env where
  "example_main = \<lparr>me_sys = example_sys, me_ask = example_ask_env, me_rnd = (\<lambda>i. i), me_files = [], me_defconfig = None,
     me_env_list = [], me_loops = 9\<rparr>"

definition example_prog :: "input_mode \<Rightarrow> prog" where
  "example_prog mode = \<lparr>p_ask = (example_ask (k_sym example_state (sym_at 3)) mode)\<lparr>a_w := example_config\<rparr>, p_fs = (\<lambda>_. None),
     p_tree = \<lparr>t_dirs = {}, t_openable = (\<lambda>_. True), t_mkdir_ok = (\<lambda>_. True), t_files = []\<rparr>, p_rand = 0\<rparr>"

text \<open>Without a configuration nothing is read, but \<open>modules_sym\<close> is calculated.\<close>

lemma read_nothing:
  assumes "zconf_fopen (me_sys env) (p_fs st) (conf_get_configname (me_sys env)) = None" and "me_defconfig env = None"
    and "writable_state n k ts (a_w (p_ask st))" and "clearable n (p_k st)" and "e_n env = n"
  obtains st1 where "read_config env None st = Some (1, st1)" "writable_state n k ts (a_w (p_ask st1))" "clearable n (p_k st1)"
    "a_in (p_ask st1) = a_in (p_ask st)" "w_out (a_w (p_ask st1)) = w_out (a_w (p_ask st))"
proof -
  define k1 where "k1 = sym_add_change_count 1 (sym_set_change_count 0 (p_k st))"
  have c: "same_core (p_k st) k1" by (simp add: k1_def sym_add_change_count_def sym_set_change_count_def same_core_def)
  have s: "sane (p_k st)" "pending (p_k st) < n" using assms(3) by (simp_all add: writable_state_def p_k_def)
  have s1: "sane k1" "extends (p_k st) k1" "need_syms k1 = need_syms (p_k st)" "pending k1 = pending (p_k st)"
    using sane_core[OF s(1) c] c by (simp_all add: same_core_def extends_def valid_syms_def need_syms_def open_syms_def pending_def)
  obtain k2 where k2: "sym_calc_value n (k_modules k1) k1 = Some k2" "sane k2" "extends k1 k2" "pending k2 \<le> pending k1" "need_syms k2 \<subseteq> need_syms k1"
    using calc_extends[OF s1(1), of n "k_modules k1"] s(2) s1(4) by metis
  have "clearable n k2" using clearable_extends[OF assms(4) s(1) extends_trans[OF s1(2) k2(3)]] k2(5) s1(3) by simp
  moreover have "read_config env None st = Some (1, say [] (with_pk k2 st))"
    using assms(1,2,5) k2(1) by (simp add: read_config_def conf_read_def conf_read_simple_def k1_def[symmetric] Let_def no_counts_def)
  ultimately show thesis
    using that[of "say [] (with_pk k2 st)"] assms(3) k2(2,4) s1(4)
    by (simp add: p_k_def with_pk_def say_def put_def on_w_def writable_state_def)
qed

lemma example_files:
  "conf_target (out_env_of example_sys) None = ([], ''.config'')" "new_name (out_env_of example_sys) None = ''.config''"
  "out_ready (out_env_of example_sys)" "conf_get_configname example_sys = ''.config''"
  by (simp_all add: out_ready_def new_name_def conf_target_def out_env_of_def example_sys_def conf_get_configname_def up_to_slash_def overwrites_def)

lemma example_read:
  obtains st1 where "read_config example_main None (example_prog mode) = Some (1, st1)" "writable_state 9 4 [MNode 1 []] (a_w (p_ask st1))"
    "clearable 9 (p_k st1)" "a_in (p_ask st1) = []" "w_out (a_w (p_ask st1)) = []"
proof (rule read_nothing[of example_main "example_prog mode" 9 4 "[MNode 1 []]"])
  show "zconf_fopen (me_sys example_main) (p_fs (example_prog mode)) (conf_get_configname (me_sys example_main)) = None"
    by (simp add: zconf_fopen_def example_main_def example_files example_prog_def) (simp add: example_sys_def)
  show "writable_state 9 4 [MNode 1 []] (a_w (p_ask (example_prog mode)))" using example_writable by (simp add: example_prog_def)
  show "clearable 9 (p_k (example_prog mode))"
    using example_card by (simp add: example_prog_def p_k_def clearable_def table_bound_def example_open example_list)
qed (use that in \<open>simp_all add: example_main_def e_n_def example_ask_env_def example_prog_def example_ask_def example_config_def\<close>)

abbreviation example_command :: "input_mode \<Rightarrow> command" where
  "example_command mode \<equiv> \<lparr>cm_mode = mode, cm_sync = mode = silentoldconfig, cm_file = None\<rparr>"

theorem olddefconfig_writes_witness:
  "\<exists>st' w w'. run_mode example_main (example_command olddefconfig) (example_prog olddefconfig) = Some (Inl (0, st')) \<and>
     w_out (a_w (p_ask st')) = conf_message ''configuration written to .config'' \<and>
     conf_text 9 4 ''BR2_'' w = Some w' \<and> p_fs st' ''.config'' = Some (w_out w')"
proof -
  obtain st1 where st1: "read_config example_main None (example_prog olddefconfig) = Some (1, st1)" "writable_state 9 4 [MNode 1 []] (a_w (p_ask st1))"
    "clearable 9 (p_k st1)" "w_out (a_w (p_ask st1)) = []" using example_read by blast
  have "me_sys example_main = example_sys" "e_n example_main = 9" "me_ask example_main = example_ask_env" "me_loops example_main = 9"
    by (simp_all add: example_main_def e_n_def example_ask_env_def)
  moreover have "a_mode (p_ask (example_prog olddefconfig)) = olddefconfig" by (simp add: example_prog_def example_ask_def)
  moreover have "e_menus example_ask_env = 4" "e_prefix example_ask_env = ''BR2_''" by (simp_all add: example_ask_env_def)
  ultimately show ?thesis
    using olddefconfig_writes[OF st1(1-3), of "example_command olddefconfig" None "out_env_of example_sys"] st1(4) example_files
    by (auto simp: written_message_def)
qed

theorem success_means_written_witness:
  "\<exists>st' w w'. run_mode example_main (example_command olddefconfig) (example_prog olddefconfig) = Some (Inl (0, st')) \<and>
     conf_text 9 4 ''BR2_'' w = Some w' \<and> p_fs st' ''.config'' = Some (w_out w') \<and> p_fs st' ''Config.in'' = None"
proof -
  obtain st1 where st1: "read_config example_main None (example_prog olddefconfig) = Some (1, st1)" "writable_state 9 4 [MNode 1 []] (a_w (p_ask st1))"
    "clearable 9 (p_k st1)" using example_read by blast
  have e: "me_sys example_main = example_sys" "e_n example_main = 9" "me_ask example_main = example_ask_env" "me_loops example_main = 9"
    by (simp_all add: example_main_def e_n_def example_ask_env_def)
  have m: "a_mode (p_ask (example_prog olddefconfig)) = olddefconfig" by (simp add: example_prog_def example_ask_def)
  have a: "e_menus example_ask_env = 4" "e_prefix example_ask_env = ''BR2_''" by (simp_all add: example_ask_env_def)
  obtain st' where r: "run_mode example_main (example_command olddefconfig) (example_prog olddefconfig) = Some (Inl (0, st'))"
    using olddefconfig_runs[OF st1(1-3), of "example_command olddefconfig" None "out_env_of example_sys"] example_files e m a
    by auto
  have n: "old_name (out_env_of example_sys) None = ''.config.old''" "hd (tmp_name (out_env_of example_sys) None) = CHR ''.''"
    by (simp_all add: old_name_def tmp_name_def example_files)
  have "hd ''Config.in'' \<noteq> CHR ''.''" by simp
  then have "''Config.in'' \<noteq> tmp_name (out_env_of example_sys) None" using n(2) by metis
  then show ?thesis
    using success_means_written[OF r, of "out_env_of example_sys"] r m e a n example_files
    by auto (auto simp: example_prog_def)
qed

theorem sync_marks_completion_witness:
  "\<exists>st'. run_mode example_main (example_command silentoldconfig) (example_prog silentoldconfig) = Some (Inl (1, st')) \<and>
     p_fs st' ''auto.conf'' = None"
proof -
  have s: "me_sys example_main = example_sys" by (simp add: example_main_def)
  have r: "run_mode example_main (example_command silentoldconfig) (example_prog silentoldconfig) = Some (Inl (1, example_prog silentoldconfig))"
    by (simp add: run_mode_def can_stat_def s example_files leave_def) (simp add: example_prog_def example_sys_def)
  have "a_mode (p_ask (example_prog silentoldconfig)) = silentoldconfig" by (simp add: example_prog_def example_ask_def)
  moreover have "conf_get_autoconfig_name example_sys = Some ''auto.conf''" by (simp add: conf_get_autoconfig_name_def example_sys_def)
  moreover have "names_apart example_sys ''auto.conf''"
    by (simp add: names_apart_def header_name_def tristate_name_def env_or_def auto_file_def config_dir_def dep_names_def example_files up_to_slash_def)
      (simp add: example_sys_def)
  moreover have "''auto.conf'' \<notin> {new_name (out_env_of example_sys) None, old_name (out_env_of example_sys) None, tmp_name (out_env_of example_sys) None}"
    by (simp add: old_name_def tmp_name_def example_files)
  ultimately show ?thesis
    using sync_marks_completion[OF r, of "out_env_of example_sys" "''auto.conf''"] r s example_files
    by auto (auto simp: example_prog_def)
qed

end
