(* ===== verification/Kc_Lex.thy ===== *)
theory Kc_Lex
  imports Kc_Parse Kc_Files
begin

text \<open>
  The lexer zconf.l: its rules, the text of strings and helps, the files that are open and those that they were included
  from. A file is its text, without NUL; the rules of a start condition are tried as flex does it, the longest match
  first, then the first rule. A pointer to a \<open>struct file\<close> is the number of the entries of \<open>file_list\<close> that are older.
\<close>

section \<open>Tokens\<close>

datatype keyword =
  T_MAINMENU | T_MENU | T_SOURCE | T_CHOICE | T_COMMENT | T_CONFIG | T_MENUCONFIG | T_HELP | T_IF | T_DEPENDS | T_OPTIONAL
| T_PROMPT | T_SELECT | T_RANGE | T_VISIBLE | T_OPTION | T_ON

text \<open>What \<open>zconflex\<close> returns with the value in \<open>zconflval\<close>; \<open>T_END\<close> is the 0 of \<open>yyterminate\<close>.\<close>

datatype token =
  T_KEY keyword
| T_TYPE symbol_type
| T_DEFAULT symbol_type
| T_ENDING end_token
| T_TEXT word_token
| T_HELPTEXT string
| T_AND | T_OR | T_OPEN_PAREN | T_CLOSE_PAREN | T_NOT | T_EQUAL | T_UNEQUAL | T_EOL | T_END

text \<open>The keywords of zconf.gperf with the flags \<open>TF_COMMAND\<close> and \<open>TF_PARAM\<close>.\<close>

definition command_ids :: "(string \<times> token) list" where
  "command_ids =
     [(''mainmenu'', T_KEY T_MAINMENU), (''menu'', T_KEY T_MENU), (''endmenu'', T_ENDING T_ENDMENU), (''source'', T_KEY T_SOURCE),
      (''choice'', T_KEY T_CHOICE), (''endchoice'', T_ENDING T_ENDCHOICE), (''comment'', T_KEY T_COMMENT), (''config'', T_KEY T_CONFIG),
      (''menuconfig'', T_KEY T_MENUCONFIG), (''help'', T_KEY T_HELP), (''if'', T_KEY T_IF), (''endif'', T_ENDING T_ENDIF),
      (''depends'', T_KEY T_DEPENDS), (''optional'', T_KEY T_OPTIONAL), (''default'', T_DEFAULT S_UNKNOWN), (''prompt'', T_KEY T_PROMPT),
      (''tristate'', T_TYPE S_TRISTATE), (''def_tristate'', T_DEFAULT S_TRISTATE), (''bool'', T_TYPE S_BOOLEAN),
      (''boolean'', T_TYPE S_BOOLEAN), (''def_bool'', T_DEFAULT S_BOOLEAN), (''int'', T_TYPE S_INT), (''hex'', T_TYPE S_HEX),
      (''string'', T_TYPE S_STRING), (''select'', T_KEY T_SELECT), (''range'', T_KEY T_RANGE), (''visible'', T_KEY T_VISIBLE),
      (''option'', T_KEY T_OPTION)]"

definition param_ids :: "(string \<times> token) list" where
  "param_ids = [(''if'', T_KEY T_IF), (''on'', T_KEY T_ON)]"

definition word_or_id :: "(string \<times> token) list \<Rightarrow> string \<Rightarrow> token" where
  "word_or_id ids w = (case map_of ids w of Some t \<Rightarrow> t | None \<Rightarrow> T_TEXT (T_WORD w))"

section \<open>The state of the lexer\<close>

datatype start_condition = INITIAL | COMMAND | PARAM | STRING | HELP

text \<open>
  The start condition; the rest of the text of \<open>current_buf\<close>, whether there is one, and the rest of the texts of its parents;
  \<open>file_list\<close>, the newest name first; \<open>current_file\<close>, the lines and the parents of the files; \<open>current_pos\<close>; \<open>text\<close>,
  the local \<open>str\<close>, \<open>last_ts\<close> and \<open>first_ts\<close>; what is printed. (A call starts with 0 in \<open>str\<close>; but the call before it
  has left a string only at the end of its line, where \<open>str\<close> does not count.)
\<close>

record lexer =
  lx_mode :: start_condition
  lx_in :: string
  lx_open :: bool
  lx_buffers :: "string list"
  lx_files :: "string list"
  lx_file :: "nat option"
  lx_line :: "nat \<Rightarrow> nat"
  lx_parent :: "nat \<Rightarrow> nat option"
  lx_pos :: "nat option \<times> nat"
  lx_text :: string
  lx_quote :: char
  lx_last :: nat
  lx_first :: nat
  lx_out :: string

definition file_name :: "lexer \<Rightarrow> nat \<Rightarrow> string" where
  "file_name lx f = lx_files lx ! (length (lx_files lx) - Suc f)"

definition zconf_lineno :: "lexer \<Rightarrow> nat" where "zconf_lineno lx = snd (lx_pos lx)"

definition zconf_curname :: "lexer \<Rightarrow> string" where
  "zconf_curname lx = (case fst (lx_pos lx) of Some f \<Rightarrow> file_name lx f | None \<Rightarrow> ''<none>'')"

definition BEGIN :: "start_condition \<Rightarrow> lexer \<Rightarrow> lexer" where "BEGIN m lx = lx\<lparr>lx_mode := m\<rparr>"

definition rest_is :: "string \<Rightarrow> lexer \<Rightarrow> lexer" where "rest_is r lx = lx\<lparr>lx_in := r\<rparr>"

text \<open>\<open>current_file->lineno++\<close>.\<close>

definition count_line :: "lexer \<Rightarrow> lexer" where
  "count_line lx = (case lx_file lx of None \<Rightarrow> lx | Some f \<Rightarrow> lx\<lparr>lx_line := (lx_line lx)(f := Suc (lx_line lx f))\<rparr>)"

definition append_string :: "string \<Rightarrow> lexer \<Rightarrow> lexer" where "append_string s lx = lx\<lparr>lx_text := lx_text lx @ s\<rparr>"

definition say_lexer :: "string \<Rightarrow> lexer \<Rightarrow> lexer" where "say_lexer s lx = lx\<lparr>lx_out := lx_out lx @ s\<rparr>"

text \<open>The action of a rule: the token that it returns, if it returns one. None: a NULL pointer is followed.\<close>

type_synonym action = "(token option \<times> lexer) option"

definition return :: "token \<Rightarrow> lexer \<Rightarrow> action" where "return t lx = Some (Some t, lx)"

definition skip :: "lexer \<Rightarrow> action" where "skip lx = Some (None, lx)"

section \<open>The ends of files\<close>

definition zconf_endfile :: "lexer \<Rightarrow> lexer option" where
  "zconf_endfile lx =
     (case lx_file lx of
        None \<Rightarrow> None
      | Some f \<Rightarrow>
          if \<not> lx_open lx then None
          else (let lx1 = lx\<lparr>lx_file := lx_parent lx f\<rparr> in
                case lx_buffers lx of
                  [] \<Rightarrow> Some (lx1\<lparr>lx_open := False\<rparr>)
                | b # bs \<Rightarrow> Some (lx1\<lparr>lx_in := b, lx_buffers := bs\<rparr>)))"

definition end_of_file :: "lexer \<Rightarrow> action" where
  "end_of_file lx =
     (if lx_file lx = None then return T_END lx
      else (case zconf_endfile lx of None \<Rightarrow> None | Some lx1 \<Rightarrow> return T_EOL lx1))"

section \<open>The rules\<close>

definition nl :: char where "nl = CHR 0x0A"

definition blank :: "char \<Rightarrow> bool" where "blank c \<longleftrightarrow> c = CHR '' '' \<or> c = CHR 0x09"

definition initial_rules :: "lexer \<Rightarrow> action" where
  "initial_rules lx =
     (let s = lx_in lx; ws = takeWhile blank s in
      case dropWhile blank s of
        [] \<Rightarrow> if ws = [] then end_of_file lx else skip (BEGIN COMMAND (rest_is [] lx))
      | c # r \<Rightarrow>
          if c = nl then return T_EOL (count_line (rest_is r lx))
          else if c = CHR ''#'' then
            (case dropWhile (\<lambda>x. x \<noteq> nl) r of
               [] \<Rightarrow> skip (rest_is [] lx)
             | _ # r1 \<Rightarrow> return T_EOL (count_line (rest_is r1 lx)))
          else skip (BEGIN COMMAND (rest_is (c # r) lx)))"

definition note_position :: "lexer \<Rightarrow> lexer" where
  "note_position lx = lx\<lparr>lx_pos := (lx_file lx, case lx_file lx of None \<Rightarrow> 0 | Some f \<Rightarrow> lx_line lx f)\<rparr>"

definition command_rules :: "lexer \<Rightarrow> action" where
  "command_rules lx =
     (case lx_in lx of
        [] \<Rightarrow> end_of_file lx
      | c # r \<Rightarrow>
          if name_char c then
            return (word_or_id command_ids (takeWhile name_char (c # r)))
              (note_position (BEGIN PARAM (rest_is (dropWhile name_char (c # r)) lx)))
          else if c = nl then return T_EOL (count_line (BEGIN INITIAL (rest_is r lx)))
          else skip (rest_is r lx))"

definition word_char :: "char \<Rightarrow> bool" where "word_char c \<longleftrightarrow> name_char c \<or> c \<in> set ''-/.''"

definition new_string :: "lexer \<Rightarrow> lexer" where "new_string lx = lx\<lparr>lx_text := []\<rparr>"

definition param_rules :: "lexer \<Rightarrow> action" where
  "param_rules lx =
     (case lx_in lx of
        [] \<Rightarrow> skip (BEGIN INITIAL lx)
      | c # r \<Rightarrow>
          if starts_with (c # r) ''&&'' then return T_AND (rest_is (tl r) lx)
          else if starts_with (c # r) ''||'' then return T_OR (rest_is (tl r) lx)
          else if c = CHR ''('' then return T_OPEN_PAREN (rest_is r lx)
          else if c = CHR '')'' then return T_CLOSE_PAREN (rest_is r lx)
          else if starts_with (c # r) ''!='' then return T_UNEQUAL (rest_is (tl r) lx)
          else if c = CHR ''!'' then return T_NOT (rest_is r lx)
          else if c = CHR ''='' then return T_EQUAL (rest_is r lx)
          else if c = CHR 0x22 \<or> c = CHR 0x27 then skip (BEGIN STRING ((new_string (rest_is r lx))\<lparr>lx_quote := c\<rparr>))
          else if c = nl then return T_EOL (count_line (BEGIN INITIAL (rest_is r lx)))
          else if word_char c then
            (let w = takeWhile word_char (c # r); lx1 = rest_is (dropWhile word_char (c # r)) lx
             in if w = ''---'' then skip lx1 else return (word_or_id param_ids w) lx1)
          else if c = CHR ''#'' then skip (rest_is (dropWhile (\<lambda>x. x \<noteq> nl) r) lx)
          else if c = CHR 0x5C \<and> take 1 r = [nl] then skip (count_line (rest_is (tl r) lx))
          else skip (rest_is r lx))"

definition string_char :: "char \<Rightarrow> bool" where
  "string_char c \<longleftrightarrow> c \<noteq> CHR 0x22 \<and> c \<noteq> CHR 0x27 \<and> c \<noteq> CHR 0x5C \<and> c \<noteq> nl"

text \<open>A piece of a string; at the end of the line it is returned.\<close>

definition string_piece :: "string \<Rightarrow> string \<Rightarrow> lexer \<Rightarrow> action" where
  "string_piece piece r lx =
     (let lx1 = append_string piece (rest_is r lx)
      in if take 1 r = [nl] then return (T_TEXT (T_WORD_QUOTE (lx_text lx1))) lx1 else skip lx1)"

definition string_rules :: "lexer \<Rightarrow> action" where
  "string_rules lx =
     (case lx_in lx of
        [] \<Rightarrow> skip (BEGIN INITIAL lx)
      | c # r \<Rightarrow>
          if string_char c then string_piece (takeWhile string_char (c # r)) (dropWhile string_char (c # r)) lx
          else if c = CHR 0x5C then
            (if r = [] \<or> hd r = nl then string_piece [] r lx else string_piece [hd r] (tl r) lx)
          else if c = nl then
            return T_EOL (BEGIN INITIAL (count_line (say_lexer (zconf_curname lx @ '':'' @ nat_str 10 (zconf_lineno lx) @
              '':warning: multi-line strings not supported'' @ newline) (rest_is r lx))))
          else if c = lx_quote lx then return (T_TEXT (T_WORD_QUOTE (lx_text lx))) (BEGIN PARAM (rest_is r lx))
          else skip (append_string [c] (rest_is r lx)))"

text \<open>The column after blanks.\<close>

definition column :: "string \<Rightarrow> nat" where
  "column ws = foldl (\<lambda>ts c. if c = CHR 0x09 then ts div 8 * 8 + 8 else Suc ts) 0 ws"

definition zconf_starthelp :: "lexer \<Rightarrow> lexer" where
  "zconf_starthelp lx = BEGIN HELP ((new_string lx)\<lparr>lx_last := 0, lx_first := 0\<rparr>)"

definition zconf_endhelp :: "lexer \<Rightarrow> action" where
  "zconf_endhelp lx = return (T_HELPTEXT (lx_text lx)) (BEGIN INITIAL lx)"

definition help_blanks :: "string \<Rightarrow> string \<Rightarrow> lexer \<Rightarrow> action" where
  "help_blanks ws r lx =
     (let ts = column ws; lx1 = (rest_is r lx)\<lparr>lx_last := ts\<rparr> in
      if lx_first lx = 0 then skip lx1
      else if ts < lx_first lx then zconf_endhelp lx1
      else skip (append_string (replicate (ts - lx_first lx) (CHR '' '')) lx1))"

definition help_rules :: "lexer \<Rightarrow> action" where
  "help_rules lx =
     (let s = lx_in lx; ws = takeWhile blank s in
      case dropWhile blank s of
        [] \<Rightarrow> if ws = [] then zconf_endhelp lx else help_blanks ws [] lx
      | c # r \<Rightarrow>
          if c = nl then
            (if r \<noteq> [] \<and> \<not> blank (hd r) \<and> hd r \<noteq> nl then zconf_endhelp (count_line (rest_is r lx))
             else skip (append_string newline (count_line (rest_is r lx))))
          else if ws \<noteq> [] then help_blanks ws (c # r) lx
          else
            (let line = takeWhile (\<lambda>x. x \<noteq> nl) s;
                 lx1 = append_string (rev (dropWhile blank (rev line))) (rest_is (dropWhile (\<lambda>x. x \<noteq> nl) s) lx)
             in skip (if lx_first lx = 0 then lx1\<lparr>lx_first := lx_last lx\<rparr> else lx1)))"

definition lex_rules :: "lexer \<Rightarrow> action" where
  "lex_rules lx =
     (case lx_mode lx of
        INITIAL \<Rightarrow> initial_rules lx
      | COMMAND \<Rightarrow> command_rules lx
      | PARAM \<Rightarrow> param_rules lx
      | STRING \<Rightarrow> string_rules lx
      | HELP \<Rightarrow> help_rules lx)"

section \<open>zconflex\<close>

text \<open>A rule that returns no token shortens the text, or changes the start condition for the better.\<close>

definition lex_size :: "lexer \<Rightarrow> nat" where
  "lex_size lx = 2 * length (lx_in lx) + (if if lx_in lx = [] then lx_mode lx \<in> {PARAM, STRING} else lx_mode lx = INITIAL then 1 else 0)"

named_theorems lex_simps \<open>the fields of the lexer after an action\<close>

lemma lexer_in [simp]:
  "lx_in (BEGIN m lx) = lx_in lx" "lx_in (rest_is r lx) = r" "lx_in (count_line lx) = lx_in lx" "lx_in (append_string t lx) = lx_in lx"
  "lx_in (say_lexer t lx) = lx_in lx" "lx_in (note_position lx) = lx_in lx" "lx_in (new_string lx) = lx_in lx"
  by (simp_all add: BEGIN_def rest_is_def count_line_def append_string_def say_lexer_def note_position_def new_string_def split: option.split)

lemma lexer_mode [simp]:
  "lx_mode (BEGIN m lx) = m" "lx_mode (rest_is r lx) = lx_mode lx" "lx_mode (count_line lx) = lx_mode lx"
  "lx_mode (append_string t lx) = lx_mode lx" "lx_mode (say_lexer t lx) = lx_mode lx" "lx_mode (note_position lx) = lx_mode lx"
  "lx_mode (new_string lx) = lx_mode lx"
  by (simp_all add: BEGIN_def rest_is_def count_line_def append_string_def say_lexer_def note_position_def new_string_def split: option.split)

lemma return_skip [simp]: "return t lx = Some (None, lx') \<longleftrightarrow> False" "skip lx = Some (None, lx') \<longleftrightarrow> lx' = lx"
  "return t lx = Some (Some u, lx') \<longleftrightarrow> u = t \<and> lx' = lx" "skip lx = Some (Some u, lx') \<longleftrightarrow> False"
  by (auto simp: return_def skip_def)

lemma shorter: "length (dropWhile P s) \<le> length s" by (rule length_dropWhile_le)

lemma drop_shorter: "P c \<Longrightarrow> length (dropWhile P (c # r)) \<le> length r"
  by (simp add: length_dropWhile_le)

lemma initial_shrinks:
  assumes "initial_rules lx = Some (None, lx')"
  shows "lx_in lx = lx_in lx' \<and> lx_mode lx' = COMMAND \<and> lx_in lx \<noteq> [] \<or> length (lx_in lx') < length (lx_in lx)"
proof -
  let ?s = "lx_in lx"
  show ?thesis
  proof (cases "dropWhile blank ?s")
    case Nil
    then show ?thesis using assms
      by (auto simp: initial_rules_def end_of_file_def Let_def simp del: dropWhile_eq_Nil_conv split: if_splits option.splits)
  next
    case (Cons c r)
    have l: "length (c # r) \<le> length ?s" using shorter[of blank ?s] Cons by simp
    show ?thesis
    proof (cases "c = nl \<or> c = CHR ''#''")
      case True
      then have "c \<noteq> nl" and d: "dropWhile (\<lambda>x. x \<noteq> nl) r = []" and e: "lx' = rest_is [] lx"
        using assms Cons by (auto simp: initial_rules_def Let_def simp del: dropWhile_eq_Nil_conv split: if_splits list.splits)
      have "?s \<noteq> []" using Cons by auto
      then show ?thesis using e by simp
    next
      case False
      then have e: "lx' = BEGIN COMMAND (rest_is (c # r) lx)" using assms Cons by (auto simp: initial_rules_def Let_def)
      have "?s = takeWhile blank ?s @ c # r" using Cons takeWhile_dropWhile_id[of blank ?s] by simp
      then show ?thesis using e l by (cases "takeWhile blank ?s") auto
    qed
  qed
qed

lemma string_shrinks:
  "string_rules lx = Some (None, lx') \<Longrightarrow> lx_in lx = [] \<and> lx_in lx' = [] \<and> lx_mode lx' = INITIAL \<or> length (lx_in lx') < length (lx_in lx)"
  by (cases "lx_in lx")
    (auto simp: string_rules_def string_piece_def Let_def le_imp_less_Suc length_dropWhile_le split: if_splits)

lemma param_shrinks:
  "param_rules lx = Some (None, lx') \<Longrightarrow> lx_in lx = [] \<and> lx_in lx' = [] \<and> lx_mode lx' = INITIAL \<or> length (lx_in lx') < length (lx_in lx)"
  by (cases "lx_in lx")
    (auto simp: param_rules_def Let_def le_imp_less_Suc length_dropWhile_le new_string_def rest_is_def BEGIN_def count_line_def
      split: if_splits option.splits intro: le_less_trans[OF diff_le_self])

lemma command_shrinks: "command_rules lx = Some (None, lx') \<Longrightarrow> length (lx_in lx') < length (lx_in lx)"
  by (cases "lx_in lx") (auto simp: command_rules_def end_of_file_def split: if_splits option.splits)

lemma help_shrinks:
  assumes "help_rules lx = Some (None, lx')"
  shows "length (lx_in lx') < length (lx_in lx)"
proof -
  let ?s = "lx_in lx"
  have b: "help_blanks ws r lx = Some (None, lx') \<Longrightarrow> lx_in lx' = r" for ws r
    by (auto simp: help_blanks_def Let_def zconf_endhelp_def rest_is_def append_string_def split: if_splits)
  show ?thesis
  proof (cases "dropWhile blank ?s")
    case Nil
    have "takeWhile blank ?s = ?s" using takeWhile_dropWhile_id[of blank ?s] Nil by (simp del: dropWhile_eq_Nil_conv)
    moreover have "?s = [] \<Longrightarrow> \<not> help_rules lx = Some (None, lx')" by (simp add: help_rules_def zconf_endhelp_def)
    ultimately show ?thesis using assms b[of ?s "[]"] Nil
      by (auto simp: help_rules_def Let_def zconf_endhelp_def simp del: dropWhile_eq_Nil_conv takeWhile_eq_all_conv split: if_splits)
  next
    case (Cons c r)
    have e: "?s = takeWhile blank ?s @ c # r" using Cons takeWhile_dropWhile_id[of blank ?s] by simp
    have l: "length (c # r) \<le> length ?s" using shorter[of blank ?s] Cons by simp
    show ?thesis
    proof (cases "c = nl")
      case True
      then show ?thesis using assms Cons l by (auto simp: help_rules_def Let_def zconf_endhelp_def split: if_splits)
    next
      case c: False
      show ?thesis
      proof (cases "takeWhile blank ?s")
        case Nil
        then have "?s = c # r" using e by simp
        then show ?thesis using assms Cons Nil c length_dropWhile_le[of "\<lambda>x. x \<noteq> nl" r]
          by (auto simp: help_rules_def Let_def split: if_splits)
      next
        case w: (Cons w ws)
        then have "help_blanks (w # ws) (c # r) lx = Some (None, lx')" using assms Cons c by (simp add: help_rules_def Let_def)
        moreover have "length ?s = length (w # ws) + length (c # r)" using e w by (metis length_append)
        ultimately show ?thesis using b by simp
      qed
    qed
  qed
qed

lemma rules_shrink: "lex_rules lx = Some (None, lx') \<Longrightarrow> lex_size lx' < lex_size lx"
  using initial_shrinks[of lx lx'] command_shrinks[of lx lx'] param_shrinks[of lx lx'] string_shrinks[of lx lx'] help_shrinks[of lx lx']
  by (cases "lx_mode lx"; cases "lx_in lx"; cases "lx_in lx'") (auto simp: lex_rules_def lex_size_def)

function zconflex :: "lexer \<Rightarrow> (token \<times> lexer) option" where
  "zconflex lx =
     (case lex_rules lx of
        None \<Rightarrow> None
      | Some (Some t, lx1) \<Rightarrow> Some (t, lx1)
      | Some (None, lx1) \<Rightarrow> zconflex lx1)"
  by pat_completeness auto
termination by (relation "measure lex_size") (auto dest: rules_shrink)

declare zconflex.simps [simp del]

section \<open>Other files\<close>

text \<open>The newest entry with the name.\<close>

fun file_entry :: "string \<Rightarrow> string list \<Rightarrow> nat option" where
  "file_entry name [] = None"
| "file_entry name (f # l) = (if f = name then Some (length l) else file_entry name l)"

text \<open>The first loop of \<open>zconf_nextfile\<close> over the parents; it need not end.\<close>

partial_function (option) open_already :: "lexer \<Rightarrow> string \<Rightarrow> nat option \<Rightarrow> bool option" where
  "open_already lx name iter =
     (case iter of
        None \<Rightarrow> Some False
      | Some f \<Rightarrow> if file_name lx f = name then Some True else open_already lx name (lx_parent lx f))"

definition from_line :: "lexer \<Rightarrow> nat \<Rightarrow> nat \<Rightarrow> string" where
  "from_line lx f line = ''  included from: '' @ quoted (file_name lx f @ '':'' @ nat_str 10 line) @ newline"

text \<open>The second loop, which prints.\<close>

partial_function (option) inclusion_path :: "lexer \<Rightarrow> string \<Rightarrow> nat option \<Rightarrow> string option" where
  "inclusion_path lx name iter =
     (case iter of
        None \<Rightarrow> Some []
      | Some f \<Rightarrow>
          if file_name lx f = name then Some (from_line lx f (lx_line lx f + 1))
          else do {
            rest \<leftarrow> inclusion_path lx name (lx_parent lx f);
            Some (from_line lx f (lx_line lx f - 1) @ rest) })"

definition recursion_message :: "lexer \<Rightarrow> string \<Rightarrow> string" where
  "recursion_message lx path =
     zconf_curname lx @ '':'' @ nat_str 10 (zconf_lineno lx) @ '': recursive inclusion detected. Inclusion path:'' @ newline @
     ''  current file : '' @ quoted (zconf_curname lx) @ newline @ path"

text \<open>The left side of a sum is what has been printed when the program exits with 1.\<close>

definition zconf_nextfile :: "calc \<Rightarrow> sys \<Rightarrow> files \<Rightarrow> string \<Rightarrow> lexer \<Rightarrow> kstate \<Rightarrow> (string + lexer \<times> kstate) option" where
  "zconf_nextfile calc sys fs name lx st = do {
     (found, l, st1) \<leftarrow> file_lookup calc name (lx_files lx) st;
     f \<leftarrow> file_entry found l;
     let lx1 = lx\<lparr>lx_files := l\<rparr>;
     if \<not> lx_open lx then None
     else case zconf_fopen sys fs found of
       None \<Rightarrow> Some (Inl (lx_out lx @ zconf_curname lx1 @ '':'' @ nat_str 10 (zconf_lineno lx1) @
                 '': can'' @ [CHR 0x27] @ ''t open file '' @ double_quote @ found @ double_quote @ newline))
     | Some txt \<Rightarrow> do {
         cur \<leftarrow> lx_file lx;
         again \<leftarrow> open_already lx1 (file_name lx1 cur) (lx_parent lx cur);
         if again then
           map_option (\<lambda>path. Inl (lx_out lx @ recursion_message lx1 path))
             (inclusion_path lx1 (file_name lx1 cur) (lx_parent lx cur))
         else
           Some (Inr (lx1\<lparr>lx_in := txt, lx_buffers := lx_in lx # lx_buffers lx, lx_line := (lx_line lx)(f := 1),
                       lx_parent := (lx_parent lx)(f := Some cur), lx_file := Some f\<rparr>, st1)) } }"

definition zconf_initscan :: "calc \<Rightarrow> sys \<Rightarrow> files \<Rightarrow> string \<Rightarrow> lexer \<Rightarrow> kstate \<Rightarrow> (string + lexer \<times> kstate) option" where
  "zconf_initscan calc sys fs name lx st =
     (case zconf_fopen sys fs name of
        None \<Rightarrow> Some (Inl (lx_out lx @ ''can'' @ [CHR 0x27] @ ''t find file '' @ name @ newline))
      | Some txt \<Rightarrow> do {
          (found, l, st1) \<leftarrow> file_lookup calc name (lx_files lx) st;
          f \<leftarrow> file_entry found l;
          Some (Inr (lx\<lparr>lx_in := txt, lx_open := True, lx_buffers := [], lx_files := l, lx_file := Some f,
                      lx_line := (lx_line lx)(f := 1)\<rparr>, st1)) })"

text \<open>The variables when the program starts.\<close>

definition start_lexer :: lexer where
  "start_lexer = \<lparr>lx_mode = INITIAL, lx_in = [], lx_open = False, lx_buffers = [], lx_files = [], lx_file = None,
     lx_line = (\<lambda>f. 0), lx_parent = (\<lambda>f. None), lx_pos = (None, 0), lx_text = [], lx_quote = CHR 0x00, lx_last = 0,
     lx_first = 0, lx_out = []\<rparr>"

section \<open>The order of the calls\<close>

text \<open>The states of the lexer between the calls of the parser, whatever the order in which the parser calls it.\<close>

inductive scans :: "calc \<Rightarrow> sys \<Rightarrow> files \<Rightarrow> lexer \<Rightarrow> bool" for calc sys fs where
  scan_start: "zconf_initscan calc sys fs name start_lexer st = Some (Inr (lx, st')) \<Longrightarrow> scans calc sys fs lx"
| scan_token: "scans calc sys fs lx \<Longrightarrow> zconflex lx = Some (t, lx') \<Longrightarrow> scans calc sys fs lx'"
| scan_help: "scans calc sys fs lx \<Longrightarrow> scans calc sys fs (zconf_starthelp lx)"
| scan_source:
    "scans calc sys fs lx \<Longrightarrow> zconf_nextfile calc sys fs name lx st = Some (Inr (lx', st')) \<Longrightarrow> scans calc sys fs lx'"

section \<open>Strings that are written\<close>

text \<open>\<open>print_quoted_string\<close> of zconf.y.\<close>

function print_quoted_loop :: "string \<Rightarrow> string" where
  "print_quoted_loop str =
     (case dropWhile (\<lambda>c. c \<noteq> CHR 0x22) str of
        [] \<Rightarrow> str
      | c # p \<Rightarrow> takeWhile (\<lambda>c. c \<noteq> CHR 0x22) str @ [CHR 0x5C, CHR 0x22] @ print_quoted_loop p)"
  by pat_completeness auto
termination
proof (relation "measure length")
  fix str :: string and c p
  assume "dropWhile (\<lambda>c. c \<noteq> CHR 0x22) str = c # p"
  then have "length (c # p) \<le> length str" by (metis length_dropWhile_le)
  then show "(p, str) \<in> measure length" by simp
qed simp

declare print_quoted_loop.simps [simp del]

definition print_quoted_string :: "string \<Rightarrow> string" where
  "print_quoted_string str = double_quote @ print_quoted_loop str @ double_quote"

end
