(* ===== verification/Kc_Lex_Props.thy ===== *)
theory Kc_Lex_Props
  imports Kc_Lex Kc_Files_Props
begin

text \<open>
  What the lexer does with the text: it counts the lines, it reads back the strings that are written with escapes, and
  the files that include each other are found.
\<close>

section \<open>Lines\<close>

definition reads_text :: "string \<Rightarrow> lexer \<Rightarrow> lexer \<Rightarrow> bool" where
  "reads_text p lx lx' \<longleftrightarrow>
     lx_in lx = p @ lx_in lx' \<and> lx_files lx' = lx_files lx \<and> lx_file lx' = lx_file lx \<and> lx_parent lx' = lx_parent lx \<and>
     lx_buffers lx' = lx_buffers lx \<and> lx_open lx' = lx_open lx \<and>
     (\<forall>f. lx_line lx' f = lx_line lx f + (if lx_file lx = Some f then count_list p nl else 0))"

lemma lexer_context [simp]:
  "lx_files (BEGIN m lx) = lx_files lx" "lx_files (rest_is r lx) = lx_files lx" "lx_files (count_line lx) = lx_files lx"
  "lx_files (append_string t lx) = lx_files lx" "lx_files (say_lexer t lx) = lx_files lx" "lx_files (note_position lx) = lx_files lx"
  "lx_files (new_string lx) = lx_files lx"
  "lx_file (BEGIN m lx) = lx_file lx" "lx_file (rest_is r lx) = lx_file lx" "lx_file (count_line lx) = lx_file lx"
  "lx_file (append_string t lx) = lx_file lx" "lx_file (say_lexer t lx) = lx_file lx" "lx_file (note_position lx) = lx_file lx"
  "lx_file (new_string lx) = lx_file lx"
  "lx_parent (BEGIN m lx) = lx_parent lx" "lx_parent (rest_is r lx) = lx_parent lx" "lx_parent (count_line lx) = lx_parent lx"
  "lx_parent (append_string t lx) = lx_parent lx" "lx_parent (say_lexer t lx) = lx_parent lx" "lx_parent (note_position lx) = lx_parent lx"
  "lx_parent (new_string lx) = lx_parent lx"
  "lx_buffers (BEGIN m lx) = lx_buffers lx" "lx_buffers (rest_is r lx) = lx_buffers lx" "lx_buffers (count_line lx) = lx_buffers lx"
  "lx_buffers (append_string t lx) = lx_buffers lx" "lx_buffers (say_lexer t lx) = lx_buffers lx" "lx_buffers (note_position lx) = lx_buffers lx"
  "lx_buffers (new_string lx) = lx_buffers lx"
  "lx_open (BEGIN m lx) = lx_open lx" "lx_open (rest_is r lx) = lx_open lx" "lx_open (count_line lx) = lx_open lx"
  "lx_open (append_string t lx) = lx_open lx" "lx_open (say_lexer t lx) = lx_open lx" "lx_open (note_position lx) = lx_open lx"
  "lx_open (new_string lx) = lx_open lx"
  by (simp_all add: BEGIN_def rest_is_def count_line_def append_string_def say_lexer_def note_position_def new_string_def split: option.split)

lemma lexer_line [simp]:
  "lx_line (BEGIN m lx) = lx_line lx" "lx_line (rest_is r lx) = lx_line lx"
  "lx_line (append_string t lx) = lx_line lx" "lx_line (say_lexer t lx) = lx_line lx" "lx_line (note_position lx) = lx_line lx"
  "lx_line (new_string lx) = lx_line lx"
  "lx_line (count_line lx) f = lx_line lx f + (if lx_file lx = Some f then 1 else 0)"
  by (simp_all add: BEGIN_def rest_is_def count_line_def append_string_def say_lexer_def note_position_def new_string_def split: option.split)

lemma reads_nothing [simp]: "reads_text [] lx lx"
  by (simp add: reads_text_def)

lemma reads_more: "reads_text p lx lx1 \<Longrightarrow> reads_text q lx1 lx2 \<Longrightarrow> reads_text (p @ q) lx lx2"
  by (auto simp: reads_text_def)

lemma newline_kind [simp]: "\<not> blank nl" "\<not> name_char nl" "\<not> word_char nl" "\<not> string_char nl"
  by (simp_all add: blank_def name_char_def word_char_def string_char_def nl_def isalnum_def isdigit_def code_def)

lemma newline_chars [simp]:
  "CHR ''('' \<noteq> nl" "CHR '')'' \<noteq> nl" "CHR ''!'' \<noteq> nl" "CHR ''='' \<noteq> nl" "CHR 0x22 \<noteq> nl" "CHR 0x27 \<noteq> nl" "CHR ''&'' \<noteq> nl"
  "CHR ''|'' \<noteq> nl" "CHR ''#'' \<noteq> nl" "CHR 0x5C \<noteq> nl"
  by (simp_all add: nl_def)

lemma takeWhile_free: "\<not> P x \<Longrightarrow> count_list (takeWhile P s) x = 0"
  by (auto simp: count_list_0_iff dest: set_takeWhileD)

lemma no_newline [simp]:
  "count_list (takeWhile blank s) nl = 0" "count_list (takeWhile name_char s) nl = 0" "count_list (takeWhile word_char s) nl = 0"
  "count_list (takeWhile string_char s) nl = 0" "count_list (takeWhile (\<lambda>x. x \<noteq> nl) s) nl = 0"
  by (simp_all add: takeWhile_free)

text \<open>A rule reads some of the text, or it ends the file.\<close>

definition rule_reads :: "lexer \<Rightarrow> action \<Rightarrow> bool" where
  "rule_reads lx a \<longleftrightarrow>
     (case a of
        None \<Rightarrow> True
      | Some (t, lx') \<Rightarrow> (\<exists>p. reads_text p lx lx') \<or> t = Some T_EOL \<and> lx_in lx = [] \<and> zconf_endfile lx = Some lx')"

lemma rule_reads_return [simp]:
  "rule_reads lx (return t lx') \<longleftrightarrow> (\<exists>p. reads_text p lx lx') \<or> t = T_EOL \<and> lx_in lx = [] \<and> zconf_endfile lx = Some lx'"
  "rule_reads lx (skip lx') \<longleftrightarrow> (\<exists>p. reads_text p lx lx')"
  by (auto simp: rule_reads_def return_def skip_def)

lemma rule_reads_if:
  "(c \<Longrightarrow> rule_reads lx a) \<Longrightarrow> (\<not> c \<Longrightarrow> rule_reads lx b) \<Longrightarrow> rule_reads lx (if c then a else b)"
  by simp

lemma end_of_file_reads: "lx_in lx = [] \<Longrightarrow> rule_reads lx (end_of_file lx)"
  by (auto simp: end_of_file_def rule_reads_def return_def split: option.split intro!: exI[of _ "[]"])

text \<open>Reading \<open>p\<close> without a newline, and with one at its end.\<close>

lemma reads_piece: "lx_in lx = p @ r \<Longrightarrow> count_list p nl = 0 \<Longrightarrow> reads_text p lx (rest_is r lx)"
  by (simp add: reads_text_def)

lemma reads_line: "lx_in lx = p @ nl # r \<Longrightarrow> count_list p nl = 0 \<Longrightarrow> reads_text (p @ [nl]) lx (count_line (rest_is r lx))"
  by (simp add: reads_text_def)

lemma count_line_later [simp]:
  "count_line (BEGIN m lx) = BEGIN m (count_line lx)" "count_line (say_lexer t lx) = say_lexer t (count_line lx)"
  by (auto simp: count_line_def BEGIN_def say_lexer_def split: option.split)

lemma reads_context [simp]:
  "reads_text p lx (BEGIN m lx') = reads_text p lx lx'" "reads_text p lx (append_string t lx') = reads_text p lx lx'"
  "reads_text p lx (say_lexer t lx') = reads_text p lx lx'" "reads_text p lx (note_position lx') = reads_text p lx lx'"
  "reads_text p lx (new_string lx') = reads_text p lx lx'" "reads_text p lx (lx'\<lparr>lx_quote := c\<rparr>) = reads_text p lx lx'"
  "reads_text p lx (lx'\<lparr>lx_last := n\<rparr>) = reads_text p lx lx'" "reads_text p lx (lx'\<lparr>lx_first := n\<rparr>) = reads_text p lx lx'"
  by (simp_all add: reads_text_def)

lemma initial_reads: "rule_reads lx (initial_rules lx)"
proof -
  define ws where "ws = takeWhile blank (lx_in lx)"
  have e: "lx_in lx = ws @ dropWhile blank (lx_in lx)" and ws: "count_list ws nl = 0" by (simp_all add: ws_def)
  show ?thesis
  proof (cases "dropWhile blank (lx_in lx)")
    case Nil
    then have all: "lx_in lx = ws @ []" using e by (simp only: Nil)
    then have "reads_text ws lx (rest_is [] lx)" using ws by (rule reads_piece)
    moreover have "ws = [] \<Longrightarrow> lx_in lx = []" using all by simp
    ultimately show ?thesis using Nil end_of_file_reads[of lx]
      by (auto simp: initial_rules_def Let_def ws_def[symmetric] simp del: dropWhile_eq_Nil_conv)
  next
    case (Cons c r)
    have r: "r = takeWhile (\<lambda>x. x \<noteq> nl) r @ dropWhile (\<lambda>x. x \<noteq> nl) r" by simp
    have a: "reads_text ws lx (rest_is (c # r) lx)" using reads_piece[of lx ws "c # r"] e Cons ws by simp
    have b: "c = nl \<Longrightarrow> reads_text (ws @ [nl]) lx (count_line (rest_is r lx))" using reads_line[of lx ws r] e Cons ws by simp
    have c: "c = CHR ''#'' \<Longrightarrow> dropWhile (\<lambda>x. x \<noteq> nl) r = r1 \<Longrightarrow> reads_text (ws @ c # takeWhile (\<lambda>x. x \<noteq> nl) r) lx (rest_is r1 lx)" for r1
      using reads_piece[of lx "ws @ c # takeWhile (\<lambda>x. x \<noteq> nl) r" r1] e Cons ws r by simp
    have d: "c = CHR ''#'' \<Longrightarrow> dropWhile (\<lambda>x. x \<noteq> nl) r = x # r1 \<Longrightarrow>
        reads_text ((ws @ c # takeWhile (\<lambda>x. x \<noteq> nl) r) @ [nl]) lx (count_line (rest_is r1 lx))" for x r1
      using reads_line[of lx "ws @ c # takeWhile (\<lambda>x. x \<noteq> nl) r" r1] e Cons ws r hd_dropWhile[of "\<lambda>x. x \<noteq> nl" r]
      by simp
    show ?thesis using Cons a b c d
      by (auto simp: initial_rules_def Let_def simp del: dropWhile_eq_Nil_conv split: list.split)
  qed
qed

lemma reads_char: "lx_in lx = c # r \<Longrightarrow> c \<noteq> nl \<Longrightarrow> reads_text [c] lx (rest_is r lx)"
  by (simp add: reads_text_def)

lemma reads_two: "lx_in lx = c # r \<Longrightarrow> r \<noteq> [] \<Longrightarrow> c \<noteq> nl \<Longrightarrow> hd r \<noteq> nl \<Longrightarrow> reads_text [c, hd r] lx (rest_is (tl r) lx)"
  by (cases r) (simp_all add: reads_text_def)

lemma reads_newline: "lx_in lx = nl # r \<Longrightarrow> reads_text [nl] lx (count_line (rest_is r lx))"
  using reads_line[of lx "[]" r] by simp

lemma reads_while:
  "lx_in lx = s \<Longrightarrow> \<not> P nl \<Longrightarrow> reads_text (takeWhile P s) lx (rest_is (dropWhile P s) lx)"
  by (simp add: reads_text_def takeWhile_free)

lemma command_reads: "rule_reads lx (command_rules lx)"
proof (cases "lx_in lx")
  case Nil
  then show ?thesis by (simp add: command_rules_def end_of_file_reads)
next
  case (Cons c r)
  then show ?thesis
    using reads_while[of lx "c # r" name_char] reads_newline[of lx r] reads_char[of lx c r]
    by (auto simp: command_rules_def simp del: takeWhile.simps dropWhile.simps)
qed

lemma starts_with_two: "starts_with (c # r) [a, b] \<Longrightarrow> c = a \<and> r = b # tl r"
  by (cases r) (auto split: if_splits)

lemma param_reads: "rule_reads lx (param_rules lx)"
proof (cases "lx_in lx")
  case Nil
  then show ?thesis by (auto simp: param_rules_def intro!: exI[of _ "[]"])
next
  case (Cons c r)
  have two: "starts_with (c # r) [a, b] \<Longrightarrow> a \<noteq> nl \<Longrightarrow> b \<noteq> nl \<Longrightarrow> \<exists>p. reads_text p lx (rest_is (tl r) lx)" for a b
    using starts_with_two[of c r a b] reads_two[of lx c r] Cons by (metis list.sel(1) list.distinct(1))
  have line: "c = CHR 0x5C \<Longrightarrow> take 1 r = [nl] \<Longrightarrow> \<exists>p. reads_text p lx (count_line (rest_is (tl r) lx))"
    using reads_line[of lx "[c]" "tl r"] Cons by (cases r) auto
  have comment: "c = CHR ''#'' \<Longrightarrow> \<exists>p. reads_text p lx (rest_is (dropWhile (\<lambda>x. x \<noteq> nl) r) lx)"
    using reads_while[of lx "c # r" "\<lambda>x. x \<noteq> nl"] Cons by auto
  have word: "\<exists>p. reads_text p lx (rest_is (dropWhile word_char (c # r)) lx)"
    using reads_while[of lx "c # r" word_char] Cons newline_kind by blast
  have char: "c \<noteq> nl \<Longrightarrow> \<exists>p. reads_text p lx (rest_is r lx)" using reads_char[of lx c r] Cons by blast
  have newline: "c = nl \<Longrightarrow> \<exists>p. reads_text p lx (count_line (rest_is r lx))" using reads_newline[of lx r] Cons by blast
  have quote: "c = CHR 0x22 \<or> c = CHR 0x27 \<Longrightarrow> \<exists>p. reads_text p lx (rest_is r lx)" using char by auto
  note two = two[OF _ newline_chars(7,7)] two[OF _ newline_chars(8,8)] two[OF _ newline_chars(3,4)]
  show ?thesis unfolding param_rules_def Cons list.case Let_def
    by (intro rule_reads_if;
        simp only: rule_reads_return reads_context count_line_later two line comment word quote char newline newline_chars simp_thms)
qed

lemma string_piece_reads: "reads_text p lx (rest_is r lx) \<Longrightarrow> rule_reads lx (string_piece t r lx)"
  by (auto simp: string_piece_def Let_def)

lemma string_reads: "rule_reads lx (string_rules lx)"
proof (cases "lx_in lx")
  case Nil
  then show ?thesis by (auto simp: string_rules_def intro!: exI[of _ "[]"])
next
  case (Cons c r)
  have piece: "rule_reads lx (string_piece (takeWhile string_char (c # r)) (dropWhile string_char (c # r)) lx)"
    by (rule string_piece_reads[OF reads_while[of lx "c # r" string_char, OF Cons newline_kind(4)]])
  have char: "c \<noteq> nl \<Longrightarrow> reads_text [c] lx (rest_is r lx)" by (rule reads_char[OF Cons])
  have escape: "c = CHR 0x5C \<Longrightarrow>
      rule_reads lx (if r = [] \<or> hd r = nl then string_piece [] r lx else string_piece [hd r] (tl r) lx)"
    using char string_piece_reads[of "[c]" lx r] string_piece_reads[of "[c, hd r]" lx "tl r"] reads_two[OF Cons] by auto
  have quote: "c \<noteq> nl \<Longrightarrow> \<exists>p. reads_text p lx (rest_is r lx)" using char by blast
  have newline: "c = nl \<Longrightarrow> \<exists>p. reads_text p lx (count_line (rest_is r lx))" using reads_newline[of lx r] Cons by blast
  show ?thesis unfolding string_rules_def Cons list.case
    by (intro rule_reads_if piece escape;
        simp only: rule_reads_return reads_context count_line_later quote newline simp_thms)
qed

lemma help_blanks_reads: "reads_text p lx (rest_is r lx) \<Longrightarrow> rule_reads lx (help_blanks ws r lx)"
  by (auto simp: help_blanks_def Let_def zconf_endhelp_def)

lemma help_reads: "rule_reads lx (help_rules lx)"
proof -
  define ws where "ws = takeWhile blank (lx_in lx)"
  have e: "lx_in lx = ws @ dropWhile blank (lx_in lx)" and ws: "count_list ws nl = 0" by (simp_all add: ws_def)
  show ?thesis
  proof (cases "dropWhile blank (lx_in lx)")
    case Nil
    then have "lx_in lx = ws @ []" using e by (simp only: Nil)
    then have "reads_text ws lx (rest_is [] lx)" using ws by (rule reads_piece)
    from help_blanks_reads[OF this] show ?thesis using Nil
      by (auto simp: help_rules_def Let_def ws_def[symmetric] zconf_endhelp_def intro: exI[of _ "[]"] simp del: dropWhile_eq_Nil_conv)
  next
    case (Cons c r)
    then have w: "lx_in lx = ws @ c # r" using e by simp
    have a: "rule_reads lx (help_blanks ws (c # r) lx)" using help_blanks_reads[OF reads_piece[OF w ws]] .
    have b: "c = nl \<Longrightarrow> reads_text (ws @ [nl]) lx (count_line (rest_is r lx))" using reads_line[of lx ws r] w ws by simp
    have c: "reads_text (takeWhile (\<lambda>x. x \<noteq> nl) (lx_in lx)) lx (rest_is (dropWhile (\<lambda>x. x \<noteq> nl) (lx_in lx)) lx)"
      by (rule reads_while) simp_all
    then have c': "\<exists>p. reads_text p lx (rest_is (dropWhile (\<lambda>x. x \<noteq> nl) (lx_in lx)) lx)" by blast
    have b': "c = nl \<Longrightarrow> \<exists>p. reads_text p lx (count_line (rest_is r lx))" using b by blast
    show ?thesis unfolding help_rules_def Let_def Cons list.case ws_def[symmetric]
      by (intro rule_reads_if a; simp only: rule_reads_return zconf_endhelp_def reads_context b' c' simp_thms split: if_split)
  qed
qed

lemma rules_read: "rule_reads lx (lex_rules lx)"
  using initial_reads command_reads param_reads string_reads help_reads
  by (simp add: lex_rules_def split: start_condition.split)

text \<open>A call reads some of the text, and ends the file if it is at its end.\<close>

lemma zconflex_reads:
  "zconflex lx = Some (t, lx') \<Longrightarrow>
     \<exists>p lx1. reads_text p lx lx1 \<and> (lx' = lx1 \<or> t = T_EOL \<and> lx_in lx1 = [] \<and> zconf_endfile lx1 = Some lx')"
proof (induction lx rule: zconflex.induct)
  case (1 lx)
  obtain u lx1 where u: "lex_rules lx = Some (u, lx1)" using "1.prems" by (subst (asm) zconflex.simps) (auto split: option.splits)
  show ?case
  proof (cases u)
    case (Some t1)
    then have "t1 = t" "lx1 = lx'" using "1.prems" u by (simp_all add: zconflex.simps[of lx])
    then show ?thesis using rules_read[of lx] u Some by (auto simp: rule_reads_def intro: reads_nothing)
  next
    case None
    then obtain p where p: "reads_text p lx lx1" using rules_read[of lx] u by (auto simp: rule_reads_def)
    have "zconflex lx1 = Some (t, lx')" using "1.prems" u None by (simp add: zconflex.simps[of lx])
    from "1.IH"[OF u _ None this] show ?thesis using reads_more[OF p] by blast
  qed
qed

section \<open>Strings\<close>

definition in_string :: "string \<Rightarrow> string \<Rightarrow> lexer \<Rightarrow> lexer" where
  "in_string s t lx = lx\<lparr>lx_mode := STRING, lx_in := s, lx_quote := CHR 0x22, lx_text := t\<rparr>"

lemma zconflex_skip: "lex_rules lx = Some (None, lx1) \<Longrightarrow> zconflex lx = zconflex lx1"
  by (subst zconflex.simps) simp

lemma zconflex_return: "lex_rules lx = Some (Some t, lx1) \<Longrightarrow> zconflex lx = Some (t, lx1)"
  by (subst zconflex.simps) simp

lemma zconflex_text:
  assumes "zconflex lx = Some r" "lx' = lx" shows "zconflex lx' = Some r"
  using assms by simp

lemma in_string_rules:
  "lex_rules (in_string (c # r) t lx) =
     (if string_char c then string_piece (takeWhile string_char (c # r)) (dropWhile string_char (c # r)) (in_string (c # r) t lx)
      else string_rules (in_string (c # r) t lx))"
  by (simp add: lex_rules_def in_string_def string_rules_def)

lemma in_string_piece:
  "string_piece u r (in_string s t lx) =
     (if take 1 r = [nl] then return (T_TEXT (T_WORD_QUOTE (t @ u))) (in_string r (t @ u) lx) else skip (in_string r (t @ u) lx))"
  by (cases lx) (simp add: string_piece_def Let_def in_string_def append_string_def rest_is_def)

text \<open>A run of characters can be read one by one.\<close>

lemma lex_string_char:
  assumes "string_char c" "take 1 r \<noteq> [nl]"
  shows "zconflex (in_string (c # r) t lx) = zconflex (in_string r (t @ [c]) lx)"
proof (cases "r \<noteq> [] \<and> string_char (hd r)")
  case False
  then have "takeWhile string_char r = []" "dropWhile string_char r = r" by (cases r; simp)+
  then show ?thesis using assms by (intro zconflex_skip) (simp add: in_string_rules in_string_piece)
next
  case True
  then obtain d r' where r: "r = d # r'" and d: "string_char d" by (cases r) auto
  show ?thesis using assms d unfolding r
    by (simp add: zconflex.simps[of "in_string (c # d # r') t lx"] zconflex.simps[of "in_string (d # r') (t @ [c]) lx"] in_string_rules
        in_string_piece return_def skip_def)
qed

lemma lex_string_escape:
  assumes "c \<noteq> nl" "take 1 r \<noteq> [nl]"
  shows "zconflex (in_string (CHR 0x5C # c # r) t lx) = zconflex (in_string r (t @ [c]) lx)"
proof (rule zconflex_skip)
  have n: "\<not> string_char (CHR 0x5C)" by (simp add: string_char_def)
  have "string_rules (in_string (CHR 0x5C # c # r) t lx) = string_piece [c] r (in_string (CHR 0x5C # c # r) t lx)"
    using assms(1) n by (simp add: string_rules_def in_string_def)
  then show "lex_rules (in_string (CHR 0x5C # c # r) t lx) = Some (None, in_string r (t @ [c]) lx)"
    using assms(2) n by (simp add: in_string_rules in_string_piece skip_def)
qed

lemma lex_string_other_quote:
  "zconflex (in_string (CHR 0x27 # r) t lx) = zconflex (in_string r (t @ [CHR 0x27]) lx)"
  by (intro zconflex_skip) (simp add: in_string_rules string_char_def, simp add: string_rules_def string_char_def in_string_def
      append_string_def rest_is_def nl_def)

lemma lex_string_end:
  "zconflex (in_string (CHR 0x22 # r) t lx) = Some (T_TEXT (T_WORD_QUOTE t), BEGIN PARAM (in_string r t lx))"
  by (intro zconflex_return) (simp add: in_string_rules string_char_def, simp add: string_rules_def string_char_def in_string_def
      rest_is_def nl_def BEGIN_def)

text \<open>Whatever is escaped, if quotes and backslashes are.\<close>

definition escapes :: "(char \<Rightarrow> string) \<Rightarrow> char \<Rightarrow> bool" where
  "escapes f c \<longleftrightarrow> c \<noteq> nl \<and> (f c = [CHR 0x5C, c] \<or> f c = [c] \<and> c \<noteq> CHR 0x22 \<and> c \<noteq> CHR 0x5C)"

lemma lex_escaped_char:
  assumes "escapes f c" "take 1 r \<noteq> [nl]"
  shows "zconflex (in_string (f c @ r) t lx) = zconflex (in_string r (t @ [c]) lx)"
  using assms lex_string_escape[of c r t lx] lex_string_char[of c r t lx] lex_string_other_quote[of r t lx]
  by (cases "c = CHR 0x27") (auto simp: escapes_def string_char_def)

lemma lex_escaped:
  assumes "list_all (escapes f) s"
  shows "zconflex (in_string (concat (map f s) @ CHR 0x22 # r) t lx) = Some (T_TEXT (T_WORD_QUOTE (t @ s)), BEGIN PARAM (in_string r (t @ s) lx))"
  using assms
proof (induction s arbitrary: t)
  case Nil
  then show ?case by (simp add: lex_string_end)
next
  case (Cons c s)
  have "take 1 (concat (map f s) @ CHR 0x22 # r) \<noteq> [nl]"
    using Cons.prems by (cases s) (auto simp: escapes_def nl_def)
  then have "zconflex (in_string (f c @ concat (map f s) @ CHR 0x22 # r) t lx) = zconflex (in_string (concat (map f s) @ CHR 0x22 # r) (t @ [c]) lx)"
    using Cons.prems lex_escaped_char by simp
  then show ?case using Cons.IH[of "t @ [c]"] Cons.prems by simp
qed

lemma lex_quoted:
  assumes "list_all (escapes f) s" "lx_mode lx = PARAM"
  shows "zconflex (rest_is (CHR 0x22 # concat (map f s) @ CHR 0x22 # r) lx) =
           Some (T_TEXT (T_WORD_QUOTE s), lx\<lparr>lx_in := r, lx_quote := CHR 0x22, lx_text := s\<rparr>)"
proof -
  let ?s = "concat (map f s) @ CHR 0x22 # r"
  have "lex_rules (rest_is (CHR 0x22 # ?s) lx) = Some (None, in_string ?s [] lx)"
    using assms(2) by (simp add: lex_rules_def param_rules_def skip_def new_string_def BEGIN_def rest_is_def in_string_def)
  then have "zconflex (rest_is (CHR 0x22 # ?s) lx) = zconflex (in_string ?s [] lx)" by (rule zconflex_skip)
  also have "\<dots> = Some (T_TEXT (T_WORD_QUOTE s), BEGIN PARAM (in_string r s lx))" using lex_escaped[OF assms(1), of r "[]" lx] by simp
  also have "BEGIN PARAM (in_string r s lx) = lx\<lparr>lx_in := r, lx_quote := CHR 0x22, lx_text := s\<rparr>"
    using assms(2) by (simp add: BEGIN_def in_string_def)
  finally show ?thesis by simp
qed

definition dump_char :: "char \<Rightarrow> string" where
  "dump_char c = (if c = CHR 0x22 then [CHR 0x5C, c] else [c])"

lemma dump_plain: "CHR 0x22 \<notin> set s \<Longrightarrow> concat (map dump_char s) = s"
  by (induction s) (auto simp: dump_char_def)

lemma print_quoted_concat: "print_quoted_loop s = concat (map dump_char s)"
proof (induction s rule: print_quoted_loop.induct)
  case (1 s)
  let ?w = "takeWhile (\<lambda>c. c \<noteq> CHR 0x22) s"
  have w: "concat (map dump_char ?w) = ?w" by (rule dump_plain) (auto dest: set_takeWhileD)
  show ?case
  proof (cases "dropWhile (\<lambda>c. c \<noteq> CHR 0x22) s")
    case Nil
    then have "concat (map dump_char s) = s" by (intro dump_plain) auto
    then show ?thesis by (subst print_quoted_loop.simps) (simp only: Nil list.case)
  next
    case (Cons c p)
    have "s = ?w @ c # p" using Cons takeWhile_dropWhile_id[of "\<lambda>c. c \<noteq> CHR 0x22" s] by simp
    then have "concat (map dump_char s) = concat (map dump_char (?w @ c # p))" by (simp only:)
    then have "concat (map dump_char s) = ?w @ dump_char c @ concat (map dump_char p)" using w by simp
    moreover have "c = CHR 0x22" using Cons hd_dropWhile[of "\<lambda>c. c \<noteq> CHR 0x22" s] by simp
    ultimately show ?thesis using 1[OF Cons] Cons by (subst print_quoted_loop.simps) (simp add: dump_char_def[of "CHR 0x22"])
  qed
qed

section \<open>Files\<close>

inductive leads :: "(nat \<Rightarrow> nat option) \<Rightarrow> nat option \<Rightarrow> nat \<Rightarrow> bool" for par where
  leads_here: "leads par (Some f) f"
| leads_on: "leads par (par g) f \<Longrightarrow> leads par (Some g) f"

inductive_cases leads_None: "leads par None f"

inductive_cases leads_Some: "leads par (Some g) f"

lemma leads_step: "leads par x f \<Longrightarrow> par f = Some g \<Longrightarrow> leads par x g"
  by (induction rule: leads.induct) (metis leads.intros)+

lemma open_already_leads:
  "leads (lx_parent lx) x f \<Longrightarrow> file_name lx f = name \<Longrightarrow> open_already lx name x = Some True"
  by (induction rule: leads.induct) (simp_all add: open_already.simps)

lemma inclusion_path_leads:
  "leads (lx_parent lx) x f \<Longrightarrow> file_name lx f = name \<Longrightarrow> \<exists>path. inclusion_path lx name x = Some path"
proof (induction rule: leads.induct)
  case (leads_here f)
  then show ?case by (simp add: inclusion_path.simps)
next
  case (leads_on g f)
  then obtain path where "inclusion_path lx name (lx_parent lx g) = Some path" by blast
  then show ?case by (subst inclusion_path.simps) simp
qed

text \<open>The file and its parents, up to one that has none.\<close>

fun linked :: "(nat \<Rightarrow> nat option) \<Rightarrow> nat option \<Rightarrow> nat list \<Rightarrow> bool" where
  "linked par x [] \<longleftrightarrow> x = None"
| "linked par x (g # gs) \<longleftrightarrow> x = Some g \<and> linked par (par g) gs"

lemma linked_leads: "linked par x gs \<Longrightarrow> f \<in> set gs \<Longrightarrow> leads (par(f := y)) x f"
proof (induction gs arbitrary: x)
  case (Cons g gs)
  then show ?case by (cases "f = g") (auto intro: leads.intros)
qed simp

lemma linked_other: "linked par x gs \<Longrightarrow> f \<notin> set gs \<Longrightarrow> linked (par(f := y)) x gs"
  by (induction gs arbitrary: x) auto

lemma open_already_linked:
  "linked (lx_parent lx) x gs \<Longrightarrow> open_already lx name x = Some (name \<in> file_name lx ` set gs)"
proof (induction gs arbitrary: x)
  case Nil
  then show ?case by (simp add: open_already.simps)
next
  case (Cons g gs)
  then show ?case by (subst open_already.simps) auto
qed

lemma file_entry_found: "file_entry name l = Some f \<Longrightarrow> f < length l \<and> l ! (length l - Suc f) = name"
proof (induction l)
  case (Cons a l)
  then show ?case by (auto simp: nth_Cons' split: if_splits)
qed simp

lemma file_entry_some: "name \<in> set l \<Longrightarrow> \<exists>f. file_entry name l = Some f"
  by (induction l) auto

lemma file_lookup_list:
  assumes "file_lookup calc name l st = Some (found, l', st')"
  shows "found \<in> set l' \<and> (l' = l \<or> l' = found # l)"
  using assms by (auto simp: file_lookup_def bind_eq_Some_conv split: if_splits)

lemma file_name_stable:
  "f < length (lx_files lx) \<Longrightarrow> l = lx_files lx \<or> l = n # lx_files lx \<Longrightarrow> file_name (lx\<lparr>lx_files := l\<rparr>) f = file_name lx f"
  by (auto simp: file_name_def Suc_diff_le nth_Cons')

text \<open>
  No file that is open has the name of another, but the current one may have been included again; or the current file
  is one of its own parents.
\<close>

definition nested :: "lexer \<Rightarrow> nat list \<Rightarrow> bool" where
  "nested lx gs \<longleftrightarrow>
     linked (lx_parent lx) (lx_file lx) gs \<and> (\<forall>g\<in>set gs. g < length (lx_files lx)) \<and> lx_open lx = (gs \<noteq> []) \<and>
     length (lx_buffers lx) = length gs - 1 \<and> distinct (map (file_name lx) (tl gs))"

definition own_parent :: "lexer \<Rightarrow> bool" where
  "own_parent lx \<longleftrightarrow> (\<exists>f. lx_file lx = Some f \<and> leads (lx_parent lx) (lx_parent lx f) f)"

definition inclusions_ok :: "lexer \<Rightarrow> bool" where
  "inclusions_ok lx \<longleftrightarrow>
     length (lx_buffers lx) \<le> card (set (lx_files lx)) \<and> ((\<exists>gs. nested lx gs) \<or> own_parent lx)"

lemma names_bound:
  assumes "\<forall>g\<in>set gs. g < length (lx_files lx)" "distinct (map (file_name lx) gs)"
  shows "length gs \<le> card (set (lx_files lx))"
proof -
  have "set (map (file_name lx) gs) \<subseteq> set (lx_files lx)" using assms(1) by (fastforce simp: file_name_def)
  then have "card (set (map (file_name lx) gs)) \<le> card (set (lx_files lx))" by (simp add: card_mono)
  then show ?thesis using distinct_card[OF assms(2)] by simp
qed

lemma own_parent_stops:
  assumes "own_parent lx" "lx_file lx = Some f"
  shows "open_already (lx\<lparr>lx_files := l\<rparr>) (file_name (lx\<lparr>lx_files := l\<rparr>) f) (lx_parent lx f) = Some True"
  using assms open_already_leads[of "lx\<lparr>lx_files := l\<rparr>" "lx_parent lx f" f] by (simp add: own_parent_def)

lemma reads_ok: "reads_text p lx lx' \<Longrightarrow> inclusions_ok lx \<Longrightarrow> inclusions_ok lx'"
  by (simp add: reads_text_def inclusions_ok_def nested_def own_parent_def file_name_def cong: map_cong)

lemma endfile_ok:
  assumes "zconf_endfile lx = Some lx'" "inclusions_ok lx" shows "inclusions_ok lx'"
proof -
  obtain f where f: "lx_file lx = Some f" "lx_open lx" using assms(1) by (auto simp: zconf_endfile_def split: option.splits if_splits)
  have e: "lx_file lx' = lx_parent lx f" "lx_parent lx' = lx_parent lx" "lx_files lx' = lx_files lx" "lx_buffers lx' = tl (lx_buffers lx)"
    "lx_open lx' = (lx_buffers lx \<noteq> [])"
    using assms(1) f by (auto simp: zconf_endfile_def Let_def split: list.splits)
  have n: "file_name lx' = file_name lx" using e by (simp add: file_name_def fun_eq_iff)
  show ?thesis
  proof (cases "own_parent lx")
    case True
    then have l: "leads (lx_parent lx) (lx_parent lx f) f" using f by (simp add: own_parent_def)
    then obtain g where g: "lx_parent lx f = Some g" by (cases "lx_parent lx f") (auto elim: leads_None)
    have "leads (lx_parent lx) (lx_parent lx g) g"
      using l g by (metis leads_Some leads_step)
    then have "own_parent lx'" using e g by (simp add: own_parent_def)
    then show ?thesis using assms(2) e by (auto simp: inclusions_ok_def)
  next
    case False
    then obtain gs where gs: "nested lx gs" using assms(2) by (auto simp: inclusions_ok_def)
    then obtain hs where hs: "gs = f # hs" using f by (cases gs) (auto simp: nested_def)
    have "distinct (map (file_name lx) (tl hs))" using gs hs by (cases hs) (auto simp: nested_def)
    moreover have "(lx_buffers lx \<noteq> []) = (hs \<noteq> [])" using gs hs by (cases hs) (auto simp: nested_def)
    ultimately have "nested lx' hs" using gs hs e n by (simp add: nested_def)
    then show ?thesis using assms(2) e by (auto simp: inclusions_ok_def)
  qed
qed

lemma token_ok:
  assumes "zconflex lx = Some (t, lx')" "inclusions_ok lx" shows "inclusions_ok lx'"
  using zconflex_reads[OF assms(1)] reads_ok endfile_ok assms(2) by blast

text \<open>What another file changes.\<close>

lemma nextfile_cases:
  assumes "zconf_nextfile calc sys fs name lx st = Some (Inr (lx', st'))"
  obtains found l c cur f where
    "file_lookup calc name (lx_files lx) st = Some (found, l, st')" "zconf_fopen sys fs found = Some c"
    "file_entry found l = Some f" "lx_file lx = Some cur" "lx_open lx"
    "open_already (lx\<lparr>lx_files := l\<rparr>) (file_name (lx\<lparr>lx_files := l\<rparr>) cur) (lx_parent lx cur) = Some False"
    "lx' = lx\<lparr>lx_files := l, lx_in := c, lx_buffers := lx_in lx # lx_buffers lx, lx_line := (lx_line lx)(f := 1),
       lx_parent := (lx_parent lx)(f := Some cur), lx_file := Some f\<rparr>"
  using assms by (auto simp: zconf_nextfile_def Let_def bind_eq_Some_conv split: if_splits option.splits)

lemma nested_open_already:
  assumes "nested lx gs" "lx_file lx = Some cur" "l = lx_files lx \<or> l = n # lx_files lx"
  shows "open_already (lx\<lparr>lx_files := l\<rparr>) (file_name (lx\<lparr>lx_files := l\<rparr>) cur) (lx_parent lx cur) =
           Some (file_name lx cur \<in> file_name lx ` set (tl gs))"
proof -
  obtain hs where gs: "gs = cur # hs" using assms(1,2) by (cases gs) (auto simp: nested_def)
  have v: "\<forall>g\<in>set gs. file_name (lx\<lparr>lx_files := l\<rparr>) g = file_name lx g"
    using assms(1,3) file_name_stable by (auto simp: nested_def)
  have "linked (lx_parent lx) (lx_parent lx cur) hs" using assms(1) gs by (simp add: nested_def)
  then show ?thesis using open_already_linked[of "lx\<lparr>lx_files := l\<rparr>" "lx_parent lx cur" hs] v gs
    by (auto simp: image_iff)
qed

lemma nextfile_nested:
  assumes "zconf_nextfile calc sys fs name lx st = Some (Inr (lx', st'))" "nested lx gs"
  obtains f where "lx_file lx' = Some f" "distinct (map (file_name lx') gs)" "\<forall>g\<in>set gs. g < length (lx_files lx')"
    "length (lx_buffers lx') = length gs" "if f \<in> set gs then own_parent lx' else nested lx' (f # gs)"
proof -
  obtain found l c cur f where n: "file_lookup calc name (lx_files lx) st = Some (found, l, st')" "file_entry found l = Some f"
    "lx_file lx = Some cur" "lx_open lx"
    "open_already (lx\<lparr>lx_files := l\<rparr>) (file_name (lx\<lparr>lx_files := l\<rparr>) cur) (lx_parent lx cur) = Some False"
    "lx' = lx\<lparr>lx_files := l, lx_in := c, lx_buffers := lx_in lx # lx_buffers lx, lx_line := (lx_line lx)(f := 1),
       lx_parent := (lx_parent lx)(f := Some cur), lx_file := Some f\<rparr>"
    using nextfile_cases[OF assms(1)] by metis
  have l: "l = lx_files lx \<or> l = found # lx_files lx" using file_lookup_list[OF n(1)] by blast
  obtain hs where gs: "gs = cur # hs" using assms(2) n(3) by (cases gs) (auto simp: nested_def)
  have names: "file_name lx' g = file_name lx g" if "g \<in> set gs" for g
    using file_name_stable[OF _ l] assms(2) that n(6) by (simp add: nested_def file_name_def)
  have "file_name lx cur \<notin> file_name lx ` set (tl gs)" using nested_open_already[OF assms(2) n(3) l] n(5) by simp
  then have "distinct (map (file_name lx) gs)" using assms(2) gs by (auto simp: nested_def)
  then have d: "distinct (map (file_name lx') gs)" using names by (simp cong: map_cong)
  have v: "\<forall>g\<in>set gs. g < length l" using assms(2) l by (auto simp: nested_def)
  have k: "linked (lx_parent lx) (Some cur) gs" using assms(2) n(3) by (simp add: nested_def)
  have o: "own_parent lx'" if "f \<in> set gs" using linked_leads[OF k that] n(6) by (simp add: own_parent_def)
  have i: "nested lx' (f # gs)" if "f \<notin> set gs"
    using linked_other[OF k that] n(6,4) v d file_entry_found[OF n(2)] assms(2) gs by (simp add: nested_def)
  show thesis using that[of f] n(6) d v o i assms(2) gs by (simp add: nested_def)
qed

lemma nextfile_ok:
  assumes "zconf_nextfile calc sys fs name lx st = Some (Inr (lx', st'))" "inclusions_ok lx"
  shows "inclusions_ok lx'"
proof -
  have "\<not> own_parent lx" using nextfile_cases[OF assms(1)] own_parent_stops by (metis option.inject)
  then obtain gs where gs: "nested lx gs" using assms(2) by (auto simp: inclusions_ok_def)
  obtain f where f: "distinct (map (file_name lx') gs)" "\<forall>g\<in>set gs. g < length (lx_files lx')" "length (lx_buffers lx') = length gs"
    "if f \<in> set gs then own_parent lx' else nested lx' (f # gs)"
    using nextfile_nested[OF assms(1) gs] by metis
  have "length gs \<le> card (set (lx_files lx'))" by (rule names_bound[OF f(2,1)])
  then show ?thesis using f(3,4) by (auto simp: inclusions_ok_def split: if_splits)
qed

lemma initscan_ok:
  assumes "zconf_initscan calc sys fs name start_lexer st = Some (Inr (lx, st'))"
  shows "\<exists>f. nested lx [f] \<and> lx_buffers lx = []"
proof -
  obtain found l f where n: "file_entry found l = Some f" "lx_files lx = l" "lx_file lx = Some f" "lx_parent lx = (\<lambda>f. None)"
      "lx_open lx" "lx_buffers lx = []"
    using assms by (auto simp: zconf_initscan_def start_lexer_def bind_eq_Some_conv split: option.splits)
  then show ?thesis using file_entry_found[OF n(1)] by (auto simp: nested_def)
qed

lemma scans_ok: "scans calc sys fs lx \<Longrightarrow> inclusions_ok lx"
proof (induction rule: scans.induct)
  case (scan_start name st lx st')
  then show ?case using initscan_ok by (fastforce simp: inclusions_ok_def)
next
  case (scan_help lx)
  then show ?case
    using reads_ok[of "[]" lx "zconf_starthelp lx"] by (simp add: zconf_starthelp_def reads_text_def)
qed (use token_ok nextfile_ok in blast)+

section \<open>The lexer\<close>

text \<open>
  C10: a call of the lexer counts the lines. If \<open>zconflex\<close> reads \<open>p\<close>, whatever the start condition (comments, strings,
  strings that do not end, continued lines and helps included), the line of the current file grows by the newlines of \<open>p\<close>,
  and no other line changes. What is left is the rest of the text; or the text is at its end, the token is \<open>T_EOL\<close>, and the
  file goes back to its parent.
\<close>
theorem lines_are_counted:
  assumes "zconflex lx = Some (t, lx')" "lx_file lx = Some f"
  shows "\<exists>p r. lx_in lx = p @ r \<and> lx_line lx' = (lx_line lx)(f := lx_line lx f + count_list p nl) \<and>
           (lx_in lx' = r \<and> lx_file lx' = Some f \<or> r = [] \<and> t = T_EOL \<and> lx_file lx' = lx_parent lx f)"
proof -
  obtain p lx1 where p: "reads_text p lx lx1" "lx' = lx1 \<or> t = T_EOL \<and> lx_in lx1 = [] \<and> zconf_endfile lx1 = Some lx'"
    using zconflex_reads[OF assms(1)] by blast
  have l: "lx_line lx1 = (lx_line lx)(f := lx_line lx f + count_list p nl)" using p(1) assms(2) by (auto simp: reads_text_def)
  have e: "lx_line lx' = lx_line lx1 \<and> lx_file lx' = lx_parent lx f" if "zconf_endfile lx1 = Some lx'"
    using that p(1) assms(2) by (auto simp: zconf_endfile_def reads_text_def Let_def split: option.splits if_splits list.splits)
  show ?thesis using p l e assms(2) by (auto simp: reads_text_def)
qed

text \<open>
  C11: strings with escapes are read back. The lexer, after a word, reads what \<open>sym_escape_string_value\<close> makes of a string
  without a newline as that string; and what \<open>print_quoted_string\<close> of \<open>zconfdump\<close> makes of it, if there is no backslash in it,
  which that function does not escape.
\<close>
theorem escaped_strings_are_read:
  assumes "nl \<notin> set s" "lx_mode lx = PARAM"
  shows "let read = Some (T_TEXT (T_WORD_QUOTE s), lx\<lparr>lx_in := r, lx_quote := CHR 0x22, lx_text := s\<rparr>) in
           zconflex (rest_is (sym_escape_string_value s @ r) lx) = read \<and>
           (CHR 0x5C \<notin> set s \<longrightarrow> zconflex (rest_is (print_quoted_string s @ r) lx) = read)"
proof -
  have e: "list_all (escapes escape_char) s"
    using assms(1) by (induction s) (auto simp: escapes_def escape_char_def plain_char_def)
  have d: "CHR 0x5C \<notin> set s \<Longrightarrow> list_all (escapes dump_char) s"
    using assms(1) by (induction s) (auto simp: escapes_def dump_char_def)
  show ?thesis using lex_quoted[OF e assms(2), of r] lex_quoted[OF d assms(2), of r]
    by (simp add: escape_eq print_quoted_string_def print_quoted_concat double_quote_def)
qed

lemma leads_linked: "linked par x gs \<Longrightarrow> leads par x f \<Longrightarrow> f \<in> set gs"
proof (induction gs arbitrary: x)
  case (Cons g gs)
  then show ?case by (auto elim: leads_Some)
qed (auto elim: leads_None)

lemma inclusion_is_refused:
  assumes "lx_file lx = Some f" "lx_open lx" "leads (lx_parent lx) (lx_parent lx f) g"
    and "file_name lx g = file_name lx f" "g = f \<or> g < length (lx_files lx) \<and> f < length (lx_files lx)"
    and l: "file_lookup calc name (lx_files lx) st = Some (found, l, st1)" "zconf_fopen sys fs found = Some c"
  shows "\<exists>path. zconf_nextfile calc sys fs name lx st = Some (Inl (lx_out lx @ recursion_message (lx\<lparr>lx_files := l\<rparr>) path))"
proof -
  let ?lx = "lx\<lparr>lx_files := l\<rparr>"
  have n: "file_name ?lx g = file_name ?lx f" using assms(4,5) file_name_stable file_lookup_list[OF l(1)] by metis
  have a: "open_already ?lx (file_name ?lx f) (lx_parent lx f) = Some True"
    using open_already_leads[of ?lx "lx_parent lx f" g] assms(3) n by simp
  obtain path where p: "inclusion_path ?lx (file_name ?lx f) (lx_parent lx f) = Some path"
    using inclusion_path_leads[of ?lx "lx_parent lx f" g] assms(3) n by auto
  obtain h where "file_entry found l = Some h" using file_entry_some file_lookup_list[OF l(1)] by metis
  then show ?thesis using a p l assms(1,2) by (auto simp: zconf_nextfile_def Let_def intro!: exI[of _ path])
qed

text \<open>
  C12: recursive inclusions are reported. If a file is included whose name is that of the current file or of one that
  this one was included from, directly or not, the lexer opens it again; but the next inclusion in it, whatever has been read
  of it before, prints the recursive inclusion with a path, and the program exits. Both loops over the parents end, though the
  parents may then form a ring.
\<close>
theorem recursion_is_reported:
  assumes "scans calc sys fs lx" "leads (lx_parent lx) (lx_file lx) g"
    and "zconf_nextfile calc sys fs name lx st = Some (Inr (lx1, st1))"
    and "lx_file lx1 = Some f" "file_name lx1 f = file_name lx1 g" "reads_text p lx1 lx2"
    and "file_lookup calc name2 (lx_files lx2) st2 = Some (found, l, st3)" "zconf_fopen sys fs found = Some c"
  shows "\<exists>path. zconf_nextfile calc sys fs name2 lx2 st2 = Some (Inl (lx_out lx2 @ recursion_message (lx2\<lparr>lx_files := l\<rparr>) path))"
proof -
  have "\<not> own_parent lx" using nextfile_cases[OF assms(3)] own_parent_stops by (metis option.inject)
  then obtain gs where gs: "nested lx gs" using scans_ok[OF assms(1)] by (auto simp: inclusions_ok_def)
  have v: "\<forall>g\<in>set gs. g < length (lx_files lx1)" and i: "if f \<in> set gs then own_parent lx1 else nested lx1 (f # gs)"
    using nextfile_nested[OF assms(3) gs] assms(4) by (metis option.inject)+
  have g: "g \<in> set gs" using leads_linked assms(2) gs by (auto simp: nested_def)
  have o: "lx_open lx1" using assms(3) by (rule nextfile_cases) simp
  have "\<exists>h. leads (lx_parent lx1) (lx_parent lx1 f) h \<and> file_name lx1 h = file_name lx1 f \<and>
      (h = f \<or> h < length (lx_files lx1) \<and> f < length (lx_files lx1))"
  proof (cases "f \<in> set gs")
    case True
    then show ?thesis using i assms(4) by (auto simp: own_parent_def)
  next
    case False
    then have n: "nested lx1 (f # gs)" using i by simp
    then have "leads (lx_parent lx1) (lx_parent lx1 f) g"
      using linked_leads[of "lx_parent lx1" "lx_parent lx1 f" gs g "lx_parent lx1 g"] g by (simp add: nested_def)
    then show ?thesis using n v g assms(5) by (auto simp: nested_def)
  qed
  then obtain h where h: "leads (lx_parent lx2) (lx_parent lx2 f) h" "file_name lx2 h = file_name lx2 f"
      "h = f \<or> h < length (lx_files lx2) \<and> f < length (lx_files lx2)"
    using assms(6) by (auto simp: reads_text_def file_name_def)
  show ?thesis using inclusion_is_refused[OF _ _ h assms(7,8)] assms(4,6) o by (simp add: reads_text_def)
qed

lemma action_returns [simp]: "return t lx \<noteq> None" "skip lx \<noteq> None"
  by (simp_all add: return_def skip_def)

lemma if_returns: "a \<noteq> None \<Longrightarrow> b \<noteq> None \<Longrightarrow> (if c then a else b) \<noteq> None"
  by simp

lemma piece_returns: "string_piece t r lx \<noteq> None" "zconf_endhelp lx \<noteq> None" "help_blanks ws r lx \<noteq> None"
  by (simp_all add: string_piece_def zconf_endhelp_def help_blanks_def Let_def return_def skip_def)

lemma rules_return:
  assumes "end_of_file lx \<noteq> None" shows "lex_rules lx \<noteq> None"
proof -
  note s = if_returns action_returns piece_returns assms
  have "initial_rules lx \<noteq> None" unfolding initial_rules_def Let_def
    by (cases "dropWhile blank (lx_in lx)"; cases "dropWhile (\<lambda>x. x \<noteq> nl) (tl (dropWhile blank (lx_in lx)))"; simp only: list.case list.sel; intro s)
  moreover have "command_rules lx \<noteq> None" unfolding command_rules_def
    by (cases "lx_in lx"; simp only: list.case; intro s)
  moreover have "param_rules lx \<noteq> None" unfolding param_rules_def Let_def
    by (cases "lx_in lx"; simp only: list.case; intro s)
  moreover have "string_rules lx \<noteq> None" unfolding string_rules_def
    by (cases "lx_in lx"; simp only: list.case; intro s)
  moreover have "help_rules lx \<noteq> None" unfolding help_rules_def Let_def
    by (cases "dropWhile blank (lx_in lx)"; simp only: list.case; intro s)
  ultimately show ?thesis by (cases "lx_mode lx") (simp_all add: lex_rules_def)
qed

lemma zconflex_total: "(lx_file lx \<noteq> None \<longrightarrow> lx_open lx) \<Longrightarrow> \<exists>t lx'. zconflex lx = Some (t, lx')"
proof (induction lx rule: zconflex.induct)
  case (1 lx)
  have "end_of_file lx \<noteq> None" using "1.prems" by (auto simp: end_of_file_def zconf_endfile_def return_def Let_def split: list.splits)
  then have "lex_rules lx \<noteq> None" using rules_return by blast
  then obtain u lx1 where u: "lex_rules lx = Some (u, lx1)" by auto
  show ?case
  proof (cases u)
    case (Some t)
    then show ?thesis using u zconflex_return by blast
  next
    case None
    then have "lx_file lx1 \<noteq> None \<longrightarrow> lx_open lx1" using rules_read[of lx] u "1.prems" by (auto simp: rule_reads_def reads_text_def)
    then show ?thesis using "1.IH"[OF u _ None] zconflex_skip u None by simp
  qed
qed


section \<open>An example\<close>

text \<open>A file that includes itself.\<close>

definition example_disk :: files where
  "example_disk = (\<lambda>_. None)(''Config.in'' := Some (''source Config.in'' @ newline))"

definition example_lexer :: lexer where
  "example_lexer = start_lexer\<lparr>lx_in := ''source Config.in'' @ newline, lx_open := True, lx_files := [''Config.in''],
     lx_file := Some 0, lx_line := (\<lambda>f. 0)(0 := 1)\<rparr>"

definition example_again :: lexer where
  "example_again = example_lexer\<lparr>lx_buffers := [lx_in example_lexer], lx_parent := (\<lambda>f. None)(0 := Some 0)\<rparr>"

lemma example_lookup: "file_lookup calc ''Config.in'' [] example_state = Some (''Config.in'', [''Config.in''], example_state)"
  "file_lookup calc ''Config.in'' [''Config.in''] example_state = Some (''Config.in'', [''Config.in''], example_state)"
  by (simp_all add: file_lookup_def expand_plain)

lemma example_source_text: "zconf_fopen outside_sys example_disk ''Config.in'' = Some (''source Config.in'' @ newline)"
  by (simp add: zconf_fopen_def example_disk_def)

lemma example_scans: "scans calc outside_sys example_disk example_lexer"
proof (rule scan_start)
  show "zconf_initscan calc outside_sys example_disk ''Config.in'' start_lexer example_state = Some (Inr (example_lexer, example_state))"
    by (simp add: zconf_initscan_def example_source_text example_lookup start_lexer_def example_lexer_def)
qed

lemma example_next:
  "zconf_nextfile calc outside_sys example_disk ''Config.in'' example_lexer example_state = Some (Inr (example_again, example_state))"
  by (simp add: zconf_nextfile_def example_source_text example_lookup start_lexer_def example_lexer_def example_again_def open_already.simps
      fun_eq_iff)

theorem lines_are_counted_witness:
  "\<exists>lx' p r. let lx = example_lexer\<lparr>lx_in := ''# x'' @ newline @ ''config A''\<rparr> in
     zconflex lx = Some (T_EOL, lx') \<and> lx_in lx = p @ r \<and> lx_line lx' = (lx_line lx)(0 := 1 + count_list p nl)"
proof -
  let ?lx = "example_lexer\<lparr>lx_in := ''# x'' @ newline @ ''config A''\<rparr>"
  have z: "zconflex ?lx = Some (T_EOL, count_line (rest_is ''config A'' ?lx))"
    by (rule zconflex_return) (simp add: lex_rules_def initial_rules_def example_lexer_def start_lexer_def blank_def nl_def newline_def)
  have "lx_file ?lx = Some 0" by (simp add: example_lexer_def)
  from lines_are_counted[OF z this] show ?thesis using z by (auto simp: example_lexer_def)
qed

theorem escaped_strings_are_read_witness:
  "zconflex (rest_is (sym_escape_string_value [CHR ''a'', CHR 0x5C, CHR 0x22] @ newline) (BEGIN PARAM start_lexer)) =
     Some (T_TEXT (T_WORD_QUOTE [CHR ''a'', CHR 0x5C, CHR 0x22]),
       (BEGIN PARAM start_lexer)\<lparr>lx_in := newline, lx_quote := CHR 0x22, lx_text := [CHR ''a'', CHR 0x5C, CHR 0x22]\<rparr>)"
  using escaped_strings_are_read[of "[CHR ''a'', CHR 0x5C, CHR 0x22]" "BEGIN PARAM start_lexer" newline]
  by (simp add: nl_def Let_def)

theorem recursion_is_reported_witness:
  "\<exists>path. zconf_nextfile (sym_calc_value 0) outside_sys example_disk ''Config.in'' example_again example_state =
     Some (Inl (recursion_message example_again path))"
proof -
  have l: "leads (lx_parent example_lexer) (lx_file example_lexer) 0" by (simp add: example_lexer_def leads_here)
  have f: "lx_file example_again = Some 0" "lx_files example_again = [''Config.in'']" "lx_out example_again = []"
    by (simp_all add: example_again_def example_lexer_def start_lexer_def)
  have r: "lx_out example_again @ recursion_message (example_again\<lparr>lx_files := [''Config.in'']\<rparr>) path = recursion_message example_again path" for path
    using f by (simp add: example_again_def example_lexer_def start_lexer_def)
  have "file_lookup (sym_calc_value 0) ''Config.in'' (lx_files example_again) example_state =
      Some (''Config.in'', [''Config.in''], example_state)" using f by (simp add: example_lookup)
  from recursion_is_reported[OF example_scans l example_next f(1) refl reads_nothing this example_source_text] show ?thesis by (simp add: r)
qed


end
