(* ===== verification/Toolchain_Wrapper.thy ===== *)
theory Toolchain_Wrapper
  imports C_Strings
begin

text \<open>
  toolchain/toolchain-wrapper.c: the search for unsafe paths, the parsing of SOURCE_DATE_EPOCH
  and the building of the argument list of the real compiler. The macros that the build defines
  are the fields of a record; \<open>realpath\<close>, \<open>readlink\<close>, \<open>localtime_r\<close> with \<open>strftime\<close> and the
  environment are arguments.
\<close>

section \<open>Unsafe paths\<close>

definition unsafe_paths :: "string list" where
  "unsafe_paths = [''/lib'', ''/usr/include'', ''/usr/lib'', ''/usr/local/include'', ''/usr/local/lib'']"

definition unsafe_opts :: "string list" where
  "unsafe_opts = [''-I'', ''-idirafter'', ''-iquote'', ''-isystem'', ''-L'']"

text \<open>
  \<open>check_unsafe_path\<close>: the messages (the argument and, where it is not part of the argument, the
  path) and whether the program exits with 1.
\<close>

type_synonym message = "string \<times> string"

fun check_paths :: "string list \<Rightarrow> string \<Rightarrow> string \<Rightarrow> bool \<Rightarrow> bool \<Rightarrow> message list \<times> bool" where
  "check_paths [] arg path paranoid arg_has_path = ([], False)"
| "check_paths (p # ps) arg path paranoid arg_has_path =
     (if \<not> starts_with path p then check_paths ps arg path paranoid arg_has_path
      else
        let m = (arg, if arg_has_path then [] else path) in
        if paranoid then ([m], True)
        else (case check_paths ps arg path paranoid arg_has_path of (ms, ex) \<Rightarrow> (m # ms, ex)))"

definition check_unsafe_path :: "string \<Rightarrow> string \<Rightarrow> bool \<Rightarrow> bool \<Rightarrow> message list \<times> bool" where
  "check_unsafe_path = check_paths unsafe_paths"

text \<open>
  The loop over the options for the argument \<open>a\<close>, which is followed by \<open>rest\<close>: when an option
  stands alone the next argument takes the place of \<open>a\<close> for the options that remain. The result
  has the arguments with which the outer loop continues.
\<close>

fun scan_opts :: "string list \<Rightarrow> bool \<Rightarrow> string \<Rightarrow> string list \<Rightarrow> message list \<times> bool \<times> string list" where
  "scan_opts [] paranoid a rest = ([], False, rest)"
| "scan_opts (opt # opts) paranoid a rest =
     (if \<not> starts_with a opt then scan_opts opts paranoid a rest
      else if drop (length opt) a = [] then
        (case rest of
           [] \<Rightarrow> ([], False, [])
         | b # rest' \<Rightarrow>
             (case check_unsafe_path a b paranoid False of
                (ms, True) \<Rightarrow> (ms, True, rest')
              | (ms, False) \<Rightarrow> (case scan_opts opts paranoid b rest' of (ms', r) \<Rightarrow> (ms @ ms', r))))
      else
        (case check_unsafe_path a (drop (length opt) a) paranoid True of
           (ms, True) \<Rightarrow> (ms, True, rest)
         | (ms, False) \<Rightarrow> (case scan_opts opts paranoid a rest of (ms', r) \<Rightarrow> (ms @ ms', r))))"

lemma scan_opts_length: "scan_opts opts par a rest = (ms, ex, r) \<Longrightarrow> length r \<le> length rest"
proof (induction opts par a rest arbitrary: ms r rule: scan_opts.induct)
  case (2 opt opts par a rest)
  then show ?case
    by (fastforce split: if_splits list.splits prod.splits bool.splits)
qed simp

function scan_args :: "bool \<Rightarrow> string list \<Rightarrow> message list \<times> bool" where
  "scan_args paranoid [] = ([], False)"
| "scan_args paranoid (a # rest) =
     (case scan_opts unsafe_opts paranoid a rest of
        (ms, True, r) \<Rightarrow> (ms, True)
      | (ms, False, r) \<Rightarrow> (case scan_args paranoid r of (ms', ex) \<Rightarrow> (ms @ ms', ex)))"
  by pat_completeness auto
termination scan_args
  by (relation "measure (length \<circ> snd)") (auto dest: scan_opts_length[OF sym])

section \<open>SOURCE_DATE_EPOCH\<close>

fun digits_rest :: "nat \<Rightarrow> string \<Rightarrow> string" where
  "digits_rest b [] = []"
| "digits_rest b (c # cs) = (case digit_of b c of None \<Rightarrow> c # cs | Some d \<Rightarrow> digits_rest b cs)"

text \<open>\<open>strtoll(s, &endptr, 10)\<close> with the rest of the string and whether errno is set.\<close>

definition strtoll10 :: "string \<Rightarrow> int \<times> string \<times> bool" where
  "strtoll10 s =
     (case read_sign (dropWhile isspace s) of (neg, r) \<Rightarrow>
        let n = digits_val 10 r 0; i = (if neg then - int n else int n); e = digits_rest 10 r
        in if e = r then (0, s, False) else (clamp_ll i, e, i > LLONG_MAX \<or> i < LLONG_MIN))"

text \<open>
  \<open>None\<close>: not set; \<open>Some None\<close>: the program exits with 1; otherwise the two arguments. \<open>date_time\<close>
  gives what \<open>strftime\<close> makes of the time, if \<open>localtime_r\<close> and both conversions succeed.
\<close>

definition parse_source_date_epoch ::
    "string option \<Rightarrow> (int \<Rightarrow> (string \<times> string) option) \<Rightarrow> (string \<times> string) option option" where
  "parse_source_date_epoch epoch_env date_time =
     (case epoch_env of
        None \<Rightarrow> None
      | Some s \<Rightarrow>
          (case strtoll10 s of (epoch, rest, err) \<Rightarrow>
             if err \<or> s = [] \<or> rest \<noteq> [] \<or> epoch < 0 then Some None else Some (date_time epoch)))"

section \<open>Paths\<close>

definition PATH_MAX :: nat where "PATH_MAX = 4096"

text \<open>\<open>strrchr(s, '/')\<close>: the text before the last slash and the text after it.\<close>

fun split_last_slash :: "string \<Rightarrow> (string \<times> string) option" where
  "split_last_slash [] = None"
| "split_last_slash (c # s) =
     (case split_last_slash s of
        Some (a, b) \<Rightarrow> Some (c # a, b)
      | None \<Rightarrow> if c = CHR ''/'' then Some ([], s) else None)"

text \<open>The loop that cuts the last two components of the path of the executable.\<close>

fun cut_components :: "nat \<Rightarrow> nat \<Rightarrow> string \<Rightarrow> string" where
  "cut_components 0 count s = s"
| "cut_components (Suc i) count s =
     (if Suc i < length s \<and> s ! Suc i = CHR ''/''
      then (if Suc count = 2 then take (Suc i) s else cut_components i (Suc count) (take (Suc i) s))
      else cut_components i count s)"

datatype cross_path = Cross_Rel string | Cross_Abs string | Cross_Default

record wrapper_cfg =
  w_ccache :: bool
  w_cross :: cross_path
  w_suffix :: string
  w_sysroot :: string
  w_abi :: "string option"
  w_nan :: "string option"
  w_fpu :: "string option"
  w_softfloat :: bool
  w_mode :: "string option"
  w_64 :: bool
  w_omit_lock_prefix :: bool
  w_no_fused_madd :: bool
  w_binfmt_flat :: bool
  w_little_endian :: bool
  w_big_endian :: bool
  w_additional_cflags :: "string list"
  w_float_abi :: "string option"
  w_fp32_mode :: "string option"
  w_arch :: "string option"
  w_cpu :: "string option"
  w_ccache_hash :: "string option"
  w_ccache_basedir :: "string option"

text \<open>The directory above the one of the wrapper and the name of the tool, or the exit status 2.\<close>

definition wrapper_dirs ::
    "(string \<Rightarrow> string option) \<Rightarrow> string option \<Rightarrow> string \<Rightarrow> nat + string \<times> string" where
  "wrapper_dirs realpath self progpath =
     (case split_last_slash progpath of
        Some (dir, basename) \<Rightarrow>
          (case realpath (dir @ ''/..'') of None \<Rightarrow> Inl 2 | Some d \<Rightarrow> Inr (d, basename))
      | None \<Rightarrow>
          (case self of None \<Rightarrow> Inl 2 | Some s \<Rightarrow> Inr (cut_components (length s) 0 s, progpath)))"

definition tool_path :: "wrapper_cfg \<Rightarrow> string \<Rightarrow> string \<Rightarrow> string" where
  "tool_path w absbasedir basename =
     (case w_cross w of
        Cross_Rel r \<Rightarrow> absbasedir @ ''/'' @ r @ ''/'' @ basename @ w_suffix w
      | Cross_Abs p \<Rightarrow> p @ ''/'' @ basename @ w_suffix w
      | Cross_Default \<Rightarrow> absbasedir @ ''/bin/'' @ basename @ w_suffix w)"

definition ccache_path :: "string \<Rightarrow> string" where
  "ccache_path absbasedir = absbasedir @ ''/bin/ccache''"

definition sysroot_path :: "wrapper_cfg \<Rightarrow> string \<Rightarrow> string" where
  "sysroot_path w absbasedir = absbasedir @ ''/'' @ w_sysroot w"

definition paths_fit :: "wrapper_cfg \<Rightarrow> string \<Rightarrow> string \<Rightarrow> bool" where
  "paths_fit w absbasedir basename \<longleftrightarrow>
     length (tool_path w absbasedir basename) < PATH_MAX \<and>
     (w_ccache w \<longrightarrow> length (ccache_path absbasedir) < PATH_MAX) \<and>
     length (sysroot_path w absbasedir) < PATH_MAX"

section \<open>Arguments\<close>

definition opt_arg :: "string \<Rightarrow> string option \<Rightarrow> string list" where
  "opt_arg p x = (case x of None \<Rightarrow> [] | Some s \<Rightarrow> [p @ s])"

definition flag_arg :: "string \<Rightarrow> bool \<Rightarrow> string list" where
  "flag_arg s b = (if b then [s] else [])"

definition predef_args :: "wrapper_cfg \<Rightarrow> string \<Rightarrow> string \<Rightarrow> string list" where
  "predef_args w absbasedir basename =
     flag_arg (ccache_path absbasedir) (w_ccache w) @
     [tool_path w absbasedir basename, ''--sysroot'', sysroot_path w absbasedir] @
     opt_arg ''-mabi='' (w_abi w) @ opt_arg ''-mnan='' (w_nan w) @ opt_arg ''-mfpu='' (w_fpu w) @
     flag_arg ''-msoft-float'' (w_softfloat w) @ opt_arg ''-m'' (w_mode w) @ flag_arg ''-m64'' (w_64 w) @
     flag_arg ''-Wa,-momit-lock-prefix=yes'' (w_omit_lock_prefix w) @
     flag_arg ''-mno-fused-madd'' (w_no_fused_madd w) @ flag_arg ''-Wl,-elf2flt'' (w_binfmt_flat w) @
     flag_arg ''-EL'' (w_little_endian w) @ flag_arg ''-EB'' (w_big_endian w) @ w_additional_cflags w"

text \<open>The float ABI, unless one of the arguments chooses it.\<close>

definition chooses_float :: "string \<Rightarrow> bool" where
  "chooses_float a \<longleftrightarrow> starts_with a ''-mfloat-abi='' \<or> a = ''-msoft-float'' \<or> a = ''-mhard-float''"

definition float_abi_args :: "wrapper_cfg \<Rightarrow> string list \<Rightarrow> string list" where
  "float_abi_args w argv = (if list_ex chooses_float argv then [] else opt_arg ''-mfloat-abi='' (w_float_abi w))"

fun add_fp32_mode :: "string list \<Rightarrow> bool \<Rightarrow> bool" where
  "add_fp32_mode [] add = add"
| "add_fp32_mode (a # as) add =
     add_fp32_mode as (if a = ''-msoft-float'' then False else if a = ''-mhard-float'' then True else add)"

definition fp32_args :: "wrapper_cfg \<Rightarrow> string list \<Rightarrow> string list" where
  "fp32_args w argv = (if add_fp32_mode argv True then opt_arg ''-mfp'' (w_fp32_mode w) else [])"

definition chooses_cpu :: "string \<Rightarrow> bool" where
  "chooses_cpu a \<longleftrightarrow> starts_with a ''-march='' \<or> starts_with a ''-mtune='' \<or> starts_with a ''-mcpu=''"

definition cpu_args :: "wrapper_cfg \<Rightarrow> string list \<Rightarrow> string list" where
  "cpu_args w argv = (if list_ex chooses_cpu argv then [] else opt_arg ''-march='' (w_arch w) @ opt_arg ''-mcpu='' (w_cpu w))"

definition epoch_args :: "(string \<times> string) option \<Rightarrow> string list" where
  "epoch_args e = (case e of None \<Rightarrow> [] | Some (t, d) \<Rightarrow> [t, d, ''-Wno-builtin-macro-redefined''])"

definition extra_args :: "wrapper_cfg \<Rightarrow> (string \<times> string) option \<Rightarrow> string list \<Rightarrow> string list" where
  "extra_args w e argv = float_abi_args w argv @ fp32_args w argv @ cpu_args w argv @ epoch_args e"

definition EXCLUSIVE_ARGS :: nat where "EXCLUSIVE_ARGS = 6"

text \<open>The pointers that \<open>args\<close> has room for, and those that are stored, the final NULL included.\<close>

definition args_capacity :: "wrapper_cfg \<Rightarrow> string \<Rightarrow> string \<Rightarrow> string list \<Rightarrow> nat" where
  "args_capacity w absbasedir basename argv =
     length (predef_args w absbasedir basename) + (Suc (length argv) + EXCLUSIVE_ARGS)"

definition args_stored :: "wrapper_cfg \<Rightarrow> string \<Rightarrow> string \<Rightarrow> (string \<times> string) option \<Rightarrow> string list \<Rightarrow> nat" where
  "args_stored w absbasedir basename e argv =
     length (predef_args w absbasedir basename) + length (extra_args w e argv) + length argv + 1"

section \<open>The program\<close>

datatype outcome =
  Exit nat "message list"
| Exec "string list" "(string \<times> string) list" "message list"

definition default_env :: "string \<Rightarrow> string option \<Rightarrow> (string \<Rightarrow> string option) \<Rightarrow> (string \<times> string) list" where
  "default_env name v env = (case v of None \<Rightarrow> [] | Some s \<Rightarrow> if env name = None then [(name, s)] else [])"

definition is_paranoid :: "(string \<Rightarrow> string option) \<Rightarrow> bool" where
  "is_paranoid env = (case env ''BR_COMPILER_PARANOID_UNSAFE_PATH'' of None \<Rightarrow> False | Some s \<Rightarrow> s \<noteq> [])"

definition exec_args :: "wrapper_cfg \<Rightarrow> (string \<Rightarrow> string option) \<Rightarrow> string list \<Rightarrow> string list" where
  "exec_args w env args = (if w_ccache w \<and> env ''BR_NO_CCACHE'' \<noteq> None then tl args else args)"

text \<open>
  \<open>main\<close> up to \<open>execv\<close>, for \<open>malloc\<close> and \<open>setenv\<close> that succeed; \<open>argv\<close> are the arguments after the
  name of the program.
\<close>

definition wrapper_main ::
    "wrapper_cfg \<Rightarrow> (string \<Rightarrow> string option) \<Rightarrow> string option \<Rightarrow> (int \<Rightarrow> (string \<times> string) option) \<Rightarrow>
     (string \<Rightarrow> string option) \<Rightarrow> string \<Rightarrow> string list \<Rightarrow> outcome" where
  "wrapper_main w realpath self date_time env progpath argv =
     (case wrapper_dirs realpath self progpath of
        Inl n \<Rightarrow> Exit n []
      | Inr (absbasedir, basename) \<Rightarrow>
          if \<not> paths_fit w absbasedir basename then Exit 3 []
          else (case parse_source_date_epoch (env ''SOURCE_DATE_EPOCH'') date_time of
                  Some None \<Rightarrow> Exit 1 []
                | epoch \<Rightarrow>
                    (case scan_args (is_paranoid env) argv of
                       (ms, True) \<Rightarrow> Exit 1 ms
                     | (ms, False) \<Rightarrow>
                         Exec (exec_args w env (predef_args w absbasedir basename @
                                 extra_args w (Option.bind epoch id) argv @ argv))
                           (default_env ''CCACHE_COMPILERCHECK'' (map_option ((@) ''string:'') (w_ccache_hash w)) env @
                            default_env ''CCACHE_BASEDIR'' (w_ccache_basedir w) env)
                           ms)))"

section \<open>The search for unsafe paths\<close>

definition unsafe :: "string \<Rightarrow> bool" where
  "unsafe path \<longleftrightarrow> (\<exists>p\<in>set unsafe_paths. starts_with path p)"

lemma check_paths_found:
  "check_paths ps a path par b = (ms, ex) \<Longrightarrow>
     (ms \<noteq> [] \<longleftrightarrow> (\<exists>p\<in>set ps. starts_with path p)) \<and> (ex \<longleftrightarrow> par \<and> ms \<noteq> []) \<and>
     (\<forall>m\<in>set ms. m = (a, if b then [] else path))"
  by (induction ps arbitrary: ms ex) (auto simp: Let_def split: if_splits prod.splits)

lemma check_unsafe_path_found:
  "check_unsafe_path a path par b = (ms, ex) \<Longrightarrow>
     (ms \<noteq> [] \<longleftrightarrow> unsafe path) \<and> (ex \<longleftrightarrow> par \<and> unsafe path) \<and> (\<forall>m\<in>set ms. m = (a, if b then [] else path))"
  unfolding check_unsafe_path_def unsafe_def using check_paths_found by blast

text \<open>
  An argument gives a path to an option if the option starts it; it stands alone if it is just
  the option.
\<close>

definition with_path :: "string \<Rightarrow> bool" where
  "with_path a \<longleftrightarrow> (\<exists>opt\<in>set unsafe_opts. starts_with a opt \<and> drop (length opt) a \<noteq> [] \<and> unsafe (drop (length opt) a))"

definition alone :: "string \<Rightarrow> bool" where
  "alone a \<longleftrightarrow> a \<in> set unsafe_opts"

lemma scan_no_option:
  "(\<forall>opt\<in>set opts. \<not> starts_with a opt) \<Longrightarrow> scan_opts opts par a rest = ([], False, rest)"
  by (induction opts) auto

text \<open>An argument that is not just an option is checked by itself and the next one follows.\<close>

lemma scan_with_path:
  "a \<notin> set opts \<Longrightarrow> scan_opts opts par a rest = (ms, ex, r) \<Longrightarrow>
     r = rest \<and>
     (ms \<noteq> [] \<longleftrightarrow> (\<exists>opt\<in>set opts. starts_with a opt \<and> unsafe (drop (length opt) a))) \<and>
     (ex \<longleftrightarrow> par \<and> ms \<noteq> [])"
proof (induction opts arbitrary: ms ex r)
  case (Cons opt opts)
  show ?case
  proof (cases "starts_with a opt")
    case False
    then show ?thesis using Cons by auto
  next
    case True
    have ne: "drop (length opt) a \<noteq> []"
      using Cons.prems(1) starts_with_drop[OF True] by auto
    obtain ms1 ex1 where c: "check_unsafe_path a (drop (length opt) a) par True = (ms1, ex1)"
      by (cases "check_unsafe_path a (drop (length opt) a) par True")
    note f = check_unsafe_path_found[OF c]
    obtain ms2 ex2 r2 where s: "scan_opts opts par a rest = (ms2, ex2, r2)"
      by (cases "scan_opts opts par a rest") auto
    have "a \<notin> set opts" using Cons.prems(1) by simp
    note ih = Cons.IH[OF this s]
    show ?thesis
      using Cons.prems(2) True ne c f s ih by (cases ex1) auto
  qed
qed simp

lemma scan_alone:
  assumes "alone a" and "\<forall>opt\<in>set unsafe_opts. \<not> starts_with b opt"
  shows "scan_opts unsafe_opts par a (b # r) = (case check_unsafe_path a b par False of (ms, ex) \<Rightarrow> (ms, ex, r))"
    and "scan_opts unsafe_opts par a [] = ([], False, [])"
proof -
  have nb: "\<not> starts_with b ''-I''" "\<not> starts_with b ''-idirafter''" "\<not> starts_with b ''-iquote''"
    "\<not> starts_with b ''-isystem''" "\<not> starts_with b ''-L''"
    using assms(2) by (simp_all add: unsafe_opts_def)
  have a: "a = ''-I'' \<or> a = ''-idirafter'' \<or> a = ''-iquote'' \<or> a = ''-isystem'' \<or> a = ''-L''"
    using assms(1) by (simp add: alone_def unsafe_opts_def)
  obtain ms ex where c: "check_unsafe_path a b par False = (ms, ex)" by (cases "check_unsafe_path a b par False")
  show "scan_opts unsafe_opts par a (b # r) = (case check_unsafe_path a b par False of (ms, ex) \<Rightarrow> (ms, ex, r))"
    using a by (elim disjE; cases ex) (use c in \<open>simp_all add: unsafe_opts_def nb\<close>)
  show "scan_opts unsafe_opts par a [] = ([], False, [])"
    using a by (elim disjE) (simp_all add: unsafe_opts_def)
qed

text \<open>
  The paths that the compiler would take from the arguments, and the arguments in which no path
  that stands alone looks like an option itself.
\<close>

fun unsafe_in :: "string list \<Rightarrow> bool" where
  "unsafe_in [] = False"
| "unsafe_in [a] = (\<not> alone a \<and> with_path a)"
| "unsafe_in (a # b # r) = (if alone a then unsafe b \<or> unsafe_in r else with_path a \<or> unsafe_in (b # r))"

fun regular :: "string list \<Rightarrow> bool" where
  "regular [] = True"
| "regular [a] = True"
| "regular (a # b # r) =
     (if alone a then (\<forall>opt\<in>set unsafe_opts. \<not> starts_with b opt) \<and> regular r else regular (b # r))"

lemma with_path_iff:
  "\<not> alone a \<Longrightarrow> (\<exists>opt\<in>set unsafe_opts. starts_with a opt \<and> unsafe (drop (length opt) a)) = with_path a"
proof -
  have "drop (length opt) a \<noteq> []" if "unsafe (drop (length opt) a)" for opt
    using that by (auto simp: unsafe_def unsafe_paths_def)
  then show ?thesis by (auto simp: with_path_def)
qed

lemma scan_args_exact:
  "regular args \<Longrightarrow> scan_args par args = (ms, ex) \<Longrightarrow> (ms \<noteq> [] \<longleftrightarrow> unsafe_in args) \<and> (ex \<longleftrightarrow> par \<and> unsafe_in args)"
proof (induction args arbitrary: ms ex rule: unsafe_in.induct)
  case (2 a)
  show ?case
  proof (cases "alone a")
    case True
    have "\<forall>opt\<in>set unsafe_opts. \<not> starts_with [] opt" by (simp add: unsafe_opts_def)
    with 2 True scan_alone(2)[OF True this] show ?thesis by simp
  next
    case False
    obtain m e r where s: "scan_opts unsafe_opts par a [] = (m, e, r)" by (cases "scan_opts unsafe_opts par a []") auto
    have "a \<notin> set unsafe_opts" using False by (simp add: alone_def)
    from scan_with_path[OF this s] with_path_iff[OF False] 2 s False show ?thesis by (cases e) auto
  qed
next
  case (3 a b r)
  show ?case
  proof (cases "alone a")
    case True
    then have b: "\<forall>opt\<in>set unsafe_opts. \<not> starts_with b opt" "regular r" using "3.prems"(1) by auto
    obtain m e where c: "check_unsafe_path a b par False = (m, e)" by (cases "check_unsafe_path a b par False")
    obtain m' e' where s: "scan_args par r = (m', e')" by (cases "scan_args par r")
    show ?thesis
      using True "3.IH"(1)[OF True b(2) s] check_unsafe_path_found[OF c] "3.prems"(2) scan_alone(1)[OF True b(1), of par r] c s
      by (cases e) auto
  next
    case False
    obtain m e q where s: "scan_opts unsafe_opts par a (b # r) = (m, e, q)"
      by (cases "scan_opts unsafe_opts par a (b # r)") auto
    obtain m' e' where s': "scan_args par (b # r) = (m', e')" by (cases "scan_args par (b # r)")
    have "a \<notin> set unsafe_opts" using False by (simp add: alone_def)
    note w = scan_with_path[OF this s]
    have q: "q = b # r" using w by simp
    have r: "regular (b # r)" using "3.prems"(1) False by simp
    have "(ms, ex) = (if e then (m, True) else (m @ m', e'))"
      using "3.prems"(2) s s' q scan_args.simps(2)[of par a "b # r"] by (simp split: bool.splits)
    with False "3.IH"(2)[OF False r s'] w with_path_iff[OF False] show ?thesis
      by (auto split: if_splits)
  qed
qed simp

text \<open>
  C32: the wrapper warns about the arguments, or in paranoid mode exits with 1, exactly when an
  option names an unsafe path, whether the path is part of the option's argument or follows it,
  as long as no path that follows an option looks like an option itself.
\<close>

theorem unsafe_paths_are_found:
  assumes "regular argv"
  shows "(fst (scan_args paranoid argv) \<noteq> [] \<longleftrightarrow> unsafe_in argv) \<and>
         (snd (scan_args paranoid argv) \<longleftrightarrow> paranoid \<and> unsafe_in argv)"
  using scan_args_exact[OF assms, of paranoid] by (cases "scan_args paranoid argv") auto

theorem unsafe_paths_are_found_witness:
  "snd (scan_args True [''-O2'', ''-isystem'', ''/usr/include/foo'', ''-c'']) \<and>
   \<not> snd (scan_args True [''-Iinclude'', ''-L'', ''/opt/lib''])"
proof -
  have a: "regular [''-O2'', ''-isystem'', ''/usr/include/foo'', ''-c'']" "unsafe_in [''-O2'', ''-isystem'', ''/usr/include/foo'', ''-c'']"
    by (simp_all add: alone_def unsafe_opts_def unsafe_def unsafe_paths_def)
  have b: "regular [''-Iinclude'', ''-L'', ''/opt/lib'']" "\<not> unsafe_in [''-Iinclude'', ''-L'', ''/opt/lib'']"
    by (simp_all add: alone_def with_path_def unsafe_opts_def unsafe_def unsafe_paths_def)
  from unsafe_paths_are_found[OF a(1), of True] unsafe_paths_are_found[OF b(1), of True] a(2) b(2)
  show ?thesis by blast
qed

section \<open>The arguments of the compiler\<close>

lemma opt_arg_length: "length (opt_arg p x) \<le> 1" by (simp add: opt_arg_def split: option.splits)

lemma opt_arg_some: "length (opt_arg p x) = 1 \<longleftrightarrow> x \<noteq> None" by (simp add: opt_arg_def split: option.splits)

text \<open>
  C39: the array of arguments is large enough unless all seven extra arguments are passed at
  once: float ABI, FP32 mode, architecture and CPU are all built in, none is overridden, and
  SOURCE_DATE_EPOCH is set. Then the final NULL is written one past its end.
\<close>

theorem args_fit_iff:
  "args_stored w absbasedir basename e argv \<le> args_capacity w absbasedir basename argv \<longleftrightarrow>
     \<not> (w_float_abi w \<noteq> None \<and> w_fp32_mode w \<noteq> None \<and> w_arch w \<noteq> None \<and> w_cpu w \<noteq> None \<and> e \<noteq> None \<and>
        \<not> list_ex chooses_float argv \<and> add_fp32_mode argv True \<and> \<not> list_ex chooses_cpu argv)"
  by (auto simp: args_stored_def args_capacity_def extra_args_def float_abi_args_def fp32_args_def cpu_args_def
      epoch_args_def EXCLUSIVE_ARGS_def opt_arg_def split: option.splits)

lemma strtoll10_sign:
  assumes "strtoll10 s = (v, [], False)" and "0 \<le> v" and "s \<noteq> []"
  shows "v \<le> LLONG_MAX"
  using assms by (auto simp: strtoll10_def clamp_ll_def Let_def LLONG_MAX_def split: prod.splits if_splits)


definition example_cfg :: wrapper_cfg where
  "example_cfg = \<lparr>w_ccache = False, w_cross = Cross_Rel ''opt/ext/bin'', w_suffix = ''.br_real'', w_sysroot = ''sysroot'',
     w_abi = None, w_nan = None, w_fpu = Some ''vfpv3'', w_softfloat = False, w_mode = None, w_64 = False,
     w_omit_lock_prefix = False, w_no_fused_madd = False, w_binfmt_flat = False, w_little_endian = False,
     w_big_endian = False, w_additional_cflags = [], w_float_abi = Some ''hard'', w_fp32_mode = None,
     w_arch = None, w_cpu = Some ''cortex-a7'', w_ccache_hash = None, w_ccache_basedir = None\<rparr>"

definition example_env :: "string \<Rightarrow> string option" where
  "example_env name = (if name = ''BR_COMPILER_PARANOID_UNSAFE_PATH'' then Some ''1'' else None)"

lemma example_main:
  "wrapper_main example_cfg (\<lambda>p. Some ''/br/host'') None (\<lambda>_. None) example_env ''/br/host/bin/gcc'' [''-Iinclude'', ''-mcpu=arm7''] =
   Exec [''/br/host/opt/ext/bin/gcc.br_real'', ''--sysroot'', ''/br/host/sysroot'', ''-mfpu=vfpv3'',
         ''-mfloat-abi=hard'', ''-Iinclude'', ''-mcpu=arm7''] [] []"
proof -
  have d: "wrapper_dirs (\<lambda>p. Some ''/br/host'') None ''/br/host/bin/gcc'' = Inr (''/br/host'', ''gcc'')"
    by (simp add: wrapper_dirs_def)
  have f: "paths_fit example_cfg ''/br/host'' ''gcc''"
    by (simp add: paths_fit_def tool_path_def sysroot_path_def ccache_path_def example_cfg_def PATH_MAX_def)
  have s: "scan_args True [''-Iinclude'', ''-mcpu=arm7''] = ([], False)"
    by (simp add: unsafe_opts_def check_unsafe_path_def unsafe_paths_def)
  have p: "is_paranoid example_env" "example_env ''SOURCE_DATE_EPOCH'' = None" "example_env ''BR_NO_CCACHE'' = None"
    by (simp_all add: is_paranoid_def example_env_def)
  have x: "extra_args example_cfg None [''-Iinclude'', ''-mcpu=arm7''] = [''-mfloat-abi=hard'']"
    by (simp add: extra_args_def float_abi_args_def fp32_args_def cpu_args_def epoch_args_def chooses_float_def
        chooses_cpu_def opt_arg_def example_cfg_def)
  have a: "predef_args example_cfg ''/br/host'' ''gcc'' =
      [''/br/host/opt/ext/bin/gcc.br_real'', ''--sysroot'', ''/br/host/sysroot'', ''-mfpu=vfpv3'']"
    by (simp add: predef_args_def tool_path_def sysroot_path_def opt_arg_def flag_arg_def example_cfg_def)
  have e: "default_env ''CCACHE_COMPILERCHECK'' (map_option ((@) ''string:'') (w_ccache_hash example_cfg)) example_env = []"
    "default_env ''CCACHE_BASEDIR'' (w_ccache_basedir example_cfg) example_env = []"
    by (simp_all add: default_env_def example_cfg_def)
  show ?thesis
    unfolding wrapper_main_def by (simp add: d f s p x a e exec_args_def parse_source_date_epoch_def del: scan_args.simps)
qed


end
