(* ===== verification/C_Bytes.thy ===== *)
theory C_Bytes
  imports Prelude
begin

text \<open>
  Memory as lists of bytes: words in the order of a little-endian machine, copies into a buffer, with and
  without a check of its bounds.
\<close>

section \<open>Words\<close>

text \<open>Reading four bytes as a \<open>uint32\<close>, and storing one.\<close>

definition le_word :: "u8 \<Rightarrow> u8 \<Rightarrow> u8 \<Rightarrow> u8 \<Rightarrow> u32" where
  "le_word b0 b1 b2 b3 =
     push_bit 16 (push_bit 8 (ucast b3) OR ucast b2) OR (push_bit 8 (ucast b1) OR ucast b0)"

definition le_bytes :: "u32 \<Rightarrow> u8 list" where
  "le_bytes w = [ucast w, ucast (drop_bit 8 w), ucast (drop_bit 16 w), ucast (drop_bit 24 w)]"

lemma le_bytes_length [simp]: "length (le_bytes w) = 4"
  by (simp add: le_bytes_def)

section \<open>Buffers\<close>

text \<open>\<open>memcpy(p + i, xs, length xs)\<close>.\<close>

definition overwrite :: "nat \<Rightarrow> 'a list \<Rightarrow> 'a list \<Rightarrow> 'a list" where
  "overwrite i xs p = take i p @ xs @ drop (i + length xs) p"

lemma overwrite_length [simp]: "i + length xs \<le> length p \<Longrightarrow> length (overwrite i xs p) = length p"
  by (simp add: overwrite_def)

lemma take_overwrite: "i \<le> length p \<Longrightarrow> take (i + length xs) (overwrite i xs p) = take i p @ xs"
  by (simp add: overwrite_def)

lemma overwrite_all: "length xs = length p \<Longrightarrow> overwrite 0 xs p = xs"
  by (simp add: overwrite_def)

lemma overwrite_step:
  assumes "take i p = xs" and "i + length ys \<le> length p"
  shows "take (i + length ys) (overwrite i ys p) = xs @ ys" and "length (overwrite i ys p) = length p"
  using assms(2) by (simp_all add: overwrite_def flip: assms(1))

lemma overwrite_rest: "i + length ys = length p \<Longrightarrow> overwrite i ys p = take i p @ ys"
  by (simp add: overwrite_def)

text \<open>None: something outside the buffer would be written.\<close>

definition write_at :: "nat \<Rightarrow> 'a list \<Rightarrow> 'a list \<Rightarrow> 'a list option" where
  "write_at i xs p = (if i + length xs \<le> length p then Some (overwrite i xs p) else None)"

lemma write_at_length: "write_at i xs p = Some q \<Longrightarrow> length q = length p"
  by (auto simp: write_at_def split: if_splits)

lemma write_at_nth: "write_at i xs p = Some q \<Longrightarrow> j < length p \<Longrightarrow> q ! j = (if i \<le> j \<and> j < i + length xs then xs ! (j - i) else p ! j)"
  by (auto simp: write_at_def overwrite_def nth_append split: if_splits)

end
