(* ===== verification/Mcookie.thy ===== *)
theory Mcookie
  imports C_Bytes
begin

text \<open>
  package/x11r7/mcookie/mcookie.c: the MD5 of the program, for a little-endian machine on which
  \<open>uint32\<close> has 32 bits, and the gathering of the bytes that it hashes. The reference is the
  algorithm of RFC 1321 on whole messages; the locale states the contract of an incremental
  hash.
\<close>

section \<open>MD5Transform\<close>

definition F1 :: "u32 \<Rightarrow> u32 \<Rightarrow> u32 \<Rightarrow> u32" where "F1 x y z = z XOR (x AND (y XOR z))"
definition F2 :: "u32 \<Rightarrow> u32 \<Rightarrow> u32 \<Rightarrow> u32" where "F2 x y z = F1 z x y"
definition F3 :: "u32 \<Rightarrow> u32 \<Rightarrow> u32 \<Rightarrow> u32" where "F3 x y z = (x XOR y) XOR z"
definition F4 :: "u32 \<Rightarrow> u32 \<Rightarrow> u32 \<Rightarrow> u32" where "F4 x y z = y XOR (x OR NOT z)"

type_synonym round_function = "u32 \<Rightarrow> u32 \<Rightarrow> u32 \<Rightarrow> u32"
type_synonym quad = "u32 \<times> u32 \<times> u32 \<times> u32"

text \<open>\<open>MD5STEP\<close>: the new value of \<open>w\<close>.\<close>

definition MD5STEP :: "round_function \<Rightarrow> u32 \<Rightarrow> u32 \<Rightarrow> u32 \<Rightarrow> u32 \<Rightarrow> u32 \<Rightarrow> nat \<Rightarrow> u32" where
  "MD5STEP f w x y z data s =
     (let w1 = w + (f x y z + data);
          w2 = push_bit s w1 OR drop_bit (32 - s) w1
      in w2 + x)"

text \<open>
  The 64 steps as the code lists them: function, index of the input word, constant and shift. The
  four variables change their roles from step to step: after a step on \<open>(a, b, c, d)\<close> comes one on
  \<open>(d, a, b, c)\<close>.
\<close>

definition md5_steps :: "(round_function \<times> nat \<times> u32 \<times> nat) list" where
  "md5_steps = [
   (F1, 0, 0xd76aa478, 7), (F1, 1, 0xe8c7b756, 12), (F1, 2, 0x242070db, 17), (F1, 3, 0xc1bdceee, 22),
   (F1, 4, 0xf57c0faf, 7), (F1, 5, 0x4787c62a, 12), (F1, 6, 0xa8304613, 17), (F1, 7, 0xfd469501, 22),
   (F1, 8, 0x698098d8, 7), (F1, 9, 0x8b44f7af, 12), (F1, 10, 0xffff5bb1, 17), (F1, 11, 0x895cd7be, 22),
   (F1, 12, 0x6b901122, 7), (F1, 13, 0xfd987193, 12), (F1, 14, 0xa679438e, 17), (F1, 15, 0x49b40821, 22),
   (F2, 1, 0xf61e2562, 5), (F2, 6, 0xc040b340, 9), (F2, 11, 0x265e5a51, 14), (F2, 0, 0xe9b6c7aa, 20),
   (F2, 5, 0xd62f105d, 5), (F2, 10, 0x02441453, 9), (F2, 15, 0xd8a1e681, 14), (F2, 4, 0xe7d3fbc8, 20),
   (F2, 9, 0x21e1cde6, 5), (F2, 14, 0xc33707d6, 9), (F2, 3, 0xf4d50d87, 14), (F2, 8, 0x455a14ed, 20),
   (F2, 13, 0xa9e3e905, 5), (F2, 2, 0xfcefa3f8, 9), (F2, 7, 0x676f02d9, 14), (F2, 12, 0x8d2a4c8a, 20),
   (F3, 5, 0xfffa3942, 4), (F3, 8, 0x8771f681, 11), (F3, 11, 0x6d9d6122, 16), (F3, 14, 0xfde5380c, 23),
   (F3, 1, 0xa4beea44, 4), (F3, 4, 0x4bdecfa9, 11), (F3, 7, 0xf6bb4b60, 16), (F3, 10, 0xbebfbc70, 23),
   (F3, 13, 0x289b7ec6, 4), (F3, 0, 0xeaa127fa, 11), (F3, 3, 0xd4ef3085, 16), (F3, 6, 0x04881d05, 23),
   (F3, 9, 0xd9d4d039, 4), (F3, 12, 0xe6db99e5, 11), (F3, 15, 0x1fa27cf8, 16), (F3, 2, 0xc4ac5665, 23),
   (F4, 0, 0xf4292244, 6), (F4, 7, 0x432aff97, 10), (F4, 14, 0xab9423a7, 15), (F4, 5, 0xfc93a039, 21),
   (F4, 12, 0x655b59c3, 6), (F4, 3, 0x8f0ccc92, 10), (F4, 10, 0xffeff47d, 15), (F4, 1, 0x85845dd1, 21),
   (F4, 8, 0x6fa87e4f, 6), (F4, 15, 0xfe2ce6e0, 10), (F4, 6, 0xa3014314, 15), (F4, 13, 0x4e0811a1, 21),
   (F4, 4, 0xf7537e82, 6), (F4, 11, 0xbd3af235, 10), (F4, 2, 0x2ad7d2bb, 15), (F4, 9, 0xeb86d391, 21)]"

fun run_steps :: "(round_function \<times> nat \<times> u32 \<times> nat) list \<Rightarrow> u32 list \<Rightarrow> quad \<Rightarrow> quad" where
  "run_steps [] inp q = q"
| "run_steps ((f, i, k, s) # steps) inp (w, x, y, z) =
     run_steps steps inp (z, MD5STEP f w x y z (inp ! i + k) s, x, y)"

definition MD5Transform :: "quad \<Rightarrow> u32 list \<Rightarrow> quad" where
  "MD5Transform buf inp =
     (case buf of (b0, b1, b2, b3) \<Rightarrow>
        case run_steps md5_steps inp (b0, b1, b2, b3) of (a, b, c, d) \<Rightarrow> (b0 + a, b1 + b, b2 + c, b3 + d))"

text \<open>The buffer as words.\<close>

fun words_of :: "u8 list \<Rightarrow> u32 list" where
  "words_of (a # b # c # d # r) = le_word a b c d # words_of r"
| "words_of _ = []"

section \<open>The context\<close>

record md5ctx =
  m_buf :: quad
  m_bits0 :: u32
  m_bits1 :: u32
  m_in :: "u8 list"

definition md5_iv :: quad where
  "md5_iv = (0x67452301, 0xefcdab89, 0x98badcfe, 0x10325476)"

definition MD5Init :: "md5ctx \<Rightarrow> md5ctx" where
  "MD5Init ctx = ctx\<lparr>m_buf := md5_iv, m_bits0 := 0, m_bits1 := 0\<rparr>"

definition transform_in :: "md5ctx \<Rightarrow> md5ctx" where
  "transform_in ctx = ctx\<lparr>m_buf := MD5Transform (m_buf ctx) (words_of (m_in ctx))\<rparr>"

text \<open>The loop over the 64-byte chunks and the copy of the remaining bytes.\<close>

function update_chunks :: "md5ctx \<Rightarrow> u8 list \<Rightarrow> md5ctx" where
  "update_chunks ctx data =
     (if 64 \<le> length data
      then update_chunks (transform_in (ctx\<lparr>m_in := overwrite 0 (take 64 data) (m_in ctx)\<rparr>)) (drop 64 data)
      else ctx\<lparr>m_in := overwrite 0 data (m_in ctx)\<rparr>)"
  by pat_completeness auto
termination update_chunks by (relation "measure (length \<circ> snd)") auto

declare update_chunks.simps [simp del]

definition count_bits :: "nat \<Rightarrow> md5ctx \<Rightarrow> md5ctx" where
  "count_bits n ctx =
     (let len = word_of_nat n; t = m_bits0 ctx; b0 = t + push_bit 3 len in
      ctx\<lparr>m_bits0 := b0, m_bits1 := (m_bits1 ctx + (if b0 < t then 1 else 0)) + drop_bit 29 len\<rparr>)"

text \<open>The number of bytes that \<open>in\<close> holds.\<close>

definition bytes_held :: "u32 \<Rightarrow> nat" where
  "bytes_held t = unat (drop_bit 3 t AND 0x3f)"

definition MD5Update :: "md5ctx \<Rightarrow> u8 list \<Rightarrow> md5ctx" where
  "MD5Update ctx data =
     (let ctx1 = count_bits (length data) ctx; t = bytes_held (m_bits0 ctx) in
      if t \<noteq> 0 then
        (let n = 64 - t in
         if length data < n then ctx1\<lparr>m_in := overwrite t data (m_in ctx1)\<rparr>
         else update_chunks (transform_in (ctx1\<lparr>m_in := overwrite t (take n data) (m_in ctx1)\<rparr>)) (drop n data))
      else update_chunks ctx1 data)"

text \<open>The padding, the length and the digest; the context is cleared afterwards.\<close>

definition MD5Final_context :: "md5ctx \<Rightarrow> md5ctx" where
  "MD5Final_context ctx =
     (let t = bytes_held (m_bits0 ctx);
          ctx1 = ctx\<lparr>m_in := overwrite t [0x80] (m_in ctx)\<rparr>;
          count = 63 - t;
          ctx2 = (if count < 8 then
                    (let c = transform_in (ctx1\<lparr>m_in := overwrite (Suc t) (replicate count 0) (m_in ctx1)\<rparr>)
                     in c\<lparr>m_in := overwrite 0 (replicate 56 0) (m_in c)\<rparr>)
                  else ctx1\<lparr>m_in := overwrite (Suc t) (replicate (count - 8) 0) (m_in ctx1)\<rparr>);
          ctx3 = ctx2\<lparr>m_in := overwrite 56 (le_bytes (m_bits0 ctx2) @ le_bytes (m_bits1 ctx2)) (m_in ctx2)\<rparr>
      in transform_in ctx3)"

fun quad_bytes :: "quad \<Rightarrow> u8 list" where
  "quad_bytes (a, b, c, d) = le_bytes a @ le_bytes b @ le_bytes c @ le_bytes d"

definition MD5Final :: "md5ctx \<Rightarrow> u8 list \<times> md5ctx" where
  "MD5Final ctx =
     (quad_bytes (m_buf (MD5Final_context ctx)),
      \<lparr>m_buf = (0, 0, 0, 0), m_bits0 = 0, m_bits1 = 0, m_in = replicate 64 0\<rparr>)"

section \<open>The reference\<close>

definition rfc_F :: round_function where "rfc_F x y z = (x AND y) OR (NOT x AND z)"
definition rfc_G :: round_function where "rfc_G x y z = (x AND z) OR (y AND NOT z)"
definition rfc_H :: round_function where "rfc_H x y z = x XOR (y XOR z)"
definition rfc_I :: round_function where "rfc_I x y z = y XOR (x OR NOT z)"

definition rfc_fun :: "nat \<Rightarrow> round_function" where
  "rfc_fun i = (if i < 16 then rfc_F else if i < 32 then rfc_G else if i < 48 then rfc_H else rfc_I)"

definition rfc_index :: "nat \<Rightarrow> nat" where
  "rfc_index i = (if i < 16 then i else if i < 32 then (5 * i + 1) mod 16
                  else if i < 48 then (3 * i + 5) mod 16 else (7 * i) mod 16)"

definition rfc_shift :: "nat \<Rightarrow> nat" where
  "rfc_shift i = [[7, 12, 17, 22], [5, 9, 14, 20], [4, 11, 16, 23], [6, 10, 15, 21]] ! (i div 16) ! (i mod 4)"

lemma F_rfc: "F1 = rfc_F" "F2 = rfc_G" "F3 = rfc_H" "F4 = rfc_I"
proof -
  show "F1 = rfc_F" unfolding fun_eq_iff F1_def rfc_F_def by (intro allI bit_word_eqI) (auto simp: bit_simps)
  then show "F2 = rfc_G" unfolding fun_eq_iff F2_def rfc_F_def rfc_G_def
    by (auto simp: and.commute or.commute)
  show "F3 = rfc_H" unfolding fun_eq_iff F3_def rfc_H_def by (simp add: xor.assoc)
  show "F4 = rfc_I" unfolding fun_eq_iff F4_def rfc_I_def by simp
qed

text \<open>
  the optimised round functions of the code are those of RFC 1321, and the unrolled steps of
  \<open>MD5Transform\<close> use in every round the function, the order of the input words and the shifts that
  the RFC prescribes.
\<close>

theorem md5_steps_rfc:
  "F1 = rfc_F \<and> F2 = rfc_G \<and> F3 = rfc_H \<and> F4 = rfc_I \<and> length md5_steps = 64 \<and>
   map (\<lambda>(f, i, k, s). (f, i, s)) md5_steps = map (\<lambda>n. (rfc_fun n, rfc_index n, rfc_shift n)) [0 ..< 64]"
proof -
  have "[0 ..< 64] = [0,1,2,3,4,5,6,7,8,9,10,11,12,13,14,15,16,17,18,19,20,21,22,23,24,25,26,27,28,29,30,31,
      32,33,34,35,36,37,38,39,40,41,42,43,44,45,46,47,48,49,50,51,52,53,54,55,56,57,58,59,60,61,62,63::nat]"
    by code_simp
  then show ?thesis
    by (simp add: F_rfc md5_steps_def rfc_fun_def rfc_index_def rfc_shift_def)
qed

text \<open>The digest of a whole message: padding, length in bits modulo \<open>2 ^ 64\<close>, all blocks.\<close>

function md5_blocks :: "quad \<Rightarrow> u8 list \<Rightarrow> quad" where
  "md5_blocks h msg =
     (if 64 \<le> length msg then md5_blocks (MD5Transform h (words_of (take 64 msg))) (drop 64 msg) else h)"
  by pat_completeness auto
termination md5_blocks by (relation "measure (length \<circ> snd)") auto

declare md5_blocks.simps [simp del]

definition md5_padding :: "nat \<Rightarrow> u8 list" where
  "md5_padding n =
     0x80 # replicate ((119 - n mod 64) mod 64) 0 @ le_bytes (word_of_nat (8 * n)) @ le_bytes (word_of_nat (8 * n div 2 ^ 32))"

definition md5_digest :: "u8 list \<Rightarrow> u8 list" where
  "md5_digest msg = quad_bytes (md5_blocks md5_iv (msg @ md5_padding (length msg)))"

lemma md5_blocks_short: "length msg < 64 \<Longrightarrow> md5_blocks h msg = h"
  by (simp add: md5_blocks.simps)

lemma md5_blocks_append:
  "length a mod 64 = 0 \<Longrightarrow> md5_blocks h (a @ b) = md5_blocks (md5_blocks h a) b"
proof (induction h a rule: md5_blocks.induct)
  case (1 h a)
  show ?case
  proof (cases "64 \<le> length a")
    case True
    have "length (drop 64 a) mod 64 = 0" using 1(2) True by (simp add: mod_if le_mod_geq)
    from 1(1)[OF True this] True show ?thesis
      by (simp add: md5_blocks.simps[of h a] md5_blocks.simps[of h "a @ b"])
  next
    case False
    then have "a = []" using 1(2) by auto
    then show ?thesis by (simp add: md5_blocks_short)
  qed
qed

lemma md5_blocks_one: "length b = 64 \<Longrightarrow> md5_blocks h b = MD5Transform h (words_of b)"
  by (simp add: md5_blocks.simps[of h b] md5_blocks_short)

section \<open>The counters\<close>

lemma unat_bits:
  "unat (word_of_nat n :: u32) = n mod 4294967296"
  by (simp add: unat_of_nat take_bit_eq_mod)

lemma bytes_held_count: "bytes_held (word_of_nat (8 * n)) = n mod 64"
proof -
  have m: "(0x3f :: u32) = mask 6" by (simp add: mask_eq_exp_minus_1)
  have "bytes_held (word_of_nat (8 * n)) = (8 * n mod 4294967296) div 8 mod 64"
    unfolding bytes_held_def m
    by (simp only: unat_drop_bit_eq unsigned_take_bit_eq unat_bits flip: take_bit_eq_mask)
      (simp add: drop_bit_eq_div take_bit_eq_mod)
  also have "(8 * n mod 4294967296) div 8 = n mod 536870912"
    using mult_mod_right[of 8 n 536870912] by simp
  also have "n mod 536870912 mod 64 = n mod 64" by (rule mod_mod_cancel) simp
  finally show ?thesis .
qed

lemma count_bits_add:
  assumes "n < 2 ^ 32" and "m_bits0 ctx = word_of_nat (8 * l)" and "m_bits1 ctx = word_of_nat (8 * l div 2 ^ 32)"
  shows "m_bits0 (count_bits n ctx) = word_of_nat (8 * (l + n))"
    and "m_bits1 (count_bits n ctx) = word_of_nat (8 * (l + n) div 2 ^ 32)"
proof -
  let ?t = "word_of_nat (8 * l) :: u32" and ?x = "push_bit 3 (word_of_nat n) :: u32"
  have x: "?x = word_of_nat (8 * n)" by (simp add: push_bit_eq_mult)
  have s: "?t + ?x = word_of_nat (8 * (l + n))" by (simp add: x distrib_left)
  then show "m_bits0 (count_bits n ctx) = word_of_nat (8 * (l + n))"
    using assms(2) by (simp add: count_bits_def Let_def)
  let ?q = "4294967296 :: nat"
  have carry: "?t + ?x < ?t \<longleftrightarrow> ?q \<le> 8 * l mod ?q + 8 * n mod ?q"
  proof -
    have "?t + ?x < ?t \<longleftrightarrow> (8 * l mod ?q + 8 * n mod ?q) mod ?q < 8 * l mod ?q"
      unfolding word_less_nat_alt s unat_bits by (simp add: distrib_left mod_add_eq)
    then show ?thesis using mod_less_divisor[of ?q "8 * l"] mod_less_divisor[of ?q "8 * n"]
      by (auto simp: mod_if[of "8 * l mod ?q + 8 * n mod ?q"] le_mod_geq split: if_splits)
  qed
  have d: "drop_bit 29 (word_of_nat n :: u32) = word_of_nat (8 * n div ?q)"
  proof (rule word_unat_eq_iff[THEN iffD2])
    have "8 * n div ?q = n div 536870912" using div_mult_mult1[of 8 n 536870912] by simp
    moreover have "n div 536870912 < ?q" using assms(1) by (simp add: less_mult_imp_div_less)
    ultimately show "unat (drop_bit 29 (word_of_nat n :: u32)) = unat (word_of_nat (8 * n div ?q) :: u32)"
      using assms(1) by (simp only: unat_drop_bit_eq unat_bits) (simp add: drop_bit_eq_div)
  qed
  have sum: "8 * (l + n) div ?q = 8 * l div ?q + (if ?q \<le> 8 * l mod ?q + 8 * n mod ?q then 1 else 0) + 8 * n div ?q"
  proof -
    have "8 * (l + n) div ?q = 8 * l div ?q + 8 * n div ?q + (8 * l mod ?q + 8 * n mod ?q) div ?q"
      using div_add1_eq[of "8 * l" "8 * n" ?q] by (simp add: distrib_left)
    moreover have "(8 * l mod ?q + 8 * n mod ?q) div ?q = (if ?q \<le> 8 * l mod ?q + 8 * n mod ?q then 1 else 0)"
    proof -
      have "8 * l mod ?q < ?q" "8 * n mod ?q < ?q" by simp_all
      then have "8 * l mod ?q + 8 * n mod ?q < 2 * ?q" by linarith
      then show ?thesis by (auto simp: div_if)
    qed
    ultimately show ?thesis by simp
  qed
  have "m_bits1 (count_bits n ctx) = (word_of_nat (8 * l div ?q) + (if ?t + ?x < ?t then 1 else 0)) + word_of_nat (8 * n div ?q)"
    using assms(2,3) d by (simp add: count_bits_def Let_def)
  then show "m_bits1 (count_bits n ctx) = word_of_nat (8 * (l + n) div 2 ^ 32)"
    unfolding carry using sum by simp
qed

section \<open>What the context represents\<close>

text \<open>\<open>front\<close> has been hashed, \<open>tail\<close> waits in \<open>in\<close>.\<close>

definition holds :: "md5ctx \<Rightarrow> u8 list \<Rightarrow> u8 list \<Rightarrow> bool" where
  "holds ctx front tail \<longleftrightarrow>
     length front mod 64 = 0 \<and> length tail < 64 \<and> m_buf ctx = md5_blocks md5_iv front \<and>
     length (m_in ctx) = 64 \<and> take (length tail) (m_in ctx) = tail"

definition represents :: "md5ctx \<Rightarrow> u8 list \<Rightarrow> bool" where
  "represents ctx msg \<longleftrightarrow>
     (\<exists>front tail. msg = front @ tail \<and> holds ctx front tail) \<and>
     m_bits0 ctx = word_of_nat (8 * length msg) \<and> m_bits1 ctx = word_of_nat (8 * length msg div 2 ^ 32)"

lemma transform_in_fields [simp]:
  "m_bits0 (transform_in c) = m_bits0 c" "m_bits1 (transform_in c) = m_bits1 c" "m_in (transform_in c) = m_in c"
  by (simp_all add: transform_in_def)

lemma transform_full:
  assumes "length front mod 64 = 0" and "m_buf ctx = md5_blocks md5_iv front" and "length b = 64"
  shows "m_buf (transform_in (ctx\<lparr>m_in := b\<rparr>)) = md5_blocks md5_iv (front @ b)"
  using assms by (simp add: transform_in_def md5_blocks_append md5_blocks_one)

lemma update_chunks_holds:
  "length front mod 64 = 0 \<Longrightarrow> m_buf ctx = md5_blocks md5_iv front \<Longrightarrow> length (m_in ctx) = 64 \<Longrightarrow>
     \<exists>front' tail'. front @ data = front' @ tail' \<and> holds (update_chunks ctx data) front' tail' \<and>
       m_bits0 (update_chunks ctx data) = m_bits0 ctx \<and> m_bits1 (update_chunks ctx data) = m_bits1 ctx"
proof (induction ctx data arbitrary: front rule: update_chunks.induct)
  case (1 ctx data)
  show ?case
  proof (cases "64 \<le> length data")
    case True
    let ?c = "transform_in (ctx\<lparr>m_in := overwrite 0 (take 64 data) (m_in ctx)\<rparr>)"
    have o: "overwrite 0 (take 64 data) (m_in ctx) = take 64 data"
      using True "1.prems"(3) by (simp add: overwrite_all)
    have l: "length (front @ take 64 data) mod 64 = 0" using "1.prems"(1) True by (simp add: mod_add_eq[symmetric])
    have b: "m_buf ?c = md5_blocks md5_iv (front @ take 64 data)"
      unfolding o by (rule transform_full[OF "1.prems"(1,2)]) (use True in simp)
    have i: "length (m_in ?c) = 64" using o True by simp
    from "1.IH"[OF True l b i] True show ?thesis
      by (subst (1 2 3) update_chunks.simps) simp
  next
    case False
    have "holds (ctx\<lparr>m_in := overwrite 0 data (m_in ctx)\<rparr>) front data"
      using 1 False take_overwrite[of 0 "m_in ctx" data] by (simp add: holds_def)
    with False show ?thesis by (subst (1 2 3) update_chunks.simps) auto
  qed
qed

lemma count_bits_fields [simp]: "m_buf (count_bits n c) = m_buf c" "m_in (count_bits n c) = m_in c"
  by (simp_all add: count_bits_def Let_def)

lemma update_represents:
  assumes r: "represents ctx msg" and n: "length data < 2 ^ 32"
  shows "represents (MD5Update ctx data) (msg @ data)"
proof -
  obtain front tail where m: "msg = front @ tail" and h: "holds ctx front tail"
    using r by (auto simp: represents_def)
  have bits: "m_bits0 ctx = word_of_nat (8 * length msg)" "m_bits1 ctx = word_of_nat (8 * length msg div 2 ^ 32)"
    using r by (simp_all add: represents_def)
  define c1 where "c1 = count_bits (length data) ctx"
  have b1: "m_bits0 c1 = word_of_nat (8 * length (msg @ data))" "m_bits1 c1 = word_of_nat (8 * length (msg @ data) div 2 ^ 32)"
    using count_bits_add[OF n bits] by (simp_all add: c1_def)
  have f1: "m_buf c1 = md5_blocks md5_iv front" "m_in c1 = m_in ctx" using h by (simp_all add: c1_def holds_def)
  have t: "bytes_held (m_bits0 ctx) = length tail"
    using h unfolding bits(1) bytes_held_count m holds_def by (simp add: mod_add_left_eq[symmetric])
  have fr: "length front mod 64 = 0" "length tail < 64" "length (m_in ctx) = 64" "take (length tail) (m_in ctx) = tail"
    using h by (simp_all add: holds_def)
  have "\<exists>front' tail'. msg @ data = front' @ tail' \<and> holds (MD5Update ctx data) front' tail' \<and>
      m_bits0 (MD5Update ctx data) = m_bits0 c1 \<and> m_bits1 (MD5Update ctx data) = m_bits1 c1"
  proof (cases "tail = []")
    case True
    then have "MD5Update ctx data = update_chunks c1 data" by (simp add: MD5Update_def Let_def t c1_def)
    with update_chunks_holds[OF fr(1) f1(1), of data] fr f1(2) m True show ?thesis by simp
  next
    case ne: False
    show ?thesis
    proof (cases "length data < 64 - length tail")
      case True
      then have e: "MD5Update ctx data = c1\<lparr>m_in := overwrite (length tail) data (m_in c1)\<rparr>"
        using ne by (simp add: MD5Update_def Let_def t c1_def)
      have "holds (MD5Update ctx data) front (tail @ data)"
        using True fr f1 take_overwrite[of "length tail" "m_in ctx" data] by (simp add: e holds_def)
      then show ?thesis using m e by (intro exI[of _ front] exI[of _ "tail @ data"]) simp
    next
      case False
      let ?n = "64 - length tail"
      let ?b = "overwrite (length tail) (take ?n data) (m_in c1)"
      define c2 where "c2 = transform_in (c1\<lparr>m_in := ?b\<rparr>)"
      have e: "MD5Update ctx data = update_chunks c2 (drop ?n data)"
        using ne False by (simp add: MD5Update_def Let_def t c1_def c2_def)
      have b: "?b = tail @ take ?n data" using False fr f1 by (simp add: overwrite_def)
      have lb: "length (tail @ take ?n data) = 64" using False fr by simp
      have c2: "m_buf c2 = md5_blocks md5_iv (front @ tail @ take ?n data)"
        unfolding c2_def b by (rule transform_full[OF fr(1) f1(1) lb])
      have lf: "length (front @ tail @ take ?n data) mod 64 = 0"
        using fr(1) lb by (simp only: length_append) (simp add: mod_add_left_eq[symmetric])
      have "length (m_in c2) = 64" using lb by (simp add: c2_def b)
      from update_chunks_holds[OF lf c2 this, of "drop ?n data"] show ?thesis
        by (simp add: e m) (simp add: c2_def)
    qed
  qed
  with b1 show ?thesis by (auto simp: represents_def)
qed

section \<open>The final block\<close>

lemma final_represents:
  assumes "represents ctx msg"
  shows "fst (MD5Final ctx) = md5_digest msg"
proof -
  obtain front tail where m: "msg = front @ tail" and h: "holds ctx front tail"
    using assms by (auto simp: represents_def)
  have fr: "length front mod 64 = 0" "length tail < 64" "length (m_in ctx) = 64" "take (length tail) (m_in ctx) = tail"
    "m_buf ctx = md5_blocks md5_iv front"
    using h by (simp_all add: holds_def)
  have bits: "m_bits0 ctx = word_of_nat (8 * length msg)" "m_bits1 ctx = word_of_nat (8 * length msg div 2 ^ 32)"
    using assms by (simp_all add: represents_def)
  have lm: "length msg mod 64 = length tail" using fr(1,2) unfolding m by (simp add: mod_add_left_eq[symmetric])
  have t: "bytes_held (m_bits0 ctx) = length tail" unfolding bits(1) bytes_held_count by (rule lm)
  define lens where "lens = le_bytes (m_bits0 ctx) @ le_bytes (m_bits1 ctx)"
  have ll: "length lens = 8" by (simp add: lens_def)
  define in1 where "in1 = overwrite (length tail) [0x80] (m_in ctx)"
  have i1: "take (Suc (length tail)) in1 = tail @ [0x80]" "length in1 = 64"
    using overwrite_step[OF fr(4), of "[0x80]"] fr(2,3) by (simp_all add: in1_def)
  have pad: "md5_padding (length msg) = 0x80 # replicate ((119 - length tail) mod 64) 0 @ lens"
    unfolding md5_padding_def lm by (simp add: lens_def bits)
  show ?thesis
  proof (cases "55 < length tail")
    case True
    define z where "z = 63 - length tail"
    have zt: "z < 8" "z + length tail = 63" "(119 - length tail) mod 64 = z + 56" using True fr(2) by (auto simp: z_def)
    define in2 where "in2 = overwrite (Suc (length tail)) (replicate z 0) in1"
    have i2: "in2 = tail @ 0x80 # replicate z 0"
      using overwrite_rest[of "Suc (length tail)" "replicate z 0" in1] i1 zt by (simp add: in2_def)
    have l2: "length (tail @ 0x80 # replicate z 0) = 64" using zt by simp
    define c where "c = transform_in (ctx\<lparr>m_in := in2\<rparr>)"
    have c: "m_buf c = md5_blocks md5_iv (front @ tail @ 0x80 # replicate z 0)"
      unfolding c_def i2 by (rule transform_full[OF fr(1,5) l2])
    define in3 where "in3 = overwrite 0 (replicate 56 0) (m_in c)"
    have i3: "take 56 in3 = replicate 56 0" "length in3 = 64"
      using overwrite_step[of 0 "m_in c" "[]" "replicate 56 0"] l2 by (simp_all add: in3_def c_def i2)
    have f: "MD5Final_context ctx = transform_in (c\<lparr>m_in := overwrite 56 lens in3\<rparr>)"
      using zt(1) by (simp add: MD5Final_context_def Let_def t in1_def[symmetric] z_def[symmetric] in2_def[symmetric]
          in3_def c_def lens_def)
    have l3: "overwrite 56 lens in3 = replicate 56 0 @ lens" using overwrite_rest[of 56 lens in3] i3 ll by simp
    have lf: "length (front @ tail @ 0x80 # replicate z 0) mod 64 = 0"
      using fr(1) l2 by (simp only: length_append) (simp add: mod_add_left_eq[symmetric])
    have "m_buf (MD5Final_context ctx) = md5_blocks md5_iv ((front @ tail @ 0x80 # replicate z 0) @ replicate 56 0 @ lens)"
      unfolding f l3 by (rule transform_full[OF lf c]) (simp add: ll)
    also have "(front @ tail @ 0x80 # replicate z 0) @ replicate 56 0 @ lens = msg @ md5_padding (length msg)"
      unfolding pad zt(3) replicate_add by (simp add: m)
    finally show ?thesis by (simp add: MD5Final_def md5_digest_def)
  next
    case False
    define z where "z = 55 - length tail"
    have zt: "z + length tail = 55" "(119 - length tail) mod 64 = z" "63 - length tail - 8 = z" "\<not> 63 - length tail < 8"
      using False by (auto simp: z_def mod_if)
    define in2 where "in2 = overwrite (Suc (length tail)) (replicate z 0) in1"
    have i2: "take 56 in2 = tail @ 0x80 # replicate z 0" "length in2 = 64"
    proof -
      have s: "Suc (length tail) + length (replicate z (0 :: u8)) = 56" using zt(1) by simp
      show "take 56 in2 = tail @ 0x80 # replicate z 0" "length in2 = 64"
        using overwrite_step[OF i1(1), of "replicate z 0"] i1(2) unfolding s by (simp_all add: in2_def)
    qed
    have f: "MD5Final_context ctx = transform_in (ctx\<lparr>m_in := overwrite 56 lens in2\<rparr>)"
      using zt by (simp add: MD5Final_context_def Let_def t in1_def[symmetric] in2_def lens_def)
    have l3: "overwrite 56 lens in2 = (tail @ 0x80 # replicate z 0) @ lens" using overwrite_rest[of 56 lens in2] i2 ll by simp
    have "m_buf (MD5Final_context ctx) = md5_blocks md5_iv (front @ (tail @ 0x80 # replicate z 0) @ lens)"
      unfolding f l3 by (rule transform_full[OF fr(1,5)]) (use zt ll in simp)
    also have "front @ (tail @ 0x80 # replicate z 0) @ lens = msg @ md5_padding (length msg)"
      unfolding pad zt(2) by (simp add: m)
    finally show ?thesis by (simp add: MD5Final_def md5_digest_def)
  qed
qed

section \<open>Incremental hashing\<close>

text \<open>
  The contract between the hash and its clients: a relation between contexts and messages that
  the three operations keep for admissible pieces.
\<close>

locale incremental_hash =
  fixes init :: "'c \<Rightarrow> 'c" and update :: "'c \<Rightarrow> 'a list \<Rightarrow> 'c" and final :: "'c \<Rightarrow> 'd"
    and fresh :: "'c \<Rightarrow> bool" and rel :: "'c \<Rightarrow> 'a list \<Rightarrow> bool" and small :: "'a list \<Rightarrow> bool" and digest :: "'a list \<Rightarrow> 'd"
  assumes init_rel: "fresh c \<Longrightarrow> rel (init c) []"
    and update_rel: "rel c m \<Longrightarrow> small x \<Longrightarrow> rel (update c x) (m @ x)"
    and final_rel: "rel c m \<Longrightarrow> final c = digest m"
begin

lemma pieces_rel: "rel c m \<Longrightarrow> list_all small xs \<Longrightarrow> rel (fold (\<lambda>x c. update c x) xs c) (m @ concat xs)"
proof (induction xs arbitrary: c m)
  case (Cons x xs)
  then show ?case using update_rel[of c m x] Cons.IH[of "update c x" "m @ x"] by simp
qed simp

lemma pieces_digest:
  "fresh c \<Longrightarrow> list_all small xs \<Longrightarrow> final (fold (\<lambda>x c. update c x) xs (init c)) = digest (concat xs)"
  using pieces_rel[OF init_rel] final_rel by fastforce

text \<open>How a message is cut into pieces does not matter.\<close>

lemma pieces_irrelevant:
  "fresh c \<Longrightarrow> fresh c' \<Longrightarrow> list_all small xs \<Longrightarrow> list_all small ys \<Longrightarrow> concat xs = concat ys \<Longrightarrow>
     final (fold (\<lambda>x c. update c x) xs (init c)) = final (fold (\<lambda>x c. update c x) ys (init c'))"
  by (simp add: pieces_digest)

end

definition small_piece :: "u8 list \<Rightarrow> bool" where
  "small_piece x \<longleftrightarrow> length x < 2 ^ 32"

interpretation md5: incremental_hash MD5Init MD5Update "\<lambda>c. fst (MD5Final c)"
  "\<lambda>c. length (m_in c) = 64" represents small_piece md5_digest
proof
  show "represents (MD5Init c) []" if "length (m_in c) = 64" for c
  proof -
    have "holds (MD5Init c) [] []"
      using that by (simp add: holds_def MD5Init_def md5_blocks_short)
    then show ?thesis by (simp add: represents_def MD5Init_def)
  qed
qed (auto intro: update_represents final_represents simp: small_piece_def)


definition blank_ctx :: md5ctx where
  "blank_ctx = \<lparr>m_buf = (0, 0, 0, 0), m_bits0 = 0, m_bits1 = 0, m_in = replicate 64 0xff\<rparr>"


section \<open>The cookie\<close>

text \<open>
  \<open>hash_file\<close> with the results of the calls to \<open>read\<close>: it stops at the first that is empty (end of
  file or error) and adds a separating zero byte. The count is that of the bytes read.
\<close>

fun hash_file_loop :: "md5ctx \<Rightarrow> u8 list list \<Rightarrow> nat \<Rightarrow> md5ctx \<times> nat" where
  "hash_file_loop ctx [] count = (ctx, count)"
| "hash_file_loop ctx (r # rs) count =
     (if r = [] then (ctx, count) else hash_file_loop (MD5Update ctx r) rs (count + length r))"

definition hash_file :: "md5ctx \<Rightarrow> u8 list list \<Rightarrow> md5ctx \<times> nat" where
  "hash_file ctx reads = (case hash_file_loop ctx reads 0 of (c, count) \<Rightarrow> (MD5Update c [0], count))"

text \<open>The sources: the least number of bytes that is enough, and the most that are read.\<close>

definition BUFFERSIZE :: nat where "BUFFERSIZE = 4096"

definition rngs :: "(string \<times> nat \<times> nat) list" where
  "rngs = [(''/dev/random'', 16, 16), (''/proc/interrupts'', 0, 0), (''/proc/slabinfo'', 0, 0),
           (''/proc/stat'', 0, 0), (''/dev/urandom'', 32, 64)]"

text \<open>
  The loop over the sources; \<open>dev path n\<close> is what \<open>open\<close> and one \<open>read\<close> of at most \<open>n\<close> bytes give,
  \<open>None\<close> if the file cannot be opened and the empty list at the end of file or on an error.
\<close>

definition read_size :: "nat \<Rightarrow> nat" where
  "read_size maxlength = (if maxlength \<noteq> 0 \<and> maxlength < BUFFERSIZE then maxlength else BUFFERSIZE)"

fun gather :: "(string \<Rightarrow> nat \<Rightarrow> u8 list option) \<Rightarrow> (string \<times> nat \<times> nat) list \<Rightarrow> md5ctx \<Rightarrow> md5ctx" where
  "gather dev [] ctx = ctx"
| "gather dev ((path, minlength, maxlength) # rs) ctx =
     (case dev path (read_size maxlength) of
        None \<Rightarrow> gather dev rs ctx
      | Some r \<Rightarrow>
          let ctx1 = (if r \<noteq> [] then MD5Update ctx r else ctx) in
          if minlength \<noteq> 0 \<and> minlength \<le> length r then ctx1 else gather dev rs ctx1)"

text \<open>
  The digest that is printed: \<open>seed\<close> are the bytes of the time and of the two process numbers,
  \<open>file\<close> the reads of the file of the option \<open>-f\<close>, if it could be opened.
\<close>

definition mcookie ::
    "(string \<Rightarrow> nat \<Rightarrow> u8 list option) \<Rightarrow> u8 list list \<Rightarrow> u8 list list option \<Rightarrow> md5ctx \<Rightarrow> u8 list" where
  "mcookie dev seed file ctx =
     (let c1 = fold (\<lambda>x c. MD5Update c x) seed (MD5Init ctx);
          c2 = (case file of None \<Rightarrow> c1 | Some reads \<Rightarrow> fst (hash_file c1 reads))
      in fst (MD5Final (gather dev rngs c2)))"

text \<open>The bytes that enter the digest.\<close>

fun file_bytes :: "u8 list list \<Rightarrow> u8 list" where
  "file_bytes [] = []"
| "file_bytes (r # rs) = (if r = [] then [] else r @ file_bytes rs)"

fun gathered :: "(string \<Rightarrow> nat \<Rightarrow> u8 list option) \<Rightarrow> (string \<times> nat \<times> nat) list \<Rightarrow> u8 list" where
  "gathered dev [] = []"
| "gathered dev ((path, minlength, maxlength) # rs) =
     (case dev path (read_size maxlength) of
        None \<Rightarrow> gathered dev rs
      | Some r \<Rightarrow> if minlength \<noteq> 0 \<and> minlength \<le> length r then r else r @ gathered dev rs)"

lemma hash_file_loop_represents:
  "represents c m \<Longrightarrow> list_all small_piece rs \<Longrightarrow>
     represents (fst (hash_file_loop c rs n)) (m @ file_bytes rs) \<and> snd (hash_file_loop c rs n) = n + length (file_bytes rs)"
proof (induction rs arbitrary: c m n)
  case (Cons r rs)
  show ?case
  proof (cases "r = []")
    case False
    have "represents (MD5Update c r) (m @ r)" using md5.update_rel[OF Cons.prems(1)] Cons.prems(2) by simp
    from Cons.IH[OF this, of "n + length r"] Cons.prems(2) False show ?thesis by simp
  qed (use Cons.prems in simp)
qed simp

lemma gather_represents:
  "represents c m \<Longrightarrow> (\<And>p n r. dev p n = Some r \<Longrightarrow> length r \<le> n) \<Longrightarrow> represents (gather dev rs c) (m @ gathered dev rs)"
proof (induction rs arbitrary: c m)
  case (Cons x rs)
  obtain p mn mx where x: "x = (p, mn, mx)" by (cases x) auto
  show ?case
  proof (cases "dev p (read_size mx)")
    case None
    then show ?thesis using Cons x by simp
  next
    case (Some r)
    have "length r \<le> 4096" using Cons.prems(2)[OF Some] by (simp add: read_size_def BUFFERSIZE_def split: if_splits)
    then have s: "small_piece r" by (simp add: small_piece_def)
    have u: "represents (if r \<noteq> [] then MD5Update c r else c) (m @ r)"
      using md5.update_rel[OF Cons.prems(1) s] Cons.prems(1) by auto
    from Cons.IH[OF u Cons.prems(2)] u Some show ?thesis by (simp add: x Let_def)
  qed
qed simp

text \<open>
  the cookie is the MD5 of the seed, of the bytes of the file and the zero byte that
  separates it, and of the bytes gathered, up to the first source that gave enough of them.
\<close>

theorem mcookie_digest:
  assumes "length (m_in ctx) = 64" and "list_all small_piece seed"
    and "\<And>rs. file = Some rs \<Longrightarrow> list_all small_piece rs"
    and "\<And>p n r. dev p n = Some r \<Longrightarrow> length r \<le> n"
  shows "mcookie dev seed file ctx = md5_digest (concat seed @
     (case file of None \<Rightarrow> [] | Some rs \<Rightarrow> file_bytes rs @ [0]) @ gathered dev rngs)"
proof -
  define c1 where "c1 = fold (\<lambda>x c. MD5Update c x) seed (MD5Init ctx)"
  have c1: "represents c1 (concat seed)"
    using md5.pieces_rel[OF md5.init_rel[OF assms(1)] assms(2)] by (simp add: c1_def)
  define c2 where "c2 = (case file of None \<Rightarrow> c1 | Some reads \<Rightarrow> fst (hash_file c1 reads))"
  have z: "small_piece [0]" by (simp add: small_piece_def)
  have "represents c2 (concat seed @ (case file of None \<Rightarrow> [] | Some rs \<Rightarrow> file_bytes rs @ [0]))"
  proof (cases "file")
    case (Some rs)
    then show ?thesis
      using md5.update_rel[OF hash_file_loop_represents[OF c1 assms(3)[OF Some], THEN conjunct1] z]
      by (simp add: c2_def hash_file_def split_beta)
  qed (simp add: c2_def c1)
  then have "represents (gather dev rngs c2) ((concat seed @
      (case file of None \<Rightarrow> [] | Some rs \<Rightarrow> file_bytes rs @ [0])) @ gathered dev rngs)"
    using assms(4) by (rule gather_represents)
  from md5.final_rel[OF this] show ?thesis unfolding mcookie_def Let_def c2_def c1_def by simp
qed

theorem mcookie_digest_witness:
  "mcookie (\<lambda>p n. if p = ''/dev/random'' then Some (replicate n 9) else None) [[1, 2], [3]] (Some [[5, 6], []]) blank_ctx =
     md5_digest ([1, 2, 3, 5, 6, 0] @ replicate 16 9)"
proof -
  have "mcookie (\<lambda>p n. if p = ''/dev/random'' then Some (replicate n 9) else None) [[1, 2], [3]] (Some [[5, 6], []]) blank_ctx =
     md5_digest (concat [[1, 2], [3]] @ (case Some [[5, 6], []] of None \<Rightarrow> [] | Some rs \<Rightarrow> file_bytes rs @ [0]) @
       gathered (\<lambda>p n. if p = ''/dev/random'' then Some (replicate n 9) else None) rngs)"
    by (rule mcookie_digest) (auto simp: blank_ctx_def small_piece_def split: if_splits)
  then show ?thesis by (simp add: rngs_def read_size_def BUFFERSIZE_def)
qed

end
