(* ===== verification/Mkpimage.thy ===== *)
theory Mkpimage
  imports C_Bytes C_Strings "HOL-Library.Monad_Syntax"
begin

text \<open>
  package/mkpimage/mkpimage.c: the header and the checksums that the boot ROM of a SoCFPGA expects in an image, on a
  little-endian machine. The buffer is a list of bytes and a place in it a number; a write outside the buffer is None.
\<close>

section \<open>Files\<close>

text \<open>
  The answers of \<open>read\<close>: an error, or the bytes, none at the end of the file; after the last answer the file has ended.
  None: an error.
\<close>

fun read_full :: "u8 list option list \<Rightarrow> nat \<Rightarrow> u8 list option" where
  "read_full rs 0 = Some []"
| "read_full [] (Suc n) = Some []"
| "read_full (None # rs) (Suc n) = None"
| "read_full (Some bs # rs) (Suc n) =
     (if bs = [] then Some []
      else map_option ((@) (take (Suc n) bs)) (read_full rs (Suc n - length bs)))"

text \<open>
  The answers of \<open>write\<close>: the number of bytes, or a negative number; after the last answer it takes everything. The
  result is what the code returns, as far as it is tested, and the bytes that have been written.
\<close>

fun write_full :: "int list \<Rightarrow> u8 list \<Rightarrow> int \<times> u8 list" where
  "write_full ws [] = (0, [])"
| "write_full [] buf = (int (length buf), buf)"
| "write_full (now # ws) buf =
     (if now \<le> 0 then (now, [])
      else (case write_full ws (drop (nat now) buf) of (r, out) \<Rightarrow> (if r < 0 then r else int (length buf), take (nat now) buf @ out)))"

section \<open>The check of the image\<close>

definition crc_table :: "u32 list" where
  "crc_table = [
     0x00000000, 0x04c11db7, 0x09823b6e, 0x0d4326d9, 0x130476dc, 0x17c56b6b, 0x1a864db2, 0x1e475005,
     0x2608edb8, 0x22c9f00f, 0x2f8ad6d6, 0x2b4bcb61, 0x350c9b64, 0x31cd86d3, 0x3c8ea00a, 0x384fbdbd,
     0x4c11db70, 0x48d0c6c7, 0x4593e01e, 0x4152fda9, 0x5f15adac, 0x5bd4b01b, 0x569796c2, 0x52568b75,
     0x6a1936c8, 0x6ed82b7f, 0x639b0da6, 0x675a1011, 0x791d4014, 0x7ddc5da3, 0x709f7b7a, 0x745e66cd,
     0x9823b6e0, 0x9ce2ab57, 0x91a18d8e, 0x95609039, 0x8b27c03c, 0x8fe6dd8b, 0x82a5fb52, 0x8664e6e5,
     0xbe2b5b58, 0xbaea46ef, 0xb7a96036, 0xb3687d81, 0xad2f2d84, 0xa9ee3033, 0xa4ad16ea, 0xa06c0b5d,
     0xd4326d90, 0xd0f37027, 0xddb056fe, 0xd9714b49, 0xc7361b4c, 0xc3f706fb, 0xceb42022, 0xca753d95,
     0xf23a8028, 0xf6fb9d9f, 0xfbb8bb46, 0xff79a6f1, 0xe13ef6f4, 0xe5ffeb43, 0xe8bccd9a, 0xec7dd02d,
     0x34867077, 0x30476dc0, 0x3d044b19, 0x39c556ae, 0x278206ab, 0x23431b1c, 0x2e003dc5, 0x2ac12072,
     0x128e9dcf, 0x164f8078, 0x1b0ca6a1, 0x1fcdbb16, 0x018aeb13, 0x054bf6a4, 0x0808d07d, 0x0cc9cdca,
     0x7897ab07, 0x7c56b6b0, 0x71159069, 0x75d48dde, 0x6b93dddb, 0x6f52c06c, 0x6211e6b5, 0x66d0fb02,
     0x5e9f46bf, 0x5a5e5b08, 0x571d7dd1, 0x53dc6066, 0x4d9b3063, 0x495a2dd4, 0x44190b0d, 0x40d816ba,
     0xaca5c697, 0xa864db20, 0xa527fdf9, 0xa1e6e04e, 0xbfa1b04b, 0xbb60adfc, 0xb6238b25, 0xb2e29692,
     0x8aad2b2f, 0x8e6c3698, 0x832f1041, 0x87ee0df6, 0x99a95df3, 0x9d684044, 0x902b669d, 0x94ea7b2a,
     0xe0b41de7, 0xe4750050, 0xe9362689, 0xedf73b3e, 0xf3b06b3b, 0xf771768c, 0xfa325055, 0xfef34de2,
     0xc6bcf05f, 0xc27dede8, 0xcf3ecb31, 0xcbffd686, 0xd5b88683, 0xd1799b34, 0xdc3abded, 0xd8fba05a,
     0x690ce0ee, 0x6dcdfd59, 0x608edb80, 0x644fc637, 0x7a089632, 0x7ec98b85, 0x738aad5c, 0x774bb0eb,
     0x4f040d56, 0x4bc510e1, 0x46863638, 0x42472b8f, 0x5c007b8a, 0x58c1663d, 0x558240e4, 0x51435d53,
     0x251d3b9e, 0x21dc2629, 0x2c9f00f0, 0x285e1d47, 0x36194d42, 0x32d850f5, 0x3f9b762c, 0x3b5a6b9b,
     0x0315d626, 0x07d4cb91, 0x0a97ed48, 0x0e56f0ff, 0x1011a0fa, 0x14d0bd4d, 0x19939b94, 0x1d528623,
     0xf12f560e, 0xf5ee4bb9, 0xf8ad6d60, 0xfc6c70d7, 0xe22b20d2, 0xe6ea3d65, 0xeba91bbc, 0xef68060b,
     0xd727bbb6, 0xd3e6a601, 0xdea580d8, 0xda649d6f, 0xc423cd6a, 0xc0e2d0dd, 0xcda1f604, 0xc960ebb3,
     0xbd3e8d7e, 0xb9ff90c9, 0xb4bcb610, 0xb07daba7, 0xae3afba2, 0xaafbe615, 0xa7b8c0cc, 0xa379dd7b,
     0x9b3660c6, 0x9ff77d71, 0x92b45ba8, 0x9675461f, 0x8832161a, 0x8cf30bad, 0x81b02d74, 0x857130c3,
     0x5d8a9099, 0x594b8d2e, 0x5408abf7, 0x50c9b640, 0x4e8ee645, 0x4a4ffbf2, 0x470cdd2b, 0x43cdc09c,
     0x7b827d21, 0x7f436096, 0x7200464f, 0x76c15bf8, 0x68860bfd, 0x6c47164a, 0x61043093, 0x65c52d24,
     0x119b4be9, 0x155a565e, 0x18197087, 0x1cd86d30, 0x029f3d35, 0x065e2082, 0x0b1d065b, 0x0fdc1bec,
     0x3793a651, 0x3352bbe6, 0x3e119d3f, 0x3ad08088, 0x2497d08d, 0x2056cd3a, 0x2d15ebe3, 0x29d4f654,
     0xc5a92679, 0xc1683bce, 0xcc2b1d17, 0xc8ea00a0, 0xd6ad50a5, 0xd26c4d12, 0xdf2f6bcb, 0xdbee767c,
     0xe3a1cbc1, 0xe760d676, 0xea23f0af, 0xeee2ed18, 0xf0a5bd1d, 0xf464a0aa, 0xf9278673, 0xfde69bc4,
     0x89b8fd09, 0x8d79e0be, 0x803ac667, 0x84fbdbd0, 0x9abc8bd5, 0x9e7d9662, 0x933eb0bb, 0x97ffad0c,
     0xafb010b1, 0xab710d06, 0xa6322bdf, 0xa2f33668, 0xbcb4666d, 0xb8757bda, 0xb5365d03, 0xb1f740b4]"

fun crc32 :: "u32 \<Rightarrow> u8 list \<Rightarrow> u32" where
  "crc32 crc [] = crc"
| "crc32 crc (b # buf) = crc32 (push_bit 8 crc XOR crc_table ! unat ((drop_bit 24 crc XOR ucast b) AND 0xff)) buf"

section \<open>The header\<close>

definition BRANCH_INST :: u8 where "BRANCH_INST = 0xea"

text \<open>The instruction at \<open>place\<close> that branches to \<open>dest\<close>.\<close>

definition branch :: "nat \<Rightarrow> nat \<Rightarrow> u8 list" where
  "branch place dest =
     (let offset = int dest - int place - 8
      in [word_of_int (drop_bit 2 offset), word_of_int (drop_bit 10 offset), word_of_int (drop_bit 18 offset), BRANCH_INST])"

definition VALIDATION_WORD :: u32 where "VALIDATION_WORD = 0x31305341"

definition header_place :: nat where "header_place = 0x40"

text \<open>\<open>sizeof(struct socfpga_header)\<close>.\<close>

definition header_size :: nat where "header_size = 20"

definition low_bytes :: "nat \<Rightarrow> nat \<Rightarrow> u8 list" where
  "low_bytes k n = map (\<lambda>i. word_of_nat (n div 256 ^ i)) [0 ..< k]"

text \<open>The fields before the checksum.\<close>

definition fields_v0 :: "nat \<Rightarrow> u8 list" where
  "fields_v0 len = le_bytes VALIDATION_WORD @ [0, 0] @ low_bytes 2 (len div 4) @ [0, 0]"

definition fields_v1 :: "nat \<Rightarrow> nat \<Rightarrow> u8 list" where
  "fields_v1 len start = le_bytes VALIDATION_WORD @ [1, 0] @ low_bytes 2 header_size @ low_bytes 4 len @ low_bytes 4 start @ [0, 0]"

definition byte_sum :: "nat \<Rightarrow> u8 list \<Rightarrow> u32" where
  "byte_sum n buf = sum_list (map ucast (take n (drop header_place buf)))"

text \<open>The sum of the first \<open>n\<close> bytes of the header, stored after them.\<close>

definition store_checksum :: "nat \<Rightarrow> u8 list \<Rightarrow> u8 list option" where
  "store_checksum n buf =
     (let checksum = byte_sum n buf in write_at (header_place + n) [ucast checksum, ucast (drop_bit 8 checksum)] buf)"

definition store_crc :: "nat \<Rightarrow> u8 list \<Rightarrow> u8 list option" where
  "store_crc len buf = write_at (len - 4) (le_bytes (crc32 0xffffffff (take (len - 4) buf) XOR 0xffffffff)) buf"

text \<open>Version 1: an entry before the header gets a branch behind the header, which becomes the entry.\<close>

definition trampoline :: "nat \<Rightarrow> u8 list \<Rightarrow> (nat \<times> u8 list) option" where
  "trampoline entry buf =
     (if entry < header_place then do {
        buf1 \<leftarrow> write_at (header_place + header_size) (branch (header_place + header_size) entry) buf;
        Some (header_place + header_size, buf1) }
      else Some (entry, buf))"

definition header_v0 :: "nat \<Rightarrow> nat \<Rightarrow> u8 list \<Rightarrow> u8 list option" where
  "header_v0 len entry buf = do {
     buf1 \<leftarrow> write_at header_place (fields_v0 len) buf;
     buf2 \<leftarrow> write_at (header_place + 12) (branch (header_place + 12) entry) buf1;
     store_checksum 10 buf2 }"

definition header_v1 :: "nat \<Rightarrow> nat \<Rightarrow> u8 list \<Rightarrow> u8 list option" where
  "header_v1 len entry buf = do {
     (entry, buf1) \<leftarrow> trampoline entry buf;
     buf2 \<leftarrow> write_at header_place (fields_v1 len (entry - header_place)) buf1;
     store_checksum 18 buf2 }"

text \<open>The inner None is \<open>-EINVAL\<close>.\<close>

definition add_socfpga_header :: "u8 list \<Rightarrow> nat \<Rightarrow> nat \<Rightarrow> nat \<Rightarrow> u8 list option option" where
  "add_socfpga_header buf len start_addr version =
     (if len mod 4 \<noteq> 0 then Some None
      else do {
        buf1 \<leftarrow> (if version = 0 then header_v0 len start_addr buf else header_v1 len start_addr buf);
        buf2 \<leftarrow> store_crc len buf1;
        Some (Some buf2) })"

section \<open>main\<close>

definition bb_header :: "u32 list" where
  "bb_header = [
     0xea00007e, 0xeafffffe, 0xeafffffe, 0xeafffffe, 0xeafffffe, 0xeafffffe, 0xeafffffe,
     0xeafffffe, 0x65726162, 0x00786f62, 0x00000000, 0x00000000, 0x00000000, 0x00000000,
     0x00000000, 0x00000000, 0x00000000, 0x00000000, 0x00000000, 0xea00006b]"

definition MAX_V0IMAGE_SIZE :: int where "MAX_V0IMAGE_SIZE = 60 * 1024 - 4"

definition MAX_V1IMAGE_SIZE :: int where "MAX_V1IMAGE_SIZE = 224 * 1024 - 4"

text \<open>What \<open>getopt\<close> reports.\<close>

datatype pk_option = O_version string | O_barebox | O_help | O_output string | O_unknown

record pk_args =
  pk_version :: nat
  pk_barebox :: bool
  pk_min :: nat
  pk_add :: nat
  pk_out :: "string option"

text \<open>\<open>Inl\<close>: the status with which the program ends.\<close>

fun pk_take_option :: "pk_option \<Rightarrow> pk_args \<Rightarrow> nat + pk_args" where
  "pk_take_option (O_version s) a =
     (let version = unat (word_of_int (atoi s) :: u32) in if version > 1 then Inl 1 else Inr (a\<lparr>pk_version := version\<rparr>))"
| "pk_take_option O_barebox a = Inr (a\<lparr>pk_barebox := True, pk_min := 0, pk_add := 512\<rparr>)"
| "pk_take_option O_help a = Inl 0"
| "pk_take_option (O_output f) a = Inr (a\<lparr>pk_out := Some f\<rparr>)"
| "pk_take_option O_unknown a = Inl 1"

fun pk_options :: "pk_option list \<Rightarrow> pk_args \<Rightarrow> nat + pk_args" where
  "pk_options [] a = Inr a"
| "pk_options (p # ps) a = (case pk_take_option p a of Inl r \<Rightarrow> Inl r | Inr a1 \<Rightarrow> pk_options ps a1)"

definition pk_defaults :: pk_args where
  "pk_defaults = \<lparr>pk_version = 0, pk_barebox = False, pk_min = 80, pk_add = 0, pk_out = None\<rparr>"

text \<open>The sizes of files, which can be opened for reading and for writing, the memory, the answers of \<open>read\<close> and \<open>write\<close>.\<close>

record pk_sys =
  ps_stat :: "string \<Rightarrow> nat option"
  ps_open :: "string \<Rightarrow> bool"
  ps_alloc :: "nat \<Rightarrow> bool"
  ps_reads :: "u8 list option list"
  ps_create :: "string \<Rightarrow> bool"
  ps_writes :: "int list"

definition max_image_size :: "pk_args \<Rightarrow> int" where
  "max_image_size a = (if pk_version a = 0 then MAX_V0IMAGE_SIZE else MAX_V1IMAGE_SIZE) - int (pk_add a)"

definition pad_of :: "nat \<Rightarrow> nat" where
  "pad_of n = (let pad = n mod 4 in if pad \<noteq> 0 then 4 - pad else pad)"

definition buffer_size :: "pk_args \<Rightarrow> nat \<Rightarrow> nat" where
  "buffer_size a len = len + 4 + pk_add a + pad_of len"

text \<open>The buffer after the file has been read into it and the header of barebox copied; the bytes fit, as there are at most \<open>len\<close>.\<close>

definition filled :: "pk_args \<Rightarrow> nat \<Rightarrow> u8 list \<Rightarrow> u8 list" where
  "filled a len bytes =
     (let buf = overwrite (pk_add a) bytes (replicate (buffer_size a len) 0)
      in if pk_barebox a then overwrite 0 (concat (map le_bytes bb_header)) buf else buf)"

text \<open>The status, and what has been written to the output if it has been opened.\<close>

type_synonym pk_result = "nat \<times> u8 list option"

definition write_image :: "pk_sys \<Rightarrow> string \<Rightarrow> u8 list \<Rightarrow> pk_result" where
  "write_image sys outfile buf =
     (if \<not> ps_create sys outfile then (1, None)
      else (case write_full (ps_writes sys) buf of (r, out) \<Rightarrow> (if r < 0 then 1 else 0, Some out)))"

definition make_image :: "pk_sys \<Rightarrow> pk_args \<Rightarrow> string \<Rightarrow> string \<Rightarrow> pk_result option" where
  "make_image sys a infile outfile =
     (case ps_stat sys infile of
        None \<Rightarrow> Some (1, None)
      | Some len \<Rightarrow>
          if len < pk_min a \<or> int len > max_image_size a \<or> \<not> ps_open sys infile \<or> \<not> ps_alloc sys (buffer_size a len)
          then Some (1, None)
          else (case read_full (ps_reads sys) len of
                  None \<Rightarrow> Some (1, None)
                | Some bytes \<Rightarrow> do {
                    r \<leftarrow> add_socfpga_header (filled a len bytes) (buffer_size a len) (pk_add a) (pk_version a);
                    Some (case r of None \<Rightarrow> (1, None) | Some buf \<Rightarrow> write_image sys outfile buf) }))"

definition mkpimage :: "pk_sys \<Rightarrow> pk_option list \<Rightarrow> string option \<Rightarrow> pk_result option" where
  "mkpimage sys opts infile =
     (case pk_options opts pk_defaults of
        Inl r \<Rightarrow> Some (r, None)
      | Inr a \<Rightarrow>
          (case (infile, pk_out a) of
             (Some f, Some g) \<Rightarrow> make_image sys a f g
           | _ \<Rightarrow> Some (1, None)))"

end
