(* ===== verification/Mkpimage_Crc.thy ===== *)
theory Mkpimage_Crc
  imports Mkpimage
begin

text \<open>
  The check of the image against its definition: the remainder of a division of polynomials over bits. Which changes
  of an image it finds.
\<close>

section \<open>The division\<close>

text \<open>One bit of the division by the polynomial of the standard, highest bit first; a byte.\<close>

definition crc_bit :: "u32 \<Rightarrow> u32" where
  "crc_bit c = push_bit 1 c XOR (if bit c 31 then 0x04c11db7 else 0)"

definition crc_byte :: "u8 \<Rightarrow> u32 \<Rightarrow> u32" where
  "crc_byte b c = (crc_bit ^^ 8) (c XOR push_bit 24 (ucast b))"

lemma crc_bit_xor: "crc_bit (a XOR b) = crc_bit a XOR crc_bit b"
  by (auto simp: crc_bit_def push_bit_xor bit_xor_iff xor.assoc xor.commute xor.left_commute)

lemma crc_bits_xor: "(crc_bit ^^ n) (a XOR b) = (crc_bit ^^ n) a XOR (crc_bit ^^ n) b"
  by (induction n arbitrary: a b) (simp_all add: crc_bit_xor)

lemma crc_bits_shift: "(\<And>i. 32 - n \<le> i \<Longrightarrow> \<not> bit a i) \<Longrightarrow> (crc_bit ^^ n) a = push_bit n a"
proof (induction n)
  case (Suc n)
  then have IH: "(crc_bit ^^ n) a = push_bit n a" by simp
  have "\<not> bit (push_bit n a) 31" using Suc.prems[of "31 - n"] by (auto simp: bit_push_bit_iff)
  then show ?case by (simp only: funpow.simps o_apply IH) (simp add: crc_bit_def mult.commute flip: push_bit_double)
qed simp

text \<open>A table of twice the length: the entries for \<open>2 * i\<close> and \<open>2 * i + 1\<close> from that for \<open>i\<close>.\<close>

fun doubled :: "u32 list \<Rightarrow> u32 list" where
  "doubled [] = []"
| "doubled (x # xs) = (let y = crc_bit x in y # (y XOR 0x04c11db7) # doubled xs)"

lemma crc_table_doubled: "doubled (take 128 crc_table) = crc_table" "take 1 crc_table = [0]"
  by (simp_all add: crc_table_def crc_bit_def Let_def)

lemma doubled_nth:
  "i < length xs \<Longrightarrow> doubled xs ! (2 * i) = crc_bit (xs ! i) \<and> doubled xs ! Suc (2 * i) = crc_bit (xs ! i) XOR 0x04c11db7"
proof (induction xs arbitrary: i rule: doubled.induct)
  case (2 x xs)
  then show ?case using "2.IH"[OF refl, of "i - 1"] by (cases i) (simp_all add: Let_def)
qed simp

lemma table_half: "i < 256 \<Longrightarrow> crc_table ! i =
    (if even i then crc_bit (crc_table ! (i div 2)) else crc_bit (crc_table ! (i div 2)) XOR 0x04c11db7)"
proof -
  assume i: "i < 256"
  then have l: "i div 2 < length (take 128 crc_table)" by (simp add: crc_table_def)
  show ?thesis
    using doubled_nth[OF l] i unfolding crc_table_doubled(1) by (cases "even i") (auto elim!: evenE oddE)
qed

lemma crc_bits_double:
  assumes "j < 128"
  shows "(crc_bit ^^ 8) (push_bit 24 (word_of_nat (2 * j))) = crc_bit ((crc_bit ^^ 8) (push_bit 24 (word_of_nat j)))"
    "(crc_bit ^^ 8) (push_bit 24 (word_of_nat (Suc (2 * j)))) = crc_bit ((crc_bit ^^ 8) (push_bit 24 (word_of_nat j))) XOR 0x04c11db7"
proof -
  have "bit (word_of_int (int j) :: u32) 7 \<longleftrightarrow> bit j 7" by (simp only: bit_word_of_int_iff bit_of_nat_iff_bit) simp
  then have b: "\<not> bit (word_of_nat j :: u32) 7" using assms by (simp add: bit_iff_odd[of j])
  then have "\<not> bit (push_bit 24 (word_of_nat j) :: u32) 31" by (simp only: bit_push_bit_iff) simp
  then have "crc_bit (push_bit 24 (word_of_nat j)) = push_bit 24 (push_bit 1 (word_of_nat j))"
    by (simp only: crc_bit_def if_False xor.right_neutral push_bit_push_bit add.commute)
  moreover have "push_bit 1 (word_of_nat j) = (word_of_nat (2 * j) :: u32)" by (simp add: push_bit_eq_mult mult.commute)
  ultimately have e: "crc_bit (push_bit 24 (word_of_nat j)) = push_bit 24 (word_of_nat (2 * j))" by (simp only:)
  show 1: "(crc_bit ^^ 8) (push_bit 24 (word_of_nat (2 * j))) = crc_bit ((crc_bit ^^ 8) (push_bit 24 (word_of_nat j)))"
    unfolding e[symmetric] by (metis funpow_swap1)
  have "(word_of_nat (Suc (2 * j)) :: u32) = word_of_nat (2 * j) XOR 1"
    by (simp add: xor_one_eq)
  then have "(crc_bit ^^ 8) (push_bit 24 (word_of_nat (Suc (2 * j)))) =
      (crc_bit ^^ 8) (push_bit 24 (word_of_nat (2 * j))) XOR (crc_bit ^^ 8) (push_bit 24 1)"
    by (simp only: push_bit_xor crc_bits_xor)
  moreover have "(crc_bit ^^ 8) (push_bit 24 1) = 0x04c11db7" by code_simp
  ultimately show "(crc_bit ^^ 8) (push_bit 24 (word_of_nat (Suc (2 * j)))) = crc_bit ((crc_bit ^^ 8) (push_bit 24 (word_of_nat j))) XOR 0x04c11db7"
    using 1 by simp
qed

lemma crc_table_entry: "i < 256 \<Longrightarrow> crc_table ! i = (crc_bit ^^ 8) (push_bit 24 (word_of_nat i))"
proof (induction i rule: less_induct)
  case (less i)
  show ?case
  proof (cases "i = 0")
    case True
    have "crc_table ! 0 = 0" by (simp add: crc_table_def)
    moreover have "(crc_bit ^^ 8) 0 = 0" by code_simp
    ultimately show ?thesis using True by simp
  next
    case False
    have j: "i div 2 < i" "i div 2 < 128" using False less.prems by auto
    have IH: "crc_table ! (i div 2) = (crc_bit ^^ 8) (push_bit 24 (word_of_nat (i div 2)))" using less.IH[OF j(1)] less.prems by simp
    show ?thesis
      using crc_bits_double[OF j(2)] table_half[OF less.prems] unfolding IH by (cases "even i") (simp_all add: odd_two_times_div_two_succ)
  qed
qed

section \<open>The table gives the division\<close>

lemma xor_cancel: "a XOR p = b XOR p \<longleftrightarrow> a = (b :: u32)" "p XOR a = p XOR b \<longleftrightarrow> a = b"
proof -
  have r: "a XOR p = b XOR p \<longleftrightarrow> a = b" for a b
  proof
    assume "a XOR p = b XOR p"
    then have "(a XOR p) XOR p = (b XOR p) XOR p" by (rule arg_cong)
    then show "a = b" by (simp add: xor.assoc)
  qed simp
  show "a XOR p = b XOR p \<longleftrightarrow> a = b" "p XOR a = p XOR b \<longleftrightarrow> a = b" using r r[of a b] by (simp_all add: xor.commute)
qed

lemma crc_step: "push_bit 8 crc XOR crc_table ! unat ((drop_bit 24 crc XOR ucast b) AND 0xff) = crc_byte b crc"
proof -
  let ?h = "(drop_bit 24 crc XOR ucast b) AND 0xff" and ?x = "crc XOR push_bit 24 (ucast b)"
  have h: "?h = take_bit 8 (drop_bit 24 crc XOR ucast b)" by (simp add: take_bit_eq_mask mask_eq_exp_minus_1)
  have "?h \<le> 0xff" by (rule word_and_le1)
  then have "unat ?h \<le> unat (0xff :: u32)" by (simp only: word_le_nat_alt)
  then have u: "unat ?h < 256" by simp
  have split: "?x = push_bit 24 ?h XOR (?x AND mask 24)"
    unfolding h by (rule bit_word_eqI) (auto simp: bit_simps)
  have low: "(crc_bit ^^ 8) (?x AND mask 24) = push_bit 8 (?x AND mask 24)"
    by (rule crc_bits_shift) (simp add: bit_simps)
  have e: "push_bit 8 (?x AND mask 24) = push_bit 8 crc"
    by (rule bit_word_eqI) (auto simp: bit_simps)
  have "crc_byte b crc = (crc_bit ^^ 8) (push_bit 24 ?h) XOR push_bit 8 crc"
    unfolding crc_byte_def by (subst split, simp only: crc_bits_xor low e)
  moreover have "crc_table ! unat ?h = (crc_bit ^^ 8) (push_bit 24 ?h)" using crc_table_entry[OF u] by simp
  ultimately show ?thesis by (simp only: xor.commute)
qed

lemma crc32_fold: "crc32 crc buf = fold crc_byte buf crc"
  by (induction crc buf rule: crc32.induct) (simp_all only: crc32.simps fold_simps crc_step)

text \<open>
  The check that is calculated with the table of 256 words is the remainder of the division by the polynomial, one bit
  after the other.
\<close>

theorem crc32_is_division: "crc32 crc buf = fold crc_byte buf crc"
  by (rule crc32_fold)

section \<open>What it finds\<close>

lemma crc_bit_inj: "crc_bit a = crc_bit b \<longleftrightarrow> a = b"
proof -
  have z: "x = 0" if "crc_bit x = 0" for x
  proof (rule bit_word_eqI)
    fix n assume n: "n < LENGTH(32)"
    have h: "\<not> bit x 31"
    proof
      assume "bit x 31"
      then have "bit (crc_bit x) 0" by (simp only: crc_bit_def bit_xor_iff bit_push_bit_iff if_True) (simp add: bit_0)
      then show False using that by simp
    qed
    then have p: "push_bit 1 x = 0" using that by (simp only: crc_bit_def if_False xor.right_neutral)
    have "\<not> bit (push_bit 1 x) (Suc n)" unfolding p by simp
    then show "bit x n = bit 0 n" using h n by (cases "n = 31") (simp_all only: bit_push_bit_iff, auto)
  qed
  have "a = b" if "crc_bit a = crc_bit b"
  proof -
    have "a XOR b = 0" by (rule z) (simp add: crc_bit_xor that)
    then have "a XOR b = b XOR b" by simp
    then show ?thesis unfolding xor_cancel .
  qed
  then show ?thesis by auto
qed

lemma crc_bits_inj: "(crc_bit ^^ n) a = (crc_bit ^^ n) b \<longleftrightarrow> a = b"
  by (induction n arbitrary: a b) (simp_all add: crc_bit_inj)

lemma crc_same_rest: "fold crc_byte s a = fold crc_byte s b \<longleftrightarrow> a = b"
proof (induction s arbitrary: a b)
  case (Cons x s)
  have "crc_byte x a = crc_byte x b \<longleftrightarrow> a = b" unfolding crc_byte_def crc_bits_inj by (rule xor_cancel)
  with Cons show ?case by simp
qed simp

text \<open>At most four bytes as a word, the first at bit \<open>k\<close>.\<close>

fun packed :: "u8 list \<Rightarrow> nat \<Rightarrow> u32" where
  "packed [] k = 0"
| "packed (z # zs) k = push_bit k (ucast z) XOR packed zs (k - 8)"

lemma packed_high: "8 * length zs \<le> k + 8 \<Longrightarrow> k + 8 \<le> i \<Longrightarrow> \<not> bit (packed zs k) i"
proof (induction zs k rule: packed.induct)
  case (2 z zs k)
  then show ?case by (cases zs) (auto simp: bit_simps dest: bit_imp_le_length)
qed simp

lemma packed_shift: "8 * length zs \<le> k \<Longrightarrow> k + 8 \<le> 32 \<Longrightarrow> packed zs k = push_bit 8 (packed zs (k - 8))"
proof (induction zs k rule: packed.induct)
  case (2 z zs k)
  then show ?case by (cases zs) (simp_all add: push_bit_xor add.commute)
qed simp

lemma packed_inj: "length xs = length ys \<Longrightarrow> 8 * length xs \<le> k + 8 \<Longrightarrow> k \<le> 24 \<Longrightarrow> packed xs k = packed ys k \<Longrightarrow> xs = ys"
proof (induction xs k arbitrary: ys rule: packed.induct)
  case (2 x xs k)
  then obtain y ys' where ys: "ys = y # ys'" by (cases ys) auto
  have high: "bit (packed (z # zs) k) (k + j) \<longleftrightarrow> bit z j" if "j < 8" "length zs = length xs" for z zs j
  proof -
    have "\<not> bit (packed zs (k - 8)) (k + j)"
    proof (cases zs)
      case (Cons w ws)
      then show ?thesis using 2(3) that by (intro packed_high) auto
    qed simp
    then show ?thesis using that 2(4) by (auto simp: bit_simps)
  qed
  have "x = y"
  proof (rule bit_word_eqI)
    fix j assume j: "j < LENGTH(8)"
    have "bit (packed (x # xs) k) (k + j) = bit (packed (y # ys') k) (k + j)" using 2(5) ys by simp
    then show "bit x j = bit y j" using high[of j xs x] high[of j ys' y] j 2(2) ys by simp
  qed
  then have "packed xs (k - 8) = packed ys' (k - 8)" using 2(5) ys by (simp add: xor_cancel)
  then show ?case using 2(1)[of ys'] 2(2,3,4) ys \<open>x = y\<close> by (cases xs) auto
qed simp

lemma fold_packed: "length zs \<le> 4 \<Longrightarrow> fold crc_byte zs c = (crc_bit ^^ (8 * length zs)) (c XOR packed zs 24)"
proof (induction zs arbitrary: c)
  case (Cons z zs)
  have s: "packed zs 24 = (crc_bit ^^ 8) (packed zs 16)"
  proof -
    have "packed zs 24 = push_bit 8 (packed zs 16)" using packed_shift[of zs 24] Cons.prems by simp
    moreover have "(crc_bit ^^ 8) (packed zs 16) = push_bit 8 (packed zs 16)"
      by (rule crc_bits_shift) (use packed_high[of zs 16] Cons.prems in auto)
    ultimately show ?thesis by simp
  qed
  have "fold crc_byte (z # zs) c = (crc_bit ^^ (8 * length zs)) (crc_byte z c XOR packed zs 24)" using Cons by simp
  also have "crc_byte z c XOR packed zs 24 = (crc_bit ^^ 8) (c XOR packed (z # zs) 24)"
    by (simp only: s crc_byte_def crc_bits_xor[symmetric] packed.simps xor.assoc) simp
  also have "(crc_bit ^^ (8 * length zs)) \<dots> = (crc_bit ^^ (8 * length (z # zs))) (c XOR packed (z # zs) 24)"
  proof -
    have "8 * length (z # zs) = 8 * length zs + 8" by simp
    then show ?thesis by (simp only: funpow_add o_apply)
  qed
  finally show ?case .
qed simp

text \<open>
  C25: The check of the image finds every change that is confined to four consecutive bytes, wherever they are.
\<close>

theorem crc32_finds_bursts:
  assumes "length xs = length ys" and "length xs \<le> 4" and "xs \<noteq> ys"
  shows "crc32 crc (p @ xs @ s) \<noteq> crc32 crc (p @ ys @ s)"
proof
  assume "crc32 crc (p @ xs @ s) = crc32 crc (p @ ys @ s)"
  then have "fold crc_byte xs (fold crc_byte p crc) = fold crc_byte ys (fold crc_byte p crc)"
    by (simp add: crc32_fold crc_same_rest)
  then have "packed xs 24 = packed ys 24"
    using assms by (simp add: fold_packed crc_bits_inj xor_cancel)
  with assms show False using packed_inj[of xs ys 24] by simp
qed

end
