(* ===== verification/Mkpimage_Props.thy ===== *)
theory Mkpimage_Props
  imports Mkpimage_Crc
begin

text \<open>
  What the boot ROM expects of an image, and that \<open>mkpimage\<close> makes such images; when it writes outside its buffer.
\<close>

section \<open>Bytes of an image\<close>

definition bytes_at :: "nat \<Rightarrow> nat \<Rightarrow> u8 list \<Rightarrow> u8 list" where
  "bytes_at i n img = take n (drop i img)"

fun le_nat :: "u8 list \<Rightarrow> nat" where
  "le_nat [] = 0"
| "le_nat (b # bs) = unat b + 256 * le_nat bs"

lemma written_bytes: "write_at i xs p = Some q \<Longrightarrow> bytes_at i (length xs) q = xs"
  by (auto simp: write_at_def bytes_at_def overwrite_def split: if_splits)

lemma other_bytes:
  assumes "write_at i xs p = Some q" and "j + n \<le> i \<or> i + length xs \<le> j"
  shows "bytes_at j n q = bytes_at j n p"
proof (rule nth_equalityI)
  have l: "length q = length p" by (rule write_at_length[OF assms(1)])
  show "length (bytes_at j n q) = length (bytes_at j n p)" by (simp add: bytes_at_def l)
  fix k assume "k < length (bytes_at j n q)"
  then have k: "k < n" "j + k < length p" by (auto simp: bytes_at_def l)
  then show "bytes_at j n q ! k = bytes_at j n p ! k"
    using assms(2) write_at_nth[OF assms(1), of "j + k"] by (auto simp: bytes_at_def l)
qed

lemma part_of_bytes: "a + n \<le> m \<Longrightarrow> bytes_at (i + a) n img = take n (drop a (bytes_at i m img))"
  by (simp add: bytes_at_def drop_take min_def add.commute)

lemma bytes_nth: "i + n \<le> length img \<Longrightarrow> k < n \<Longrightarrow> img ! (i + k) = bytes_at i n img ! k"
  by (simp add: bytes_at_def)

lemma le_nat_low: "le_nat (low_bytes k n) = n mod 256 ^ k"
proof -
  have "le_nat (map (\<lambda>i. word_of_nat (n div 256 ^ i)) [j ..< j + k]) = n div 256 ^ j mod 256 ^ k" for j
  proof (induction k arbitrary: j)
    case (Suc k)
    have "n div 256 ^ j mod 256 ^ Suc k = n div 256 ^ j mod 256 + 256 * (n div 256 ^ j div 256 mod 256 ^ k)"
      by (simp add: mod_mult2_eq)
    moreover have "n div 256 ^ j div 256 = n div 256 ^ Suc j" by (simp only: power_Suc2 div_mult2_eq)
    moreover have "[j ..< j + Suc k] = j # [Suc j ..< Suc j + k]" by (simp add: upt_conv_Cons del: upt_Suc)
    ultimately show ?case using Suc[of "Suc j"] by (simp add: unsigned_of_nat take_bit_eq_mod del: upt_Suc)
  qed simp
  from this[of 0] show ?thesis by (simp add: low_bytes_def)
qed

lemma low_bytes_length [simp]: "length (low_bytes k n) = k"
  by (simp add: low_bytes_def)

section \<open>The branch\<close>

text \<open>Where the ARM instruction at \<open>place\<close> branches to, if it is an unconditional branch.\<close>

definition arm_branch_dest :: "u8 list \<Rightarrow> nat \<Rightarrow> int option" where
  "arm_branch_dest img place =
     (if img ! (place + 3) = BRANCH_INST
      then Some (int place + 8 + 4 * sint (ucast (img ! place) OR push_bit 8 (ucast (img ! (place + 1))) OR
        push_bit 16 (ucast (img ! (place + 2))) :: 24 word))
      else None)"

lemma branch_word:
  "(ucast (word_of_int (drop_bit 2 i) :: u8) OR push_bit 8 (ucast (word_of_int (drop_bit 10 i) :: u8)) OR
     push_bit 16 (ucast (word_of_int (drop_bit 18 i) :: u8)) :: 24 word) = word_of_int (drop_bit 2 i)"
proof (rule bit_word_eqI)
  fix n assume "n < LENGTH(24)"
  moreover have "18 + (n - 16) = Suc (Suc n)" if "16 \<le> n" using that by simp
  ultimately show "bit (ucast (word_of_int (drop_bit 2 i) :: u8) OR push_bit 8 (ucast (word_of_int (drop_bit 10 i) :: u8)) OR
      push_bit 16 (ucast (word_of_int (drop_bit 18 i) :: u8)) :: 24 word) n = bit (word_of_int (drop_bit 2 i) :: 24 word) n"
    by (cases "n < 8"; cases "n < 16") (auto simp: bit_simps)
qed

lemma branch_reaches:
  assumes "bytes_at place 4 img = branch place dest" and "place + 4 \<le> length img"
    and "place mod 4 = 0" and "dest mod 4 = 0" and "place < 2 ^ 24" and "dest < 2 ^ 24"
  shows "arm_branch_dest img place = Some (int dest)"
proof -
  let ?o = "int dest - int place - 8"
  have n: "img ! (place + k) = branch place dest ! k" if "k < 4" for k
    using bytes_nth[OF assms(2) that] assms(1) by simp
  have b: "img ! place = word_of_int (drop_bit 2 ?o)" "img ! (place + 1) = word_of_int (drop_bit 10 ?o)"
    "img ! (place + 2) = word_of_int (drop_bit 18 ?o)" "img ! (place + 3) = BRANCH_INST"
    using n[of 0] n[of 1] n[of 2] n[of 3] by (simp_all add: branch_def Let_def)
  have d: "drop_bit 2 ?o = ?o div 4" by (simp add: drop_bit_eq_div)
  have m: "?o mod 4 = 0" using assms(3,4) by presburger
  have r: "- (2 ^ 23) \<le> ?o div 4" "?o div 4 < 2 ^ 23" using assms(5,6) by auto
  have "sint (word_of_int (?o div 4) :: 24 word) = ?o div 4"
    using r by (simp add: sint_sbintrunc' signed_take_bit_int_eq_self)
  moreover have "(ucast (img ! place) OR push_bit 8 (ucast (img ! (place + 1))) OR push_bit 16 (ucast (img ! (place + 2))) :: 24 word) =
      word_of_int (?o div 4)" by (simp only: b branch_word) (simp only: d)
  moreover have "4 * (?o div 4) = ?o" using m by presburger
  ultimately show ?thesis by (simp add: arm_branch_dest_def b(4))
qed

section \<open>What the boot ROM expects\<close>

definition rom_checksum :: "nat \<Rightarrow> u8 list \<Rightarrow> bool" where
  "rom_checksum n img \<longleftrightarrow> le_nat (bytes_at (0x40 + n) 2 img) = sum_list (map unat (bytes_at 0x40 n img)) mod 65536"

definition rom_crc :: "u8 list \<Rightarrow> bool" where
  "rom_crc img \<longleftrightarrow> bytes_at (length img - 4) 4 img = le_bytes (fold crc_byte (take (length img - 4) img) 0xffffffff XOR 0xffffffff)"

text \<open>The word 0x31305341 and the version, the length in words or in bytes, the sum of the header, the division of the rest.\<close>

definition rom_accepts :: "nat \<Rightarrow> u8 list \<Rightarrow> bool" where
  "rom_accepts version img \<longleftrightarrow>
     length img mod 4 = 0 \<and> bytes_at 0x40 4 img = [0x41, 0x53, 0x30, 0x31] \<and> unat (img ! 0x44) = version \<and> rom_crc img \<and>
     (if version = 0 then 4 * le_nat (bytes_at 0x46 2 img) = length img \<and> rom_checksum 10 img
      else le_nat (bytes_at 0x46 2 img) = 20 \<and> le_nat (bytes_at 0x48 4 img) = length img \<and> rom_checksum 18 img)"

text \<open>The place to which the ROM goes: a branch in the header, or an offset from it.\<close>

definition rom_entry :: "nat \<Rightarrow> u8 list \<Rightarrow> int option" where
  "rom_entry version img = (if version = 0 then arm_branch_dest img 0x4c else Some (0x40 + int (le_nat (bytes_at 0x4c 4 img))))"

definition reaches :: "nat \<Rightarrow> u8 list \<Rightarrow> nat \<Rightarrow> bool" where
  "reaches version img dest \<longleftrightarrow>
     rom_entry version img = Some (int dest) \<or>
     (\<exists>p. rom_entry version img = Some (int p) \<and> p + 8 \<le> length img \<and> arm_branch_dest img p = Some (int dest))"

lemma checksum_bytes: "le_nat [ucast c, ucast (drop_bit 8 (c :: u32))] = unat c mod 65536"
proof -
  have "unat (ucast c :: u8) = unat c mod 256" "unat (ucast (drop_bit 8 c) :: u8) = unat c div 256 mod 256"
    by (simp_all add: unsigned_ucast_eq take_bit_eq_mod drop_bit_eq_div unsigned_drop_bit_eq unat_div)
  moreover have "unat c mod 65536 = unat c mod 256 + 256 * (unat c div 256 mod 256)"
    using mod_mult2_eq[of "unat c" 256 256] by simp
  ultimately show ?thesis by simp
qed

lemma sum_of_bytes:
  fixes bs :: "u8 list"
  shows "length bs \<le> 256 \<Longrightarrow> unat (sum_list (map ucast bs) :: u32) = sum_list (map unat bs) \<and> sum_list (map unat bs) \<le> 255 * length bs"
proof (induction bs)
  case (Cons b bs)
  have "unat b < 256" using unsigned_less[of b] by simp
  then have b: "unat b \<le> 255" by simp
  have u: "unat (ucast b :: u32) = unat b" using b by (simp add: unsigned_ucast_eq take_bit_nat_eq_self)
  have "unat (ucast b + sum_list (map ucast bs) :: u32) = unat (ucast b :: u32) + unat (sum_list (map ucast bs) :: u32)"
    by (rule unat_add_lem[THEN iffD1]) (use Cons b u in auto)
  with Cons b u show ?case by auto
qed simp

lemma stored_checksum:
  assumes "store_checksum n buf = Some q" and "n \<le> 256"
  shows "rom_checksum n q" "length q = length buf"
    and "\<And>i m. i + m \<le> 0x40 + n \<or> 0x42 + n \<le> i \<Longrightarrow> bytes_at i m q = bytes_at i m buf"
proof -
  let ?c = "byte_sum n buf"
  have w: "write_at (0x40 + n) [ucast ?c, ucast (drop_bit 8 ?c)] buf = Some q"
    using assms(1) by (simp add: store_checksum_def Let_def header_place_def)
  show "length q = length buf" by (rule write_at_length[OF w])
  show o: "bytes_at i m q = bytes_at i m buf" if "i + m \<le> 0x40 + n \<or> 0x42 + n \<le> i" for i m
    by (rule other_bytes[OF w]) (use that in auto)
  have "unat ?c = sum_list (map unat (bytes_at 0x40 n buf))"
    using sum_of_bytes[of "bytes_at 0x40 n buf"] assms(2) by (simp add: byte_sum_def bytes_at_def header_place_def)
  then show "rom_checksum n q"
    using written_bytes[OF w] o[of "0x40" n] by (simp add: rom_checksum_def checksum_bytes numeral_2_eq_2 del: le_nat.simps)
qed

lemma stored_crc:
  assumes "store_crc (length buf) buf = Some q"
  shows "rom_crc q" "length q = length buf" and "\<And>i m. i + m + 4 \<le> length buf \<Longrightarrow> bytes_at i m q = bytes_at i m buf"
proof -
  have w: "write_at (length buf - 4) (le_bytes (crc32 0xffffffff (take (length buf - 4) buf) XOR 0xffffffff)) buf = Some q"
    using assms by (simp add: store_crc_def)
  show l: "length q = length buf" by (rule write_at_length[OF w])
  show o: "bytes_at i m q = bytes_at i m buf" if "i + m + 4 \<le> length buf" for i m
    by (rule other_bytes[OF w]) (use that in auto)
  have "4 \<le> length buf" using w by (auto simp: write_at_def split: if_splits)
  then have "take (length buf - 4) q = take (length buf - 4) buf" using o[of 0 "length buf - 4"] by (simp add: bytes_at_def)
  then show "rom_crc q" using written_bytes[OF w] by (simp add: rom_crc_def l crc32_fold)
qed

section \<open>The header\<close>

lemma fields_parts:
  "take 4 (fields_v0 n) = [0x41, 0x53, 0x30, 0x31]" "fields_v0 n ! 4 = 0" "take 2 (drop 6 (fields_v0 n)) = low_bytes 2 (n div 4)"
  "take 4 (fields_v1 n s) = [0x41, 0x53, 0x30, 0x31]" "fields_v1 n s ! 4 = 1" "take 2 (drop 6 (fields_v1 n s)) = low_bytes 2 20"
  "take 4 (drop 8 (fields_v1 n s)) = low_bytes 4 n" "take 4 (drop 12 (fields_v1 n s)) = low_bytes 4 s"
  "length (fields_v0 n) = 10" "length (fields_v1 n s) = 18"
  by (simp_all add: fields_v0_def fields_v1_def le_bytes_def VALIDATION_WORD_def header_size_def)

lemma length_branch [simp]: "length (branch p d) = 4"
  by (simp add: branch_def Let_def)

lemma header_v0_ok:
  assumes "header_v0 n start buf = Some q" and "n = length buf" and "n < 2 ^ 18" and "n mod 4 = 0" and "start mod 4 = 0" and "start < 2 ^ 24"
    and "store_crc n q = Some img" and "84 \<le> n"
  shows "rom_accepts 0 img \<and> reaches 0 img start"
proof -
  obtain b1 b2 where w: "write_at 0x40 (fields_v0 n) buf = Some b1" "write_at 0x4c (branch 0x4c start) b1 = Some b2" "store_checksum 10 b2 = Some q"
    using assms(1) by (auto simp: header_v0_def header_place_def split: Option.bind_splits)
  have l: "length b1 = n" "length b2 = n" using write_at_length[OF w(1)] write_at_length[OF w(2)] assms(2) by simp_all
  note c = stored_checksum[OF w(3)]
  have lq: "length q = n" using c(2) l by simp
  note k = stored_crc[of q img, unfolded lq, OF assms(7)]
  have li: "length img = n" by (rule k(2))
  have f: "bytes_at 0x40 10 img = fields_v0 n"
    using k(3)[of "0x40" 10] c(3)[of "0x40" 10] other_bytes[OF w(2), of "0x40" 10] written_bytes[OF w(1)] assms(8)
    by (simp add: fields_parts)
  have b: "bytes_at 0x4c 4 img = branch 0x4c start"
    using k(3)[of "0x4c" 4] c(3)[of "0x4c" 4] written_bytes[OF w(2)] assms(8) by simp
  have "bytes_at (0x40 + 10) 2 img = bytes_at (0x40 + 10) 2 q" "bytes_at 0x40 10 img = bytes_at 0x40 10 q"
    using k(3)[of "0x40 + 10" 2] k(3)[of "0x40" 10] assms(8) by simp_all
  then have s: "rom_checksum 10 img" using c(1) by (simp add: rom_checksum_def)
  have p: "bytes_at 0x40 4 img = take 4 (fields_v0 n)" "bytes_at 0x46 2 img = take 2 (drop 6 (fields_v0 n))" "img ! 0x44 = fields_v0 n ! 4"
  proof -
    show "bytes_at 0x40 4 img = take 4 (fields_v0 n)" using part_of_bytes[of 0 4 10 "0x40" img] f by simp
    show "bytes_at 0x46 2 img = take 2 (drop 6 (fields_v0 n))" using part_of_bytes[of 6 2 10 "0x40" img] f by simp
    show "img ! 0x44 = fields_v0 n ! 4" using bytes_nth[of "0x40" 10 img 4] f li assms(8) by simp
  qed
  have "n div 4 mod 256 ^ 2 = n div 4" using assms(3) by (intro mod_less) simp
  then have "le_nat (bytes_at 0x46 2 img) = n div 4" by (simp only: p fields_parts le_nat_low)
  moreover have "4 * (n div 4) = n" using assms(4) by presburger
  ultimately have len: "4 * le_nat (bytes_at 0x46 2 img) = n" by simp
  have "arm_branch_dest img 0x4c = Some (int start)"
    by (rule branch_reaches[OF b]) (use li assms(5,6,8) in simp_all)
  then have "reaches 0 img start" by (simp add: reaches_def rom_entry_def)
  moreover have "bytes_at 0x40 4 img = [0x41, 0x53, 0x30, 0x31]" "unat (img ! 0x44) = 0" by (simp_all only: p fields_parts unsigned_0)
  then have "rom_accepts 0 img"
    using len s k(1) assms(4) unfolding rom_accepts_def li by (simp only: refl if_True simp_thms)
  ultimately show ?thesis by simp
qed

lemma header_v1_ok:
  assumes "header_v1 n start buf = Some q" and "n = length buf" and "n < 2 ^ 24" and "n mod 4 = 0" and "start mod 4 = 0" and "start < 2 ^ 24"
    and "store_crc n q = Some img" and "if start < 0x40 then 92 \<le> n else 88 \<le> n"
  shows "rom_accepts 1 img \<and> reaches 1 img start"
proof -
  obtain e b0 b1 where w: "trampoline start buf = Some (e, b0)" "write_at 0x40 (fields_v1 n (e - 0x40)) b0 = Some b1" "store_checksum 18 b1 = Some q"
    using assms(1) by (auto simp: header_v1_def header_place_def split: Option.bind_splits)
  have t: "length b0 = n \<and> 0x40 \<le> e \<and> e < 2 ^ 24 \<and> (if start < 0x40 then e = 0x54 \<and> bytes_at 0x54 4 b0 = branch 0x54 start else e = start)"
    using w(1) assms(2,6) written_bytes[of "0x54" "branch 0x54 start" buf b0] write_at_length[of "0x54" "branch 0x54 start" buf b0]
    by (auto simp: trampoline_def header_place_def header_size_def split: if_splits Option.bind_splits)
  have l: "length b1 = n" using write_at_length[OF w(2)] t by simp
  note c = stored_checksum[OF w(3)]
  have lq: "length q = n" using c(2) l by simp
  note k = stored_crc[of q img, unfolded lq, OF assms(7)]
  have li: "length img = n" by (rule k(2))
  have n: "88 \<le> n" using assms(8) by (auto split: if_splits)
  let ?f = "fields_v1 n (e - 0x40)"
  have f: "bytes_at 0x40 18 img = ?f"
    using k(3)[of "0x40" 18] c(3)[of "0x40" 18] written_bytes[OF w(2)] n by (simp add: fields_parts)
  have "bytes_at (0x40 + 18) 2 img = bytes_at (0x40 + 18) 2 q" "bytes_at 0x40 18 img = bytes_at 0x40 18 q"
    using k(3)[of "0x40 + 18" 2] k(3)[of "0x40" 18] n by simp_all
  then have s: "rom_checksum 18 img" using c(1) by (simp add: rom_checksum_def)
  have p: "bytes_at 0x40 4 img = take 4 ?f" "bytes_at 0x46 2 img = take 2 (drop 6 ?f)" "img ! 0x44 = ?f ! 4"
      "bytes_at 0x48 4 img = take 4 (drop 8 ?f)" "bytes_at 0x4c 4 img = take 4 (drop 12 ?f)"
    using part_of_bytes[of 0 4 18 "0x40" img] part_of_bytes[of 6 2 18 "0x40" img] bytes_nth[of "0x40" 18 img 4]
      part_of_bytes[of 8 4 18 "0x40" img] part_of_bytes[of 12 4 18 "0x40" img] f li n by simp_all
  have el: "(e - 0x40) mod 256 ^ 4 = e - 0x40" "n mod 256 ^ 4 = n"
  proof -
    have "e - 0x40 < 256 ^ 4" "n < 256 ^ 4" using t assms(3) by auto
    then show "(e - 0x40) mod 256 ^ 4 = e - 0x40" "n mod 256 ^ 4 = n" by (simp_all only: mod_less)
  qed
  have v: "le_nat (bytes_at 0x46 2 img) = 20" "le_nat (bytes_at 0x48 4 img) = n" "le_nat (bytes_at 0x4c 4 img) = e - 0x40"
    by (simp_all only: p fields_parts le_nat_low el) simp
  have en: "rom_entry 1 img = Some (int e)" using t v(3) by (simp add: rom_entry_def)
  have "reaches 1 img start"
  proof (cases "start < 0x40")
    case True
    then have e: "e = 0x54" "bytes_at 0x54 4 b0 = branch 0x54 start" "92 \<le> n" using t assms(8) by auto
    have "bytes_at 0x54 4 img = branch 0x54 start"
      using k(3)[of "0x54" 4] c(3)[of "0x54" 4] other_bytes[OF w(2), of "0x54" 4] e by (simp add: fields_parts)
    then have "arm_branch_dest img 0x54 = Some (int start)"
      by (rule branch_reaches) (use li assms(5,6) e in simp_all)
    then show ?thesis using en e li unfolding reaches_def by (intro disjI2 exI[of _ "0x54"]) simp
  next
    case False
    then show ?thesis using en t by (simp add: reaches_def)
  qed
  moreover have "bytes_at 0x40 4 img = [0x41, 0x53, 0x30, 0x31]" "unat (img ! 0x44) = 1" by (simp_all only: p fields_parts unsigned_1)
  then have "rom_accepts 1 img"
    using v(1,2) s k(1) assms(4) unfolding rom_accepts_def li by (simp only: refl one_neq_zero if_False simp_thms)
  ultimately show ?thesis by simp
qed

lemma header_v0_runs:
  assumes "length buf = n" and "84 \<le> n"
  shows "\<exists>q. header_v0 n start buf = Some q \<and> length q = n \<and> (\<forall>i m. i + m \<le> 0x40 \<or> 0x58 \<le> i \<longrightarrow> bytes_at i m q = bytes_at i m buf)"
proof -
  obtain b1 where 1: "write_at 0x40 (fields_v0 n) buf = Some b1" using assms by (simp add: write_at_def fields_parts)
  obtain b2 where 2: "write_at 0x4c (branch 0x4c start) b1 = Some b2"
    using assms write_at_length[OF 1] by (simp add: write_at_def)
  have l: "length b2 = n" using write_at_length[OF 1] write_at_length[OF 2] assms by simp
  then obtain q where q: "store_checksum 10 b2 = Some q"
    using assms by (simp add: store_checksum_def write_at_def Let_def header_place_def)
  have "bytes_at i m q = bytes_at i m buf" if "i + m \<le> 0x40 \<or> 0x58 \<le> i" for i m
  proof -
    have "bytes_at i m q = bytes_at i m b2" by (rule stored_checksum(3)[OF q]) (use that in auto)
    also have "\<dots> = bytes_at i m b1" by (rule other_bytes[OF 2]) (use that in auto)
    also have "\<dots> = bytes_at i m buf" by (rule other_bytes[OF 1]) (use that in \<open>auto simp: fields_parts\<close>)
    finally show ?thesis .
  qed
  with 1 2 q stored_checksum(2)[OF q] l show ?thesis by (simp add: header_v0_def header_place_def)
qed

lemma header_v1_runs:
  assumes "length buf = n" and "84 \<le> n" and "start < 0x40 \<longrightarrow> 88 \<le> n"
  shows "\<exists>q. header_v1 n start buf = Some q \<and> length q = n \<and> (\<forall>i m. i + m \<le> 0x40 \<or> 0x58 \<le> i \<longrightarrow> bytes_at i m q = bytes_at i m buf)"
proof -
  obtain e b0 where 0: "trampoline start buf = Some (e, b0)" "length b0 = n"
    "\<And>i m. i + m \<le> 0x40 \<or> 0x58 \<le> i \<Longrightarrow> bytes_at i m b0 = bytes_at i m buf"
  proof (cases "start < 0x40")
    case True
    then obtain b0 where w: "write_at 0x54 (branch 0x54 start) buf = Some b0" using assms by (auto simp: write_at_def)
    have "bytes_at i m b0 = bytes_at i m buf" if "i + m \<le> 0x40 \<or> 0x58 \<le> i" for i m
      by (rule other_bytes[OF w]) (use that in auto)
    moreover have "trampoline start buf = Some (0x54, b0)" using True w by (simp add: trampoline_def header_place_def header_size_def)
    ultimately show thesis using that write_at_length[OF w] assms(1) by metis
  next
    case False
    then show thesis using that[of start buf] assms(1) by (simp add: trampoline_def header_place_def)
  qed
  obtain b1 where 1: "write_at 0x40 (fields_v1 n (e - 0x40)) b0 = Some b1" using assms 0(2) by (simp add: write_at_def fields_parts)
  have l: "length b1 = n" using write_at_length[OF 1] 0(2) by simp
  then obtain q where q: "store_checksum 18 b1 = Some q"
    using assms by (simp add: store_checksum_def write_at_def Let_def header_place_def)
  have "bytes_at i m q = bytes_at i m buf" if "i + m \<le> 0x40 \<or> 0x58 \<le> i" for i m
  proof -
    have "bytes_at i m q = bytes_at i m b1" by (rule stored_checksum(3)[OF q]) (use that in auto)
    also have "\<dots> = bytes_at i m b0" by (rule other_bytes[OF 1]) (use that in \<open>auto simp: fields_parts\<close>)
    also have "\<dots> = bytes_at i m buf" by (rule 0(3)[OF that])
    finally show ?thesis .
  qed
  with 0 1 q stored_checksum(2)[OF q] l show ?thesis by (simp add: header_v1_def header_place_def)
qed

text \<open>The whole function, on a buffer that has room for the header.\<close>

lemma add_header_none:
  assumes "length buf = n" and "84 \<le> n" and "n mod 4 = 0"
  shows "add_socfpga_header buf n start version = None \<longleftrightarrow> version \<noteq> 0 \<and> start < 0x40 \<and> n < 88"
proof -
  have c: "\<exists>img. store_crc n q = Some img" if "length q = n" for q
    using that assms(2) by (simp add: store_crc_def write_at_def)
  show ?thesis
  proof (cases "version = 0")
    case True
    obtain q where "header_v0 n start buf = Some q" "length q = n" using header_v0_runs[OF assms(1,2)] by blast
    then show ?thesis using c[of q] True assms(3) by (auto simp: add_socfpga_header_def)
  next
    case v: False
    show ?thesis
    proof (cases "start < 0x40 \<and> n < 88")
      case True
      then have "trampoline start buf = None" using assms(1) by (simp add: trampoline_def header_place_def header_size_def write_at_def)
      then show ?thesis using v True assms(3) by (simp add: add_socfpga_header_def header_v1_def)
    next
      case False
      then obtain q where "header_v1 n start buf = Some q" "length q = n" using header_v1_runs[OF assms(1,2), of start] by auto
      then show ?thesis using c[of q] v False assms(3) by (auto simp: add_socfpga_header_def)
    qed
  qed
qed

lemma add_header_some:
  assumes "add_socfpga_header buf n start version = Some r" and "length buf = n" and "84 \<le> n" and "n mod 4 = 0" and "n < 2 ^ 18"
    and "version \<le> 1" and "start mod 4 = 0" and "start < 2 ^ 18" and "version = 0 \<or> (if start < 0x40 then 92 \<le> n else 88 \<le> n)"
  obtains img where "r = Some img" "length img = n" "rom_accepts version img" "reaches version img start"
    "\<And>i. i + 4 < n \<Longrightarrow> i < 0x40 \<or> 0x58 \<le> i \<Longrightarrow> img ! i = buf ! i"
proof -
  obtain q img where q: "(if version = 0 then header_v0 n start buf else header_v1 n start buf) = Some q" "store_crc n q = Some img" "r = Some img"
  proof -
    let ?h = "if version = 0 then header_v0 n start buf else header_v1 n start buf"
    have a: "do { buf1 \<leftarrow> ?h; buf2 \<leftarrow> store_crc n buf1; Some (Some buf2) } = Some r" using assms(1,4) by (simp add: add_socfpga_header_def)
    then obtain q where q: "?h = Some q" by (cases ?h) auto
    from a have s: "do { buf2 \<leftarrow> store_crc n q; Some (Some buf2) } = Some r" by (simp only: q Option.bind.bind_lunit)
    then obtain img where c: "store_crc n q = Some img" by (cases "store_crc n q") auto
    from s have "r = Some img" by (simp add: c)
    then show thesis by (rule that[OF q c])
  qed
  have h: "length q = n \<and> (\<forall>i m. i + m \<le> 0x40 \<or> 0x58 \<le> i \<longrightarrow> bytes_at i m q = bytes_at i m buf)"
  proof (cases "version = 0")
    case True
    then show ?thesis using header_v0_runs[OF assms(2,3), of start] q(1) by auto
  next
    case False
    then show ?thesis using header_v1_runs[OF assms(2,3), of start] q(1) assms(9) by (auto split: if_splits)
  qed
  then have lq: "length q = n" by simp
  note k = stored_crc[of q img, unfolded lq, OF q(2)]
  have ok: "rom_accepts version img \<and> reaches version img start"
  proof (cases "version = 0")
    case True
    show ?thesis unfolding True by (rule header_v0_ok[OF _ _ assms(5,4,7) _ q(2)]) (use q(1) True assms(2,3,8) in auto)
  next
    case False
    then have v: "version = 1" using assms(6) by simp
    show ?thesis unfolding v by (rule header_v1_ok[OF _ _ _ assms(4,7) _ q(2)]) (use q(1) v assms(2,5,8,9) in \<open>auto split: if_splits\<close>)
  qed
  have "img ! i = buf ! i" if "i + 4 < n" "i < 0x40 \<or> 0x58 \<le> i" for i
  proof -
    have "bytes_at i 1 img = bytes_at i 1 buf" using k(3)[of i 1] h that by auto
    then show ?thesis using bytes_nth[of i 1 img 0] bytes_nth[of i 1 buf 0] that k(2) assms(2) by simp
  qed
  with ok show thesis using that[of img] q(3) k(2) by blast
qed

section \<open>main\<close>

lemma option_values:
  "pk_options opts a = Inr a' \<Longrightarrow> pk_version a \<le> 1 \<and> pk_add a = (if pk_barebox a then 512 else 0) \<and> pk_min a = (if pk_barebox a then 0 else 80) \<Longrightarrow>
     pk_version a' \<le> 1 \<and> pk_add a' = (if pk_barebox a' then 512 else 0) \<and> pk_min a' = (if pk_barebox a' then 0 else 80)"
proof (induction opts a rule: pk_options.induct)
  case (2 p ps a)
  obtain a1 where 1: "pk_take_option p a = Inr a1" "pk_options ps a1 = Inr a'" using 2(2) by (auto split: sum.splits)
  have "pk_version a1 \<le> 1 \<and> pk_add a1 = (if pk_barebox a1 then 512 else 0) \<and> pk_min a1 = (if pk_barebox a1 then 0 else 80)"
    using 1(1) 2(3) by (cases p) (auto simp: Let_def split: if_splits)
  then show ?case using 2(1)[OF 1(1)] 1(2) by blast
qed simp

lemma read_length: "read_full rs n = Some bs \<Longrightarrow> length bs \<le> n"
proof (induction rs n arbitrary: bs rule: read_full.induct)
  case (4 b rs n)
  show ?case
  proof (cases "b = []")
    case True
    then show ?thesis using 4(2) by simp
  next
    case False
    then obtain cs where "read_full rs (Suc n - length b) = Some cs" "bs = take (Suc n) b @ cs" using 4(2) by auto
    then show ?thesis using 4(1)[OF False] by simp
  qed
qed auto

lemma filled_length:
  assumes "length bytes \<le> n" and "pk_barebox a \<longrightarrow> pk_add a = 512"
  shows "length (filled a n bytes) = buffer_size a n"
proof -
  have h: "length (concat (map le_bytes bb_header)) = 80" by (simp add: bb_header_def)
  have "pk_add a + length bytes \<le> buffer_size a n" "pk_barebox a \<longrightarrow> 80 \<le> buffer_size a n" using assms by (auto simp: buffer_size_def)
  then show ?thesis by (simp add: filled_def Let_def h)
qed

lemma filled_nth:
  assumes "length bytes \<le> n" and "i < length bytes" and "pk_barebox a \<longrightarrow> pk_add a = 512"
  shows "filled a n bytes ! (pk_add a + i) = bytes ! i"
proof -
  let ?p = "replicate (buffer_size a n) (0 :: u8)" and ?b = "concat (map le_bytes bb_header)"
  have h: "length ?b = 80" by (simp add: bb_header_def)
  have l: "pk_add a + length bytes \<le> length ?p" using assms(1) by (simp add: buffer_size_def)
  then have 1: "write_at (pk_add a) bytes ?p = Some (overwrite (pk_add a) bytes ?p)" by (simp only: write_at_def if_True)
  have 2: "overwrite (pk_add a) bytes ?p ! (pk_add a + i) = bytes ! i"
    using write_at_nth[OF 1, of "pk_add a + i"] assms(2) l by simp
  show ?thesis
  proof (cases "pk_barebox a")
    case True
    let ?q = "overwrite (pk_add a) bytes ?p"
    have lq: "length ?q = length ?p" by (rule overwrite_length[OF l])
    have w: "write_at 0 ?b ?q = Some (overwrite 0 ?b ?q)"
      unfolding write_at_def using h lq True assms(3) by (simp add: buffer_size_def)
    have "overwrite 0 ?b ?q ! (pk_add a + i) = ?q ! (pk_add a + i)"
      using write_at_nth[OF w, of "pk_add a + i"] lq l h True assms(2,3) by simp
    then show ?thesis using True 2 by (simp add: filled_def Let_def)
  next
    case False
    then show ?thesis using 2 by (simp add: filled_def Let_def)
  qed
qed

lemma pad_of_rem: "(n + pad_of n) mod 4 = 0" "pad_of n < 4"
proof -
  have c: "n mod 4 = 0 \<and> pad_of n = 0 \<or> n mod 4 = 1 \<and> pad_of n = 3 \<or> n mod 4 = 2 \<and> pad_of n = 2 \<or> n mod 4 = 3 \<and> pad_of n = 1"
  proof -
    have "n mod 4 = 0 \<or> n mod 4 = 1 \<or> n mod 4 = 2 \<or> n mod 4 = 3" by presburger
    then show ?thesis by (elim disjE) (simp_all only: pad_of_def Let_def, simp_all)
  qed
  have "(n + p) mod 4 = 0"
    if "n mod 4 = 0 \<and> p = 0 \<or> n mod 4 = 1 \<and> p = 3 \<or> n mod 4 = 2 \<and> p = 2 \<or> n mod 4 = 3 \<and> p = 1" for p :: nat
    using that by presburger
  from this[OF c] show "(n + pad_of n) mod 4 = 0" .
  show "pad_of n < 4" using c by auto
qed

lemma buffer_bounds:
  assumes "pk_options opts pk_defaults = Inr a" and "pk_min a \<le> n" and "int n \<le> max_image_size a"
  shows "84 \<le> buffer_size a n" "buffer_size a n mod 4 = 0" "buffer_size a n \<le> (if pk_version a = 0 then 60 * 1024 else 224 * 1024)"
    "pk_barebox a \<longrightarrow> pk_add a = 512" "pk_version a \<le> 1" "pk_add a mod 4 = 0"
    "pk_add a < 0x40 \<and> buffer_size a n < 88 \<longleftrightarrow> \<not> pk_barebox a \<and> n = 80" "pk_add a < 0x40 \<longleftrightarrow> \<not> pk_barebox a"
proof -
  have o: "pk_version a \<le> 1 \<and> pk_add a = (if pk_barebox a then 512 else 0) \<and> pk_min a = (if pk_barebox a then 0 else 80)"
    by (rule option_values[OF assms(1)]) (simp add: pk_defaults_def)
  then show "pk_barebox a \<longrightarrow> pk_add a = 512" "pk_version a \<le> 1" "pk_add a mod 4 = 0" "pk_add a < 0x40 \<longleftrightarrow> \<not> pk_barebox a"
    by auto
  show b: "buffer_size a n mod 4 = 0" proof -
    have "buffer_size a n = (n + pad_of n) + (4 + pk_add a)" by (simp add: buffer_size_def)
    moreover have "(4 + pk_add a) mod 4 = 0" using o by simp
    moreover have "(x + y) mod 4 = 0" if "x mod 4 = 0" "y mod 4 = 0" for x y :: nat using that by presburger
    ultimately show ?thesis using pad_of_rem(1)[of n] by (simp only:)
  qed
  show "84 \<le> buffer_size a n" using o assms(2) by (auto simp: buffer_size_def split: if_splits)
  show "pk_add a < 0x40 \<and> buffer_size a n < 88 \<longleftrightarrow> \<not> pk_barebox a \<and> n = 80"
  proof (cases "pk_barebox a")
    case False
    then have "80 \<le> n" "pk_add a = 0" using o assms(2) by simp_all
    moreover have "80 < n \<longrightarrow> 84 \<le> n + pad_of n" using pad_of_rem[of n] by presburger
    moreover have "pad_of 80 = 0" by (simp add: pad_of_def)
    ultimately show ?thesis using False by (cases "n = 80") (auto simp: buffer_size_def)
  qed (use o in simp)
  have "int (buffer_size a n) \<le> (if pk_version a = 0 then 60 * 1024 else 224 * 1024) + 3"
    using assms(3) pad_of_rem(2)[of n] by (auto simp: max_image_size_def MAX_V0IMAGE_SIZE_def MAX_V1IMAGE_SIZE_def buffer_size_def split: if_splits)
  with b show "buffer_size a n \<le> (if pk_version a = 0 then 60 * 1024 else 224 * 1024)" by (cases "pk_version a = 0") (simp, presburger)+
qed

text \<open>
  C24: When \<open>mkpimage\<close> ends with 0 and everything has been written, the boot ROM accepts the image and comes to the start of
  the program behind the header that was put in front of it, the image has at most the size that the ROM can load, and
  outside the header it has the bytes of the input. Without an additional header, version 1 needs 85 bytes.
\<close>

theorem image_boots:
  assumes "mkpimage sys opts (Some f) = Some (0, Some out)" and "pk_options opts pk_defaults = Inr a" and "ps_writes sys = []"
    and "ps_stat sys f = Some n" and "pk_version a = 1 \<and> \<not> pk_barebox a \<longrightarrow> 85 \<le> n"
  shows "rom_accepts (pk_version a) out \<and> reaches (pk_version a) out (pk_add a) \<and>
    length out \<le> (if pk_version a = 0 then 60 * 1024 else 224 * 1024) \<and>
    (\<exists>bytes. read_full (ps_reads sys) n = Some bytes \<and>
       (\<forall>i<length bytes. pk_add a + i \<notin> {0x40 ..< 0x58} \<longrightarrow> out ! (pk_add a + i) = bytes ! i))"
proof -
  obtain g where g: "make_image sys a f g = Some (0, Some out)"
    using assms(1,2) by (auto simp: mkpimage_def split: option.splits)
  have s: "pk_min a \<le> n" "int n \<le> max_image_size a" using g assms(4) by (auto simp: make_image_def split: if_splits)
  obtain bytes where r: "read_full (ps_reads sys) n = Some bytes"
    using g assms(4) by (auto simp: make_image_def split: if_splits option.splits)
  let ?m = "buffer_size a n"
  note b = buffer_bounds[OF assms(2) s]
  obtain h where h: "add_socfpga_header (filled a n bytes) ?m (pk_add a) (pk_version a) = Some h"
      "(case h of None \<Rightarrow> (1, None) | Some buf \<Rightarrow> write_image sys g buf) = (0, Some out)"
    using g assms(4) r by (auto simp: make_image_def split: if_splits Option.bind_splits)
  have l: "length (filled a n bytes) = ?m" by (rule filled_length[OF read_length[OF r] b(4)])
  have small: "?m < 2 ^ 18" using b(3) by (auto split: if_splits)
  have add: "pk_add a < 2 ^ 18" using b(4,8) by (cases "pk_barebox a") auto
  have room: "pk_version a = 0 \<or> (if pk_add a < 0x40 then 92 \<le> ?m else 88 \<le> ?m)"
  proof (cases "pk_barebox a")
    case True
    then show ?thesis using b(4) by (simp add: buffer_size_def)
  next
    case False
    have "pk_version a = 1 \<Longrightarrow> 92 \<le> ?m" using False assms(5) b(2) by (simp add: buffer_size_def) presburger
    then show ?thesis using b(5) by (cases "pk_version a = 0") auto
  qed
  obtain img where i: "h = Some img" "length img = ?m" "rom_accepts (pk_version a) img" "reaches (pk_version a) img (pk_add a)"
    "\<And>i. i + 4 < ?m \<Longrightarrow> i < 0x40 \<or> 0x58 \<le> i \<Longrightarrow> img ! i = filled a n bytes ! i"
    using add_header_some[OF h(1) l b(1,2) small b(5,6) add room] by metis
  have w: "write_full [] img = (int (length img), img)" by (cases img) simp_all
  then have out: "out = img" using h(2) i(1) assms(3) by (auto simp: write_image_def split: if_splits)
  have "out ! (pk_add a + j) = bytes ! j" if "j < length bytes" "pk_add a + j \<notin> {0x40 ..< 0x58}" for j
  proof -
    have "pk_add a + j + 4 < ?m" using that(1) read_length[OF r] by (simp add: buffer_size_def)
    then show ?thesis using i(5)[of "pk_add a + j"] that filled_nth[OF read_length[OF r] that(1) b(4)] out by auto
  qed
  then show ?thesis using i(2-4) b(3) r out by auto
qed

lemma overflow_cases:
  "mkpimage sys opts infile = None \<longleftrightarrow>
     (\<exists>a f g. pk_options opts pk_defaults = Inr a \<and> infile = Some f \<and> pk_out a = Some g \<and> pk_version a = 1 \<and> \<not> pk_barebox a \<and>
        ps_stat sys f = Some 80 \<and> ps_open sys f \<and> ps_alloc sys 84 \<and> read_full (ps_reads sys) 80 \<noteq> None)"
proof -
  have m: "make_image sys a f g = None \<longleftrightarrow> pk_version a = 1 \<and> \<not> pk_barebox a \<and> ps_stat sys f = Some 80 \<and> ps_open sys f \<and> ps_alloc sys 84 \<and>
      read_full (ps_reads sys) 80 \<noteq> None" if o: "pk_options opts pk_defaults = Inr a" for a f g
  proof (cases "ps_stat sys f")
    case (Some n)
    have d: "\<not> pk_barebox a \<longrightarrow> pk_add a = 0 \<and> pk_min a = 80" using option_values[OF o] by (simp add: pk_defaults_def)
    then have e: "\<not> pk_barebox a \<Longrightarrow> buffer_size a 80 = 84" by (simp add: buffer_size_def pad_of_def)
    show ?thesis
    proof (cases "n < pk_min a \<or> int n > max_image_size a \<or> \<not> ps_open sys f \<or> \<not> ps_alloc sys (buffer_size a n)")
      case True
      have "\<not> (pk_version a = 1 \<and> \<not> pk_barebox a \<and> n = 80 \<and> ps_open sys f \<and> ps_alloc sys 84)"
        using True d e by (auto simp: max_image_size_def MAX_V1IMAGE_SIZE_def)
      then show ?thesis using Some True by (auto simp: make_image_def)
    next
      case False
      note b = buffer_bounds[OF o, of n]
      show ?thesis
      proof (cases "read_full (ps_reads sys) n")
        case None
        then show ?thesis using Some False by (auto simp: make_image_def)
      next
        case r: (Some bytes)
        have l: "length (filled a n bytes) = buffer_size a n" by (rule filled_length[OF read_length[OF r] b(4)]) (use False in auto)
        have "add_socfpga_header (filled a n bytes) (buffer_size a n) (pk_add a) (pk_version a) = None \<longleftrightarrow>
            pk_version a \<noteq> 0 \<and> pk_add a < 0x40 \<and> buffer_size a n < 88"
          by (rule add_header_none[OF l]) (use b False in auto)
        also have "\<dots> \<longleftrightarrow> pk_version a = 1 \<and> \<not> pk_barebox a \<and> n = 80" using b(5,7) False by auto
        finally show ?thesis using Some False r e by (auto simp: make_image_def split: Option.bind_splits)
      qed
    qed
  qed (simp add: make_image_def)
  show ?thesis
  proof (cases "pk_options opts pk_defaults")
    case (Inr a)
    then show ?thesis using m[OF Inr] by (auto simp: mkpimage_def split: option.splits)
  qed (simp add: mkpimage_def)
qed

text \<open>
  C26: \<open>mkpimage\<close> writes outside its buffer exactly for a file of 80 bytes, the smallest that it takes, in version 1 without an
  additional header: there the branch behind the header has no room.
\<close>

theorem buffer_overflow_iff:
  "mkpimage sys opts infile = None \<longleftrightarrow>
     (\<exists>a f g. pk_options opts pk_defaults = Inr a \<and> infile = Some f \<and> pk_out a = Some g \<and> pk_version a = 1 \<and> \<not> pk_barebox a \<and>
        ps_stat sys f = Some 80 \<and> ps_open sys f \<and> ps_alloc sys 84 \<and> read_full (ps_reads sys) 80 \<noteq> None)"
  by (rule overflow_cases)

section \<open>Examples\<close>

theorem crc32_finds_bursts_witness: "crc32 0xffffffff ([1, 2] @ [3] @ [9]) \<noteq> crc32 0xffffffff ([1, 2] @ [7] @ [9])"
  by (rule crc32_finds_bursts) simp_all

definition example_pk :: pk_sys where
  "example_pk = \<lparr>ps_stat = (\<lambda>_. Some 88), ps_open = (\<lambda>_. True), ps_alloc = (\<lambda>_. True), ps_reads = [Some (replicate 88 7)],
     ps_create = (\<lambda>_. True), ps_writes = []\<rparr>"

lemma example_pk_fields:
  "ps_stat example_pk f = Some 88" "ps_open example_pk f" "ps_alloc example_pk n" "ps_create example_pk f" "ps_writes example_pk = []"
  "read_full (ps_reads example_pk) 88 = Some (replicate 88 7)"
  using read_full.simps(4)[of "replicate 88 7" "[]" 87] by (simp_all add: example_pk_def)

lemma example_options: "pk_options [O_version ''1'', O_output ''image''] pk_defaults =
    Inr \<lparr>pk_version = 1, pk_barebox = False, pk_min = 80, pk_add = 0, pk_out = Some ''image''\<rparr>"
  by code_simp

theorem image_boots_witness:
  "\<exists>out. mkpimage example_pk [O_version ''1'', O_output ''image''] (Some ''program'') = Some (0, Some out) \<and>
     rom_accepts 1 out \<and> reaches 1 out 0 \<and> length out \<le> 229376"
proof -
  let ?a = "\<lparr>pk_version = 1, pk_barebox = False, pk_min = 80, pk_add = 0, pk_out = Some ''image''\<rparr>"
  let ?m = "mkpimage example_pk [O_version ''1'', O_output ''image''] (Some ''program'')"
  let ?h = "add_socfpga_header (filled ?a 88 (replicate 88 7)) 92 0 1"
  have u: "?m = (case ?h of None \<Rightarrow> None | Some r \<Rightarrow> Some (case r of None \<Rightarrow> (1, None) | Some buf \<Rightarrow> write_image example_pk ''image'' buf))"
    unfolding mkpimage_def example_options
    by (simp add: make_image_def example_pk_fields max_image_size_def MAX_V1IMAGE_SIZE_def buffer_size_def pad_of_def split: option.split)
  have "?m \<noteq> None" unfolding overflow_cases example_options by (simp add: example_pk_fields)
  then obtain r where r: "?h = Some r" unfolding u by (cases ?h) simp_all
  have l: "length (filled ?a 88 (replicate 88 7)) = 92" by (simp add: filled_length buffer_size_def pad_of_def)
  obtain img where "r = Some img" by (rule add_header_some[OF r l]) simp_all
  then have m: "?m = Some (0, Some img)"
    using r unfolding u by (cases img) (simp_all add: write_image_def example_pk_fields)
  from image_boots[OF m example_options, of 88] show ?thesis using m by (auto simp: example_pk_fields)
qed

end
