(* ===== verification/Makedevs.thy ===== *)
theory Makedevs
  imports C_Strings "HOL-Library.Monad_Syntax"
begin

text \<open>
  The program makedevs, which makes the directories and device nodes of a table. The operating system is an argument:
  what a call answers may depend on the calls before it, which the state has in order with their answers. Messages on
  the error output are left out, and memory does not run out.
\<close>

section \<open>The system\<close>

text \<open>The calls that change the file system, and the end of the program by \<open>bb_error_msg_and_die\<close> or \<open>exit(1)\<close>.\<close>

datatype call =
  Chdir string
| Mkdir string u32
| Chown string u32 u32
| Chmod string u32
| Mknod string u32 "u32 \<times> u32"
| Set_caps string string

type_synonym calls = "(call \<times> bool) list"

text \<open>
  The answers of the calls; whether \<open>mkdir\<close> fails because there is a file already; \<open>stat\<close>; the files that \<open>nftw\<close> comes to
  and whether it comes to all; \<open>etc/passwd\<close> and \<open>etc/group\<close> with names and numbers; the identity of the process; the
  files that can be read; and whether the program is built with \<open>EXTENDED_ATTRIBUTES\<close>.
\<close>

record os =
  os_ok :: "calls \<Rightarrow> call \<Rightarrow> bool"
  os_exists :: "calls \<Rightarrow> string \<Rightarrow> bool"
  os_is_dir :: "calls \<Rightarrow> string \<Rightarrow> bool"
  os_is_reg :: "calls \<Rightarrow> string \<Rightarrow> bool"
  os_walk :: "calls \<Rightarrow> string \<Rightarrow> string list \<times> bool"
  os_passwd :: "(string \<times> u32) list option"
  os_group :: "(string \<times> u32) list option"
  os_uid :: u32
  os_gid :: u32
  os_open :: "string \<Rightarrow> string option"
  os_caps :: bool

text \<open>The calls, the mask, \<open>full_name\<close> and \<open>ret\<close>.\<close>

record mkdevs =
  mk_calls :: calls
  mk_umask :: u32
  mk_full :: "string option"
  mk_ret :: nat

definition syscall :: "os \<Rightarrow> call \<Rightarrow> mkdevs \<Rightarrow> bool \<times> mkdevs" where
  "syscall os c st = (let ok = os_ok os (mk_calls st) c in (ok, st\<lparr>mk_calls := mk_calls st @ [(c, ok)]\<rparr>))"

definition failed :: "mkdevs \<Rightarrow> mkdevs" where "failed st = st\<lparr>mk_ret := 1\<rparr>"

section \<open>sscanf\<close>

text \<open>\<open>%<n>s\<close>, \<open> %c\<close> and, with the base 8 or 10, \<open>%o\<close> and \<open>%u\<close>: the value and the rest.\<close>

definition scan_string :: "nat \<Rightarrow> string \<Rightarrow> (string \<times> string) option" where
  "scan_string n s =
     (let w = take n (takeWhile (\<lambda>c. \<not> isspace c) (dropWhile isspace s))
      in if w = [] then None else Some (w, drop (length w) (dropWhile isspace s)))"

definition scan_char :: "string \<Rightarrow> (char \<times> string) option" where
  "scan_char s = (case dropWhile isspace s of [] \<Rightarrow> None | c # r \<Rightarrow> Some (c, r))"

text \<open>\<open>strtoul\<close> of a sign and digits.\<close>

definition unsigned_long :: "bool \<Rightarrow> nat \<Rightarrow> u64" where
  "unsigned_long neg n = (if n \<ge> 2 ^ 64 then -1 else if neg then - of_nat n else of_nat n)"

definition is_digit :: "nat \<Rightarrow> char \<Rightarrow> bool" where "is_digit b c \<longleftrightarrow> digit_of b c \<noteq> None"

definition scan_unsigned :: "nat \<Rightarrow> string \<Rightarrow> (u32 \<times> string) option" where
  "scan_unsigned b s =
     (case read_sign (dropWhile isspace s) of (neg, r) \<Rightarrow>
        let ds = takeWhile (is_digit b) r
        in if ds = [] then None else Some (ucast (unsigned_long neg (digits_val b ds 0)), dropWhile (is_digit b) r))"

text \<open>The variables of a line, in the order of the conversions.\<close>

record entry =
  e_name :: string
  e_type :: char
  e_mode :: u32
  e_user :: string
  e_group :: string
  e_major :: u32
  e_minor :: u32
  e_start :: u32
  e_increment :: u32
  e_count :: u32

type_synonym conversion = "entry \<Rightarrow> string \<Rightarrow> (entry \<times> string) option"

definition converts :: "(string \<Rightarrow> ('a \<times> string) option) \<Rightarrow> ('a \<Rightarrow> entry \<Rightarrow> entry) \<Rightarrow> conversion" where
  "converts scan store e s = map_option (\<lambda>(x, r). (store x e, r)) (scan s)"

definition entry_format :: "conversion list" where
  "entry_format =
     [converts (scan_string 4095) (\<lambda>x e. e\<lparr>e_name := x\<rparr>), converts scan_char (\<lambda>x e. e\<lparr>e_type := x\<rparr>),
      converts (scan_unsigned 8) (\<lambda>x e. e\<lparr>e_mode := x\<rparr>), converts (scan_string 40) (\<lambda>x e. e\<lparr>e_user := x\<rparr>),
      converts (scan_string 40) (\<lambda>x e. e\<lparr>e_group := x\<rparr>), converts (scan_unsigned 10) (\<lambda>x e. e\<lparr>e_major := x\<rparr>),
      converts (scan_unsigned 10) (\<lambda>x e. e\<lparr>e_minor := x\<rparr>), converts (scan_unsigned 10) (\<lambda>x e. e\<lparr>e_start := x\<rparr>),
      converts (scan_unsigned 10) (\<lambda>x e. e\<lparr>e_increment := x\<rparr>), converts (scan_unsigned 10) (\<lambda>x e. e\<lparr>e_count := x\<rparr>)]"

text \<open>How many conversions succeed; the first that fails is the last.\<close>

fun sscanf :: "conversion list \<Rightarrow> entry \<Rightarrow> string \<Rightarrow> nat \<times> entry" where
  "sscanf [] e s = (0, e)"
| "sscanf (c # cs) e s =
     (case c e s of
        None \<Rightarrow> (0, e)
      | Some (e1, r) \<Rightarrow> (case sscanf cs e1 r of (n, e2) \<Rightarrow> (Suc n, e2)))"

definition scan_xattr :: "string \<Rightarrow> string option" where
  "scan_xattr line = (if starts_with line ''|xattr'' then map_option fst (scan_string 254 (drop 6 line)) else None)"

section \<open>Users and groups\<close>

text \<open>\<open>my_getpwnam\<close> and \<open>my_getgrnam\<close>; None: the program ends.\<close>

definition my_getxxnam :: "(string \<times> u32) list option \<Rightarrow> string \<Rightarrow> u32 option" where
  "my_getxxnam file name = do { l \<leftarrow> file; map_of l name }"

definition get_ug_id :: "(string \<times> u32) list option \<Rightarrow> string \<Rightarrow> u32 option" where
  "get_ug_id file s =
     (case read_sign (dropWhile isspace s) of (neg, r) \<Rightarrow>
        if takeWhile (is_digit 10) r = [] \<or> dropWhile (is_digit 10) r \<noteq> [] then my_getxxnam file s
        else Some (ucast (unsigned_long neg (digits_val 10 r 0))))"

section \<open>Names\<close>

definition last_char_is :: "string \<Rightarrow> char \<Rightarrow> bool" where
  "last_char_is s c \<longleftrightarrow> s \<noteq> [] \<and> last s = c"

definition slash :: "char \<Rightarrow> bool" where "slash c \<longleftrightarrow> c = CHR ''/''"

definition concat_path_file :: "string \<Rightarrow> string \<Rightarrow> string" where
  "concat_path_file path name = path @ (if last_char_is path (CHR ''/'') then [] else ''/'') @ dropWhile slash name"

section \<open>Directories\<close>

definition S_IFDIR :: u32 where "S_IFDIR = 0x4000"
definition S_IFCHR :: u32 where "S_IFCHR = 0x2000"
definition S_IFBLK :: u32 where "S_IFBLK = 0x6000"
definition S_IFIFO :: u32 where "S_IFIFO = 0x1000"

text \<open>What is behind the next directory and its slashes, with \<open>FILEUTILS_RECUR\<close>.\<close>

definition next_part :: "bool \<Rightarrow> string \<Rightarrow> string" where
  "next_part recur s = (if recur then dropWhile slash (dropWhile (\<lambda>c. \<not> slash c) s) else [])"

lemma next_part_shorter:
  assumes "next_part recur s \<noteq> []" shows "length (next_part recur s) < length s"
proof (cases "dropWhile (\<lambda>c. \<not> slash c) s")
  case Nil
  then show ?thesis using assms by (simp only: next_part_def dropWhile.simps if_cancel simp_thms)
next
  case (Cons c t)
  then have "slash c" using hd_dropWhile[of "\<lambda>c. \<not> slash c" s] by simp
  then have "length (next_part recur s) \<le> length t" using assms Cons by (simp add: next_part_def length_dropWhile_le split: if_splits)
  moreover have "length (c # t) \<le> length s" using length_dropWhile_le[of "\<lambda>c. \<not> slash c" s] Cons by simp
  ultimately show ?thesis by simp
qed

text \<open>
  The loop of \<open>bb_make_directory\<close>: the path up to \<open>s\<close>, and what is behind it. The value is whether 0 is returned; every
  exit puts the mask back.
\<close>

function directory_loop :: "os \<Rightarrow> u32 \<Rightarrow> bool \<Rightarrow> string \<Rightarrow> string \<Rightarrow> mkdevs \<Rightarrow> bool \<times> mkdevs" where
  "directory_loop os mode recur before behind st =
     (let r = next_part recur behind;
          path = before @ take (length behind - length r) behind;
          (ok, st1) = syscall os (Mkdir path (0x1FF AND NOT (mk_umask st))) st
      in if \<not> ok \<and> (\<not> os_exists os (mk_calls st1) path \<or> \<not> recur \<or> \<not> os_is_dir os (mk_calls st1) path) then (False, st1)
         else if r = [] then (if ok then syscall os (Chmod path mode) st1 else (True, st1))
         else directory_loop os mode recur path r st1)"
  by pat_completeness auto
termination
  by (relation "measure (\<lambda>(os, mode, recur, before, behind, st). length behind)") (use next_part_shorter in auto)

declare directory_loop.simps [simp del]

text \<open>The mode is not -1 in the only call, where it is an unsigned number with \<open>S_IFDIR\<close>.\<close>

definition bb_make_directory :: "os \<Rightarrow> string \<Rightarrow> u32 \<Rightarrow> bool \<Rightarrow> mkdevs \<Rightarrow> bool \<times> mkdevs" where
  "bb_make_directory os path mode recur st =
     (let mask = mk_umask st;
          (ok, st1) = directory_loop os mode recur [] path (st\<lparr>mk_umask := mask AND NOT 0xC0\<rparr>)
      in (ok, st1\<lparr>mk_umask := mask\<rparr>))"

section \<open>The entries of the table\<close>

text \<open>\<open>chown\<close> and \<open>chmod\<close>, which \<open>-1\<close> leaves out.\<close>

definition own_and_mode :: "os \<Rightarrow> string \<Rightarrow> u32 \<Rightarrow> u32 \<Rightarrow> u32 \<Rightarrow> mkdevs \<Rightarrow> bool \<times> mkdevs" where
  "own_and_mode os path uid gid mode st =
     (let (ok, st1) = syscall os (Chown path uid gid) st
      in if \<not> ok then (False, st1)
         else if mode \<noteq> -1 then syscall os (Chmod path mode) st1
         else (True, st1))"

definition check_result :: "bool \<times> mkdevs \<Rightarrow> mkdevs" where
  "check_result r = (if fst r then snd r else failed (snd r))"

text \<open>\<open>nftw\<close> with \<open>bb_recursive\<close>: it stops at the first file for which that does not return 0.\<close>

fun walk_files :: "os \<Rightarrow> u32 \<Rightarrow> u32 \<Rightarrow> u32 \<Rightarrow> string list \<Rightarrow> bool \<Rightarrow> mkdevs \<Rightarrow> bool \<times> mkdevs" where
  "walk_files os uid gid mode [] all st = (all, st)"
| "walk_files os uid gid mode (f # fs) all st =
     (let (ok, st1) = own_and_mode os f uid gid mode st
      in if ok then walk_files os uid gid mode fs all st1 else (False, st1))"

definition make_node :: "os \<Rightarrow> string \<Rightarrow> u32 \<Rightarrow> u32 \<times> u32 \<Rightarrow> u32 \<Rightarrow> u32 \<Rightarrow> mkdevs \<Rightarrow> mkdevs" where
  "make_node os name mode rdev uid gid st =
     (let (made, st1) = syscall os (Mknod name mode rdev) st in
      if \<not> made then failed st1
      else let (owned, st2) = syscall os (Chown name uid gid) st1 in
           if \<not> owned then failed st2
           else check_result (syscall os (Chmod name mode) st2))"

text \<open>
  The loop over \<open>i\<close>, from \<open>start\<close> to \<open>start + count\<close>, where \<open>count\<close> has been decremented. (The two are below \<open>2 ^ 20\<close>,
  so that the loop ends.)
\<close>

definition nodes_loop :: "os \<Rightarrow> entry \<Rightarrow> string \<Rightarrow> u32 \<Rightarrow> u32 \<Rightarrow> u32 \<Rightarrow> u32 \<Rightarrow> mkdevs \<Rightarrow> mkdevs" where
  "nodes_loop os e full mode count uid gid st =
     fold (\<lambda>i. make_node os (if count \<noteq> 0 then full @ nat_str 10 i else full) mode
              (e_major e, e_minor e + (of_nat i - e_start e) * e_increment e) uid gid)
       [unat (e_start e) ..< Suc (unat (e_start e + count))] st"

definition make_nodes :: "os \<Rightarrow> entry \<Rightarrow> string \<Rightarrow> u32 \<Rightarrow> u32 \<Rightarrow> mkdevs \<Rightarrow> mkdevs" where
  "make_nodes os e full uid gid st =
     (let count = (if e_count e \<noteq> 0 then e_count e - 1 else e_count e) in
      if e_type e = CHR ''p'' then nodes_loop os e full (e_mode e OR S_IFIFO) count uid gid st
      else if e_type e = CHR ''c'' then nodes_loop os e full (e_mode e OR S_IFCHR) count uid gid st
      else if e_type e = CHR ''b'' then nodes_loop os e full (e_mode e OR S_IFBLK) count uid gid st
      else failed st)"

definition make_entry :: "os \<Rightarrow> entry \<Rightarrow> string \<Rightarrow> u32 \<Rightarrow> u32 \<Rightarrow> mkdevs \<Rightarrow> mkdevs" where
  "make_entry os e full uid gid st =
     (if e_type e = CHR ''d'' then
        check_result (own_and_mode os full uid gid (e_mode e) (snd (bb_make_directory os full (e_mode e OR S_IFDIR) True st)))
      else if e_type e = CHR ''f'' \<or> e_type e = CHR ''F'' then
        (if os_is_reg os (mk_calls st) full then check_result (own_and_mode os full uid gid (e_mode e) st)
         else if e_type e = CHR ''F'' then st
         else failed st)
      else if e_type e = CHR ''r'' then
        (case os_walk os (mk_calls st) full of (fs, all) \<Rightarrow> check_result (walk_files os uid gid (e_mode e) fs all st))
      else make_nodes os e full uid gid st)"

section \<open>The table\<close>

text \<open>\<open>bb_get_chomped_line_from_file\<close>: up to a newline, or a NUL.\<close>

definition ends_line :: "char \<Rightarrow> bool" where "ends_line c \<longleftrightarrow> c = CHR 0x0A \<or> c = CHR 0x00"

definition bb_get_chomped_line_from_file :: "string \<Rightarrow> (string \<times> string) option" where
  "bb_get_chomped_line_from_file s =
     (if s = [] then None
      else Some (takeWhile (\<lambda>c. \<not> ends_line c) s, tl (dropWhile (\<lambda>c. \<not> ends_line c) s)))"

text \<open>
  What the arrays \<open>user\<close> and \<open>group\<close> hold before a line is read is not determined, and an argument. The left side of a sum
  is the state when the program ends with 1.
\<close>

definition new_entry :: "string \<times> string \<Rightarrow> entry" where
  "new_entry junk = \<lparr>e_name = [], e_type = CHR 0x00, e_mode = 0x1ED, e_user = fst junk, e_group = snd junk, e_major = 0, e_minor = 0,
     e_start = 0, e_increment = 0, e_count = 0\<rparr>"

definition too_large :: "entry \<Rightarrow> bool" where
  "too_large e \<longleftrightarrow> (e_major e OR e_minor e OR e_start e OR e_count e OR e_increment e) > 0xFFFFF"

definition user_or :: "u32 \<Rightarrow> (string \<times> u32) list option \<Rightarrow> string \<Rightarrow> u32 option" where
  "user_or own file s = (if s \<noteq> [] then get_ug_id file s else Some own)"

definition table_line :: "os \<Rightarrow> string \<Rightarrow> string \<times> string \<Rightarrow> string \<Rightarrow> mkdevs \<Rightarrow> mkdevs + mkdevs" where
  "table_line os rootdir junk line st =
     (case scan_xattr line of
        Some xattr \<Rightarrow>
          if \<not> os_caps os then Inl st
          else (case mk_full st of
                  None \<Rightarrow> Inl st
                | Some full \<Rightarrow> (let (ok, st1) = syscall os (Set_caps full xattr) st in if ok then Inr st1 else Inl st1))
      | None \<Rightarrow>
          (case sscanf entry_format (new_entry junk) line of (n, e) \<Rightarrow>
             if n < 2 \<or> too_large e then
               (if line = [] \<or> hd line = CHR ''#'' \<or> isspace (hd line) then Inr st else Inr (failed st))
             else if take 1 (e_name e) = ''#'' then Inr st
             else (case user_or (os_gid os) (os_group os) (e_group e) of
                     None \<Rightarrow> Inl st
                   | Some gid \<Rightarrow>
                       (case user_or (os_uid os) (os_passwd os) (e_user e) of
                          None \<Rightarrow> Inl st
                        | Some uid \<Rightarrow>
                            let full = concat_path_file rootdir (e_name e)
                            in Inr (make_entry os e full uid gid (st\<lparr>mk_full := Some full\<rparr>))))))"

function table_loop :: "os \<Rightarrow> string \<Rightarrow> (nat \<Rightarrow> string \<times> string) \<Rightarrow> nat \<Rightarrow> string \<Rightarrow> mkdevs \<Rightarrow> mkdevs + mkdevs" where
  "table_loop os rootdir junk n s st =
     (case bb_get_chomped_line_from_file s of
        None \<Rightarrow> Inr st
      | Some (line, rest) \<Rightarrow>
          (case table_line os rootdir (junk n) line st of
             Inl st1 \<Rightarrow> Inl st1
           | Inr st1 \<Rightarrow> table_loop os rootdir junk (Suc n) rest st1))"
  by pat_completeness auto
termination
proof (relation "measure (\<lambda>(os, rootdir, junk, n, s, st). length s)")
  fix os :: os and rootdir s line rest :: string and junk :: "nat \<Rightarrow> string \<times> string" and n :: nat and st st1 :: mkdevs and p
  assume "bb_get_chomped_line_from_file s = Some p" "(line, rest) = p"
  then have "s \<noteq> []" "rest = tl (dropWhile (\<lambda>c. \<not> ends_line c) s)" by (auto simp: bb_get_chomped_line_from_file_def split: if_splits)
  then have "length rest < length s"
    using length_dropWhile_le[of "\<lambda>c. \<not> ends_line c" s] by (cases s) (auto simp: le_imp_less_Suc)
  then show "((os, rootdir, junk, Suc n, rest, st1), os, rootdir, junk, n, s, st) \<in>
      measure (\<lambda>(os, rootdir, junk, n, s, st). length s)" by simp
qed simp

declare table_loop.simps [simp del]

section \<open>main\<close>

text \<open>\<open>-d\<close> with its argument, and another option, as \<open>getopt\<close> gives them; the arguments behind the options.\<close>

datatype dev_option = Opt_d string | Opt_other

fun open_table :: "os \<Rightarrow> dev_option list \<Rightarrow> string option \<times> string \<Rightarrow> (string option \<times> string) option" where
  "open_table os [] t = Some t"
| "open_table os (Opt_other # opts) t = None"
| "open_table os (Opt_d f # opts) t =
     (case os_open os f of None \<Rightarrow> None | Some s \<Rightarrow> open_table os opts (Some f, s))"

definition start_mkdevs :: mkdevs where
  "start_mkdevs = \<lparr>mk_calls = [], mk_umask = 0, mk_full = None, mk_ret = 0\<rparr>"

definition devs_newline :: string where "devs_newline = [CHR 0x0A]"

text \<open>The status, what is printed, and the calls that were made.\<close>

definition makedevs_main ::
  "os \<Rightarrow> (nat \<Rightarrow> string \<times> string) \<Rightarrow> dev_option list \<Rightarrow> string list \<Rightarrow> string \<Rightarrow> nat \<times> string \<times> calls"
where
  "makedevs_main os junk opts args stdin =
     (case open_table os opts (None, stdin) of
        None \<Rightarrow> (1, [], [])
      | Some (name, table) \<Rightarrow>
          (case args of
             [] \<Rightarrow> (1, [], [])
           | rootdir # _ \<Rightarrow>
               let (ok, st) = syscall os (Chdir rootdir) start_mkdevs;
                   out = ''rootdir='' @ rootdir @ devs_newline @
                     (case name of None \<Rightarrow> ''table=<stdin>'' | Some f \<Rightarrow> ''table='' @ [CHR 0x27] @ f @ [CHR 0x27]) @ devs_newline
               in if \<not> ok then (1, [], mk_calls st)
                  else (case table_loop os rootdir junk 1 table st of
                          Inl st1 \<Rightarrow> (1, out, mk_calls st1)
                        | Inr st1 \<Rightarrow> (mk_ret st1, out, mk_calls st1))))"

end
