(* ===== verification/Makedevs_Props.thy ===== *)
theory Makedevs_Props
  imports Makedevs
begin

text \<open>
  What makedevs makes of an entry of the table that is written as its documentation says, when a status of 0 can be
  trusted, and which entries do not do what they seem to do.
\<close>

section \<open>Reading an entry\<close>

definition word_like :: "nat \<Rightarrow> string \<Rightarrow> bool" where
  "word_like n w \<longleftrightarrow> w \<noteq> [] \<and> length w \<le> n \<and> list_all (\<lambda>c. \<not> isspace c) w"

definition blanks :: "string \<Rightarrow> bool" where "blanks s \<longleftrightarrow> list_all isspace s"

definition ends_word :: "string \<Rightarrow> bool" where "ends_word r \<longleftrightarrow> r = [] \<or> isspace (hd r)"

lemma drop_spaces: "blanks s \<Longrightarrow> dropWhile isspace (s @ r) = dropWhile isspace r"
  by (induction s) (auto simp: blanks_def)

lemma take_word:
  assumes "list_all P w" "r = [] \<or> \<not> P (hd r)"
  shows "takeWhile P (w @ r) = w" "dropWhile P (w @ r) = r"
  using assms by (induction w; cases r; simp)+

lemma scan_string_word:
  assumes "blanks s" "word_like n w" "ends_word r"
  shows "scan_string n (s @ w @ r) = Some (w, r)"
proof -
  have "dropWhile isspace (w @ r) = w @ r" using assms(2) by (cases w) (auto simp: word_like_def)
  moreover have "takeWhile (\<lambda>c. \<not> isspace c) (w @ r) = w"
    using assms(2,3) by (intro take_word) (auto simp: word_like_def ends_word_def)
  ultimately show ?thesis using assms(1,2) by (simp add: scan_string_def drop_spaces word_like_def Let_def)
qed

lemma scan_char_next: "blanks s \<Longrightarrow> \<not> isspace c \<Longrightarrow> scan_char (s @ c # r) = Some (c, r)"
  by (simp add: scan_char_def drop_spaces)

lemma space_no_digit: "isspace c \<Longrightarrow> \<not> is_digit 8 c \<and> \<not> is_digit 10 c"
  by (auto simp: isspace_def is_digit_def digit_of_def isdigit_def Let_def)

lemma small_long: "n < 2 ^ 32 \<Longrightarrow> ucast (unsigned_long False n) = (of_nat n :: u32)"
  by (simp add: unsigned_long_def unsigned_of_nat take_bit_nat_eq_self)

lemma scan_unsigned_number:
  assumes "blanks s" "ends_word r" "b = 8 \<or> b = 10" "n < 2 ^ 32"
  shows "scan_unsigned b (s @ nat_str b n @ r) = Some (of_nat n, r)"
proof -
  have b: "2 \<le> b" "b \<le> 16" using assms(3) by auto
  obtain d cs where h: "nat_str b n = digit_char d # cs" "d < 16" using nat_str_head[OF b] b by fastforce
  have ds: "list_all (is_digit b) (nat_str b n)" using nat_str_digits[OF b, of n] by (simp add: list_all_iff is_digit_def)
  have "dropWhile isspace (nat_str b n @ r) = nat_str b n @ r" using h digit_char_neutral[of d] by simp
  moreover have "read_sign (nat_str b n @ r) = (False, nat_str b n @ r)" using h digit_char_neutral[of d] by simp
  moreover have "takeWhile (is_digit b) (nat_str b n @ r) = nat_str b n \<and> dropWhile (is_digit b) (nat_str b n @ r) = r"
    using ds assms(2,3) space_no_digit[of "hd r"] by (intro conjI take_word) (auto simp: ends_word_def)
  moreover note small_long[OF assms(4)]
  ultimately show ?thesis using h assms(1) digits_val_nat_str[OF b, of n]
    by (simp add: scan_unsigned_def drop_spaces Let_def)
qed

text \<open>The line of an entry: the fields between blanks, the mode with the base 8.\<close>

definition entry_line :: "string \<Rightarrow> entry \<Rightarrow> string" where
  "entry_line s e =
     e_name e @ s @ [e_type e] @ s @ nat_str 8 (unat (e_mode e)) @ s @ e_user e @ s @ e_group e @
     s @ nat_str 10 (unat (e_major e)) @ s @ nat_str 10 (unat (e_minor e)) @ s @ nat_str 10 (unat (e_start e)) @
     s @ nat_str 10 (unat (e_increment e)) @ s @ nat_str 10 (unat (e_count e))"

definition fields_ok :: "entry \<Rightarrow> bool" where
  "fields_ok e \<longleftrightarrow> word_like 4095 (e_name e) \<and> \<not> isspace (e_type e) \<and> word_like 40 (e_user e) \<and> word_like 40 (e_group e)"

lemma spaces_end: "blanks s \<Longrightarrow> s \<noteq> [] \<Longrightarrow> ends_word (s @ r)"
  by (cases s) (auto simp: blanks_def ends_word_def)

lemma entry_is_read:
  assumes "blanks i" "blanks s" "s \<noteq> []" "fields_ok e"
  shows "sscanf entry_format (new_entry junk) (i @ entry_line s e) = (10, e)"
proof -
  note e = spaces_end[OF assms(2,3)]
  have u: "unat m < 2 ^ 32" for m :: u32 using unsigned_less[of m] by simp
  note n = scan_unsigned_number[OF assms(2) e _ u]
  have o: "scan_unsigned 8 (s @ nat_str 8 (unat (m :: u32)) @ s @ r) = Some (m, s @ r)" for m r
    using n[of 8 m] by simp
  have d: "scan_unsigned 10 (s @ nat_str 10 (unat (m :: u32)) @ s @ r) = Some (m, s @ r)" for m r
    using n[of 10 m] by simp
  have l: "scan_unsigned 10 (s @ nat_str 10 (unat (m :: u32))) = Some (m, [])" for m
    using scan_unsigned_number[OF assms(2), of "[]" 10 "unat m"] u[of m] by (simp add: ends_word_def)
  have w: "word_like k x \<Longrightarrow> scan_string k (s @ x @ s @ r) = Some (x, s @ r)" for k x r
    using scan_string_word[OF assms(2) _ e] .
  have f: "scan_string 4095 (i @ e_name e @ s @ r) = Some (e_name e, s @ r)" for r
    using scan_string_word[OF assms(1) _ e] assms(4) by (simp add: fields_ok_def)
  have c: "scan_char (s @ e_type e # r) = Some (e_type e, r)" for r
    using scan_char_next[OF assms(2)] assms(4) by (simp add: fields_ok_def)
  show ?thesis using assms(4)
    by (simp add: entry_format_def entry_line_def converts_def f c o d l w fields_ok_def new_entry_def)
qed

section \<open>The status\<close>

text \<open>The calls whose failure the status shows; a directory that could not be made is found by the \<open>chown\<close> that follows.\<close>

fun vital :: "call \<Rightarrow> bool" where
  "vital (Chown f u g) = True"
| "vital (Mknod f m d) = True"
| "vital (Set_caps f x) = True"
| "vital (Chdir f) = True"
| "vital (Mkdir f m) = False"
| "vital (Chmod f m) = False"

definition trusted :: "mkdevs \<Rightarrow> bool" where
  "trusted st \<longleftrightarrow> (mk_ret st = 0 \<longrightarrow> (\<forall>(c, ok)\<in>set (mk_calls st). vital c \<longrightarrow> ok))"

lemma trusted_failed [simp]: "trusted (failed st)"
  by (simp add: trusted_def failed_def)

lemma trusted_fields [simp]: "trusted (st\<lparr>mk_umask := m\<rparr>) = trusted st" "trusted (st\<lparr>mk_full := f\<rparr>) = trusted st"
  by (simp_all add: trusted_def)

lemma trusted_call: "syscall os c st = (ok, st') \<Longrightarrow> trusted st \<Longrightarrow> ok \<or> \<not> vital c \<Longrightarrow> trusted st'"
  by (auto simp: syscall_def trusted_def Let_def)

lemma trusted_check: "(fst r \<Longrightarrow> trusted (snd r)) \<Longrightarrow> trusted (check_result r)"
  by (simp add: check_result_def)

lemma trusted_directory: "trusted st \<Longrightarrow> trusted (snd (directory_loop os mode recur before behind st))"
proof (induction os mode recur before behind st rule: directory_loop.induct)
  case (1 os mode recur before behind st)
  let ?r = "next_part recur behind"
  let ?path = "before @ take (length behind - length ?r) behind"
  obtain ok st1 where c: "syscall os (Mkdir ?path (0x1FF AND NOT (mk_umask st))) st = (ok, st1)" by (metis surj_pair)
  have t: "trusted st1" using trusted_call[OF c] "1.prems" by simp
  have m: "trusted (snd (syscall os (Chmod ?path mode) st1))"
    using trusted_call[of os "Chmod ?path mode" st1] t by (metis prod.collapse vital.simps(6))
  let ?fail = "\<not> ok \<and> (\<not> os_exists os (mk_calls st1) ?path \<or> \<not> recur \<or> \<not> os_is_dir os (mk_calls st1) ?path)"
  have l: "directory_loop os mode recur before behind st =
      (if ?fail then (False, st1) else if ?r = [] then (if ok then syscall os (Chmod ?path mode) st1 else (True, st1))
       else directory_loop os mode recur ?path ?r st1)"
    by (subst directory_loop.simps) (simp only: Let_def c prod.case)
  have i: "\<not> ?fail \<Longrightarrow> ?r \<noteq> [] \<Longrightarrow> trusted (snd (directory_loop os mode recur ?path ?r st1))"
    using "1.IH"[OF refl refl c[symmetric] refl _ _ t] by blast
  then show ?case using t m by (auto simp: l)
qed

lemma trusted_own_and_mode:
  "trusted st \<Longrightarrow> fst (own_and_mode os f uid gid mode st) \<Longrightarrow> trusted (snd (own_and_mode os f uid gid mode st))"
proof -
  assume t: "trusted st" and r: "fst (own_and_mode os f uid gid mode st)"
  obtain a st1 where 1: "syscall os (Chown f uid gid) st = (a, st1)" by (metis surj_pair)
  obtain b st2 where 2: "syscall os (Chmod f mode) st1 = (b, st2)" by (metis surj_pair)
  have "a \<Longrightarrow> trusted st1 \<and> trusted st2" using trusted_call[OF 1 t] trusted_call[OF 2] by simp
  then show ?thesis using r by (simp add: own_and_mode_def 1 2 Let_def split: if_splits)
qed

lemma trusted_walk:
  "trusted st \<Longrightarrow> fst (walk_files os uid gid mode fs all st) \<Longrightarrow> trusted (snd (walk_files os uid gid mode fs all st))"
proof (induction fs arbitrary: st)
  case (Cons f fs)
  then show ?case using trusted_own_and_mode[of st os f uid gid mode]
    by (auto simp: Let_def split: prod.splits if_splits)
qed simp

lemma trusted_node: "trusted st \<Longrightarrow> trusted (make_node os name mode rdev uid gid st)"
proof -
  assume t: "trusted st"
  obtain a st1 where 1: "syscall os (Mknod name mode rdev) st = (a, st1)" by (metis surj_pair)
  obtain b st2 where 2: "syscall os (Chown name uid gid) st1 = (b, st2)" by (metis surj_pair)
  obtain c st3 where 3: "syscall os (Chmod name mode) st2 = (c, st3)" by (metis surj_pair)
  have "a \<Longrightarrow> b \<Longrightarrow> trusted st3" using trusted_call[OF 1 t] trusted_call[OF 2] trusted_call[OF 3] by simp
  then show ?thesis by (simp add: make_node_def 1 2 3 Let_def check_result_def)
qed

lemma trusted_nodes: "trusted st \<Longrightarrow> trusted (make_nodes os e full uid gid st)"
proof -
  have f: "trusted st \<Longrightarrow> trusted (fold (\<lambda>i. make_node os (n i) mode (d i) uid gid) l st)" for n mode d st and l :: "nat list"
    by (induction l arbitrary: st) (simp_all add: trusted_node)
  assume "trusted st"
  then show ?thesis by (simp add: make_nodes_def nodes_loop_def f Let_def)
qed

lemma trusted_make_directory: "trusted st \<Longrightarrow> trusted (snd (bb_make_directory os path mode recur st))"
  using trusted_directory[of "st\<lparr>mk_umask := mk_umask st AND NOT 0xC0\<rparr>" os mode recur "[]" path]
  by (cases "directory_loop os mode recur [] path (st\<lparr>mk_umask := mk_umask st AND NOT 0xC0\<rparr>)") (simp add: bb_make_directory_def)

lemma trusted_entry: "trusted st \<Longrightarrow> trusted (make_entry os e full uid gid st)"
  by (auto simp: make_entry_def Let_def trusted_nodes trusted_make_directory split: prod.splits
      intro!: trusted_check trusted_own_and_mode trusted_walk)

lemma trusted_line: "table_line os rootdir junk line st = Inr st' \<Longrightarrow> trusted st \<Longrightarrow> trusted st'"
  by (auto simp: table_line_def Let_def trusted_entry split: option.splits prod.splits if_splits dest: trusted_call)

lemma trusted_table: "table_loop os rootdir junk n s st = Inr st' \<Longrightarrow> trusted st \<Longrightarrow> trusted st'"
proof (induction os rootdir junk n s st rule: table_loop.induct)
  case (1 os rootdir junk n s st)
  show ?case
  proof (cases "bb_get_chomped_line_from_file s")
    case None
    then show ?thesis using "1.prems" by (simp add: table_loop.simps[of os rootdir junk n s st])
  next
    case (Some p)
    obtain line rest where p: "p = (line, rest)" by (cases p)
    then obtain st1 where l: "table_line os rootdir (junk n) line st = Inr st1"
      using "1.prems"(1) Some by (simp add: table_loop.simps[of os rootdir junk n s st] split: sum.splits)
    then have "table_loop os rootdir junk (Suc n) rest st1 = Inr st'"
      using "1.prems"(1) Some p by (simp add: table_loop.simps[of os rootdir junk n s st])
    then show ?thesis using "1.IH"[OF Some p[symmetric] l] trusted_line[OF l "1.prems"(2)] by blast
  qed
qed

text \<open>
  C28: when makedevs ends with 0, the table was read to its end, and every call of \<open>mknod\<close> and \<open>chown\<close> that it made, with
  every setting of capabilities, succeeded, whatever the table and the answers of the system are.
\<close>
theorem status_shows_failures:
  assumes "makedevs_main os junk opts args stdin = (0, out, calls)"
  shows "\<forall>(c, ok)\<in>set calls. (\<exists>f u g m d x. c = Chown f u g \<or> c = Mknod f m d \<or> c = Set_caps f x) \<longrightarrow> ok"
proof -
  obtain name table rootdir rest where m: "open_table os opts (None, stdin) = Some (name, table)" "args = rootdir # rest"
    using assms by (auto simp: makedevs_main_def split: option.splits prod.splits list.splits)
  obtain ok st where c: "syscall os (Chdir rootdir) start_mkdevs = (ok, st)" by (metis surj_pair)
  have ok: "ok" using assms m c by (cases ok) (simp_all add: makedevs_main_def Let_def)
  then obtain st1 where t: "table_loop os rootdir junk 1 table st = Inr st1" "mk_ret st1 = 0" "calls = mk_calls st1"
    using assms m c by (auto simp: makedevs_main_def Let_def split: sum.splits)
  have "trusted start_mkdevs" by (simp add: trusted_def start_mkdevs_def)
  then have "trusted st1" using trusted_table[OF t(1)] trusted_call[OF c] ok by simp
  then show ?thesis using t(2,3) by (fastforce simp: trusted_def)
qed

section \<open>Nodes\<close>

text \<open>A system on which every call succeeds.\<close>

definition willing :: "os \<Rightarrow> bool" where "willing os \<longleftrightarrow> (\<forall>cs c. os_ok os cs c)"

definition did :: "call list \<Rightarrow> calls" where "did = map (\<lambda>c. (c, True))"

definition after :: "call list \<Rightarrow> mkdevs \<Rightarrow> mkdevs" where "after cs st = st\<lparr>mk_calls := mk_calls st @ did cs\<rparr>"

lemma after_after [simp]: "after ds (after cs st) = after (cs @ ds) st"
  by (simp add: after_def did_def)

lemma after_nothing [simp]: "after [] st = st"
  by (simp add: after_def did_def)

lemma willing_call: "willing os \<Longrightarrow> syscall os c st = (True, after [c] st)"
  by (simp add: willing_def syscall_def after_def did_def)

lemma willing_own_and_mode:
  "willing os \<Longrightarrow> own_and_mode os f uid gid mode st = (True, after (Chown f uid gid # (if mode = -1 then [] else [Chmod f mode])) st)"
  by (simp add: own_and_mode_def willing_call Let_def)

lemma willing_node:
  "willing os \<Longrightarrow> make_node os f mode d uid gid st = after [Mknod f mode d, Chown f uid gid, Chmod f mode] st"
  by (simp add: make_node_def willing_call check_result_def Let_def)

lemma willing_fold:
  "willing os \<Longrightarrow> fold (\<lambda>i. make_node os (n i) mode (d i) uid gid) l st =
     after (concat (map (\<lambda>i. [Mknod (n i) mode (d i), Chown (n i) uid gid, Chmod (n i) mode]) l)) st"
  by (induction l arbitrary: st) (simp_all add: willing_node)

lemma fits:
  assumes "\<not> too_large e"
  shows "unat (e_start e) < 2 ^ 20" "unat (e_count e) < 2 ^ 20"
proof -
  have t: "(e_major e OR e_minor e OR e_start e OR e_count e OR e_increment e) \<le> 0xFFFFF"
    using assms by (simp add: too_large_def)
  have s: "e_start e \<le> 0xFFFFF" by (rule order_trans[OF order_trans[OF le_word_or2 order_trans[OF le_word_or1 le_word_or1]] t])
  have c: "e_count e \<le> 0xFFFFF"
    by (rule order_trans[OF order_trans[OF le_word_or2 order_trans[OF le_word_or1 order_trans[OF le_word_or1 le_word_or1]]] t])
  show "unat (e_start e) < 2 ^ 20" "unat (e_count e) < 2 ^ 20" using s c by (simp_all add: word_le_nat_alt)
qed

definition node_mode :: "entry \<Rightarrow> u32" where
  "node_mode e = e_mode e OR (if e_type e = CHR ''p'' then S_IFIFO else if e_type e = CHR ''c'' then S_IFCHR else S_IFBLK)"

definition node_name :: "entry \<Rightarrow> string \<Rightarrow> nat \<Rightarrow> string" where
  "node_name e full k = full @ (if unat (e_count e) \<le> 1 then [] else nat_str 10 (unat (e_start e) + k))"

definition node_number :: "entry \<Rightarrow> nat \<Rightarrow> u32 \<times> u32" where
  "node_number e k = (e_major e, e_minor e + of_nat k * e_increment e)"

definition node_calls :: "entry \<Rightarrow> string \<Rightarrow> u32 \<Rightarrow> u32 \<Rightarrow> nat \<Rightarrow> call list" where
  "node_calls e full uid gid k =
     (let f = node_name e full k in [Mknod f (node_mode e) (node_number e k), Chown f uid gid, Chmod f (node_mode e)])"

lemma made_nodes:
  assumes "willing os" "\<not> too_large e" "e_type e \<in> {CHR ''p'', CHR ''c'', CHR ''b''}"
  shows "make_nodes os e full uid gid st = after (concat (map (node_calls e full uid gid) [0..<max 1 (unat (e_count e))])) st"
proof -
  define count where "count = (if e_count e \<noteq> 0 then e_count e - 1 else e_count e)"
  have u: "unat count = max 1 (unat (e_count e)) - 1"
    using unat_minus_one[of "e_count e"] unat_eq_zero[of "e_count e"] by (auto simp: count_def max_def)
  have s: "unat (e_start e + count) = unat (e_start e) + unat count"
  proof -
    have "unat (e_start e) + unat count < 2 ^ 32" using fits[OF assms(2)] u by (simp add: max_def split: if_splits)
    then show ?thesis using unat_add_lem[of "e_start e" count] by simp
  qed
  have m: "make_nodes os e full uid gid st = nodes_loop os e full (node_mode e) count uid gid st"
    using assms(3) by (auto simp: make_nodes_def node_mode_def count_def Let_def)
  have n: "[unat (e_start e) ..< Suc (unat (e_start e + count))] = map (\<lambda>k. unat (e_start e) + k) [0..<max 1 (unat (e_count e))]"
  proof -
    have "Suc (unat (e_start e + count)) = max 1 (unat (e_count e)) + unat (e_start e)" using u s by simp
    then show ?thesis using map_add_upt[of "unat (e_start e)" "max 1 (unat (e_count e))"] by (simp only: add.commute)
  qed
  have z: "count \<noteq> 0 \<longleftrightarrow> \<not> unat (e_count e) \<le> 1" using u by (simp add: unat_eq_0[symmetric] del: unat_eq_0)
  show ?thesis unfolding m nodes_loop_def willing_fold[OF assms(1)] n
    by (rule arg_cong[of _ _ "\<lambda>cs. after cs st"], cases "unat (e_count e) \<le> 1")
      (simp_all add: z node_calls_def node_name_def node_number_def Let_def comp_def cong: map_cong)
qed

lemma plain_line:
  assumes "blanks i" "blanks s" "s \<noteq> []" "fields_ok e" "take 1 (e_name e) \<noteq> ''|''"
  shows "scan_xattr (i @ entry_line s e) = None"
proof -
  have "\<not> starts_with (i @ entry_line s e) ''|xattr''"
  proof (cases i)
    case Nil
    then show ?thesis using assms(4,5) by (cases "e_name e") (auto simp: fields_ok_def word_like_def entry_line_def)
  next
    case (Cons c cs)
    then show ?thesis using assms(1) by (auto simp: blanks_def isspace_def code_def)
  qed
  then show ?thesis by (simp add: scan_xattr_def)
qed

lemma number_is_id: "get_ug_id file (nat_str 10 (unat n)) = Some n" for n :: u32
proof -
  have n: "unat n < 2 ^ 32" using unsigned_less[of n] by simp
  obtain d cs where h: "nat_str 10 (unat n) = digit_char d # cs" "d < 10" using nat_str_head[of 10 "unat n"] by auto
  have ds: "list_all (is_digit 10) (nat_str 10 (unat n))" using nat_str_digits[of 10 "unat n"] by (simp add: list_all_iff is_digit_def)
  have t: "takeWhile (is_digit 10) (nat_str 10 (unat n)) = nat_str 10 (unat n)" "dropWhile (is_digit 10) (nat_str 10 (unat n)) = []"
    using take_word[OF ds, of "[]"] by simp_all
  have "ucast (unsigned_long False (unat n)) = n" using small_long[OF n] by simp
  moreover have r: "read_sign (dropWhile isspace (nat_str 10 (unat n))) = (False, nat_str 10 (unat n))" and "nat_str 10 (unat n) \<noteq> []"
    using h digit_char_neutral[of d] by simp_all
  ultimately show ?thesis unfolding get_ug_id_def r prod.case t using digits_val_nat_str[of 10 "unat n"] by simp
qed

text \<open>
  C27: an entry of the table for nodes, written with blanks between its fields as the documentation says, makes exactly the
  nodes that it stands for. On a system where the calls succeed, \<open>table_line\<close> makes one node for a count of 0 or 1, with
  the name of the entry, and otherwise as many as the count, numbered from the start; the minor numbers begin with
  the one of the entry and grow by the increment. Each node is given its owner and its mode, and the status stays.
\<close>
theorem entry_makes_its_nodes:
  assumes "willing os" "fields_ok e" "\<not> too_large e" "e_type e \<in> {CHR ''p'', CHR ''c'', CHR ''b''}"
    and "take 1 (e_name e) \<notin> {''#'', ''|''}" "blanks s" "s \<noteq> []"
    and "e_user e = nat_str 10 (unat uid)" "e_group e = nat_str 10 (unat gid)"
  shows "let full = concat_path_file rootdir (e_name e);
             new = concat (map (\<lambda>k.
               let f = full @ (if unat (e_count e) \<le> 1 then [] else nat_str 10 (unat (e_start e) + k));
                   m = e_mode e OR (if e_type e = CHR ''p'' then S_IFIFO else if e_type e = CHR ''c'' then S_IFCHR else S_IFBLK)
               in [(Mknod f m (e_major e, e_minor e + of_nat k * e_increment e), True), (Chown f uid gid, True), (Chmod f m, True)])
               [0..<max 1 (unat (e_count e))])
         in table_line os rootdir junk (entry_line s e) st =
              Inr (st\<lparr>mk_full := Some full, mk_calls := mk_calls st @ new\<rparr>)"
proof -
  have r: "sscanf entry_format (new_entry junk) (entry_line s e) = (10, e)"
    using entry_is_read[of "[]" s e junk] assms(2,6,7) by (simp add: blanks_def)
  have x: "scan_xattr (entry_line s e) = None" using plain_line[of "[]" s e] assms(2,5,6,7) by (simp add: blanks_def)
  have u: "user_or own l (e_user e) = Some uid" "user_or own l (e_group e) = Some gid" for own l
    using number_is_id assms(2,8,9) by (simp_all add: user_or_def fields_ok_def word_like_def)
  have t: "make_entry os e full uid gid st1 = make_nodes os e full uid gid st1" for full st1
    using assms(4) by (auto simp: make_entry_def)
  have "did (concat (map (node_calls e full uid gid) l)) = concat (map (\<lambda>k. did (node_calls e full uid gid k)) l)" for full l
    by (simp add: did_def map_concat comp_def)
  then show ?thesis using assms(3,5)
    by (simp add: table_line_def x r u t made_nodes[OF assms(1,3,4)] after_def Let_def node_calls_def node_name_def node_mode_def
        node_number_def did_def)
qed

text \<open>
  An entry with a number above \<open>0xFFFFF\<close> is not made; but if there is a blank in front of it, that is not an
  error either: the line is passed over as if it were empty, and the status stays 0.
\<close>
theorem large_entry_is_dropped:
  assumes "fields_ok e" "too_large e" "take 1 (e_name e) \<notin> {''#'', ''|''}" "blanks i" "blanks s" "s \<noteq> []"
  shows "table_line os rootdir junk (i @ entry_line s e) st = Inr (if i = [] then st\<lparr>mk_ret := 1\<rparr> else st)"
proof -
  have r: "sscanf entry_format (new_entry junk) (i @ entry_line s e) = (10, e)" by (rule entry_is_read[OF assms(4,5,6,1)])
  have x: "scan_xattr (i @ entry_line s e) = None" using plain_line[OF assms(4,5,6,1)] assms(3) by simp
  have h: "i \<noteq> [] \<Longrightarrow> isspace (hd i)" using assms(4) by (cases i) (auto simp: blanks_def)
  obtain c w where n: "e_name e = c # w" "\<not> isspace c" "c \<noteq> CHR ''#''"
    using assms(1,3) by (cases "e_name e") (auto simp: fields_ok_def word_like_def)
  then show ?thesis using r x h assms(2)
    by (cases i) (simp_all add: table_line_def failed_def entry_line_def)
qed

section \<open>Numbers\<close>

lemma of_nat_mult_eq:
  fixes a :: u32
  assumes "k \<le> l"
  shows "of_nat k * a = of_nat l * a \<longleftrightarrow> 2 ^ 32 div gcd (unat a) (2 ^ 32) dvd (l - k)"
proof -
  let ?g = "gcd (unat a) (2 ^ 32)"
  have "of_nat k * a = of_nat l * a \<longleftrightarrow> (of_nat ((l - k) * unat a) :: u32) = 0"
    using assms by (simp add: of_nat_diff algebra_simps) (metis eq_iff_diff_eq_0 mult.commute)
  also have "\<dots> \<longleftrightarrow> 2 ^ 32 dvd (l - k) * unat a" unfolding word_of_nat_eq_0_iff by simp
  also have "\<dots> \<longleftrightarrow> (2 ^ 32 div ?g) * ?g dvd (l - k) * (unat a div ?g) * ?g" by (simp add: mult.assoc)
  also have "\<dots> \<longleftrightarrow> 2 ^ 32 div ?g dvd (l - k) * (unat a div ?g)" by (rule dvd_times_right_cancel_iff) simp
  also have "\<dots> \<longleftrightarrow> 2 ^ 32 div ?g dvd (l - k)"
  proof -
    have "coprime (2 ^ 32 div ?g) (unat a div ?g)" by (subst coprime_commute) (rule div_gcd_coprime, simp)
    then show ?thesis by (rule coprime_dvd_mult_left_iff)
  qed
  finally show ?thesis .
qed

lemma distinct_numbers:
  "distinct (map (node_number e) [0..<n]) \<longleftrightarrow> n \<le> 2 ^ 32 div gcd (unat (e_increment e)) (2 ^ 32)"
proof -
  let ?m = "2 ^ 32 div gcd (unat (e_increment e)) (2 ^ 32)"
  have m: "0 < ?m" by (simp add: div_greater_zero_iff gcd_le2_nat)
  have e: "node_number e k = node_number e l \<longleftrightarrow> ?m dvd (l - k)" if "k \<le> l" for k l
    using of_nat_mult_eq[OF that, of "e_increment e"] by (simp add: node_number_def)
  show ?thesis
  proof (cases "n \<le> ?m")
    case True
    have "node_number e k \<noteq> node_number e l" if "k < l" "l < n" for k l
    proof -
      have "\<not> ?m dvd (l - k)" using that True by (intro nat_dvd_not_less) auto
      then show ?thesis using e[of k l] that by simp
    qed
    then have "inj_on (node_number e) {0..<n}" by (metis atLeastLessThan_iff inj_onI linorder_neqE_nat)
    then show ?thesis using True by (simp add: distinct_map)
  next
    case False
    have "node_number e 0 = node_number e ?m" using e[of 0 ?m] by simp
    moreover have "?m \<in> {0..<n}" "0 \<in> {0..<n}" using False by auto
    ultimately have "\<not> inj_on (node_number e) {0..<n}" using m inj_onD less_irrefl by metis
    then show ?thesis using False by (simp add: distinct_map)
  qed
qed

fun mknod_number :: "call \<times> bool \<Rightarrow> (u32 \<times> u32) list" where
  "mknod_number (Mknod f m d, ok) = [d]"
| "mknod_number _ = []"

text \<open>
  C29: the nodes of an entry have different numbers exactly if the count is at most \<open>2 ^ 32 div gcd increment (2 ^ 32)\<close>;
  above that the minor number, which is not checked again, has passed all of its 32 bits. So an increment of 0
  gives every node the same number, and no entry with another increment and at most 8192 nodes has a number twice.
\<close>
theorem node_numbers_distinct:
  assumes "willing os" "\<not> too_large e" "e_type e \<in> {CHR ''p'', CHR ''c'', CHR ''b''}"
  shows "distinct (concat (map mknod_number (drop (length (mk_calls st)) (mk_calls (make_nodes os e full uid gid st))))) \<longleftrightarrow>
           max 1 (unat (e_count e)) \<le> 2 ^ 32 div gcd (unat (e_increment e)) (2 ^ 32)"
proof -
  have "concat (map mknod_number (did (concat (map (node_calls e full uid gid) l)))) = map (node_number e) l" for l
    by (induction l) (simp_all add: did_def node_calls_def Let_def)
  then show ?thesis using distinct_numbers[of e "max 1 (unat (e_count e))"]
    by (simp add: made_nodes[OF assms] after_def)
qed

section \<open>Directories\<close>

lemma next_part_split: "s = takeWhile (\<lambda>c. \<not> slash c) s @ takeWhile slash (dropWhile (\<lambda>c. \<not> slash c) s) @ next_part True s"
  by (simp add: next_part_def)

lemma part_taken: "take (length s - length (next_part True s)) s @ next_part True s = s"
proof -
  obtain u where "s = u @ next_part True s" using next_part_split[of s] by (metis append_assoc)
  then have "take (length s - length (next_part True s)) s = u" by (metis append_eq_conv_conj length_append add_diff_cancel_right')
  then show ?thesis using \<open>s = u @ next_part True s\<close> by simp
qed

text \<open>The paths of \<open>directory_loop\<close>.\<close>

function parts :: "string \<Rightarrow> string \<Rightarrow> string list" where
  "parts before behind =
     (let r = next_part True behind; path = before @ take (length behind - length r) behind
      in if r = [] then [path] else path # parts path r)"
  by pat_completeness auto
termination by (relation "measure (length \<circ> snd)") (use next_part_shorter in auto)

declare parts.simps [simp del]

lemma willing_directory:
  "willing os \<Longrightarrow> directory_loop os mode True before behind st =
     (True, after (map (\<lambda>p. Mkdir p (0x1FF AND NOT (mk_umask st))) (parts before behind) @ [Chmod (before @ behind) mode]) st)"
proof (induction before behind arbitrary: st rule: parts.induct)
  case (1 before behind)
  let ?r = "next_part True behind"
  have e: "take (length behind - length ?r) behind @ ?r = behind" by (rule part_taken)
  show ?case
  proof (cases "?r = []")
    case True
    then show ?thesis by (subst directory_loop.simps, subst parts.simps) (simp add: willing_call[OF "1.prems"] Let_def)
  next
    case False
    note i = "1.IH"[OF refl refl False "1.prems"]
    show ?thesis using False e
      by (subst directory_loop.simps, subst parts.simps) (simp add: willing_call[OF "1.prems"] Let_def i after_def did_def)
  qed
qed

text \<open>The lengths of the paths of the parents: up to a slash that no slash follows.\<close>

definition boundary :: "string \<Rightarrow> nat \<Rightarrow> bool" where
  "boundary s i \<longleftrightarrow> 0 < i \<and> i < length s \<and> slash (s ! (i - 1)) \<and> \<not> slash (s ! i)"

lemma boundary_here:
  assumes "list_all (\<lambda>c. \<not> slash c) a" "list_all slash b"
  shows "\<not> boundary (a @ b) i"
proof
  assume i: "boundary (a @ b) i"
  then have "length a \<le> i - 1" using assms(1) by (auto simp: boundary_def nth_append list_all_length split: if_splits)
  then have "\<not> i < length a" using i by (simp add: boundary_def)
  moreover have "i < length a + length b" using i by (simp add: boundary_def)
  ultimately have "slash ((a @ b) ! i)" using assms(2) by (simp add: nth_append list_all_length)
  then show False using i by (simp add: boundary_def)
qed

lemma boundary_later:
  assumes "list_all (\<lambda>c. \<not> slash c) a" "list_all slash b" "b \<noteq> []" "r \<noteq> []" "\<not> slash (hd r)"
  shows "boundary (a @ b @ r) i \<longleftrightarrow> i = length (a @ b) \<or> length (a @ b) < i \<and> boundary r (i - length (a @ b))"
proof -
  let ?k = "length (a @ b)"
  have l: "(a @ b @ r) ! j = (if j < ?k then (a @ b) ! j else r ! (j - ?k))" for j using nth_append[of "a @ b" r j] by simp
  consider "i < ?k" | "i = ?k" | "?k < i" by linarith
  then show ?thesis
  proof cases
    case 1
    then have "boundary (a @ b @ r) i \<longleftrightarrow> boundary (a @ b) i" by (auto simp: boundary_def l)
    then show ?thesis using boundary_here[OF assms(1,2)] 1 by simp
  next
    case 2
    have "slash (last (a @ b))" using assms(2,3) by (simp add: list_all_iff)
    then have "slash ((a @ b) ! (?k - 1))" using assms(3) by (simp add: last_conv_nth)
    moreover have "0 < ?k" "?k < length (a @ b @ r)" using assms(3,4) by simp_all
    ultimately have "boundary (a @ b @ r) ?k" using assms(4,5) by (simp add: boundary_def l hd_conv_nth del: length_append)
    then show ?thesis using 2 by simp
  next
    case 3
    then have "i - 1 - ?k = i - ?k - 1" "\<not> i - 1 < ?k" "i < length (a @ b @ r) \<longleftrightarrow> i - ?k < length r" by auto
    then show ?thesis using 3 by (auto simp: boundary_def l simp del: length_append)
  qed
qed

lemma parts_set: "set (parts before s) = insert (before @ s) ((\<lambda>i. before @ take i s) ` Collect (boundary s))"
proof (induction before s rule: parts.induct)
  case (1 before s)
  let ?r = "next_part True s"
  define a b where "a = takeWhile (\<lambda>c. \<not> slash c) s" and "b = takeWhile slash (dropWhile (\<lambda>c. \<not> slash c) s)"
  have s: "s = a @ b @ ?r" unfolding a_def b_def by (rule next_part_split)
  have t: "take (length s - length ?r) s = a @ b" using s by (metis append_assoc append_eq_conv_conj length_append add_diff_cancel_right')
  have ab: "list_all (\<lambda>c. \<not> slash c) a" "list_all slash b"
    by (auto simp: a_def b_def list_all_iff dest: set_takeWhileD)
  show ?case
  proof (cases "?r = []")
    case True
    then have n: "Collect (boundary s) = {}" using boundary_here[OF ab] s by auto
    show ?thesis unfolding n using True by (subst parts.simps) simp
  next
    case False
    then have r: "\<not> slash (hd ?r)" using hd_dropWhile[of slash] by (auto simp: next_part_def)
    have b: "b \<noteq> []"
    proof
      assume "b = []"
      then have n: "dropWhile slash (dropWhile (\<lambda>c. \<not> slash c) s) = dropWhile (\<lambda>c. \<not> slash c) s"
        using takeWhile_dropWhile_id[of slash "dropWhile (\<lambda>c. \<not> slash c) s"] by (simp add: b_def)
      then have "?r = dropWhile (\<lambda>c. \<not> slash c) s" by (simp add: next_part_def)
      then show False using r False hd_dropWhile[of "\<lambda>c. \<not> slash c" s] by auto
    qed
    have l: "boundary s i \<longleftrightarrow> i = length (a @ b) \<or> length (a @ b) < i \<and> boundary ?r (i - length (a @ b))" for i
      using boundary_later[OF ab b False r, of i] s by simp
    have p: "set (parts before s) = insert (before @ a @ b) (set (parts (before @ a @ b) ?r))"
      using False by (subst parts.simps) (simp add: t Let_def)
    have i: "set (parts (before @ a @ b) ?r) = insert (before @ s) ((\<lambda>i. before @ (a @ b) @ take i ?r) ` Collect (boundary ?r))"
      using "1.IH"[OF refl refl False] s unfolding t by simp
    have "(\<lambda>i. before @ take i s) ` Collect (boundary s) =
        insert (before @ a @ b) ((\<lambda>i. before @ (a @ b) @ take i ?r) ` Collect (boundary ?r))" (is "?l = ?q")
    proof
      have "take i s = (a @ b) @ take (i - length (a @ b)) ?r" if "length (a @ b) \<le> i" for i
        using that by (subst s) (simp flip: append_assoc)
      then show "?l \<subseteq> ?q" using l by (auto simp del: length_append)
      have u: "take (length (a @ b)) s = a @ b" by (subst s) simp
      have v: "take (length (a @ b) + i) s = (a @ b) @ take i ?r" for i by (subst s) simp
      have w: "boundary s (length (a @ b))" using l by simp
      have x: "boundary ?r i \<Longrightarrow> boundary s (length (a @ b) + i)" for i
        using l[of "length (a @ b) + i"] by (simp add: boundary_def[of ?r i] del: length_append)
      have "before @ a @ b \<in> ?l" using u w by (intro image_eqI[of _ _ "length (a @ b)"]) (simp_all del: length_append)
      moreover have "before @ (a @ b) @ take i ?r \<in> ?l" if "boundary ?r i" for i
        using v x[OF that] by (intro image_eqI[of _ _ "length (a @ b) + i"]) (simp_all del: length_append)
      ultimately show "?q \<subseteq> ?l" by blast
    qed
    then show ?thesis using p i by auto
  qed
qed


section \<open>An example\<close>

text \<open>\<open>/dev/uio b 640 0 0 252 0 1 2 5\<close> of the help of the program, on a system where everything succeeds.\<close>

definition willing_os :: os where
  "willing_os = \<lparr>os_ok = (\<lambda>_ _. True), os_exists = (\<lambda>_ _. False), os_is_dir = (\<lambda>_ _. False), os_is_reg = (\<lambda>_ _. False),
     os_walk = (\<lambda>_ _. ([], True)), os_passwd = None, os_group = None, os_uid = 0, os_gid = 0, os_open = (\<lambda>_. None), os_caps = False\<rparr>"

definition uio_entry :: entry where
  "uio_entry = \<lparr>e_name = ''/dev/uio'', e_type = CHR ''b'', e_mode = 0x1A0, e_user = ''0'', e_group = ''0'', e_major = 252, e_minor = 0,
     e_start = 1, e_increment = 2, e_count = 5\<rparr>"

lemma example_willing: "willing willing_os"
  by (simp add: willing_def willing_os_def)

lemma uio_fields_ok: "fields_ok uio_entry" "\<not> too_large uio_entry" "blanks '' ''"
  by (simp_all add: fields_ok_def uio_entry_def word_like_def isspace_def code_def blanks_def too_large_def)

lemma digit_names: "nat_str 10 0 = ''0''" "nat_str 10 1 = ''1''" "nat_str 10 2 = ''2''" "nat_str 10 3 = ''3''" "nat_str 10 4 = ''4''" "nat_str 10 5 = ''5''"
  by code_simp+

theorem status_shows_failures_witness:
  "\<exists>out calls. makedevs_main willing_os (\<lambda>_. ([], [])) [] [''/r''] ''/dev/x p'' = (0, out, calls) \<and>
     (\<forall>(c, ok)\<in>set calls. (\<exists>f u g m d x. c = Chown f u g \<or> c = Mknod f m d \<or> c = Set_caps f x) \<longrightarrow> ok)"
proof -
  have s: "fst (makedevs_main willing_os (\<lambda>_. ([], [])) [] [''/r''] ''/dev/x p'') = 0" by code_simp
  obtain out calls where m: "makedevs_main willing_os (\<lambda>_. ([], [])) [] [''/r''] ''/dev/x p'' = (0, out, calls)"
    using s by (metis prod.collapse)
  from status_shows_failures[OF m] m show ?thesis by blast
qed

theorem entry_makes_its_nodes_witness:
  "\<exists>st. table_line willing_os ''/r'' ([], []) (entry_line '' '' uio_entry) start_mkdevs = Inr st \<and>
     concat (map mknod_number (mk_calls st)) = [(252, 0), (252, 2), (252, 4), (252, 6), (252, 8)]"
  using entry_makes_its_nodes[OF example_willing uio_fields_ok(1,2) _ _ uio_fields_ok(3), where uid = 0 and gid = 0 and rootdir = "''/r''"
      and junk = "([], [])" and st = start_mkdevs]
  by (simp add: uio_entry_def digit_names Let_def upt_rec start_mkdevs_def)

theorem large_entry_is_dropped_witness:
  "table_line willing_os ''/r'' ([], []) ('' '' @ entry_line '' '' (uio_entry\<lparr>e_count := 2000000\<rparr>)) start_mkdevs = Inr start_mkdevs"
proof -
  have "fields_ok (uio_entry\<lparr>e_count := 2000000\<rparr>)" using uio_fields_ok(1) by (simp add: fields_ok_def)
  moreover have "too_large (uio_entry\<lparr>e_count := 2000000\<rparr>)" by (simp add: too_large_def uio_entry_def)
  ultimately show ?thesis
    using large_entry_is_dropped[OF _ _ _ uio_fields_ok(3,3), of "uio_entry\<lparr>e_count := 2000000\<rparr>"] by (simp add: uio_entry_def)
qed

theorem node_numbers_distinct_witness:
  "\<not> distinct (concat (map mknod_number (mk_calls
     (make_nodes willing_os (uio_entry\<lparr>e_increment := 0x80000, e_count := 8193\<rparr>) ''/r/dev/uio'' 0 0 start_mkdevs))))"
proof -
  have "\<not> too_large (uio_entry\<lparr>e_increment := 0x80000, e_count := 8193\<rparr>)" by (simp add: too_large_def uio_entry_def)
  from node_numbers_distinct[OF example_willing this, where st = start_mkdevs and full = "''/r/dev/uio''" and uid = 0 and gid = 0] show ?thesis
    by (simp add: uio_entry_def start_mkdevs_def)
qed


end
