(* ===== verification/Mkpasswd.thy ===== *)
theory Mkpasswd
  imports C_Strings "HOL-Library.Monad_Syntax"
begin

text \<open>
  The program mkpasswd, as config.h configures it for the GNU C library: with SHA-crypt and \<open>/dev/urandom\<close>, without
  \<open>crypt_gensalt\<close>. \<open>getopt_long\<close>, \<open>crypt\<close>, the input and the random numbers are arguments; messages on the error output
  are left out, those on the standard output are not translated, and memory does not run out.
\<close>

section \<open>The methods\<close>

definition valid_salts :: string where
  "valid_salts = ''abcdefghijklmnopqrstuvwxyzABCDEFGHIJKLMNOPQRSTUVWXYZ0123456789./''"

record crypt_method =
  cm_method :: string
  cm_prefix :: string
  cm_minlen :: nat
  cm_maxlen :: nat
  cm_rounds :: bool
  cm_desc :: string

definition methods :: "crypt_method list" where
  "methods =
     [\<lparr>cm_method = ''des'', cm_prefix = '''', cm_minlen = 2, cm_maxlen = 2, cm_rounds = False, cm_desc = ''standard 56 bit DES-based crypt(3)''\<rparr>,
      \<lparr>cm_method = ''md5'', cm_prefix = ''$1$'', cm_minlen = 8, cm_maxlen = 8, cm_rounds = False, cm_desc = ''MD5''\<rparr>,
      \<lparr>cm_method = ''sha-256'', cm_prefix = ''$5$'', cm_minlen = 8, cm_maxlen = 16, cm_rounds = True, cm_desc = ''SHA-256''\<rparr>,
      \<lparr>cm_method = ''sha-512'', cm_prefix = ''$6$'', cm_minlen = 8, cm_maxlen = 16, cm_rounds = True, cm_desc = ''SHA-512''\<rparr>]"

text \<open>\<open>strcasecmp\<close> for ASCII.\<close>

definition strcaseeq :: "string \<Rightarrow> string \<Rightarrow> bool" where
  "strcaseeq a b \<longleftrightarrow> map tolower a = map tolower b"

section \<open>The arguments\<close>

text \<open>\<open>merge_args\<close>: the words of the environment go before the arguments; \<open>strtok\<close> splits at blanks.\<close>

fun words :: "string \<Rightarrow> string \<Rightarrow> string list" where
  "words w [] = (if w = [] then [] else [w])"
| "words w (c # s) = (if c = CHR '' '' then (if w = [] then [] else [w]) @ words [] s else words (w @ [c]) s)"

definition merge_args :: "string option \<Rightarrow> string list \<Rightarrow> string list" where
  "merge_args args argv =
     (case args of
        None \<Rightarrow> argv
      | Some s \<Rightarrow> if words [] s = [] then argv else take 1 argv @ words [] s @ drop 1 argv)"

text \<open>What \<open>getopt_long\<close> returns, with \<open>optarg\<close>.\<close>

datatype pw_option =
  Opt_method "string option" | Opt_5 | Opt_fd string | Opt_rounds string | Opt_stdin | Opt_salt string
| Opt_version | Opt_help | Opt_unknown

text \<open>The whole string as a number, \<open>strtol(s, &p, 10)\<close> with \<open>*p\<close> at the end.\<close>

definition strtol_all :: "string \<Rightarrow> int option" where
  "strtol_all s =
     (case read_sign (dropWhile isspace s) of (neg, r) \<Rightarrow>
        if s = [] then Some 0
        else if r = [] \<or> dropWhile isdigit r \<noteq> [] then None
        else Some (strtoll s 10))"

text \<open>The variables that the options set.\<close>

record pw_vars =
  pv_fd :: int
  pv_method :: "crypt_method option"
  pv_salt :: "string option"
  pv_rounds :: u32

definition start_vars :: pw_vars where
  "start_vars = \<lparr>pv_fd = -1, pv_method = None, pv_salt = None, pv_rounds = 0\<rparr>"

text \<open>The status and what is printed when the program ends.\<close>

type_synonym ended = "nat \<times> string"

definition pw_newline :: string where "pw_newline = [CHR 0x0A]"

definition display_methods :: string where
  "display_methods =
     ''Available methods:'' @ pw_newline @ concat (map (\<lambda>m. cm_method m @ [CHR 0x09] @ cm_desc m @ pw_newline) methods)"

definition display_version :: string where
  "display_version =
     ''mkpasswd 5.0.26'' @ pw_newline @ pw_newline @ ''Copyright (C) 2001-2008 Marco d'' @ [CHR 0x27] @ ''Itri'' @ pw_newline @
     ''This is free software; see the source for copying conditions.  There is NO'' @ pw_newline @
     ''warranty; not even for MERCHANTABILITY or FITNESS FOR A PARTICULAR PURPOSE.'' @ pw_newline"

text \<open>What \<open>display_help\<close> prints on the standard output, for the status 0.\<close>

definition display_help :: string where
  "display_help = ''Usage: mkpasswd [OPTIONS]... [PASSWORD [SALT]]'' @ pw_newline @ ''Crypts the PASSWORD using crypt(3).'' @ pw_newline @ pw_newline"

definition find_method :: "string \<Rightarrow> crypt_method option" where
  "find_method name = find (\<lambda>m. strcaseeq (cm_method m) name) methods"

text \<open>A method that is not found leaves the one of an earlier option, and is an error only if there is none.\<close>

definition set_method :: "string option \<Rightarrow> pw_vars \<Rightarrow> ended + pw_vars" where
  "set_method arg v =
     (case arg of
        None \<Rightarrow> Inl (0, display_methods)
      | Some name \<Rightarrow>
          if strcaseeq ''help'' name then Inl (0, display_methods)
          else let m = (case find_method name of Some m \<Rightarrow> Some m | None \<Rightarrow> pv_method v)
               in if m = None then Inl (1, []) else Inr (v\<lparr>pv_method := m\<rparr>))"

fun take_option :: "pw_option \<Rightarrow> pw_vars \<Rightarrow> ended + pw_vars" where
  "take_option (Opt_method arg) v = set_method arg v"
| "take_option Opt_5 v = set_method (Some ''md5'') v"
| "take_option (Opt_fd s) v =
     (case strtol_all s of
        None \<Rightarrow> Inl (1, [])
      | Some n \<Rightarrow> if to_int32 n < 0 then Inl (1, []) else Inr (v\<lparr>pv_fd := to_int32 n\<rparr>))"
| "take_option (Opt_rounds s) v =
     (case strtol_all s of None \<Rightarrow> Inl (1, []) | Some n \<Rightarrow> Inr (v\<lparr>pv_rounds := word_of_int n\<rparr>))"
| "take_option Opt_stdin v = Inr (v\<lparr>pv_fd := 0\<rparr>)"
| "take_option (Opt_salt s) v = Inr (v\<lparr>pv_salt := Some s\<rparr>)"
| "take_option Opt_version v = Inl (0, display_version)"
| "take_option Opt_help v = Inl (0, display_help)"
| "take_option Opt_unknown v = Inl (1, [])"

fun pw_options :: "pw_option list \<Rightarrow> pw_vars \<Rightarrow> ended + pw_vars" where
  "pw_options [] v = Inr v"
| "pw_options (x # xs) v = (case take_option x v of Inl e \<Rightarrow> Inl e | Inr v1 \<Rightarrow> pw_options xs v1)"

section \<open>The salt\<close>

text \<open>
  The random bytes, None if \<open>/dev/urandom\<close> cannot be read; the number of \<open>rand\<close>; \<open>crypt\<close>; what the descriptors have to
  read, None if there is nothing, with the end at the end of the list; \<open>getpass\<close>.
\<close>

record pw_env =
  pe_random :: "nat \<Rightarrow> u8 list option"
  pe_rand :: nat
  pe_crypt :: "string \<Rightarrow> string \<Rightarrow> string option"
  pe_input :: "int \<Rightarrow> string option"
  pe_getpass :: "string option"

definition salt_char :: "u8 \<Rightarrow> char" where
  "salt_char b = valid_salts ! (unat b mod length valid_salts)"

definition generate_salt :: "pw_env \<Rightarrow> nat \<Rightarrow> string option" where
  "generate_salt env n = map_option (map salt_char) (pe_random env n)"

definition rounds_str :: "crypt_method \<Rightarrow> u32 \<Rightarrow> string" where
  "rounds_str m rounds =
     (if cm_rounds m \<and> rounds \<noteq> 0 then ''rounds='' @ nat_str 10 (unat rounds) @ ''$'' else [])"

definition salt_ok :: "crypt_method \<Rightarrow> string \<Rightarrow> bool" where
  "salt_ok m s \<longleftrightarrow> cm_minlen m \<le> length s \<and> length s \<le> cm_maxlen m \<and> list_all (\<lambda>c. c \<in> set valid_salts) s"

definition salt_length :: "pw_env \<Rightarrow> crypt_method \<Rightarrow> nat" where
  "salt_length env m =
     (if cm_minlen m \<noteq> cm_maxlen m then pe_rand env mod (cm_maxlen m - cm_minlen m + 1) + cm_minlen m else cm_maxlen m)"

text \<open>The salt with its prefix, or the status of the end.\<close>

definition make_salt :: "pw_env \<Rightarrow> crypt_method \<Rightarrow> u32 \<Rightarrow> string option \<Rightarrow> nat + string" where
  "make_salt env m rounds arg =
     (let pre = cm_prefix m @ rounds_str m rounds in
      case arg of
        Some s \<Rightarrow> if salt_ok m s then Inr (pre @ s) else Inl 1
      | None \<Rightarrow> (case generate_salt env (salt_length env m) of None \<Rightarrow> Inl 2 | Some s \<Rightarrow> Inr (pre @ s)))"

section \<open>main\<close>

text \<open>\<open>fgets\<close> into 128 characters, up to the end of the line.\<close>

definition line_end :: "char \<Rightarrow> bool" where "line_end c \<longleftrightarrow> c = CHR 0x0A \<or> c = CHR 0x0D"

definition read_password :: "pw_env \<Rightarrow> int \<Rightarrow> string option" where
  "read_password env fd =
     (if fd \<noteq> -1 then
        (case pe_input env fd of
           None \<Rightarrow> None
         | Some s \<Rightarrow> if s = [] then None else Some (takeWhile (\<lambda>c. \<not> line_end c) (take 127 s)))
      else pe_getpass env)"

definition print_hash :: "pw_env \<Rightarrow> crypt_method \<Rightarrow> string \<Rightarrow> string \<Rightarrow> ended" where
  "print_hash env m password salt =
     (case pe_crypt env password salt of
        None \<Rightarrow> (2, [])
      | Some r \<Rightarrow>
          if take 1 r = ''*'' then (2, [])
          else if take (length (cm_prefix m)) r \<noteq> take (length (cm_prefix m)) salt then (2, [])
          else (0, r @ pw_newline))"

text \<open>The arguments behind the options are the password and, unless there was an option for it, the salt.\<close>

definition mkpasswd_args :: "string list \<Rightarrow> string option \<Rightarrow> (string option \<times> string option) option" where
  "mkpasswd_args args salt =
     (case args of
        [] \<Rightarrow> Some (None, salt)
      | [p] \<Rightarrow> Some (Some p, salt)
      | [p, s] \<Rightarrow> if salt = None then Some (Some p, Some s) else None
      | _ \<Rightarrow> None)"

definition mkpasswd_main ::
  "pw_env \<Rightarrow> (string list \<Rightarrow> pw_option list \<times> string list) \<Rightarrow> string option \<Rightarrow> string list \<Rightarrow> ended"
where
  "mkpasswd_main env getopt environment argv =
     (case getopt (merge_args environment argv) of (opts, args) \<Rightarrow>
        (case pw_options opts start_vars of
           Inl e \<Rightarrow> e
         | Inr v \<Rightarrow>
             (case mkpasswd_args args (pv_salt v) of
                None \<Rightarrow> (1, [])
              | Some (password, salt_arg) \<Rightarrow>
                  let m = (case pv_method v of Some m \<Rightarrow> m | None \<Rightarrow> hd methods) in
                  (case make_salt env m (pv_rounds v) salt_arg of
                     Inl status \<Rightarrow> (status, [])
                   | Inr salt \<Rightarrow>
                       (case (case password of Some p \<Rightarrow> Some p | None \<Rightarrow> read_password env (pv_fd v)) of
                          None \<Rightarrow> (2, [])
                        | Some p \<Rightarrow> print_hash env m p salt)))))"

end
