(* ===== verification/Mkpasswd_Props.thy ===== *)
theory Mkpasswd_Props
  imports Mkpasswd
begin

text \<open>
  What mkpasswd prints: the hash of the password with a salt of the method, whichever way the salt was chosen. Salts
  that are generated are uniform over the characters that are allowed.
\<close>

section \<open>Salts\<close>

lemma valid_salts_64: "length valid_salts = 64" "distinct valid_salts"
  by code_simp+

lemma salt_char_valid: "salt_char b \<in> set valid_salts"
  by (simp add: salt_char_def valid_salts_64)

lemma byte_is: "k < 256 \<Longrightarrow> b = of_nat k \<longleftrightarrow> unat b = k" for b :: u8
proof -
  assume "k < 256"
  then have "unat (of_nat k :: u8) = k" by (simp add: unat_of_nat)
  moreover have "of_nat (unat b) = b" by simp
  ultimately show ?thesis by metis
qed

lemma quarter: "n < 256 \<Longrightarrow> i < 64 \<Longrightarrow> n mod 64 = i \<longleftrightarrow> n = i \<or> n = i + 64 \<or> n = i + 128 \<or> n = i + 192" for n i :: nat
proof -
  assume n: "n < 256" and i: "i < 64"
  have "n div 64 < 4" using n by (simp add: div_less_iff_less_mult)
  then consider "n div 64 = 0" | "n div 64 = 1" | "n div 64 = 2" | "n div 64 = 3" by linarith
  moreover have "n = 64 * (n div 64) + n mod 64" by simp
  ultimately have "n mod 64 = i \<Longrightarrow> n = i \<or> n = i + 64 \<or> n = i + 128 \<or> n = i + 192" by cases auto
  moreover have "n = i \<or> n = i + 64 \<or> n = i + 128 \<or> n = i + 192 \<Longrightarrow> n mod 64 = i"
    using i mod_mult_self1[of i 1 64] mod_mult_self1[of i 2 64] mod_mult_self1[of i 3 64] by auto
  ultimately show ?thesis by blast
qed

text \<open>Every character of a salt comes from exactly four of the 256 bytes.\<close>

lemma salt_char_uniform:
  assumes "c \<in> set valid_salts" shows "card {b. salt_char b = c} = 4"
proof -
  obtain i where i: "i < 64" "valid_salts ! i = c" using assms by (auto simp: in_set_conv_nth valid_salts_64)
  have e: "salt_char b = c \<longleftrightarrow> unat b mod 64 = i" for b
    using i valid_salts_64 by (simp add: salt_char_def nth_eq_iff_index_eq flip: i(2))
  have "{b. salt_char b = c} = of_nat ` {i, i + 64, i + 128, i + 192}"
  proof (rule set_eqI)
    fix b :: u8
    have "unat b < 256" using unsigned_less[of b] by simp
    then show "b \<in> {b. salt_char b = c} \<longleftrightarrow> b \<in> of_nat ` {i, i + 64, i + 128, i + 192}"
      using quarter[of "unat b" i] i(1) byte_is[of i b] byte_is[of "i + 64" b] byte_is[of "i + 128" b] byte_is[of "i + 192" b]
      by (simp add: e image_iff del: of_nat_add)
  qed
  moreover have "inj_on (of_nat :: nat \<Rightarrow> u8) {i, i + 64, i + 128, i + 192}"
  proof (rule inj_onI)
    fix x y assume "x \<in> {i, i + 64, i + 128, i + 192}" "y \<in> {i, i + 64, i + 128, i + 192}" "(of_nat x :: u8) = of_nat y"
    then show "x = y" using byte_is[of x "of_nat x"] byte_is[of y "of_nat x"] i(1) by auto
  qed
  ultimately show ?thesis by (simp only: card_image) simp
qed

lemma methods_cases: "m \<in> set methods \<Longrightarrow> cm_minlen m \<le> cm_maxlen m \<and> cm_prefix m \<in> {'''', ''$1$'', ''$5$'', ''$6$''}"
  by (auto simp: methods_def)

definition random_bytes :: "pw_env \<Rightarrow> bool" where
  "random_bytes env \<longleftrightarrow> (\<forall>n bs. pe_random env n = Some bs \<longrightarrow> length bs = n)"

lemma generated_ok:
  assumes "random_bytes env" "m \<in> set methods" "generate_salt env (salt_length env m) = Some s"
  shows "salt_ok m s"
proof -
  obtain bs where b: "pe_random env (salt_length env m) = Some bs" "s = map salt_char bs"
    using assms(3) by (auto simp: generate_salt_def)
  have "length bs = salt_length env m" using assms(1) b by (simp add: random_bytes_def)
  moreover have "cm_minlen m \<le> salt_length env m \<and> salt_length env m \<le> cm_maxlen m"
  proof (cases "cm_minlen m = cm_maxlen m")
    case False
    then have "salt_length env m = pe_rand env mod Suc (cm_maxlen m - cm_minlen m) + cm_minlen m" by (simp add: salt_length_def)
    moreover have "pe_rand env mod Suc (cm_maxlen m - cm_minlen m) < Suc (cm_maxlen m - cm_minlen m)" by (rule mod_less_divisor) simp
    ultimately show ?thesis using methods_cases[OF assms(2)] by linarith
  qed (simp add: salt_length_def)
  ultimately show ?thesis using b by (simp add: salt_ok_def salt_char_valid list_all_iff)
qed

lemma find_method_in: "find_method name = Some m \<Longrightarrow> m \<in> set methods"
  by (auto simp: find_method_def find_Some_iff)

lemma take_option_method:
  "take_option x v = Inr v' \<Longrightarrow> pv_method v \<in> insert None (Some ` set methods) \<Longrightarrow> pv_method v' \<in> insert None (Some ` set methods)"
  by (cases x) (auto simp: set_method_def Let_def dest!: find_method_in split: option.splits if_splits)

lemma pw_options_method:
  "pw_options xs v = Inr v' \<Longrightarrow> pv_method v \<in> insert None (Some ` set methods) \<Longrightarrow> pv_method v' \<in> insert None (Some ` set methods)"
proof (induction xs arbitrary: v)
  case (Cons x xs)
  then obtain v1 where "take_option x v = Inr v1" "pw_options xs v1 = Inr v'" by (auto split: sum.splits)
  then show ?case using Cons take_option_method by blast
qed simp

section \<open>The hash\<close>

text \<open>
  C31: what mkpasswd prints with the status 0, unless an option asked for information, is the answer of \<open>crypt\<close> for a salt that
  the method allows, whether it was given or generated: its prefix, the rounds if the method has them, and
  characters of \<open>valid_salts\<close>, as many as the method allows. The answer has the prefix of the method, and is
  for the password of the arguments if there is one.
\<close>
theorem printed_hash_is_checked:
  assumes "random_bytes env" "getopt (merge_args environment argv) = (opts, args)" "pw_options opts start_vars = Inr v"
    and "mkpasswd_main env getopt environment argv = (0, out)"
  shows "\<exists>m p s r. m \<in> set methods \<and> pe_crypt env p (cm_prefix m @ rounds_str m (pv_rounds v) @ s) = Some r \<and> out = r @ pw_newline \<and>
     cm_minlen m \<le> length s \<and> length s \<le> cm_maxlen m \<and> set s \<subseteq> set valid_salts \<and>
     starts_with r (cm_prefix m) \<and> \<not> starts_with r ''*'' \<and> (args \<noteq> [] \<longrightarrow> p = hd args)"
proof -
  define m where "m = (case pv_method v of Some m \<Rightarrow> m | None \<Rightarrow> hd methods)"
  have "pv_method v \<in> insert None (Some ` set methods)"
    using pw_options_method[OF assms(3)] by (simp add: start_vars_def)
  then have m: "m \<in> set methods" by (auto simp: m_def methods_def split: option.splits)
  obtain q a where q: "mkpasswd_args args (pv_salt v) = Some (q, a)"
    using assms(2-4) by (auto simp: mkpasswd_main_def split: option.splits)
  then have h: "args \<noteq> [] \<longrightarrow> q = Some (hd args)" by (auto simp: mkpasswd_args_def split: list.splits if_splits)
  obtain salt where t: "make_salt env m (pv_rounds v) a = Inr salt"
    using assms(2-4) q by (auto simp: mkpasswd_main_def Let_def m_def[symmetric] make_salt_def split: sum.splits option.splits if_splits)
  obtain s where s: "salt = cm_prefix m @ rounds_str m (pv_rounds v) @ s" "salt_ok m s"
    using t generated_ok[OF assms(1) m] by (auto simp: make_salt_def Let_def split: option.splits if_splits)
  obtain p where p: "(case q of Some p \<Rightarrow> Some p | None \<Rightarrow> read_password env (pv_fd v)) = Some p" "print_hash env m p salt = (0, out)"
    using assms(2-4) q t by (auto simp: mkpasswd_main_def Let_def m_def[symmetric] split: option.splits)
  then obtain r where r: "pe_crypt env p salt = Some r" "out = r @ pw_newline" "take 1 r \<noteq> ''*''"
      "take (length (cm_prefix m)) r = cm_prefix m"
    using s(1) by (auto simp: print_hash_def split: option.splits if_splits)
  have "starts_with r (cm_prefix m)" using r(4) by (metis append_take_drop_id starts_with_append)
  moreover have "\<not> starts_with r ''*''" using r(3) by (cases r) auto
  moreover have "args \<noteq> [] \<longrightarrow> p = hd args" using h p(1) by auto
  moreover have "cm_minlen m \<le> length s" "length s \<le> cm_maxlen m" "set s \<subseteq> set valid_salts"
    using s(2) by (auto simp: salt_ok_def list_all_iff)
  ultimately show ?thesis using m r(1,2) s(1) by blast
qed

text \<open>A method that does not exist is not noticed behind one that does; and a negative number of rounds is taken.\<close>

lemma second_method_is_ignored:
  "pw_options [Opt_method (Some ''md5''), Opt_method (Some ''sha512'')] start_vars = pw_options [Opt_method (Some ''md5'')] start_vars"
  by code_simp

lemma negative_rounds: "pw_options [Opt_rounds ''-1''] start_vars = Inr (start_vars\<lparr>pv_rounds := 4294967295\<rparr>)"
  by (simp add: strtol_all_def strtoll_def isspace_def isdigit_def code_def digit_of_def clamp_ll_def LLONG_MAX_def LLONG_MIN_def Let_def)

section \<open>An example\<close>

definition plain_env :: pw_env where
  "plain_env = \<lparr>pe_random = (\<lambda>n. Some (replicate n 7)), pe_rand = 3, pe_crypt = (\<lambda>p s. Some (s @ ''$'' @ p)), pe_input = (\<lambda>_. None),
     pe_getpass = None\<rparr>"

theorem printed_hash_is_checked_witness:
  "\<exists>out m p s r. mkpasswd_main plain_env (\<lambda>a. ([Opt_5], drop 2 a)) None [''mkpasswd'', ''-5'', ''secret''] = (0, out) \<and>
     m \<in> set methods \<and> set s \<subseteq> set valid_salts \<and> length s \<le> cm_maxlen m \<and> pe_crypt plain_env p (cm_prefix m @ s) = Some r \<and> p = ''secret''"
proof -
  let ?main = "mkpasswd_main plain_env (\<lambda>a. ([Opt_5], drop 2 a)) None [''mkpasswd'', ''-5'', ''secret'']"
  have "fst ?main = 0" by code_simp
  then obtain out where o: "?main = (0, out)" by (metis prod.collapse)
  obtain v where v: "pw_options [Opt_5] start_vars = Inr v" "pv_rounds v = 0"
    by (simp add: set_method_def find_method_def strcaseeq_def methods_def tolower_def code_def start_vars_def Let_def)
  have b: "random_bytes plain_env" by (simp add: random_bytes_def plain_env_def)
  have g: "(\<lambda>a. ([Opt_5], drop 2 a)) (merge_args None [''mkpasswd'', ''-5'', ''secret'']) = ([Opt_5], [''secret''])"
    by (simp add: merge_args_def)
  from printed_hash_is_checked[OF b g v(1) o] show ?thesis using o v(2) by (auto simp: rounds_str_def)
qed

end
