(* ===== verification/Spec2Isabelle.thy ===== *)
theory Spec2Isabelle
  imports Kc_ConfFile Kc_Auto_Props Kc_Write_Total Kc_Check_Props Kc_Finalize_Props Kc_Print_Props Kc_Main_Props Kc_Parse_Props Kc_Lex_Props Kc_Ask_Props Toolchain_Wrapper Mcookie Mkpimage_Props Makedevs_Props Mkpasswd_Props
begin

text \<open>
  The repository is a Buildroot tree with the packages of a firmware for handheld consoles. Most of it is
  package recipes, patches and configuration; the program with logic of its own is the configuration
  language, \<open>buildroot/support/kconfig\<close>, which reads the \<open>Config.in\<close> files, calculates the value of
  every symbol and writes the configuration on which everything else depends. Five smaller programs
  are modelled as well: the wrapper around the compiler, \<open>buildroot/toolchain/toolchain-wrapper.c\<close>,
  \<open>buildroot/package/x11r7/mcookie/mcookie.c\<close>, \<open>buildroot/package/mkpimage/mkpimage.c\<close>,
  \<open>buildroot/package/makedevs/makedevs.c\<close> and \<open>buildroot/package/mkpasswd\<close>. All paths below are relative to \<open>support/kconfig\<close> unless they are
  given in full.

  \<^bold>\<open>How the parts interact.\<close> The parser (\<open>zconf.y\<close>) calls \<open>menu.c\<close>, which makes a tree of entries and gives the
  symbols their properties; \<open>symbol.c\<close> interns the symbols, calculates and sets their values and looks for
  recursive dependencies; \<open>expr.c\<close> has the conditions, expressions over three-valued symbols; \<open>confdata.c\<close>
  reads and writes the files; the front ends call these.

  \<^bold>\<open>State.\<close> A \<open>struct symbol *\<close> is a value of type \<open>sym\<close> (the three constant symbols or a number), and the heap of
  symbols is a function from it to records (\<open>symtab\<close>); \<open>kstate\<close> adds the globals of \<open>symbol.c\<close> and
  \<open>confdata.c\<close>. A \<open>struct menu *\<close> is a number, and \<open>menus\<close> the heap of menus; \<open>pstate\<close> is the state of the parser
  and \<open>wstate\<close> that of the functions that write. An expression is a datatype with one constructor for
  each \<open>enum expr_type\<close>; where the code overwrites nodes of an expression through two pointers, a pointer is
  a position in it. Every function that the code lets fail, or that would follow a NULL pointer, returns an
  option. Integers with a width are words; \<open>strtoll\<close> and its overflow are written out in \<open>C_Strings\<close>.
\<close>

text \<open>
  \<^bold>\<open>Theories.\<close>

  \<^item> \<open>Prelude\<close>, \<open>C_Strings\<close>, \<open>C_Bytes\<close>: words, the string and number routines of the C library that the sources call,
    bytes of words and copies into buffers.
  \<^item> \<open>Kc_Data\<close> (\<open>expr.h\<close>, \<open>lkc.h\<close>): enums, structs, flags. \<open>Kc_Expr\<close>, \<open>Kc_Transform\<close>, \<open>Kc_Join\<close>, \<open>Kc_Dups\<close> (\<open>expr.c\<close>):
    allocation, copy and release, comparison (\<open>expr_eq\<close> and \<open>expr_eliminate_eq\<close> call one another), constants, normal
    form, joined operands, duplicates and common operands. \<open>Kc_Value\<close>, \<open>Kc_Eq\<close>, \<open>Kc_Dups_Sound\<close>: the
    value of an expression under an assignment, and what each rewriting does to it. The locale
    \<open>operand_algebra\<close> has what conjunctions and disjunctions share.
  \<^item> \<open>Kc_State\<close>, \<open>Kc_Calc\<close> (\<open>symbol.c\<close>, \<open>sym_calc_value\<close> and what it calls): the evaluation of expressions that calculates
    symbols on the way, visibility, choices, ranges, defaults. \<open>Kc_Calc_Inv\<close>, \<open>Kc_Calc_Total\<close>, \<open>Kc_Snapshot\<close>,
    \<open>Kc_Bounds\<close>: the invariant of a calculation (locales \<open>calc_invariant\<close>, \<open>calc_of\<close>), that it returns, that it gives
    the value of the expression in the state that it leaves, and the bounds of selections, visibility and ranges.
  \<^item> \<open>Kc_Set\<close>, \<open>Kc_Valid\<close> (\<open>symbol.c\<close>): setting and toggling values, strings of symbols. \<open>Kc_Hash\<close>: the table of symbols
    (locale \<open>interning\<close>).
  \<^item> \<open>Kc_Check\<close>, \<open>Kc_Check_Inv\<close>, \<open>Kc_Check_Step\<close>, \<open>Kc_Check_Props\<close> (\<open>symbol.c\<close>, \<open>conf_parse\<close> of \<open>zconf.y\<close>): the search for recursive
    dependencies and its report (locale \<open>dependency_check\<close>, a contract for the recursive call).
  \<^item> \<open>Kc_Menu\<close>, \<open>Kc_Menu_Tree\<close>, \<open>Kc_Menu_Build\<close>, \<open>Kc_Visible\<close> (\<open>menu.c\<close>): the operations of the parser on menus and
    properties, the menus as trees, the tree that the parser builds, visibility (locale \<open>menu_visitor\<close> for the loop
    over all entries).
  \<^item> \<open>Kc_Options\<close>, \<open>Kc_Finalize\<close>, \<open>Kc_Finalize_Inv\<close>, \<open>Kc_Finalize_Tree\<close>, \<open>Kc_Finalize_Props\<close> (\<open>menu.c\<close>): options of symbols,
    \<open>menu_finalize\<close> with the checks of symbols, the state that it needs and keeps, and what it does to the tree.
  \<^item> \<open>Kc_Print\<close>, \<open>Kc_Print_Props\<close> (\<open>expr.c\<close>, \<open>util.c\<close>): the text of an expression, growing strings, and a reader for the
    expressions of the grammar as the reference. \<open>Kc_Help\<close> (\<open>menu.c\<close>): the text of the help.
  \<^item> \<open>Kc_Search\<close> (\<open>symbol.c\<close>): names in a string, and symbols that match a pattern. \<open>Kc_Parse\<close> (\<open>zconf.y\<close>): the actions of the
    grammar on the statements of a file, and \<open>conf_parse\<close>. \<open>Kc_Parse_Inv\<close>, \<open>Kc_Parse_Title\<close>, \<open>Kc_Parse_Props\<close>: what every action
    keeps (\<open>open_ok\<close>, \<open>step_ok\<close>), that the title is left alone, and that the text becomes the tree which \<open>menu_finalize\<close> needs.
  \<^item> \<open>Kc_Lex\<close>, \<open>Kc_Lex_Props\<close> (\<open>zconf.l\<close>, \<open>zconf.gperf\<close>): the rules of the lexer, whose recursion has the measure \<open>lex_size\<close>,
    and the files that include each other; the states that the calls of the parser reach (\<open>scans\<close>), lines, strings,
    recursive inclusion.
  \<^item> \<open>Kc_Ask\<close>, \<open>Kc_Ask_Props\<close> (\<open>conf.c\<close>): questions, the walk over the menus, the modes that do not ask. \<open>fgets\<close> takes the
    next of a list of lines and leaves the buffer alone when there is none.
  \<^item> \<open>Kc_Files\<close>, \<open>Kc_Files_Props\<close> (\<open>confdata.c\<close>, \<open>util.c\<close>): which file is read, the file of dependencies, the temporary files of
    \<open>conf_write_autoconf\<close> and their moves. \<open>Kc_Main\<close>, \<open>Kc_Main_Props\<close> (\<open>conf.c\<close>): the options and \<open>main\<close>, in each mode the order
    of reading, updating and writing; what a status of 0 says about the files.
  \<^item> \<open>Kc_Conf\<close>, \<open>Kc_ConfFile\<close>, \<open>Kc_Write\<close>, \<open>Kc_Write_Total\<close>, \<open>Kc_Auto\<close>, \<open>Kc_Auto_Props\<close> (\<open>confdata.c\<close>): lines, reading and writing
    configurations, the files of \<open>include/config\<close>, the modes for new symbols (locale \<open>conf_writer\<close>).
  \<^item> \<open>Toolchain_Wrapper\<close>: arguments of the compiler. \<open>Mcookie\<close>: MD5 (locale \<open>incremental_hash\<close>) and the cookie.
  \<^item> \<open>Mkpimage\<close>: images for a boot ROM. \<open>Mkpimage_Crc\<close>: its check as a division of polynomials. \<open>Mkpimage_Props\<close>: what the ROM
    checks (\<open>rom_accepts\<close>, \<open>reaches\<close>), and the writes outside the buffer.
  \<^item> \<open>Makedevs\<close>, \<open>Makedevs_Props\<close>: the table of devices, scanned as \<open>sscanf\<close> does it, and the calls that each line makes; the
    answers of the system may depend on the calls before. Which nodes an entry makes, their numbers, what a status of 0 says. \<open>Mkpasswd\<close>, \<open>Mkpasswd_Props\<close>: options, salts and the check of the hash, with
    \<open>crypt\<close> as an argument.

  \<^bold>\<open>Bounds and fuel.\<close> Functions whose recursion follows pointers have an argument that bounds its depth and return
  None when it is used up. For each a theorem says how much is enough: \<open>sym_calc_value\<close> needs a number larger than
  that of the symbols of the table (the mark \<open>SYMBOL_VALID\<close> is set before the dependencies are calculated), the
  dependency check likewise with the marks \<open>SYMBOL_CHECK\<close> and \<open>SYMBOL_CHECKED\<close>, the loops over menus, questions included, the number of
  entries (twice, for entries and lists), and the elimination of duplicates the square of the number of nodes. The loops of
  \<open>main\<close> and of the parser have the bound \<open>me_loops\<close>; \<open>olddefconfig_writes\<close> says how large it has to be. The remaining
  recursions are structural or have a measure.

  \<^bold>\<open>Not modelled.\<close> The text of warnings about unmet dependencies; the tables of the parser and its
  recovery from syntax errors: a file is the list of statements that the grammar makes of it;
  the front ends on terminals and windows (\<open>mconf.c\<close>, \<open>nconf.c\<close>, \<open>gconf.c\<close>, \<open>qconf.cc\<close>: curses, GTK and Qt around the
  functions above); \<open>getopt_long\<close>, which gives \<open>main\<close> a list
  of options, and the seed of \<open>rand\<close>; messages on the error output; the length of the buffers for names of files; what the operating
  system does with files, apart from the calls that \<open>confdata.c\<close> makes for directories, names and renaming. The
  drivers and demo programs below \<open>package/rockchip\<close> talk to devices, and their logic is in registers that are
  not part of the repository; the decoder of \<open>package/rockchip/rkjpeg\<close> parses the headers of a picture into such registers.
\<close>

end
